(* ===== verification/Prelude.thy ===== *)
theory Prelude
  imports Complex_Main "HOL-Library.AList"
begin

text \<open>
  The vocabulary the component theories share: JavaScript numbers as exact rationals with
  the value NaN, the rounding functions of the source, decimal printing and parsing of
  integers, nullable strings, JavaScript \<open>Map\<close> objects as association lists in insertion
  order, and the interface \<open>upsert_store\<close> of everything that is written by key.
\<close>

named_theorems js_eval "equations that evaluate the JavaScript primitives on literals"
named_theorems grid_intros "closure facts about decimal grids"

section \<open>Numbers\<close>

text \<open>
  A JavaScript number is modelled by the exact rational it stands for, or NaN. IEEE
  rounding of doubles is not modelled: a kWh amount is the exact decimal the source
  means, and the explicit roundings of the source are functions below. Infinity does not
  arise, since no modelled operation divides by a variable.
\<close>

datatype jsnum = NaN | Num rat

fun jadd :: "jsnum \<Rightarrow> jsnum \<Rightarrow> jsnum" where
  "jadd (Num x) (Num y) = Num (x + y)"
| "jadd _ _ = NaN"

fun jsub :: "jsnum \<Rightarrow> jsnum \<Rightarrow> jsnum" where
  "jsub (Num x) (Num y) = Num (x - y)"
| "jsub _ _ = NaN"

fun jmap :: "(rat \<Rightarrow> rat) \<Rightarrow> jsnum \<Rightarrow> jsnum" where
  "jmap f NaN = NaN"
| "jmap f (Num x) = Num (f x)"

text \<open>\<open>a <= b\<close>: every comparison with NaN is false.\<close>

fun jle :: "jsnum \<Rightarrow> jsnum \<Rightarrow> bool" where
  "jle (Num x) (Num y) = (x \<le> y)"
| "jle _ _ = False"

lemma jmap_eq_Num: "jmap f x = Num y \<longleftrightarrow> (\<exists>r. x = Num r \<and> y = f r)"
  by (cases x) auto

lemma jsub_eq_Num: "jsub x y = Num z \<longleftrightarrow> (\<exists>a b. x = Num a \<and> y = Num b \<and> z = a - b)"
  by (cases x; cases y) auto

lemma jadd_eq_Num: "jadd x y = Num z \<longleftrightarrow> (\<exists>a b. x = Num a \<and> y = Num b \<and> z = a + b)"
  by (cases x; cases y) auto

lemma jsub_NaN [simp]: "jsub x NaN = NaN" "jsub NaN x = NaN"
  by (cases x; simp)+

lemma jadd_NaN [simp]: "jadd x NaN = NaN" "jadd NaN x = NaN"
  by (cases x; simp)+

text \<open>\<open>Math.round\<close> rounds halves up; \<open>toFixed\<close> rounds the magnitude.\<close>

definition js_round :: "rat \<Rightarrow> int" where
  "js_round x = \<lfloor>x + 1 / 2\<rfloor>"

definition round_dp :: "nat \<Rightarrow> rat \<Rightarrow> rat" where
  "round_dp d x = of_int (js_round (x * 10 ^ d)) / 10 ^ d"

definition fixed_val :: "nat \<Rightarrow> rat \<Rightarrow> rat" where
  "fixed_val d x = (if x < 0 then - (of_int \<lfloor>- x * 10 ^ d + 1 / 2\<rfloor> / 10 ^ d)
                    else of_int \<lfloor>x * 10 ^ d + 1 / 2\<rfloor> / 10 ^ d)"

text \<open>\<open>grid d x\<close>: \<open>x\<close> has at most \<open>d\<close> decimals.\<close>

definition grid :: "nat \<Rightarrow> rat \<Rightarrow> bool" where
  "grid d x \<longleftrightarrow> x * 10 ^ d \<in> \<int>"

lemma floor_half: "\<lfloor>of_int n + 1 / 2 :: rat\<rfloor> = n"
  by (simp add: floor_eq_iff)

lemma js_round_of_int [simp]: "js_round (of_int n) = n"
  by (simp add: js_round_def floor_half)

lemma grid_0 [grid_intros, simp]: "grid d 0"
  by (simp add: grid_def)

lemma grid_of_int [grid_intros]: "grid d (of_int n)"
  by (simp add: grid_def)

lemma grid_add [grid_intros]: "grid d x \<Longrightarrow> grid d y \<Longrightarrow> grid d (x + y)"
  by (simp add: grid_def ring_distribs)

lemma grid_diff [grid_intros]: "grid d x \<Longrightarrow> grid d y \<Longrightarrow> grid d (x - y)"
  by (simp add: grid_def left_diff_distrib)

lemma grid_mono: "grid d x \<Longrightarrow> d \<le> e \<Longrightarrow> grid e x"
proof -
  assume g: "grid d x" and le: "d \<le> e"
  from g obtain n where n: "x * 10 ^ d = of_int n"
    unfolding grid_def by (elim Ints_cases)
  have "(10::rat) ^ e = 10 ^ d * 10 ^ (e - d)"
    using le by (metis le_add_diff_inverse power_add)
  then have "x * 10 ^ e = of_int n * 10 ^ (e - d)"
    by (metis n mult.assoc)
  also have "\<dots> = of_int (n * 10 ^ (e - d))" by simp
  finally show ?thesis unfolding grid_def by (rule ssubst) (rule Ints_of_int)
qed

lemma grid_thousandth [grid_intros]: "grid 3 (of_int n / 1000)"
  by (simp add: grid_def)

lemma grid_thousandth6 [grid_intros]: "grid 6 (of_int n / 1000)"
  by (rule grid_mono [OF grid_thousandth]) simp

lemma grid_thousandth6_diff [grid_intros]: "grid 6 ((of_int m - of_int n) / 1000)"
  using grid_thousandth6 [of "m - n"] by simp

lemma grid_round_dp [grid_intros, simp]: "grid d (round_dp d x)"
  by (simp add: grid_def round_dp_def)

lemma grid_fixed_val [grid_intros, simp]: "grid d (fixed_val d x)"
  by (simp add: grid_def fixed_val_def)

lemma round_dp_grid: "grid d x \<Longrightarrow> round_dp d x = x"
  unfolding grid_def round_dp_def by (elim Ints_cases) (simp add: field_simps)

lemma fixed_val_grid: "grid d x \<Longrightarrow> fixed_val d x = x"
proof -
  assume "grid d x"
  then obtain n where n: "x * 10 ^ d = of_int n"
    unfolding grid_def by (elim Ints_cases)
  then have m: "- x * 10 ^ d = of_int (- n)" by simp
  have "x = of_int n / 10 ^ d"
    using n by (simp add: field_simps)
  then show ?thesis
    unfolding fixed_val_def n m floor_half by simp
qed

text \<open>Rounding moves a number by at most half a unit of the last place.\<close>

lemma round_dp_close: "\<bar>round_dp d x - x\<bar> \<le> 1 / 2 / 10 ^ d"
proof -
  have "\<bar>of_int (js_round (x * 10 ^ d)) - x * 10 ^ d\<bar> \<le> 1 / 2"
    unfolding js_round_def by linarith
  moreover have "round_dp d x - x = (of_int (js_round (x * 10 ^ d)) - x * 10 ^ d) / 10 ^ d"
    by (simp add: round_dp_def field_simps)
  ultimately show ?thesis
    by (simp only: abs_divide) (simp add: field_simps)
qed

lemma round_dp_nonneg: "0 \<le> x \<Longrightarrow> 0 \<le> round_dp d x"
  by (simp add: round_dp_def js_round_def)

lemma floor_divide_numeral [js_eval]:
  "\<lfloor>(numeral a / numeral b :: rat)\<rfloor> = numeral a div numeral b"
  by (metis floor_divide_of_int_eq of_int_numeral)

section \<open>Decimal text\<close>

definition is_digit :: "char \<Rightarrow> bool" where
  "is_digit c \<longleftrightarrow> 48 \<le> (of_char c :: nat) \<and> (of_char c :: nat) \<le> 57"

definition digit_char :: "nat \<Rightarrow> char" where
  "digit_char n = char_of (48 + n)"

fun show_nat :: "nat \<Rightarrow> string" where
  "show_nat n = (if n < 10 then [digit_char n] else show_nat (n div 10) @ [digit_char (n mod 10)])"

declare show_nat.simps [simp del]

definition show_int :: "int \<Rightarrow> string" where
  "show_int i = (if i < 0 then CHR ''-'' # show_nat (nat (- i)) else show_nat (nat i))"

definition digits_val :: "string \<Rightarrow> nat" where
  "digits_val ds = foldl (\<lambda>acc c. acc * 10 + (of_char c - 48)) 0 ds"

definition js_space :: "char \<Rightarrow> bool" where
  "js_space c \<longleftrightarrow> (of_char c :: nat) \<in> {9, 10, 11, 12, 13, 32}"

text \<open>
  \<open>parseInt(s, 10)\<close>: leading blanks, one sign, the longest run of digits, NaN without a
  digit. Trailing text is ignored.
\<close>

definition parse_int :: "string \<Rightarrow> jsnum" where
  "parse_int s =
     (let s1 = dropWhile js_space s;
          neg = (case s1 of c # _ \<Rightarrow> c = CHR ''-'' | [] \<Rightarrow> False);
          s2 = (case s1 of c # r \<Rightarrow> if c = CHR ''-'' \<or> c = CHR ''+'' then r else s1 | [] \<Rightarrow> []);
          ds = takeWhile is_digit s2
      in if ds = [] then NaN
         else Num (of_int ((if neg then - 1 else 1) * int (digits_val ds))))"

lemma of_char_digit: "n < 10 \<Longrightarrow> (of_char (digit_char n) :: nat) = 48 + n"
  by (simp add: digit_char_def)

lemma is_digit_digit_char: "n < 10 \<Longrightarrow> is_digit (digit_char n)"
  by (simp add: is_digit_def of_char_digit)

lemma show_nat_digits: "\<forall>c \<in> set (show_nat n). is_digit c"
proof (induction n rule: show_nat.induct)
  case (1 n)
  show ?case
  proof (cases "n < 10")
    case True
    then show ?thesis by (subst show_nat.simps) (simp add: is_digit_digit_char)
  next
    case False
    with 1 show ?thesis
      by (subst show_nat.simps) (auto simp: is_digit_digit_char)
  qed
qed

lemma show_nat_Nil [simp]: "show_nat n \<noteq> []"
  by (subst show_nat.simps) simp

lemma digits_val_show_nat [simp]: "digits_val (show_nat n) = n"
proof (induction n rule: show_nat.induct)
  case (1 n)
  show ?case
  proof (cases "n < 10")
    case True
    then show ?thesis
      by (subst show_nat.simps) (simp add: digits_val_def of_char_digit)
  next
    case False
    then have "digits_val (show_nat n) = digits_val (show_nat (n div 10)) * 10 + n mod 10"
      by (subst show_nat.simps) (simp add: digits_val_def of_char_digit)
    with 1 False show ?thesis by simp
  qed
qed

lemma show_nat_inject [simp]: "show_nat m = show_nat n \<longleftrightarrow> m = n"
  by (metis digits_val_show_nat)

lemma digit_not_special:
  "is_digit c \<Longrightarrow> \<not> js_space c \<and> c \<noteq> CHR ''-'' \<and> c \<noteq> CHR ''+''"
  by (auto simp: is_digit_def js_space_def)

lemma takeWhile_show_nat: "takeWhile is_digit (show_nat n) = show_nat n"
  using show_nat_digits by (simp add: takeWhile_eq_all_conv)

lemma show_nat_Cons: obtains c r where "show_nat n = c # r" "is_digit c"
  using show_nat_digits [of n] by (cases "show_nat n") auto

lemma show_int_Nil [simp]: "show_int i \<noteq> []"
  by (simp add: show_int_def)

lemma show_int_inject [simp]: "show_int i = show_int j \<longleftrightarrow> i = j"
proof -
  have dash: "show_nat m \<noteq> CHR ''-'' # r" for m r
    using show_nat_digits [of m] digit_not_special by fastforce
  show ?thesis
    by (auto simp: show_int_def dash dash [symmetric])
qed

text \<open>Parsing an integer the program printed gives the integer back.\<close>

lemma parse_show_int: "parse_int (show_int i) = Num (of_int i)"
proof -
  obtain c r where cr: "show_nat (nat i) = c # r" "is_digit c" by (rule show_nat_Cons)
  obtain c' r' where cr': "show_nat (nat (- i)) = c' # r'" "is_digit c'" by (rule show_nat_Cons)
  show ?thesis
  proof (cases "i < 0")
    case True
    have sp: "\<not> js_space (CHR ''-'')" by (simp add: js_space_def)
    from True show ?thesis
      by (simp add: show_int_def parse_int_def sp Let_def takeWhile_show_nat)
  next
    case False
    have "dropWhile js_space (show_nat (nat i)) = show_nat (nat i)"
      using cr digit_not_special by simp
    moreover have "c \<noteq> CHR ''-''" "c \<noteq> CHR ''+''"
      using cr(2) digit_not_special by auto
    ultimately have "parse_int (show_nat (nat i)) = Num (of_int (int (digits_val (show_nat (nat i)))))"
      using takeWhile_show_nat [of "nat i"] by (simp add: parse_int_def Let_def cr(1))
    with False show ?thesis by (simp add: show_int_def)
  qed
qed

text \<open>
  \<open>toFixed(d)\<close> as text. The digits of the scaled magnitude are padded with zeros to at
  least \<open>d + 1\<close> places before the point is inserted.
\<close>

definition scaled :: "nat \<Rightarrow> rat \<Rightarrow> nat" where
  "scaled d x = nat \<lfloor>\<bar>x\<bar> * 10 ^ d + 1 / 2\<rfloor>"

definition pad_zeros :: "nat \<Rightarrow> string \<Rightarrow> string" where
  "pad_zeros n s = replicate (n - length s) (CHR ''0'') @ s"

definition fixed_str :: "nat \<Rightarrow> rat \<Rightarrow> string" where
  "fixed_str d x =
     (let ds = pad_zeros (d + 1) (show_nat (scaled d x));
          body = (if d = 0 then ds else take (length ds - d) ds @ ''.'' @ drop (length ds - d) ds)
      in if x < 0 then CHR ''-'' # body else body)"

fun js_fixed_str :: "nat \<Rightarrow> jsnum \<Rightarrow> string" where
  "js_fixed_str d NaN = ''NaN''"
| "js_fixed_str d (Num x) = fixed_str d x"

text \<open>Reading such a text: the value of its digits over the power of ten of its decimals.\<close>

definition decimal_val :: "string \<Rightarrow> rat" where
  "decimal_val s = of_nat (digits_val (filter is_digit s)) / 10 ^ length (drop 1 (dropWhile is_digit s))"

lemma digits_val_zeros: "digits_val (replicate k (CHR ''0'') @ s) = digits_val s"
  by (induction k) (simp_all add: digits_val_def)

lemma pad_zeros_digits: "\<forall>c \<in> set s. is_digit c \<Longrightarrow> \<forall>c \<in> set (pad_zeros n s). is_digit c"
  by (auto simp: pad_zeros_def is_digit_def)

text \<open>Printing with \<open>d\<close> decimals and reading back gives the rounded amount.\<close>

lemma decimal_fixed_str:
  assumes "0 \<le> x" "0 < d"
  shows "decimal_val (fixed_str d x) = fixed_val d x"
proof -
  let ?ds = "pad_zeros (d + 1) (show_nat (scaled d x))"
  let ?k = "length ?ds - d"
  have dig: "\<forall>c \<in> set ?ds. is_digit c" by (rule pad_zeros_digits [OF show_nat_digits])
  then have front: "\<forall>c \<in> set (take ?k ?ds). is_digit c" and rear: "\<forall>c \<in> set (drop ?k ?ds). is_digit c"
    by (auto dest: in_set_takeD in_set_dropD)
  have dot: "\<not> is_digit (CHR ''.'')" by (simp add: is_digit_def)
  have str: "fixed_str d x = take ?k ?ds @ CHR ''.'' # drop ?k ?ds"
    using assms by (simp add: fixed_str_def Let_def)
  have "filter is_digit (fixed_str d x) = ?ds"
    unfolding str using front rear dot by (simp add: filter_True)
  moreover have "length ?ds \<ge> d" by (simp add: pad_zeros_def)
  then have "length (drop 1 (dropWhile is_digit (fixed_str d x))) = d"
    unfolding str using front dot by (simp add: dropWhile_append)
  moreover have "digits_val ?ds = scaled d x"
    by (simp add: pad_zeros_def digits_val_zeros)
  ultimately show ?thesis
    using assms by (simp add: decimal_val_def scaled_def fixed_val_def)
qed

section \<open>Nullable strings\<close>

text \<open>JavaScript truthiness of \<open>string | null | undefined\<close>: absent and empty are falsy.\<close>

definition truthy :: "string option \<Rightarrow> bool" where
  "truthy s \<longleftrightarrow> (case s of None \<Rightarrow> False | Some x \<Rightarrow> x \<noteq> [])"

lemma truthy_simps [simp]: "\<not> truthy None" "truthy (Some x) \<longleftrightarrow> x \<noteq> []"
  by (simp_all add: truthy_def)

lemma truthyE: assumes "truthy s" obtains x where "s = Some x" "x \<noteq> []"
  using assms by (auto simp: truthy_def split: option.splits)

section \<open>Maps and keyed stores\<close>

text \<open>
  A JavaScript \<open>Map\<close> keeps insertion order, \<open>set\<close> of a present key overwrites in place:
  an association list with \<open>AList.update\<close> and \<open>AList.delete\<close>.
\<close>

type_synonym ('k, 'v) jsmap = "('k \<times> 'v) list"

lemma map_of_update: "map_of (AList.update k v m) = (map_of m)(k \<mapsto> v)"
  by (rule update_conv')

lemma map_of_delete: "map_of (AList.delete k m) = (map_of m)(k := None)"
  by (rule delete_conv')

lemma set_delete_subset: "set (AList.delete k m) \<subseteq> set m"
  by (auto simp: AList.delete_eq)

lemma set_update_subset: "set (AList.update k v m) \<subseteq> insert (k, v) (set m)"
  by (induction m) auto

lemma distinct_keys_update: "distinct (map fst m) \<Longrightarrow> distinct (map fst (AList.update k v m))"
  by (rule distinct_update)

text \<open>
  What a client may rely on in a store that is written by key: a database table with a
  UNIQUE column and \<open>ON CONFLICT DO UPDATE\<close>, or a \<open>Map\<close> filled in a loop.
\<close>

locale upsert_store =
  fixes look :: "'s \<Rightarrow> 'k \<Rightarrow> 'v option"
    and put :: "'v \<Rightarrow> 's \<Rightarrow> 's"
    and key :: "'v \<Rightarrow> 'k"
  assumes look_put: "look (put v s) k = (if k = key v then Some v else look s k)"
begin

text \<open>Writing a list of rows one after the other: the last row of a key wins.\<close>

lemma look_puts:
  "look (fold put vs s) k =
     (case find (\<lambda>v. key v = k) (rev vs) of Some v \<Rightarrow> Some v | None \<Rightarrow> look s k)"
proof (induction vs arbitrary: s)
  case Nil
  then show ?case by simp
next
  case (Cons v vs)
  have split: "find P (xs @ [v]) = (case find P xs of Some y \<Rightarrow> Some y | None \<Rightarrow> if P v then Some v else None)"
    for P and xs :: "'v list"
    by (induction xs) auto
  show ?case
    by (auto simp: Cons look_put split split: option.splits)
qed

lemma look_puts_other: "k \<notin> key ` set vs \<Longrightarrow> look (fold put vs s) k = look s k"
  by (induction vs arbitrary: s) (auto simp: look_put)

lemma look_puts_mem:
  assumes "distinct (map key vs)" "v \<in> set vs"
  shows "look (fold put vs s) (key v) = Some v"
  using assms
proof (induction vs arbitrary: s)
  case Nil
  then show ?case by simp
next
  case (Cons w vs)
  show ?case
  proof (cases "v = w")
    case True
    with Cons.prems have "key v \<notin> key ` set vs" by auto
    then show ?thesis using True by (simp add: look_puts_other look_put)
  next
    case False
    with Cons show ?thesis by auto
  qed
qed

lemma look_puts_cases:
  "look (fold put vs s) k = Some v \<Longrightarrow> v \<in> set vs \<and> key v = k \<or> look s k = Some v"
  by (induction vs arbitrary: s) (force simp: look_put split: if_splits)+

end

text \<open>A \<open>Map\<close> built from the rows themselves, \<open>new Map(rows.map((r) => [r.key, r]))\<close>.\<close>

definition map_put :: "('v \<Rightarrow> 'k) \<Rightarrow> 'v \<Rightarrow> ('k, 'v) jsmap \<Rightarrow> ('k, 'v) jsmap" where
  "map_put key v m = AList.update (key v) v m"

definition map_from :: "('v \<Rightarrow> 'k) \<Rightarrow> 'v list \<Rightarrow> ('k, 'v) jsmap" where
  "map_from key vs = fold (map_put key) vs []"

interpretation js_rows: upsert_store map_of "map_put key" key for key :: "'v \<Rightarrow> 'k"
  by unfold_locales (simp add: map_put_def map_of_update)

lemma distinct_map_from: "distinct (map fst (map_from key vs))"
proof -
  have "distinct (map fst m) \<Longrightarrow> distinct (map fst (fold (map_put key) vs m))" for m
    by (induction vs arbitrary: m) (simp_all add: map_put_def distinct_update)
  then show ?thesis by (simp add: map_from_def)
qed

lemma map_from_Some:
  "map_of (map_from key vs) k = Some v \<Longrightarrow> v \<in> set vs \<and> key v = k"
  using js_rows.look_puts_cases [of key vs "[]" k v] by (simp add: map_from_def)

lemma map_from_None: "map_of (map_from key vs) k = None \<longleftrightarrow> k \<notin> key ` set vs"
proof -
  have "map_of (fold (map_put key) vs m) k = None \<longleftrightarrow> k \<notin> key ` set vs \<and> map_of m k = None" for m
    by (induction vs arbitrary: m) (auto simp: map_put_def map_of_update)
  then show ?thesis by (simp add: map_from_def)
qed

section \<open>Lists\<close>

lemma find_Some_set: "find P xs = Some x \<Longrightarrow> x \<in> set xs \<and> P x"
  by (induction xs) (auto split: if_splits)

lemma in_set_map_filter: "y \<in> set (List.map_filter f xs) \<longleftrightarrow> (\<exists>x \<in> set xs. f x = Some y)"
  by (induction xs) (auto simp: map_filter_simps split: option.splits)

lemma distinct_map_filter:
  "distinct (map k xs) \<Longrightarrow> (\<And>x y. x \<in> set xs \<Longrightarrow> f x = Some y \<Longrightarrow> g y = k x) \<Longrightarrow>
   distinct (map g (List.map_filter f xs))"
proof (induction xs)
  case Nil
  then show ?case by (simp add: map_filter_simps)
next
  case (Cons x xs)
  have "g ` set (List.map_filter f xs) \<subseteq> k ` set xs"
    using Cons.prems(2) by (force simp: in_set_map_filter)
  moreover have "k x \<notin> k ` set xs" "distinct (map g (List.map_filter f xs))"
    using Cons by (auto intro: Cons.IH)
  moreover have "f x = Some z \<Longrightarrow> g z = k x" for z using Cons.prems(2) by simp
  ultimately show ?case
    by (cases "f x") (simp_all add: map_filter_simps subset_iff image_iff, blast)
qed

lemma distinct_map_filter_pred: "distinct (map f xs) \<Longrightarrow> distinct (map f (filter P xs))"
  by (induction xs) auto

lemma find_None_set: "find P xs = None \<longleftrightarrow> (\<forall>x \<in> set xs. \<not> P x)"
  by (induction xs) auto

lemma find_distinct:
  "distinct (map f xs) \<Longrightarrow> x \<in> set xs \<Longrightarrow> find (\<lambda>y. f y = f x) xs = Some x"
  by (induction xs) (force split: if_splits)+

section \<open>Strings and searches\<close>

definition js_trim :: "string \<Rightarrow> string" where
  "js_trim s = rev (dropWhile js_space (rev (dropWhile js_space s)))"

text \<open>\<open>toLowerCase\<close> and \<open>toUpperCase\<close> on the letters of ASCII.\<close>

definition to_lower :: "string \<Rightarrow> string" where
  "to_lower s = map (\<lambda>c. if (65::nat) \<le> of_char c \<and> (of_char c :: nat) \<le> 90
                         then char_of (of_char c + 32 :: nat) else c) s"

definition to_upper :: "string \<Rightarrow> string" where
  "to_upper s = map (\<lambda>c. if (97::nat) \<le> of_char c \<and> (of_char c :: nat) \<le> 122
                         then char_of (of_char c - 32 :: nat) else c) s"

lemma find_snoc: "find P (xs @ [x]) = (case find P xs of None \<Rightarrow> if P x then Some x else None | Some y \<Rightarrow> Some y)"
  by (induction xs) auto

lemma sort_key_Nil_iff [simp]: "sort_key f xs = [] \<longleftrightarrow> xs = []"
  by (metis length_0_conv length_sort)

end
