(* ===== verification/Tags.thy ===== *)
theory Tags
  imports Prelude
begin

text \<open>
  OCPP tags and their hierarchy (\<open>src/lib/tag-hierarchy.ts\<close>): meta-tag detection, the
  descendants of a tag (depth first, with the visited set of the source), the ancestor
  chain (the \<open>while\<close> loop of the source, which stops on cycles) and the tag tree. The
  loops are total functions: their termination proofs are the proof that cyclic parent
  links never hang the sync.
\<close>

section \<open>The tag row\<close>

text \<open>\<open>StEvEOcppTag\<close> of \<open>src/lib/types/steve.ts\<close>; optional and nullable fields are options.\<close>

record ocpp_tag =
  idTag :: string
  ocppTagPk :: int
  tagNote :: "string option"
  parentIdTag :: "string option"
  expiryDate :: "string option"
  maxActiveTransactionCount :: "int option"
  blocked :: "bool option"
  inTransaction :: "bool option"
  activeTransactionCount :: "int option"
  parentOcppTagPk :: "int option"

definition starts_with :: "string \<Rightarrow> string \<Rightarrow> bool" where
  "starts_with s p \<longleftrightarrow> take (length p) s = p"

text \<open>\<open>isMetaTag\<close>: \<open>META-\<close>, or the legacy \<open>OCPP-\<close> prefix without the device prefix.\<close>

definition isMetaTag :: "string option \<Rightarrow> bool" where
  "isMetaTag t = (case t of None \<Rightarrow> False
     | Some s \<Rightarrow>
         if starts_with s ''META-'' then True
         else if starts_with s ''OCPP-'' \<and> \<not> starts_with s ''OCPP-D-'' then True
         else False)"

section \<open>Descendants\<close>

definition direct_children :: "ocpp_tag list \<Rightarrow> string \<Rightarrow> ocpp_tag list" where
  "direct_children all p = filter (\<lambda>t. parentIdTag t = Some p) all"

text \<open>
  \<open>findChildren\<close> is a recursive closure over \<open>visited\<close> and \<open>children\<close>. Its call stack is
  the first argument here: the tags the enclosing \<open>for\<close> loops still have to look at. A
  call for \<open>child\<close> pushes the direct children of \<open>child\<close>; \<open>child_dfs_append\<close> below shows
  that this is the nested call of the source.
\<close>

function (sequential) child_dfs ::
  "ocpp_tag list \<Rightarrow> ocpp_tag list \<Rightarrow> string list \<Rightarrow> ocpp_tag list \<Rightarrow> string list \<times> ocpp_tag list"
where
  "child_dfs all [] visited children = (visited, children)"
| "child_dfs all (c # cs) visited children =
     (if idTag c \<in> set visited then child_dfs all cs visited children
      else child_dfs all (direct_children all (idTag c) @ cs) (idTag c # visited) (children @ [c]))"
  by pat_completeness auto
termination
proof (relation "measures [\<lambda>(all, st, vis, ch). card (idTag ` (set all \<union> set st) - set vis),
    \<lambda>(all, st, vis, ch). length st]", goal_cases)
  case (2 all c cs visited children)
  have "card (idTag ` (set all \<union> set cs) - set visited)
      \<le> card (idTag ` (set all \<union> set (c # cs)) - set visited)"
    by (rule card_mono) auto
  then show ?case by (auto simp: le_less)
next
  case (3 all c cs visited children)
  have "set (direct_children all (idTag c)) \<subseteq> set all"
    by (auto simp: direct_children_def)
  with 3 have "idTag ` (set all \<union> set (direct_children all (idTag c) @ cs)) - set (idTag c # visited)
      \<subset> idTag ` (set all \<union> set (c # cs)) - set visited"
    by auto
  then have "card (idTag ` (set all \<union> set (direct_children all (idTag c) @ cs)) - set (idTag c # visited))
      < card (idTag ` (set all \<union> set (c # cs)) - set visited)"
    by (intro psubset_card_mono) auto
  then show ?case by simp
qed simp

definition getAllChildTags :: "string \<Rightarrow> ocpp_tag list \<Rightarrow> ocpp_tag list" where
  "getAllChildTags p all = snd (child_dfs all (direct_children all p) [p] [])"

lemma child_dfs_append:
  "child_dfs all (xs @ ys) vis ch =
     (case child_dfs all xs vis ch of (vis', ch') \<Rightarrow> child_dfs all ys vis' ch')"
proof (induction all xs vis ch rule: child_dfs.induct)
  case (1 all visited children)
  then show ?case by simp
next
  case (2 all c cs visited children)
  then show ?case by (cases "idTag c \<in> set visited") auto
qed

text \<open>The recursion of the source: visit \<open>child\<close>, record it, recurse, go on with its siblings.\<close>

lemma child_dfs_nested:
  "child_dfs all (c # cs) vis ch =
    (if idTag c \<in> set vis then child_dfs all cs vis ch
     else case child_dfs all (direct_children all (idTag c)) (idTag c # vis) (ch @ [c])
          of (vis', ch') \<Rightarrow> child_dfs all cs vis' ch')"
  by (simp add: child_dfs_append)

section \<open>Ancestors\<close>

definition getParentTag :: "ocpp_tag \<Rightarrow> ocpp_tag list \<Rightarrow> ocpp_tag option" where
  "getParentTag tag all =
     (if \<not> truthy (parentIdTag tag) then None
      else find (\<lambda>t. Some (idTag t) = parentIdTag tag) all)"

text \<open>The \<open>while\<close> loop of \<open>getAllAncestorTags\<close>, with its visited set.\<close>

function ancestor_loop :: "ocpp_tag list \<Rightarrow> string list \<Rightarrow> ocpp_tag \<Rightarrow> ocpp_tag list" where
  "ancestor_loop all visited current =
     (case parentIdTag current of
        None \<Rightarrow> []
      | Some p \<Rightarrow>
          if p = [] then []
          else if p \<in> set visited then []
          else (case find (\<lambda>t. idTag t = p) all of
                  None \<Rightarrow> []
                | Some parent \<Rightarrow> parent # ancestor_loop all (p # visited) parent))"
  by pat_completeness auto
termination
proof (relation "measure (\<lambda>(all, vis, cur). card (idTag ` set all - set vis))", goal_cases)
  case (2 all visited current p parent)
  then have "p \<in> idTag ` set all"
    by (auto dest!: find_Some_set)
  with 2 have "idTag ` set all - set (p # visited) \<subset> idTag ` set all - set visited"
    by auto
  then have "card (idTag ` set all - set (p # visited)) < card (idTag ` set all - set visited)"
    by (intro psubset_card_mono) auto
  then show ?case by simp
qed simp

declare ancestor_loop.simps [simp del]

definition getAllAncestorTags :: "ocpp_tag \<Rightarrow> ocpp_tag list \<Rightarrow> ocpp_tag list" where
  "getAllAncestorTags tag all = ancestor_loop all [idTag tag] tag"

definition isDescendantOf :: "ocpp_tag \<Rightarrow> string \<Rightarrow> ocpp_tag list \<Rightarrow> bool" where
  "isDescendantOf tag p all = list_ex (\<lambda>a. idTag a = p) (getAllAncestorTags tag all)"

section \<open>The tag tree\<close>

text \<open>
  \<open>buildTagTree\<close> links mutable node objects: \<open>tagMap\<close> holds one node per id, and a node's
  \<open>children\<close> array and \<open>rootTags\<close> hold references. A reference is the id of its node; the
  store maps the id to the tag and its array of references.
\<close>

record tag_forest =
  nodes :: "(string, ocpp_tag \<times> string list) jsmap"
  rootTags :: "string list"

definition tree_create :: "ocpp_tag list \<Rightarrow> (string, ocpp_tag \<times> string list) jsmap" where
  "tree_create tags = fold (\<lambda>t m. AList.update (idTag t) (t, []) m) tags []"

definition tree_link :: "ocpp_tag \<Rightarrow> tag_forest \<Rightarrow> tag_forest" where
  "tree_link tag f =
     (if truthy (parentIdTag tag)
      then (case map_of (nodes f) (the (parentIdTag tag)) of
              Some (p, ch) \<Rightarrow>
                f\<lparr>nodes := AList.update (the (parentIdTag tag)) (p, ch @ [idTag tag]) (nodes f)\<rparr>
            | None \<Rightarrow> f\<lparr>rootTags := rootTags f @ [idTag tag]\<rparr>)
      else f\<lparr>rootTags := rootTags f @ [idTag tag]\<rparr>)"

definition buildTagTree :: "ocpp_tag list \<Rightarrow> tag_forest" where
  "buildTagTree tags = fold tree_link tags \<lparr>nodes = tree_create tags, rootTags = []\<rparr>"

definition children_of :: "tag_forest \<Rightarrow> string \<Rightarrow> string list" where
  "children_of f k = (case map_of (nodes f) k of None \<Rightarrow> [] | Some (t, ch) \<Rightarrow> ch)"

section \<open>The specification: descent along parent links\<close>

inductive descends :: "ocpp_tag list \<Rightarrow> string \<Rightarrow> ocpp_tag \<Rightarrow> bool" for all :: "ocpp_tag list" and p :: string
where
  child: "t \<in> set all \<Longrightarrow> parentIdTag t = Some p \<Longrightarrow> descends all p t"
| down: "descends all p c \<Longrightarrow> t \<in> set all \<Longrightarrow> parentIdTag t = Some (idTag c) \<Longrightarrow> descends all p t"

lemma descends_in: "descends all p t \<Longrightarrow> t \<in> set all"
  by (induction rule: descends.induct) auto

lemma descends_trans: "descends all (idTag c) t \<Longrightarrow> descends all p c \<Longrightarrow> descends all p t"
  by (induction rule: descends.induct) (auto intro: descends.intros)

lemma set_direct_children [simp]:
  "set (direct_children all p) = {t \<in> set all. parentIdTag t = Some p}"
  by (auto simp: direct_children_def)

text \<open>What a run of the depth-first search adds, and that it leaves nothing reachable out.\<close>

definition dfs_adds :: "ocpp_tag list \<Rightarrow> ocpp_tag list \<Rightarrow> string list \<Rightarrow> string list \<Rightarrow> ocpp_tag list \<Rightarrow> bool"
where
  "dfs_adds all st vis vis' new \<longleftrightarrow>
     set vis' = set vis \<union> idTag ` set new \<and> distinct (map idTag new)
     \<and> idTag ` set new \<inter> set vis = {}
     \<and> (\<forall>t \<in> set new. t \<in> set st \<or> (\<exists>c \<in> set st. descends all (idTag c) t))
     \<and> (\<forall>t \<in> set st. idTag t \<in> set vis')
     \<and> (\<forall>c \<in> set new. \<forall>t \<in> set all. parentIdTag t = Some (idTag c) \<longrightarrow> idTag t \<in> set vis')"

lemma dfs_adds_skip:
  "idTag c \<in> set vis \<Longrightarrow> dfs_adds all cs vis vis' new \<Longrightarrow> dfs_adds all (c # cs) vis vis' new"
  by (auto simp: dfs_adds_def)

lemma dfs_adds_visit:
  assumes "idTag c \<notin> set vis" "dfs_adds all (direct_children all (idTag c) @ cs) (idTag c # vis) vis' new"
  shows "dfs_adds all (c # cs) vis vis' (c # new)"
proof -
  have below: "descends all (idTag c) t" if "u \<in> set all" "parentIdTag u = Some (idTag c)"
      "descends all (idTag u) t" for t u
    using that by (meson descends.child descends_trans)
  have "t \<in> set (c # cs) \<or> (\<exists>d \<in> set (c # cs). descends all (idTag d) t)" if "t \<in> set new" for t
  proof -
    from that assms(2) consider "t \<in> set all" "parentIdTag t = Some (idTag c)" | "t \<in> set cs"
      | u where "u \<in> set all" "parentIdTag u = Some (idTag c)" "descends all (idTag u) t"
      | u where "u \<in> set cs" "descends all (idTag u) t"
      unfolding dfs_adds_def by auto
    then show ?thesis by cases (auto intro: descends.child below)
  qed
  then show ?thesis
    using assms unfolding dfs_adds_def by auto
qed

lemma child_dfs_adds:
  "child_dfs all st vis ch = (vis', ch') \<Longrightarrow> \<exists>new. ch' = ch @ new \<and> dfs_adds all st vis vis' new"
proof (induction all st vis ch rule: child_dfs.induct)
  case (1 all visited children)
  then show ?case by (auto simp: dfs_adds_def)
next
  case (2 all c cs visited children)
  show ?case
  proof (cases "idTag c \<in> set visited")
    case True
    with 2 show ?thesis by (fastforce intro: dfs_adds_skip)
  next
    case False
    with "2.prems" have "child_dfs all (direct_children all (idTag c) @ cs) (idTag c # visited) (children @ [c])
        = (vis', ch')" by simp
    from "2.IH"(2) [OF False this] obtain new where "ch' = children @ c # new"
      "dfs_adds all (direct_children all (idTag c) @ cs) (idTag c # visited) vis' new" by auto
    with False show ?thesis by (blast intro: dfs_adds_visit)
  qed
qed

lemma getAllChildTags_adds:
  "distinct (map idTag (getAllChildTags p all)) \<and> p \<notin> idTag ` set (getAllChildTags p all)
   \<and> (\<forall>t \<in> set (getAllChildTags p all). descends all p t)
   \<and> (\<forall>t. descends all p t \<longrightarrow> idTag t \<in> insert p (idTag ` set (getAllChildTags p all)))"
proof -
  obtain vis' ch' where run: "child_dfs all (direct_children all p) [p] [] = (vis', ch')"
    by fastforce
  from child_dfs_adds [OF run] have adds: "dfs_adds all (direct_children all p) [p] vis' ch'"
    by simp
  have kid: "idTag u \<in> set vis'"
    if "u \<in> set all" "parentIdTag u = Some (idTag c)" "idTag c \<in> set vis'" for u c
  proof -
    have "idTag c = p \<or> (\<exists>c' \<in> set ch'. idTag c = idTag c')"
      using that(3) adds by (auto simp: dfs_adds_def)
    with that adds show ?thesis by (auto simp: dfs_adds_def)
  qed
  have "idTag t \<in> set vis'" if "descends all p t" for t
    using that
  proof (induction rule: descends.induct)
    case (child t)
    with adds show ?case by (auto simp: dfs_adds_def)
  next
    case (down c t)
    then show ?case by (blast intro: kid)
  qed
  moreover have "descends all p t" if "t \<in> set ch'" for t
  proof -
    from that adds have "t \<in> set all \<and> parentIdTag t = Some p
        \<or> (\<exists>c. c \<in> set all \<and> parentIdTag c = Some p \<and> descends all (idTag c) t)"
      by (auto simp: dfs_adds_def)
    then show ?thesis by (meson descends.child descends_trans)
  qed
  ultimately show ?thesis
    using adds run by (simp add: dfs_adds_def getAllChildTags_def)
qed

text \<open>
  \<open>getAllChildTags\<close> returns exactly the transitive children of a tag, each id once and
  the tag itself never, whatever cycles the parent links have.
\<close>

theorem getAllChildTags_correct:
  "idTag ` set (getAllChildTags p all) = idTag ` {t. descends all p t} - {p}
   \<and> set (getAllChildTags p all) \<subseteq> {t. descends all p t}
   \<and> distinct (map idTag (getAllChildTags p all))"
  using getAllChildTags_adds [of p all] by blast

section \<open>The ancestor chain\<close>

text \<open>\<open>chain x as\<close>: every element of \<open>as\<close> is the parent of the one before it, the first of \<open>x\<close>.\<close>

fun chain :: "ocpp_tag \<Rightarrow> ocpp_tag list \<Rightarrow> bool" where
  "chain x [] = True"
| "chain x (a # as) = (parentIdTag x = Some (idTag a) \<and> chain a as)"

lemma ancestor_loop_path:
  "chain cur (ancestor_loop all vis cur) \<and> set (ancestor_loop all vis cur) \<subseteq> set all
   \<and> distinct (map idTag (ancestor_loop all vis cur))
   \<and> idTag ` set (ancestor_loop all vis cur) \<inter> set vis = {}"
proof (induction all vis cur rule: ancestor_loop.induct)
  case (1 all visited current)
  show ?case
  proof (cases "\<exists>p a. parentIdTag current = Some p \<and> p \<noteq> [] \<and> p \<notin> set visited
      \<and> find (\<lambda>t. idTag t = p) all = Some a")
    case True
    then obtain p a where p: "parentIdTag current = Some p" "p \<noteq> []" "p \<notin> set visited"
      and a: "find (\<lambda>t. idTag t = p) all = Some a" by blast
    from find_Some_set [OF a] have "a \<in> set all" "idTag a = p" by auto
    with p a "1.IH" [OF p a] show ?thesis
      by (subst (1 2 3 4) ancestor_loop.simps) auto
  next
    case False
    then have "ancestor_loop all visited current = []"
      by (subst ancestor_loop.simps) (auto split: option.splits)
    then show ?thesis by simp
  qed
qed

text \<open>
  \<open>getAllAncestorTags\<close> terminates on every tag list and returns the path of parent
  links, without repetition and without the tag it started from, so it is never longer
  than the tag list.
\<close>

theorem getAllAncestorTags_path:
  "chain t (getAllAncestorTags t all) \<and> set (getAllAncestorTags t all) \<subseteq> set all
   \<and> distinct (map idTag (getAllAncestorTags t all))
   \<and> idTag t \<notin> idTag ` set (getAllAncestorTags t all)
   \<and> length (getAllAncestorTags t all) \<le> length all"
proof -
  note path = ancestor_loop_path [of t all "[idTag t]"]
  then have "distinct (getAllAncestorTags t all)" "set (getAllAncestorTags t all) \<subseteq> set all"
    by (auto simp: getAllAncestorTags_def distinct_map)
  then have "length (getAllAncestorTags t all) \<le> length all"
    by (metis card_length card_mono distinct_card List.finite_set le_trans)
  with path show ?thesis by (auto simp: getAllAncestorTags_def)
qed

lemma ancestor_descends:
  "a \<in> set (ancestor_loop all vis cur) \<Longrightarrow> cur \<in> set all \<Longrightarrow> descends all (idTag a) cur"
proof -
  have "chain cur as \<Longrightarrow> set as \<subseteq> set all \<Longrightarrow> cur \<in> set all \<Longrightarrow> a \<in> set as \<Longrightarrow> descends all (idTag a) cur"
    for as
    by (induction as arbitrary: cur) (auto intro: descends.child descends.down)
  then show "a \<in> set (ancestor_loop all vis cur) \<Longrightarrow> cur \<in> set all \<Longrightarrow> descends all (idTag a) cur"
    using ancestor_loop_path [of cur all vis] by blast
qed

text \<open>\<open>parent_in all R x\<close>: the parent of \<open>x\<close>, when it names a known tag, is in \<open>R\<close>.\<close>

definition parent_in :: "ocpp_tag list \<Rightarrow> string set \<Rightarrow> ocpp_tag \<Rightarrow> bool" where
  "parent_in all R x \<longleftrightarrow>
     (\<forall>p. parentIdTag x = Some p \<and> p \<noteq> [] \<and> p \<in> idTag ` set all \<longrightarrow> p \<in> R)"

lemma ancestor_loop_closed:
  assumes "distinct (map idTag all)" "cur \<in> set all"
    and "\<forall>x \<in> set all. idTag x \<in> set vis \<and> x \<noteq> cur \<longrightarrow> parent_in all (set vis) x"
    and "x \<in> set all" "idTag x \<in> set vis \<union> idTag ` set (ancestor_loop all vis cur)"
  shows "parent_in all (set vis \<union> idTag ` set (ancestor_loop all vis cur)) x"
  using assms
proof (induction all vis cur rule: ancestor_loop.induct)
  case (1 all visited current)
  show ?case
  proof (cases "\<exists>p a. parentIdTag current = Some p \<and> p \<noteq> [] \<and> p \<notin> set visited
      \<and> find (\<lambda>t. idTag t = p) all = Some a")
    case True
    then obtain p a where p: "parentIdTag current = Some p" "p \<noteq> []" "p \<notin> set visited"
      and a: "find (\<lambda>t. idTag t = p) all = Some a" by blast
    from find_Some_set [OF a] have mem: "a \<in> set all" "idTag a = p" by auto
    have "y = a" if "y \<in> set all" "idTag y = p" for y
      using that mem "1.prems"(1) by (metis distinct_map inj_on_def)
    then have "\<forall>y \<in> set all. idTag y \<in> set (p # visited) \<and> y \<noteq> a \<longrightarrow> parent_in all (set (p # visited)) y"
      using "1.prems"(3) p(1) by (fastforce simp: parent_in_def)
    moreover have loop: "ancestor_loop all visited current = a # ancestor_loop all (p # visited) a"
      using p a by (subst ancestor_loop.simps) simp
    ultimately have "parent_in all (set (p # visited) \<union> idTag ` set (ancestor_loop all (p # visited) a)) x"
      using "1.IH" [OF p a "1.prems"(1) mem(1) _ "1.prems"(4)] "1.prems"(5) mem(2) by auto
    then show ?thesis by (simp add: loop mem(2))
  next
    case False
    then have loop: "ancestor_loop all visited current = []"
      by (subst ancestor_loop.simps) (auto split: option.splits)
    have "parent_in all (set visited) current"
      using False by (auto simp: parent_in_def find_None_set)
    with 1 loop show ?thesis by auto
  qed
qed

lemma descends_ancestor:
  assumes "distinct (map idTag all)" "\<forall>x \<in> set all. idTag x \<noteq> []" "p \<in> idTag ` set all"
    and "descends all p t" "idTag t \<noteq> p"
  shows "p \<in> idTag ` set (getAllAncestorTags t all)"
proof -
  let ?R = "set [idTag t] \<union> idTag ` set (ancestor_loop all [idTag t] t)"
  have closed: "parent_in all ?R x" if "x \<in> set all" "idTag x \<in> ?R" for x
  proof (rule ancestor_loop_closed [OF assms(1) descends_in [OF assms(4)] _ that])
    show "\<forall>x \<in> set all. idTag x \<in> set [idTag t] \<and> x \<noteq> t \<longrightarrow> parent_in all (set [idTag t]) x"
      using assms(1) descends_in [OF assms(4)] by (auto simp: distinct_map dest: inj_onD)
  qed
  have "idTag u \<in> ?R \<Longrightarrow> p \<in> ?R" if "descends all p u" for u
    using that
  proof (induction rule: descends.induct)
    case (child u)
    with closed [of u] assms(2,3) show ?case by (fastforce simp: parent_in_def)
  next
    case (down c u)
    then have "c \<in> set all" by (auto dest: descends_in)
    with closed [of u] down assms(2) show ?case by (fastforce simp: parent_in_def)
  qed
  with assms(4,5) show ?thesis by (auto simp: getAllAncestorTags_def)
qed

text \<open>
  The two traversals agree: with unique non-empty ids, a tag is a descendant of
  another by \<open>isDescendantOf\<close> (walking up) exactly when \<open>getAllChildTags\<close> of the other
  (walking down) lists it.
\<close>

theorem isDescendantOf_iff_child:
  assumes "distinct (map idTag all)" "\<forall>x \<in> set all. idTag x \<noteq> []"
    and "t \<in> set all" "p \<in> idTag ` set all" "p \<noteq> idTag t"
  shows "isDescendantOf t p all \<longleftrightarrow> t \<in> set (getAllChildTags p all)"
proof
  assume "isDescendantOf t p all"
  then have "descends all p t"
    using assms(3) by (auto simp: isDescendantOf_def getAllAncestorTags_def list_ex_iff intro: ancestor_descends)
  then have "idTag t \<in> idTag ` set (getAllChildTags p all)"
    using getAllChildTags_adds [of p all] assms(5) by blast
  then obtain u where "u \<in> set (getAllChildTags p all)" "idTag t = idTag u" by auto
  moreover have "u \<in> set all"
    using calculation(1) getAllChildTags_adds [of p all] descends_in by blast
  ultimately show "t \<in> set (getAllChildTags p all)"
    using assms(1,3) by (metis distinct_map inj_on_def)
next
  assume "t \<in> set (getAllChildTags p all)"
  then have "descends all p t" using getAllChildTags_adds [of p all] by blast
  from descends_ancestor [OF assms(1,2,4) this] assms(5) show "isDescendantOf t p all"
    by (auto simp: isDescendantOf_def list_ex_iff)
qed

section \<open>The tree\<close>

lemma tree_create_dom: "map_of (tree_create tags) k = None \<longleftrightarrow> k \<notin> idTag ` set tags"
proof -
  have "map_of (fold (\<lambda>t m. AList.update (idTag t) (t, []) m) tags m) k = None
      \<longleftrightarrow> k \<notin> idTag ` set tags \<and> map_of m k = None" for m :: "(string, ocpp_tag \<times> string list) jsmap"
    by (induction tags arbitrary: m) (auto simp: map_of_update)
  then show ?thesis by (simp add: tree_create_def)
qed

lemma tree_create_children: "map_of (tree_create tags) k = Some (t, ch) \<Longrightarrow> ch = []"
proof -
  have "map_of (fold (\<lambda>t m. AList.update (idTag t) (t, []) m) tags m) k = Some (t, ch) \<Longrightarrow>
      \<forall>k t ch. map_of m k = Some (t, ch) \<longrightarrow> ch = [] \<Longrightarrow> ch = []"
    for m :: "(string, ocpp_tag \<times> string list) jsmap"
    by (induction tags arbitrary: m) (auto simp: map_of_update split: if_splits)
  then show "map_of (tree_create tags) k = Some (t, ch) \<Longrightarrow> ch = []"
    by (simp add: tree_create_def)
qed

text \<open>A tag hangs below its parent when the parent is known, else it is a root.\<close>

definition hangs_below :: "string set \<Rightarrow> string \<Rightarrow> ocpp_tag \<Rightarrow> bool" where
  "hangs_below ids k t \<longleftrightarrow> truthy (parentIdTag t) \<and> parentIdTag t = Some k \<and> k \<in> ids"

definition is_root :: "string set \<Rightarrow> ocpp_tag \<Rightarrow> bool" where
  "is_root ids t \<longleftrightarrow> \<not> truthy (parentIdTag t) \<or> the (parentIdTag t) \<notin> ids"

lemma is_root_iff: "is_root ids t \<longleftrightarrow> \<not> (\<exists>p. hangs_below ids p t)"
  by (auto simp: is_root_def hangs_below_def elim!: truthyE)

lemma tree_link_cases:
  assumes "\<forall>k. map_of (nodes f) k = None \<longleftrightarrow> k \<notin> ids"
  obtains (root) "is_root ids t" "tree_link t f = f\<lparr>rootTags := rootTags f @ [idTag t]\<rparr>"
  | (kid) p q ch where "hangs_below ids p t" "map_of (nodes f) p = Some (q, ch)"
      "tree_link t f = f\<lparr>nodes := AList.update p (q, ch @ [idTag t]) (nodes f)\<rparr>"
proof (cases "truthy (parentIdTag t)")
  case False
  then show ?thesis by (intro root) (simp_all add: is_root_def tree_link_def)
next
  case True
  then obtain p where p: "parentIdTag t = Some p" "p \<noteq> []" by (rule truthyE)
  show ?thesis
  proof (cases "map_of (nodes f) p")
    case None
    with assms have "p \<notin> ids" by blast
    with p None show ?thesis by (intro root) (simp_all add: is_root_def tree_link_def)
  next
    case (Some x)
    with assms have "p \<in> ids" by (metis option.distinct(1))
    with Some p show ?thesis
      by (intro kid [of p "fst x" "snd x"]) (simp_all add: hangs_below_def tree_link_def split_beta)
  qed
qed

lemma tree_link_step:
  assumes "\<forall>k. map_of (nodes f) k = None \<longleftrightarrow> k \<notin> ids"
  shows "rootTags (tree_link t f) = rootTags f @ (if is_root ids t then [idTag t] else [])
    \<and> children_of (tree_link t f) k = children_of f k @ (if hangs_below ids k t then [idTag t] else [])
    \<and> (\<forall>k. map_of (nodes (tree_link t f)) k = None \<longleftrightarrow> k \<notin> ids)"
  using assms
proof (cases rule: tree_link_cases [of f ids t])
  case root
  with assms show ?thesis by (auto simp: is_root_iff children_of_def)
next
  case (kid p q ch)
  then have "\<not> is_root ids t" "hangs_below ids k t \<longleftrightarrow> k = p" for k
    by (auto simp: is_root_iff hangs_below_def)
  moreover have "p \<in> ids" using kid(1) by (simp add: hangs_below_def)
  ultimately show ?thesis
    using kid assms by (simp add: children_of_def map_of_update)
qed

lemma tree_links:
  assumes "\<forall>k. map_of (nodes f) k = None \<longleftrightarrow> k \<notin> ids"
  shows "rootTags (fold tree_link ts f) = rootTags f @ map idTag (filter (is_root ids) ts)
    \<and> children_of (fold tree_link ts f) k = children_of f k @ map idTag (filter (hangs_below ids k) ts)"
  using assms
proof (induction ts arbitrary: f)
  case Nil
  then show ?case by simp
next
  case (Cons t ts)
  note step = tree_link_step [OF Cons.prems]
  with Cons.IH [of "tree_link t f"] show ?case by simp
qed

text \<open>
  \<open>buildTagTree\<close> places every row of the tag list exactly once: below its parent, in
  the order of the list, when the parent is in the list, and among the roots otherwise.
\<close>

theorem buildTagTree_places:
  "rootTags (buildTagTree tags) = map idTag (filter (is_root (idTag ` set tags)) tags)
   \<and> children_of (buildTagTree tags) k = map idTag (filter (hangs_below (idTag ` set tags) k) tags)
   \<and> (is_root (idTag ` set tags) t \<longleftrightarrow> \<not> (\<exists>p. hangs_below (idTag ` set tags) p t))"
proof -
  have "children_of \<lparr>nodes = tree_create tags, rootTags = []\<rparr> k = []"
    using tree_create_children by (fastforce simp: children_of_def split: option.splits)
  then show ?thesis
    using is_root_iff tree_links [of "\<lparr>nodes = tree_create tags, rootTags = []\<rparr>" "idTag ` set tags" tags k]
    by (simp add: buildTagTree_def tree_create_dom)
qed

section \<open>Meta-tags\<close>

lemma starts_with_append [simp]: "starts_with (p @ r) p"
  by (simp add: starts_with_def)

lemma starts_with_iff: "starts_with s p \<longleftrightarrow> (\<exists>r. s = p @ r)"
  unfolding starts_with_def by (metis append_take_drop_id append_eq_conv_conj)

lemma isMetaTag_iff:
  "isMetaTag (Some s) \<longleftrightarrow> starts_with s ''META-'' \<or> starts_with s ''OCPP-'' \<and> \<not> starts_with s ''OCPP-D-''"
  by (simp add: isMetaTag_def)

text \<open>A small cyclic tag list used by the witnesses: \<open>A -> B -> A\<close> and \<open>C -> B\<close>.\<close>

definition tag_of :: "string \<Rightarrow> string option \<Rightarrow> ocpp_tag" where
  "tag_of i p = \<lparr>idTag = i, ocppTagPk = 0, tagNote = None, parentIdTag = p, expiryDate = None,
     maxActiveTransactionCount = None, blocked = None, inTransaction = None,
     activeTransactionCount = None, parentOcppTagPk = None\<rparr>"

definition cyclic_tags :: "ocpp_tag list" where
  "cyclic_tags = [tag_of ''A'' (Some ''B''), tag_of ''B'' (Some ''A''), tag_of ''C'' (Some ''B'')]"

theorem isDescendantOf_iff_child_witness:
  "isDescendantOf (tag_of ''C'' (Some ''B'')) ''A'' cyclic_tags
   \<and> tag_of ''C'' (Some ''B'') \<in> set (getAllChildTags ''A'' cyclic_tags)"
proof -
  have d: "isDescendantOf (tag_of ''C'' (Some ''B'')) ''A'' cyclic_tags"
    by (simp add: isDescendantOf_def getAllAncestorTags_def ancestor_loop.simps cyclic_tags_def tag_of_def)
  then show ?thesis
    using isDescendantOf_iff_child [of cyclic_tags "tag_of ''C'' (Some ''B'')" "''A''"]
    by (simp add: cyclic_tags_def tag_of_def)
qed

end
