(* ===== verification/Mappings.thy ===== *)
theory Mappings
  imports Tags
begin

text \<open>
  Which customer a tag bills to (\<open>src/services/mapping-resolver.ts\<close>): the lookup of direct
  mappings, the inheritance of a parent's mapping along the ancestor chain, and the
  choice of a Lago subscription with the per-run cache. The answer of the Lago API is the
  parameter \<open>lago\<close>: for each customer, \<open>None\<close> when the call throws, otherwise the list
  of subscriptions.
\<close>

section \<open>The mapping row\<close>

text \<open>\<open>user_mappings\<close> of \<open>src/db/schema.ts\<close>, the columns the services read.\<close>

record user_mapping =
  mappingId :: int
  steveOcppTagPk :: int
  steveOcppIdTag :: string
  lagoCustomerExternalId :: "string option"
  lagoSubscriptionExternalId :: "string option"
  displayName :: "string option"
  isActive :: bool
  steveParentIdTag :: "string option"
  steveExpiryDate :: "string option"
  userId :: "string option"

text \<open>
  \<open>resolveMappingWithInheritance\<close>: the direct mapping, else the mapping of the closest
  mapped ancestor. Every mapping is an object, hence truthy.
\<close>

fun first_mapped :: "(string, user_mapping) jsmap \<Rightarrow> ocpp_tag list \<Rightarrow> user_mapping option" where
  "first_mapped m [] = None"
| "first_mapped m (a # as) =
     (case map_of m (idTag a) of Some x \<Rightarrow> Some x | None \<Rightarrow> first_mapped m as)"

definition resolveMappingWithInheritance ::
  "string \<Rightarrow> (string, user_mapping) jsmap \<Rightarrow> ocpp_tag list \<Rightarrow> user_mapping option"
where
  "resolveMappingWithInheritance ocppIdTag m all =
     (case map_of m ocppIdTag of
        Some direct \<Rightarrow> Some direct
      | None \<Rightarrow>
          (case find (\<lambda>t. idTag t = ocppIdTag) all of
             None \<Rightarrow> None
           | Some tag \<Rightarrow>
               if \<not> truthy (parentIdTag tag) then None
               else first_mapped m (getAllAncestorTags tag all)))"

text \<open>\<open>buildMappingLookupWithInheritance\<close>: only active mappings with a Lago identifier count.\<close>

definition usable_mapping :: "user_mapping \<Rightarrow> bool" where
  "usable_mapping m \<longleftrightarrow>
     (truthy (lagoSubscriptionExternalId m) \<or> truthy (lagoCustomerExternalId m)) \<and> isActive m"

definition direct_lookup :: "user_mapping list \<Rightarrow> (string, user_mapping) jsmap" where
  "direct_lookup ms = map_from steveOcppIdTag (filter usable_mapping ms)"

definition inherit_step ::
  "(string, user_mapping) jsmap \<Rightarrow> ocpp_tag list \<Rightarrow> ocpp_tag
     \<Rightarrow> (string, user_mapping) jsmap \<Rightarrow> (string, user_mapping) jsmap"
where
  "inherit_step direct all tag enhanced =
     (if map_of enhanced (idTag tag) \<noteq> None then enhanced
      else (case resolveMappingWithInheritance (idTag tag) direct all of
              None \<Rightarrow> enhanced
            | Some m \<Rightarrow> AList.update (idTag tag) m enhanced))"

definition buildMappingLookupWithInheritance ::
  "user_mapping list \<Rightarrow> ocpp_tag list \<Rightarrow> (string, user_mapping) jsmap"
where
  "buildMappingLookupWithInheritance ms all =
     fold (inherit_step (direct_lookup ms) all) all (direct_lookup ms)"

section \<open>Choosing the subscription\<close>

record resolved_subscription =
  externalId :: string
  planCode :: "string option"

record lago_subscription =
  sub_external_id :: string
  sub_lago_id :: string
  sub_name :: "string option"
  sub_status :: string
  sub_plan_code :: string

type_synonym sub_cache = "(string, resolved_subscription option) jsmap"
type_synonym lago_subs = "string \<Rightarrow> lago_subscription list option"

definition autoselect :: "lago_subscription list \<Rightarrow> resolved_subscription option" where
  "autoselect subs =
     (case find (\<lambda>s. sub_status s = ''active'') subs of
        None \<Rightarrow> None
      | Some s \<Rightarrow> Some \<lparr>externalId = sub_external_id s, planCode = Some (sub_plan_code s)\<rparr>)"

text \<open>
  \<open>resolveSubscription\<close> returns the subscription and the cache it leaves behind. A failed
  Lago call is not cached.
\<close>

definition resolveSubscription ::
  "lago_subs \<Rightarrow> user_mapping \<Rightarrow> sub_cache \<Rightarrow> resolved_subscription option \<times> sub_cache"
where
  "resolveSubscription lago m cache =
     (if truthy (lagoSubscriptionExternalId m)
      then (Some \<lparr>externalId = the (lagoSubscriptionExternalId m), planCode = None\<rparr>, cache)
      else if \<not> truthy (lagoCustomerExternalId m) then (None, cache)
      else let cust = the (lagoCustomerExternalId m) in
        (case map_of cache cust of
           Some cached \<Rightarrow> (cached, cache)
         | None \<Rightarrow>
             (case lago cust of
                None \<Rightarrow> (None, cache)
              | Some subs \<Rightarrow> (autoselect subs, AList.update cust (autoselect subs) cache))))"

definition resolveSubscriptionId :: "lago_subs \<Rightarrow> user_mapping \<Rightarrow> sub_cache \<Rightarrow> string option \<times> sub_cache" where
  "resolveSubscriptionId lago m cache =
     (case resolveSubscription lago m cache of (r, c) \<Rightarrow> (map_option externalId r, c))"

section \<open>Inheritance\<close>

lemma direct_lookup_usable:
  "map_of (direct_lookup ms) k = Some m \<Longrightarrow> m \<in> set ms \<and> usable_mapping m \<and> steveOcppIdTag m = k"
  by (auto simp: direct_lookup_def dest: map_from_Some)

lemma first_mapped_Some:
  "first_mapped m as = Some x \<Longrightarrow> \<exists>a \<in> set as. map_of m (idTag a) = Some x"
  by (induction as) (auto split: option.splits)

lemma first_mapped_closest:
  "first_mapped m as = Some x \<longleftrightarrow>
     (\<exists>us a vs. as = us @ a # vs \<and> map_of m (idTag a) = Some x \<and> (\<forall>u \<in> set us. map_of m (idTag u) = None))"
proof (induction as)
  case Nil
  then show ?case by simp
next
  case (Cons b as)
  show ?case
  proof (cases "map_of m (idTag b)")
    case None
    have "(\<exists>us a vs. b # as = us @ a # vs \<and> map_of m (idTag a) = Some x \<and> (\<forall>u \<in> set us. map_of m (idTag u) = None))
      \<longleftrightarrow> (\<exists>us a vs. as = us @ a # vs \<and> map_of m (idTag a) = Some x \<and> (\<forall>u \<in> set us. map_of m (idTag u) = None))"
      using None by (fastforce simp: Cons_eq_append_conv intro: exI [of _ "b # _"])
    with Cons None show ?thesis by simp
  next
    case (Some y)
    then show ?thesis by (fastforce simp: Cons_eq_append_conv)
  qed
qed

lemma resolve_Some:
  "resolveMappingWithInheritance k m all = Some x \<Longrightarrow> \<exists>k'. map_of m k' = Some x"
  by (auto simp: resolveMappingWithInheritance_def dest: first_mapped_Some split: option.splits if_splits)

lemma inherit_step_lookup:
  assumes "\<forall>k x. map_of direct k = Some x \<longrightarrow> map_of enh k = Some x"
    and "\<forall>k x. map_of enh k = Some x \<longrightarrow> resolveMappingWithInheritance k direct all = Some x"
  shows "map_of (inherit_step direct all t enh) k =
    (if k = idTag t \<and> map_of enh k = None then resolveMappingWithInheritance k direct all else map_of enh k)"
  by (auto simp: inherit_step_def map_of_update split: option.splits)

lemma inherit_fold:
  assumes "\<forall>k x. map_of direct k = Some x \<longrightarrow> map_of enh k = Some x"
    and "\<forall>k x. map_of enh k = Some x \<longrightarrow> resolveMappingWithInheritance k direct all = Some x"
  shows "map_of (fold (inherit_step direct all) ts enh) k =
    (if k \<in> idTag ` set ts then resolveMappingWithInheritance k direct all else map_of enh k)"
  using assms
proof (induction ts arbitrary: enh)
  case Nil
  then show ?case by simp
next
  case (Cons t ts)
  let ?enh = "inherit_step direct all t enh"
  note step = inherit_step_lookup [OF Cons.prems]
  have "\<forall>k x. map_of direct k = Some x \<longrightarrow> map_of ?enh k = Some x"
    using Cons.prems by (auto simp: step)
  moreover have "\<forall>k x. map_of ?enh k = Some x \<longrightarrow> resolveMappingWithInheritance k direct all = Some x"
    using Cons.prems by (auto simp: step split: if_splits)
  moreover have "map_of enh k = resolveMappingWithInheritance k direct all" if "map_of enh k \<noteq> None"
    using that Cons.prems(2) by force
  ultimately show ?case
    using Cons.IH [of ?enh] by (auto simp: step)
qed

lemma mapping_lookup_at:
  "map_of (buildMappingLookupWithInheritance ms all) k =
     (if k \<in> idTag ` set all then resolveMappingWithInheritance k (direct_lookup ms) all
      else map_of (direct_lookup ms) k)"
  unfolding buildMappingLookupWithInheritance_def
  by (rule inherit_fold) (auto simp: resolveMappingWithInheritance_def)

lemma lookup_in_direct:
  "map_of (buildMappingLookupWithInheritance ms all) k = Some m \<Longrightarrow>
   \<exists>k'. map_of (direct_lookup ms) k' = Some m"
  by (auto simp: mapping_lookup_at dest: resolve_Some split: if_splits)

lemma distinct_buildMappingLookup:
  "distinct (map fst (buildMappingLookupWithInheritance ms all))"
proof -
  have "distinct (map fst m) \<Longrightarrow> distinct (map fst (fold (inherit_step d all) ts m))" for d m ts
    by (induction ts arbitrary: m) (auto simp: inherit_step_def distinct_update split: option.splits)
  then show ?thesis
    by (simp add: buildMappingLookupWithInheritance_def direct_lookup_def distinct_map_from)
qed


text \<open>
  A soft-deactivated mapping never bills, not even through inheritance: every entry of
  the lookup table is an active mapping row of the database with a Lago customer or
  subscription.
\<close>

theorem mapping_lookup_active:
  assumes "map_of (buildMappingLookupWithInheritance ms all) k = Some m"
  shows "m \<in> set ms \<and> isActive m
    \<and> (truthy (lagoSubscriptionExternalId m) \<or> truthy (lagoCustomerExternalId m))"
  using lookup_in_direct [OF assms] direct_lookup_usable by (auto simp: usable_mapping_def)

section \<open>The cache is transparent\<close>

definition cache_ok :: "lago_subs \<Rightarrow> sub_cache \<Rightarrow> bool" where
  "cache_ok lago cache \<longleftrightarrow>
     (\<forall>c r. map_of cache c = Some r \<longrightarrow> (\<exists>subs. lago c = Some subs \<and> r = autoselect subs))"

lemma cache_ok_Nil [simp]: "cache_ok lago []"
  by (simp add: cache_ok_def)

lemma cache_okD:
  "cache_ok lago cache \<Longrightarrow> map_of cache c = Some r \<Longrightarrow> \<exists>subs. lago c = Some subs \<and> r = autoselect subs"
  by (simp add: cache_ok_def)

lemma resolveSubscription_cache_ok:
  "cache_ok lago cache \<Longrightarrow> cache_ok lago (snd (resolveSubscription lago m cache))"
  by (auto simp: resolveSubscription_def cache_ok_def Let_def map_of_update split: option.splits if_splits)

lemma resolveSubscription_uncached:
  assumes "cache_ok lago cache"
  shows "fst (resolveSubscription lago m cache) = fst (resolveSubscription lago m [])"
  using assms
  by (cases "map_of cache (the (lagoCustomerExternalId m))")
    (auto simp: resolveSubscription_def Let_def dest: cache_okD split: option.splits)

text \<open>The plan code is known only for an auto-selected subscription.\<close>

lemma resolveSubscription_explicit:
  "truthy (lagoSubscriptionExternalId m) \<Longrightarrow>
   resolveSubscription lago m cache =
     (Some \<lparr>externalId = the (lagoSubscriptionExternalId m), planCode = None\<rparr>, cache)"
  by (simp add: resolveSubscription_def)

lemma autoselect_active:
  "autoselect subs = Some r \<Longrightarrow>
   \<exists>s \<in> set subs. sub_status s = ''active'' \<and> externalId r = sub_external_id s
     \<and> planCode r = Some (sub_plan_code s)"
  by (auto simp: autoselect_def dest!: find_Some_set split: option.splits)

section \<open>Witnesses\<close>

definition mapping_of :: "int \<Rightarrow> string \<Rightarrow> string option \<Rightarrow> string option \<Rightarrow> bool \<Rightarrow> user_mapping" where
  "mapping_of i t c s a = \<lparr>mappingId = i, steveOcppTagPk = i, steveOcppIdTag = t,
     lagoCustomerExternalId = c, lagoSubscriptionExternalId = s, displayName = None, isActive = a,
     steveParentIdTag = None, steveExpiryDate = None, userId = None\<rparr>"


theorem mapping_lookup_active_witness:
  "isActive (mapping_of 1 ''A'' (Some ''cus'') None True)"
proof -
  let ?m = "mapping_of 1 ''A'' (Some ''cus'') None True"
  have "map_of (buildMappingLookupWithInheritance [?m, mapping_of 2 ''B'' (Some ''cus'') None False] []) ''A''
      = Some ?m"
    by (simp add: buildMappingLookupWithInheritance_def direct_lookup_def map_from_def map_put_def
        usable_mapping_def mapping_of_def)
  from mapping_lookup_active [OF this] show ?thesis by simp
qed

end
