(* ===== verification/SyncDb.thy ===== *)
theory SyncDb
  imports Mappings
begin

text \<open>
  The database operations of a sync run (\<open>src/services/sync-db.ts\<close>) on the tables of
  \<open>src/db/schema.ts\<close>. A table is the list of its rows. PostgreSQL rejects a value outside
  its column type, a second row of a UNIQUE column, and rolls a failed transaction back;
  a rejected statement is \<open>None\<close>. \<open>now\<close> is the clock in milliseconds.
\<close>

section \<open>Tables\<close>

record sync_state =
  ss_transactionId :: int
  lastSyncedMeterValue :: int
  totalKwhBilled :: "jsnum option"
  lastSyncRunId :: "int option"
  isFinalized :: bool

record synced_event =
  ev_steveTransactionId :: int
  ev_lagoEventTransactionId :: string
  ev_userMappingId :: "int option"
  ev_kwhDelta :: jsnum
  ev_meterValueFrom :: int
  ev_meterValueTo :: int
  ev_isFinal :: bool
  ev_syncRunId :: "int option"

record sync_run =
  sr_id :: int
  sr_startedAt :: int
  sr_completedAt :: "int option"
  sr_status :: string
  tagLinkingStatus :: "string option"
  transactionSyncStatus :: "string option"
  transactionsProcessed :: int
  eventsCreated :: int
  tagsActivated :: int
  tagsDeactivated :: int
  tagsUnchanged :: int
  sr_errors :: "string list option"

record sync_run_log =
  log_syncRunId :: int
  log_segment :: string
  log_level :: string
  log_message :: string
  log_createdAt :: int

record sync_db =
  syncStates :: "sync_state list"
  syncedEvents :: "synced_event list"
  syncRuns :: "sync_run list"
  nextRunId :: int
  mappingRows :: "user_mapping list"
  runLogs :: "sync_run_log list"

text \<open>The rows the services hand to an insert: numbers and \<open>toFixed\<close> texts.\<close>

record new_sync_state =
  ns_transactionId :: int
  ns_meterValue :: jsnum
  ns_totalKwhBilled :: string
  ns_syncRunId :: "int option"
  ns_isFinalized :: bool

record new_synced_event =
  ne_steveTransactionId :: int
  ne_lagoEventTransactionId :: string
  ne_userMappingId :: "int option"
  ne_kwhDelta :: string
  ne_meterValueFrom :: jsnum
  ne_meterValueTo :: jsnum
  ne_isFinal :: bool
  ne_syncRunId :: "int option"

section \<open>Column types\<close>

text \<open>\<open>integer\<close>: 32 bits, no NaN and no fraction.\<close>

fun pg_int4 :: "jsnum \<Rightarrow> int option" where
  "pg_int4 NaN = None"
| "pg_int4 (Num x) =
     (if of_int \<lfloor>x\<rfloor> = x \<and> - (2 ^ 31) \<le> \<lfloor>x\<rfloor> \<and> \<lfloor>x\<rfloor> < 2 ^ 31 then Some \<lfloor>x\<rfloor> else None)"

text \<open>
  \<open>numeric(12, 6)\<close>: rounded to six decimals, six digits before the point; it has a NaN of
  its own.
\<close>

definition signed_val :: "string \<Rightarrow> rat" where
  "signed_val s = (case s of [] \<Rightarrow> 0
     | c # r \<Rightarrow> if c = CHR ''-'' then - decimal_val r else decimal_val s)"

definition pg_numeric :: "string \<Rightarrow> jsnum option" where
  "pg_numeric s =
     (if s = ''NaN'' then Some NaN
      else let v = fixed_val 6 (signed_val s) in if \<bar>v\<bar> < 10 ^ 6 then Some (Num v) else None)"

lemma pg_int4_of_int: "- (2 ^ 31) \<le> n \<Longrightarrow> n < 2 ^ 31 \<Longrightarrow> pg_int4 (Num (of_int n)) = Some n"
  by simp

lemma pg_int4_Some: "pg_int4 x = Some n \<Longrightarrow> x = Num (of_int n)"
  by (cases x) (auto split: if_splits)

lemma fixed_str_hd: "0 \<le> x \<Longrightarrow> \<exists>c r. fixed_str 6 x = c # r \<and> is_digit c"
proof -
  assume x: "0 \<le> x"
  let ?ds = "pad_zeros 7 (show_nat (scaled 6 x))"
  have dig: "\<forall>c \<in> set ?ds. is_digit c" by (rule pad_zeros_digits [OF show_nat_digits])
  have len: "7 \<le> length ?ds" by (simp add: pad_zeros_def)
  then obtain c r where cr: "take (length ?ds - 6) ?ds = c # r"
    by (cases "take (length ?ds - 6) ?ds") (auto simp: take_eq_Nil)
  then have "c \<in> set ?ds" by (metis in_set_takeD list.set_intros(1))
  with x cr dig show ?thesis by (auto simp: fixed_str_def Let_def)
qed

text \<open>A non-negative amount printed with \<open>toFixed(6)\<close> comes back rounded to six decimals.\<close>

lemma pg_numeric_fixed_str:
  assumes "0 \<le> x"
  shows "pg_numeric (fixed_str 6 x) = (if fixed_val 6 x < 10 ^ 6 then Some (Num (fixed_val 6 x)) else None)"
proof -
  obtain c r where cr: "fixed_str 6 x = c # r" "is_digit c" using fixed_str_hd [OF assms] by blast
  have "c \<noteq> CHR ''-''" "c \<noteq> CHR ''N''" using cr(2) by (auto simp: is_digit_def)
  then have "signed_val (fixed_str 6 x) = fixed_val 6 x" "fixed_str 6 x \<noteq> ''NaN''"
    using cr(1) decimal_fixed_str [OF assms, of 6] by (simp_all add: signed_val_def)
  moreover have "0 \<le> fixed_val 6 x" using assms by (simp add: fixed_val_def)
  ultimately show ?thesis
    by (simp add: pg_numeric_def fixed_val_grid Let_def)
qed

section \<open>Sync runs\<close>

definition createSyncRun :: "int \<Rightarrow> sync_db \<Rightarrow> int \<times> sync_db" where
  "createSyncRun now d =
     (let r = \<lparr>sr_id = nextRunId d, sr_startedAt = now, sr_completedAt = None, sr_status = ''running'',
               tagLinkingStatus = None, transactionSyncStatus = None,
               transactionsProcessed = 0, eventsCreated = 0,
               tagsActivated = 0, tagsDeactivated = 0, tagsUnchanged = 0, sr_errors = None\<rparr>
      in (sr_id r, d\<lparr>syncRuns := syncRuns d @ [r], nextRunId := nextRunId d + 1\<rparr>))"

definition update_run :: "int \<Rightarrow> (sync_run \<Rightarrow> sync_run) \<Rightarrow> sync_db \<Rightarrow> sync_db" where
  "update_run i f d = d\<lparr>syncRuns := map (\<lambda>r. if sr_id r = i then f r else r) (syncRuns d)\<rparr>"

record tag_sync_stats =
  activatedTags :: int
  deactivatedTags :: int
  unchangedTags :: int

definition markSyncComplete ::
  "int \<Rightarrow> int \<Rightarrow> int \<Rightarrow> int \<Rightarrow> string list \<Rightarrow> tag_sync_stats \<Rightarrow> sync_db \<Rightarrow> sync_db"
where
  "markSyncComplete now i processed created errs stats =
     update_run i (\<lambda>r. r\<lparr>sr_status := ''completed'', sr_completedAt := Some now,
        transactionsProcessed := processed, eventsCreated := created,
        sr_errors := (if errs \<noteq> [] then Some errs else None),
        tagsActivated := activatedTags stats, tagsDeactivated := deactivatedTags stats,
        tagsUnchanged := unchangedTags stats\<rparr>)"

definition markSyncFailed :: "int \<Rightarrow> int \<Rightarrow> string list \<Rightarrow> sync_db \<Rightarrow> sync_db" where
  "markSyncFailed now i errs =
     update_run i (\<lambda>r. r\<lparr>sr_status := ''failed'', sr_completedAt := Some now, sr_errors := Some errs\<rparr>)"

text \<open>
  \<open>getRunningSync\<close>: \<open>LIMIT 1\<close> without an order, here the first row of the table. A run
  older than 30 minutes is a stale lock: it is failed and the caller may start.
\<close>

definition getRunningSync :: "int \<Rightarrow> sync_db \<Rightarrow> int option \<times> sync_db" where
  "getRunningSync now d =
     (case find (\<lambda>r. sr_status r = ''running'') (syncRuns d) of
        None \<Rightarrow> (None, d)
      | Some r \<Rightarrow>
          if now - sr_startedAt r > 30 * 60 * 1000
          then (None, markSyncFailed now (sr_id r) [''Sync timed out (stale lock detected)''] d)
          else (Some (sr_id r), d))"

section \<open>Sync states and events\<close>

definition getSyncStates :: "int list \<Rightarrow> sync_db \<Rightarrow> sync_state list" where
  "getSyncStates ids d =
     (if ids = [] then [] else filter (\<lambda>s. ss_transactionId s \<in> set ids) (syncStates d))"

definition getActiveMappings :: "sync_db \<Rightarrow> user_mapping list" where
  "getActiveMappings d = filter isActive (mappingRows d)"

definition find_state :: "sync_state list \<Rightarrow> int \<Rightarrow> sync_state option" where
  "find_state rows k = find (\<lambda>r. ss_transactionId r = k) rows"

definition put_state :: "sync_state \<Rightarrow> sync_state list \<Rightarrow> sync_state list" where
  "put_state v rows =
     (if find_state rows (ss_transactionId v) = None then rows @ [v]
      else map (\<lambda>r. if ss_transactionId r = ss_transactionId v then v else r) rows)"

definition state_row :: "new_sync_state \<Rightarrow> sync_state option" where
  "state_row n =
     (case (pg_int4 (ns_meterValue n), pg_numeric (ns_totalKwhBilled n)) of
        (Some m, Some k) \<Rightarrow> Some \<lparr>ss_transactionId = ns_transactionId n, lastSyncedMeterValue = m,
          totalKwhBilled = Some k, lastSyncRunId = ns_syncRunId n, isFinalized = ns_isFinalized n\<rparr>
      | _ \<Rightarrow> None)"

definition upsertSyncState :: "new_sync_state \<Rightarrow> sync_db \<Rightarrow> sync_db option" where
  "upsertSyncState n d =
     map_option (\<lambda>r. d\<lparr>syncStates := put_state r (syncStates d)\<rparr>) (state_row n)"

text \<open>
  \<open>batchUpsertSyncStates\<close> is not a transaction: the rows before a rejected one stay. The
  first component tells whether every row went in.
\<close>

fun batchUpsertSyncStates :: "new_sync_state list \<Rightarrow> sync_db \<Rightarrow> bool \<times> sync_db" where
  "batchUpsertSyncStates [] d = (True, d)"
| "batchUpsertSyncStates (n # ns) d =
     (case upsertSyncState n d of None \<Rightarrow> (False, d) | Some d' \<Rightarrow> batchUpsertSyncStates ns d')"

definition event_row :: "new_synced_event \<Rightarrow> synced_event option" where
  "event_row n =
     (case (pg_numeric (ne_kwhDelta n), pg_int4 (ne_meterValueFrom n), pg_int4 (ne_meterValueTo n)) of
        (Some k, Some f, Some t) \<Rightarrow> Some \<lparr>ev_steveTransactionId = ne_steveTransactionId n,
          ev_lagoEventTransactionId = ne_lagoEventTransactionId n, ev_userMappingId = ne_userMappingId n,
          ev_kwhDelta = k, ev_meterValueFrom = f, ev_meterValueTo = t, ev_isFinal = ne_isFinal n,
          ev_syncRunId = ne_syncRunId n\<rparr>
      | _ \<Rightarrow> None)"

definition insertEvents :: "new_synced_event list \<Rightarrow> sync_db \<Rightarrow> sync_db option" where
  "insertEvents ns d =
     (let rows = map event_row ns;
          new = map the rows;
          all = syncedEvents d @ new
      in if None \<in> set rows \<or> \<not> distinct (map ev_lagoEventTransactionId all) then None
         else Some (d\<lparr>syncedEvents := all\<rparr>))"

text \<open>One database transaction: either every write happens or none.\<close>

definition atomicUpsertSyncStatesAndCreateEvents ::
  "new_sync_state list \<Rightarrow> new_synced_event list \<Rightarrow> sync_db \<Rightarrow> sync_db option"
where
  "atomicUpsertSyncStatesAndCreateEvents states events d =
     (if states = [] \<and> events = [] then Some d
      else (case batchUpsertSyncStates states d of
              (False, _) \<Rightarrow> None
            | (True, d') \<Rightarrow> if events \<noteq> [] then insertEvents events d' else Some d'))"

section \<open>What the writes guarantee\<close>

text \<open>The unique columns, and the serial numbers of the runs.\<close>

definition db_ok :: "sync_db \<Rightarrow> bool" where
  "db_ok d \<longleftrightarrow> distinct (map ss_transactionId (syncStates d))
     \<and> distinct (map ev_lagoEventTransactionId (syncedEvents d))"

definition runs_ok :: "sync_db \<Rightarrow> bool" where
  "runs_ok d \<longleftrightarrow> distinct (map sr_id (syncRuns d)) \<and> (\<forall>r \<in> set (syncRuns d). sr_id r < nextRunId d)"

lemma find_state_Some: "find_state rows k = Some r \<Longrightarrow> r \<in> set rows \<and> ss_transactionId r = k"
  unfolding find_state_def by (drule find_Some_set) simp

lemma find_state_None: "find_state rows k = None \<longleftrightarrow> k \<notin> ss_transactionId ` set rows"
  by (auto simp: find_state_def find_None_set)

lemma find_state_append:
  "find_state (xs @ ys) k = (case find_state xs k of None \<Rightarrow> find_state ys k | Some r \<Rightarrow> Some r)"
  by (induction xs) (auto simp: find_state_def)

lemma find_state_single: "find_state [v] k = (if ss_transactionId v = k then Some v else None)"
  by (simp add: find_state_def)

lemma find_state_replace:
  "find_state (map (\<lambda>r. if ss_transactionId r = ss_transactionId v then v else r) rows) k =
     (if k = ss_transactionId v \<and> find_state rows k \<noteq> None then Some v else find_state rows k)"
  by (induction rows) (auto simp: find_state_def)

interpretation state_table: upsert_store find_state put_state ss_transactionId
proof unfold_locales
  fix v s k
  show "find_state (put_state v s) k = (if k = ss_transactionId v then Some v else find_state s k)"
    by (auto simp: put_state_def find_state_append find_state_replace find_state_single split: option.split)
qed

lemma put_state_keys:
  "map ss_transactionId (put_state v rows) =
     (if ss_transactionId v \<in> ss_transactionId ` set rows then map ss_transactionId rows
      else map ss_transactionId rows @ [ss_transactionId v])"
  by (auto simp: put_state_def find_state_None)

lemma put_states_distinct:
  "distinct (map ss_transactionId rows) \<Longrightarrow> distinct (map ss_transactionId (fold put_state vs rows))"
  by (induction vs arbitrary: rows) (auto simp: put_state_keys)

lemma state_row_key: "state_row n = Some r \<Longrightarrow> ss_transactionId r = ns_transactionId n"
  by (auto simp: state_row_def split: option.splits)

lemma state_row_the_key: "state_row n \<noteq> None \<Longrightarrow> ss_transactionId (the (state_row n)) = ns_transactionId n"
  using state_row_key by force

lemma state_row_Some:
  "state_row n = Some r \<longleftrightarrow>
     (\<exists>m k. pg_int4 (ns_meterValue n) = Some m \<and> pg_numeric (ns_totalKwhBilled n) = Some k
        \<and> r = \<lparr>ss_transactionId = ns_transactionId n, lastSyncedMeterValue = m, totalKwhBilled = Some k,
               lastSyncRunId = ns_syncRunId n, isFinalized = ns_isFinalized n\<rparr>)"
  by (auto simp: state_row_def split: option.splits)

text \<open>The loop of upserts, when it is not rejected and when it is.\<close>

lemma batch_upsert_ok:
  "batchUpsertSyncStates ns d = (True, d') \<longleftrightarrow>
     (\<forall>n \<in> set ns. state_row n \<noteq> None)
     \<and> d' = d\<lparr>syncStates := fold put_state (map (the \<circ> state_row) ns) (syncStates d)\<rparr>"
proof (induction ns arbitrary: d)
  case Nil
  then show ?case by auto
next
  case (Cons n ns)
  then show ?case by (auto simp: upsertSyncState_def split: option.splits)
qed

lemma batch_upsert_prefix:
  "\<exists>k \<le> length ns. \<exists>b. batchUpsertSyncStates ns d = (b, snd (batchUpsertSyncStates (take k ns) d))
     \<and> fst (batchUpsertSyncStates (take k ns) d) \<and> (b \<longleftrightarrow> k = length ns)"
proof (induction ns arbitrary: d)
  case Nil
  then show ?case by simp
next
  case (Cons n ns)
  show ?case
  proof (cases "upsertSyncState n d")
    case None
    then have "batchUpsertSyncStates (n # ns) d = (False, d)" by simp
    then show ?thesis by (intro exI [of _ 0]) (auto intro: exI [of _ False])
  next
    case (Some d1)
    from Cons.IH [of d1] obtain k b where "k \<le> length ns"
      "batchUpsertSyncStates ns d1 = (b, snd (batchUpsertSyncStates (take k ns) d1))"
      "fst (batchUpsertSyncStates (take k ns) d1)" "b \<longleftrightarrow> k = length ns" by blast
    with Some show ?thesis by (intro exI [of _ "Suc k"]) auto
  qed
qed

lemma insertEvents_Some:
  "insertEvents ns d = Some d' \<longleftrightarrow>
     (\<forall>n \<in> set ns. event_row n \<noteq> None)
     \<and> distinct (map ev_lagoEventTransactionId (syncedEvents d @ map (the \<circ> event_row) ns))
     \<and> d' = d\<lparr>syncedEvents := syncedEvents d @ map (the \<circ> event_row) ns\<rparr>"
proof -
  have "None \<in> set (map event_row ns) \<longleftrightarrow> \<not> (\<forall>n \<in> set ns. event_row n \<noteq> None)"
    by (simp add: image_iff) metis
  then show ?thesis
    by (simp add: insertEvents_def Let_def comp_def del: set_map) auto
qed

lemma batch_other_tables:
  "syncedEvents (snd (batchUpsertSyncStates ns d)) = syncedEvents d"
  "syncRuns (snd (batchUpsertSyncStates ns d)) = syncRuns d"
  "nextRunId (snd (batchUpsertSyncStates ns d)) = nextRunId d"
  "mappingRows (snd (batchUpsertSyncStates ns d)) = mappingRows d"
  by (induction ns arbitrary: d) (auto simp: upsertSyncState_def split: option.splits)

lemma atomic_Some:
  "atomicUpsertSyncStatesAndCreateEvents ss es d = Some d' \<longleftrightarrow>
     (\<forall>n \<in> set ss. state_row n \<noteq> None) \<and> (\<forall>n \<in> set es. event_row n \<noteq> None)
     \<and> (es \<noteq> [] \<longrightarrow> distinct (map ev_lagoEventTransactionId (syncedEvents d @ map (the \<circ> event_row) es)))
     \<and> d' = d\<lparr>syncStates := fold put_state (map (the \<circ> state_row) ss) (syncStates d),
              syncedEvents := syncedEvents d @ map (the \<circ> event_row) es\<rparr>"
proof (cases "batchUpsertSyncStates ss d")
  case (Pair b d1)
  show ?thesis
  proof (cases b)
    case True
    with Pair have batch: "batchUpsertSyncStates ss d = (True, d1)" by simp
    then have rows: "\<forall>n \<in> set ss. state_row n \<noteq> None"
      and d1: "d1 = d\<lparr>syncStates := fold put_state (map (the \<circ> state_row) ss) (syncStates d)\<rparr>"
      unfolding batch_upsert_ok by (rule conjunct1, rule conjunct2)
    have ev: "syncedEvents d1 = syncedEvents d" unfolding d1 by simp
    have same: "d1\<lparr>syncedEvents := syncedEvents d\<rparr> = d1" unfolding d1 by (cases d) simp
    have "atomicUpsertSyncStatesAndCreateEvents ss es d = (if es \<noteq> [] then insertEvents es d1 else Some d1)"
      using Pair True by (cases "ss = []"; cases "es = []") (simp_all add: atomicUpsertSyncStatesAndCreateEvents_def)
    then have "atomicUpsertSyncStatesAndCreateEvents ss es d = Some d' \<longleftrightarrow>
       (\<forall>n \<in> set es. event_row n \<noteq> None)
       \<and> (es \<noteq> [] \<longrightarrow> distinct (map ev_lagoEventTransactionId (syncedEvents d @ map (the \<circ> event_row) es)))
       \<and> d' = d1\<lparr>syncedEvents := syncedEvents d @ map (the \<circ> event_row) es\<rparr>"
      by (cases "es = []") (auto simp: insertEvents_Some ev same)
    then show ?thesis using rows unfolding d1 by simp
  next
    case False
    with Pair have "\<not> (\<forall>n \<in> set ss. state_row n \<noteq> None)"
      using batch_upsert_ok [of ss d] by auto
    moreover from this have "ss \<noteq> []" by auto
    ultimately show ?thesis using Pair False
      by (simp add: atomicUpsertSyncStatesAndCreateEvents_def)
  qed
qed

lemma atomic_db_ok:
  "atomicUpsertSyncStatesAndCreateEvents ss es d = Some d' \<Longrightarrow> db_ok d \<Longrightarrow> db_ok d'"
  by (auto simp: atomic_Some db_ok_def put_states_distinct)

text \<open>The table after the upserts: written keys hold their row, other keys are untouched.\<close>

definition persist_rows :: "new_sync_state list \<Rightarrow> sync_db \<Rightarrow> sync_state list" where
  "persist_rows ns d = fold put_state (map (the \<circ> state_row) ns) (syncStates d)"

lemma persist_rows_at:
  assumes "\<forall>n \<in> set ns. state_row n \<noteq> None" "distinct (map ns_transactionId ns)" "n \<in> set ns"
  shows "find_state (persist_rows ns d) (ns_transactionId n) = state_row n"
proof -
  have key: "\<forall>n \<in> set ns. ss_transactionId (the (state_row n)) = ns_transactionId n"
    using assms(1) state_row_the_key by blast
  then have "map ss_transactionId (map (the \<circ> state_row) ns) = map ns_transactionId ns" by simp
  with assms(2) have "distinct (map ss_transactionId (map (the \<circ> state_row) ns))" by metis
  from state_table.look_puts_mem [OF this, of "the (state_row n)" "syncStates d"] assms(1, 3) key
  show ?thesis unfolding persist_rows_def by auto
qed

lemma persist_rows_other:
  assumes "\<forall>n \<in> set ns. state_row n \<noteq> None" "k \<notin> ns_transactionId ` set ns"
  shows "find_state (persist_rows ns d) k = find_state (syncStates d) k"
proof -
  have "k \<notin> ss_transactionId ` set (map (the \<circ> state_row) ns)"
    using assms by (force dest: state_row_key)
  then show ?thesis unfolding persist_rows_def by (rule state_table.look_puts_other)
qed

lemma persist_rows_distinct:
  "distinct (map ss_transactionId (syncStates d)) \<Longrightarrow> distinct (map ss_transactionId (persist_rows ns d))"
  unfolding persist_rows_def by (rule put_states_distinct)

section \<open>Reading runs\<close>

record sync_run_filters =
  f_status :: "string option"
  f_from :: "int option"
  f_to :: "int option"
  f_segment :: "string option"

definition segment_bad :: "string option \<Rightarrow> bool" where
  "segment_bad s \<longleftrightarrow> s = Some ''warning'' \<or> s = Some ''error'' \<or> s = None"

definition buildSyncRunFilterConditions ::
  "sync_run_filters option \<Rightarrow> sync_run_log list \<Rightarrow> (sync_run \<Rightarrow> bool) list"
where
  "buildSyncRunFilterConditions filters logs =
     (case filters of None \<Rightarrow> []
      | Some f \<Rightarrow>
          (if truthy (f_status f) then [\<lambda>r. Some (sr_status r) = f_status f] else [])
          @ (case f_from f of None \<Rightarrow> [] | Some t \<Rightarrow> [\<lambda>r. sr_startedAt r \<ge> t])
          @ (case f_to f of None \<Rightarrow> [] | Some t \<Rightarrow> [\<lambda>r. sr_startedAt r \<le> t])
          @ (if f_segment f = Some ''tag_linking'' then [\<lambda>r. segment_bad (tagLinkingStatus r)]
             else if f_segment f = Some ''transaction_sync'' then [\<lambda>r. segment_bad (transactionSyncStatus r)]
             else if f_segment f = Some ''scheduling'' then
               [\<lambda>r. \<exists>l \<in> set logs. log_syncRunId l = sr_id r \<and> log_segment l = ''scheduling''
                     \<and> log_level l \<in> {''error'', ''warn''}]
             else []))"

definition matching_runs :: "sync_run_filters option \<Rightarrow> sync_db \<Rightarrow> sync_run list" where
  "matching_runs filters d =
     filter (\<lambda>r. \<forall>c \<in> set (buildSyncRunFilterConditions filters (runLogs d)). c r) (syncRuns d)"

definition getSyncRuns :: "nat \<Rightarrow> nat \<Rightarrow> sync_run_filters option \<Rightarrow> sync_db \<Rightarrow> sync_run list" where
  "getSyncRuns limit offset filters d =
     take limit (drop offset (sort_key (\<lambda>r. - sr_startedAt r) (matching_runs filters d)))"

definition getSyncRunsCount :: "sync_run_filters option \<Rightarrow> sync_db \<Rightarrow> nat" where
  "getSyncRunsCount filters d = length (matching_runs filters d)"

record sync_list_stats =
  runs24h :: nat
  successRate7d :: rat
  avgDurationSec7d :: rat
  lastRun :: "(string \<times> int) option"

definition getSyncListStats :: "int \<Rightarrow> sync_db \<Rightarrow> sync_list_stats" where
  "getSyncListStats now d =
     (let week = filter (\<lambda>r. sr_startedAt r \<ge> now - 7 * 24 * 60 * 60 * 1000) (syncRuns d);
          total = length week;
          completed = length (filter (\<lambda>r. sr_status r = ''completed'') week);
          durations = map (\<lambda>r. of_int (the (sr_completedAt r) - sr_startedAt r) / 1000)
                        (filter (\<lambda>r. sr_completedAt r \<noteq> None) week)
      in \<lparr>runs24h = length (filter (\<lambda>r. sr_startedAt r \<ge> now - 24 * 60 * 60 * 1000) (syncRuns d)),
          successRate7d = (if total = 0 then 0 else of_nat completed / of_nat total * 100),
          avgDurationSec7d = (if durations = [] then 0 else sum_list durations / of_nat (length durations)),
          lastRun = (case sort_key (\<lambda>r. - sr_startedAt r) (syncRuns d) of
                       [] \<Rightarrow> None | r # _ \<Rightarrow> Some (sr_status r, sr_startedAt r))\<rparr>)"

definition getSyncRunById :: "int \<Rightarrow> sync_db \<Rightarrow> sync_run option" where
  "getSyncRunById i d = find (\<lambda>r. sr_id r = i) (syncRuns d)"

definition getSyncRunLogs :: "int \<Rightarrow> string option \<Rightarrow> sync_db \<Rightarrow> sync_run_log list" where
  "getSyncRunLogs i segment d =
     sort_key log_createdAt
       (if truthy segment
        then filter (\<lambda>l. log_syncRunId l = i \<and> Some (log_segment l) = segment) (runLogs d)
        else filter (\<lambda>l. log_syncRunId l = i) (runLogs d))"

end
