(* ===== verification/Dates.thy ===== *)
theory Dates
  imports Prelude "HOL-Library.Monad_Syntax"
begin

text \<open>
  The JavaScript dates the services use. An instant is the number of milliseconds since the
  epoch. \<open>date_parse\<close> is \<open>new Date(text).getTime()\<close> on the ISO-8601 texts StEvE and the
  database deliver, \<open>None\<close> where JavaScript gives an invalid date; a date-time without a
  zone is read as UTC, the zone of the worker.
\<close>

section \<open>The proleptic Gregorian calendar\<close>

definition days_from_civil :: "int \<Rightarrow> int \<Rightarrow> int \<Rightarrow> int" where
  "days_from_civil y m d =
     (let y' = (if m \<le> 2 then y - 1 else y);
          era = y' div 400;
          yoe = y' - era * 400;
          doy = (153 * (if m > 2 then m - 3 else m + 9) + 2) div 5 + d - 1;
          doe = yoe * 365 + yoe div 4 - yoe div 100 + doy
      in era * 146097 + doe - 719468)"

section \<open>Parsing\<close>

definition digits_n :: "nat \<Rightarrow> string \<Rightarrow> (int \<times> string) option" where
  "digits_n n s = (if n \<le> length s \<and> list_all is_digit (take n s)
     then Some (int (digits_val (take n s)), drop n s) else None)"

definition lit :: "char \<Rightarrow> string \<Rightarrow> string option" where
  "lit c s = (case s of [] \<Rightarrow> None | x # r \<Rightarrow> if x = c then Some r else None)"

definition seconds_part :: "string \<Rightarrow> (int \<times> string) option" where
  "seconds_part s = (case lit (CHR '':'') s of None \<Rightarrow> Some (0, s) | Some r \<Rightarrow> digits_n 2 r)"

text \<open>Milliseconds of a fraction: further digits are cut off.\<close>

definition millis_part :: "string \<Rightarrow> (int \<times> string) option" where
  "millis_part s =
     (case lit (CHR ''.'') s of
        None \<Rightarrow> Some (0, s)
      | Some r \<Rightarrow>
          (let ds = takeWhile is_digit r
           in if ds = [] then None
              else Some (int (digits_val (take 3 (ds @ ''00''))), dropWhile is_digit r)))"

definition zone_part :: "string \<Rightarrow> int option" where
  "zone_part s =
     (if s = [] \<or> s = ''Z'' then Some 0
      else do {
        sg \<leftarrow> (case s of c # _ \<Rightarrow> if c = CHR ''+'' then Some 1 else if c = CHR ''-'' then Some (- 1) else None
               | [] \<Rightarrow> None);
        (h, r) \<leftarrow> digits_n 2 (tl s);
        r \<leftarrow> lit (CHR '':'') r;
        (m, r) \<leftarrow> digits_n 2 r;
        if r = [] then Some (sg * (h * 60 + m)) else None
      })"

definition time_ok :: "int \<Rightarrow> int \<Rightarrow> int \<Rightarrow> int \<Rightarrow> bool" where
  "time_ok h mi sec ms \<longleftrightarrow> (h < 24 \<and> mi < 60 \<and> sec < 60) \<or> (h = 24 \<and> mi = 0 \<and> sec = 0 \<and> ms = 0)"

definition date_parse :: "string \<Rightarrow> int option" where
  "date_parse s = do {
     (y, s) \<leftarrow> digits_n 4 s;
     s \<leftarrow> lit (CHR ''-'') s;
     (m, s) \<leftarrow> digits_n 2 s;
     s \<leftarrow> lit (CHR ''-'') s;
     (d, s) \<leftarrow> digits_n 2 s;
     if \<not> (1 \<le> m \<and> m \<le> 12 \<and> 1 \<le> d \<and> d \<le> 31) then None
     else if s = [] then Some (days_from_civil y m d * 86400000)
     else do {
       s \<leftarrow> lit (CHR ''T'') s;
       (h, s) \<leftarrow> digits_n 2 s;
       s \<leftarrow> lit (CHR '':'') s;
       (mi, s) \<leftarrow> digits_n 2 s;
       (sec, s) \<leftarrow> seconds_part s;
       (ms, s) \<leftarrow> millis_part s;
       z \<leftarrow> zone_part s;
       if time_ok h mi sec ms
       then Some (days_from_civil y m d * 86400000
                  + ((h * 60 + mi - z) * 60 + sec) * 1000 + ms)
       else None
     }
   }"

text \<open>\<open>Math.round(ms / 60000)\<close>.\<close>

definition round_minutes :: "int \<Rightarrow> int" where
  "round_minutes ms = js_round (of_int ms / 60000)"

lemma round_minutes_div: "round_minutes ms = (ms + 30000) div 60000"
proof -
  have "of_int ms / 60000 + 1 / 2 = (of_int (ms + 30000) :: rat) / of_int 60000"
    by (simp add: field_simps)
  then show ?thesis
    unfolding round_minutes_def js_round_def by (metis floor_divide_of_int_eq)
qed

lemma epoch_example: "days_from_civil 1970 1 1 = 0" "days_from_civil 2024 2 29 = 19782"
  by (simp_all add: days_from_civil_def)

lemma date_parse_example: "date_parse ''2024-02-29T12:30:15.250Z'' = Some 1709209815250"
  by code_simp

end
