(* ===== verification/Processor.thy ===== *)
theory Processor
  imports SyncDb Dates
begin

text \<open>
  Completed transactions become billing work items (\<open>src/services/transaction-processor.ts\<close>):
  the total of the meter, minus what the incremental emitter already billed, with the
  reasons for not sending an event, and the notification of finished sessions.
\<close>

section \<open>Data\<close>

text \<open>\<open>TransactionWithCompletion\<close>: the StEvE transaction and the completion flag.\<close>

record transaction =
  tx_id :: int
  tx_chargeBoxId :: string
  tx_chargeBoxPk :: int
  tx_connectorId :: int
  tx_ocppIdTag :: string
  tx_ocppTagPk :: int
  tx_startTimestamp :: string
  tx_startValue :: string
  tx_stopTimestamp :: "string option"
  tx_stopValue :: "string option"
  tx_stopEventActor :: "string option"
  tx_stopReason :: "string option"
  isCompleted :: bool

datatype skip_reason = No_subscription | Non_usage_plan | Already_billed_incrementally

record processed_transaction =
  steveTransactionId :: int
  userMappingId :: int
  lagoSubscriptionId :: "string option"
  kwhDelta :: jsnum
  meterValueFrom :: jsnum
  meterValueTo :: jsnum
  isFinal :: bool
  lagoEventTransactionId :: string
  shouldSendToLago :: bool
  skipReason :: "skip_reason option"
  stopTimestamp :: "string option"
  chargeBoxId :: string
  connectorId :: int
  startTimestamp :: string

record meter_delta =
  delta_kwh :: jsnum
  delta_from :: jsnum
  delta_to :: jsnum

definition NON_USAGE_PLAN_CODES :: "string set" where
  "NON_USAGE_PLAN_CODES = {''ExpressChargeM''}"

definition round6 :: "jsnum \<Rightarrow> jsnum" where
  "round6 = jmap (round_dp 6)"

section \<open>Processing one transaction\<close>

definition calculateDelta :: "transaction \<Rightarrow> meter_delta option" where
  "calculateDelta tx =
     (if \<not> isCompleted tx \<or> \<not> truthy (tx_stopValue tx) then None
      else let startValue = parse_int (tx_startValue tx);
               stopValue = parse_int (the (tx_stopValue tx));
               deltaWh = jsub stopValue startValue
           in if jle deltaWh (Num 0) then None
              else Some \<lparr>delta_kwh = jmap (\<lambda>x. x / 1000) deltaWh,
                         delta_from = startValue, delta_to = stopValue\<rparr>)"

text \<open>\<open>Number(syncState?.totalKwhBilled ?? 0)\<close>.\<close>

definition priorBilledKwh :: "sync_state option \<Rightarrow> jsnum" where
  "priorBilledKwh st =
     (case st of None \<Rightarrow> Num 0
      | Some s \<Rightarrow> (case totalKwhBilled s of None \<Rightarrow> Num 0 | Some k \<Rightarrow> k))"

definition ALREADY_BILLED_TOLERANCE_KWH :: rat where
  "ALREADY_BILLED_TOLERANCE_KWH = 1 / 1000"

definition skip_reason_of :: "resolved_subscription option \<Rightarrow> skip_reason option" where
  "skip_reason_of resolved =
     (let subscriptionId = map_option externalId resolved;
          plan = (case resolved of None \<Rightarrow> None | Some r \<Rightarrow> planCode r)
      in if \<not> truthy subscriptionId then Some No_subscription
         else if truthy plan \<and> the plan \<in> NON_USAGE_PLAN_CODES then Some Non_usage_plan
         else None)"

definition final_id :: "int \<Rightarrow> string" where
  "final_id i = ''steve_tx_'' @ show_int i @ ''_final''"

definition processTransaction ::
  "lago_subs \<Rightarrow> transaction \<Rightarrow> sync_state option \<Rightarrow> user_mapping option \<Rightarrow> sub_cache
     \<Rightarrow> processed_transaction option \<times> sub_cache"
where
  "processTransaction lago tx st mapping cache =
     (if (case st of Some s \<Rightarrow> isFinalized s | None \<Rightarrow> False) then (None, cache)
      else case mapping of None \<Rightarrow> (None, cache)
      | Some m \<Rightarrow>
        (case resolveSubscription lago m cache of (resolved, cache') \<Rightarrow>
          (case calculateDelta tx of None \<Rightarrow> (None, cache')
           | Some full \<Rightarrow>
             (let prior = priorBilledKwh st;
                  remaining = round6 (jsub (delta_kwh full) prior);
                  item = \<lparr>steveTransactionId = tx_id tx, userMappingId = mappingId m,
                     lagoSubscriptionId = map_option externalId resolved,
                     kwhDelta = remaining,
                     meterValueFrom = jadd (delta_from full) (jmap (\<lambda>p. of_int (js_round (p * 1000))) prior),
                     meterValueTo = delta_to full, isFinal = isCompleted tx,
                     lagoEventTransactionId = final_id (tx_id tx),
                     shouldSendToLago = (skip_reason_of resolved = None),
                     skipReason = skip_reason_of resolved,
                     stopTimestamp = tx_stopTimestamp tx, chargeBoxId = tx_chargeBoxId tx,
                     connectorId = tx_connectorId tx, startTimestamp = tx_startTimestamp tx\<rparr>
              in if jle remaining (Num ALREADY_BILLED_TOLERANCE_KWH)
                 then (Some (item\<lparr>kwhDelta := Num 0, meterValueFrom := delta_from full,
                         lagoEventTransactionId := final_id (tx_id tx) @ ''_noop'',
                         shouldSendToLago := False,
                         skipReason := Some Already_billed_incrementally\<rparr>), cache')
                 else (Some item, cache')))))"

text \<open>\<open>processTransactions\<close>: the transactions in map order, one cache for the batch.\<close>

fun process_loop ::
  "lago_subs \<Rightarrow> (int, sync_state) jsmap \<Rightarrow> (string, user_mapping) jsmap
     \<Rightarrow> (int \<times> transaction) list \<Rightarrow> sub_cache \<Rightarrow> processed_transaction list"
where
  "process_loop lago states maps [] cache = []"
| "process_loop lago states maps ((txId, tx) # rest) cache =
     (case processTransaction lago tx (map_of states txId) (map_of maps (tx_ocppIdTag tx)) cache of
        (r, cache') \<Rightarrow>
          (case r of None \<Rightarrow> [] | Some p \<Rightarrow> [p]) @ process_loop lago states maps rest cache')"

definition processTransactions ::
  "lago_subs \<Rightarrow> (int, transaction) jsmap \<Rightarrow> (int, sync_state) jsmap \<Rightarrow> (string, user_mapping) jsmap
     \<Rightarrow> processed_transaction list"
where
  "processTransactions lago txs states maps = process_loop lago states maps txs []"

section \<open>Notifying finished sessions\<close>

record session_notification =
  sn_body :: string
  sn_sourceId :: string
  sn_userId :: string
  sn_chargerName :: string
  sn_kwhDelta :: jsnum
  sn_startedAt :: int
  sn_endedAt :: int
  sn_duration :: string
  sn_energy :: string
  sn_cardLabel :: string

definition newly_finalized :: "(int, sync_state) jsmap \<Rightarrow> processed_transaction \<Rightarrow> bool" where
  "newly_finalized prior pt \<longleftrightarrow> isFinal pt
     \<and> (case map_of prior (steveTransactionId pt) of None \<Rightarrow> True | Some s \<Rightarrow> \<not> isFinalized s)"

definition duration_str :: "int \<Rightarrow> string" where
  "duration_str m = (if m \<ge> 60 then show_int (m div 60) @ ''h '' @ show_int (m mod 60) @ ''m''
                     else show_int m @ '' min'')"

text \<open>
  One iteration of the loop: the call of \<open>createNotification\<close>, or none when the mapping
  has no customer, or a date is invalid (\<open>toISOString\<close> throws, the error is logged).
  \<open>chargers\<close> are the rows \<open>(chargeBoxId, friendlyName)\<close>.
\<close>

definition session_notice ::
  "int \<Rightarrow> user_mapping list \<Rightarrow> (string \<times> string option) list \<Rightarrow> processed_transaction
     \<Rightarrow> session_notification option"
where
  "session_notice now rows chargers pt =
     (case find (\<lambda>r. mappingId r = userMappingId pt) rows of
        None \<Rightarrow> None
      | Some row \<Rightarrow>
        if \<not> truthy (userId row) then None
        else let chargerName = (case map_of chargers (chargeBoxId pt) of
                   Some (Some n) \<Rightarrow> n | _ \<Rightarrow> chargeBoxId pt);
                 cardLabel = (case displayName row of Some n \<Rightarrow> n | None \<Rightarrow> steveOcppIdTag row);
                 energy = js_fixed_str 2 (kwhDelta pt) @ '' kWh''
             in (case (date_parse (startTimestamp pt),
                       if truthy (stopTimestamp pt) then date_parse (the (stopTimestamp pt)) else Some now) of
                   (Some startedAt, Some endedAt) \<Rightarrow>
                     (let dur = duration_str (max 0 (round_minutes (endedAt - startedAt)))
                      in Some \<lparr>sn_body = ''Your session at '' @ chargerName @ '' ended '' @
                                 [CHR 0xE2, CHR 0x80, CHR 0x94] @ '' '' @ energy @ '' over '' @ dur @ ''.'',
                               sn_sourceId = show_int (steveTransactionId pt), sn_userId = the (userId row),
                               sn_chargerName = chargerName, sn_kwhDelta = kwhDelta pt,
                               sn_startedAt = startedAt, sn_endedAt = endedAt, sn_duration = dur,
                               sn_energy = energy, sn_cardLabel = cardLabel\<rparr>)
                 | _ \<Rightarrow> None))"

definition notifyFinalizedTransactions ::
  "int \<Rightarrow> user_mapping list \<Rightarrow> (string \<times> string option) list \<Rightarrow> processed_transaction list
     \<Rightarrow> (int, sync_state) jsmap \<Rightarrow> session_notification list"
where
  "notifyFinalizedTransactions now rows chargers ps prior =
     List.map_filter (session_notice now rows chargers) (filter (newly_finalized prior) ps)"

section \<open>The delta of the meter\<close>

lemma calculateDelta_ints:
  assumes "isCompleted tx" "tx_startValue tx = show_int a" "tx_stopValue tx = Some (show_int b)"
  shows "calculateDelta tx =
    (if b \<le> a then None
     else Some \<lparr>delta_kwh = Num (of_int (b - a) / 1000), delta_from = Num (of_int a), delta_to = Num (of_int b)\<rparr>)"
proof -
  have "of_int b - of_int a \<le> (0::rat) \<longleftrightarrow> b \<le> a" by simp
  then show ?thesis
    using assms by (simp add: calculateDelta_def parse_show_int Let_def)
qed

lemma calculateDelta_Some:
  "calculateDelta tx = Some d \<Longrightarrow>
     isCompleted tx \<and> delta_from d = parse_int (tx_startValue tx)
     \<and> (\<exists>s. tx_stopValue tx = Some s \<and> s \<noteq> [] \<and> delta_to d = parse_int s)
     \<and> delta_kwh d = jmap (\<lambda>x. x / 1000) (jsub (delta_to d) (delta_from d))"
  by (auto simp: calculateDelta_def Let_def split: if_splits elim: truthyE)

text \<open>When no work item comes out: exactly the early returns of the source.\<close>

lemma fst_processTransaction:
  "fst (processTransaction lago tx st (Some m) cache) =
     (if (case st of Some s \<Rightarrow> isFinalized s | None \<Rightarrow> False) then None
      else map_option (\<lambda>full.
        let resolved = fst (resolveSubscription lago m cache); prior = priorBilledKwh st;
            remaining = round6 (jsub (delta_kwh full) prior)
        in \<lparr>steveTransactionId = tx_id tx, userMappingId = mappingId m,
             lagoSubscriptionId = map_option externalId resolved,
             kwhDelta = (if jle remaining (Num ALREADY_BILLED_TOLERANCE_KWH) then Num 0 else remaining),
             meterValueFrom = (if jle remaining (Num ALREADY_BILLED_TOLERANCE_KWH) then delta_from full
               else jadd (delta_from full) (jmap (\<lambda>p. of_int (js_round (p * 1000))) prior)),
             meterValueTo = delta_to full, isFinal = isCompleted tx,
             lagoEventTransactionId = final_id (tx_id tx) @
               (if jle remaining (Num ALREADY_BILLED_TOLERANCE_KWH) then ''_noop'' else []),
             shouldSendToLago = (\<not> jle remaining (Num ALREADY_BILLED_TOLERANCE_KWH)
               \<and> skip_reason_of resolved = None),
             skipReason = (if jle remaining (Num ALREADY_BILLED_TOLERANCE_KWH)
               then Some Already_billed_incrementally else skip_reason_of resolved),
             stopTimestamp = tx_stopTimestamp tx, chargeBoxId = tx_chargeBoxId tx,
             connectorId = tx_connectorId tx, startTimestamp = tx_startTimestamp tx\<rparr>) (calculateDelta tx))"
  by (auto simp: processTransaction_def Let_def split: option.splits prod.splits)

lemma processTransaction_unmapped [simp]: "fst (processTransaction lago tx st None cache) = None"
  by (simp add: processTransaction_def)

lemma processTransaction_finalized:
  "isFinalized s \<Longrightarrow> fst (processTransaction lago tx (Some s) mapping cache) = None"
  by (simp add: processTransaction_def)

lemma processTransaction_id:
  "fst (processTransaction lago tx st mapping cache) = Some r \<Longrightarrow> steveTransactionId r = tx_id tx"
  by (cases mapping) (auto simp: fst_processTransaction Let_def split: if_splits)

lemma processTransaction_send:
  "fst (processTransaction lago tx st mapping cache) = Some r \<Longrightarrow> shouldSendToLago r \<Longrightarrow>
     lagoEventTransactionId r = final_id (steveTransactionId r) \<and> truthy (lagoSubscriptionId r)"
  by (cases mapping) (auto simp: fst_processTransaction Let_def skip_reason_of_def split: if_splits)

text \<open>The amounts, on meter readings that are integers.\<close>

lemma processTransaction_ints:
  assumes open_st: "\<not> (case st of Some s \<Rightarrow> isFinalized s | None \<Rightarrow> False)"
    and tx: "isCompleted tx" "tx_startValue tx = show_int a" "tx_stopValue tx = Some (show_int b)" "a < b"
    and prior: "priorBilledKwh st = Num p" "grid 6 p"
  shows "\<exists>r. fst (processTransaction lago tx st (Some m) cache) = Some r
    \<and> steveTransactionId r = tx_id tx \<and> isFinal r \<and> meterValueTo r = Num (of_int b)
    \<and> (if of_int (b - a) / 1000 - p \<le> 1 / 1000
       then kwhDelta r = Num 0 \<and> \<not> shouldSendToLago r \<and> meterValueFrom r = Num (of_int a)
            \<and> skipReason r = Some Already_billed_incrementally
       else kwhDelta r = Num (of_int (b - a) / 1000 - p)
            \<and> skipReason r = skip_reason_of (fst (resolveSubscription lago m cache))
            \<and> shouldSendToLago r = (skipReason r = None)
            \<and> meterValueFrom r = Num (of_int (a + js_round (p * 1000)))
            \<and> lagoEventTransactionId r = final_id (tx_id tx))"
proof -
  have "grid 6 (of_int (b - a) / 1000 - p)"
    by (intro grid_intros prior)
  then have "round6 (Num (of_int (b - a) / 1000 - p)) = Num (of_int (b - a) / 1000 - p)"
    by (simp add: round6_def round_dp_grid)
  then show ?thesis
    using open_st tx prior
    by (simp add: fst_processTransaction calculateDelta_ints Let_def ALREADY_BILLED_TOLERANCE_KWH_def)
qed

section \<open>Properties\<close>

text \<open>
  C5. No over-billing and no under-billing: for a completed session whose prior billed
  amount \<open>p\<close> does not exceed the metered total by rounding, the emitted delta is not
  negative, prior plus delta never exceeds the larger of total and \<open>p\<close>, and it misses the
  metered total by at most the tolerance of 1 Wh. An event is due exactly when more than the
  tolerance is left and neither a missing subscription nor a non-usage plan suppresses it.
\<close>

theorem processTransaction_bills_gap:
  assumes "\<not> (case st of Some s \<Rightarrow> isFinalized s | None \<Rightarrow> False)"
    and "isCompleted tx" "tx_startValue tx = show_int a" "tx_stopValue tx = Some (show_int b)" "a < b"
    and "priorBilledKwh st = Num p" "grid 6 p"
  shows "\<exists>r d. fst (processTransaction lago tx st (Some m) cache) = Some r \<and> isFinal r
    \<and> kwhDelta r = Num d \<and> 0 \<le> d \<and> p + d \<le> max p (of_int (b - a) / 1000)
    \<and> of_int (b - a) / 1000 - 1 / 1000 \<le> p + d
    \<and> (shouldSendToLago r \<longleftrightarrow> of_int (b - a) / 1000 - p > 1 / 1000
         \<and> skip_reason_of (fst (resolveSubscription lago m cache)) = None)"
proof -
  define full :: rat where "full = of_int (b - a) / 1000"
  obtain r where r: "fst (processTransaction lago tx st (Some m) cache) = Some r" "isFinal r"
    and amt: "if full - p \<le> 1 / 1000
       then kwhDelta r = Num 0 \<and> \<not> shouldSendToLago r
       else kwhDelta r = Num (full - p)
            \<and> (shouldSendToLago r \<longleftrightarrow> skip_reason_of (fst (resolveSubscription lago m cache)) = None)"
    using processTransaction_ints [OF assms, of lago m cache]
    unfolding full_def [symmetric] by (auto split: if_splits)
  define d where "d = (if full - p \<le> 1 / 1000 then 0 else full - p)"
  have "kwhDelta r = Num d" "0 \<le> d" "p + d \<le> max p full" "full - 1 / 1000 \<le> p + d"
    using amt unfolding d_def by (simp_all split: if_splits)
  moreover have "shouldSendToLago r \<longleftrightarrow> full - p > 1 / 1000
         \<and> skip_reason_of (fst (resolveSubscription lago m cache)) = None"
    using amt by (simp add: not_le split: if_splits)
  ultimately show ?thesis using r unfolding full_def [symmetric] by blast
qed

text \<open>
  The early returns: a transaction yields no work item exactly when it is already
  finalized, its tag has no mapping, it is not completed, it has no stop value, or the
  metered energy is not positive.
\<close>

theorem processTransaction_None_iff:
  "fst (processTransaction lago tx st mapping cache) = None \<longleftrightarrow>
     (\<exists>s. st = Some s \<and> isFinalized s) \<or> mapping = None \<or> \<not> isCompleted tx
     \<or> \<not> truthy (tx_stopValue tx)
     \<or> jle (jsub (parse_int (the (tx_stopValue tx))) (parse_int (tx_startValue tx))) (Num 0)"
  by (cases mapping) (auto simp: fst_processTransaction calculateDelta_def Let_def split: option.splits)

text \<open>
  The audit row is accurate: the meter range of an emitted event covers the billed
  energy up to half a watt-hour.
\<close>

theorem processTransaction_audit_range:
  assumes "\<not> (case st of Some s \<Rightarrow> isFinalized s | None \<Rightarrow> False)"
    and "isCompleted tx" "tx_startValue tx = show_int a" "tx_stopValue tx = Some (show_int b)" "a < b"
    and "priorBilledKwh st = Num p" "grid 6 p"
    and "fst (processTransaction lago tx st (Some m) cache) = Some r" "shouldSendToLago r"
  shows "\<exists>f t d. meterValueFrom r = Num f \<and> meterValueTo r = Num t \<and> kwhDelta r = Num d
    \<and> \<bar>(t - f) - d * 1000\<bar> \<le> 1 / 2"
proof -
  have amt: "meterValueTo r = Num (of_int b)" "kwhDelta r = Num (of_int (b - a) / 1000 - p)"
    "meterValueFrom r = Num (of_int (a + js_round (p * 1000)))"
    using processTransaction_ints [OF assms(1-7), of lago m cache] assms(8, 9) by (auto split: if_splits)
  have "\<bar>of_int (js_round (p * 1000)) - p * 1000\<bar> \<le> 1 / 2"
    unfolding js_round_def by linarith
  moreover have "(of_int b - of_int (a + js_round (p * 1000))) - (of_int (b - a) / 1000 - p) * 1000
      = p * 1000 - of_int (js_round (p * 1000))" by (simp add: field_simps)
  ultimately have "\<bar>(of_int b - of_int (a + js_round (p * 1000))) - (of_int (b - a) / 1000 - p) * 1000\<bar>
      \<le> 1 / 2" by linarith
  with amt show ?thesis by blast
qed

text \<open>The cache of the batch holds answers of Lago only, so it changes no result.\<close>

lemma processTransaction_uncached:
  assumes "cache_ok lago cache"
  shows "fst (processTransaction lago tx st mapping cache) = fst (processTransaction lago tx st mapping [])"
    and "cache_ok lago (snd (processTransaction lago tx st mapping cache))"
proof -
  show "fst (processTransaction lago tx st mapping cache) = fst (processTransaction lago tx st mapping [])"
    by (cases mapping) (simp_all add: fst_processTransaction resolveSubscription_uncached [OF assms])
  have "snd (processTransaction lago tx st mapping cache) = cache
     \<or> (\<exists>m. snd (processTransaction lago tx st mapping cache) = snd (resolveSubscription lago m cache))"
  proof (cases mapping)
    case None
    then show ?thesis by (simp add: processTransaction_def)
  next
    case (Some m)
    then have "snd (processTransaction lago tx st mapping cache) \<in> {cache, snd (resolveSubscription lago m cache)}"
      by (auto simp: processTransaction_def Let_def split: option.splits prod.splits)
    then show ?thesis by blast
  qed
  then show "cache_ok lago (snd (processTransaction lago tx st mapping cache))"
    using assms resolveSubscription_cache_ok by metis
qed

lemma process_loop_uncached:
  "cache_ok lago cache \<Longrightarrow>
   process_loop lago states maps txs cache =
     List.map_filter (\<lambda>(txId, tx).
       fst (processTransaction lago tx (map_of states txId) (map_of maps (tx_ocppIdTag tx)) [])) txs"
proof (induction txs arbitrary: cache)
  case Nil
  then show ?case by (simp add: map_filter_simps)
next
  case (Cons e txs)
  obtain txId tx where e: "e = (txId, tx)" by (cases e)
  let ?st = "map_of states txId" and ?m = "map_of maps (tx_ocppIdTag tx)"
  obtain r c where rc: "processTransaction lago tx ?st ?m cache = (r, c)" by fastforce
  then have "cache_ok lago c" "r = fst (processTransaction lago tx ?st ?m [])"
    using processTransaction_uncached [OF Cons.prems, of tx ?st ?m] by simp_all
  then show ?case
    using Cons.IH rc by (auto simp: e map_filter_simps split: option.splits)
qed

text \<open>
  Batch processing is the single step mapped over the batch, whatever the shared
  subscription cache holds on the way: sharing it between transactions saves calls and
  changes no result.
\<close>

theorem processTransactions_map:
  "processTransactions lago txs states maps =
     List.map_filter (\<lambda>(txId, tx).
       fst (processTransaction lago tx (map_of states txId) (map_of maps (tx_ocppIdTag tx)) [])) txs"
  unfolding processTransactions_def by (rule process_loop_uncached) simp

lemma in_processTransactions:
  "p \<in> set (processTransactions lago txs states maps) \<longleftrightarrow>
     (\<exists>i tx. (i, tx) \<in> set txs
        \<and> fst (processTransaction lago tx (map_of states i) (map_of maps (tx_ocppIdTag tx)) []) = Some p)"
  by (auto simp: processTransactions_def process_loop_uncached in_set_map_filter split: prod.splits)

lemma processTransactions_ids:
  assumes "distinct (map fst txs)" "\<forall>(i, tx) \<in> set txs. tx_id tx = i"
  shows "distinct (map steveTransactionId (processTransactions lago txs states maps))"
  unfolding processTransactions_def process_loop_uncached [OF cache_ok_Nil]
proof (rule distinct_map_filter)
  show "distinct (map fst txs)" by (rule assms(1))
  fix x y
  assume x: "x \<in> set txs"
    and y: "(case x of (txId, tx) \<Rightarrow>
        fst (processTransaction lago tx (map_of states txId) (map_of maps (tx_ocppIdTag tx)) [])) = Some y"
  obtain i tx where e: "x = (i, tx)" by (cases x)
  then have "tx_id tx = i" using assms(2) x by blast
  with y show "steveTransactionId y = fst x" by (simp add: e processTransaction_id)
qed

lemma session_notice_Some:
  "session_notice now rows chargers pt = Some n \<Longrightarrow>
     sn_sourceId n = show_int (steveTransactionId pt)
     \<and> (\<exists>row \<in> set rows. mappingId row = userMappingId pt \<and> userId row = Some (sn_userId n))"
  by (auto simp: session_notice_def Let_def dest!: find_Some_set elim!: truthyE split: option.splits if_splits)

text \<open>
  Notifications of finished sessions: in a batch with distinct transactions, every
  notification belongs to a transaction that became final in this run and not before, goes
  to the customer of its mapping, and no transaction is announced twice; a transaction that
  was already finalized is never announced again.
\<close>

theorem notify_once:
  assumes "distinct (map steveTransactionId ps)"
  shows "distinct (map sn_sourceId (notifyFinalizedTransactions now rows chargers ps prior))
    \<and> (\<forall>n \<in> set (notifyFinalizedTransactions now rows chargers ps prior).
         \<exists>pt \<in> set ps. sn_sourceId n = show_int (steveTransactionId pt) \<and> isFinal pt
           \<and> (\<forall>s. map_of prior (steveTransactionId pt) = Some s \<longrightarrow> \<not> isFinalized s)
           \<and> (\<exists>row \<in> set rows. mappingId row = userMappingId pt \<and> userId row = Some (sn_userId n)))"
proof
  have "distinct (map (show_int \<circ> steveTransactionId) (filter (newly_finalized prior) ps))"
  proof -
    have "distinct (map steveTransactionId (filter (newly_finalized prior) ps))"
      using assms by (rule distinct_map_filter_pred)
    then show ?thesis by (simp add: distinct_map inj_on_def)
  qed
  then show "distinct (map sn_sourceId (notifyFinalizedTransactions now rows chargers ps prior))"
    unfolding notifyFinalizedTransactions_def
    by (rule distinct_map_filter) (auto dest: session_notice_Some)
  show "\<forall>n \<in> set (notifyFinalizedTransactions now rows chargers ps prior).
         \<exists>pt \<in> set ps. sn_sourceId n = show_int (steveTransactionId pt) \<and> isFinal pt
           \<and> (\<forall>s. map_of prior (steveTransactionId pt) = Some s \<longrightarrow> \<not> isFinalized s)
           \<and> (\<exists>row \<in> set rows. mappingId row = userMappingId pt \<and> userId row = Some (sn_userId n))"
    by (fastforce simp: notifyFinalizedTransactions_def in_set_map_filter newly_finalized_def
        dest: session_notice_Some split: option.splits)
qed

section \<open>Concrete sessions\<close>

definition tx_of :: "int \<Rightarrow> string \<Rightarrow> int \<Rightarrow> int \<Rightarrow> transaction" where
  "tx_of i tag a b = \<lparr>tx_id = i, tx_chargeBoxId = ''CB'', tx_chargeBoxPk = 1, tx_connectorId = 1,
     tx_ocppIdTag = tag, tx_ocppTagPk = 1, tx_startTimestamp = ''2024-01-01T00:00:00Z'',
     tx_startValue = show_int a, tx_stopTimestamp = Some ''2024-01-01T01:30:00Z'',
     tx_stopValue = Some (show_int b), tx_stopEventActor = None, tx_stopReason = None, isCompleted = True\<rparr>"

definition billed_state :: "int \<Rightarrow> rat \<Rightarrow> bool \<Rightarrow> sync_state" where
  "billed_state i p f = \<lparr>ss_transactionId = i, lastSyncedMeterValue = 0, totalKwhBilled = Some (Num p),
     lastSyncRunId = None, isFinalized = f\<rparr>"

definition no_lago :: lago_subs where
  "no_lago c = None"

text \<open>A session of 12.5 kWh, 2 kWh of it billed incrementally, explicit subscription.\<close>

theorem processTransaction_None_iff_witness:
  "fst (processTransaction no_lago (tx_of 7 ''A'' 1000 13500) (Some (billed_state 7 2 True))
       (Some (mapping_of 1 ''A'' None (Some ''sub'') True)) []) = None
   \<and> fst (processTransaction no_lago (tx_of 7 ''A'' 1000 1000) None
       (Some (mapping_of 1 ''A'' None (Some ''sub'') True)) []) = None"
proof -
  have "isFinalized (billed_state 7 2 True)"
    "jle (jsub (parse_int (the (tx_stopValue (tx_of 7 ''A'' 1000 1000)))) (parse_int (tx_startValue (tx_of 7 ''A'' 1000 1000)))) (Num 0)"
    by code_simp+
  then show ?thesis by (simp add: processTransaction_None_iff)
qed

theorem processTransaction_bills_gap_witness:
  "\<exists>r d. fst (processTransaction no_lago (tx_of 7 ''A'' 1000 13500) (Some (billed_state 7 2 False))
        (Some (mapping_of 1 ''A'' None (Some ''sub'') True)) []) = Some r \<and> isFinal r
    \<and> kwhDelta r = Num d \<and> 0 \<le> d \<and> 2 + d \<le> max 2 (of_int (13500 - 1000) / 1000)
    \<and> of_int (13500 - 1000) / 1000 - 1 / 1000 \<le> 2 + d
    \<and> (shouldSendToLago r \<longleftrightarrow> of_int (13500 - 1000) / 1000 - 2 > (1 / 1000 :: rat)
         \<and> skip_reason_of (fst (resolveSubscription no_lago (mapping_of 1 ''A'' None (Some ''sub'') True) [])) = None)"
proof (rule processTransaction_bills_gap [where a = 1000 and b = 13500 and p = 2])
  show "grid 6 (2 :: rat)" using grid_of_int [of 6 2] by simp
qed (simp_all add: tx_of_def billed_state_def priorBilledKwh_def)

lemma final_session_example:
  "fst (processTransaction no_lago (tx_of 7 ''A'' 1000 13500) (Some (billed_state 7 2 False))
        (Some (mapping_of 1 ''A'' None (Some ''sub'') True)) []) =
   Some \<lparr>steveTransactionId = 7, userMappingId = 1, lagoSubscriptionId = Some ''sub'',
     kwhDelta = Num (21 / 2), meterValueFrom = Num 3000, meterValueTo = Num 13500, isFinal = True,
     lagoEventTransactionId = final_id 7, shouldSendToLago = True, skipReason = None,
     stopTimestamp = Some ''2024-01-01T01:30:00Z'', chargeBoxId = ''CB'', connectorId = 1,
     startTimestamp = ''2024-01-01T00:00:00Z''\<rparr>"
proof -
  let ?tx = "tx_of 7 ''A'' 1000 13500"
  have d: "calculateDelta ?tx = Some \<lparr>delta_kwh = Num (25 / 2), delta_from = Num 1000, delta_to = Num 13500\<rparr>"
    by (simp add: calculateDelta_ints [of _ 1000 13500] tx_of_def)
  have "grid 6 (of_int (10500) / 1000)" by (rule grid_thousandth6)
  then have r: "round_dp 6 (21 / 2) = 21 / 2" by (simp add: round_dp_grid)
  have "js_round (of_int 2000) = 2000" by (rule js_round_of_int)
  then show ?thesis
    using r by (simp add: fst_processTransaction d, simp add: resolveSubscription_def mapping_of_def
        billed_state_def priorBilledKwh_def round6_def ALREADY_BILLED_TOLERANCE_KWH_def Let_def
        skip_reason_of_def tx_of_def)
qed

theorem processTransaction_audit_range_witness:
  "\<exists>r f t d. fst (processTransaction no_lago (tx_of 7 ''A'' 1000 13500) (Some (billed_state 7 2 False))
        (Some (mapping_of 1 ''A'' None (Some ''sub'') True)) []) = Some r
    \<and> meterValueFrom r = Num f \<and> meterValueTo r = Num t \<and> kwhDelta r = Num d
    \<and> \<bar>(t - f) - d * 1000\<bar> \<le> 1 / 2"
proof -
  let ?r = "\<lparr>steveTransactionId = 7, userMappingId = 1, lagoSubscriptionId = Some ''sub'',
     kwhDelta = Num (21 / 2), meterValueFrom = Num 3000, meterValueTo = Num 13500, isFinal = True,
     lagoEventTransactionId = final_id 7, shouldSendToLago = True, skipReason = None,
     stopTimestamp = Some ''2024-01-01T01:30:00Z'', chargeBoxId = ''CB'', connectorId = 1,
     startTimestamp = ''2024-01-01T00:00:00Z''\<rparr>"
  have "\<exists>f t d. meterValueFrom ?r = Num f \<and> meterValueTo ?r = Num t \<and> kwhDelta ?r = Num d
    \<and> \<bar>(t - f) - d * 1000\<bar> \<le> 1 / 2"
  proof (rule processTransaction_audit_range [OF _ _ _ _ _ _ _ final_session_example, where a = 1000 and b = 13500 and p = 2])
    show "grid 6 (2 :: rat)" using grid_of_int [of 6 2] by simp
  qed (simp_all add: tx_of_def billed_state_def priorBilledKwh_def)
  then show ?thesis using final_session_example by blast
qed

theorem notify_once_witness:
  "notifyFinalizedTransactions 0 [(mapping_of 1 ''A'' None (Some ''sub'') True)\<lparr>userId := Some ''u1''\<rparr>] []
      (map the [fst (processTransaction no_lago (tx_of 7 ''A'' 1 6) None
        (Some (mapping_of 1 ''A'' None (Some ''sub'') True)) [])]) [] \<noteq> []
   \<and> distinct (map sn_sourceId (notifyFinalizedTransactions 0
      [(mapping_of 1 ''A'' None (Some ''sub'') True)\<lparr>userId := Some ''u1''\<rparr>] []
      (map the [fst (processTransaction no_lago (tx_of 7 ''A'' 1 6) None
        (Some (mapping_of 1 ''A'' None (Some ''sub'') True)) [])]) []))"
proof -
  let ?ps = "map the [fst (processTransaction no_lago (tx_of 7 ''A'' 1 6) None
        (Some (mapping_of 1 ''A'' None (Some ''sub'') True)) [])]"
  have "distinct (map steveTransactionId ?ps)" by simp
  note once = notify_once [OF this, of 0 "[(mapping_of 1 ''A'' None (Some ''sub'') True)\<lparr>userId := Some ''u1''\<rparr>]" "[]" "[]"]
  have "notifyFinalizedTransactions 0 [(mapping_of 1 ''A'' None (Some ''sub'') True)\<lparr>userId := Some ''u1''\<rparr>] []
      ?ps [] \<noteq> []" by code_simp
  with conjunct1 [OF once] show ?thesis by (rule conjI [rotated])
qed

end
