(* ===== verification/LagoEvents.thy ===== *)
theory LagoEvents
  imports Processor
begin

text \<open>
  Work items become Lago usage events and are cut into batches
  (\<open>src/services/lago-event-builder.ts\<close>). The switch \<open>SAFE_ENRICHMENT\<close>, the configured
  metric code and the clock are arguments.
\<close>

section \<open>Events\<close>

record lago_event =
  transaction_id :: string
  external_subscription_id :: string
  code :: string
  timestamp :: jsnum
  properties :: "(string, string) jsmap"

definition BATCH_SIZE :: nat where
  "BATCH_SIZE = 100"

definition computeDurationMinutes :: "string \<Rightarrow> string option \<Rightarrow> int" where
  "computeDurationMinutes start stop =
     (if \<not> truthy stop then 0
      else (case (date_parse start, date_parse (the stop)) of
              (Some startMs, Some stopMs) \<Rightarrow>
                (if stopMs - startMs \<le> 0 then 0 else round_minutes (stopMs - startMs))
            | _ \<Rightarrow> 0))"

definition event_properties :: "bool \<Rightarrow> processed_transaction \<Rightarrow> (string, string) jsmap" where
  "event_properties safe p =
     (let kwh = js_fixed_str 3 (kwhDelta p);
          base = [(''value'', kwh), (''kwh'', kwh)]
      in if safe
         then base @
           [(''charger_id'', chargeBoxId p),
            (''connector_id'', show_int (connectorId p)),
            (''session_duration_minutes'',
               show_int (computeDurationMinutes (startTimestamp p) (stopTimestamp p))),
            (''start_timestamp'', startTimestamp p),
            (''stop_timestamp'', case stopTimestamp p of None \<Rightarrow> [] | Some s \<Rightarrow> s)]
         else base)"

definition event_timestamp :: "int \<Rightarrow> processed_transaction \<Rightarrow> jsnum" where
  "event_timestamp now p =
     (if truthy (stopTimestamp p)
      then (case date_parse (the (stopTimestamp p)) of None \<Rightarrow> NaN | Some ms \<Rightarrow> Num (of_int (ms div 1000)))
      else Num (of_int (now div 1000)))"

text \<open>\<open>buildLagoEvent\<close> throws on an item without a subscription.\<close>

definition buildLagoEvent :: "bool \<Rightarrow> string \<Rightarrow> int \<Rightarrow> processed_transaction \<Rightarrow> lago_event option" where
  "buildLagoEvent safe metric now p =
     (if \<not> truthy (lagoSubscriptionId p) then None
      else Some \<lparr>transaction_id = lagoEventTransactionId p,
                 external_subscription_id = the (lagoSubscriptionId p),
                 code = metric, timestamp = event_timestamp now p,
                 properties = event_properties safe p\<rparr>)"

fun buildLagoEvents :: "bool \<Rightarrow> string \<Rightarrow> int \<Rightarrow> processed_transaction list \<Rightarrow> lago_event list option" where
  "buildLagoEvents safe metric now [] = Some []"
| "buildLagoEvents safe metric now (p # ps) =
     (case buildLagoEvent safe metric now p of None \<Rightarrow> None
      | Some e \<Rightarrow> map_option ((#) e) (buildLagoEvents safe metric now ps))"

section \<open>Batches\<close>

text \<open>
  The loop \<open>for (i = 0; i < events.length; i += batchSize)\<close>. With a batch size of 0 it
  does not end, so the loop is a partial function.
\<close>

partial_function (option) batch_loop :: "'a list \<Rightarrow> nat \<Rightarrow> nat \<Rightarrow> 'a list list \<Rightarrow> 'a list list option" where
  "batch_loop es bsize i acc =
     (if i < length es then batch_loop es bsize (i + bsize) (acc @ [take bsize (drop i es)]) else Some acc)"

declare batch_loop.simps [code]

definition batchEvents :: "'a list \<Rightarrow> nat \<Rightarrow> 'a list list option" where
  "batchEvents es bsize = batch_loop es bsize 0 []"

lemma batch_loop_stop: "length es \<le> i \<Longrightarrow> batch_loop es bsize i acc = Some acc"
  by (subst batch_loop.simps) simp

lemma batch_loop_step:
  "i < length es \<Longrightarrow> batch_loop es bsize i acc = batch_loop es bsize (i + bsize) (acc @ [take bsize (drop i es)])"
  by (subst batch_loop.simps) simp

text \<open>With a positive size the loop ends, and every slice sits at its place.\<close>

lemma batch_loop_returns:
  assumes "0 < bsize"
  shows "\<exists>bs. batch_loop es bsize i acc = Some (acc @ bs) \<and> concat bs = drop i es
    \<and> (\<forall>b \<in> set bs. b \<noteq> [] \<and> length b \<le> bsize)
    \<and> (\<forall>j. i + j < length es \<longrightarrow> j div bsize < length bs \<and> j mod bsize < length (bs ! (j div bsize))
         \<and> bs ! (j div bsize) ! (j mod bsize) = es ! (i + j))"
proof (induction "length es - i" arbitrary: i acc rule: less_induct)
  case less
  show ?case
  proof (cases "i < length es")
    case False
    then show ?thesis by (intro exI [of _ "[]"]) (simp add: batch_loop_stop)
  next
    case True
    let ?b = "take bsize (drop i es)"
    have "length es - (i + bsize) < length es - i" using True assms by simp
    from less [OF this, of "acc @ [?b]"] obtain bs
      where bs: "batch_loop es bsize (i + bsize) (acc @ [?b]) = Some (acc @ [?b] @ bs)"
        "concat bs = drop (i + bsize) es" "\<forall>b \<in> set bs. b \<noteq> [] \<and> length b \<le> bsize"
        and at: "\<And>j. i + bsize + j < length es \<Longrightarrow> j div bsize < length bs
           \<and> j mod bsize < length (bs ! (j div bsize)) \<and> bs ! (j div bsize) ! (j mod bsize) = es ! (i + bsize + j)"
      by auto
    have place: "j div bsize < length (?b # bs) \<and> j mod bsize < length ((?b # bs) ! (j div bsize))
         \<and> (?b # bs) ! (j div bsize) ! (j mod bsize) = es ! (i + j)" if j: "i + j < length es" for j
    proof (cases "j < bsize")
      case True
      then show ?thesis using j by simp
    next
      case False
      then have "j div bsize = Suc ((j - bsize) div bsize)" "j mod bsize = (j - bsize) mod bsize"
        using assms by (simp_all add: le_div_geq le_mod_geq)
      then show ?thesis using at [of "j - bsize"] j False by simp
    qed
    have "concat (?b # bs) = drop i es"
      using bs(2) by simp (metis add.commute append_take_drop_id drop_drop)
    moreover have "?b \<noteq> []" using True assms by simp
    ultimately show ?thesis
      using bs(1, 3) place True by (intro exI [of _ "?b # bs"]) (auto simp: batch_loop_step)
  qed
qed

lemma batchEvents_place:
  assumes "0 < bsize" "batchEvents es bsize = Some bs"
  shows "concat bs = es" "\<forall>b \<in> set bs. b \<noteq> [] \<and> length b \<le> bsize"
    "j < length es \<Longrightarrow> j div bsize < length bs \<and> j mod bsize < length (bs ! (j div bsize))
        \<and> bs ! (j div bsize) ! (j mod bsize) = es ! j"
  using batch_loop_returns [OF assms(1), of es 0 "[]"] assms(2) by (auto simp: batchEvents_def)

text \<open>
  C24. Batching ends and loses nothing: for a positive batch size the batches are
  non-empty, none exceeds the size, their concatenation is the event list, and event number
  \<open>j\<close> is in batch \<open>j div size\<close>, which is where \<open>runSync\<close> looks for its outcome.
\<close>

theorem batchEvents_correct:
  assumes "0 < bsize"
  shows "\<exists>bs. batchEvents es bsize = Some bs \<and> concat bs = es
    \<and> (\<forall>b \<in> set bs. b \<noteq> [] \<and> length b \<le> bsize)
    \<and> (\<forall>j < length es. j div bsize < length bs \<and> j mod bsize < length (bs ! (j div bsize))
         \<and> bs ! (j div bsize) ! (j mod bsize) = es ! j)"
proof -
  from batch_loop_returns [OF assms, of es 0 "[]"] obtain bs where "batchEvents es bsize = Some bs"
    by (auto simp: batchEvents_def)
  with batchEvents_place [OF assms this] show ?thesis by blast
qed

theorem batchEvents_correct_witness:
  "\<exists>bs. batchEvents [1, 2, 3 :: nat] 2 = Some bs \<and> concat bs = [1, 2, 3]
    \<and> (\<forall>b \<in> set bs. b \<noteq> [] \<and> length b \<le> 2)
    \<and> (\<forall>j < length [1, 2, 3 :: nat]. j div 2 < length bs \<and> j mod 2 < length (bs ! (j div 2))
         \<and> bs ! (j div 2) ! (j mod 2) = [1, 2, 3] ! j)"
  by (rule batchEvents_correct) simp

section \<open>The billed amount\<close>

lemma buildLagoEvents_Some:
  "buildLagoEvents safe metric now ps = Some es \<Longrightarrow>
     length es = length ps \<and> (\<forall>j < length ps. buildLagoEvent safe metric now (ps ! j) = Some (es ! j))"
proof (induction ps arbitrary: es)
  case Nil
  then show ?case by simp
next
  case (Cons p ps)
  then obtain e es' where "buildLagoEvent safe metric now p = Some e"
    "buildLagoEvents safe metric now ps = Some es'" "es = e # es'"
    by (auto split: option.splits)
  with Cons.IH [of es'] show ?case by (auto simp: nth_Cons split: nat.split)
qed

lemma buildLagoEvents_total:
  "\<forall>p \<in> set ps. truthy (lagoSubscriptionId p) \<Longrightarrow> buildLagoEvents safe metric now ps \<noteq> None"
  by (induction ps) (auto simp: buildLagoEvent_def)

text \<open>
  Both energy properties of an event carry the billed delta: read back as a decimal
  they are the delta rounded to watt-hours, exact when the delta is a whole number of
  watt-hours, and the enrichment switch does not change them.
\<close>

theorem event_carries_kwh:
  assumes "buildLagoEvent safe metric now p = Some e" "kwhDelta p = Num d" "0 \<le> d"
  shows "\<exists>t. map_of (properties e) ''value'' = Some t \<and> map_of (properties e) ''kwh'' = Some t
    \<and> decimal_val t = fixed_val 3 d \<and> (grid 3 d \<longrightarrow> decimal_val t = d)
    \<and> transaction_id e = lagoEventTransactionId p"
proof -
  have "properties e = event_properties safe p" "transaction_id e = lagoEventTransactionId p"
    using assms(1) by (auto simp: buildLagoEvent_def split: if_splits)
  then show ?thesis
    using assms(2, 3) by (simp add: event_properties_def decimal_fixed_str fixed_val_grid Let_def)
qed

theorem event_carries_kwh_witness:
  "\<exists>e t. buildLagoEvent True ''kwh'' 0 \<lparr>steveTransactionId = 7, userMappingId = 1,
       lagoSubscriptionId = Some ''sub'', kwhDelta = Num (21 / 2), meterValueFrom = Num 3000,
       meterValueTo = Num 13500, isFinal = True, lagoEventTransactionId = final_id 7,
       shouldSendToLago = True, skipReason = None, stopTimestamp = None, chargeBoxId = ''CB'',
       connectorId = 1, startTimestamp = ''''\<rparr> = Some e
     \<and> map_of (properties e) ''value'' = Some t \<and> decimal_val t = fixed_val 3 (21 / 2)"
proof -
  let ?p = "\<lparr>steveTransactionId = 7, userMappingId = 1, lagoSubscriptionId = Some ''sub'',
       kwhDelta = Num (21 / 2), meterValueFrom = Num 3000, meterValueTo = Num 13500, isFinal = True,
       lagoEventTransactionId = final_id 7, shouldSendToLago = True, skipReason = None,
       stopTimestamp = None, chargeBoxId = ''CB'', connectorId = 1, startTimestamp = ''''\<rparr>"
  obtain e where e: "buildLagoEvent True ''kwh'' 0 ?p = Some e" by (simp add: buildLagoEvent_def)
  have d: "kwhDelta ?p = Num (21 / 2)" "(0::rat) \<le> 21 / 2" by simp_all
  from event_carries_kwh [OF e d] e show ?thesis by blast
qed

end
