(* ===== verification/TagSync.thy ===== *)
theory TagSync
  imports Mappings
begin

text \<open>
  The synchronisation of tag limits and notes to StEvE
  (\<open>src/services/tag-sync.service.ts\<close>): a tag with a mapping is unlimited, any other tag is
  blocked. The answers of Lago, the success of each StEvE or log write and the timestamp
  text are arguments; the writes made are part of the result.
\<close>

section \<open>Names for the notes\<close>

record entity_info =
  customerName :: string
  subscriptionName :: string
  customerUrl :: "string option"
  subscriptionUrl :: "string option"

record lago_customer =
  cus_external_id :: string
  cus_lago_id :: string
  cus_name :: "string option"

definition js_or :: "string option \<Rightarrow> string \<Rightarrow> string" where
  "js_or a b = (if truthy a then the a else b)"

text \<open>\<open>[...new Set(xs)]\<close> keeps the first occurrence of each element.\<close>

definition js_uniq :: "'a list \<Rightarrow> 'a list" where
  "js_uniq xs = rev (remdups (rev xs))"

definition customer_ids :: "user_mapping list \<Rightarrow> string list" where
  "customer_ids ms = map the (js_uniq (filter truthy (map lagoCustomerExternalId ms)))"

text \<open>The two tables, display names and internal ids, as one map to pairs.\<close>

definition customer_names :: "lago_customer list \<Rightarrow> (string, string \<times> string) jsmap" where
  "customer_names cs =
     fold (\<lambda>c. AList.update (cus_external_id c) (js_or (cus_name c) (cus_external_id c), cus_lago_id c)) cs []"

definition add_subscriptions ::
  "lago_subs \<Rightarrow> string \<Rightarrow> (string, string \<times> string) jsmap \<Rightarrow> (string, string \<times> string) jsmap"
where
  "add_subscriptions lago cust names =
     (case lago cust of
        None \<Rightarrow> names
      | Some subs \<Rightarrow>
          fold (\<lambda>s. AList.update (sub_external_id s) (js_or (sub_name s) (sub_external_id s), sub_lago_id s))
            subs names)"

definition entity_key :: "string option \<Rightarrow> string option \<Rightarrow> string" where
  "entity_key c s = (case c of None \<Rightarrow> ''null'' | Some x \<Rightarrow> x) @ '':''
     @ (case s of None \<Rightarrow> ''null'' | Some x \<Rightarrow> x)"

definition entity_of ::
  "string \<Rightarrow> (string, string \<times> string) jsmap \<Rightarrow> (string, string \<times> string) jsmap \<Rightarrow> string \<Rightarrow> string
     \<Rightarrow> entity_info"
where
  "entity_of dashboard cusNames subNames c s =
     (let cusId = map_option snd (map_of cusNames c);
          subId = map_option snd (map_of subNames s)
      in \<lparr>customerName = js_or (map_option fst (map_of cusNames c)) c,
          subscriptionName = js_or (map_option fst (map_of subNames s)) s,
          customerUrl = (if dashboard \<noteq> [] \<and> truthy cusId
             then Some (dashboard @ ''/customer/'' @ the cusId) else None),
          subscriptionUrl = (if dashboard \<noteq> [] \<and> truthy cusId \<and> truthy subId
             then Some (dashboard @ ''/customer/'' @ the cusId @ ''/subscription/'' @ the subId @ ''/overview'')
             else None)\<rparr>)"

text \<open>When \<open>getCustomers\<close> throws, the subscriptions are not asked for.\<close>

definition fetchEntityInfo ::
  "string \<Rightarrow> lago_customer list option \<Rightarrow> lago_subs \<Rightarrow> user_mapping list \<Rightarrow> (string, entity_info) jsmap"
where
  "fetchEntityInfo dashboard customers lago ms =
     (let cusNames = (case customers of None \<Rightarrow> [] | Some cs \<Rightarrow> customer_names cs);
          subNames = (case customers of None \<Rightarrow> []
                      | Some _ \<Rightarrow> fold (add_subscriptions lago) (customer_ids ms) [])
      in fold (\<lambda>m info.
           if truthy (lagoCustomerExternalId m) \<and> truthy (lagoSubscriptionExternalId m)
           then AList.update (entity_key (lagoCustomerExternalId m) (lagoSubscriptionExternalId m))
                  (entity_of dashboard cusNames subNames
                    (the (lagoCustomerExternalId m)) (the (lagoSubscriptionExternalId m))) info
           else info) ms [])"

section \<open>Notes\<close>

definition newline :: string where
  "newline = [char_of (10::nat)]"

fun join_lines :: "string list \<Rightarrow> string" where
  "join_lines [] = []"
| "join_lines [l] = l"
| "join_lines (l # ls) = l @ newline @ join_lines ls"

definition linked_lines :: "user_mapping \<Rightarrow> entity_info option \<Rightarrow> string list" where
  "linked_lines m info =
     [''Linked to ''
        @ js_or (map_option customerName info) (js_or (lagoCustomerExternalId m) ''Unknown'')
        @ '' > ''
        @ js_or (map_option subscriptionName info) (js_or (lagoSubscriptionExternalId m) ''Unknown'')]
     @ (case info of Some i \<Rightarrow> if truthy (customerUrl i) then [''Customer: '' @ the (customerUrl i)] else []
        | None \<Rightarrow> [])
     @ (case info of Some i \<Rightarrow> if truthy (subscriptionUrl i) then [''Subscription: '' @ the (subscriptionUrl i)] else []
        | None \<Rightarrow> [])
     @ [''---'']"

definition generateLinkedNote :: "user_mapping \<Rightarrow> entity_info option \<Rightarrow> string \<Rightarrow> string" where
  "generateLinkedNote m info ts = join_lines (linked_lines m info @ [''Last synced on '' @ ts])"

definition generateUnlinkedNote :: "string \<Rightarrow> string" where
  "generateUnlinkedNote ts = ''No active subscription'' @ newline @ ''---'' @ newline @ ''Last synced on '' @ ts"

text \<open>\<open>note.replace(/Last synced on .+$/, "").trim()\<close>: the dot stops at a line end.\<close>

definition line_end :: "char \<Rightarrow> bool" where
  "line_end c \<longleftrightarrow> (of_char c :: nat) \<in> {10, 13}"

fun drop_last_synced :: "string \<Rightarrow> string" where
  "drop_last_synced [] = []"
| "drop_last_synced (c # cs) =
     (if starts_with (c # cs) ''Last synced on '' \<and> drop 15 (c # cs) \<noteq> []
         \<and> list_all (\<lambda>x. \<not> line_end x) (drop 15 (c # cs))
      then [] else c # drop_last_synced cs)"

definition js_trim :: "string \<Rightarrow> string" where
  "js_trim s = rev (dropWhile js_space (rev (dropWhile js_space s)))"

definition stripTimestamp :: "string \<Rightarrow> string" where
  "stripTimestamp s = js_trim (drop_last_synced s)"

section \<open>The batch\<close>

datatype tag_change = Activated | Deactivated | Updated

definition classifyTagChange :: "int \<Rightarrow> int \<Rightarrow> bool \<Rightarrow> tag_change option" where
  "classifyTagChange currentLimit desiredLimit noteChanged =
     (if currentLimit \<noteq> desiredLimit then
        (if desiredLimit = - 1 \<and> currentLimit = 0 then Some Activated
         else if desiredLimit = 0 \<and> currentLimit \<noteq> 0 then Some Deactivated
         else Some Updated)
      else if noteChanged then Some Updated else None)"

record tag_change_row =
  tc_idTag :: string
  tc_changeType :: tag_change
  tc_beforeLimit :: int
  tc_beforeNote :: "string option"
  tc_afterLimit :: int
  tc_afterNote :: string
  tc_syncRunId :: "int option"

record tag_sync_result =
  ts_total :: nat
  ts_activated :: nat
  ts_deactivated :: nat
  ts_unchanged :: nat
  ts_errors :: "string list"
  ts_log :: "tag_change_row list"
  ts_updates :: "ocpp_tag list"

definition desired_limit :: "user_mapping option \<Rightarrow> int" where
  "desired_limit mapping = (if mapping \<noteq> None then - 1 else 0)"

definition desired_note :: "(string, entity_info) jsmap \<Rightarrow> string \<Rightarrow> user_mapping option \<Rightarrow> string" where
  "desired_note infos ts mapping =
     (case mapping of
        None \<Rightarrow> generateUnlinkedNote ts
      | Some m \<Rightarrow> generateLinkedNote m
          (map_of infos (entity_key (lagoCustomerExternalId m) (lagoSubscriptionExternalId m))) ts)"

definition current_limit :: "ocpp_tag \<Rightarrow> int" where
  "current_limit tag = (case maxActiveTransactionCount tag of None \<Rightarrow> - 1 | Some l \<Rightarrow> l)"

definition note_changed :: "(string, entity_info) jsmap \<Rightarrow> string \<Rightarrow> user_mapping option \<Rightarrow> ocpp_tag \<Rightarrow> bool" where
  "note_changed infos ts mapping tag \<longleftrightarrow>
     stripTimestamp (case tagNote tag of None \<Rightarrow> [] | Some n \<Rightarrow> n)
       \<noteq> stripTimestamp (desired_note infos ts mapping)"

text \<open>
  One tag. \<open>put tag\<close> tells whether the StEvE update succeeds, \<open>logOk tag\<close> whether the row of
  \<open>tag_change_log\<close> can be written; \<open>ts_updates\<close> are the tags StEvE accepted.
\<close>

definition sync_tag ::
  "(ocpp_tag \<Rightarrow> bool) \<Rightarrow> (ocpp_tag \<Rightarrow> bool) \<Rightarrow> (string, user_mapping) jsmap \<Rightarrow> (string, entity_info) jsmap
     \<Rightarrow> string \<Rightarrow> int option \<Rightarrow> ocpp_tag \<Rightarrow> tag_sync_result \<Rightarrow> tag_sync_result"
where
  "sync_tag put logOk look infos ts run tag r =
     (let mapping = map_of look (idTag tag);
          desiredLimit = desired_limit mapping;
          currentLimit = current_limit tag;
          desiredNote = desired_note infos ts mapping;
          noteChanged = note_changed infos ts mapping tag
      in if currentLimit = desiredLimit \<and> \<not> noteChanged then r\<lparr>ts_unchanged := ts_unchanged r + 1\<rparr>
         else let updatedTag = tag\<lparr>maxActiveTransactionCount := Some desiredLimit, tagNote := Some desiredNote\<rparr>;
                  r1 = (case classifyTagChange currentLimit desiredLimit noteChanged of
                          None \<Rightarrow> r
                        | Some ch \<Rightarrow>
                            if logOk tag then r\<lparr>ts_log := ts_log r @ [\<lparr>tc_idTag = idTag tag, tc_changeType = ch,
                              tc_beforeLimit = currentLimit, tc_beforeNote = tagNote tag,
                              tc_afterLimit = desiredLimit, tc_afterNote = desiredNote, tc_syncRunId = run\<rparr>]\<rparr>
                            else r)
              in if put updatedTag then
                   let r2 = r1\<lparr>ts_updates := ts_updates r1 @ [updatedTag]\<rparr>
                   in if currentLimit \<noteq> desiredLimit
                      then (if desiredLimit = - 1 then r2\<lparr>ts_activated := ts_activated r2 + 1\<rparr>
                            else r2\<lparr>ts_deactivated := ts_deactivated r2 + 1\<rparr>)
                      else r2\<lparr>ts_unchanged := ts_unchanged r2 + 1\<rparr>
                 else r1\<lparr>ts_errors := ts_errors r1 @ [idTag tag]\<rparr>)"

definition syncTagStatus ::
  "(ocpp_tag \<Rightarrow> bool) \<Rightarrow> (ocpp_tag \<Rightarrow> bool) \<Rightarrow> string \<Rightarrow> lago_customer list option \<Rightarrow> lago_subs
     \<Rightarrow> string \<Rightarrow> user_mapping list \<Rightarrow> ocpp_tag list \<Rightarrow> int option \<Rightarrow> tag_sync_result"
where
  "syncTagStatus put logOk dashboard customers lago ts ms all run =
     fold (sync_tag put logOk (buildMappingLookupWithInheritance ms all)
             (fetchEntityInfo dashboard customers lago ms) ts run) all
       \<lparr>ts_total = length all, ts_activated = 0, ts_deactivated = 0, ts_unchanged = 0,
        ts_errors = [], ts_log = [], ts_updates = []\<rparr>"

section \<open>The inline update of a single tag\<close>

record steve_notification =
  nf_title :: string
  nf_body :: string
  nf_sourceId :: string

definition inline_note :: "user_mapping \<Rightarrow> string \<Rightarrow> string" where
  "inline_note m ts =
     (if isActive m
      then ''Active mapping '' @ show_int (mappingId m) @ newline @ ''---'' @ newline
             @ ''Last updated by Polaris '' @ ts
      else ''Deactivated by Polaris '' @ ts @ '' (mapping '' @ show_int (mappingId m) @ '')'' @ newline
             @ ''---'' @ newline @ ''Last updated by Polaris '' @ ts)"

definition inline_tag :: "user_mapping \<Rightarrow> string \<Rightarrow> ocpp_tag" where
  "inline_tag m ts = \<lparr>idTag = steveOcppIdTag m, ocppTagPk = steveOcppTagPk m,
     tagNote = Some (inline_note m ts), parentIdTag = steveParentIdTag m, expiryDate = steveExpiryDate m,
     maxActiveTransactionCount = Some (if isActive m then - 1 else 0), blocked = None,
     inTransaction = None, activeTransactionCount = None, parentOcppTagPk = None\<rparr>"

text \<open>
  \<open>steve tag\<close> is the answer of the update: \<open>None\<close> on success, otherwise the error text. The
  result is \<open>ok\<close>, the tag StEvE was asked to store and the notification raised.
\<close>

definition syncSingleTagToSteve ::
  "(ocpp_tag \<Rightarrow> string option) \<Rightarrow> user_mapping \<Rightarrow> string
     \<Rightarrow> (string option \<times> ocpp_tag \<times> steve_notification option)"
where
  "syncSingleTagToSteve steve m ts =
     (let tag = inline_tag m ts in
      case steve tag of
        None \<Rightarrow> (None, tag, None)
      | Some err \<Rightarrow>
          (Some err, tag,
           Some \<lparr>nf_title = ''StEvE sync failed for tag '' @ steveOcppIdTag m,
             nf_body = err @ ''. The mapping is set to '' @ (if isActive m then ''active'' else ''inactive'')
               @ '' in our DB but StEvE was not updated. Background sync will retry.'',
             nf_sourceId = show_int (mappingId m)\<rparr>))"

section \<open>The note does not depend on the timestamp\<close>

definition ts_ok :: "string \<Rightarrow> bool" where
  "ts_ok ts \<longleftrightarrow> ts \<noteq> [] \<and> list_all (\<lambda>x. \<not> line_end x) ts"

lemma newline_end: "newline = [n] \<Longrightarrow> line_end n"
  by (auto simp: newline_def line_end_def)

lemma char_beyond_prefix:
  assumes "starts_with (u @ n # v) w" "n \<notin> set w"
  shows "n \<in> set (drop (length w) (u @ n # v))"
proof (cases "length u < length w")
  case True
  then have "take (length w) (u @ n # v) ! length u = n" by (simp add: nth_append)
  then have "w ! length u = n" using assms(1) by (simp add: starts_with_def)
  with True assms(2) nth_mem show ?thesis by blast
next
  case False
  then show ?thesis by simp
qed

lemma drop_last_synced_line:
  assumes "ts_ok ts"
  shows "drop_last_synced (p @ newline @ ''Last synced on '' @ ts) = p @ newline"
proof -
  obtain n where n: "newline = [n]" by (simp add: newline_def)
  have pat: "n \<notin> set ''Last synced on ''"
  proof
    assume "n \<in> set ''Last synced on ''"
    moreover have "\<forall>c \<in> set ''Last synced on ''. \<not> line_end c" by (simp add: line_end_def)
    ultimately show False using newline_end [OF n] by blast
  qed
  have "drop_last_synced (p @ [n] @ ''Last synced on '' @ ts) = p @ [n]"
  proof (induction p)
    case Nil
    define line where "line = ''Last synced on '' @ ts"
    have "drop_last_synced line = []"
      using assms by (simp add: line_def starts_with_def ts_ok_def)
    moreover have "\<not> starts_with (n # line) ''Last synced on ''"
      using pat by (auto simp: starts_with_def)
    ultimately show ?case unfolding line_def [symmetric] by simp
  next
    case (Cons c p)
    let ?s = "(c # p) @ [n] @ ''Last synced on '' @ ts"
    have len: "length ''Last synced on '' = 15" by simp
    have "n \<in> set (drop 15 ?s)" if "starts_with ?s ''Last synced on ''"
      using char_beyond_prefix [OF that [unfolded append_Cons [of n "[]"] append_Nil] pat]
      unfolding len append_Cons [of n "[]"] append_Nil .
    then have "\<not> (starts_with ?s ''Last synced on '' \<and> list_all (\<lambda>x. \<not> line_end x) (drop 15 ?s))"
      using newline_end [OF n] by (auto simp: list_all_iff)
    with Cons show ?case by auto
  qed
  with n show ?thesis by simp
qed

lemma join_lines_snoc: "xs \<noteq> [] \<Longrightarrow> join_lines (xs @ [l]) = join_lines xs @ newline @ l"
  by (induction xs rule: join_lines.induct) auto

lemma strip_desired_note:
  assumes "ts_ok ts" "ts_ok ts'"
  shows "stripTimestamp (desired_note infos ts mp) = stripTimestamp (desired_note infos ts' mp)"
proof -
  have "\<exists>p. \<forall>t. desired_note infos t mp = p @ newline @ ''Last synced on '' @ t"
  proof (cases mp)
    case None
    then show ?thesis
      by (intro exI [of _ "''No active subscription'' @ newline @ ''---''"])
        (simp add: desired_note_def generateUnlinkedNote_def)
  next
    case (Some m)
    have "linked_lines m info \<noteq> []" for info by (simp add: linked_lines_def)
    with Some show ?thesis by (auto simp: desired_note_def generateLinkedNote_def join_lines_snoc)
  qed
  then show ?thesis using assms drop_last_synced_line by (metis stripTimestamp_def)
qed

section \<open>The lookup sees ids and parents only\<close>

lemma find_map_same:
  "(\<And>x. P (f x) = P x) \<Longrightarrow> find P (map f xs) = map_option f (find P xs)"
  by (induction xs) auto

lemma ancestors_relabel:
  assumes "\<And>t. idTag (f t) = idTag t" "\<And>t. parentIdTag (f t) = parentIdTag t"
  shows "ancestor_loop (map f all) vis (f cur) = map f (ancestor_loop all vis cur)"
proof (induction all vis cur rule: ancestor_loop.induct)
  case (1 all vis cur)
  show ?case
    by (subst (1 2) ancestor_loop.simps)
      (auto simp: assms find_map_same "1.IH" split: option.split)
qed

lemma first_mapped_relabel:
  "(\<And>t. idTag (f t) = idTag t) \<Longrightarrow> first_mapped m (map f ts) = first_mapped m ts"
  by (induction ts) (auto split: option.split)

lemma resolve_relabel:
  assumes "\<And>t. idTag (f t) = idTag t" "\<And>t. parentIdTag (f t) = parentIdTag t"
  shows "resolveMappingWithInheritance k m (map f all) = resolveMappingWithInheritance k m all"
  by (simp add: resolveMappingWithInheritance_def find_map_same assms getAllAncestorTags_def
      ancestors_relabel [OF assms] first_mapped_relabel [OF assms(1)]
      split: option.split)

lemma lookup_relabel:
  assumes "\<And>t. idTag (f t) = idTag t" "\<And>t. parentIdTag (f t) = parentIdTag t"
  shows "buildMappingLookupWithInheritance ms (map f all) = buildMappingLookupWithInheritance ms all"
proof -
  have "inherit_step d (map f all) (f t) = inherit_step d all t" for d t
    by (simp add: inherit_step_def fun_eq_iff assms resolve_relabel [OF assms] split: option.split)
  then show ?thesis
    by (simp add: buildMappingLookupWithInheritance_def fold_map comp_def)
qed

section \<open>What a pass does\<close>

definition updated_tag :: "(string, user_mapping) jsmap \<Rightarrow> (string, entity_info) jsmap \<Rightarrow> string \<Rightarrow> ocpp_tag \<Rightarrow> ocpp_tag" where
  "updated_tag look infos ts tag =
     tag\<lparr>maxActiveTransactionCount := Some (desired_limit (map_of look (idTag tag))),
         tagNote := Some (desired_note infos ts (map_of look (idTag tag)))\<rparr>"

definition needs_update :: "(string, user_mapping) jsmap \<Rightarrow> (string, entity_info) jsmap \<Rightarrow> string \<Rightarrow> ocpp_tag \<Rightarrow> bool" where
  "needs_update look infos ts tag \<longleftrightarrow>
     current_limit tag \<noteq> desired_limit (map_of look (idTag tag))
     \<or> note_changed infos ts (map_of look (idTag tag)) tag"

lemma sync_tag_updates:
  "ts_updates (sync_tag put logOk look infos ts run tag r) =
     ts_updates r @ (if needs_update look infos ts tag \<and> put (updated_tag look infos ts tag)
                     then [updated_tag look infos ts tag] else [])"
  by (simp add: sync_tag_def needs_update_def updated_tag_def Let_def split: option.split)

lemma sync_tags_updates:
  "ts_updates (fold (sync_tag put logOk look infos ts run) tags r) =
     ts_updates r @ filter put (map (updated_tag look infos ts) (filter (needs_update look infos ts) tags))"
  by (induction tags arbitrary: r) (auto simp: sync_tag_updates)

text \<open>StEvE after the accepted updates: each replaces the tag of its id.\<close>

definition steve_apply :: "ocpp_tag list \<Rightarrow> ocpp_tag list \<Rightarrow> ocpp_tag list" where
  "steve_apply updates tags =
     map (\<lambda>t. case find (\<lambda>u. idTag u = idTag t) (rev updates) of None \<Rightarrow> t | Some u \<Rightarrow> u) tags"

lemma steve_apply_pass:
  assumes "distinct (map idTag tags)"
  shows "steve_apply (map (updated_tag look infos ts) (filter (needs_update look infos ts) tags)) tags =
     map (\<lambda>t. if needs_update look infos ts t then updated_tag look infos ts t else t) tags"
proof (unfold steve_apply_def, rule map_cong [OF refl])
  fix t
  assume t: "t \<in> set tags"
  let ?us = "map (updated_tag look infos ts) (filter (needs_update look infos ts) tags)"
  have id: "idTag (updated_tag look infos ts u) = idTag u" for u by (simp add: updated_tag_def)
  have uniq: "u = t" if "u \<in> set tags" "idTag u = idTag t" for u
    using assms t that by (metis distinct_map inj_on_def)
  show "(case find (\<lambda>u. idTag u = idTag t) (rev ?us) of None \<Rightarrow> t | Some u \<Rightarrow> u) =
      (if needs_update look infos ts t then updated_tag look infos ts t else t)"
  proof (cases "find (\<lambda>u. idTag u = idTag t) (rev ?us)")
    case None
    then have "\<forall>u \<in> set ?us. idTag u \<noteq> idTag t" by (simp add: find_None_set)
    then have "\<not> needs_update look infos ts t" using t id by auto
    with None show ?thesis by simp
  next
    case (Some u)
    then have "u \<in> set ?us" "idTag u = idTag t" using find_Some_set by fastforce+
    then obtain v where "v \<in> set tags" "needs_update look infos ts v" "u = updated_tag look infos ts v"
      by auto
    with \<open>idTag u = idTag t\<close> uniq [of v] Some show ?thesis by (simp add: id)
  qed
qed

text \<open>
  After a pass in which StEvE accepts every update, the limits in StEvE are what the
  mappings demand: unlimited for a tag that has a usable mapping of its own or of an
  ancestor, blocked for every other tag.
\<close>

theorem tag_sync_enforces:
  assumes "distinct (map idTag all)" "\<And>t. put t"
    and "t \<in> set (steve_apply (ts_updates (syncTagStatus put logOk dash cs lago ts ms all run)) all)"
  shows "current_limit t =
     (if map_of (buildMappingLookupWithInheritance ms all) (idTag t) \<noteq> None then - 1 else 0)"
proof -
  let ?look = "buildMappingLookupWithInheritance ms all" and ?infos = "fetchEntityInfo dash cs lago ms"
  have "ts_updates (syncTagStatus put logOk dash cs lago ts ms all run) =
      map (updated_tag ?look ?infos ts) (filter (needs_update ?look ?infos ts) all)"
    using assms(2) by (simp add: syncTagStatus_def sync_tags_updates)
  with assms(3) obtain u where "u \<in> set all"
    "t = (if needs_update ?look ?infos ts u then updated_tag ?look ?infos ts u else u)"
    by (auto simp: steve_apply_pass [OF assms(1)])
  then show ?thesis
    by (auto simp: needs_update_def updated_tag_def current_limit_def desired_limit_def split: if_splits)
qed


text \<open>
  Every tag is accounted for exactly once, whichever StEvE and log writes fail: the
  activated, deactivated, unchanged and failed tags add up to the total.
\<close>

theorem tag_sync_counts:
  "let r = syncTagStatus put logOk dash cs lago ts ms all run
   in ts_activated r + ts_deactivated r + ts_unchanged r + length (ts_errors r) = ts_total r
     \<and> ts_total r = length all"
proof -
  let ?n = "\<lambda>r. ts_activated r + ts_deactivated r + ts_unchanged r + length (ts_errors r)"
  have step: "?n (sync_tag put logOk look infos ts run t q) = Suc (?n q)
      \<and> ts_total (sync_tag put logOk look infos ts run t q) = ts_total q" for look infos t q
    by (simp add: sync_tag_def Let_def split: option.split)
  have "?n (fold (sync_tag put logOk look infos ts run) tags q) = ?n q + length tags
      \<and> ts_total (fold (sync_tag put logOk look infos ts run) tags q) = ts_total q" for look infos tags q
    by (induction tags arbitrary: q) (simp_all add: step)
  then show ?thesis by (simp add: syncTagStatus_def Let_def)
qed

section \<open>A concrete pass\<close>

theorem tag_sync_enforces_witness:
  "current_limit (tag_of ''A'' None \<lparr>maxActiveTransactionCount := Some 0, tagNote := Some (generateUnlinkedNote ''now'')\<rparr>) =
     (if map_of (buildMappingLookupWithInheritance [] [tag_of ''A'' None]) ''A'' \<noteq> None then - 1 else 0)"
proof -
  let ?t = "tag_of ''A'' None \<lparr>maxActiveTransactionCount := Some 0, tagNote := Some (generateUnlinkedNote ''now'')\<rparr>"
  have "?t \<in> set (steve_apply (ts_updates (syncTagStatus (\<lambda>t. True) (\<lambda>t. True) [] None (\<lambda>c. None) ''now'' []
      [tag_of ''A'' None] None)) [tag_of ''A'' None])"
    by code_simp
  from tag_sync_enforces [OF _ _ this] show ?thesis by (simp add: tag_of_def)
qed


end
