(* ===== verification/SyncLog.thy ===== *)
theory SyncLog
  imports SyncDb
begin

text \<open>
  The segment log of a sync run (\<open>src/services/sync-logger.ts\<close>): messages are buffered per
  segment and written when the segment ends, together with the status of the segment. The
  JSON context of a message is not modelled.
\<close>

record sync_logger =
  lg_syncRunId :: int
  currentSegment :: "string option"
  segmentLogs :: "(string, (string \<times> string) list) jsmap"
  segmentHasError :: "(string, bool) jsmap"
  segmentHasWarning :: "(string, bool) jsmap"

definition new_logger :: "int \<Rightarrow> sync_logger" where
  "new_logger i = \<lparr>lg_syncRunId = i, currentSegment = None, segmentLogs = [],
     segmentHasError = [], segmentHasWarning = []\<rparr>"

definition buffer_of :: "string \<Rightarrow> sync_logger \<Rightarrow> (string \<times> string) list" where
  "buffer_of seg l = (case map_of (segmentLogs l) seg of None \<Rightarrow> [] | Some b \<Rightarrow> b)"

definition flag_of :: "(string, bool) jsmap \<Rightarrow> string \<Rightarrow> bool" where
  "flag_of m seg = (case map_of m seg of None \<Rightarrow> False | Some b \<Rightarrow> b)"

definition log_entry :: "string \<Rightarrow> string \<Rightarrow> sync_logger \<Rightarrow> sync_logger" where
  "log_entry level msg l =
     (case currentSegment l of None \<Rightarrow> l
      | Some seg \<Rightarrow> l\<lparr>segmentLogs := AList.update seg (buffer_of seg l @ [(level, msg)]) (segmentLogs l)\<rparr>)"

definition lg_info :: "string \<Rightarrow> sync_logger \<Rightarrow> sync_logger" where
  "lg_info = log_entry ''info''"

definition lg_debug :: "string \<Rightarrow> sync_logger \<Rightarrow> sync_logger" where
  "lg_debug = log_entry ''debug''"

definition lg_warn :: "string \<Rightarrow> sync_logger \<Rightarrow> sync_logger" where
  "lg_warn msg l = log_entry ''warn'' msg
     (case currentSegment l of None \<Rightarrow> l
      | Some seg \<Rightarrow> l\<lparr>segmentHasWarning := AList.update seg True (segmentHasWarning l)\<rparr>)"

definition lg_error :: "string \<Rightarrow> sync_logger \<Rightarrow> sync_logger" where
  "lg_error msg l = log_entry ''error'' msg
     (case currentSegment l of None \<Rightarrow> l
      | Some seg \<Rightarrow> l\<lparr>segmentHasError := AList.update seg True (segmentHasError l)\<rparr>)"

text \<open>\<open>segment.replace("_", " ")\<close> replaces the first underscore.\<close>

fun space_first :: "string \<Rightarrow> string" where
  "space_first [] = []"
| "space_first (c # cs) = (if c = CHR ''_'' then CHR '' '' # cs else c # space_first cs)"

definition startSegment :: "string \<Rightarrow> sync_logger \<Rightarrow> sync_logger" where
  "startSegment seg l =
     lg_info (''Starting '' @ space_first seg @ '' segment'')
       (l\<lparr>currentSegment := Some seg,
          segmentLogs := AList.update seg [] (segmentLogs l),
          segmentHasError := AList.update seg False (segmentHasError l),
          segmentHasWarning := AList.update seg False (segmentHasWarning l)\<rparr>)"

definition final_status :: "string option \<Rightarrow> string \<Rightarrow> sync_logger \<Rightarrow> string" where
  "final_status status seg l =
     (case status of Some s \<Rightarrow> s
      | None \<Rightarrow> if flag_of (segmentHasError l) seg then ''error''
                else if flag_of (segmentHasWarning l) seg then ''warning'' else ''success'')"

definition persist_logs :: "int \<Rightarrow> int \<Rightarrow> string \<Rightarrow> (string \<times> string) list \<Rightarrow> sync_db \<Rightarrow> sync_db" where
  "persist_logs now run seg entries d = d\<lparr>runLogs := runLogs d @
     map (\<lambda>(level, msg). \<lparr>log_syncRunId = run, log_segment = seg, log_level = level,
       log_message = msg, log_createdAt = now\<rparr>) entries\<rparr>"

definition set_segment_status :: "int \<Rightarrow> string \<Rightarrow> string \<Rightarrow> sync_db \<Rightarrow> sync_db" where
  "set_segment_status run seg status d =
     (if seg = ''tag_linking'' then update_run run (\<lambda>r. r\<lparr>tagLinkingStatus := Some status\<rparr>) d
      else if seg = ''transaction_sync'' then update_run run (\<lambda>r. r\<lparr>transactionSyncStatus := Some status\<rparr>) d
      else d)"

text \<open>
  \<open>endSegment\<close>: the buffer is the array object in the map, so the closing message is
  written too when the segment has a buffer.
\<close>

definition endSegment :: "int \<Rightarrow> string option \<Rightarrow> sync_logger \<times> sync_db \<Rightarrow> sync_logger \<times> sync_db" where
  "endSegment now status = (\<lambda>(l, d).
     case currentSegment l of None \<Rightarrow> (l, d)
     | Some seg \<Rightarrow>
         (let fin = final_status status seg l;
              l1 = lg_info (''Completed '' @ space_first seg @ '' segment'') l;
              logs = (if map_of (segmentLogs l) seg = None then [] else buffer_of seg l1)
          in (l1\<lparr>currentSegment := None\<rparr>,
              set_segment_status (lg_syncRunId l) seg fin (persist_logs now (lg_syncRunId l) seg logs d))))"

definition skipSegment :: "int \<Rightarrow> string \<Rightarrow> string \<Rightarrow> sync_logger \<times> sync_db \<Rightarrow> sync_logger \<times> sync_db" where
  "skipSegment now seg reason = (\<lambda>(l, d).
     endSegment now (Some ''skipped'') (lg_info (''Skipping segment: '' @ reason) (startSegment seg l), d))"

text \<open>\<open>logTierTransition\<close>, which may be called inside another segment.\<close>

definition logTierTransition ::
  "int \<Rightarrow> string \<Rightarrow> string \<Rightarrow> sync_logger \<times> sync_db \<Rightarrow> sync_logger \<times> sync_db"
where
  "logTierTransition now from_tier to_tier = (\<lambda>(l, d).
     let msg = ''Tier transition: '' @ from_tier @ '' -> '' @ to_tier;
         sch = ''scheduling''
     in case currentSegment l of
          None \<Rightarrow> endSegment now None (lg_info msg (startSegment sch l), d)
        | Some seg \<Rightarrow>
            if seg = sch then (lg_info msg l, d)
            else
              (let l1 = l\<lparr>currentSegment := Some sch\<rparr>;
                   l2 = (if map_of (segmentLogs l1) sch = None
                         then l1\<lparr>segmentLogs := AList.update sch [] (segmentLogs l1),
                                 segmentHasError := AList.update sch False (segmentHasError l1),
                                 segmentHasWarning := AList.update sch False (segmentHasWarning l1)\<rparr>
                         else l1);
                   l3 = lg_info msg l2;
                   logs = buffer_of sch l3
               in if logs \<noteq> []
                  then (l3\<lparr>segmentLogs := AList.update sch [] (segmentLogs l3), currentSegment := Some seg\<rparr>,
                        persist_logs now (lg_syncRunId l) sch logs d)
                  else (l3\<lparr>currentSegment := Some seg\<rparr>, d)))"

section \<open>What a log call leaves alone\<close>

lemma log_entry_simps [simp]:
  "currentSegment (log_entry lv m l) = currentSegment l" "lg_syncRunId (log_entry lv m l) = lg_syncRunId l"
  "segmentHasError (log_entry lv m l) = segmentHasError l"
  "segmentHasWarning (log_entry lv m l) = segmentHasWarning l"
  by (simp_all add: log_entry_def split: option.split)

lemmas log_calls = lg_info_def lg_debug_def lg_warn_def lg_error_def

lemma update_run_tables [simp]:
  "syncStates (update_run i f d) = syncStates d" "syncedEvents (update_run i f d) = syncedEvents d"
  "mappingRows (update_run i f d) = mappingRows d" "nextRunId (update_run i f d) = nextRunId d"
  "runLogs (update_run i f d) = runLogs d"
  by (simp_all add: update_run_def)

lemma set_segment_status_tables [simp]:
  "syncStates (set_segment_status i s x d) = syncStates d"
  "syncedEvents (set_segment_status i s x d) = syncedEvents d"
  "mappingRows (set_segment_status i s x d) = mappingRows d"
  "nextRunId (set_segment_status i s x d) = nextRunId d"
  "runLogs (set_segment_status i s x d) = runLogs d"
  by (simp_all add: set_segment_status_def)

lemma persist_logs_tables [simp]:
  "syncStates (persist_logs n i s es d) = syncStates d"
  "syncedEvents (persist_logs n i s es d) = syncedEvents d"
  "mappingRows (persist_logs n i s es d) = mappingRows d"
  "syncRuns (persist_logs n i s es d) = syncRuns d" "nextRunId (persist_logs n i s es d) = nextRunId d"
  by (simp_all add: persist_logs_def)

lemma endSegment_tables [simp]:
  "syncStates (snd (endSegment now st ld)) = syncStates (snd ld)"
  "syncedEvents (snd (endSegment now st ld)) = syncedEvents (snd ld)"
  "mappingRows (snd (endSegment now st ld)) = mappingRows (snd ld)"
  "nextRunId (snd (endSegment now st ld)) = nextRunId (snd ld)"
  by (simp_all add: endSegment_def Let_def split: prod.split option.split)

lemma skipSegment_tables [simp]:
  "syncStates (snd (skipSegment now seg rs ld)) = syncStates (snd ld)"
  "syncedEvents (snd (skipSegment now seg rs ld)) = syncedEvents (snd ld)"
  "mappingRows (snd (skipSegment now seg rs ld)) = mappingRows (snd ld)"
  "nextRunId (snd (skipSegment now seg rs ld)) = nextRunId (snd ld)"
  by (simp_all add: skipSegment_def split: prod.split)

section \<open>A whole segment\<close>

definition emit :: "string \<times> string \<Rightarrow> sync_logger \<Rightarrow> sync_logger" where
  "emit = (\<lambda>(level, msg).
     if level = ''error'' then lg_error msg else if level = ''warn'' then lg_warn msg else log_entry level msg)"

lemma emits:
  assumes "currentSegment l = Some seg" "map_of (segmentLogs l) seg = Some b"
  shows "currentSegment (fold emit ops l) = Some seg \<and> lg_syncRunId (fold emit ops l) = lg_syncRunId l
    \<and> map_of (segmentLogs (fold emit ops l)) seg = Some (b @ ops)
    \<and> flag_of (segmentHasError (fold emit ops l)) seg
        = (flag_of (segmentHasError l) seg \<or> (\<exists>m. (''error'', m) \<in> set ops))
    \<and> flag_of (segmentHasWarning (fold emit ops l)) seg
        = (flag_of (segmentHasWarning l) seg \<or> (\<exists>m. (''warn'', m) \<in> set ops))"
  using assms
proof (induction ops arbitrary: l b)
  case Nil
  then show ?case by simp
next
  case (Cons op ops)
  obtain level m where op: "op = (level, m)" by (cases op)
  have buf: "map_of (segmentLogs (log_entry lv x l')) seg = Some (b' @ [(lv, x)])"
    if "currentSegment l' = Some seg" "map_of (segmentLogs l') seg = Some b'" for lv x l' b'
    using that by (simp add: log_entry_def buffer_of_def map_of_update)
  have step: "currentSegment (emit op l) = Some seg" "map_of (segmentLogs (emit op l)) seg = Some (b @ [op])"
    "lg_syncRunId (emit op l) = lg_syncRunId l"
    "flag_of (segmentHasError (emit op l)) seg = (flag_of (segmentHasError l) seg \<or> level = ''error'')"
    "flag_of (segmentHasWarning (emit op l)) seg = (flag_of (segmentHasWarning l) seg \<or> level = ''warn'')"
    using Cons.prems by (simp_all add: op emit_def lg_error_def lg_warn_def buf flag_of_def map_of_update)
  have "(\<exists>x. (''error'', x) = op) \<longleftrightarrow> level = ''error''" "(\<exists>x. (''warn'', x) = op) \<longleftrightarrow> level = ''warn''"
    by (auto simp: op)
  then show ?case by (simp add: Cons.IH [OF step(1, 2)] step ex_disj_distrib disj_assoc)
qed

text \<open>
  A segment that is started, logs any messages and ends without an explicit status is
  recorded with the worst level it logged (\<open>error\<close>, else \<open>warning\<close>, else \<open>success\<close>), and
  the log table receives exactly its messages in order between the opening and the closing
  one.
\<close>

theorem segment_recorded:
  "\<exists>l' d'. endSegment now None (fold emit ops (startSegment ''transaction_sync'' l), d) = (l', d')
    \<and> currentSegment l' = None
    \<and> map (\<lambda>e. (log_level e, log_message e)) (drop (length (runLogs d)) (runLogs d'))
        = (''info'', ''Starting transaction sync segment'') # ops @ [(''info'', ''Completed transaction sync segment'')]
    \<and> (\<forall>r \<in> set (syncRuns d'). sr_id r = lg_syncRunId l \<longrightarrow> transactionSyncStatus r = Some
         (if \<exists>m. (''error'', m) \<in> set ops then ''error''
          else if \<exists>m. (''warn'', m) \<in> set ops then ''warning'' else ''success''))"
proof -
  define seg where "seg = ''transaction_sync''"
  let ?l = "fold emit ops (startSegment seg l)"
  have start: "currentSegment (startSegment seg l) = Some seg"
    "map_of (segmentLogs (startSegment seg l)) seg = Some [(''info'', ''Starting transaction sync segment'')]"
    "lg_syncRunId (startSegment seg l) = lg_syncRunId l"
    "\<not> flag_of (segmentHasError (startSegment seg l)) seg"
    "\<not> flag_of (segmentHasWarning (startSegment seg l)) seg"
    by (simp_all add: startSegment_def lg_info_def log_entry_def buffer_of_def map_of_update flag_of_def seg_def)
  note after = emits [OF start(1, 2), of ops, unfolded start(3)]
  have logs: "buffer_of seg (lg_info m ?l)
      = (''info'', ''Starting transaction sync segment'') # ops @ [(''info'', m)]" for m
    using after by (simp add: lg_info_def log_entry_def buffer_of_def map_of_update)
  have fin: "final_status None seg ?l = (if \<exists>m. (''error'', m) \<in> set ops then ''error''
          else if \<exists>m. (''warn'', m) \<in> set ops then ''warning'' else ''success'')"
    using after start(4, 5) by (simp add: final_status_def)
  define m where "m = ''Completed transaction sync segment''"
  let ?d = "persist_logs now (lg_syncRunId l) seg (buffer_of seg (lg_info m ?l)) d"
  let ?d' = "set_segment_status (lg_syncRunId l) seg (final_status None seg ?l) ?d"
  have m: "''Completed '' @ space_first seg @ '' segment'' = m" by (simp add: seg_def m_def)
  have res: "endSegment now None (?l, d) = ((lg_info m ?l)\<lparr>currentSegment := None\<rparr>, ?d')"
    using after unfolding endSegment_def by (simp only: prod.case option.case Let_def m) simp
  have msgs: "map (\<lambda>e. (log_level e, log_message e)) (drop (length (runLogs d)) (runLogs ?d'))
      = buffer_of seg (lg_info m ?l)"
    by (simp add: persist_logs_def comp_def case_prod_beta)
  have stat: "\<forall>r \<in> set (syncRuns ?d'). sr_id r = lg_syncRunId l \<longrightarrow>
      transactionSyncStatus r = Some (final_status None seg ?l)"
    by (auto simp: seg_def set_segment_status_def update_run_def)
  show ?thesis
    unfolding seg_def [symmetric] m_def [symmetric]
    by (intro exI conjI, rule res, simp) (use msgs stat in \<open>simp_all only: logs fin\<close>)
qed

definition one_run_db :: sync_db where
  "one_run_db = snd (createSyncRun 0 \<lparr>syncStates = [], syncedEvents = [], syncRuns = [], nextRunId = 1,
     mappingRows = [], runLogs = []\<rparr>)"

theorem segment_recorded_witness:
  "\<exists>l' d'. endSegment 0 None (fold emit [(''warn'', ''slow'')]
       (startSegment ''transaction_sync'' (new_logger 1)), one_run_db) = (l', d')
     \<and> (\<forall>r \<in> set (syncRuns d'). sr_id r = 1 \<longrightarrow> transactionSyncStatus r = Some ''warning'')"
  using segment_recorded [of 0 "[(''warn'', ''slow'')]" "new_logger 1" one_run_db]
  by (fastforce simp: new_logger_def)

end
