(* ===== verification/SyncRun.thy ===== *)
theory SyncRun
  imports LagoEvents TagSync SyncLog "HOL-Library.Code_Target_Nat"
begin

text \<open>
  The sync run (\<open>src/services/sync.service.ts\<close>): lock, fetch, resolve, process, send in
  batches with retries, persist atomically, notify, release the lock. What the outside
  world answers during one run is the record \<open>sync_env\<close>; the outcome is the value returned
  or the error thrown, the database left behind and the effects outside it. The reconcile
  segment and the charger cache refresh, which catch their own errors, are not modelled.
\<close>

section \<open>The world during a run\<close>

text \<open>
  One HTTP attempt: accepted and acknowledged, accepted by Lago with the answer lost, or not
  accepted.
\<close>

datatype send_outcome = Acked | Unacked | Rejected

record sync_env =
  env_now :: int
  env_end :: int
  env_recent :: "string + transaction list"
  env_tags :: "string + ocpp_tag list"
  env_lago :: lago_subs
  env_customers :: "lago_customer list option"
  env_put :: "ocpp_tag \<Rightarrow> bool"
  env_logOk :: "ocpp_tag \<Rightarrow> bool"
  env_dashboard :: string
  env_ts :: string
  env_send :: "nat \<Rightarrow> nat \<Rightarrow> send_outcome"
  env_sendError :: "nat \<Rightarrow> string"
  env_metric :: string
  env_safe :: bool
  env_chargers :: "(string \<times> string option) list"

record sync_result =
  res_syncRunId :: int
  res_transactionsProcessed :: nat
  res_eventsCreated :: nat
  res_errors :: "string list"

record sync_effects =
  delivered :: "lago_event list"
  notices :: "session_notification list"
  profileHooks :: "processed_transaction list"
  tagSync :: "tag_sync_result option"

definition no_effects :: sync_effects where
  "no_effects = \<lparr>delivered = [], notices = [], profileHooks = [], tagSync = None\<rparr>"

section \<open>Sending\<close>

definition RETRY_DELAYS_MS :: "nat list" where
  "RETRY_DELAYS_MS = [1000, 4000, 16000]"

text \<open>
  The attempts of one batch: whether one was acknowledged, how often Lago accepted the
  batch, and the log. \<open>i\<close> is the batch number and \<open>n\<close> the number of batches.
\<close>

fun attempt_batch :: "(nat \<Rightarrow> send_outcome) \<Rightarrow> nat \<Rightarrow> nat \<Rightarrow> nat list \<Rightarrow> bool \<times> nat \<times> (string \<times> string) list" where
  "attempt_batch out i n [] = (False, 0, [])"
| "attempt_batch out i n (a # as) =
     (let dbg = (''debug'', ''Sending batch '' @ show_nat (i + 1) @ ''/'' @ show_nat n
                   @ '' (attempt '' @ show_nat (a + 1) @ '')'')
      in case out a of
           Acked \<Rightarrow> (True, 1,
             [dbg, (''info'', ''Batch '' @ show_nat (i + 1) @ ''/'' @ show_nat n @ '' sent successfully''
                       @ (if a > 0 then '' on retry'' else ''''))])
         | outcome \<Rightarrow>
             (let w = (if a < length RETRY_DELAYS_MS
                       then [(''warn'', ''Batch '' @ show_nat (i + 1) @ '' failed, retrying in ''
                                @ show_nat (RETRY_DELAYS_MS ! a) @ ''ms'')] else []);
                  (ok, k, log) = attempt_batch out i n as
              in (ok, k + (if outcome = Unacked then 1 else 0), dbg # w @ log)))"

record send_report =
  okBatches :: "nat list"
  accepted :: "lago_event list"
  sendErrors :: "string list"
  sendLog :: "(string \<times> string) list"

fun send_batches :: "sync_env \<Rightarrow> nat \<Rightarrow> nat \<Rightarrow> lago_event list list \<Rightarrow> send_report" where
  "send_batches env n i [] = \<lparr>okBatches = [], accepted = [], sendErrors = [], sendLog = []\<rparr>"
| "send_batches env n i (b # bs) =
     (let (ok, k, log) = attempt_batch (env_send env i) i n [0 ..< length RETRY_DELAYS_MS + 1];
          err = ''Failed to send batch '' @ show_nat (i + 1) @ '' after ''
                  @ show_nat (length RETRY_DELAYS_MS + 1) @ '' attempts: '' @ env_sendError env i;
          rest = send_batches env n (i + 1) bs
      in \<lparr>okBatches = (if ok then [i] else []) @ okBatches rest,
          accepted = concat (replicate k b) @ accepted rest,
          sendErrors = (if ok then [] else [err]) @ sendErrors rest,
          sendLog = log @ (if ok then [] else [(''error'', err)]) @ sendLog rest\<rparr>)"

definition successfully_sent :: "nat list \<Rightarrow> 'a list \<Rightarrow> 'a list" where
  "successfully_sent oks xs =
     map snd (filter (\<lambda>(index, x). index div BATCH_SIZE \<in> set oks) (enumerate 0 xs))"

section \<open>Rows to write\<close>

definition state_update ::
  "int \<Rightarrow> (int, sync_state) jsmap \<Rightarrow> processed_transaction \<Rightarrow> new_sync_state"
where
  "state_update run states pt = \<lparr>ns_transactionId = steveTransactionId pt, ns_meterValue = meterValueTo pt,
     ns_totalKwhBilled = js_fixed_str 6
       (jadd (priorBilledKwh (map_of states (steveTransactionId pt))) (kwhDelta pt)),
     ns_syncRunId = Some run, ns_isFinalized = isFinal pt\<rparr>"

definition event_record :: "int \<Rightarrow> processed_transaction \<Rightarrow> new_synced_event" where
  "event_record run pt = \<lparr>ne_steveTransactionId = steveTransactionId pt,
     ne_lagoEventTransactionId = lagoEventTransactionId pt, ne_userMappingId = Some (userMappingId pt),
     ne_kwhDelta = js_fixed_str 6 (kwhDelta pt), ne_meterValueFrom = meterValueFrom pt,
     ne_meterValueTo = meterValueTo pt, ne_isFinal = isFinal pt, ne_syncRunId = Some run\<rparr>"

section \<open>The run\<close>

definition load_transactions :: "transaction list \<Rightarrow> (int, transaction) jsmap" where
  "load_transactions recent = map_from tx_id (map (\<lambda>t. t\<lparr>isCompleted := True\<rparr>) recent)"

definition runTagSync ::
  "sync_env \<Rightarrow> user_mapping list \<Rightarrow> ocpp_tag list \<Rightarrow> int \<Rightarrow> sync_logger \<times> sync_db
     \<Rightarrow> tag_sync_result \<times> sync_logger \<times> sync_db"
where
  "runTagSync env ms tags run ld =
     (let r = syncTagStatus (env_put env) (env_logOk env) (env_dashboard env) (env_customers env)
                (env_lago env) (env_ts env) ms tags (Some run);
          lg = lg_info ''Tag status synchronization completed''
                 (lg_info ''Starting tag status synchronization''
                   (startSegment ''tag_linking'' (fst ld)))
      in (r, endSegment (env_end env) None (lg, snd ld)))"

definition tag_stats :: "tag_sync_result \<Rightarrow> tag_sync_stats" where
  "tag_stats r = \<lparr>activatedTags = int (ts_activated r), deactivatedTags = int (ts_deactivated r),
     unchangedTags = int (ts_unchanged r)\<rparr>"

text \<open>
  The persisted part of a run when there is something to send (steps 7 to 10): the error
  list, then the database, or the error that was thrown. \<open>batchEvents\<close> returns for
  \<open>BATCH_SIZE\<close> (\<open>batchEvents_correct\<close>), so the branch for its divergence is never taken.
\<close>

definition db_error :: string where
  "db_error = ''database error''"

definition send_and_persist ::
  "sync_env \<Rightarrow> int \<Rightarrow> (int, sync_state) jsmap \<Rightarrow> processed_transaction list \<Rightarrow> processed_transaction list
     \<Rightarrow> sync_logger \<Rightarrow> sync_db
     \<Rightarrow> string list \<times> lago_event list \<times> sync_logger \<times> (string + processed_transaction list \<times> sync_db)"
where
  "send_and_persist env run states toSend skipped lg d =
     (let lg1 = lg_info ''Building Lago events'' lg in
      case buildLagoEvents (env_safe env) (env_metric env) (env_end env) toSend of
        None \<Rightarrow> ([], [], lg1, Inl ''Cannot build Lago event: no subscription ID'')
      | Some lagoEvents \<Rightarrow>
         (case batchEvents lagoEvents BATCH_SIZE of
            None \<Rightarrow> ([], [], lg1, Inl ''unreachable'')
          | Some batches \<Rightarrow>
             (let rep = send_batches env (length batches) 0 batches;
                  lg2 = fold emit ((''info'', ''Sending events to Lago'') # sendLog rep
                          @ [(''info'', ''Updating sync states in database''),
                             (''debug'', ''Persisting sync states and event records atomically'')]) lg1;
                  sent = successfully_sent (okBatches rep) toSend
              in case atomicUpsertSyncStatesAndCreateEvents
                        (map (state_update run states) (sent @ skipped)) (map (event_record run) sent) d of
                   None \<Rightarrow> (sendErrors rep, accepted rep, lg2, Inl db_error)
                 | Some d' \<Rightarrow> (sendErrors rep, accepted rep,
                     lg_info ''Sync states and event records persisted successfully'' lg2, Inr (sent, d')))))"

text \<open>
  \<open>sync_body\<close> is the \<open>try\<close> block. The left value carries the errors collected so far and
  the message of the error that was thrown.
\<close>

definition sync_body ::
  "sync_env \<Rightarrow> int \<Rightarrow> sync_db \<Rightarrow> ((string list \<times> string) + sync_result) \<times> sync_db \<times> sync_effects"
where
  "sync_body env run d =
    (case env_recent env of
       Inl msg \<Rightarrow> (Inl ([], msg), d, no_effects)
     | Inr recent \<Rightarrow>
      (let txs = load_transactions recent; ms = getActiveMappings d in
       case env_tags env of
         Inl msg \<Rightarrow> (Inl ([], msg), d, no_effects)
       | Inr tags \<Rightarrow>
         if txs = [] then
           (let (tr, ld) = runTagSync env ms tags run (new_logger run, d);
                ld' = skipSegment (env_end env) ''transaction_sync'' ''No transactions to process'' ld
            in (Inr \<lparr>res_syncRunId = run, res_transactionsProcessed = 0, res_eventsCreated = 0, res_errors = []\<rparr>,
                markSyncComplete (env_end env) run 0 0 [] (tag_stats tr) (snd ld'),
                no_effects\<lparr>tagSync := Some tr\<rparr>))
         else
           (let states = map_from ss_transactionId (getSyncStates (map fst txs) d);
                look = buildMappingLookupWithInheritance ms tags;
                processed = processTransactions (env_lago env) txs states look;
                hooks = filter (\<lambda>pt. map_of states (steveTransactionId pt) = None) processed;
                toSend = filter shouldSendToLago processed;
                skipped = filter (\<lambda>pt. \<not> shouldSendToLago pt) processed;
                (tr, lg, d1) = runTagSync env ms tags run (new_logger run, d);
                lg1 = startSegment ''transaction_sync'' lg
            in if toSend = [] then
                 (let lg2 = lg_info ''No events to send to Lago'' lg1;
                      lg3 = (if skipped \<noteq> []
                             then lg_info ''Saving sync states for transactions without subscriptions'' lg2 else lg2);
                      (ok, d2) = batchUpsertSyncStates (map (state_update run states) skipped) d1
                  in if \<not> ok then (Inl ([], db_error), d2, no_effects\<lparr>profileHooks := hooks, tagSync := Some tr\<rparr>)
                     else
                       (let lg4 = (if skipped \<noteq> [] then lg_info ''Sync states saved'' lg3 else lg3);
                            d3 = snd (endSegment (env_end env) None (lg4, d2))
                        in (Inr \<lparr>res_syncRunId = run, res_transactionsProcessed = length txs,
                                 res_eventsCreated = 0, res_errors = []\<rparr>,
                            markSyncComplete (env_end env) run (int (length txs)) 0 [] (tag_stats tr) d3,
                            \<lparr>delivered = [],
                             notices = notifyFinalizedTransactions (env_end env) (mappingRows d2) (env_chargers env)
                                         skipped states,
                             profileHooks = hooks, tagSync = Some tr\<rparr>)))
               else
                 (case send_and_persist env run states toSend skipped lg1 d1 of
                    (errs, acc, lg2, Inl msg) \<Rightarrow>
                      (Inl (errs, msg), d1, \<lparr>delivered = acc, notices = [], profileHooks = hooks, tagSync = Some tr\<rparr>)
                  | (errs, acc, lg2, Inr (sent, d2)) \<Rightarrow>
                      (let d3 = snd (endSegment (env_end env)
                                  (if errs \<noteq> [] then Some ''warning'' else None) (lg2, d2))
                       in (Inr \<lparr>res_syncRunId = run, res_transactionsProcessed = length txs,
                                res_eventsCreated = length sent, res_errors = errs\<rparr>,
                           markSyncComplete (env_end env) run (int (length txs)) (int (length sent)) errs
                             (tag_stats tr) d3,
                           \<lparr>delivered = acc,
                            notices = notifyFinalizedTransactions (env_end env) (mappingRows d2) (env_chargers env)
                                        (sent @ skipped) states,
                            profileHooks = hooks, tagSync = Some tr\<rparr>))))))"

definition runSync :: "sync_env \<Rightarrow> sync_db \<Rightarrow> (string + sync_result) \<times> sync_db \<times> sync_effects" where
  "runSync env d =
     (case getRunningSync (env_now env) d of
        (Some _, d1) \<Rightarrow>
          (Inr \<lparr>res_syncRunId = 0, res_transactionsProcessed = 0, res_eventsCreated = 0,
                res_errors = [''Sync already in progress'']\<rparr>, d1, no_effects)
      | (None, d1) \<Rightarrow>
          (case createSyncRun (env_now env) d1 of (run, d2) \<Rightarrow>
            (case sync_body env run d2 of
               (Inl (errs, msg), d3, eff) \<Rightarrow>
                 (Inl msg, markSyncFailed (env_end env) run (errs @ [''Sync failed: '' @ msg]) d3, eff)
             | (Inr res, d3, eff) \<Rightarrow> (Inr res, d3, eff))))"

section \<open>What sending reports\<close>

lemma attempt_batch_ok: "fst (attempt_batch out i n as) \<longleftrightarrow> (\<exists>a \<in> set as. out a = Acked)"
  by (induction as) (auto simp: Let_def split: send_outcome.split prod.split)

lemma attempt_batch_delivers:
  "fst (attempt_batch out i n as) \<Longrightarrow> 0 < fst (snd (attempt_batch out i n as))"
  by (induction as) (auto simp: Let_def split: send_outcome.splits prod.splits)

definition attempts :: "sync_env \<Rightarrow> nat \<Rightarrow> nat \<Rightarrow> bool \<times> nat \<times> (string \<times> string) list" where
  "attempts env n i = attempt_batch (env_send env i) i n [0 ..< length RETRY_DELAYS_MS + 1]"

lemma send_batches_Cons:
  "okBatches (send_batches env n i (b # bs)) =
     (if fst (attempts env n i) then [i] else []) @ okBatches (send_batches env n (i + 1) bs)"
  "accepted (send_batches env n i (b # bs)) =
     concat (replicate (fst (snd (attempts env n i))) b) @ accepted (send_batches env n (i + 1) bs)"
  "sendErrors (send_batches env n i (b # bs)) = [] \<longleftrightarrow>
     fst (attempts env n i) \<and> sendErrors (send_batches env n (i + 1) bs) = []"
  by (simp_all add: attempts_def Let_def split: prod.split)

declare send_batches.simps(2) [simp del]

lemmas send_simps = send_batches_Cons send_batches.simps(1)

lemma attempts_ok: "fst (attempts env n i) \<Longrightarrow> 0 < fst (snd (attempts env n i))"
  unfolding attempts_def by (rule attempt_batch_delivers)

lemma send_batches_ok_range:
  "j \<in> set (okBatches (send_batches env n i bs)) \<Longrightarrow> i \<le> j \<and> j < i + length bs"
  by (induction bs arbitrary: i) (force simp: send_simps split: if_splits)+

lemma send_batches_accepted:
  "set (accepted (send_batches env n i bs)) \<subseteq> set (concat bs)"
  by (induction bs arbitrary: i) (auto simp: send_simps)

lemma send_batches_ok_delivered:
  "j \<in> set (okBatches (send_batches env n i bs)) \<Longrightarrow>
     set (bs ! (j - i)) \<subseteq> set (accepted (send_batches env n i bs))"
proof (induction bs arbitrary: i)
  case Nil
  then show ?case by (simp add: send_simps)
next
  case (Cons b bs)
  show ?case
  proof (cases "j \<in> set (okBatches (send_batches env n (i + 1) bs))")
    case True
    then have "i + 1 \<le> j" using send_batches_ok_range by blast
    with Cons.IH [OF True] show ?thesis by (auto simp: send_simps nth_Cons')
  next
    case False
    with Cons.prems have "j = i" "fst (attempts env n i)" by (auto simp: send_simps split: if_splits)
    with attempts_ok [of env n i] show ?thesis by (auto simp: send_simps)
  qed
qed

lemma send_batches_errors:
  "sendErrors (send_batches env n i bs) = [] \<Longrightarrow> i \<le> j \<Longrightarrow> j < i + length bs \<Longrightarrow>
     j \<in> set (okBatches (send_batches env n i bs))"
proof (induction bs arbitrary: i)
  case Nil
  then show ?case by simp
next
  case (Cons b bs)
  then show ?case using Cons.IH [of "i + 1"] by (cases "j = i") (auto simp: send_simps)
qed

text \<open>The transactions of the acknowledged batches.\<close>

lemma in_successfully_sent:
  "x \<in> set (successfully_sent oks xs) \<longleftrightarrow> (\<exists>j < length xs. x = xs ! j \<and> j div BATCH_SIZE \<in> set oks)"
  by (force simp: successfully_sent_def in_set_enumerate_eq)

lemma successfully_sent_subset: "set (successfully_sent oks xs) \<subseteq> set xs"
  by (auto simp: in_successfully_sent)

lemma distinct_successfully_sent:
  "distinct (map f xs) \<Longrightarrow> distinct (map f (successfully_sent oks xs))"
proof -
  assume "distinct (map f xs)"
  moreover have "map f xs = map (f \<circ> snd) (enumerate 0 xs)" by (simp add: map_map [symmetric] del: map_map)
  ultimately have "distinct (map (f \<circ> snd) (filter (\<lambda>(index, x). index div BATCH_SIZE \<in> set oks) (enumerate 0 xs)))"
    by (metis distinct_map_filter_pred)
  then show ?thesis by (simp add: successfully_sent_def)
qed

section \<open>The shape of a run\<close>

definition run_states :: "sync_db \<Rightarrow> transaction list \<Rightarrow> (int, sync_state) jsmap" where
  "run_states d recent = map_from ss_transactionId (getSyncStates (map fst (load_transactions recent)) d)"

definition run_processed ::
  "sync_env \<Rightarrow> sync_db \<Rightarrow> transaction list \<Rightarrow> ocpp_tag list \<Rightarrow> processed_transaction list"
where
  "run_processed env d recent tags =
     processTransactions (env_lago env) (load_transactions recent) (run_states d recent)
       (buildMappingLookupWithInheritance (getActiveMappings d) tags)"

lemma runTagSync_tables:
  assumes "runTagSync env ms tags run ld = (tr, lg, d')"
  shows "syncStates d' = syncStates (snd ld)" "syncedEvents d' = syncedEvents (snd ld)"
    "mappingRows d' = mappingRows (snd ld)"
proof -
  from assms obtain l where e: "endSegment (env_end env) None (l, snd ld) = (lg, d')"
    by (auto simp: runTagSync_def Let_def)
  then have "d' = snd (endSegment (env_end env) None (l, snd ld))" by simp
  then show "syncStates d' = syncStates (snd ld)" "syncedEvents d' = syncedEvents (snd ld)"
    "mappingRows d' = mappingRows (snd ld)" by simp_all
qed

lemma markSyncComplete_tables [simp]:
  "syncStates (markSyncComplete t i n m es st d) = syncStates d"
  "syncedEvents (markSyncComplete t i n m es st d) = syncedEvents d"
  "mappingRows (markSyncComplete t i n m es st d) = mappingRows d"
  by (simp_all add: markSyncComplete_def)

lemma markSyncFailed_tables [simp]:
  "syncStates (markSyncFailed t i es d) = syncStates d"
  "syncedEvents (markSyncFailed t i es d) = syncedEvents d"
  "mappingRows (markSyncFailed t i es d) = mappingRows d"
  by (simp_all add: markSyncFailed_def)

text \<open>
  \<open>completed\<close>: what the database and the effects of a run that returned look like, in terms
  of the work items \<open>run_processed\<close> computed from the database at its start.
\<close>

definition to_send :: "sync_env \<Rightarrow> sync_db \<Rightarrow> transaction list \<Rightarrow> ocpp_tag list \<Rightarrow> processed_transaction list" where
  "to_send env d recent tags = filter shouldSendToLago (run_processed env d recent tags)"

definition to_skip :: "sync_env \<Rightarrow> sync_db \<Rightarrow> transaction list \<Rightarrow> ocpp_tag list \<Rightarrow> processed_transaction list" where
  "to_skip env d recent tags = filter (\<lambda>pt. \<not> shouldSendToLago pt) (run_processed env d recent tags)"

definition send_plan ::
  "sync_env \<Rightarrow> sync_db \<Rightarrow> transaction list \<Rightarrow> ocpp_tag list \<Rightarrow> lago_event list \<Rightarrow> lago_event list list \<Rightarrow> bool"
where
  "send_plan env d recent tags es batches \<longleftrightarrow>
     env_recent env = Inr recent \<and> env_tags env = Inr tags
     \<and> buildLagoEvents (env_safe env) (env_metric env) (env_end env) (to_send env d recent tags) = Some es
     \<and> batchEvents es BATCH_SIZE = Some batches"

definition sent_of ::
  "sync_env \<Rightarrow> sync_db \<Rightarrow> transaction list \<Rightarrow> ocpp_tag list \<Rightarrow> lago_event list list \<Rightarrow> processed_transaction list"
where
  "sent_of env d recent tags batches =
     successfully_sent (okBatches (send_batches env (length batches) 0 batches)) (to_send env d recent tags)"

definition completed ::
  "sync_env \<Rightarrow> int \<Rightarrow> sync_db \<Rightarrow> transaction list \<Rightarrow> ocpp_tag list \<Rightarrow> lago_event list list
     \<Rightarrow> sync_db \<Rightarrow> string list \<Rightarrow> lago_event list \<Rightarrow> bool"
where
  "completed env run d recent tags batches d' errs acc \<longleftrightarrow>
     (let rep = send_batches env (length batches) 0 batches;
          sent = sent_of env d recent tags batches;
          rows = map (state_update run (run_states d recent)) (sent @ to_skip env d recent tags);
          recs = map (event_record run) sent
      in (\<forall>n \<in> set rows. state_row n \<noteq> None) \<and> (\<forall>n \<in> set recs. event_row n \<noteq> None)
         \<and> syncStates d' = persist_rows rows d
         \<and> syncedEvents d' = syncedEvents d @ map (the \<circ> event_row) recs
         \<and> (recs \<noteq> [] \<longrightarrow> distinct (map ev_lagoEventTransactionId (syncedEvents d')))
         \<and> errs = sendErrors rep \<and> acc = accepted rep)"

lemma send_and_persist_Inr:
  assumes "send_and_persist env run states T K lg d = (errs, acc, lg', Inr (sent, d'))"
  obtains es batches rep where
    "buildLagoEvents (env_safe env) (env_metric env) (env_end env) T = Some es"
    "batchEvents es BATCH_SIZE = Some batches" "rep = send_batches env (length batches) 0 batches"
    "errs = sendErrors rep" "acc = accepted rep" "sent = successfully_sent (okBatches rep) T"
    "atomicUpsertSyncStatesAndCreateEvents (map (state_update run states) (sent @ K))
       (map (event_record run) sent) d = Some d'"
  using assms that unfolding send_and_persist_def Let_def
  by (auto split: option.splits simp del: atomicUpsertSyncStatesAndCreateEvents_def)

lemma no_batches:
  assumes "env_recent env = Inr recent" "env_tags env = Inr tags" "to_send env d recent tags = []"
  shows "send_plan env d recent tags [] []"
  using assms by (simp add: send_plan_def batchEvents_def batch_loop_stop)

lemma sync_body_Inr:
  assumes run: "sync_body env run d = (Inr res, d', eff)"
  shows "\<exists>recent tags es batches. send_plan env d recent tags es batches
    \<and> completed env run d recent tags batches d' (res_errors res) (delivered eff)"
proof -
  obtain recent where recent: "env_recent env = Inr recent"
    using run by (cases "env_recent env") (simp_all add: sync_body_def)
  obtain tags where tags: "env_tags env = Inr tags"
    using run recent by (cases "env_tags env") (simp_all add: sync_body_def Let_def)
  let ?ms = "getActiveMappings d" and ?S = "run_states d recent"
  obtain tr lg d1 where tag: "runTagSync env ?ms tags run (new_logger run, d) = (tr, lg, d1)"
    by (metis prod_cases3)
  note same = runTagSync_tables [OF tag, simplified]
  have T: "to_send env d recent tags = filter shouldSendToLago (run_processed env d recent tags)"
    and K: "to_skip env d recent tags = filter (\<lambda>pt. \<not> shouldSendToLago pt) (run_processed env d recent tags)"
    by (simp_all add: to_send_def to_skip_def)
  consider (none) "load_transactions recent = []"
    | (quiet) "load_transactions recent \<noteq> []" "to_send env d recent tags = []"
    | (send) "load_transactions recent \<noteq> []" "to_send env d recent tags \<noteq> []"
    by blast
  then show ?thesis
  proof cases
    case none
    then have nil: "to_send env d recent tags = []" "to_skip env d recent tags = []"
      by (simp_all add: T K run_processed_def processTransactions_def)
    have "syncStates d' = syncStates d" "syncedEvents d' = syncedEvents d" "res_errors res = []" "delivered eff = []"
      using run same by (auto simp: sync_body_def recent tags none tag Let_def no_effects_def)
    then have "completed env run d recent tags [] d' (res_errors res) (delivered eff)"
      by (simp add: completed_def sent_of_def nil successfully_sent_def send_simps persist_rows_def Let_def)
    with no_batches [OF recent tags nil(1)] show ?thesis by blast
  next
    case quiet
    let ?rows = "map (state_update run ?S) (to_skip env d recent tags)"
    obtain d2 where up: "batchUpsertSyncStates ?rows d1 = (True, d2)"
      and out: "syncStates d' = syncStates d2" "syncedEvents d' = syncedEvents d2"
        "res_errors res = []" "delivered eff = []"
      using run quiet
      by (auto simp: sync_body_def recent tags tag Let_def run_states_def [symmetric] run_processed_def [symmetric]
          T [symmetric] K [symmetric] split: prod.splits if_splits)
    have "completed env run d recent tags [] d' (res_errors res) (delivered eff)"
      using up out same
      by (simp add: completed_def sent_of_def quiet successfully_sent_def send_simps persist_rows_def Let_def
          batch_upsert_ok)
    with no_batches [OF recent tags quiet(2)] show ?thesis by blast
  next
    case send
    obtain errs acc lg2 sent d2 where sp:
      "send_and_persist env run ?S (to_send env d recent tags) (to_skip env d recent tags)
         (startSegment ''transaction_sync'' lg) d1 = (errs, acc, lg2, Inr (sent, d2))"
      and out: "syncStates d' = syncStates d2" "syncedEvents d' = syncedEvents d2"
        "res_errors res = errs" "delivered eff = acc"
      using run send
      by (auto simp: sync_body_def recent tags tag Let_def run_states_def [symmetric] run_processed_def [symmetric]
          T [symmetric] K [symmetric] split: prod.splits sum.splits)
    from sp obtain es batches rep where plan:
      "buildLagoEvents (env_safe env) (env_metric env) (env_end env) (to_send env d recent tags) = Some es"
      "batchEvents es BATCH_SIZE = Some batches" and rep: "rep = send_batches env (length batches) 0 batches"
      "errs = sendErrors rep" "acc = accepted rep"
      "sent = successfully_sent (okBatches rep) (to_send env d recent tags)"
      and at: "atomicUpsertSyncStatesAndCreateEvents (map (state_update run ?S) (sent @ to_skip env d recent tags))
         (map (event_record run) sent) d1 = Some d2"
      by (rule send_and_persist_Inr)
    have "send_plan env d recent tags es batches"
      using recent tags plan by (simp add: send_plan_def)
    moreover have "completed env run d recent tags batches d' (res_errors res) (delivered eff)"
      using at [unfolded atomic_Some] out rep same
      by (auto simp: completed_def sent_of_def persist_rows_def Let_def)
    ultimately show ?thesis by blast
  qed
qed

lemma send_and_persist_Inl:
  assumes "send_and_persist env run states T K lg d = (errs, acc, lg', Inl msg)"
  shows "acc = [] \<or> (\<exists>es batches. buildLagoEvents (env_safe env) (env_metric env) (env_end env) T = Some es
    \<and> batchEvents es BATCH_SIZE = Some batches \<and> acc = accepted (send_batches env (length batches) 0 batches))"
  using assms unfolding send_and_persist_def Let_def
  by (auto split: option.splits simp del: atomicUpsertSyncStatesAndCreateEvents_def)

text \<open>A run that throws: no event row is written, and what it sent was planned.\<close>

lemma sync_body_Inl:
  assumes run: "sync_body env run d = (Inl e, d', eff)"
  shows "syncedEvents d' = syncedEvents d"
    and "delivered eff = [] \<or> (\<exists>recent tags es batches. send_plan env d recent tags es batches
          \<and> delivered eff = accepted (send_batches env (length batches) 0 batches))"
    and "syncStates d' = syncStates d \<or> (\<exists>recent tags k. env_recent env = Inr recent \<and> env_tags env = Inr tags
          \<and> (\<forall>n \<in> set (take k (map (state_update run (run_states d recent)) (to_skip env d recent tags))).
                state_row n \<noteq> None)
          \<and> syncStates d' = persist_rows
              (take k (map (state_update run (run_states d recent)) (to_skip env d recent tags))) d)"
proof -
  let ?A = "syncedEvents d' = syncedEvents d"
  let ?B = "delivered eff = [] \<or> (\<exists>recent tags es batches. send_plan env d recent tags es batches
          \<and> delivered eff = accepted (send_batches env (length batches) 0 batches))"
  let ?C = "syncStates d' = syncStates d \<or> (\<exists>recent tags k. env_recent env = Inr recent \<and> env_tags env = Inr tags
          \<and> (\<forall>n \<in> set (take k (map (state_update run (run_states d recent)) (to_skip env d recent tags))).
                state_row n \<noteq> None)
          \<and> syncStates d' = persist_rows
              (take k (map (state_update run (run_states d recent)) (to_skip env d recent tags))) d)"
  have "?A \<and> ?B \<and> ?C"
  proof (cases "\<exists>recent tags. env_recent env = Inr recent \<and> env_tags env = Inr tags")
    case False
    then show ?thesis
      using run by (cases "env_recent env"; cases "env_tags env") (auto simp: sync_body_def Let_def no_effects_def)
  next
    case True
    then obtain recent tags where recent: "env_recent env = Inr recent" and tags: "env_tags env = Inr tags" by blast
    let ?S = "run_states d recent"
    obtain tr lg d1 where tag: "runTagSync env (getActiveMappings d) tags run (new_logger run, d) = (tr, lg, d1)"
      by (metis prod_cases3)
    note same = runTagSync_tables [OF tag, simplified]
    have T: "to_send env d recent tags = filter shouldSendToLago (run_processed env d recent tags)"
      and K: "to_skip env d recent tags = filter (\<lambda>pt. \<not> shouldSendToLago pt) (run_processed env d recent tags)"
      by (simp_all add: to_send_def to_skip_def)
    have ne: "load_transactions recent \<noteq> []"
      using run by (auto simp: sync_body_def recent tags tag Let_def)
    show ?thesis
    proof (cases "to_send env d recent tags = []")
      case True
      let ?rows = "map (state_update run ?S) (to_skip env d recent tags)"
      from run True ne have up: "batchUpsertSyncStates ?rows d1 = (False, d')" and del: "delivered eff = []"
        by (auto simp: sync_body_def recent tags tag Let_def run_states_def [symmetric] run_processed_def [symmetric]
            T [symmetric] K [symmetric] no_effects_def split: prod.splits if_splits)
      from batch_upsert_prefix [of ?rows d1] obtain k b
        where "batchUpsertSyncStates ?rows d1 = (b, snd (batchUpsertSyncStates (take k ?rows) d1))"
          "fst (batchUpsertSyncStates (take k ?rows) d1)" by blast
      then have k: "batchUpsertSyncStates (take k ?rows) d1 = (True, d')"
        using up by (simp add: prod_eq_iff)
      have ?A using up batch_other_tables(1) [of ?rows d1] same by simp
      moreover have ?C
      proof -
        from k have "\<forall>n \<in> set (take k ?rows). state_row n \<noteq> None" "syncStates d' = persist_rows (take k ?rows) d"
          using same by (simp_all add: batch_upsert_ok persist_rows_def)
        with recent tags show ?thesis by blast
      qed
      ultimately show ?thesis using del by blast
    next
      case False
      then obtain errs lg2 msg where
        sp: "send_and_persist env run ?S (to_send env d recent tags) (to_skip env d recent tags)
           (startSegment ''transaction_sync'' lg) d1 = (errs, delivered eff, lg2, Inl msg)" and d': "d' = d1"
        using run ne
        by (auto simp: sync_body_def recent tags tag Let_def run_states_def [symmetric] run_processed_def [symmetric]
            T [symmetric] K [symmetric] split: prod.splits sum.splits)
      from send_and_persist_Inl [OF sp] recent tags same d' show ?thesis
        by (auto simp: send_plan_def)
    qed
  qed
  then show ?A and ?B and ?C by blast+
qed

section \<open>Finalized sessions\<close>

lemma load_transactions_keys:
  assumes "(i, tx) \<in> set (load_transactions recent)"
  shows "tx_id tx = i \<and> isCompleted tx"
proof -
  have "map_of (load_transactions recent) i = Some tx"
    using assms by (simp add: load_transactions_def distinct_map_from)
  then show ?thesis
    unfolding load_transactions_def by (auto dest!: map_from_Some)
qed

lemma run_states_at:
  assumes "db_ok d" "i \<in> fst ` set (load_transactions recent)"
  shows "map_of (run_states d recent) i = find_state (syncStates d) i"
proof -
  let ?rows = "getSyncStates (map fst (load_transactions recent)) d"
  have rows: "set ?rows \<subseteq> set (syncStates d)" by (auto simp: getSyncStates_def)
  have dist: "distinct (map ss_transactionId (syncStates d))" using assms(1) by (simp add: db_ok_def)
  show ?thesis
  proof (cases "find_state (syncStates d) i")
    case None
    then have "i \<notin> ss_transactionId ` set ?rows" using rows by (auto simp: find_state_None)
    then have "map_of (run_states d recent) i = None" by (simp only: run_states_def map_from_None not_False_eq_True)
    with None show ?thesis by simp
  next
    case (Some s)
    then have s: "s \<in> set (syncStates d)" "ss_transactionId s = i" using find_state_Some by blast+
    then have "s \<in> set ?rows" using assms(2) by (auto simp: getSyncStates_def)
    then have "map_of (run_states d recent) i \<noteq> None"
      using s(2) unfolding run_states_def map_from_None by blast
    then obtain s' where s': "map_of (run_states d recent) i = Some s'" by blast
    then have "s' \<in> set (syncStates d)" "ss_transactionId s' = i"
      using rows by (auto simp: run_states_def dest: map_from_Some)
    then have "s' = s" using dist s by (metis distinct_map inj_on_def)
    with s' Some show ?thesis by simp
  qed
qed

lemma run_processedD:
  assumes "db_ok d" "pt \<in> set (run_processed env d recent tags)"
  obtains i tx m where "(i, tx) \<in> set (load_transactions recent)" "steveTransactionId pt = i" "isFinal pt"
    "\<forall>s. find_state (syncStates d) i = Some s \<longrightarrow> \<not> isFinalized s"
    "map_of (buildMappingLookupWithInheritance (getActiveMappings d) tags) (tx_ocppIdTag tx) = Some m"
    "fst (processTransaction (env_lago env) tx (find_state (syncStates d) i) (Some m) []) = Some pt"
proof -
  from assms(2) obtain i tx where tx: "(i, tx) \<in> set (load_transactions recent)"
    and p: "fst (processTransaction (env_lago env) tx (map_of (run_states d recent) i)
        (map_of (buildMappingLookupWithInheritance (getActiveMappings d) tags) (tx_ocppIdTag tx)) []) = Some pt"
    by (auto simp: run_processed_def in_processTransactions)
  have st: "map_of (run_states d recent) i = find_state (syncStates d) i"
    using run_states_at [OF assms(1)] tx by force
  obtain m where m: "map_of (buildMappingLookupWithInheritance (getActiveMappings d) tags) (tx_ocppIdTag tx) = Some m"
    using p by (cases "map_of (buildMappingLookupWithInheritance (getActiveMappings d) tags) (tx_ocppIdTag tx)") simp_all
  have "isFinal pt" "steveTransactionId pt = i"
    using p load_transactions_keys [OF tx] by (auto simp: m fst_processTransaction Let_def split: if_splits)
  moreover have "\<forall>s. find_state (syncStates d) i = Some s \<longrightarrow> \<not> isFinalized s"
    using p by (auto simp: m st processTransaction_finalized)
  ultimately show thesis using that tx m p st by simp
qed

lemma run_processed_distinct: "distinct (map steveTransactionId (run_processed env d recent tags))"
  unfolding run_processed_def
proof (rule processTransactions_ids)
  show "distinct (map fst (load_transactions recent))" by (simp add: load_transactions_def distinct_map_from)
  show "\<forall>(i, tx) \<in> set (load_transactions recent). tx_id tx = i" using load_transactions_keys by blast
qed

definition final_done :: "sync_db \<Rightarrow> int \<Rightarrow> bool" where
  "final_done d i \<longleftrightarrow> (\<exists>s. find_state (syncStates d) i = Some s \<and> isFinalized s)"

text \<open>The invariant behind exactly-once billing: a session with a final event row is closed.\<close>

definition billed_ok :: "sync_db \<Rightarrow> bool" where
  "billed_ok d \<longleftrightarrow> (\<forall>e \<in> set (syncedEvents d). ev_isFinal e \<longrightarrow> final_done d (ev_steveTransactionId e))"

lemma state_update_row:
  "state_row (state_update run S pt) = Some r \<Longrightarrow>
     ss_transactionId r = steveTransactionId pt \<and> isFinalized r = isFinal pt"
  by (auto simp: state_row_Some state_update_def)

lemma state_update_key [simp]: "ns_transactionId (state_update run S pt) = steveTransactionId pt"
  by (simp add: state_update_def)

text \<open>Rows written from work items close their sessions and reopen none.\<close>

lemma persist_items:
  assumes "\<forall>n \<in> set (map (state_update run S) ps). state_row n \<noteq> None"
    and "distinct (map steveTransactionId ps)" "\<forall>p \<in> set ps. isFinal p"
    and d': "syncStates d' = persist_rows (map (state_update run S) ps) d"
  shows "p \<in> set ps \<Longrightarrow> final_done d' (steveTransactionId p)"
    and "final_done d i \<Longrightarrow> final_done d' i"
    and "p \<in> set ps \<Longrightarrow> find_state (syncStates d') (steveTransactionId p) = state_row (state_update run S p)"
    and "i \<notin> steveTransactionId ` set ps \<Longrightarrow> find_state (syncStates d') i = find_state (syncStates d) i"
proof -
  have dist: "distinct (map ns_transactionId (map (state_update run S) ps))"
    using assms(2) by (simp add: comp_def)
  show at: "find_state (syncStates d') (steveTransactionId p) = state_row (state_update run S p)"
    if "p \<in> set ps" for p
    using persist_rows_at [OF assms(1) dist, of "state_update run S p" d] that by (simp add: d')
  show closed: "final_done d' (steveTransactionId p)" if p: "p \<in> set ps" for p
  proof -
    obtain r where "state_row (state_update run S p) = Some r" using assms(1) p by auto
    with at [OF p] state_update_row [OF this] assms(3) p show ?thesis by (auto simp: final_done_def)
  qed
  show other: "find_state (syncStates d') i = find_state (syncStates d) i"
    if "i \<notin> steveTransactionId ` set ps" for i
    using persist_rows_other [OF assms(1), of i d] that by (auto simp: d' image_iff)
  show "final_done d' i" if "final_done d i" for i
    using closed other [of i] that by (cases "i \<in> steveTransactionId ` set ps") (auto simp: final_done_def)
qed

section \<open>Around the body: lock and failure\<close>

lemma getRunningSync_None_tables:
  assumes "getRunningSync now d = (None, d1)"
  shows "syncStates d1 = syncStates d" "syncedEvents d1 = syncedEvents d" "mappingRows d1 = mappingRows d"
  using assms by (auto simp: getRunningSync_def split: option.splits if_splits)

lemma createSyncRun_tables:
  assumes "createSyncRun now d = (run, d2)"
  shows "syncStates d2 = syncStates d" "syncedEvents d2 = syncedEvents d" "mappingRows d2 = mappingRows d"
  using assms by (auto simp: createSyncRun_def Let_def)

lemma same_tables:
  assumes "syncStates d2 = syncStates d" "syncedEvents d2 = syncedEvents d" "mappingRows d2 = mappingRows d"
  shows "run_states d2 recent = run_states d recent" "to_send env d2 recent tags = to_send env d recent tags"
    "to_skip env d2 recent tags = to_skip env d recent tags"
    "send_plan env d2 recent tags es bs = send_plan env d recent tags es bs"
    "completed env run d2 recent tags bs d' errs acc = completed env run d recent tags bs d' errs acc"
    "persist_rows ns d2 = persist_rows ns d"
proof -
  show st: "run_states d2 recent = run_states d recent" by (simp add: run_states_def getSyncStates_def assms)
  have "run_processed env d2 recent tags = run_processed env d recent tags"
    by (simp add: run_processed_def st getActiveMappings_def assms)
  then show T: "to_send env d2 recent tags = to_send env d recent tags"
    and K: "to_skip env d2 recent tags = to_skip env d recent tags"
    by (simp_all add: to_send_def to_skip_def)
  show pr: "persist_rows ns d2 = persist_rows ns d" for ns by (simp add: persist_rows_def assms)
  show "send_plan env d2 recent tags es bs = send_plan env d recent tags es bs"
    by (simp add: send_plan_def T)
  show "completed env run d2 recent tags bs d' errs acc = completed env run d recent tags bs d' errs acc"
    by (simp add: completed_def sent_of_def st T K pr assms Let_def)
qed

text \<open>The three ways a run ends.\<close>

lemma runSync_ends:
  assumes run: "runSync env d = (out, d', eff)"
  obtains (busy) i where "getRunningSync (env_now env) d = (Some i, d)" "d' = d" "eff = no_effects"
      "out = Inr \<lparr>res_syncRunId = 0, res_transactionsProcessed = 0, res_eventsCreated = 0,
                res_errors = [''Sync already in progress'']\<rparr>"
    | (returns) res run recent tags es batches where "out = Inr res" "send_plan env d recent tags es batches"
      "completed env run d recent tags batches d' (res_errors res) (delivered eff)"
    | (throws) msg run where "out = Inl msg" "syncedEvents d' = syncedEvents d"
      "delivered eff = [] \<or> (\<exists>recent tags es batches. send_plan env d recent tags es batches
          \<and> delivered eff = accepted (send_batches env (length batches) 0 batches))"
      "syncStates d' = syncStates d \<or> (\<exists>recent tags k. env_recent env = Inr recent \<and> env_tags env = Inr tags
          \<and> (\<forall>n \<in> set (take k (map (state_update run (run_states d recent)) (to_skip env d recent tags))).
                state_row n \<noteq> None)
          \<and> syncStates d' = persist_rows
              (take k (map (state_update run (run_states d recent)) (to_skip env d recent tags))) d)"
proof (cases "getRunningSync (env_now env) d")
  case (Pair l d1)
  show thesis
  proof (cases l)
    case (Some i)
    have "d1 = d" using Pair Some by (auto simp: getRunningSync_def split: option.splits if_splits)
    then show thesis using busy Pair Some run by (auto simp: runSync_def)
  next
    case None
    obtain rn d2 where cr: "createSyncRun (env_now env) d1 = (rn, d2)" by fastforce
    note tabs = getRunningSync_None_tables [OF Pair [unfolded None]] createSyncRun_tables [OF cr]
    have tab: "syncStates d2 = syncStates d" "syncedEvents d2 = syncedEvents d" "mappingRows d2 = mappingRows d"
      using tabs by simp_all
    note same = same_tables [OF tab]
    obtain o3 d3 eff3 where body: "sync_body env rn d2 = (o3, d3, eff3)" by (metis prod_cases3)
    show thesis
    proof (cases o3)
      case (Inr res)
      then have o: "out = Inr res" "d' = d3" "eff = eff3" using run Pair None cr body by (simp_all add: runSync_def)
      from sync_body_Inr [OF body [unfolded Inr]] o show thesis by (auto simp: same intro: returns)
    next
      case (Inl e)
      obtain errs msg where e: "e = (errs, msg)" by (cases e)
      have o: "out = Inl msg" "d' = markSyncFailed (env_end env) rn (errs @ [''Sync failed: '' @ msg]) d3" "eff = eff3"
        using run Pair None cr body Inl e by (simp_all add: runSync_def)
      note facts = sync_body_Inl [OF body [unfolded Inl]]
      show thesis
        by (rule throws [OF o(1), where run = rn]) (use facts in \<open>simp_all add: o same tab\<close>)
    qed
  qed
qed

section \<open>Billing across runs\<close>

lemma final_id_inject [simp]: "final_id i = final_id j \<longleftrightarrow> i = j"
  by (simp add: final_id_def)

lemma to_sendD:
  assumes "db_ok d" "pt \<in> set (to_send env d recent tags)"
  shows "lagoEventTransactionId pt = final_id (steveTransactionId pt)" "isFinal pt"
    "\<not> final_done d (steveTransactionId pt)" "shouldSendToLago pt"
    "pt \<in> set (run_processed env d recent tags)"
proof -
  from assms(2) have p: "pt \<in> set (run_processed env d recent tags)" "shouldSendToLago pt"
    by (simp_all add: to_send_def)
  from run_processedD [OF assms(1) p(1)] obtain i tx m where
    i: "steveTransactionId pt = i" "isFinal pt" "\<forall>s. find_state (syncStates d) i = Some s \<longrightarrow> \<not> isFinalized s"
    "fst (processTransaction (env_lago env) tx (find_state (syncStates d) i) (Some m) []) = Some pt"
    by metis
  then show "lagoEventTransactionId pt = final_id (steveTransactionId pt)"
    using p(2) processTransaction_send by blast
  show "isFinal pt" "shouldSendToLago pt" "pt \<in> set (run_processed env d recent tags)" using i p by simp_all
  show "\<not> final_done d (steveTransactionId pt)" using i by (auto simp: final_done_def)
qed

lemma accepted_events:
  assumes "send_plan env d recent tags es batches" "ev \<in> set (accepted (send_batches env n 0 batches))"
  shows "\<exists>pt \<in> set (to_send env d recent tags). buildLagoEvent (env_safe env) (env_metric env) (env_end env) pt = Some ev"
proof -
  have "concat batches = es"
    using assms(1) batchEvents_place(1) [of BATCH_SIZE es batches] by (simp add: send_plan_def BATCH_SIZE_def)
  then have "ev \<in> set es" using assms(2) send_batches_accepted by fastforce
  then obtain j where "j < length es" "ev = es ! j" by (auto simp: in_set_conv_nth)
  with buildLagoEvents_Some [of "env_safe env" "env_metric env" "env_end env" "to_send env d recent tags" es] assms(1)
  show ?thesis by (auto simp: send_plan_def)
qed

lemma delivered_open:
  assumes "db_ok d" "runSync env d = (out, d', eff)" "ev \<in> set (delivered eff)"
  shows "\<exists>i. transaction_id ev = final_id i \<and> \<not> final_done d i"
proof -
  obtain recent tags es batches n where plan: "send_plan env d recent tags es batches"
    and ev: "ev \<in> set (accepted (send_batches env n 0 batches))"
    using assms(2)
  proof (cases rule: runSync_ends)
    case busy
    then show ?thesis using assms(3) by (simp add: no_effects_def)
  next
    case returns
    then show ?thesis using assms(3) that by (auto simp: completed_def Let_def)
  next
    case throws
    then show ?thesis using assms(3) that by auto
  qed
  from accepted_events [OF plan ev] obtain pt where pt: "pt \<in> set (to_send env d recent tags)"
    "buildLagoEvent (env_safe env) (env_metric env) (env_end env) pt = Some ev" by blast
  then have "transaction_id ev = lagoEventTransactionId pt" by (auto simp: buildLagoEvent_def split: if_splits)
  with to_sendD [OF assms(1) pt(1)] show ?thesis by metis
qed

lemma to_skipD:
  assumes "db_ok d" "pt \<in> set (to_skip env d recent tags)"
  shows "isFinal pt" "pt \<in> set (run_processed env d recent tags)"
proof -
  from assms(2) show p: "pt \<in> set (run_processed env d recent tags)" by (simp add: to_skip_def)
  from run_processedD [OF assms(1) p] show "isFinal pt" by metis
qed

lemma sent_of_subset: "set (sent_of env d recent tags batches) \<subseteq> set (to_send env d recent tags)"
  by (simp add: sent_of_def successfully_sent_subset)

lemma distinct_items:
  "distinct (map steveTransactionId (sent_of env d recent tags batches @ to_skip env d recent tags))"
proof -
  let ?P = "run_processed env d recent tags"
  have P: "distinct (map steveTransactionId ?P)" by (rule run_processed_distinct)
  then have "distinct (map steveTransactionId (to_send env d recent tags))"
    "distinct (map steveTransactionId (to_skip env d recent tags))"
    by (simp_all add: to_send_def to_skip_def distinct_map_filter_pred)
  moreover have "steveTransactionId x \<noteq> steveTransactionId y"
    if "x \<in> set (to_send env d recent tags)" "y \<in> set (to_skip env d recent tags)" for x y
    using P that by (auto simp: to_send_def to_skip_def distinct_map inj_on_def)
  ultimately show ?thesis
    using sent_of_subset [of env d recent tags batches]
    by (auto simp: sent_of_def distinct_successfully_sent distinct_map [of steveTransactionId "_ @ _"])
qed

lemma completed_items:
  assumes "db_ok d" "completed env run d recent tags batches d' errs acc"
  shows "p \<in> set (sent_of env d recent tags batches @ to_skip env d recent tags) \<Longrightarrow>
           final_done d' (steveTransactionId p)"
    and "final_done d i \<Longrightarrow> final_done d' i"
    and "p \<in> set (sent_of env d recent tags batches @ to_skip env d recent tags) \<Longrightarrow>
           find_state (syncStates d') (steveTransactionId p) = state_row (state_update run (run_states d recent) p)"
    and "i \<notin> steveTransactionId ` set (sent_of env d recent tags batches @ to_skip env d recent tags) \<Longrightarrow>
           find_state (syncStates d') i = find_state (syncStates d) i"
proof -
  let ?ps = "sent_of env d recent tags batches @ to_skip env d recent tags"
  have rows: "\<forall>n \<in> set (map (state_update run (run_states d recent)) ?ps). state_row n \<noteq> None"
    and d': "syncStates d' = persist_rows (map (state_update run (run_states d recent)) ?ps) d"
    using assms(2) by (simp_all add: completed_def Let_def)
  have fin: "\<forall>p \<in> set ?ps. isFinal p"
    using sent_of_subset [of env d recent tags batches] to_sendD(2) [OF assms(1)] to_skipD(1) [OF assms(1)] by auto
  note it = persist_items [OF rows distinct_items fin d']
  show "p \<in> set ?ps \<Longrightarrow> final_done d' (steveTransactionId p)" by (rule it(1))
  show "final_done d i \<Longrightarrow> final_done d' i" by (rule it(2))
  show "p \<in> set ?ps \<Longrightarrow>
      find_state (syncStates d') (steveTransactionId p) = state_row (state_update run (run_states d recent) p)"
    by (rule it(3))
  show "i \<notin> steveTransactionId ` set ?ps \<Longrightarrow> find_state (syncStates d') i = find_state (syncStates d) i"
    by (rule it(4))
qed

lemma event_row_fields:
  "event_row (event_record run pt) = Some e \<Longrightarrow>
     ev_steveTransactionId e = steveTransactionId pt \<and> ev_lagoEventTransactionId e = lagoEventTransactionId pt
     \<and> ev_isFinal e = isFinal pt"
  by (auto simp: event_row_def event_record_def split: option.splits)

lemma runSync_invariant:
  assumes ok: "db_ok d" and billed: "billed_ok d" and run: "runSync env d = (out, d', eff)"
  shows "db_ok d' \<and> billed_ok d' \<and> (\<forall>i. final_done d i \<longrightarrow> final_done d' i)"
  using run
proof (cases rule: runSync_ends)
  case busy
  then show ?thesis using ok billed by simp
next
  case (returns res rn recent tags es batches)
  note c = returns(3)
  let ?recs = "map (event_record rn) (sent_of env d recent tags batches)"
  have ev: "syncedEvents d' = syncedEvents d @ map (the \<circ> event_row) ?recs"
    and rows: "\<forall>n \<in> set ?recs. event_row n \<noteq> None"
    and st: "syncStates d' = persist_rows (map (state_update rn (run_states d recent))
       (sent_of env d recent tags batches @ to_skip env d recent tags)) d"
    and dist: "?recs \<noteq> [] \<longrightarrow> distinct (map ev_lagoEventTransactionId (syncedEvents d'))"
    using c [unfolded completed_def Let_def] by - (elim conjE, assumption)+
  have "db_ok d'"
  proof (cases "?recs = []")
    case True
    then show ?thesis using ok ev by (simp add: db_ok_def st persist_rows_distinct)
  next
    case False
    then show ?thesis using ok dist by (simp add: db_ok_def st persist_rows_distinct)
  qed
  moreover have "billed_ok d'"
  proof (unfold billed_ok_def, intro ballI impI)
    fix e assume e: "e \<in> set (syncedEvents d')" "ev_isFinal e"
    show "final_done d' (ev_steveTransactionId e)"
    proof (cases "e \<in> set (syncedEvents d)")
      case True
      then show ?thesis using billed e completed_items(2) [OF ok c] by (simp add: billed_ok_def)
    next
      case False
      then obtain pt where pt: "pt \<in> set (sent_of env d recent tags batches)" "e = the (event_row (event_record rn pt))"
        using e(1) by (auto simp: ev)
      then have "event_row (event_record rn pt) = Some e" using rows by auto
      then have "ev_steveTransactionId e = steveTransactionId pt" using event_row_fields by blast
      then show ?thesis using completed_items(1) [OF ok c, of pt] pt(1) by simp
    qed
  qed
  ultimately show ?thesis using completed_items(2) [OF ok c] by blast
next
  case (throws msg rn)
  have "db_ok d' \<and> (\<forall>i. final_done d i \<longrightarrow> final_done d' i)"
    using throws(4)
  proof
    assume "syncStates d' = syncStates d"
    then show ?thesis using ok throws(2) by (simp add: db_ok_def final_done_def)
  next
    assume "\<exists>recent tags k. env_recent env = Inr recent \<and> env_tags env = Inr tags
          \<and> (\<forall>n \<in> set (take k (map (state_update rn (run_states d recent)) (to_skip env d recent tags))).
                state_row n \<noteq> None)
          \<and> syncStates d' = persist_rows
              (take k (map (state_update rn (run_states d recent)) (to_skip env d recent tags))) d"
    then obtain recent tags k where
      rows: "\<forall>n \<in> set (map (state_update rn (run_states d recent)) (take k (to_skip env d recent tags))). state_row n \<noteq> None"
      and st: "syncStates d' = persist_rows (map (state_update rn (run_states d recent)) (take k (to_skip env d recent tags))) d"
      by (auto simp: take_map)
    have "distinct (map steveTransactionId (take k (to_skip env d recent tags)))"
      using distinct_items [of env d recent tags "[]"] by (simp add: take_map [symmetric] distinct_take)
    moreover have "\<forall>p \<in> set (take k (to_skip env d recent tags)). isFinal p"
      using to_skipD(1) [OF ok] by (auto dest: in_set_takeD)
    ultimately have "final_done d i \<longrightarrow> final_done d' i" for i
      using persist_items(2) [OF rows _ _ st] by blast
    moreover have "db_ok d'" using ok throws(2) by (simp add: db_ok_def st persist_rows_distinct)
    ultimately show ?thesis by blast
  qed
  then show ?thesis using billed throws(2) by (auto simp: billed_ok_def)
qed

section \<open>Properties of the run\<close>

definition run_all :: "sync_env list \<Rightarrow> sync_db \<Rightarrow> sync_db" where
  "run_all envs d = fold (\<lambda>env d. fst (snd (runSync env d))) envs d"

lemma run_all_invariant:
  "db_ok d \<Longrightarrow> billed_ok d \<Longrightarrow>
     db_ok (run_all envs d) \<and> billed_ok (run_all envs d) \<and> (\<forall>i. final_done d i \<longrightarrow> final_done (run_all envs d) i)"
proof (induction envs arbitrary: d)
  case Nil
  then show ?case by (simp add: run_all_def)
next
  case (Cons env envs)
  obtain out d1 eff where r: "runSync env d = (out, d1, eff)" by (metis prod_cases3)
  note inv = runSync_invariant [OF Cons.prems r]
  have "run_all (env # envs) d = run_all envs d1" by (simp add: run_all_def r)
  with Cons.IH [of d1] inv show ?case by simp
qed

lemma run_all_append: "run_all (xs @ ys) d = run_all ys (run_all xs d)"
  by (simp add: run_all_def)

text \<open>
  C2. Exactly once across runs: once the final event of a session is recorded, no later
  run ever delivers an event for that session again, whatever StEvE and Lago answer in
  between and however the runs in between end.
\<close>

theorem no_second_event:
  assumes "db_ok d" "billed_ok d"
    and "e \<in> set (syncedEvents (run_all envs d))" "ev_isFinal e"
    and "runSync env (run_all (envs @ later) d) = (out, d', eff)" "ev \<in> set (delivered eff)"
  shows "transaction_id ev \<noteq> final_id (ev_steveTransactionId e)"
proof -
  let ?d1 = "run_all envs d" and ?d2 = "run_all (envs @ later) d"
  have inv1: "db_ok ?d1" "billed_ok ?d1" using run_all_invariant [OF assms(1, 2)] by blast+
  then have "final_done ?d1 (ev_steveTransactionId e)"
    using assms(3, 4) by (simp add: billed_ok_def)
  then have "final_done ?d2 (ev_steveTransactionId e)" "db_ok ?d2"
    using run_all_invariant [OF inv1, of later] by (simp_all add: run_all_append)
  with delivered_open [OF _ assms(5, 6)] show ?thesis by fastforce
qed

lemma sent_events:
  assumes "send_plan env d recent tags es batches" "pt \<in> set (sent_of env d recent tags batches)"
  shows "\<exists>ev. buildLagoEvent (env_safe env) (env_metric env) (env_end env) pt = Some ev
     \<and> ev \<in> set (accepted (send_batches env (length batches) 0 batches))"
proof -
  let ?T = "to_send env d recent tags" and ?rep = "send_batches env (length batches) 0 batches"
  from assms(2) obtain j where j: "j < length ?T" "pt = ?T ! j" "j div BATCH_SIZE \<in> set (okBatches ?rep)"
    by (auto simp: sent_of_def in_successfully_sent)
  from assms(1) have es: "buildLagoEvents (env_safe env) (env_metric env) (env_end env) ?T = Some es"
    and bs: "batchEvents es BATCH_SIZE = Some batches" by (simp_all add: send_plan_def)
  from buildLagoEvents_Some [OF es] j have ev: "length es = length ?T"
    "buildLagoEvent (env_safe env) (env_metric env) (env_end env) pt = Some (es ! j)" by auto
  have "0 < BATCH_SIZE" by (simp add: BATCH_SIZE_def)
  from batchEvents_place(3) [OF this bs, of j] j(1) ev(1)
  have "es ! j \<in> set (batches ! (j div BATCH_SIZE))" by (metis nth_mem)
  with send_batches_ok_delivered [OF j(3)] ev(2) show ?thesis by auto
qed

lemma unsent_reported:
  assumes "send_plan env d recent tags es batches" "pt \<in> set (to_send env d recent tags)"
    "pt \<notin> set (sent_of env d recent tags batches)"
  shows "sendErrors (send_batches env (length batches) 0 batches) \<noteq> []"
proof
  assume none: "sendErrors (send_batches env (length batches) 0 batches) = []"
  let ?T = "to_send env d recent tags"
  from assms(2) obtain j where j: "j < length ?T" "pt = ?T ! j" by (auto simp: in_set_conv_nth)
  from assms(1) have es: "buildLagoEvents (env_safe env) (env_metric env) (env_end env) ?T = Some es"
    and bs: "batchEvents es BATCH_SIZE = Some batches" by (simp_all add: send_plan_def)
  have "0 < BATCH_SIZE" by (simp add: BATCH_SIZE_def)
  from batchEvents_place(3) [OF this bs, of j] buildLagoEvents_Some [OF es] j(1)
  have "j div BATCH_SIZE < length batches" by simp
  with send_batches_errors [OF none] have "j div BATCH_SIZE \<in> set (okBatches (send_batches env (length batches) 0 batches))"
    by simp
  with j assms(3) show False by (auto simp: sent_of_def in_successfully_sent)
qed



section \<open>The lock\<close>

definition run_status :: "sync_db \<Rightarrow> (int \<times> string) list" where
  "run_status d = map (\<lambda>r. (sr_id r, sr_status r)) (syncRuns d)"

definition set_status :: "int \<Rightarrow> string \<Rightarrow> (int \<times> string) list \<Rightarrow> (int \<times> string) list" where
  "set_status i st rs = map (\<lambda>(j, s). if j = i then (j, st) else (j, s)) rs"

lemma run_status_simps [simp]:
  "run_status (markSyncComplete t i n m es st d) = set_status i ''completed'' (run_status d)"
  "run_status (markSyncFailed t i es d) = set_status i ''failed'' (run_status d)"
  "run_status (set_segment_status i seg x d) = run_status d"
  "run_status (persist_logs t i seg ls d) = run_status d"
  by (auto simp: run_status_def set_status_def markSyncComplete_def markSyncFailed_def set_segment_status_def
      persist_logs_def update_run_def)

lemma run_status_endSegment [simp]: "run_status (snd (endSegment t st ld)) = run_status (snd ld)"
  by (simp add: endSegment_def Let_def split: prod.split option.split)

lemma run_status_skipSegment [simp]: "run_status (snd (skipSegment t seg rs ld)) = run_status (snd ld)"
  by (simp add: skipSegment_def split: prod.split)

lemma run_status_runTagSync:
  "runTagSync env ms tags run ld = (tr, lg, d') \<Longrightarrow> run_status d' = run_status (snd ld) \<and> nextRunId d' = nextRunId (snd ld)"
proof -
  assume "runTagSync env ms tags run ld = (tr, lg, d')"
  then obtain l where "endSegment (env_end env) None (l, snd ld) = (lg, d')" by (auto simp: runTagSync_def Let_def)
  then have "d' = snd (endSegment (env_end env) None (l, snd ld))" by simp
  then show ?thesis by simp
qed

lemma run_status_upserts:
  "run_status (snd (batchUpsertSyncStates ns d)) = run_status d"
  by (simp add: run_status_def batch_other_tables)

lemma run_status_atomic:
  "atomicUpsertSyncStatesAndCreateEvents ss es d = Some d' \<Longrightarrow> run_status d' = run_status d \<and> nextRunId d' = nextRunId d"
  by (simp add: atomic_Some run_status_def)

lemma markSync_nextRunId [simp]:
  "nextRunId (markSyncComplete t i n m es st d) = nextRunId d" "nextRunId (markSyncFailed t i es d) = nextRunId d"
  by (simp_all add: markSyncComplete_def markSyncFailed_def)

lemma sync_body_status:
  assumes run: "sync_body env run d = (out, d', eff)"
  shows "run_status d' = (case out of Inl _ \<Rightarrow> run_status d | Inr _ \<Rightarrow> set_status run ''completed'' (run_status d))
    \<and> nextRunId d' = nextRunId d"
proof (cases "\<exists>recent tags. env_recent env = Inr recent \<and> env_tags env = Inr tags")
  case False
  then show ?thesis
    using run by (cases "env_recent env"; cases "env_tags env") (auto simp: sync_body_def Let_def)
next
  case True
  then obtain recent tags where recent: "env_recent env = Inr recent" and tags: "env_tags env = Inr tags" by blast
  obtain tr lg d1 where tag: "runTagSync env (getActiveMappings d) tags run (new_logger run, d) = (tr, lg, d1)"
    by (metis prod_cases3)
  note st1 = run_status_runTagSync [OF tag, simplified]
  let ?S = "run_states d recent" and ?T = "to_send env d recent tags" and ?K = "to_skip env d recent tags"
  have T: "?T = filter shouldSendToLago (run_processed env d recent tags)"
    and K: "?K = filter (\<lambda>pt. \<not> shouldSendToLago pt) (run_processed env d recent tags)"
    by (simp_all add: to_send_def to_skip_def)
  consider (none) "load_transactions recent = []"
    | (quiet) "load_transactions recent \<noteq> []" "?T = []"
    | (send) "load_transactions recent \<noteq> []" "?T \<noteq> []"
    by blast
  then show ?thesis
  proof cases
    case none
    then show ?thesis using run st1 by (auto simp: sync_body_def recent tags tag Let_def)
  next
    case quiet
    let ?rows = "map (state_update run ?S) ?K"
    obtain ok d2 where up: "batchUpsertSyncStates ?rows d1 = (ok, d2)" by fastforce
    have "run_status d2 = run_status d1" "nextRunId d2 = nextRunId d1"
      using run_status_upserts [of ?rows d1] batch_other_tables(3) [of ?rows d1] up by simp_all
    then show ?thesis
      using run quiet up st1
      by (auto simp: sync_body_def recent tags tag Let_def run_states_def [symmetric] run_processed_def [symmetric]
          T [symmetric] K [symmetric] split: if_splits)
  next
    case send
    obtain errs acc lg2 o2 where sp:
      "send_and_persist env run ?S ?T ?K (startSegment ''transaction_sync'' lg) d1 = (errs, acc, lg2, o2)"
      by (metis prod_cases4)
    show ?thesis
    proof (cases o2)
      case (Inl msg)
      then show ?thesis
        using run send sp st1
        by (auto simp: sync_body_def recent tags tag Let_def run_states_def [symmetric] run_processed_def [symmetric]
            T [symmetric] K [symmetric])
    next
      case (Inr sd)
      obtain sent d2 where sd: "sd = (sent, d2)" by (cases sd)
      from send_and_persist_Inr [OF sp [unfolded Inr sd]]
      have "run_status d2 = run_status d1 \<and> nextRunId d2 = nextRunId d1" by (metis run_status_atomic)
      then show ?thesis
        using run send sp st1 Inr sd
        by (auto simp: sync_body_def recent tags tag Let_def run_states_def [symmetric] run_processed_def [symmetric]
            T [symmetric] K [symmetric])
    qed
  qed
qed

definition running_ids :: "sync_db \<Rightarrow> int list" where
  "running_ids d = map fst (filter (\<lambda>(i, s). s = ''running'') (run_status d))"

lemma runs_ok_status:
  "runs_ok d \<longleftrightarrow> distinct (map fst (run_status d)) \<and> (\<forall>i \<in> fst ` set (run_status d). i < nextRunId d)"
  by (simp add: runs_ok_def run_status_def comp_def)

lemma set_status_ids [simp]: "map fst (set_status i st rs) = map fst rs"
  by (induction rs) (auto simp: set_status_def)

lemma set_status_ball [simp]: "(\<forall>x \<in> set (set_status i st rs). fst x < n) \<longleftrightarrow> (\<forall>x \<in> set rs. fst x < (n :: int))"
  by (induction rs) (auto simp: set_status_def split: if_splits)

lemma set_status_running:
  "st \<noteq> ''running'' \<Longrightarrow> map fst (filter (\<lambda>(i, s). s = ''running'') (set_status i st rs))
     = filter (\<lambda>j. j \<noteq> i) (map fst (filter (\<lambda>(i, s). s = ''running'') rs))"
  by (induction rs) (auto simp: set_status_def)

lemma runSync_lock:
  assumes "runs_ok d" "length (running_ids d) \<le> 1" "runSync env d = (out, d', eff)"
  shows "runs_ok d' \<and> (if fst (getRunningSync (env_now env) d) \<noteq> None then d' = d \<and> eff = no_effects
           else running_ids d' = [])"
proof (cases "getRunningSync (env_now env) d")
  case (Pair l d1)
  show ?thesis
  proof (cases l)
    case (Some i)
    then have "d1 = d" using Pair by (auto simp: getRunningSync_def split: option.splits if_splits)
    then show ?thesis using assms Pair Some by (auto simp: runSync_def)
  next
    case None
    have d1: "runs_ok d1" "running_ids d1 = []"
    proof -
      consider (free) "find (\<lambda>r. sr_status r = ''running'') (syncRuns d) = None" "d1 = d"
        | (stale) r where "find (\<lambda>r. sr_status r = ''running'') (syncRuns d) = Some r"
            "d1 = markSyncFailed (env_now env) (sr_id r) [''Sync timed out (stale lock detected)''] d"
        using Pair None by (auto simp: getRunningSync_def split: option.splits if_splits)
      then have "runs_ok d1 \<and> running_ids d1 = []"
      proof cases
        case free
        then have "\<forall>r \<in> set (syncRuns d). sr_status r \<noteq> ''running''" by (simp add: find_None_set)
        then show ?thesis using free assms(1) by (auto simp: running_ids_def run_status_def filter_empty_conv)
      next
        case stale
        from find_Some_set [OF stale(1)] have "sr_id r \<in> set (running_ids d)"
          by (force simp: running_ids_def run_status_def)
        then have "running_ids d = [sr_id r]" using assms(2) by (cases "running_ids d") auto
        then show ?thesis
          using assms(1) stale(2) set_status_running [of "''failed''" "sr_id r" "run_status d"]
          by (simp add: running_ids_def runs_ok_status)
      qed
      then show "runs_ok d1" "running_ids d1 = []" by blast+
    qed
    obtain rn d2 where cr: "createSyncRun (env_now env) d1 = (rn, d2)" by fastforce
    then have d2: "run_status d2 = run_status d1 @ [(rn, ''running'')]" "rn = nextRunId d1" "nextRunId d2 = nextRunId d1 + 1"
      by (auto simp: createSyncRun_def Let_def run_status_def)
    then have ok2: "runs_ok d2" using d1(1) by (force simp: runs_ok_status)
    have run2: "running_ids d2 = [rn]" using d1(2) d2 by (simp add: running_ids_def)
    obtain o3 d3 eff3 where body: "sync_body env rn d2 = (o3, d3, eff3)" by (metis prod_cases3)
    have "(run_status d' = set_status rn ''failed'' (run_status d2)
        \<or> run_status d' = set_status rn ''completed'' (run_status d2)) \<and> nextRunId d' = nextRunId d2"
      using sync_body_status [OF body] assms(3) Pair None cr body
      by (cases o3) (auto simp: runSync_def split: prod.splits)
    then obtain st where st: "st = ''failed'' \<or> st = ''completed''"
      "run_status d' = set_status rn st (run_status d2)" "nextRunId d' = nextRunId d2" by blast
    moreover from st(1) have "st \<noteq> ''running''" by auto
    ultimately have "running_ids d' = []" "runs_ok d'"
      using run2 ok2 set_status_running [of st rn "run_status d2"] by (simp_all add: running_ids_def runs_ok_status)
    then show ?thesis using Pair None by simp
  qed
qed


section \<open>Concrete runs\<close>

definition sample_env :: "transaction list \<Rightarrow> (nat \<Rightarrow> nat \<Rightarrow> send_outcome) \<Rightarrow> sync_env" where
  "sample_env recent out = \<lparr>env_now = 0, env_end = 1, env_recent = Inr recent,
     env_tags = Inr [tag_of ''A'' None], env_lago = no_lago, env_customers = None,
     env_put = (\<lambda>t. True), env_logOk = (\<lambda>t. True), env_dashboard = [], env_ts = ''now'',
     env_send = out, env_sendError = (\<lambda>i. ''down''), env_metric = ''kwh'', env_safe = True,
     env_chargers = []\<rparr>"

definition sample_db :: sync_db where
  "sample_db = \<lparr>syncStates = [], syncedEvents = [], syncRuns = [], nextRunId = 1,
     mappingRows = [mapping_of 1 ''A'' None (Some ''sub'') True], runLogs = []\<rparr>"

abbreviation good_run :: "(string + sync_result) \<times> sync_db \<times> sync_effects" where
  "good_run \<equiv> runSync (sample_env [tx_of 7 ''A'' 1000 13500] (\<lambda>i a. Acked)) sample_db"

lemma sample_ok: "db_ok sample_db" "billed_ok sample_db" "runs_ok sample_db" "running_ids sample_db = []"
  by (simp_all add: sample_db_def db_ok_def billed_ok_def runs_ok_def running_ids_def run_status_def)

lemma sample_free: "fst (getRunningSync (env_now (sample_env recent out)) sample_db) = None"
  by (simp add: sample_env_def sample_db_def getRunningSync_def)

theorem no_second_event_witness:
  "\<exists>e ev. e \<in> set (syncedEvents (run_all [sample_env [tx_of 7 ''A'' 1000 13500] (\<lambda>i a. Acked)] sample_db))
     \<and> ev \<in> set (delivered (snd (snd (runSync (sample_env [tx_of 7 ''A'' 1000 13500, tx_of 8 ''A'' 1000 3000] (\<lambda>i a. Acked))
           (run_all [sample_env [tx_of 7 ''A'' 1000 13500] (\<lambda>i a. Acked)] sample_db)))))
     \<and> transaction_id ev \<noteq> final_id (ev_steveTransactionId e)"
proof -
  let ?env1 = "sample_env [tx_of 7 ''A'' 1000 13500] (\<lambda>i a. Acked)"
  let ?env2 = "sample_env [tx_of 7 ''A'' 1000 13500, tx_of 8 ''A'' 1000 3000] (\<lambda>i a. Acked)"
  have "map ev_isFinal (syncedEvents (run_all [?env1] sample_db)) = [True]" by code_simp
  then obtain e where e: "e \<in> set (syncedEvents (run_all [?env1] sample_db))" "ev_isFinal e"
    by (auto simp: map_eq_Cons_conv)
  obtain out d' eff where r: "runSync ?env2 (run_all ([?env1] @ []) sample_db) = (out, d', eff)"
    by (metis prod_cases3)
  have "map transaction_id (delivered (snd (snd (runSync ?env2 (run_all [?env1] sample_db))))) = [''steve_tx_8_final'']"
    by code_simp
  then obtain ev where ev: "ev \<in> set (delivered eff)" using r by (auto simp: map_eq_Cons_conv)
  have "eff = snd (snd (runSync ?env2 (run_all [?env1] sample_db)))" using r by simp
  with no_second_event [OF sample_ok(1, 2) e r ev] e(1) ev show ?thesis by blast
qed




text \<open>
  A start reading that is not a number is not caught by the guards on the meter values: the
  delta is NaN, the event goes out to Lago with the amount \<open>NaN\<close>, and only then the integer
  column rejects the row, so that the run fails and the next one sends the event again.
\<close>

lemma nan_reading_reaches_lago:
  "let r = runSync (sample_env [(tx_of 7 ''A'' 0 5)\<lparr>tx_startValue := ''n/a''\<rparr>] (\<lambda>i a. Acked)) sample_db
   in isl (fst r) \<and> map (\<lambda>e. map_of (properties e) ''value'') (delivered (snd (snd r))) = [Some ''NaN'']
      \<and> syncStates (fst (snd r)) = []"
  by code_simp

end
