(* ===== verification/Incremental.thy ===== *)
theory Incremental
  imports SyncRun
begin

text \<open>
  The incremental billing emitter (\<open>src/services/incremental-billing.service.ts\<close>). Samples
  of the meter accumulate in one state object per transaction; a flush is an asynchronous
  function that awaits the resolution of the customer, the Lago call and the database, so
  that samples, sweeps and other flushes run in between. State objects are shared by
  reference: \<open>objs\<close> is the heap, the \<open>Map\<close> of the module holds references, and a flush in
  flight keeps its own reference even when the map has dropped it.
\<close>

section \<open>State\<close>

record tx_billing_state =
  bs_txId :: int
  bs_chargeBoxId :: string
  startMeterValueWh :: "int option"
  lastMeterValueWh :: "int option"
  lastBilledMeterValueWh :: int
  totalBilledKwh :: rat
  pendingDeltaKwh :: rat
  lastSampleAt :: int
  lastFlushAt :: int
  resolved :: bool
  bs_userMappingId :: "int option"
  bs_lagoCustomer :: "string option"
  bs_lagoSubscription :: "string option"
  bs_planCode :: "string option"
  flushing :: bool
  endedEmitted :: bool

record meter_sample =
  ms_txId :: int
  ms_chargeBoxId :: string
  ms_kwh :: "jsnum option"
  ms_isFinal :: bool
  ms_userMappingId :: "int option"

record persist_args =
  pa_txId :: int
  pa_meterValue :: int
  pa_totalKwh :: rat
  pa_finalized :: bool
  pa_syncRunId :: "int option"
  pa_eventId :: string
  pa_userMappingId :: "int option"
  pa_kwhDelta :: rat
  pa_from :: int
  pa_to :: int

text \<open>The \<open>transaction.billing\<close> message of the event bus.\<close>

record billing_notice =
  bn_transactionId :: int
  bn_billedKwh :: rat
  bn_flushedAt :: int
  bn_eventId :: string
  bn_isReconciliation :: bool
  bn_userMappingId :: "int option"

text \<open>
  Where a flush waits: for the customer, for Lago (with the amount and event id it sent and
  the time of sending), or for the database.
\<close>

datatype flush_pc = Resolving | Sending rat string int | Persisting persist_args int

record flight =
  fl_ref :: nat
  fl_final :: bool
  fl_pc :: flush_pc

text \<open>
  \<open>accum\<close> is a history variable and not part of the code: per object, the energy of all
  accepted samples.
\<close>

record billing_world =
  objs :: "tx_billing_state list"
  smap :: "(int, nat) jsmap"
  flights :: "flight list"
  subscriptionCache :: sub_cache
  bdb :: sync_db
  ledger :: "lago_event list"
  published :: "billing_notice list"
  accum :: "rat list"

definition FLUSH_INTERVAL_MS :: int where "FLUSH_INTERVAL_MS = 60000"
definition FLUSH_KWH_THRESHOLD :: rat where "FLUSH_KWH_THRESHOLD = 1"
definition STATE_TTL_MS :: int where "STATE_TTL_MS = 30 * 60000"
definition STATE_CAP :: nat where "STATE_CAP = 5000"

section \<open>Accepting samples\<close>

definition createState :: "meter_sample \<Rightarrow> int \<Rightarrow> tx_billing_state" where
  "createState s now = \<lparr>bs_txId = ms_txId s, bs_chargeBoxId = ms_chargeBoxId s,
     startMeterValueWh = None, lastMeterValueWh = None, lastBilledMeterValueWh = 0,
     totalBilledKwh = 0, pendingDeltaKwh = 0, lastSampleAt = now, lastFlushAt = 0,
     resolved = False, bs_userMappingId = ms_userMappingId s, bs_lagoCustomer = None,
     bs_lagoSubscription = None, bs_planCode = None, flushing = False, endedEmitted = False\<rparr>"

text \<open>The entry with the smallest \<open>lastSampleAt\<close>, the first one on a tie.\<close>

fun oldest_entry :: "tx_billing_state list \<Rightarrow> (int \<times> nat) list \<Rightarrow> (int \<times> int) option" where
  "oldest_entry os [] = None"
| "oldest_entry os ((i, r) # m) =
     (case oldest_entry os m of
        None \<Rightarrow> Some (i, lastSampleAt (os ! r))
      | Some (j, t) \<Rightarrow> if lastSampleAt (os ! r) \<le> t then Some (i, lastSampleAt (os ! r)) else Some (j, t))"

definition rememberState :: "int \<Rightarrow> nat \<Rightarrow> billing_world \<Rightarrow> billing_world" where
  "rememberState txId r w =
     (let m = (if length (smap w) \<ge> STATE_CAP
               then (case oldest_entry (objs w) (smap w) of None \<Rightarrow> smap w | Some (i, t) \<Rightarrow> AList.delete i (smap w))
               else smap w)
      in w\<lparr>smap := AList.update txId r m\<rparr>)"

text \<open>
  One sample of \<open>wh\<close> watt-hours on its state object: the object afterwards and whether a
  flush is due.
\<close>

definition take_sample :: "int \<Rightarrow> int \<Rightarrow> meter_sample \<Rightarrow> tx_billing_state \<Rightarrow> tx_billing_state \<times> bool" where
  "take_sample now wh s st =
     (case lastMeterValueWh st of
        None \<Rightarrow>
          (st\<lparr>lastMeterValueWh := Some wh,
              startMeterValueWh := (case startMeterValueWh st of None \<Rightarrow> Some wh | Some x \<Rightarrow> Some x),
              lastBilledMeterValueWh := (if lastBilledMeterValueWh st = 0 then wh else lastBilledMeterValueWh st),
              lastSampleAt := now\<rparr>, False)
      | Some l \<Rightarrow>
          if wh < l - 50 then (st, False)
          else
            (let st1 = st\<lparr>pendingDeltaKwh := pendingDeltaKwh st + (if wh - l > 0 then of_int (wh - l) / 1000 else 0),
                   lastMeterValueWh := Some wh, lastSampleAt := now,
                   bs_userMappingId := (case bs_userMappingId st of None \<Rightarrow> ms_userMappingId s | Some u \<Rightarrow> Some u)\<rparr>
             in (st1, ms_isFinal s \<or> now - lastFlushAt st1 \<ge> FLUSH_INTERVAL_MS
                       \<or> pendingDeltaKwh st1 \<ge> FLUSH_KWH_THRESHOLD)))"

text \<open>\<open>flush\<close> up to its first \<open>await\<close>.\<close>

definition begin_flush :: "nat \<Rightarrow> bool \<Rightarrow> billing_world \<Rightarrow> billing_world" where
  "begin_flush r final w =
     (let st = objs w ! r in
      if flushing st then w
      else if pendingDeltaKwh st \<le> 0 \<and> \<not> final then w
      else w\<lparr>objs := (objs w)[r := st\<lparr>flushing := True\<rparr>],
             flights := flights w @ [\<lparr>fl_ref = r, fl_final = final, fl_pc = Resolving\<rparr>]\<rparr>)"

definition find_or_create :: "int \<Rightarrow> meter_sample \<Rightarrow> billing_world \<Rightarrow> nat \<times> billing_world" where
  "find_or_create now s w =
     (case map_of (smap w) (ms_txId s) of
        Some r \<Rightarrow> (r, w)
      | None \<Rightarrow>
          (length (objs w),
           rememberState (ms_txId s) (length (objs w))
             (w\<lparr>objs := objs w @ [createState s now], accum := accum w @ [0]\<rparr>)))"

definition enqueueMeterSample :: "int \<Rightarrow> meter_sample \<Rightarrow> billing_world \<Rightarrow> billing_world" where
  "enqueueMeterSample now s w =
     (case ms_kwh s of
        Some (Num kwh) \<Rightarrow>
          (let (r, w1) = find_or_create now s w;
               st = objs w1 ! r;
               (st', due) = take_sample now (js_round (kwh * 1000)) s st;
               w2 = w1\<lparr>objs := (objs w1)[r := st'],
                       accum := (accum w1)[r := accum w1 ! r + (pendingDeltaKwh st' - pendingDeltaKwh st)]\<rparr>
           in if due then begin_flush r (ms_isFinal s) w2 else w2)
      | _ \<Rightarrow> w)"

section \<open>The flush after its awaits\<close>

text \<open>
  \<open>resolveBillingContext\<close>: \<open>txs\<close> is the answer of StEvE (\<open>None\<close>: it throws). The mapping is
  looked up by tag alone.
\<close>

definition resolve_context ::
  "transaction list option \<Rightarrow> user_mapping list \<Rightarrow> lago_subs \<Rightarrow> sub_cache \<Rightarrow> tx_billing_state
     \<Rightarrow> bool \<times> tx_billing_state \<times> sub_cache"
where
  "resolve_context txs rows lago cache st =
     (if resolved st then (bs_lagoSubscription st \<noteq> None, st, cache)
      else case txs of
        None \<Rightarrow> (False, st\<lparr>resolved := False\<rparr>, cache)
      | Some ts \<Rightarrow>
          (let idTag = (case ts of [] \<Rightarrow> None | t # _ \<Rightarrow> Some (tx_ocppIdTag t));
               start = (case ts of [] \<Rightarrow> None | t # _ \<Rightarrow>
                          (case parse_int (tx_startValue t) of NaN \<Rightarrow> None | Num x \<Rightarrow> Some \<lfloor>x\<rfloor>));
               st1 = st\<lparr>resolved := True,
                        startMeterValueWh := (if startMeterValueWh st = None then start else startMeterValueWh st)\<rparr>
           in if \<not> truthy idTag then (False, st1, cache)
              else (case find (\<lambda>m. steveOcppIdTag m = the idTag) rows of
                      None \<Rightarrow> (False, st1, cache)
                    | Some m \<Rightarrow>
                        (let st2 = st1\<lparr>bs_userMappingId := Some (mappingId m),
                                       bs_lagoCustomer := lagoCustomerExternalId m\<rparr>
                         in case resolveSubscription lago m cache of
                              (None, cache') \<Rightarrow> (False, st2, cache')
                            | (Some r, cache') \<Rightarrow>
                                (\<not> (truthy (planCode r) \<and> the (planCode r) \<in> NON_USAGE_PLAN_CODES),
                                 st2\<lparr>bs_lagoSubscription := Some (externalId r), bs_planCode := planCode r\<rparr>,
                                 cache')))))"

definition flush_id :: "int \<Rightarrow> int \<Rightarrow> string" where
  "flush_id txId now = ''steve_tx_'' @ show_int txId @ ''_'' @ show_int (now div 1000)"

definition buildEvent :: "string \<Rightarrow> string \<Rightarrow> string \<Rightarrow> string \<Rightarrow> rat \<Rightarrow> int \<Rightarrow> lago_event" where
  "buildEvent metric eventId subscription box kwh now =
     \<lparr>transaction_id = eventId, external_subscription_id = subscription, code = metric,
      timestamp = Num (of_int (now div 1000)),
      properties = [(''value'', fixed_str 3 kwh), (''kwh'', fixed_str 3 kwh), (''charger_id'', box)]\<rparr>"

definition remove_nth :: "nat \<Rightarrow> 'a list \<Rightarrow> 'a list" where
  "remove_nth i xs = take i xs @ drop (Suc i) xs"

text \<open>Flight \<open>i\<close> ends with its object set to \<open>st\<close> and unlocked.\<close>

definition end_flight :: "nat \<Rightarrow> tx_billing_state \<Rightarrow> billing_world \<Rightarrow> billing_world" where
  "end_flight i st w = w\<lparr>objs := (objs w)[fl_ref (flights w ! i) := st\<lparr>flushing := False\<rparr>],
     flights := remove_nth i (flights w)\<rparr>"

definition resolve_step ::
  "nat \<Rightarrow> transaction list option \<Rightarrow> lago_subs \<Rightarrow> int \<Rightarrow> billing_world \<Rightarrow> billing_world"
where
  "resolve_step i txs lago now w =
     (let f = flights w ! i; r = fl_ref f; st = objs w ! r in
      case resolve_context txs (mappingRows (bdb w)) lago (subscriptionCache w) st of
        (billable, st', cache') \<Rightarrow>
          (let w1 = w\<lparr>subscriptionCache := cache'\<rparr> in
           if \<not> billable \<or> \<not> truthy (bs_lagoSubscription st')
           then end_flight i (st'\<lparr>pendingDeltaKwh := 0\<rparr>) w1
           else w1\<lparr>objs := (objs w1)[r := st'],
                   flights := (flights w1)[i := f\<lparr>fl_pc := Sending (round_dp 6 (pendingDeltaKwh st'))
                                                    (flush_id (bs_txId st') now) now\<rparr>]\<rparr>))"

definition send_step :: "string \<Rightarrow> nat \<Rightarrow> send_outcome \<Rightarrow> billing_world \<Rightarrow> billing_world" where
  "send_step metric i outcome w =
     (let f = flights w ! i; r = fl_ref f; st = objs w ! r in
      case fl_pc f of
        Sending kwh eid now \<Rightarrow>
          (let w1 = (if outcome = Rejected then w
                     else w\<lparr>ledger := ledger w @
                       [buildEvent metric eid (the (bs_lagoSubscription st)) (bs_chargeBoxId st) kwh now]\<rparr>)
           in if outcome = Acked
              then w1\<lparr>flights := (flights w1)[i := f\<lparr>fl_pc := Persisting
                     \<lparr>pa_txId = bs_txId st,
                      pa_meterValue = (case lastMeterValueWh st of None \<Rightarrow> 0 | Some l \<Rightarrow> l),
                      pa_totalKwh = round_dp 6 (totalBilledKwh st + kwh), pa_finalized = fl_final f,
                      pa_syncRunId = None, pa_eventId = eid, pa_userMappingId = bs_userMappingId st,
                      pa_kwhDelta = kwh,
                      pa_from = (if lastBilledMeterValueWh st > 0 then lastBilledMeterValueWh st
                                 else case startMeterValueWh st of None \<Rightarrow> 0 | Some x \<Rightarrow> x),
                      pa_to = (case lastMeterValueWh st of None \<Rightarrow> 0 | Some l \<Rightarrow> l)\<rparr> now\<rparr>]\<rparr>
              else end_flight i st w1)
      | _ \<Rightarrow> w)"

text \<open>\<open>persistFlush\<close>: the event row of a known id is skipped, the sync state is written anyway.\<close>

definition persistFlush :: "persist_args \<Rightarrow> sync_db \<Rightarrow> sync_db option" where
  "persistFlush a d =
     (case upsertSyncState \<lparr>ns_transactionId = pa_txId a, ns_meterValue = Num (of_int (pa_meterValue a)),
             ns_totalKwhBilled = fixed_str 6 (pa_totalKwh a), ns_syncRunId = pa_syncRunId a,
             ns_isFinalized = pa_finalized a\<rparr> d of
        None \<Rightarrow> None
      | Some d1 \<Rightarrow>
          (case event_row \<lparr>ne_steveTransactionId = pa_txId a, ne_lagoEventTransactionId = pa_eventId a,
                  ne_userMappingId = pa_userMappingId a, ne_kwhDelta = fixed_str 6 (pa_kwhDelta a),
                  ne_meterValueFrom = Num (of_int (pa_from a)), ne_meterValueTo = Num (of_int (pa_to a)),
                  ne_isFinal = pa_finalized a, ne_syncRunId = pa_syncRunId a\<rparr> of
             None \<Rightarrow> None
           | Some e \<Rightarrow>
               if pa_eventId a \<in> ev_lagoEventTransactionId ` set (syncedEvents d1) then Some d1
               else Some (d1\<lparr>syncedEvents := syncedEvents d1 @ [e]\<rparr>)))"

definition persist_step :: "nat \<Rightarrow> billing_world \<Rightarrow> billing_world" where
  "persist_step i w =
     (let f = flights w ! i; st = objs w ! fl_ref f in
      case fl_pc f of
        Persisting a now \<Rightarrow>
          (case persistFlush a (bdb w) of
             None \<Rightarrow> end_flight i st w
           | Some d \<Rightarrow>
               (let st' = st\<lparr>totalBilledKwh := pa_totalKwh a, lastBilledMeterValueWh := pa_to a,
                             pendingDeltaKwh := 0, lastFlushAt := now,
                             endedEmitted := endedEmitted st \<or> fl_final f\<rparr>;
                    notice = \<lparr>bn_transactionId = bs_txId st, bn_billedKwh = pa_totalKwh a, bn_flushedAt = now,
                              bn_eventId = pa_eventId a, bn_isReconciliation = False,
                              bn_userMappingId = bs_userMappingId st\<rparr>;
                    w1 = end_flight i st' (w\<lparr>bdb := d, published := published w @ [notice]\<rparr>)
                in if fl_final f then w1\<lparr>smap := AList.delete (bs_txId st) (smap w1)\<rparr> else w1))
      | _ \<Rightarrow> w)"

section \<open>Sweep and shutdown\<close>

definition sweep_entry :: "int \<Rightarrow> int \<times> nat \<Rightarrow> billing_world \<Rightarrow> billing_world" where
  "sweep_entry now e w =
     (let (i, r) = e; st = objs w ! r in
      if now - lastSampleAt st > STATE_TTL_MS then w\<lparr>smap := AList.delete i (smap w)\<rparr>
      else if pendingDeltaKwh st > 0 \<and> now - lastFlushAt st \<ge> FLUSH_INTERVAL_MS then begin_flush r False w
      else w)"

definition sweep :: "int \<Rightarrow> billing_world \<Rightarrow> billing_world" where
  "sweep now w = fold (sweep_entry now) (smap w) w"

definition shutdownIncrementalBilling :: "billing_world \<Rightarrow> billing_world" where
  "shutdownIncrementalBilling w = w\<lparr>smap := [], subscriptionCache := []\<rparr>"

text \<open>A process restart also forgets the objects and kills the flushes in flight.\<close>

definition restart :: "billing_world \<Rightarrow> billing_world" where
  "restart w = w\<lparr>objs := [], smap := [], flights := [], subscriptionCache := [], accum := []\<rparr>"

section \<open>The interleavings\<close>

inductive bstep :: "billing_world \<Rightarrow> billing_world \<Rightarrow> bool" where
  sample: "bstep w (enqueueMeterSample now s w)"
| resolved: "i < length (flights w) \<Longrightarrow> fl_pc (flights w ! i) = Resolving \<Longrightarrow> bstep w (resolve_step i txs lago now w)"
| sent: "i < length (flights w) \<Longrightarrow> bstep w (send_step metric i outcome w)"
| persisted: "i < length (flights w) \<Longrightarrow> bstep w (persist_step i w)"
| swept: "bstep w (sweep now w)"
| shut: "bstep w (shutdownIncrementalBilling w)"
| restarted: "bstep w (restart w)"

inductive breach :: "billing_world \<Rightarrow> billing_world \<Rightarrow> bool" for w where
  start: "breach w w"
| step: "breach w u \<Longrightarrow> bstep u v \<Longrightarrow> breach w v"

section \<open>The emitter never bills more than it accepted\<close>

definition obj_ok :: "tx_billing_state \<Rightarrow> rat \<Rightarrow> bool" where
  "obj_ok st a \<longleftrightarrow> 0 \<le> pendingDeltaKwh st \<and> grid 6 (pendingDeltaKwh st)
     \<and> 0 \<le> totalBilledKwh st \<and> grid 6 (totalBilledKwh st) \<and> totalBilledKwh st + pendingDeltaKwh st \<le> a"

definition flight_ok :: "tx_billing_state list \<Rightarrow> flight \<Rightarrow> bool" where
  "flight_ok os f \<longleftrightarrow> fl_ref f < length os \<and> flushing (os ! fl_ref f)
     \<and> (case fl_pc f of
          Resolving \<Rightarrow> True
        | Sending k eid now \<Rightarrow> 0 \<le> k \<and> grid 6 k \<and> k \<le> pendingDeltaKwh (os ! fl_ref f)
        | Persisting a now \<Rightarrow> 0 \<le> pa_totalKwh a \<and> grid 6 (pa_totalKwh a)
            \<and> pa_totalKwh a \<le> totalBilledKwh (os ! fl_ref f) + pendingDeltaKwh (os ! fl_ref f))"

definition winv :: "billing_world \<Rightarrow> bool" where
  "winv w \<longleftrightarrow> length (accum w) = length (objs w)
     \<and> (\<forall>(i, r) \<in> set (smap w). r < length (objs w))
     \<and> distinct (map fl_ref (flights w)) \<and> (\<forall>f \<in> set (flights w). flight_ok (objs w) f)
     \<and> (\<forall>r < length (objs w). obj_ok (objs w ! r) (accum w ! r))"

lemma flight_ok_other: "fl_ref f \<noteq> r \<Longrightarrow> flight_ok (os[r := x]) f = flight_ok os f"
  by (simp add: flight_ok_def split: flush_pc.split)

text \<open>A sample only lets the pending energy of an object grow.\<close>

lemma flight_ok_grow:
  assumes "flight_ok os f" "r < length os" "flushing x = flushing (os ! r)"
    "totalBilledKwh x = totalBilledKwh (os ! r)" "pendingDeltaKwh (os ! r) \<le> pendingDeltaKwh x"
  shows "flight_ok (os[r := x]) f"
  using assms by (cases "fl_ref f = r") (auto simp: flight_ok_def split: flush_pc.splits)

lemma flight_ok_append: "flight_ok os f \<Longrightarrow> flight_ok (os @ xs) f"
  by (auto simp: flight_ok_def nth_append split: flush_pc.splits)

lemma begin_flush_winv:
  assumes "winv w" "r < length (objs w)"
  shows "winv (begin_flush r final w)"
proof (cases "flushing (objs w ! r) \<or> (pendingDeltaKwh (objs w ! r) \<le> 0 \<and> \<not> final)")
  case True
  then show ?thesis using assms(1) by (auto simp: begin_flush_def Let_def)
next
  case False
  let ?st = "(objs w ! r)\<lparr>flushing := True\<rparr>" and ?f = "\<lparr>fl_ref = r, fl_final = final, fl_pc = Resolving\<rparr>"
  have w': "begin_flush r final w = w\<lparr>objs := (objs w)[r := ?st], flights := flights w @ [?f]\<rparr>"
    using False by (auto simp: begin_flush_def Let_def)
  have other: "fl_ref f \<noteq> r" if "f \<in> set (flights w)" for f
    using assms(1) that False by (auto simp: winv_def flight_ok_def)
  have "flight_ok ((objs w)[r := ?st]) f" if "f \<in> set (flights w @ [?f])" for f
  proof (cases "f = ?f")
    case True
    then show ?thesis using assms(2) by (simp add: flight_ok_def)
  next
    case False
    then have "f \<in> set (flights w)" using that by simp
    then show ?thesis using assms(1) other by (simp add: winv_def flight_ok_other)
  qed
  moreover have "distinct (map fl_ref (flights w @ [?f]))"
    using assms(1) other by (auto simp: winv_def)
  moreover have "obj_ok ((objs w)[r := ?st] ! q) (accum w ! q)" if "q < length (objs w)" for q
    using assms that by (cases "q = r") (auto simp: winv_def obj_ok_def)
  ultimately show ?thesis using assms(1) by (simp add: w' winv_def)
qed

lemma find_or_create_winv:
  assumes "winv w" "find_or_create now s w = (r, w')"
  shows "winv w' \<and> r < length (objs w')"
proof (cases "map_of (smap w) (ms_txId s)")
  case (Some q)
  then have "(ms_txId s, q) \<in> set (smap w)" by (rule map_of_SomeD)
  with assms Some show ?thesis by (auto simp: find_or_create_def winv_def)
next
  case None
  let ?w1 = "w\<lparr>objs := objs w @ [createState s now], accum := accum w @ [0]\<rparr>"
  have w': "w' = rememberState (ms_txId s) (length (objs w)) ?w1" "r = length (objs w)"
    using assms(2) None by (auto simp: find_or_create_def)
  have frame: "objs w' = objs ?w1" "accum w' = accum ?w1" "flights w' = flights w"
    by (auto simp: w' rememberState_def Let_def)
  have keys: "q < Suc (length (objs w))" if "(i, q) \<in> set (smap w')" for i q
  proof -
    have "(i, q) \<in> insert (ms_txId s, length (objs w)) (set (smap w))"
      using that set_update_subset [of "ms_txId s" "length (objs w)"] set_delete_subset [of _ "smap w"]
      by (fastforce simp: w' rememberState_def Let_def split: option.splits if_splits)
    then show ?thesis using assms(1) by (auto simp: winv_def)
  qed
  have "flight_ok (objs w @ [createState s now]) f" if "f \<in> set (flights w)" for f
    using assms(1) that by (auto simp: winv_def intro: flight_ok_append)
  moreover have "obj_ok ((objs w @ [createState s now]) ! q) ((accum w @ [0]) ! q)"
    if "q < Suc (length (objs w))" for q
    using assms(1) that by (auto simp: winv_def nth_append obj_ok_def createState_def less_Suc_eq)
  ultimately show ?thesis
    using assms(1) keys by (auto simp: winv_def frame w'(2))
qed

lemma take_sample_obj:
  assumes "take_sample now wh s st = (st', due)"
  shows "flushing st' = flushing st" "totalBilledKwh st' = totalBilledKwh st" "bs_txId st' = bs_txId st"
    "pendingDeltaKwh st \<le> pendingDeltaKwh st'" "grid 6 (pendingDeltaKwh st) \<Longrightarrow> grid 6 (pendingDeltaKwh st')"
  using assms by (auto simp: take_sample_def Let_def split: option.splits if_splits
      intro!: grid_add grid_thousandth6_diff)

lemma enqueue_winv:
  assumes "winv w"
  shows "winv (enqueueMeterSample now s w)"
proof (cases "\<exists>k. ms_kwh s = Some (Num k)")
  case False
  then show ?thesis using assms by (auto simp: enqueueMeterSample_def split: option.split jsnum.split)
next
  case True
  then obtain k where k: "ms_kwh s = Some (Num k)" by blast
  obtain r w1 where fc: "find_or_create now s w = (r, w1)" by fastforce
  note ok = find_or_create_winv [OF assms fc]
  let ?st = "objs w1 ! r"
  obtain st' due where ts: "take_sample now (js_round (k * 1000)) s ?st = (st', due)" by fastforce
  note obj = take_sample_obj [OF ts]
  let ?w2 = "w1\<lparr>objs := (objs w1)[r := st'],
     accum := (accum w1)[r := accum w1 ! r + (pendingDeltaKwh st' - pendingDeltaKwh ?st)]\<rparr>"
  have "winv ?w2"
  proof -
    have "flight_ok ((objs w1)[r := st']) f" if "f \<in> set (flights w1)" for f
      using ok that obj by (intro flight_ok_grow) (auto simp: winv_def)
    moreover have "obj_ok ((objs w1)[r := st'] ! q)
        ((accum w1)[r := accum w1 ! r + (pendingDeltaKwh st' - pendingDeltaKwh ?st)] ! q)"
      if "q < length (objs w1)" for q
      using ok obj that by (cases "q = r") (auto simp: winv_def obj_ok_def)
    ultimately show ?thesis using ok by (simp add: winv_def)
  qed
  then show ?thesis
    using ok begin_flush_winv [of ?w2 r "ms_isFinal s"]
    by (simp add: enqueueMeterSample_def k fc ts Let_def)
qed

lemma set_remove_nth: "set (remove_nth i xs) \<subseteq> set xs"
  by (auto simp: remove_nth_def dest: in_set_takeD in_set_dropD)

lemma remove_nth_distinct:
  assumes "distinct (map f xs)" "i < length xs" "x \<in> set (remove_nth i xs)"
  shows "f x \<noteq> f (xs ! i)"
proof -
  have "xs = take i xs @ xs ! i # drop (Suc i) xs" using assms(2) by (rule id_take_nth_drop)
  then have "distinct (map f (take i xs @ xs ! i # drop (Suc i) xs))" using assms(1) by metis
  with assms(3) show ?thesis by (auto simp: remove_nth_def) (metis imageI)+
qed

lemma distinct_remove_nth:
  assumes "distinct (map f xs)" shows "distinct (map f (remove_nth i xs))"
proof (cases "i < length xs")
  case True
  then have "xs = take i xs @ xs ! i # drop (Suc i) xs" by (rule id_take_nth_drop)
  then have "distinct (map f (take i xs @ xs ! i # drop (Suc i) xs))" using assms by metis
  then show ?thesis by (auto simp: remove_nth_def)
qed (use assms in \<open>simp add: remove_nth_def\<close>)

text \<open>Ending a flight with an object that is still within its account.\<close>

lemma end_flight_winv:
  assumes "winv w" "i < length (flights w)" "obj_ok st (accum w ! fl_ref (flights w ! i))"
  shows "winv (end_flight i st w)"
proof -
  let ?r = "fl_ref (flights w ! i)"
  have d: "distinct (map fl_ref (flights w))" using assms(1) by (simp add: winv_def)
  have "flight_ok ((objs w)[?r := st\<lparr>flushing := False\<rparr>]) f" if "f \<in> set (remove_nth i (flights w))" for f
    using remove_nth_distinct [OF d assms(2) that] assms(1) subsetD [OF set_remove_nth that]
    by (simp add: flight_ok_other winv_def)
  moreover have "obj_ok ((objs w)[?r := st\<lparr>flushing := False\<rparr>] ! q) (accum w ! q)" if "q < length (objs w)" for q
    using assms that by (cases "q = ?r") (auto simp: winv_def obj_ok_def)
  ultimately show ?thesis
    using assms(1) distinct_remove_nth [OF d] by (simp add: end_flight_def winv_def)
qed

text \<open>Moving a flight on without touching the account of its object.\<close>

lemma move_flight_winv:
  assumes "winv w" "i < length (flights w)" "r = fl_ref (flights w ! i)" "fl_ref f = r"
    and "flushing st" "pendingDeltaKwh st = pendingDeltaKwh (objs w ! r)" "totalBilledKwh st = totalBilledKwh (objs w ! r)"
    and "flight_ok ((objs w)[r := st]) f"
  shows "winv (w\<lparr>objs := (objs w)[r := st], flights := (flights w)[i := f]\<rparr>)"
proof -
  have d: "map fl_ref ((flights w)[i := f]) = map fl_ref (flights w)"
    using assms(2-4) by (simp add: map_update list_update_same_conv)
  have "flight_ok ((objs w)[r := st]) g" if "g \<in> set (flights w)" for g
  proof -
    have "flight_ok (objs w) g" "flight_ok (objs w) (flights w ! i)" using assms(1, 2) that by (auto simp: winv_def)
    then show ?thesis using assms(3, 5-7)
      by (intro flight_ok_grow) (auto simp: flight_ok_def)
  qed
  moreover have "set ((flights w)[i := f]) \<subseteq> insert f (set (flights w))" by (rule set_update_subset_insert)
  ultimately have "\<forall>g \<in> set ((flights w)[i := f]). flight_ok ((objs w)[r := st]) g" using assms(8) by blast
  moreover have "obj_ok ((objs w)[r := st] ! q) (accum w ! q)" if "q < length (objs w)" for q
    using assms(1, 6, 7) that by (cases "q = r") (auto simp: winv_def obj_ok_def)
  ultimately show ?thesis using assms(1) d by (simp add: winv_def)
qed

lemma resolve_context_obj:
  assumes "resolve_context txs rows lago cache st = (b, st', cache')"
  shows "flushing st' = flushing st" "totalBilledKwh st' = totalBilledKwh st" "pendingDeltaKwh st' = pendingDeltaKwh st"
    "bs_txId st' = bs_txId st"
  using assms by (auto simp: resolve_context_def Let_def split: if_splits option.splits list.splits prod.splits)

lemma flight_obj:
  assumes "winv w" "i < length (flights w)"
  shows "flight_ok (objs w) (flights w ! i)" "fl_ref (flights w ! i) < length (objs w)"
    "flushing (objs w ! fl_ref (flights w ! i))"
    "obj_ok (objs w ! fl_ref (flights w ! i)) (accum w ! fl_ref (flights w ! i))"
proof -
  show f: "flight_ok (objs w) (flights w ! i)" using assms by (simp add: winv_def)
  then show "fl_ref (flights w ! i) < length (objs w)" "flushing (objs w ! fl_ref (flights w ! i))"
    by (simp_all add: flight_ok_def)
  then show "obj_ok (objs w ! fl_ref (flights w ! i)) (accum w ! fl_ref (flights w ! i))"
    using assms(1) by (simp add: winv_def)
qed

lemma resolve_step_winv:
  assumes "winv w" "i < length (flights w)"
  shows "winv (resolve_step i txs lago now w)"
proof -
  let ?f = "flights w ! i" let ?r = "fl_ref ?f" let ?st = "objs w ! ?r"
  note fo = flight_obj [OF assms]
  obtain b st' c where rc: "resolve_context txs (mappingRows (bdb w)) lago (subscriptionCache w) ?st = (b, st', c)"
    by (metis prod_cases3)
  note same = resolve_context_obj [OF rc]
  let ?w1 = "w\<lparr>subscriptionCache := c\<rparr>"
  have w1: "winv ?w1" using assms(1) by (simp add: winv_def)
  show ?thesis
  proof (cases "\<not> b \<or> \<not> truthy (bs_lagoSubscription st')")
    case True
    have "obj_ok (st'\<lparr>pendingDeltaKwh := 0\<rparr>) (accum w ! ?r)" using fo(4) same by (auto simp: obj_ok_def)
    then have "winv (end_flight i (st'\<lparr>pendingDeltaKwh := 0\<rparr>) ?w1)"
      using end_flight_winv [OF w1, of i] assms(2) by simp
    then show ?thesis using True by (simp add: resolve_step_def rc Let_def)
  next
    case False
    let ?f' = "?f\<lparr>fl_pc := Sending (round_dp 6 (pendingDeltaKwh st')) (flush_id (bs_txId st') now) now\<rparr>"
    have "round_dp 6 (pendingDeltaKwh st') = pendingDeltaKwh st'"
      using fo(4) same by (simp add: obj_ok_def round_dp_grid)
    then have "flight_ok ((objs ?w1)[?r := st']) ?f'"
      using fo same by (auto simp: flight_ok_def obj_ok_def)
    from move_flight_winv [OF w1 _ _ _ _ _ _ this, of i] assms(2) fo(3) same
    show ?thesis using False by (simp add: resolve_step_def rc Let_def)
  qed
qed

lemma send_step_winv:
  assumes "winv w" "i < length (flights w)"
  shows "winv (send_step metric i outcome w)"
proof (cases "fl_pc (flights w ! i)")
  case (Sending kwh eid now)
  let ?f = "flights w ! i" let ?r = "fl_ref ?f" let ?st = "objs w ! ?r"
  note fo = flight_obj [OF assms]
  define w1 where "w1 = (if outcome = Rejected then w else w\<lparr>ledger := ledger w @
      [buildEvent metric eid (the (bs_lagoSubscription ?st)) (bs_chargeBoxId ?st) kwh now]\<rparr>)"
  have w1: "winv w1" "objs w1 = objs w" "flights w1 = flights w" "accum w1 = accum w"
    using assms(1) by (simp_all add: w1_def winv_def)
  show ?thesis
  proof (cases "outcome = Acked")
    case True
    obtain a where a: "send_step metric i outcome w = w1\<lparr>flights := (flights w1)[i := ?f\<lparr>fl_pc := Persisting a now\<rparr>]\<rparr>"
      "pa_totalKwh a = round_dp 6 (totalBilledKwh ?st + kwh)"
      using True Sending by (auto simp: send_step_def Let_def w1_def)
    have k: "0 \<le> kwh" "grid 6 kwh" "kwh \<le> pendingDeltaKwh ?st"
      using fo(1) Sending by (simp_all add: flight_ok_def)
    have "grid 6 (totalBilledKwh ?st + kwh)" using fo(4) k by (auto simp: obj_ok_def intro: grid_add)
    then have "pa_totalKwh a = totalBilledKwh ?st + kwh" using a(2) by (simp add: round_dp_grid)
    then have "flight_ok ((objs w1)[?r := ?st]) (?f\<lparr>fl_pc := Persisting a now\<rparr>)"
      using fo k w1 by (auto simp: flight_ok_def obj_ok_def intro: grid_add)
    from move_flight_winv [OF w1(1) _ _ _ _ _ _ this, of i] assms(2) fo(3) w1
    have "winv (w1\<lparr>objs := (objs w1)[?r := ?st], flights := (flights w1)[i := ?f\<lparr>fl_pc := Persisting a now\<rparr>]\<rparr>)"
      by simp
    moreover have "(objs w1)[?r := ?st] = objs w1" using w1(2) by simp
    ultimately show ?thesis using a(1) by simp
  next
    case False
    have "send_step metric i outcome w = end_flight i ?st w1"
      using False Sending by (simp add: send_step_def Let_def w1_def)
    then show ?thesis using end_flight_winv [OF w1(1), of i ?st] assms(2) fo(4) w1 by simp
  qed
qed (use assms(1) in \<open>simp_all add: send_step_def Let_def\<close>)

lemma winv_frame:
  "winv (w\<lparr>bdb := d, published := b\<rparr>) = winv w" "winv w \<Longrightarrow> winv (w\<lparr>smap := AList.delete k (smap w)\<rparr>)"
  by (use set_delete_subset in \<open>fastforce simp: winv_def\<close>)+

lemma persist_step_winv:
  assumes "winv w" "i < length (flights w)"
  shows "winv (persist_step i w)"
proof (cases "fl_pc (flights w ! i)")
  case (Persisting a now)
  let ?f = "flights w ! i" let ?r = "fl_ref ?f" let ?st = "objs w ! ?r"
  note fo = flight_obj [OF assms]
  show ?thesis
  proof (cases "persistFlush a (bdb w)")
    case None
    then show ?thesis using Persisting end_flight_winv [OF assms, of ?st] fo(4) by (simp add: persist_step_def Let_def)
  next
    case (Some d)
    let ?st' = "?st\<lparr>totalBilledKwh := pa_totalKwh a, lastBilledMeterValueWh := pa_to a, pendingDeltaKwh := 0,
      lastFlushAt := now, endedEmitted := endedEmitted ?st \<or> fl_final ?f\<rparr>"
    have "obj_ok ?st' (accum w ! ?r)"
      using fo(1, 4) Persisting by (auto simp: flight_ok_def obj_ok_def)
    define u where "u = w\<lparr>bdb := d, published := published w @ [\<lparr>bn_transactionId = bs_txId ?st, bn_billedKwh = pa_totalKwh a,
      bn_flushedAt = now, bn_eventId = pa_eventId a, bn_isReconciliation = False, bn_userMappingId = bs_userMappingId ?st\<rparr>]\<rparr>"
    have u: "winv u" "flights u = flights w" "accum u = accum w" "smap u = smap w"
      using assms(1) by (simp_all add: u_def winv_frame)
    define w1 where "w1 = end_flight i ?st' u"
    have "winv w1"
      using \<open>obj_ok ?st' (accum w ! ?r)\<close> assms(2) u end_flight_winv [of u i ?st']
      by (simp add: w1_def)
    moreover have "persist_step i w
        = (if fl_final ?f then w1\<lparr>smap := AList.delete (bs_txId ?st) (smap w1)\<rparr> else w1)"
      using Persisting Some by (simp add: persist_step_def Let_def w1_def u_def)
    ultimately show ?thesis using winv_frame(2) by simp
  qed
qed (use assms(1) in \<open>simp_all add: persist_step_def Let_def\<close>)

lemma sweep_entry_winv:
  "winv w \<Longrightarrow> r < length (objs w) \<Longrightarrow> winv (sweep_entry now (i, r) w)
     \<and> length (objs (sweep_entry now (i, r) w)) = length (objs w)"
  using begin_flush_winv [of w r False]
  by (simp add: sweep_entry_def Let_def winv_frame) (simp add: begin_flush_def Let_def)

lemma sweep_winv:
  assumes "winv w" shows "winv (sweep now w)"
proof -
  have "winv u \<Longrightarrow> \<forall>(i, r) \<in> set es. r < length (objs u) \<Longrightarrow> winv (fold (sweep_entry now) es u)" for es u
  proof (induction es arbitrary: u)
    case (Cons e es)
    obtain i r where e: "e = (i, r)" by (cases e)
    from sweep_entry_winv [of u r now i] Cons.prems have "winv (sweep_entry now e u)"
      "length (objs (sweep_entry now e u)) = length (objs u)" by (simp_all add: e)
    with Cons show ?case by simp
  qed simp
  with assms show ?thesis by (simp add: sweep_def winv_def)
qed

lemma bstep_winv: "bstep w w' \<Longrightarrow> winv w \<Longrightarrow> winv w'"
proof (induction rule: bstep.induct)
  case (shut w)
  then show ?case by (simp add: shutdownIncrementalBilling_def winv_def)
next
  case (restarted w)
  then show ?case by (simp add: restart_def winv_def)
qed (simp_all add: enqueue_winv resolve_step_winv send_step_winv persist_step_winv sweep_winv)

lemma breach_winv: "breach w w' \<Longrightarrow> winv w \<Longrightarrow> winv w'"
  by (induction rule: breach.induct) (auto intro: bstep_winv)

text \<open>The module as it is loaded, on any database.\<close>

definition fresh_world :: "sync_db \<Rightarrow> billing_world" where
  "fresh_world d = \<lparr>objs = [], smap = [], flights = [], subscriptionCache = [], bdb = d, ledger = [], published = [], accum = []\<rparr>"


section \<open>A flush that succeeds\<close>

lemma persistFlush_row:
  assumes "persistFlush a d = Some d'"
  shows "\<exists>s k. find_state (syncStates d') (pa_txId a) = Some s \<and> lastSyncedMeterValue s = pa_meterValue a
      \<and> totalKwhBilled s = Some k \<and> pg_numeric (fixed_str 6 (pa_totalKwh a)) = Some k
      \<and> isFinalized s = pa_finalized a"
    and "i \<noteq> pa_txId a \<Longrightarrow> find_state (syncStates d') i = find_state (syncStates d) i"
proof -
  let ?n = "\<lparr>ns_transactionId = pa_txId a, ns_meterValue = Num (of_int (pa_meterValue a)),
             ns_totalKwhBilled = fixed_str 6 (pa_totalKwh a), ns_syncRunId = pa_syncRunId a,
             ns_isFinalized = pa_finalized a\<rparr>"
  from assms obtain r where r: "state_row ?n = Some r"
    and d': "syncStates d' = put_state r (syncStates d)"
    by (auto simp: persistFlush_def upsertSyncState_def split: option.splits if_splits)
  from r obtain k where k: "pg_numeric (fixed_str 6 (pa_totalKwh a)) = Some k"
    and rf: "r = \<lparr>ss_transactionId = pa_txId a, lastSyncedMeterValue = pa_meterValue a, totalKwhBilled = Some k,
               lastSyncRunId = pa_syncRunId a, isFinalized = pa_finalized a\<rparr>"
    by (auto simp: state_row_Some split: if_splits)
  have at: "find_state (syncStates d') j = (if j = pa_txId a then Some r else find_state (syncStates d) j)" for j
    using state_table.look_put [of r "syncStates d" j] by (simp add: d' rf)
  then show "\<exists>s k. find_state (syncStates d') (pa_txId a) = Some s \<and> lastSyncedMeterValue s = pa_meterValue a
      \<and> totalKwhBilled s = Some k \<and> pg_numeric (fixed_str 6 (pa_totalKwh a)) = Some k
      \<and> isFinalized s = pa_finalized a"
    using k rf by auto
  show "i \<noteq> pa_txId a \<Longrightarrow> find_state (syncStates d') i = find_state (syncStates d) i" using at by simp
qed

lemma remove_nth_same: "i < length xs \<Longrightarrow> remove_nth i (xs[i := x]) = remove_nth i xs"
  by (simp add: remove_nth_def)

text \<open>The three steps after the flush began, with no sample in between.\<close>

lemma flush_steps:
  assumes inv: "winv w" and i: "i < length (flights w)"
    and ctx: "resolve_context txs (mappingRows (bdb w)) lago (subscriptionCache w) (objs w ! fl_ref (flights w ! i))
        = (True, st', c)" "truthy (bs_lagoSubscription st')"
    and w2: "w2 = send_step metric i Acked (resolve_step i txs lago now w)"
  shows "\<exists>a. fl_pc (flights w2 ! i) = Persisting a now \<and> i < length (flights w2)
      \<and> fl_ref (flights w2 ! i) = fl_ref (flights w ! i) \<and> fl_final (flights w2 ! i) = fl_final (flights w ! i)
      \<and> pa_txId a = bs_txId st' \<and> pa_finalized a = fl_final (flights w ! i)
      \<and> pa_totalKwh a = totalBilledKwh st' + pendingDeltaKwh st' \<and> bdb w2 = bdb w
      \<and> objs w2 = (objs w)[fl_ref (flights w ! i) := st']
      \<and> ledger w2 = ledger w @ [buildEvent metric (flush_id (bs_txId st') now) (the (bs_lagoSubscription st'))
            (bs_chargeBoxId st') (pendingDeltaKwh st') now]"
proof -
  note fo = flight_obj [OF inv i] and same = resolve_context_obj [OF ctx(1)]
  have g: "grid 6 (pendingDeltaKwh st')" "grid 6 (totalBilledKwh st' + pendingDeltaKwh st')"
    using fo(4) same by (auto simp: obj_ok_def intro: grid_add)
  then show ?thesis
    using i fo(2) ctx(2)
    by (simp add: w2 resolve_step_def ctx(1) send_step_def Let_def round_dp_grid)
qed

text \<open>
  C26. A flush that is not disturbed bills exactly what was pending: one event with that
  amount reaches Lago, the account moves it from pending to billed, and the database row
  holds the new total, finalized exactly for the final sample.
\<close>

theorem flush_bills_pending:
  assumes "winv w" "i < length (flights w)" "r = fl_ref (flights w ! i)" "st = objs w ! r"
    and "resolve_context txs (mappingRows (bdb w)) lago (subscriptionCache w) st = (True, st', c)"
    and "truthy (bs_lagoSubscription st')"
    and "w2 = send_step metric i Acked (resolve_step i txs lago now w)"
    and "fl_pc (flights w2 ! i) = Persisting a now" "persistFlush a (bdb w2) = Some d" "totalBilledKwh st + pendingDeltaKwh st < 10 ^ 6"
  shows "let w3 = persist_step i w2; o3 = objs w3 ! r in
      totalBilledKwh o3 = totalBilledKwh st + pendingDeltaKwh st \<and> pendingDeltaKwh o3 = 0 \<and> \<not> flushing o3
      \<and> map (\<lambda>e. map_of (properties e) ''value'') (drop (length (ledger w)) (ledger w3))
          = [Some (fixed_str 3 (pendingDeltaKwh st))]
      \<and> (\<exists>s. find_state (syncStates (bdb w3)) (bs_txId st) = Some s
           \<and> totalKwhBilled s = Some (Num (totalBilledKwh st + pendingDeltaKwh st))
           \<and> isFinalized s = fl_final (flights w ! i))"
proof -
  note fo = flight_obj [OF assms(1, 2), folded assms(3), folded assms(4)]
    and same = resolve_context_obj [OF assms(5)]
  from flush_steps [OF assms(1, 2) assms(5) [unfolded assms(4, 3)] assms(6, 7)] assms(8)
  have w2: "i < length (flights w2)" "fl_ref (flights w2 ! i) = r" "fl_final (flights w2 ! i) = fl_final (flights w ! i)"
    "pa_txId a = bs_txId st" "pa_finalized a = fl_final (flights w ! i)"
    "pa_totalKwh a = totalBilledKwh st + pendingDeltaKwh st" "objs w2 = (objs w)[r := st']"
    "ledger w2 = ledger w @ [buildEvent metric (flush_id (bs_txId st') now) (the (bs_lagoSubscription st'))
            (bs_chargeBoxId st') (pendingDeltaKwh st) now]"
    by (simp_all add: assms(3) same)
  have nn: "0 \<le> totalBilledKwh st + pendingDeltaKwh st" "grid 6 (totalBilledKwh st + pendingDeltaKwh st)"
    using fo(4) by (auto simp: obj_ok_def intro: grid_add)
  from persistFlush_row(1) [OF assms(9)] nn assms(10)
  have row: "\<exists>s. find_state (syncStates d) (bs_txId st) = Some s
      \<and> totalKwhBilled s = Some (Num (totalBilledKwh st + pendingDeltaKwh st)) \<and> isFinalized s = fl_final (flights w ! i)"
    by (auto simp: w2 pg_numeric_fixed_str fixed_val_grid)
  define w3 where "w3 = persist_step i w2"
  have "objs w3 ! r = st'\<lparr>totalBilledKwh := pa_totalKwh a, lastBilledMeterValueWh := pa_to a, pendingDeltaKwh := 0,
      lastFlushAt := now, endedEmitted := endedEmitted st' \<or> fl_final (flights w ! i), flushing := False\<rparr>"
    "bdb w3 = d" "ledger w3 = ledger w2"
    using fo(2) w2 assms(8, 9) by (simp_all add: w3_def persist_step_def Let_def end_flight_def)
  then show ?thesis
    using row w2(6, 8) by (simp add: w3_def [symmetric] Let_def buildEvent_def)
qed

section \<open>Behaviours the reader should know\<close>

text \<open>
  Energy reported while a flush waits for Lago or the database is not billed by the
  emitter: the completing flush resets the pending amount to zero, including what was added
  after it was read. The gap between accepted and accounted energy grows by exactly the
  energy of the sample.
\<close>

theorem samples_during_flush_lost:
  assumes "winv w" "i < length (flights w)" "r = fl_ref (flights w ! i)"
    and "fl_pc (flights w ! i) = Persisting a now" "map_of (smap w) (ms_txId s) = Some r"
    and "pa_totalKwh a = totalBilledKwh (objs w ! r) + pendingDeltaKwh (objs w ! r)"
    and "ms_kwh s = Some (Num kwh)" "w' = enqueueMeterSample t s w" "persistFlush a (bdb w') = Some d"
  shows "let w'' = persist_step i w'; gap = (\<lambda>u. accum u ! r - (totalBilledKwh (objs u ! r) + pendingDeltaKwh (objs u ! r)))
    in pendingDeltaKwh (objs w'' ! r) = 0
      \<and> gap w'' = gap w + (pendingDeltaKwh (objs w' ! r) - pendingDeltaKwh (objs w ! r))"
proof -
  note fo = flight_obj [OF assms(1, 2), folded assms(3)]
  let ?st = "objs w ! r"
  obtain st' due where ts: "take_sample t (js_round (kwh * 1000)) s ?st = (st', due)" by fastforce
  note obj = take_sample_obj [OF ts]
  let ?w2 = "w\<lparr>objs := (objs w)[r := st'], accum := (accum w)[r := accum w ! r + (pendingDeltaKwh st' - pendingDeltaKwh ?st)]\<rparr>"
  have len: "r < length (accum w)" using assms(1) fo(2) by (simp add: winv_def)
  have "begin_flush r (ms_isFinal s) ?w2 = ?w2"
    using fo(2, 3) obj(1) by (simp add: begin_flush_def Let_def)
  then have w': "w' = ?w2"
    using assms(5, 7, 8) ts by (simp add: enqueueMeterSample_def find_or_create_def Let_def)
  have "objs (persist_step i w') ! r = st'\<lparr>totalBilledKwh := pa_totalKwh a, lastBilledMeterValueWh := pa_to a,
      pendingDeltaKwh := 0, lastFlushAt := now, endedEmitted := endedEmitted st' \<or> fl_final (flights w ! i),
      flushing := False\<rparr>" "accum (persist_step i w') = accum w'"
    using fo(2) assms(2-4) assms(9) by (simp_all add: w' persist_step_def Let_def end_flight_def)
  then show ?thesis using fo(2) len assms(6) by (simp add: Let_def w')
qed

text \<open>
  The exemption of flat-rate plans lasts for one flush only: the first flush of a
  customer on a non-usage plan is refused, but the refusal is not remembered, so the next
  flush of the same session is billed.
\<close>

theorem non_usage_second_flush:
  assumes "resolve_context txs rows lago cache st = (False, st', cache')" "\<not> resolved st"
    and "bs_lagoSubscription st' \<noteq> None" "bs_lagoSubscription st = None"
  shows "fst (resolve_context txs2 rows2 lago2 cache2 st')
    \<and> bs_planCode st' \<in> Some ` NON_USAGE_PLAN_CODES"
  using assms by (auto simp: resolve_context_def Let_def split: if_splits option.splits list.splits prod.splits
      elim!: truthyE)

text \<open>
  A lost acknowledgement bills twice: Lago has accepted the event, the energy stays
  pending, and the next flush in another second sends it again under another event id, so
  that the idempotency key does not protect it.
\<close>

theorem lost_ack_resends:
  assumes "winv w" "i < length (flights w)" "r = fl_ref (flights w ! i)"
    and "fl_pc (flights w ! i) = Sending k (flush_id tx t) t" "t' div 1000 \<noteq> t div 1000"
  shows "let w' = send_step metric i Unacked w in
      map transaction_id (drop (length (ledger w)) (ledger w')) = [flush_id tx t]
      \<and> totalBilledKwh (objs w' ! r) = totalBilledKwh (objs w ! r)
      \<and> pendingDeltaKwh (objs w' ! r) = pendingDeltaKwh (objs w ! r) \<and> k \<le> pendingDeltaKwh (objs w' ! r)
      \<and> flush_id tx t' \<noteq> flush_id tx t"
proof -
  note fo = flight_obj [OF assms(1, 2), folded assms(3)]
  have "k \<le> pendingDeltaKwh (objs w ! r)" using fo(1) assms(3, 4) by (simp add: flight_ok_def)
  then show ?thesis
    using assms(2-5) fo(2)
    by (simp add: send_step_def end_flight_def Let_def buildEvent_def flush_id_def)
qed

section \<open>Examples\<close>

text \<open>A session whose second sample, a minute later, begins a flush of 11 kWh.\<close>

definition sample_of :: "int \<Rightarrow> rat \<Rightarrow> bool \<Rightarrow> meter_sample" where
  "sample_of i k final = \<lparr>ms_txId = i, ms_chargeBoxId = ''CP1'', ms_kwh = Some (Num k), ms_isFinal = final,
     ms_userMappingId = None\<rparr>"

definition two_samples :: billing_world where
  "two_samples = enqueueMeterSample 61000 (sample_of 7 (27/2) False)
     (enqueueMeterSample 1000 (sample_of 7 (5/2) False) (fresh_world sample_db))"

abbreviation sample_txs :: "transaction list option" where
  "sample_txs \<equiv> Some [tx_of 7 ''A'' 2500 0]"

definition flush_resolved :: billing_world where
  "flush_resolved = resolve_step 0 sample_txs no_lago 62000 two_samples"

definition flush_sent :: billing_world where
  "flush_sent = send_step ''kwh'' 0 Acked flush_resolved"

lemma two_samples_breach: "breach (fresh_world sample_db) two_samples"
  unfolding two_samples_def by (rule breach.step [OF breach.step [OF breach.start]]) (rule bstep.sample)+

lemma flush_sent_breach: "breach (fresh_world sample_db) flush_resolved" "breach (fresh_world sample_db) flush_sent"
proof -
  have 1: "0 < length (flights two_samples)" "fl_pc (flights two_samples ! 0) = Resolving" by code_simp+
  show r: "breach (fresh_world sample_db) flush_resolved"
    unfolding flush_resolved_def by (rule breach.step [OF two_samples_breach bstep.resolved [OF 1]])
  have 2: "0 < length (flights flush_resolved)" by code_simp
  show "breach (fresh_world sample_db) flush_sent"
    unfolding flush_sent_def by (rule breach.step [OF r bstep.sent [OF 2]])
qed

lemma sample_winv: "winv two_samples" "winv flush_resolved" "winv flush_sent"
  using breach_winv two_samples_breach flush_sent_breach by (auto simp: fresh_world_def winv_def)


lemma sample_flight: "fl_ref (flights two_samples ! 0) = 0" "0 < length (flights two_samples)"
  "fl_ref (flights flush_sent ! 0) = 0" "0 < length (flights flush_sent)"
  "fl_ref (flights flush_resolved ! 0) = 0" "0 < length (flights flush_resolved)"
  by code_simp+

lemma sample_persisting:
  obtains a d where "fl_pc (flights flush_sent ! 0) = Persisting a 62000" "persistFlush a (bdb flush_sent) = Some d"
    "pa_totalKwh a = 11"
proof -
  have "case fl_pc (flights flush_sent ! 0) of Persisting a now \<Rightarrow> now = 62000 \<and> pa_totalKwh a = 11
      \<and> persistFlush a (bdb flush_sent) \<noteq> None | _ \<Rightarrow> False" by code_simp
  then show thesis using that by (auto split: flush_pc.splits)
qed

theorem flush_bills_pending_witness:
  "(let w = two_samples; w3 = persist_step 0 flush_sent in
      totalBilledKwh (objs w3 ! 0) = 11
      \<and> map (\<lambda>e. map_of (properties e) ''value'') (drop (length (ledger w)) (ledger w3)) = [Some ''11.000'']
      \<and> (\<exists>s. find_state (syncStates (bdb w3)) 7 = Some s \<and> totalKwhBilled s = Some (Num 11)))"
proof -
  have c: "resolve_context sample_txs (mappingRows (bdb two_samples)) no_lago (subscriptionCache two_samples)
      (objs two_samples ! 0) = (True, objs flush_resolved ! 0, [])"
    "truthy (bs_lagoSubscription (objs flush_resolved ! 0))"
    "totalBilledKwh (objs two_samples ! 0) + pendingDeltaKwh (objs two_samples ! 0) = 11"
    "fixed_str 3 (pendingDeltaKwh (objs two_samples ! 0)) = ''11.000''" "bs_txId (objs two_samples ! 0) = 7"
    by code_simp+
  obtain a d where p: "fl_pc (flights flush_sent ! 0) = Persisting a 62000" "persistFlush a (bdb flush_sent) = Some d"
    by (rule sample_persisting)
  have "totalBilledKwh (objs two_samples ! 0) + pendingDeltaKwh (objs two_samples ! 0) < 10 ^ 6" by (simp add: c)
  from flush_bills_pending [OF sample_winv(1) sample_flight(2) refl refl _ c(2), where ?w2.0 = flush_sent and metric = "''kwh''"
      and txs = sample_txs and lago = no_lago and now = 62000, unfolded sample_flight, OF c(1) _ p this]
  show ?thesis by (auto simp: c Let_def flush_sent_def flush_resolved_def)
qed


theorem samples_during_flush_lost_witness:
  "(let w' = enqueueMeterSample 63000 (sample_of 7 (29/2) False) flush_sent; w'' = persist_step 0 w' in
     pendingDeltaKwh (objs w' ! 0) = 12 \<and> pendingDeltaKwh (objs w'' ! 0) = 0
     \<and> accum w'' ! 0 - (totalBilledKwh (objs w'' ! 0) + pendingDeltaKwh (objs w'' ! 0)) = 1)"
proof -
  let ?s = "sample_of 7 (29/2) False"
  define w' where "w' = enqueueMeterSample 63000 ?s flush_sent"
  have c: "map_of (smap flush_sent) (ms_txId ?s) = Some 0" "totalBilledKwh (objs flush_sent ! 0) = 0"
    "pendingDeltaKwh (objs flush_sent ! 0) = 11" "accum flush_sent ! 0 = 11" "bdb w' = bdb flush_sent"
    "pendingDeltaKwh (objs w' ! 0) = 12" "ms_kwh ?s = Some (Num (29/2))"
    unfolding w'_def by code_simp+
  obtain a d where p: "fl_pc (flights flush_sent ! 0) = Persisting a 62000" "persistFlush a (bdb flush_sent) = Some d"
    "pa_totalKwh a = 11"
    by (rule sample_persisting)
  from samples_during_flush_lost [OF sample_winv(3) sample_flight(4) _ p(1) c(1) _ _ w'_def, of "29/2" d] c p sample_flight
  show ?thesis by (simp add: Let_def w'_def [symmetric])
qed

theorem non_usage_second_flush_witness:
  "fst (resolve_context None [] no_lago [] (fst (snd (resolve_context sample_txs [mapping_of 1 ''A'' (Some ''cus'') None True]
      (\<lambda>c. Some [\<lparr>sub_external_id = ''s'', sub_lago_id = ''l'', sub_name = None, sub_status = ''active'',
         sub_plan_code = ''ExpressChargeM''\<rparr>]) [] (objs two_samples ! 0)))))"
proof -
  let ?lago = "\<lambda>c. Some [\<lparr>sub_external_id = ''s'', sub_lago_id = ''l'', sub_name = None, sub_status = ''active'',
         sub_plan_code = ''ExpressChargeM''\<rparr>]"
  let ?rc = "resolve_context sample_txs [mapping_of 1 ''A'' (Some ''cus'') None True] ?lago [] (objs two_samples ! 0)"
  define rc where "rc = ?rc"
  have c: "fst rc = False" "resolved (objs two_samples ! 0) = False" "bs_lagoSubscription (fst (snd rc)) = Some ''s''"
    "bs_lagoSubscription (objs two_samples ! 0) = None"
    unfolding rc_def by code_simp+
  have "?rc = (False, fst (snd rc), snd (snd rc))" using c(1) by (simp add: rc_def [symmetric] prod_eq_iff)
  from non_usage_second_flush [OF this _ _ c(4), of None "[]" no_lago "[]"] c(2, 3) show ?thesis by (simp add: rc_def [symmetric])
qed

theorem lost_ack_resends_witness:
  "(let w' = send_step ''kwh'' 0 Unacked flush_resolved in
     map transaction_id (ledger w') = [''steve_tx_7_62''] \<and> pendingDeltaKwh (objs w' ! 0) = 11
     \<and> flush_id 7 122000 \<noteq> ''steve_tx_7_62'')"
proof -
  have c: "fl_pc (flights flush_resolved ! 0) = Sending 11 (flush_id 7 62000) 62000" "ledger flush_resolved = []"
    "flush_id 7 62000 = ''steve_tx_7_62''" "pendingDeltaKwh (objs flush_resolved ! 0) = 11"
    by code_simp+
  from lost_ack_resends [OF sample_winv(2) sample_flight(6) _ c(1), of 0 122000 "''kwh''"] sample_flight c
  show ?thesis by (simp add: Let_def)
qed

end
