(* ===== verification/Scheduler.thy ===== *)
theory Scheduler
  imports Processor
begin

text \<open>
  The adaptive cadence of the sync worker (\<open>src/services/sync-scheduler.ts\<close>). The row of
  \<open>sync_schedule_state\<close> and the fields of the singleton object are two views of one tier; the
  worker compares instants with its own clock in some places and with the database clock in
  others, so the two clocks are separate arguments. Croner is a parameter: which patterns it
  accepts and when a pattern fires next.
\<close>

section \<open>Tiers\<close>

datatype sync_tier = Active | Idle | Dormant

fun tier_str :: "sync_tier \<Rightarrow> string" where
  "tier_str Active = ''active''"
| "tier_str Idle = ''idle''"
| "tier_str Dormant = ''dormant''"

text \<open>\<open>isValidTier\<close>, as the narrowing it performs.\<close>

definition tier_of :: "string option \<Rightarrow> sync_tier option" where
  "tier_of v = (if v = Some ''active'' then Some Active
     else if v = Some ''idle'' then Some Idle
     else if v = Some ''dormant'' then Some Dormant else None)"

lemma tier_of_str [simp]: "tier_of (Some (tier_str t)) = Some t"
  by (cases t) (simp_all add: tier_of_def)

lemma tier_of_SomeE:
  assumes "tier_of v = Some t" obtains "v = Some (tier_str t)"
  using assms by (auto simp: tier_of_def split: if_splits)

fun tier_rank :: "sync_tier \<Rightarrow> nat" where
  "tier_rank Active = 0"
| "tier_rank Idle = 1"
| "tier_rank Dormant = 2"

lemma tier_rank_inject: "tier_rank s = tier_rank t \<longleftrightarrow> s = t"
  by (cases s; cases t) simp_all

text \<open>The rank table of \<open>isDemotion\<close> orders the tiers; to demote is to go up.\<close>

instantiation sync_tier :: linorder
begin

definition less_eq_sync_tier :: "sync_tier \<Rightarrow> sync_tier \<Rightarrow> bool" where
  "less_eq_sync_tier s t \<longleftrightarrow> tier_rank s \<le> tier_rank t"

definition less_sync_tier :: "sync_tier \<Rightarrow> sync_tier \<Rightarrow> bool" where
  "less_sync_tier s t \<longleftrightarrow> tier_rank s < tier_rank t"

instance
  by standard (auto simp: less_eq_sync_tier_def less_sync_tier_def tier_rank_inject)

end

lemma Active_least [simp]: "Active \<le> t" "\<not> t < Active"
  by (simp_all add: less_eq_sync_tier_def less_sync_tier_def)

definition isDemotion :: "sync_tier \<Rightarrow> sync_tier \<Rightarrow> bool" where
  "isDemotion from_tier to_tier \<longleftrightarrow> tier_rank to_tier > tier_rank from_tier"

lemma isDemotion_less: "isDemotion s t \<longleftrightarrow> s < t"
  by (simp add: isDemotion_def less_sync_tier_def)

fun TIER_PATTERNS :: "sync_tier \<Rightarrow> string" where
  "TIER_PATTERNS Active = ''*/15 * * * *''"
| "TIER_PATTERNS Idle = ''0 * * * *''"
| "TIER_PATTERNS Dormant = ''0 3 * * 0''"

section \<open>State\<close>

text \<open>The configuration and Croner.\<close>

record sched_config =
  cfg_cron :: string
  cfg_dormantDays :: int
  cfg_hysteresisTicks :: int
  cron_valid :: "string \<Rightarrow> bool"
  cron_next :: "string \<Rightarrow> int \<Rightarrow> int option"

record schedule_row =
  sr_currentTier :: string
  sr_lastActivityAt :: "int option"
  sr_lastEvaluatedAt :: "int option"
  sr_nextRunAt :: "int option"
  sr_consecutiveIdleTicks :: int
  sr_pinnedUntil :: "int option"
  sr_pinnedTier :: "string option"

text \<open>The singleton row, the module-level cron job (by its pattern) and the object's fields.\<close>

record scheduler =
  sd_row :: "schedule_row option"
  sd_job :: "string option"
  sd_handler :: bool
  sd_cachedTier :: sync_tier
  sd_cachedNextRunAt :: "int option"
  sd_running :: bool

record evaluation =
  el_previousTier :: sync_tier
  el_newTier :: sync_tier
  el_reason :: string
  el_pattern :: string
  el_nextRunAt :: "int option"
  el_pinned :: bool

text \<open>
  What an operation meets: the two clocks, the answers of StEvE (\<open>None\<close>: the call throws)
  and the detection times of the tag change log.
\<close>

record sched_env =
  se_worker :: int
  se_db :: int
  se_txs :: "transaction list option"
  se_tags :: "ocpp_tag list option"
  se_changes :: "int list"

definition patternFor :: "sched_config \<Rightarrow> sync_tier \<Rightarrow> string" where
  "patternFor c t = (if cfg_cron c \<noteq> [] \<and> js_trim (cfg_cron c) \<noteq> [] then js_trim (cfg_cron c) else TIER_PATTERNS t)"

definition default_row :: schedule_row where
  "default_row = \<lparr>sr_currentTier = ''idle'', sr_lastActivityAt = None, sr_lastEvaluatedAt = None,
     sr_nextRunAt = None, sr_consecutiveIdleTicks = 0, sr_pinnedUntil = None, sr_pinnedTier = None\<rparr>"

definition loadOrInitState :: "scheduler \<Rightarrow> schedule_row \<times> scheduler" where
  "loadOrInitState s =
     (case sd_row s of Some r \<Rightarrow> (r, s) | None \<Rightarrow> (default_row, s\<lparr>sd_row := Some default_row\<rparr>))"

definition effectiveTier :: "int \<Rightarrow> schedule_row \<Rightarrow> sync_tier" where
  "effectiveTier now r =
     (case (sr_pinnedUntil r, tier_of (sr_pinnedTier r)) of
        (Some u, Some t) \<Rightarrow> if u > now then t
          else (case tier_of (Some (sr_currentTier r)) of Some t \<Rightarrow> t | None \<Rightarrow> Idle)
      | _ \<Rightarrow> (case tier_of (Some (sr_currentTier r)) of Some t \<Rightarrow> t | None \<Rightarrow> Idle))"

definition isPinActive :: "int \<Rightarrow> schedule_row \<Rightarrow> bool" where
  "isPinActive dbnow r \<longleftrightarrow> (case sr_pinnedUntil r of None \<Rightarrow> False | Some u \<Rightarrow> u > dbnow)"

definition hasActiveSignal :: "sched_env \<Rightarrow> bool" where
  "hasActiveSignal e \<longleftrightarrow>
     (case se_txs e of None \<Rightarrow> False | Some ts \<Rightarrow> list_ex (\<lambda>t. tx_stopTimestamp t = None) ts)
     \<or> (case se_tags e of None \<Rightarrow> False | Some ts \<Rightarrow> list_ex (\<lambda>t. inTransaction t = Some True) ts)"

definition hasRecentActivity :: "sched_config \<Rightarrow> sched_env \<Rightarrow> bool" where
  "hasRecentActivity c e \<longleftrightarrow> list_ex (\<lambda>t. t > se_db e - cfg_dormantDays c * 86400000) (se_changes e)"

definition computeNextRun :: "sched_config \<Rightarrow> sync_tier \<Rightarrow> int \<Rightarrow> int option" where
  "computeNextRun c t now = (if cron_valid c (patternFor c t) then cron_next c (patternFor c t) now else None)"

text \<open>
  \<open>scheduleCron\<close>: whether it returns; the Cron constructor throws on a pattern it rejects,
  after the old job was stopped.
\<close>

definition scheduleCron :: "sched_config \<Rightarrow> sync_tier \<Rightarrow> scheduler \<Rightarrow> bool \<times> scheduler" where
  "scheduleCron c t s =
     (if \<not> sd_handler s then (True, s)
      else if cron_valid c (patternFor c t) then (True, s\<lparr>sd_job := Some (patternFor c t)\<rparr>)
      else (False, s\<lparr>sd_job := None\<rparr>))"

section \<open>Operations\<close>

text \<open>
  \<open>start\<close>: whether it returns, whether it fired the handler at once, and the state. The
  comparison of the stored run with the clock happens in the database.
\<close>

definition start :: "sched_config \<Rightarrow> sched_env \<Rightarrow> scheduler \<Rightarrow> bool \<times> bool \<times> scheduler" where
  "start c e s =
     (let (r, s1) = loadOrInitState (s\<lparr>sd_handler := True\<rparr>);
          s2 = s1\<lparr>sd_cachedTier := effectiveTier (se_worker e) r, sd_cachedNextRunAt := sr_nextRunAt r\<rparr>;
          overdue = (case sr_nextRunAt r of None \<Rightarrow> False | Some t \<Rightarrow> t < se_db e);
          (ok, s3) = scheduleCron c (sd_cachedTier s2) s2
      in (ok, ok \<and> overdue, s3))"

definition stop :: "scheduler \<Rightarrow> scheduler" where
  "stop s = s\<lparr>sd_job := None, sd_handler := False\<rparr>"

definition onActivityDetected :: "sched_config \<Rightarrow> sched_env \<Rightarrow> scheduler \<Rightarrow> bool \<times> scheduler" where
  "onActivityDetected c e s =
     (let s1 = (case sd_row s of
                  None \<Rightarrow> s\<lparr>sd_cachedTier := Active\<rparr>
                | Some r \<Rightarrow>
                    (let r' = r\<lparr>sr_currentTier := ''active'', sr_lastActivityAt := Some (se_db e),
                               sr_lastEvaluatedAt := Some (se_db e), sr_consecutiveIdleTicks := 0,
                               sr_nextRunAt := Some (se_db e + 15 * 60000)\<rparr>
                     in s\<lparr>sd_row := Some r', sd_cachedTier := effectiveTier (se_worker e) r',
                          sd_cachedNextRunAt := sr_nextRunAt r'\<rparr>))
      in scheduleCron c (sd_cachedTier s1) s1)"

text \<open>The tier the signals ask for, with its reason.\<close>

definition target_tier :: "sched_config \<Rightarrow> sched_env \<Rightarrow> sync_tier \<times> string" where
  "target_tier c e =
     (if hasActiveSignal e then (Active, ''active tx or in-transaction tag'')
      else if hasRecentActivity c e
      then (Idle, ''tag/tx activity within last '' @ show_int (cfg_dormantDays c) @ ''d'')
      else (Dormant, ''no tx and no tag changes for '' @ show_int (cfg_dormantDays c) @ ''d+''))"

text \<open>The hysteresis: new tier, new tick count and reason.\<close>

definition hysteresis :: "int \<Rightarrow> sync_tier \<Rightarrow> int \<Rightarrow> sync_tier \<times> string \<Rightarrow> sync_tier \<times> int \<times> string" where
  "hysteresis n previous ticks target =
     (if isDemotion previous (fst target)
      then (if ticks + 1 \<ge> n then (fst target, 0, snd target)
            else (previous, ticks + 1, snd target @ '' (holding '' @ tier_str previous @ '', tick ''
                    @ show_int (ticks + 1) @ ''/'' @ show_int n @ '')''))
      else (fst target, 0, snd target))"

text \<open>The row \<open>logTransitionIfChanged\<close> writes; its JSON context repeats the evaluation.\<close>

definition logTransitionIfChanged :: "int \<Rightarrow> evaluation \<Rightarrow> int option \<Rightarrow> sync_run_log list" where
  "logTransitionIfChanged now ev runId =
     (case runId of
        None \<Rightarrow> []
      | Some i \<Rightarrow> if i > 0
          then [\<lparr>log_syncRunId = i, log_segment = ''scheduling'', log_level = ''info'',
                 log_message = (if el_previousTier ev = el_newTier ev
                   then ''Cadence re-evaluated: staying on '' @ tier_str (el_newTier ev)
                   else ''Tier transition: '' @ tier_str (el_previousTier ev) @ '' -> '' @ tier_str (el_newTier ev)),
                 log_createdAt = now\<rparr>]
          else [])"

text \<open>Storing, caching and rescheduling an evaluation; \<open>None\<close> when Croner throws.\<close>

definition conclude ::
  "sched_config \<Rightarrow> sched_env \<Rightarrow> int option \<Rightarrow> schedule_row \<Rightarrow> evaluation \<Rightarrow> scheduler
     \<Rightarrow> evaluation option \<times> sync_run_log list \<times> scheduler"
where
  "conclude c e runId row ev s =
     (let s1 = s\<lparr>sd_row := Some row, sd_cachedTier := el_newTier ev, sd_cachedNextRunAt := el_nextRunAt ev\<rparr>;
          (ok, s2) = scheduleCron c (el_newTier ev) s1
      in if ok then (Some ev, logTransitionIfChanged (se_db e) ev runId, s2) else (None, [], s2))"

definition evaluateAndReschedule ::
  "sched_config \<Rightarrow> sched_env \<Rightarrow> int option \<Rightarrow> scheduler \<Rightarrow> evaluation option \<times> sync_run_log list \<times> scheduler"
where
  "evaluateAndReschedule c e runId s =
     (let (r, s1) = loadOrInitState s; previous = effectiveTier (se_worker e) r in
      case (if isPinActive (se_db e) r then tier_of (sr_pinnedTier r) else None) of
        Some pinned \<Rightarrow>
          (let next = computeNextRun c pinned (se_worker e) in
           conclude c e runId
             (r\<lparr>sr_currentTier := tier_str pinned, sr_lastEvaluatedAt := Some (se_db e), sr_nextRunAt := next\<rparr>)
             \<lparr>el_previousTier = previous, el_newTier = pinned, el_reason = ''admin pin'',
              el_pattern = patternFor c pinned, el_nextRunAt = next, el_pinned = True\<rparr> s1)
      | None \<Rightarrow>
          (let (new, ticks, reason) =
                 hysteresis (cfg_hysteresisTicks c) previous (sr_consecutiveIdleTicks r) (target_tier c e);
               next = computeNextRun c new (se_worker e)
           in conclude c e runId
             (r\<lparr>sr_currentTier := tier_str new, sr_lastEvaluatedAt := Some (se_db e),
                sr_lastActivityAt := (if hasActiveSignal e then Some (se_db e) else sr_lastActivityAt r),
                sr_consecutiveIdleTicks := ticks, sr_nextRunAt := next\<rparr>)
             \<lparr>el_previousTier = previous, el_newTier = new, el_reason = reason,
              el_pattern = patternFor c new, el_nextRunAt = next, el_pinned = False\<rparr> s1))"

definition clearPin :: "scheduler \<Rightarrow> scheduler" where
  "clearPin s = s\<lparr>sd_row := map_option (\<lambda>r. r\<lparr>sr_pinnedTier := None, sr_pinnedUntil := None\<rparr>) (sd_row s)\<rparr>"

definition clamp_hours :: "rat \<Rightarrow> int" where
  "clamp_hours h = max 1 (min (24 * 14) \<lfloor>h\<rfloor>)"

definition setPin :: "int \<Rightarrow> sync_tier \<Rightarrow> rat \<Rightarrow> scheduler \<Rightarrow> scheduler" where
  "setPin dbnow t h s = s\<lparr>sd_row := map_option (\<lambda>r. r\<lparr>sr_pinnedTier := Some (tier_str t),
     sr_pinnedUntil := Some (dbnow + clamp_hours h * 3600000)\<rparr>) (sd_row s)\<rparr>"

text \<open>\<open>runHandlerSafe\<close> before and after the handler: whether it runs, and the guard.\<close>

definition begin_handler :: "scheduler \<Rightarrow> bool \<times> scheduler" where
  "begin_handler s = (if \<not> sd_handler s \<or> sd_running s then (False, s) else (True, s\<lparr>sd_running := True\<rparr>))"

definition end_handler :: "scheduler \<Rightarrow> scheduler" where
  "end_handler s = s\<lparr>sd_running := False\<rparr>"


section \<open>The invariant of the singleton\<close>

text \<open>
  The check constraints of the table and the range of the tick counter; and the timer: a
  started scheduler has exactly the job of its cached tier, a stopped one has none.
\<close>

definition row_ok :: "sched_config \<Rightarrow> schedule_row \<Rightarrow> bool" where
  "row_ok c r \<longleftrightarrow> tier_of (Some (sr_currentTier r)) \<noteq> None
     \<and> (sr_pinnedTier r = None \<or> tier_of (sr_pinnedTier r) \<noteq> None)
     \<and> 0 \<le> sr_consecutiveIdleTicks r \<and> sr_consecutiveIdleTicks r < cfg_hysteresisTicks c"

definition timer_ok :: "sched_config \<Rightarrow> scheduler \<Rightarrow> bool" where
  "timer_ok c s \<longleftrightarrow> sd_job s = (if sd_handler s then Some (patternFor c (sd_cachedTier s)) else None)"

definition sched_ok :: "sched_config \<Rightarrow> scheduler \<Rightarrow> bool" where
  "sched_ok c s \<longleftrightarrow> (case sd_row s of None \<Rightarrow> True | Some r \<Rightarrow> row_ok c r) \<and> timer_ok c s"

text \<open>A configuration as \<open>config.ts\<close> delivers it, with a cron override Croner accepts.\<close>

definition config_ok :: "sched_config \<Rightarrow> bool" where
  "config_ok c \<longleftrightarrow> 1 \<le> cfg_hysteresisTicks c
     \<and> cron_valid c (patternFor c Active) \<and> cron_valid c (patternFor c Idle) \<and> cron_valid c (patternFor c Dormant)"

lemma config_ok_valid: "config_ok c \<Longrightarrow> cron_valid c (patternFor c t)"
  by (cases t) (simp_all add: config_ok_def)

lemma default_row_ok: "config_ok c \<Longrightarrow> row_ok c default_row"
  by (simp add: config_ok_def row_ok_def default_row_def tier_of_def)

lemma scheduleCron_ok:
  assumes "config_ok c" "sd_handler s \<or> sd_job s = None"
  shows "fst (scheduleCron c (sd_cachedTier s) s)" "timer_ok c (snd (scheduleCron c (sd_cachedTier s) s))"
    "sd_row (snd (scheduleCron c (sd_cachedTier s) s)) = sd_row s"
    "sd_cachedTier (snd (scheduleCron c (sd_cachedTier s) s)) = sd_cachedTier s"
    "sd_handler (snd (scheduleCron c (sd_cachedTier s) s)) = sd_handler s"
  using assms by (auto simp: scheduleCron_def timer_ok_def config_ok_valid)

lemma loadOrInitState_ok:
  assumes "config_ok c" "sched_ok c s"
  shows "row_ok c (fst (loadOrInitState s))" "sched_ok c (snd (loadOrInitState s))"
    "sd_row (snd (loadOrInitState s)) = Some (fst (loadOrInitState s))"
    "sd_handler (snd (loadOrInitState s)) = sd_handler s" "sd_job (snd (loadOrInitState s)) = sd_job s"
  using assms by (auto simp: loadOrInitState_def sched_ok_def timer_ok_def default_row_ok split: option.splits)

lemma conclude_ok:
  assumes "config_ok c" "row_ok c row" "timer_ok c s"
  shows "sched_ok c (snd (snd (conclude c e i row ev s)))" "fst (conclude c e i row ev s) = Some ev"
    "sd_cachedTier (snd (snd (conclude c e i row ev s))) = el_newTier ev"
    "sd_row (snd (snd (conclude c e i row ev s))) = Some row"
    "sd_handler (snd (snd (conclude c e i row ev s))) = sd_handler s"
proof -
  let ?s = "s\<lparr>sd_row := Some row, sd_cachedTier := el_newTier ev, sd_cachedNextRunAt := el_nextRunAt ev\<rparr>"
  have "sd_handler ?s \<or> sd_job ?s = None" using assms(3) by (simp add: timer_ok_def)
  note sc = scheduleCron_ok [OF assms(1) this]
  show "sched_ok c (snd (snd (conclude c e i row ev s)))" "fst (conclude c e i row ev s) = Some ev"
    "sd_cachedTier (snd (snd (conclude c e i row ev s))) = el_newTier ev"
    "sd_row (snd (snd (conclude c e i row ev s))) = Some row"
    "sd_handler (snd (snd (conclude c e i row ev s))) = sd_handler s"
    using sc assms(2) by (simp_all add: conclude_def Let_def case_prod_beta sched_ok_def)
qed

lemma hysteresis_range:
  "0 \<le> k \<Longrightarrow> 1 \<le> n \<Longrightarrow> 0 \<le> fst (snd (hysteresis n t k x)) \<and> fst (snd (hysteresis n t k x)) < n"
  by (auto simp: hysteresis_def)

lemma evaluate_ok:
  assumes "config_ok c" "sched_ok c s"
  shows "sched_ok c (snd (snd (evaluateAndReschedule c e i s)))"
    "\<exists>ev. fst (evaluateAndReschedule c e i s) = Some ev
       \<and> sd_cachedTier (snd (snd (evaluateAndReschedule c e i s))) = el_newTier ev
       \<and> (\<exists>r. sd_row (snd (snd (evaluateAndReschedule c e i s))) = Some r \<and> sr_currentTier r = tier_str (el_newTier ev))"
    "sd_handler (snd (snd (evaluateAndReschedule c e i s))) = sd_handler s"
proof -
  obtain r s1 where l: "loadOrInitState s = (r, s1)" by fastforce
  note lo = loadOrInitState_ok [OF assms, unfolded l fst_conv snd_conv]
  have n: "1 \<le> cfg_hysteresisTicks c" using assms(1) by (simp add: config_ok_def)
  obtain new ticks why where h: "hysteresis (cfg_hysteresisTicks c) (effectiveTier (se_worker e) r)
      (sr_consecutiveIdleTicks r) (target_tier c e) = (new, ticks, why)" by (metis prod_cases3)
  have ticks: "0 \<le> ticks" "ticks < cfg_hysteresisTicks c"
    using hysteresis_range [of "sr_consecutiveIdleTicks r" "cfg_hysteresisTicks c" "effectiveTier (se_worker e) r"
      "target_tier c e"] lo(1) n by (simp_all add: h row_ok_def)
  note ok = conclude_ok [OF assms(1) _ lo(2) [unfolded sched_ok_def, THEN conjunct2]]
  have keep: "row_ok c (r\<lparr>sr_currentTier := tier_str t, sr_lastEvaluatedAt := a, sr_nextRunAt := b\<rparr>)" for t a b
    using lo(1) by (simp add: row_ok_def)
  have new: "row_ok c (r\<lparr>sr_currentTier := tier_str t, sr_lastEvaluatedAt := a, sr_lastActivityAt := b,
      sr_consecutiveIdleTicks := ticks, sr_nextRunAt := d\<rparr>)" for t a b d
    using lo(1) ticks by (simp add: row_ok_def)
  have quiet: "row_ok c (r\<lparr>sr_currentTier := tier_str t, sr_lastEvaluatedAt := a, sr_consecutiveIdleTicks := ticks,
      sr_nextRunAt := d\<rparr>)" for t a d
    using lo(1) ticks by (simp add: row_ok_def)
  show "sched_ok c (snd (snd (evaluateAndReschedule c e i s)))"
    "sd_handler (snd (snd (evaluateAndReschedule c e i s))) = sd_handler s"
    "\<exists>ev. fst (evaluateAndReschedule c e i s) = Some ev
       \<and> sd_cachedTier (snd (snd (evaluateAndReschedule c e i s))) = el_newTier ev
       \<and> (\<exists>r. sd_row (snd (snd (evaluateAndReschedule c e i s))) = Some r \<and> sr_currentTier r = tier_str (el_newTier ev))"
    by (simp_all add: evaluateAndReschedule_def l h Let_def ok [OF keep] ok [OF new] ok [OF quiet] lo split: option.split)
qed

text \<open>
  Everything the worker and the API can do to the scheduler, in any order and at any times.
\<close>

inductive sched_step :: "sched_config \<Rightarrow> scheduler \<Rightarrow> scheduler \<Rightarrow> bool" for c where
  started: "sched_step c s (snd (snd (start c e s)))"
| stopped: "sched_step c s (stop s)"
| activity: "sched_step c s (snd (onActivityDetected c e s))"
| evaluated: "sched_step c s (snd (snd (evaluateAndReschedule c e i s)))"
| unpinned: "sched_step c s (clearPin s)"
| pinned: "sched_step c s (setPin now t h s)"
| fired: "sched_step c s (snd (begin_handler s))"
| returned: "sched_step c s (end_handler s)"

inductive sched_reach :: "sched_config \<Rightarrow> scheduler \<Rightarrow> scheduler \<Rightarrow> bool" for c s where
  here: "sched_reach c s s"
| further: "sched_reach c s t \<Longrightarrow> sched_step c t u \<Longrightarrow> sched_reach c s u"

lemma start_ok:
  assumes "config_ok c" "sched_ok c s"
  shows "sched_ok c (snd (snd (start c e s)))"
proof -
  let ?s = "s\<lparr>sd_handler := True\<rparr>"
  obtain r s1 where l: "loadOrInitState ?s = (r, s1)" by fastforce
  then have h: "sd_handler s1" and row: "sd_row s1 = Some r" and rk: "row_ok c r"
    using assms by (auto simp: loadOrInitState_def sched_ok_def default_row_ok split: option.splits)
  let ?s2 = "s1\<lparr>sd_cachedTier := effectiveTier (se_worker e) r, sd_cachedNextRunAt := sr_nextRunAt r\<rparr>"
  have "sd_handler ?s2 \<or> sd_job ?s2 = None" using h by simp
  from scheduleCron_ok [OF assms(1) this] row rk
  show ?thesis by (simp add: start_def l Let_def case_prod_beta sched_ok_def)
qed

lemma onActivityDetected_ok:
  assumes "config_ok c" "sched_ok c s"
  shows "sched_ok c (snd (onActivityDetected c e s))"
proof -
  have j: "sd_handler s \<or> sd_job s = None" using assms(2) by (simp add: sched_ok_def timer_ok_def)
  show ?thesis
  proof (cases "sd_row s")
    case None
    then show ?thesis
      using scheduleCron_ok [OF assms(1), of "s\<lparr>sd_cachedTier := Active\<rparr>"] j
      by (simp add: onActivityDetected_def sched_ok_def)
  next
    case (Some r)
    let ?r = "r\<lparr>sr_currentTier := ''active'', sr_lastActivityAt := Some (se_db e),
        sr_lastEvaluatedAt := Some (se_db e), sr_consecutiveIdleTicks := 0, sr_nextRunAt := Some (se_db e + 15 * 60000)\<rparr>"
    have "row_ok c ?r"
      using assms Some by (simp add: sched_ok_def row_ok_def config_ok_def tier_of_def)
    then show ?thesis
      using Some j scheduleCron_ok [OF assms(1), of "s\<lparr>sd_row := Some ?r, sd_cachedTier := effectiveTier (se_worker e) ?r,
        sd_cachedNextRunAt := sr_nextRunAt ?r\<rparr>"]
      by (simp add: onActivityDetected_def sched_ok_def Let_def)
  qed
qed

lemma sched_step_ok: "sched_step c s t \<Longrightarrow> config_ok c \<Longrightarrow> sched_ok c s \<Longrightarrow> sched_ok c t"
proof (induction rule: sched_step.induct)
  case (stopped s)
  then show ?case by (simp add: stop_def sched_ok_def timer_ok_def)
next
  case (unpinned s)
  then show ?case by (auto simp: clearPin_def sched_ok_def timer_ok_def row_ok_def split: option.splits)
next
  case (pinned s now t h)
  then show ?case by (auto simp: setPin_def sched_ok_def timer_ok_def row_ok_def split: option.splits)
next
  case (fired s)
  then show ?case by (simp add: begin_handler_def sched_ok_def timer_ok_def)
next
  case (returned s)
  then show ?case by (simp add: end_handler_def sched_ok_def timer_ok_def)
qed (simp_all add: start_ok onActivityDetected_ok evaluate_ok)

lemma sched_reach_ok: "sched_reach c s t \<Longrightarrow> config_ok c \<Longrightarrow> sched_ok c s \<Longrightarrow> sched_ok c t"
  by (induction rule: sched_reach.induct) (auto intro: sched_step_ok)

text \<open>
  C27. The scheduler row and timer stay well-formed whatever the worker and the
  administration pages do, in any order, at any times and with skewed clocks: the stored and
  the pinned tier are among the three, the idle counter stays below the hysteresis limit, a
  pin lasts between one hour and two weeks from the moment it is set, and a started
  scheduler always has the cron job of the tier it shows.
\<close>

theorem scheduler_well_formed:
  assumes "config_ok c" "row_ok c r" "sd_row s0 = Some r" "\<not> sd_handler s0" "sd_job s0 = None"
    and "sched_reach c s0 s"
  shows "(\<forall>r. sd_row s = Some r \<longrightarrow> row_ok c r)
    \<and> sd_job s = (if sd_handler s then Some (patternFor c (sd_cachedTier s)) else None)
    \<and> (\<forall>now t h r. sd_row (setPin now t h s) = Some r \<longrightarrow>
         (\<exists>u. sr_pinnedUntil r = Some u \<and> now + 3600000 \<le> u \<and> u \<le> now + 14 * 24 * 3600000
              \<and> effectiveTier (u - 1) r = t))"
proof -
  have "sched_ok c s0" using assms(2-5) by (simp add: sched_ok_def timer_ok_def)
  from sched_reach_ok [OF assms(6, 1) this] show ?thesis
    by (auto simp: sched_ok_def timer_ok_def setPin_def clamp_hours_def effectiveTier_def)
qed

section \<open>Hysteresis\<close>

text \<open>The reference: the tier and the tick counter, stepped by a target.\<close>

definition hyst_step :: "int \<Rightarrow> sync_tier \<Rightarrow> sync_tier \<times> int \<Rightarrow> sync_tier \<times> int" where
  "hyst_step n x st = (if fst st < x \<and> snd st + 1 < n then (fst st, snd st + 1) else (x, 0))"

lemma hysteresis_step:
  "hysteresis n t k (x, why) = (t', k', why') \<Longrightarrow> hyst_step n x (t, k) = (t', k')"
  by (auto simp: hysteresis_def hyst_step_def isDemotion_less split: if_splits)

lemma hyst_trace:
  assumes "1 \<le> n" "fold (hyst_step n) xs (t0, 0) = (t, k)"
  shows "0 \<le> k \<and> k < n \<and> nat k \<le> length xs \<and> (\<forall>x \<in> set (drop (length xs - nat k) xs). t < x)"
  using assms(2)
proof (induction xs arbitrary: t k rule: rev_induct)
  case Nil
  then show ?case using assms(1) by simp
next
  case (snoc x xs)
  obtain u j where u: "fold (hyst_step n) xs (t0, 0) = (u, j)" by fastforce
  note IH = snoc.IH [OF u]
  have step: "hyst_step n x (u, j) = (t, k)" using snoc.prems u by simp
  show ?case
  proof (cases "u < x \<and> j + 1 < n")
    case True
    then have tk: "t = u" "k = j + 1" using step by (simp_all add: hyst_step_def)
    then have "nat k = Suc (nat j)" using IH by (simp add: nat_add_distrib)
    then have "drop (length (xs @ [x]) - nat k) (xs @ [x]) = drop (length xs - nat j) xs @ [x]" using IH by simp
    then show ?thesis using tk IH True by auto
  next
    case False
    then have "k = 0" using step by (simp add: hyst_step_def split: if_splits)
    then show ?thesis using assms(1) by simp
  qed
qed


definition run_evaluations :: "sched_config \<Rightarrow> sched_env list \<Rightarrow> scheduler \<Rightarrow> scheduler" where
  "run_evaluations c es s = fold (\<lambda>e s. snd (snd (evaluateAndReschedule c e None s))) es s"

text \<open>On a row without a pin an evaluation is a step of the reference.\<close>

lemma evaluate_unpinned:
  assumes "sd_row s = Some r" "sr_pinnedUntil r = None" "tier_of (Some (sr_currentTier r)) = Some t"
    and "hyst_step (cfg_hysteresisTicks c) (fst (target_tier c e)) (t, sr_consecutiveIdleTicks r) = (t', k')"
  shows "\<exists>r'. sd_row (snd (snd (evaluateAndReschedule c e i s))) = Some r' \<and> sr_pinnedUntil r' = None
    \<and> sr_currentTier r' = tier_str t' \<and> sr_consecutiveIdleTicks r' = k'"
proof -
  obtain x why where x: "target_tier c e = (x, why)" by fastforce
  obtain u j why' where h: "hysteresis (cfg_hysteresisTicks c) t (sr_consecutiveIdleTicks r) (x, why) = (u, j, why')"
    by (metis prod_cases3)
  have e: "(u, j) = (t', k')" using hysteresis_step [OF h] assms(4) x by simp
  have "effectiveTier (se_worker e) r = t" using assms(2, 3) by (simp add: effectiveTier_def split: option.split)
  then show ?thesis
    using assms(1, 2) h e
    by (simp add: evaluateAndReschedule_def loadOrInitState_def isPinActive_def x conclude_def scheduleCron_def Let_def
        split: option.split)
qed

lemma run_evaluations_hyst:
  assumes "sd_row s = Some r" "sr_pinnedUntil r = None" "sr_currentTier r = tier_str t"
    and "fold (hyst_step (cfg_hysteresisTicks c)) (map (fst \<circ> target_tier c) es) (t, sr_consecutiveIdleTicks r) = (t', k')"
  shows "\<exists>r'. sd_row (run_evaluations c es s) = Some r' \<and> sr_pinnedUntil r' = None
    \<and> sr_currentTier r' = tier_str t' \<and> sr_consecutiveIdleTicks r' = k'"
  using assms
proof (induction es arbitrary: s r t)
  case Nil
  then show ?case by (simp add: run_evaluations_def)
next
  case (Cons e es)
  obtain u j where u: "hyst_step (cfg_hysteresisTicks c) (fst (target_tier c e)) (t, sr_consecutiveIdleTicks r) = (u, j)"
    by fastforce
  from evaluate_unpinned [OF Cons.prems(1, 2) _ u, of None] Cons.prems(3) obtain r' where
    r': "sd_row (snd (snd (evaluateAndReschedule c e None s))) = Some r'" "sr_pinnedUntil r' = None"
    "sr_currentTier r' = tier_str u" "sr_consecutiveIdleTicks r' = j" by auto
  from Cons.IH [OF r'(1-3)] r'(4) Cons.prems(4) u show ?case by (simp add: run_evaluations_def)
qed

text \<open>
  No thrashing: without a pin, and starting with a fresh counter, the cadence slows down
  only after as many consecutive evaluations as the hysteresis asks for have each wanted a
  slower tier than the current one, and then takes the tier the last of them wants; an
  evaluation that wants the current or a faster tier gets it at once.
\<close>

theorem slows_down_after_quiet_ticks:
  assumes "1 \<le> cfg_hysteresisTicks c" "sd_row s = Some r" "sr_pinnedUntil r = None" "sr_currentTier r = tier_str t0"
    and "sr_consecutiveIdleTicks r = 0"
    and "sd_row (run_evaluations c es s) = Some r1" "tier_of (Some (sr_currentTier r1)) = Some t1"
    and "sd_row (run_evaluations c (es @ [e]) s) = Some r2" "tier_of (Some (sr_currentTier r2)) = Some t2"
  shows "(if t1 < t2
      then t2 = fst (target_tier c e) \<and> nat (cfg_hysteresisTicks c) \<le> length (es @ [e])
         \<and> (\<forall>e' \<in> set (drop (length (es @ [e]) - nat (cfg_hysteresisTicks c)) (es @ [e])). t1 < fst (target_tier c e'))
      else t2 = min t1 (fst (target_tier c e)))"
proof -
  let ?n = "cfg_hysteresisTicks c" and ?x = "fst \<circ> target_tier c"
  obtain t k where f: "fold (hyst_step ?n) (map ?x es) (t0, 0) = (t, k)" by fastforce
  note tr = hyst_trace [OF assms(1) f]
  from run_evaluations_hyst [OF assms(2-4), of c es] f assms(5-7) have t: "t = t1" by (auto simp: tier_of_SomeE)
  obtain u j where g: "hyst_step ?n (?x e) (t1, k) = (u, j)" by fastforce
  from run_evaluations_hyst [OF assms(2-4), of c "es @ [e]"] f g t assms(5, 8, 9) have u: "u = t2" by auto
  have slow: "?n = k + 1 \<and> t2 = ?x e" if "t1 < t2"
    using g u that tr by (auto simp: hyst_step_def split: if_splits)
  have "t2 = min t1 (?x e)" if "\<not> t1 < t2"
    using g u that by (auto simp: hyst_step_def min_def split: if_splits)
  moreover have "nat ?n \<le> length (es @ [e]) \<and> (\<forall>e' \<in> set (drop (length (es @ [e]) - nat ?n) (es @ [e])). t1 < ?x e')"
    if "t1 < t2"
  proof -
    have n: "nat ?n = Suc (nat k)" using slow [OF that] tr by (simp add: nat_add_distrib)
    then have "drop (length (es @ [e]) - nat ?n) (es @ [e]) = drop (length es - nat k) es @ [e]" using tr by simp
    then show ?thesis using n tr slow [OF that] that t by (auto simp: drop_map)
  qed
  ultimately show ?thesis using slow by auto
qed


section \<open>Examples\<close>

definition plain_config :: sched_config where
  "plain_config = \<lparr>cfg_cron = '' '', cfg_dormantDays = 30, cfg_hysteresisTicks = 2, cron_valid = (\<lambda>p. True),
     cron_next = (\<lambda>p t. Some (t + 900000))\<rparr>"

definition quiet_at :: "int \<Rightarrow> sched_env" where
  "quiet_at t = \<lparr>se_worker = t, se_db = t, se_txs = Some [], se_tags = None, se_changes = []\<rparr>"

definition fresh_scheduler :: "string \<Rightarrow> scheduler" where
  "fresh_scheduler tier = \<lparr>sd_row = Some (default_row\<lparr>sr_currentTier := tier\<rparr>), sd_job = None, sd_handler = False,
     sd_cachedTier = Idle, sd_cachedNextRunAt = None, sd_running = False\<rparr>"

lemma plain_config_ok: "config_ok plain_config"
  by (simp add: config_ok_def plain_config_def)

theorem scheduler_well_formed_witness:
  "sd_job (snd (snd (start plain_config (quiet_at 0) (fresh_scheduler ''idle'')))) = Some ''0 * * * *''"
proof -
  let ?init = "fresh_scheduler ''idle''" and ?s = "snd (snd (start plain_config (quiet_at 0) (fresh_scheduler ''idle'')))"
  have "row_ok plain_config (default_row\<lparr>sr_currentTier := ''idle''\<rparr>)" by code_simp
  moreover have "sd_row ?init = Some (default_row\<lparr>sr_currentTier := ''idle''\<rparr>)" "\<not> sd_handler ?init" "sd_job ?init = None"
    by (simp_all add: fresh_scheduler_def)
  moreover have "sched_reach plain_config ?init ?s"
    by (rule sched_reach.further [OF sched_reach.here sched_step.started])
  ultimately have "sd_job ?s = (if sd_handler ?s then Some (patternFor plain_config (sd_cachedTier ?s)) else None)"
    using scheduler_well_formed [OF plain_config_ok] by blast
  moreover have "sd_handler ?s" "patternFor plain_config (sd_cachedTier ?s) = ''0 * * * *''" by code_simp+
  ultimately show ?thesis by simp
qed

theorem slows_down_after_quiet_ticks_witness:
  "map_option sr_currentTier (sd_row (run_evaluations plain_config [quiet_at 0] (fresh_scheduler ''active''))) = Some ''active''
   \<and> map_option sr_currentTier (sd_row (run_evaluations plain_config [quiet_at 0, quiet_at 1] (fresh_scheduler ''active'')))
       = Some ''dormant''"
proof -
  let ?init = "fresh_scheduler ''active''"
  have a: "map_option sr_currentTier (sd_row (run_evaluations plain_config [quiet_at 0] ?init)) = Some ''active''"
    "map_option sr_currentTier (sd_row (run_evaluations plain_config ([quiet_at 0] @ [quiet_at 1]) ?init)) = Some ''dormant''"
    by code_simp+
  then obtain r1 r2 where r: "sd_row (run_evaluations plain_config [quiet_at 0] ?init) = Some r1" "sr_currentTier r1 = ''active''"
    "sd_row (run_evaluations plain_config ([quiet_at 0] @ [quiet_at 1]) ?init) = Some r2" "sr_currentTier r2 = ''dormant''"
    by auto
  have t: "tier_of (Some (sr_currentTier r1)) = Some Active" "tier_of (Some (sr_currentTier r2)) = Some Dormant"
    using r by (simp_all add: tier_of_def)
  have s: "1 \<le> cfg_hysteresisTicks plain_config" "sd_row ?init = Some (default_row\<lparr>sr_currentTier := ''active''\<rparr>)"
    "sr_pinnedUntil (default_row\<lparr>sr_currentTier := ''active''\<rparr>) = None"
    "sr_currentTier (default_row\<lparr>sr_currentTier := ''active''\<rparr>) = tier_str Active"
    "sr_consecutiveIdleTicks (default_row\<lparr>sr_currentTier := ''active''\<rparr>) = 0"
    by (simp_all add: plain_config_def fresh_scheduler_def default_row_def)
  from slows_down_after_quiet_ticks [OF s r(1) t(1) r(3) t(2)] a show ?thesis by (simp add: less_sync_tier_def)
qed

end
