(* ===== verification/Worker.thy ===== *)
theory Worker
  imports SyncRun Scheduler
begin

text \<open>
  The sync worker (\<open>sync-worker.ts\<close>): the handler the scheduler fires and the trigger that
  arrives over the database channel. It composes \<open>runSync\<close> with the re-evaluation of the
  cadence; the run id of the result ends up in the log rows of the scheduler.
\<close>

record sync_worker =
  wk_isSyncing :: bool
  wk_db :: sync_db
  wk_sched :: scheduler

text \<open>
  \<open>handleSync\<close>: the result (none when the run was skipped or failed), the worker afterwards
  and the effects of the run. An exception of the evaluation is caught.
\<close>

definition handleSync ::
  "sched_config \<Rightarrow> sync_env \<Rightarrow> sched_env \<Rightarrow> sync_worker \<Rightarrow> sync_result option \<times> sync_worker \<times> sync_effects"
where
  "handleSync c env e w =
     (if wk_isSyncing w then (None, w, no_effects)
      else
        (let (out, d, eff) = runSync env (wk_db w);
             result = (case out of Inl msg \<Rightarrow> None | Inr r \<Rightarrow> Some r);
             (ev, logs, s) = evaluateAndReschedule c e (map_option res_syncRunId result) (wk_sched w)
         in (result,
             w\<lparr>wk_isSyncing := False, wk_db := d\<lparr>runLogs := runLogs d @ logs\<rparr>, wk_sched := s\<rparr>, eff)))"

text \<open>A notification on the channel: the tier goes up first, then the handler runs.\<close>

definition sync_trigger ::
  "sched_config \<Rightarrow> sync_env \<Rightarrow> sched_env \<Rightarrow> sync_worker \<Rightarrow> sync_result option \<times> sync_worker \<times> sync_effects"
where
  "sync_trigger c env e w =
     handleSync c env e (w\<lparr>wk_sched := snd (onActivityDetected c e (wk_sched w))\<rparr>)"

text \<open>
  A tick of the worker always re-arms it: whether the sync run returns or throws, no
  running row of its own is left in the table, the busy flag is clear, the scheduler is
  well-formed with the timer of the tier it has just stored, and a run that produced a
  result is logged with its decision.
\<close>

theorem tick_rearms:
  assumes "config_ok c" "sched_ok c (wk_sched w)" "sd_handler (wk_sched w)" "\<not> wk_isSyncing w"
    and "runs_ok (wk_db w)" "length (running_ids (wk_db w)) \<le> 1"
    and "fst (getRunningSync (env_now env) (wk_db w)) = None" "handleSync c env e w = (res, w', eff)"
  shows "\<not> wk_isSyncing w' \<and> running_ids (wk_db w') = [] \<and> runs_ok (wk_db w') \<and> sched_ok c (wk_sched w')
    \<and> (\<exists>t r. sd_job (wk_sched w') = Some (patternFor c t) \<and> sd_row (wk_sched w') = Some r
         \<and> sr_currentTier r = tier_str t \<and> sd_cachedTier (wk_sched w') = t)
    \<and> (\<forall>r. res = Some r \<and> res_syncRunId r > 0 \<longrightarrow> runLogs (wk_db w') \<noteq> []
         \<and> log_segment (last (runLogs (wk_db w'))) = ''scheduling''
         \<and> log_syncRunId (last (runLogs (wk_db w'))) = res_syncRunId r)"
proof -
  obtain out d eff1 where run: "runSync env (wk_db w) = (out, d, eff1)" by (metis prod_cases3)
  define i where "i = map_option res_syncRunId (case out of Inl msg \<Rightarrow> None | Inr r \<Rightarrow> Some r)"
  obtain ev logs s where ev: "evaluateAndReschedule c e i (wk_sched w) = (ev, logs, s)" by (metis prod_cases3)
  have w': "w' = w\<lparr>wk_isSyncing := False, wk_db := d\<lparr>runLogs := runLogs d @ logs\<rparr>, wk_sched := s\<rparr>"
    "i = map_option res_syncRunId res"
    using assms(4, 8) run ev by (auto simp: handleSync_def i_def)
  from runSync_lock [OF assms(5, 6) run] assms(7) have lock: "runs_ok d" "running_ids d = []" by simp_all
  have frame: "runs_ok (d\<lparr>runLogs := l\<rparr>) = runs_ok d" "running_ids (d\<lparr>runLogs := l\<rparr>) = running_ids d" for l
    by (simp_all add: runs_ok_def running_ids_def run_status_def)
  note ok = evaluate_ok [OF assms(1, 2), of e i, unfolded ev fst_conv snd_conv]
  then obtain evl r where e1: "ev = Some evl" "sd_cachedTier s = el_newTier evl" "sd_row s = Some r"
    "sr_currentTier r = tier_str (el_newTier evl)" by blast
  have job: "sd_job s = Some (patternFor c (el_newTier evl))"
    using ok(1, 3) assms(3) e1 by (simp add: sched_ok_def timer_ok_def)
  have logs: "logs = logTransitionIfChanged (se_db e) evl i"
    using ev e1(1) by (auto simp: evaluateAndReschedule_def conclude_def Let_def
        split: option.splits prod.splits if_splits)
  show ?thesis
    using lock ok(1) job e1 by (auto simp: w' frame logs logTransitionIfChanged_def)
qed

definition idle_worker :: sync_worker where
  "idle_worker = \<lparr>wk_isSyncing = False, wk_db = sample_db,
     wk_sched = snd (snd (start plain_config (quiet_at 0) (fresh_scheduler ''idle'')))\<rparr>"

theorem tick_rearms_witness:
  "\<exists>w'. fst (snd (handleSync plain_config (sample_env [tx_of 7 ''A'' 1000 13500] (\<lambda>i a. Acked)) (quiet_at 1) idle_worker)) = w'
     \<and> running_ids (wk_db w') = [] \<and> log_segment (last (runLogs (wk_db w'))) = ''scheduling''"
proof -
  let ?env = "sample_env [tx_of 7 ''A'' 1000 13500] (\<lambda>i a. Acked)"
  obtain res w' eff where h: "handleSync plain_config ?env (quiet_at 1) idle_worker = (res, w', eff)" by (metis prod_cases3)
  have s: "sched_ok plain_config (wk_sched idle_worker)" "sd_handler (wk_sched idle_worker)" "\<not> wk_isSyncing idle_worker"
    "wk_db idle_worker = sample_db"
    by code_simp+
  have "res_syncRunId (the (fst (handleSync plain_config ?env (quiet_at 1) idle_worker))) = 1
      \<and> fst (handleSync plain_config ?env (quiet_at 1) idle_worker) \<noteq> None" by code_simp
  then obtain r where r: "res = Some r" "res_syncRunId r > 0" using h by auto
  have db: "runs_ok (wk_db idle_worker)" "length (running_ids (wk_db idle_worker)) \<le> 1"
    "fst (getRunningSync (env_now ?env) (wk_db idle_worker)) = None"
    using s(4) by (simp_all add: sample_ok sample_free)
  from tick_rearms [OF plain_config_ok s(1-3) db h] r h show ?thesis by simp
qed

end
