(* ===== verification/Reservations.thy ===== *)
theory Reservations
  imports Mappings
begin

text \<open>
  Reservations (\<open>src/services/reservation.service.ts\<close>) and their resolver
  (\<open>reservation-resolver.service.ts\<close>): booking with the conflict check, the answer of the
  charger, cancelling, moving, listing, suggestions and the two side channels that settle a
  pending row. Dates are milliseconds and always valid; StEvE answers through arguments.
\<close>

section \<open>State\<close>

datatype reservation_status =
  RPending | RConfirmed | RActive | RCompleted | RCancelled | RConflicted | ROrphaned

record reservation =
  rv_id :: int
  rv_chargeBoxId :: string
  rv_connectorId :: int
  rv_tagPk :: int
  rv_idTag :: string
  rv_subscription :: "string option"
  rv_startAt :: int
  rv_endAt :: int
  rv_durationMinutes :: int
  rv_status :: reservation_status
  rv_steveReservationId :: "int option"
  rv_profileTaskId :: "int option"
  rv_createdBy :: "string option"
  rv_updatedAt :: int
  rv_cancelledAt :: "int option"

record reservation_db =
  rd_rows :: "reservation list"
  rd_nextId :: int
  rd_mappings :: "user_mapping list"
  rd_chargers :: "(string \<times> string option) list"

record conflict_row =
  cr_id :: int
  cr_startAt :: int
  cr_endAt :: int
  cr_status :: reservation_status
  cr_idTag :: string

definition BLOCKING_STATUSES :: "reservation_status list" where
  "BLOCKING_STATUSES = [RPending, RConfirmed, RActive]"

abbreviation blocking :: "reservation \<Rightarrow> bool" where
  "blocking r \<equiv> rv_status r \<in> set BLOCKING_STATUSES"

section \<open>Booking\<close>

definition conflict_where :: "string \<Rightarrow> int \<Rightarrow> int \<Rightarrow> int \<Rightarrow> int option \<Rightarrow> reservation \<Rightarrow> bool" where
  "conflict_where box conn st en excl r \<longleftrightarrow>
     rv_chargeBoxId r = box \<and> (conn = 0 \<or> rv_connectorId r = conn \<or> rv_connectorId r = 0)
     \<and> blocking r \<and> rv_startAt r < en \<and> rv_endAt r > st
     \<and> (case excl of None \<Rightarrow> True | Some i \<Rightarrow> rv_id r \<noteq> i)"

definition checkConflicts ::
  "string \<Rightarrow> int \<Rightarrow> int \<Rightarrow> int \<Rightarrow> int option \<Rightarrow> reservation_db \<Rightarrow> string + conflict_row list"
where
  "checkConflicts box conn st en excl d =
     (if \<not> en > st then Inl ''endAt must be strictly greater than startAt''
      else Inr (map (\<lambda>r. \<lparr>cr_id = rv_id r, cr_startAt = rv_startAt r, cr_endAt = rv_endAt r,
                         cr_status = rv_status r, cr_idTag = rv_idTag r\<rparr>)
                  (sort_key rv_startAt (filter (conflict_where box conn st en excl) (rd_rows d)))))"

record reservation_input =
  ri_chargeBoxId :: string
  ri_connectorId :: int
  ri_tagPk :: int
  ri_idTag :: string
  ri_subscription :: "string option"
  ri_startAt :: int
  ri_endAt :: int
  ri_createdBy :: "string option"
  ri_force :: bool

datatype create_outcome = Refused "conflict_row list" | Created reservation

definition duration_minutes :: "int \<Rightarrow> int \<Rightarrow> int" where
  "duration_minutes st en = max 1 (js_round (of_int (en - st) / 60000))"

text \<open>\<open>createReservation\<close> up to the insert.\<close>

definition book :: "int \<Rightarrow> reservation_input \<Rightarrow> reservation_db \<Rightarrow> (string + create_outcome) \<times> reservation_db" where
  "book now inp d =
     (if \<not> ri_endAt inp > ri_startAt inp then (Inl ''endAt must be strictly greater than startAt'', d)
      else case (if ri_force inp then Inr []
                 else checkConflicts (ri_chargeBoxId inp) (ri_connectorId inp) (ri_startAt inp) (ri_endAt inp) None d) of
        Inl msg \<Rightarrow> (Inl msg, d)
      | Inr cs \<Rightarrow>
          if cs \<noteq> [] then (Inr (Refused cs), d)
          else (let r = \<lparr>rv_id = rd_nextId d, rv_chargeBoxId = ri_chargeBoxId inp, rv_connectorId = ri_connectorId inp,
                         rv_tagPk = ri_tagPk inp, rv_idTag = ri_idTag inp, rv_subscription = ri_subscription inp,
                         rv_startAt = ri_startAt inp, rv_endAt = ri_endAt inp,
                         rv_durationMinutes = duration_minutes (ri_startAt inp) (ri_endAt inp), rv_status = RPending,
                         rv_steveReservationId = None, rv_profileTaskId = None, rv_createdBy = ri_createdBy inp,
                         rv_updatedAt = now, rv_cancelledAt = None\<rparr>
                in (Inr (Created r), d\<lparr>rd_rows := rd_rows d @ [r], rd_nextId := rd_nextId d + 1\<rparr>)))"

text \<open>An \<open>UPDATE ... WHERE id = i RETURNING\<close>: the updated row, if there is one.\<close>

definition update_row :: "int \<Rightarrow> (reservation \<Rightarrow> reservation) \<Rightarrow> reservation_db \<Rightarrow> reservation option \<times> reservation_db" where
  "update_row i f d =
     (let d' = d\<lparr>rd_rows := map (\<lambda>r. if rv_id r = i then f r else r) (rd_rows d)\<rparr>
      in (find (\<lambda>r. rv_id r = i) (rd_rows d'), d'))"

text \<open>The charging-profile hook: the task it started, or none.\<close>

definition attach_profile :: "int option \<Rightarrow> int \<Rightarrow> reservation \<Rightarrow> reservation_db \<Rightarrow> reservation \<times> reservation_db" where
  "attach_profile task now r d =
     (case task of
        None \<Rightarrow> (r, d)
      | Some t \<Rightarrow>
          (case update_row (rv_id r) (\<lambda>x. x\<lparr>rv_profileTaskId := Some t, rv_updatedAt := now\<rparr>) d of
             (u, d') \<Rightarrow> (case u of None \<Rightarrow> r | Some x \<Rightarrow> x, d')))"

text \<open>
  The answer to ReserveNow: the task id (\<open>None\<close>: NaN, which the integer column rejects),
  whether the task finished, and the responses per charge box.
\<close>

record reserve_answer =
  ra_taskId :: "int option"
  ra_taskFinished :: "bool option"
  ra_success :: "(string \<times> string option) list"
  ra_errors :: "string list"
  ra_exceptions :: "string list"

definition answer_status :: "reserve_answer \<Rightarrow> string \<Rightarrow> reservation_status option" where
  "answer_status a box =
     (case find (\<lambda>(b, r). b = box) (ra_success a) of
        Some (b, r) \<Rightarrow>
          Some (if to_upper (case r of None \<Rightarrow> [] | Some s \<Rightarrow> s) = ''ACCEPTED'' then RConfirmed else RConflicted)
      | None \<Rightarrow>
          if box \<in> set (ra_errors a) \<or> box \<in> set (ra_exceptions a) then Some RConflicted else None)"

definition reserve_reply :: "reserve_answer option \<Rightarrow> int \<Rightarrow> reservation \<Rightarrow> reservation_db \<Rightarrow> reservation \<times> reservation_db" where
  "reserve_reply ans now r d =
     (case ans of
        None \<Rightarrow> (r, d)
      | Some a \<Rightarrow>
          (case ra_taskId a of
             None \<Rightarrow> (r, d)
           | Some t \<Rightarrow>
               (case update_row (rv_id r)
                       (\<lambda>x. x\<lparr>rv_updatedAt := now, rv_steveReservationId := Some t,
                             rv_status := (case answer_status a (rv_chargeBoxId r) of None \<Rightarrow> rv_status x | Some s \<Rightarrow> s)\<rparr>) d of
                  (u, d') \<Rightarrow> (case u of None \<Rightarrow> r | Some x \<Rightarrow> x, d'))))"

definition createReservation ::
  "int \<Rightarrow> int option \<Rightarrow> reserve_answer option \<Rightarrow> reservation_input \<Rightarrow> reservation_db
     \<Rightarrow> (string + create_outcome) \<times> reservation_db"
where
  "createReservation now task ans inp d =
     (case book now inp d of
        (Inr (Created r), d1) \<Rightarrow>
          (let (r1, d2) = attach_profile task now r d1; (r2, d3) = reserve_reply ans now r1 d2
           in (Inr (Created r2), d3))
      | other \<Rightarrow> other)"

section \<open>Cancelling and moving\<close>

record reservation_notice =
  rn_title :: string
  rn_body :: string
  rn_sourceId :: string
  rn_userId :: string
  rn_startAt :: int
  rn_endAt :: int
  rn_reason :: "string option"

definition notifyReservationCancelled ::
  "(int \<Rightarrow> string) \<Rightarrow> bool \<Rightarrow> reservation \<Rightarrow> string option \<Rightarrow> reservation_db \<Rightarrow> reservation_notice list"
where
  "notifyReservationCancelled date stored r reason d =
     (case find (\<lambda>m. steveOcppTagPk m = rv_tagPk r) (rd_mappings d) of
        None \<Rightarrow> []
      | Some m \<Rightarrow>
          if \<not> truthy (userId m) \<or> \<not> stored then []
          else
            (let name = (case find (\<lambda>(b, n). b = rv_chargeBoxId r) (rd_chargers d) of
                           Some (b, Some n) \<Rightarrow> n | _ \<Rightarrow> rv_chargeBoxId r);
                 text = ''Your reservation at '' @ name @ '' on '' @ date (rv_startAt r) @ '' was cancelled.''
             in [\<lparr>rn_title = ''Reservation cancelled'',
                  rn_body = (if truthy reason then text @ '' Reason: '' @ the reason else text),
                  rn_sourceId = show_int (rv_id r), rn_userId = the (userId m),
                  rn_startAt = rv_startAt r, rn_endAt = rv_endAt r, rn_reason = reason\<rparr>]))"

text \<open>The row returned, the calls to StEvE and the notifications.\<close>

definition cancelReservation ::
  "(int \<Rightarrow> string) \<Rightarrow> bool \<Rightarrow> int \<Rightarrow> int \<Rightarrow> string option \<Rightarrow> reservation_db
     \<Rightarrow> reservation option \<times> (string \<times> int) list \<times> reservation_notice list \<times> reservation_db"
where
  "cancelReservation date stored now i reason d =
     (case find (\<lambda>r. rv_id r = i) (rd_rows d) of
        None \<Rightarrow> (None, [], [], d)
      | Some e \<Rightarrow>
          if rv_status e = RCancelled then (Some e, [], [], d)
          else
            (let calls = (case rv_steveReservationId e of
                            Some t \<Rightarrow> if rv_status e \<in> {RPending, RConfirmed} then [(rv_chargeBoxId e, t)] else []
                          | None \<Rightarrow> []);
                 (u, d') = update_row i (\<lambda>x. x\<lparr>rv_status := RCancelled, rv_cancelledAt := Some now, rv_updatedAt := now\<rparr>) d;
                 r = (case u of None \<Rightarrow> e | Some x \<Rightarrow> x)
             in (Some r, calls, notifyReservationCancelled date stored r reason d', d')))"

definition rescheduleReservation ::
  "int \<Rightarrow> int \<Rightarrow> int \<Rightarrow> int \<Rightarrow> bool \<Rightarrow> reservation_db
     \<Rightarrow> (string + reservation option \<times> conflict_row list) \<times> reservation_db"
where
  "rescheduleReservation now i st en force d =
     (if \<not> en > st then (Inl ''endAt must be strictly greater than startAt'', d)
      else case find (\<lambda>r. rv_id r = i) (rd_rows d) of
        None \<Rightarrow> (Inr (None, []), d)
      | Some e \<Rightarrow>
          (case (if force then Inr [] else checkConflicts (rv_chargeBoxId e) (rv_connectorId e) st en (Some i) d) of
             Inl msg \<Rightarrow> (Inl msg, d)
           | Inr cs \<Rightarrow>
               if cs \<noteq> [] then (Inr (None, cs), d)
               else (let (u, d') = update_row i (\<lambda>x. x\<lparr>rv_startAt := st, rv_endAt := en,
                                       rv_durationMinutes := duration_minutes st en, rv_updatedAt := now\<rparr>) d
                     in (Inr (u, []), d'))))"

definition bulkCancelFutureReservationsForUser :: "int \<Rightarrow> string \<Rightarrow> reservation_db \<Rightarrow> nat \<times> reservation_db" where
  "bulkCancelFutureReservationsForUser now user d =
     (if user = [] then (0, d)
      else
        (let tagPks = map steveOcppTagPk (filter (\<lambda>m. userId m = Some user) (rd_mappings d)) in
         if tagPks = [] then (0, d)
         else
           (let hit = (\<lambda>r. rv_tagPk r \<in> set tagPks \<and> rv_endAt r \<ge> now \<and> rv_status r \<in> {RPending, RConfirmed, RActive})
            in (length (filter hit (rd_rows d)),
                d\<lparr>rd_rows := map (\<lambda>r. if hit r then r\<lparr>rv_status := RCancelled, rv_cancelledAt := Some now, rv_updatedAt := now\<rparr>
                                       else r) (rd_rows d)\<rparr>))))"

section \<open>Lists and suggestions\<close>

record list_options =
  lo_limit :: "int option"
  lo_statuses :: "reservation_status list option"
  lo_upcomingOnly :: "bool option"

definition list_limit :: "list_options \<Rightarrow> int" where
  "list_limit o1 = max 1 (min (case lo_limit o1 of None \<Rightarrow> 50 | Some n \<Rightarrow> n) 500)"

text \<open>The where clause shared by the three lists.\<close>

definition list_where :: "int \<Rightarrow> list_options \<Rightarrow> reservation \<Rightarrow> bool" where
  "list_where now o1 r \<longleftrightarrow>
     (case lo_statuses o1 of None \<Rightarrow> True | Some ss \<Rightarrow> ss = [] \<or> rv_status r \<in> set ss)
     \<and> (lo_upcomingOnly o1 = Some True \<longrightarrow> rv_endAt r \<ge> now)"

definition listUpcomingByCharger :: "int \<Rightarrow> string \<Rightarrow> list_options \<Rightarrow> reservation_db \<Rightarrow> reservation list" where
  "listUpcomingByCharger now box o1 d =
     take (nat (list_limit o1))
       (sort_key rv_startAt (filter (\<lambda>r. rv_chargeBoxId r = box \<and> list_where now o1 r) (rd_rows d)))"

definition listByTag :: "int \<Rightarrow> int \<Rightarrow> list_options \<Rightarrow> reservation_db \<Rightarrow> reservation list" where
  "listByTag now pk o1 d =
     take (nat (list_limit o1))
       (sort_key (\<lambda>r. - rv_startAt r) (filter (\<lambda>r. rv_tagPk r = pk \<and> list_where now o1 r) (rd_rows d)))"

definition listBySubscription :: "int \<Rightarrow> string \<Rightarrow> list_options \<Rightarrow> reservation_db \<Rightarrow> reservation list" where
  "listBySubscription now sub o1 d =
     take (nat (list_limit o1))
       (sort_key (\<lambda>r. - rv_startAt r) (filter (\<lambda>r. rv_subscription r = Some sub \<and> list_where now o1 r) (rd_rows d)))"

text \<open>The loop over the candidate starts, with the suggestions found so far.\<close>

fun suggest_loop ::
  "string \<Rightarrow> int \<Rightarrow> int \<Rightarrow> int \<Rightarrow> reservation_db \<Rightarrow> (int \<times> int) list \<Rightarrow> int list \<Rightarrow> (int \<times> int) list"
where
  "suggest_loop box conn dur cutoff d acc [] = acc"
| "suggest_loop box conn dur cutoff d acc (c # cs) =
     (if length acc \<ge> 2 then acc
      else if c > cutoff then acc
      else case checkConflicts box conn c (c + dur) None d of
        Inr [] \<Rightarrow> suggest_loop box conn dur cutoff d (acc @ [(c, c + dur)]) cs
      | _ \<Rightarrow> suggest_loop box conn dur cutoff d acc cs)"

definition suggestAlternatives ::
  "string \<Rightarrow> int \<Rightarrow> int \<Rightarrow> int \<Rightarrow> conflict_row list \<Rightarrow> reservation_db \<Rightarrow> (int \<times> int) list"
where
  "suggestAlternatives box conn st en cs d =
     (let dur = en - st in
      if dur \<le> 0 then []
      else suggest_loop box conn dur (st + 24 * 60 * 60 * 1000) d [] (sort (map cr_endAt cs)))"

section \<open>The resolver\<close>

definition POLL_BATCH_LIMIT :: nat where "POLL_BATCH_LIMIT = 50"

record task_status =
  tk_finished :: "bool option"
  tk_errors :: nat
  tk_exceptions :: nat

text \<open>The answer of \<open>getTask\<close>: it throws, has no such task, or returns a status.\<close>

datatype task_answer = TaskThrows | NoTask | Task task_status

definition resolveOne ::
  "task_answer \<Rightarrow> int \<Rightarrow> int \<Rightarrow> reservation_db \<Rightarrow> reservation_status option \<times> reservation_db"
where
  "resolveOne ans now i d =
     (case ans of
        Task t \<Rightarrow>
          if tk_finished t \<noteq> Some True then (None, d)
          else
            (let s = (if tk_errors t + tk_exceptions t > 0 then RConflicted else RConfirmed)
             in (Some s, d\<lparr>rd_rows := map (\<lambda>r. if rv_id r = i \<and> rv_status r = RPending
                     then r\<lparr>rv_status := s, rv_updatedAt := now\<rparr> else r) (rd_rows d)\<rparr>))
      | _ \<Rightarrow> (None, d))"

definition pending_tasks :: "int \<Rightarrow> reservation_db \<Rightarrow> (int \<times> int) list" where
  "pending_tasks now d = take POLL_BATCH_LIMIT
     (List.map_filter (\<lambda>r. if rv_status r = RPending \<and> rv_endAt r > now
        then map_option (Pair (rv_id r)) (rv_steveReservationId r) else None) (rd_rows d))"

text \<open>Polled, confirmed and conflicted rows.\<close>

definition resolvePendingReservations ::
  "(int \<Rightarrow> task_answer) \<Rightarrow> int \<Rightarrow> reservation_db \<Rightarrow> (nat \<times> nat \<times> nat) \<times> reservation_db"
where
  "resolvePendingReservations getTask now d =
     (let rows = pending_tasks now d in
      case fold (\<lambda>(i, t) ((ok, bad), d).
             (case resolveOne (getTask t) now i d of
                (Some RConfirmed, d') \<Rightarrow> ((ok + 1, bad), d')
              | (Some RConflicted, d') \<Rightarrow> ((ok, bad + 1), d')
              | (_, d') \<Rightarrow> ((ok, bad), d'))) rows ((0, 0), d) of
        ((ok, bad), d') \<Rightarrow> ((length rows, ok, bad), d'))"

definition tryConfirmFromStatusNotification :: "int \<Rightarrow> string \<Rightarrow> int \<Rightarrow> reservation_db \<Rightarrow> reservation_db" where
  "tryConfirmFromStatusNotification now box conn d =
     d\<lparr>rd_rows := map (\<lambda>r. if rv_status r = RPending \<and> rv_chargeBoxId r = box \<and> rv_connectorId r = conn \<and> rv_endAt r > now
          then r\<lparr>rv_status := RConfirmed, rv_updatedAt := now\<rparr> else r) (rd_rows d)\<rparr>"

section \<open>The DTO of the sibling pages\<close>

record reservation_dto =
  rt_id :: int
  rt_chargeBoxId :: string
  rt_friendlyName :: "string option"
  rt_connectorId :: int
  rt_tagPk :: int
  rt_idTag :: string
  rt_startAt :: int
  rt_endAt :: int
  rt_status :: reservation_status
  rt_subscription :: "string option"
  rt_profileTaskId :: "int option"

definition toReservationRowDTO :: "reservation \<Rightarrow> reservation_dto" where
  "toReservationRowDTO r = \<lparr>rt_id = rv_id r, rt_chargeBoxId = rv_chargeBoxId r, rt_friendlyName = None,
     rt_connectorId = rv_connectorId r, rt_tagPk = rv_tagPk r, rt_idTag = rv_idTag r, rt_startAt = rv_startAt r,
     rt_endAt = rv_endAt r, rt_status = rv_status r, rt_subscription = rv_subscription r,
     rt_profileTaskId = rv_profileTaskId r\<rparr>"

text \<open>\<open>ok\<close>: whether the query succeeds.\<close>

definition enrichDtosWithFriendlyNames :: "bool \<Rightarrow> reservation_db \<Rightarrow> reservation_dto list \<Rightarrow> reservation_dto list" where
  "enrichDtosWithFriendlyNames ok d rows =
     (if rows = [] \<or> \<not> ok then rows
      else
        (let byCbid = map_from fst (filter (\<lambda>c. fst c \<in> rt_chargeBoxId ` set rows) (rd_chargers d))
         in map (\<lambda>r. r\<lparr>rt_friendlyName := (case map_of byCbid (rt_chargeBoxId r) of None \<Rightarrow> None | Some c \<Rightarrow> snd c)\<rparr>) rows))"


section \<open>No double booking\<close>

text \<open>Two bookings claim the same plug; connector 0 is the whole charger.\<close>

definition same_plug :: "reservation \<Rightarrow> reservation \<Rightarrow> bool" where
  "same_plug r s \<longleftrightarrow> rv_chargeBoxId r = rv_chargeBoxId s
     \<and> (rv_connectorId r = 0 \<or> rv_connectorId s = 0 \<or> rv_connectorId r = rv_connectorId s)"

text \<open>Half-open windows without a common instant.\<close>

definition apart :: "reservation \<Rightarrow> reservation \<Rightarrow> bool" where
  "apart r s \<longleftrightarrow> rv_endAt r \<le> rv_startAt s \<or> rv_endAt s \<le> rv_startAt r"

lemma same_plug_sym: "same_plug r s = same_plug s r" and apart_sym: "apart r s = apart s r"
  by (auto simp: same_plug_def apart_def)

definition compatible :: "reservation \<Rightarrow> reservation \<Rightarrow> bool" where
  "compatible r s \<longleftrightarrow> (blocking r \<and> blocking s \<and> same_plug r s \<longrightarrow> apart r s)"

lemma compatible_sym: "compatible r s = compatible s r"
  by (auto simp: compatible_def same_plug_sym apart_sym)

definition reservations_ok :: "reservation_db \<Rightarrow> bool" where
  "reservations_ok d \<longleftrightarrow> distinct (map rv_id (rd_rows d))
     \<and> (\<forall>r \<in> set (rd_rows d). rv_id r < rd_nextId d \<and> rv_startAt r < rv_endAt r)
     \<and> (\<forall>r \<in> set (rd_rows d). \<forall>s \<in> set (rd_rows d). rv_id r \<noteq> rv_id s \<longrightarrow> compatible r s)"

text \<open>An update in place that moves nothing and blocks nothing new.\<close>

definition settles :: "(reservation \<Rightarrow> reservation) \<Rightarrow> reservation_db \<Rightarrow> bool" where
  "settles g d \<longleftrightarrow> (\<forall>r \<in> set (rd_rows d). rv_id (g r) = rv_id r \<and> rv_chargeBoxId (g r) = rv_chargeBoxId r
     \<and> rv_connectorId (g r) = rv_connectorId r \<and> rv_startAt (g r) = rv_startAt r \<and> rv_endAt (g r) = rv_endAt r
     \<and> (blocking (g r) \<longrightarrow> blocking r))"

lemma settles_ok:
  assumes "reservations_ok d" "settles g d"
  shows "reservations_ok (d\<lparr>rd_rows := map g (rd_rows d)\<rparr>)"
proof -
  have g: "rv_id (g r) = rv_id r" "rv_startAt (g r) = rv_startAt r" "rv_endAt (g r) = rv_endAt r"
    if "r \<in> set (rd_rows d)" for r using assms(2) that by (auto simp: settles_def)
  have "map rv_id (map g (rd_rows d)) = map rv_id (rd_rows d)" using g(1) by simp
  moreover have "compatible (g r) (g s)"
    if "r \<in> set (rd_rows d)" "s \<in> set (rd_rows d)" "compatible r s" for r s
    using assms(2) that unfolding settles_def compatible_def same_plug_def apart_def by auto
  ultimately show ?thesis using assms(1) g by (simp add: reservations_ok_def del: map_map)
qed

lemma update_row_ok:
  assumes "reservations_ok d" "settles (\<lambda>r. if rv_id r = i then f r else r) d"
  shows "reservations_ok (snd (update_row i f d))"
  using settles_ok [OF assms] by (simp add: update_row_def Let_def)

lemma checkConflicts_free:
  assumes "checkConflicts box conn st en excl d = Inr []"
  shows "st < en" "\<And>r. r \<in> set (rd_rows d) \<Longrightarrow> \<not> conflict_where box conn st en excl r"
  using assms by (auto simp: checkConflicts_def filter_empty_conv split: if_splits)

text \<open>A window the check finds free is compatible with every other row.\<close>

lemma free_compatible:
  assumes "\<not> conflict_where (rv_chargeBoxId r) (rv_connectorId r) (rv_startAt r) (rv_endAt r) excl s"
    and "\<And>i. excl = Some i \<Longrightarrow> rv_id s \<noteq> i"
  shows "compatible r s"
  using assms by (cases excl) (auto simp: conflict_where_def compatible_def same_plug_def apart_def not_less)

lemma book_cases:
  assumes "book now inp d = (out, d')" "\<not> ri_force inp"
  obtains (same) "d' = d" "\<forall>r. out \<noteq> Inr (Created r)"
  | (added) r where "out = Inr (Created r)" "d' = d\<lparr>rd_rows := rd_rows d @ [r], rd_nextId := rd_nextId d + 1\<rparr>"
      "rv_id r = rd_nextId d" "rv_status r = RPending" "rv_startAt r < rv_endAt r"
      "\<And>s. s \<in> set (rd_rows d) \<Longrightarrow>
         \<not> conflict_where (rv_chargeBoxId r) (rv_connectorId r) (rv_startAt r) (rv_endAt r) None s"
proof (cases "checkConflicts (ri_chargeBoxId inp) (ri_connectorId inp) (ri_startAt inp) (ri_endAt inp) None d = Inr []
    \<and> ri_endAt inp > ri_startAt inp")
  case True
  then have free: "checkConflicts (ri_chargeBoxId inp) (ri_connectorId inp) (ri_startAt inp) (ri_endAt inp) None d = Inr []"
    and w: "ri_endAt inp > ri_startAt inp" by blast+
  note cf = checkConflicts_free [OF free]
  show thesis
    by (rule added) (use assms free w cf in \<open>auto simp: book_def Let_def\<close>)
next
  case False
  then show thesis
    using assms same by (auto simp: book_def Let_def split: if_splits sum.splits)
qed

lemma append_row_ok:
  assumes "reservations_ok d" "rv_id r = rd_nextId d" "rv_startAt r < rv_endAt r"
    and "\<And>s. s \<in> set (rd_rows d) \<Longrightarrow> compatible r s"
  shows "reservations_ok (d\<lparr>rd_rows := rd_rows d @ [r], rd_nextId := rd_nextId d + 1\<rparr>)"
proof -
  have "compatible s r" if "s \<in> set (rd_rows d)" for s using assms(4) [OF that] compatible_sym by simp
  moreover have "rd_nextId d \<notin> rv_id ` set (rd_rows d)" using assms(1) by (auto simp: reservations_ok_def)
  ultimately show ?thesis using assms by (simp add: reservations_ok_def ball_Un)
      (use assms(1) in \<open>fastforce simp: reservations_ok_def\<close>)
qed

lemma book_ok:
  assumes "reservations_ok d" "book now inp d = (out, d')" "\<not> ri_force inp"
  shows "reservations_ok d'"
  using assms(2, 3)
proof (cases rule: book_cases)
  case same
  then show ?thesis using assms(1) by simp
next
  case (added r)
  have "compatible r s" if "s \<in> set (rd_rows d)" for s
    by (rule free_compatible [OF added(6) [OF that]]) simp
  with append_row_ok [OF assms(1)] added show ?thesis by simp
qed


lemma find_row:
  assumes "reservations_ok d" "r \<in> set (rd_rows d)"
  shows "find (\<lambda>x. rv_id x = rv_id r) (rd_rows d) = Some r"
  using find_distinct [of rv_id "rd_rows d" r] assms by (simp add: reservations_ok_def)

lemma attach_profile_ok:
  assumes "reservations_ok d" "r \<in> set (rd_rows d)"
  shows "reservations_ok (snd (attach_profile task now r d))"
    "fst (attach_profile task now r d) \<in> set (rd_rows (snd (attach_profile task now r d)))"
    "rv_status (fst (attach_profile task now r d)) = rv_status r"
    "rv_id (fst (attach_profile task now r d)) = rv_id r"
proof -
  let ?f = "\<lambda>t x. x\<lparr>rv_profileTaskId := Some t, rv_updatedAt := now\<rparr>"
  have ok: "reservations_ok (snd (update_row (rv_id r) (?f t) d))" for t
    using assms(1) by (intro update_row_ok) (simp_all add: settles_def)
  have "find (\<lambda>x. rv_id x = rv_id r) (rd_rows (snd (update_row (rv_id r) (?f t) d))) = Some (?f t r)" for t
    using find_row [OF ok, of "?f t r" t] assms(2) by (simp add: update_row_def Let_def image_iff) fastforce
  then have u: "fst (update_row (rv_id r) (?f t) d) = Some (?f t r)" for t
    by (simp add: update_row_def Let_def)
  have mem: "?f t r \<in> set (rd_rows (snd (update_row (rv_id r) (?f t) d)))" for t
    using assms(2) by (auto simp: update_row_def Let_def image_iff)
  show "reservations_ok (snd (attach_profile task now r d))"
    "fst (attach_profile task now r d) \<in> set (rd_rows (snd (attach_profile task now r d)))"
    "rv_status (fst (attach_profile task now r d)) = rv_status r"
    "rv_id (fst (attach_profile task now r d)) = rv_id r"
    using assms ok u mem by (simp_all add: attach_profile_def case_prod_beta split: option.split)
qed

lemma reserve_reply_ok:
  assumes "reservations_ok d" "r \<in> set (rd_rows d)" "blocking r"
  shows "reservations_ok (snd (reserve_reply ans now r d))"
proof -
  let ?f = "\<lambda>a t x. x\<lparr>rv_updatedAt := now, rv_steveReservationId := Some t,
     rv_status := (case answer_status a (rv_chargeBoxId r) of None \<Rightarrow> rv_status x | Some s \<Rightarrow> s)\<rparr>"
  have "x = r" if "x \<in> set (rd_rows d)" "rv_id x = rv_id r" for x
    using find_row [OF assms(1) that(1)] find_row [OF assms(1, 2)] that(2) by (metis option.inject)
  then have "blocking x" if "x \<in> set (rd_rows d)" "rv_id x = rv_id r" for x
    using that assms(3) by metis
  then have "settles (\<lambda>x. if rv_id x = rv_id r then ?f a t x else x) d" for a t
    by (simp add: settles_def)
  then have "reservations_ok (snd (update_row (rv_id r) (?f a t) d))" for a t
    by (intro update_row_ok [OF assms(1)])
  then show ?thesis using assms(1) by (simp add: reserve_reply_def case_prod_beta split: option.split)
qed

lemma createReservation_ok:
  assumes "reservations_ok d" "\<not> ri_force inp"
  shows "reservations_ok (snd (createReservation now task ans inp d))"
proof -
  obtain out d1 where b: "book now inp d = (out, d1)" by fastforce
  from book_ok [OF assms(1) b assms(2)] have d1: "reservations_ok d1" .
  from b assms(2) show ?thesis
  proof (cases rule: book_cases)
    case same
    then show ?thesis
      using b assms(1) by (cases "\<exists>cs. out = Inr (Refused cs)") (auto simp: createReservation_def split: sum.split create_outcome.split)
  next
    case (added r)
    then have r: "r \<in> set (rd_rows d1)" by simp
    note ap = attach_profile_ok [OF d1 r, of task now]
    have "blocking (fst (attach_profile task now r d1))" using ap(3) added(4) by (simp add: BLOCKING_STATUSES_def)
    from reserve_reply_ok [OF ap(1, 2) this] show ?thesis
      by (simp add: createReservation_def b added(1) Let_def case_prod_beta)
  qed
qed

lemma cancelReservation_ok:
  "reservations_ok d \<Longrightarrow> reservations_ok (snd (snd (snd (cancelReservation date stored now i reason d))))"
  using update_row_ok [of d i "\<lambda>x. x\<lparr>rv_status := RCancelled, rv_cancelledAt := Some now, rv_updatedAt := now\<rparr>"]
  by (simp add: cancelReservation_def settles_def BLOCKING_STATUSES_def Let_def case_prod_beta split: option.split)

lemma bulkCancel_ok:
  "reservations_ok d \<Longrightarrow> reservations_ok (snd (bulkCancelFutureReservationsForUser now user d))"
  by (auto simp: bulkCancelFutureReservationsForUser_def Let_def settles_def BLOCKING_STATUSES_def intro!: settles_ok)

lemma resolveOne_ok: "reservations_ok d \<Longrightarrow> reservations_ok (snd (resolveOne ans now i d))"
  by (cases ans) (auto simp: resolveOne_def Let_def settles_def BLOCKING_STATUSES_def intro!: settles_ok)

lemma resolvePending_ok: "reservations_ok d \<Longrightarrow> reservations_ok (snd (resolvePendingReservations getTask now d))"
proof -
  let ?step = "\<lambda>(i, t) ((ok, bad), d). (case resolveOne (getTask t) now i d of
                (Some RConfirmed, d') \<Rightarrow> ((ok + 1, bad), d')
              | (Some RConflicted, d') \<Rightarrow> ((ok, bad + 1), d')
              | (_, d') \<Rightarrow> ((ok :: nat, bad :: nat), d'))"
  have "reservations_ok (snd q) \<Longrightarrow> reservations_ok (snd (fold ?step rows q))" for rows q
  proof (induction rows arbitrary: q)
    case (Cons e rows)
    obtain i t ok bad d0 where e: "e = (i, t)" "q = ((ok, bad), d0)" by (metis prod.collapse)
    have "snd (?step e q) = snd (resolveOne (getTask t) now i d0)"
      by (auto simp: e split: prod.split option.split reservation_status.split)
    then have "reservations_ok (snd (?step e q))" using Cons.prems resolveOne_ok by (simp add: e)
    from Cons.IH [OF this] show ?case by simp
  qed simp
  from this [of "((0, 0), d)"] show "reservations_ok d \<Longrightarrow> ?thesis"
    by (simp add: resolvePendingReservations_def Let_def case_prod_beta)
qed

lemma tryConfirm_ok: "reservations_ok d \<Longrightarrow> reservations_ok (tryConfirmFromStatusNotification now box conn d)"
  unfolding tryConfirmFromStatusNotification_def
  by (rule settles_ok) (auto simp: settles_def BLOCKING_STATUSES_def)


lemma rescheduleReservation_ok:
  assumes "reservations_ok d"
  shows "reservations_ok (snd (rescheduleReservation now i st en False d))"
proof (cases "\<exists>e. find (\<lambda>r. rv_id r = i) (rd_rows d) = Some e
    \<and> checkConflicts (rv_chargeBoxId e) (rv_connectorId e) st en (Some i) d = Inr [] \<and> st < en")
  case False
  then show ?thesis using assms by (auto simp: rescheduleReservation_def split: option.split sum.split)
next
  case True
  then obtain e where find: "find (\<lambda>r. rv_id r = i) (rd_rows d) = Some e"
    and free: "checkConflicts (rv_chargeBoxId e) (rv_connectorId e) st en (Some i) d = Inr []" and w: "st < en" by blast
  let ?f = "\<lambda>x. x\<lparr>rv_startAt := st, rv_endAt := en, rv_durationMinutes := duration_minutes st en, rv_updatedAt := now\<rparr>"
  let ?g = "\<lambda>x. if rv_id x = i then ?f x else x"
  from find_Some_set [OF find] have e: "e \<in> set (rd_rows d)" "rv_id e = i" by simp_all
  have only: "x = e" if "x \<in> set (rd_rows d)" "rv_id x = i" for x
    using find_row [OF assms that(1)] find that(2) by simp
  have free_of: "compatible (?f e) s" if "s \<in> set (rd_rows d)" "rv_id s \<noteq> i" for s
    using checkConflicts_free(2) [OF free that(1)] that(2) by (intro free_compatible [of _ "Some i"]) auto
  have pair: "compatible (?g x) (?g y)"
    if "x \<in> set (rd_rows d)" "y \<in> set (rd_rows d)" "rv_id x \<noteq> rv_id y" for x y
  proof (cases "rv_id x = i")
    case True
    then have "?g x = ?f e" "?g y = y" using only [OF that(1)] that(3) by auto
    then show ?thesis using free_of [OF that(2)] True that(3) by simp
  next
    case False
    show ?thesis
    proof (cases "rv_id y = i")
      case True
      then have "?g y = ?f e" "?g x = x" using only [OF that(2)] that(3) by auto
      then show ?thesis using free_of [OF that(1)] False compatible_sym by simp
    next
      case F: False
      then show ?thesis using False that assms by (simp add: reservations_ok_def)
    qed
  qed
  have id: "rv_id (?g x) = rv_id x" for x by simp
  define rows where "rows = map ?g (rd_rows d)"
  have "compatible r s" if rs: "r \<in> set rows" "s \<in> set rows" "rv_id r \<noteq> rv_id s" for r s
  proof -
    from rs(1) obtain x where x: "r = ?g x" "x \<in> set (rd_rows d)" unfolding rows_def set_map by (rule imageE)
    from rs(2) obtain y where y: "s = ?g y" "y \<in> set (rd_rows d)" unfolding rows_def set_map by (rule imageE)
    have "rv_id x \<noteq> rv_id y" using rs(3) unfolding x(1) y(1) id .
    then show ?thesis unfolding x(1) y(1) by (rule pair [OF x(2) y(2)])
  qed
  moreover have "map rv_id rows = map rv_id (rd_rows d)" by (simp add: rows_def)
  moreover have "\<forall>x \<in> set rows. rv_id x < rd_nextId d \<and> rv_startAt x < rv_endAt x"
    using assms w by (auto simp: rows_def reservations_ok_def)
  ultimately have "reservations_ok (d\<lparr>rd_rows := rows\<rparr>)"
    using assms by (simp add: reservations_ok_def)
  then show ?thesis using find free w by (simp add: rescheduleReservation_def update_row_def Let_def case_prod_beta rows_def)
qed

text \<open>Every operation without the admin override, one at a time, in any order and at any time.\<close>

inductive reservation_step :: "reservation_db \<Rightarrow> reservation_db \<Rightarrow> bool" where
  created: "\<not> ri_force inp \<Longrightarrow> reservation_step d (snd (createReservation now task ans inp d))"
| cancelled: "reservation_step d (snd (snd (snd (cancelReservation date stored now i reason d))))"
| moved: "reservation_step d (snd (rescheduleReservation now i st en False d))"
| unlinked: "reservation_step d (snd (bulkCancelFutureReservationsForUser now user d))"
| polled: "reservation_step d (snd (resolvePendingReservations getTask now d))"
| reserved: "reservation_step d (tryConfirmFromStatusNotification now box conn d)"

inductive reservation_reach :: "reservation_db \<Rightarrow> reservation_db \<Rightarrow> bool" for d where
  here: "reservation_reach d d"
| further: "reservation_reach d u \<Longrightarrow> reservation_step u v \<Longrightarrow> reservation_reach d v"

lemma reservation_step_ok: "reservation_step d d' \<Longrightarrow> reservations_ok d \<Longrightarrow> reservations_ok d'"
  by (induction rule: reservation_step.induct)
    (simp_all add: createReservation_ok cancelReservation_ok rescheduleReservation_ok bulkCancel_ok resolvePending_ok tryConfirm_ok)

lemma reservation_reach_ok: "reservation_reach d d' \<Longrightarrow> reservations_ok d \<Longrightarrow> reservations_ok d'"
  by (induction rule: reservation_reach.induct) (auto intro: reservation_step_ok)


section \<open>Suggestions\<close>

lemma suggest_loop_ok:
  assumes "\<forall>(a, b) \<in> set acc. P a b" "length acc \<le> 2"
    and "\<And>c. c \<in> set cs \<Longrightarrow> c \<le> cutoff \<Longrightarrow> checkConflicts box conn c (c + dur) None d = Inr [] \<Longrightarrow> P c (c + dur)"
  shows "(\<forall>(a, b) \<in> set (suggest_loop box conn dur cutoff d acc cs). P a b)
    \<and> length (suggest_loop box conn dur cutoff d acc cs) \<le> 2"
  using assms
proof (induction cs arbitrary: acc)
  case (Cons c cs)
  show ?case
  proof (cases "length acc \<ge> 2 \<or> c > cutoff")
    case True
    then show ?thesis using Cons.prems(1, 2) by auto
  next
    case False
    show ?thesis
    proof (cases "checkConflicts box conn c (c + dur) None d = Inr []")
      case True
      then have "\<forall>(a, b) \<in> set (acc @ [(c, c + dur)]). P a b" using Cons.prems(1, 3) False by simp
      with Cons.IH [OF this] Cons.prems(3) False True show ?thesis by simp
    next
      case F: False
      have "suggest_loop box conn dur cutoff d acc (c # cs) = suggest_loop box conn dur cutoff d acc cs"
        using False F by (auto split: sum.split list.split)
      with Cons.IH [OF Cons.prems(1, 2)] Cons.prems(3) show ?thesis by simp
    qed
  qed
qed simp

text \<open>
  A suggestion can be taken: at most two windows are offered, each of the length asked
  for, each beginning when a conflicting booking ends and at most a day after the requested
  start, and booking an offered window in the same state is never refused.
\<close>

theorem suggestions_bookable:
  assumes "(a, b) \<in> set (suggestAlternatives box conn st en cs d)"
    and "ri_chargeBoxId inp = box" "ri_connectorId inp = conn" "ri_startAt inp = a" "ri_endAt inp = b"
  shows "length (suggestAlternatives box conn st en cs d) \<le> 2 \<and> b - a = en - st \<and> a \<in> cr_endAt ` set cs
    \<and> a \<le> st + 24 * 60 * 60 * 1000
    \<and> (\<exists>r d'. book now inp d = (Inr (Created r), d') \<and> rv_startAt r = a \<and> rv_endAt r = b)"
proof -
  let ?dur = "en - st" and ?cut = "st + 24 * 60 * 60 * 1000"
  let ?P = "\<lambda>a b. b - a = ?dur \<and> a \<in> cr_endAt ` set cs \<and> a \<le> ?cut
    \<and> checkConflicts box conn a b None d = Inr []"
  have pos: "0 < ?dur" using assms(1) by (auto simp: suggestAlternatives_def Let_def split: if_splits)
  then have "suggestAlternatives box conn st en cs d = suggest_loop box conn ?dur ?cut d [] (sort (map cr_endAt cs))"
    by (simp add: suggestAlternatives_def)
  moreover have "(\<forall>(a, b) \<in> set (suggest_loop box conn ?dur ?cut d [] (sort (map cr_endAt cs))). ?P a b)
      \<and> length (suggest_loop box conn ?dur ?cut d [] (sort (map cr_endAt cs))) \<le> 2"
    by (rule suggest_loop_ok) auto
  ultimately have "?P a b" "length (suggestAlternatives box conn st en cs d) \<le> 2" using assms(1) by auto
  moreover from this have "a < b" using pos by simp
  ultimately show ?thesis using assms(2-5) by (auto simp: book_def Let_def)
qed

section \<open>The answer that comes too late\<close>

text \<open>
  A late answer revives a cancelled booking: the answer to ReserveNow is written to the
  row whatever its status has become meanwhile, so an acceptance that arrives after the
  cancellation confirms the row again, with its cancellation date still set, while the
  resolver only ever touches pending rows.
\<close>

theorem late_answer_revives:
  assumes "reservations_ok d" "x \<in> set (rd_rows d)" "rv_status x = RCancelled" "rv_id r = rv_id x"
    and "ra_taskId a = Some t" "answer_status a (rv_chargeBoxId r) = Some RConfirmed"
  shows "rv_status (fst (reserve_reply (Some a) now r d)) = RConfirmed
    \<and> rv_cancelledAt (fst (reserve_reply (Some a) now r d)) = rv_cancelledAt x
    \<and> x \<in> set (rd_rows (snd (resolveOne ans now (rv_id x) d)))"
proof -
  let ?f = "\<lambda>x. x\<lparr>rv_updatedAt := now, rv_steveReservationId := Some t, rv_status := RConfirmed\<rparr>"
  have "distinct (map rv_id (map (\<lambda>y. if rv_id y = rv_id x then ?f y else y) (rd_rows d)))"
    using assms(1) by (simp add: reservations_ok_def o_def if_distrib cong: if_cong)
  moreover have "?f x \<in> set (map (\<lambda>y. if rv_id y = rv_id x then ?f y else y) (rd_rows d))"
    using assms(2) by auto
  ultimately have "find (\<lambda>y. rv_id y = rv_id (?f x)) (map (\<lambda>y. if rv_id y = rv_id x then ?f y else y) (rd_rows d)) = Some (?f x)"
    by (rule find_distinct)
  then show ?thesis
    using assms(2-6) by (auto simp: reserve_reply_def update_row_def resolveOne_def Let_def image_iff split: task_answer.split)
qed


section \<open>Examples\<close>

definition ask :: "int \<Rightarrow> int \<Rightarrow> int \<Rightarrow> reservation_input" where
  "ask conn st en = \<lparr>ri_chargeBoxId = ''CP1'', ri_connectorId = conn, ri_tagPk = 1, ri_idTag = ''A'',
     ri_subscription = None, ri_startAt = st, ri_endAt = en, ri_createdBy = None, ri_force = False\<rparr>"

definition no_bookings :: reservation_db where
  "no_bookings = \<lparr>rd_rows = [], rd_nextId = 1, rd_mappings = [], rd_chargers = []\<rparr>"

definition accepted_answer :: reserve_answer where
  "accepted_answer = \<lparr>ra_taskId = Some 5, ra_taskFinished = Some True, ra_success = [(''CP1'', Some ''Accepted'')],
     ra_errors = [], ra_exceptions = []\<rparr>"

text \<open>A charger-wide booking of the first hour, then the second connector for the second hour.\<close>

definition one_booked :: reservation_db where
  "one_booked = snd (createReservation 0 None (Some accepted_answer) (ask 0 0 3600000) no_bookings)"

definition two_booked :: reservation_db where
  "two_booked = snd (createReservation 0 None None (ask 2 3600000 7200000) one_booked)"

lemma no_bookings_ok: "reservations_ok no_bookings"
  by (simp add: no_bookings_def reservations_ok_def)

lemma two_booked_reach: "reservation_reach no_bookings two_booked"
  unfolding two_booked_def one_booked_def
  by (rule reservation_reach.further [OF reservation_reach.further [OF reservation_reach.here]];
      rule reservation_step.created) (simp_all add: ask_def)

lemma one_booked_ok: "reservations_ok one_booked"
  unfolding one_booked_def by (rule createReservation_ok [OF no_bookings_ok]) (simp add: ask_def)


theorem suggestions_bookable_witness:
  "suggestAlternatives ''CP1'' 1 1800000 5400000
     [\<lparr>cr_id = 1, cr_startAt = 0, cr_endAt = 3600000, cr_status = RConfirmed, cr_idTag = ''A''\<rparr>] one_booked
     = [(3600000, 7200000)]
   \<and> (\<exists>r d'. book 0 (ask 1 3600000 7200000) one_booked = (Inr (Created r), d') \<and> rv_startAt r = 3600000)"
proof -
  have s: "suggestAlternatives ''CP1'' 1 1800000 5400000
     [\<lparr>cr_id = 1, cr_startAt = 0, cr_endAt = 3600000, cr_status = RConfirmed, cr_idTag = ''A''\<rparr>] one_booked
     = [(3600000, 7200000)]" by code_simp
  then have "(3600000, 7200000) \<in> set (suggestAlternatives ''CP1'' 1 1800000 5400000
     [\<lparr>cr_id = 1, cr_startAt = 0, cr_endAt = 3600000, cr_status = RConfirmed, cr_idTag = ''A''\<rparr>] one_booked)" by simp
  from suggestions_bookable [OF this, of "ask 1 3600000 7200000" 0] s show ?thesis by (auto simp: ask_def)
qed

text \<open>
  The charger-wide booking is cancelled before its answer arrives and the hour is sold again;
  the late acceptance leaves two confirmed or pending rows for the same plug and hour.
\<close>

definition resold :: reservation_db where
  "resold = snd (createReservation 2 None None (ask 1 0 3600000)
     (snd (snd (snd (cancelReservation (\<lambda>t. []) True 1 1 None (snd (book 0 (ask 0 0 3600000) no_bookings)))))))"

theorem late_answer_revives_witness:
  "rv_status (fst (reserve_reply (Some accepted_answer) 3 (rd_rows resold ! 0) resold)) = RConfirmed
   \<and> map (\<lambda>r. (rv_connectorId r, rv_startAt r, rv_status r)) (rd_rows (snd (reserve_reply (Some accepted_answer) 3 (rd_rows resold ! 0) resold)))
      = [(0, 0, RConfirmed), (1, 0, RPending)]"
proof -
  have "reservations_ok (snd (book 0 (ask 0 0 3600000) no_bookings))"
    using book_ok [OF no_bookings_ok, of 0 "ask 0 0 3600000"] by (metis prod.collapse ask_def reservation_input.select_convs(9))
  then have ok: "reservations_ok resold"
    unfolding resold_def by (intro createReservation_ok cancelReservation_ok) (simp_all add: ask_def)
  have l: "length (rd_rows resold) = 2" "rv_status (rd_rows resold ! 0) = RCancelled"
    "ra_taskId accepted_answer = Some 5" "answer_status accepted_answer (rv_chargeBoxId (rd_rows resold ! 0)) = Some RConfirmed"
    "map (\<lambda>r. (rv_connectorId r, rv_startAt r, rv_status r)) (rd_rows (snd (reserve_reply (Some accepted_answer) 3 (rd_rows resold ! 0) resold)))
      = [(0, 0, RConfirmed), (1, 0, RPending)]"
    by code_simp+
  then have m: "rd_rows resold ! 0 \<in> set (rd_rows resold)" by simp
  from late_answer_revives [OF ok m l(2) refl l(3, 4)] l(5) show ?thesis by blast
qed

end
