(* ===== verification/Guards.thy ===== *)
theory Guards
  imports Prelude
begin

text \<open>
  The guards around the HTTP handlers and the outgoing calls: the fixed-window rate limiter
  (\<open>src/lib/utils/rate-limit.ts\<close> and its cleanup in \<open>sync-worker.ts\<close>), replies remembered
  under an idempotency key (\<open>src/lib/idempotency.ts\<close>) and retries with exponential backoff
  (\<open>src/lib/utils/retry.ts\<close>). Times are milliseconds.
\<close>

section \<open>Rate limits\<close>

record rate_row =
  rl_key :: string
  rl_windowStart :: int
  rl_count :: nat
  rl_updatedAt :: int

definition RATE_LIMIT_WINDOW_MS :: int where "RATE_LIMIT_WINDOW_MS = 60 * 1000"

definition window_start :: "int \<Rightarrow> int" where
  "window_start now = now div RATE_LIMIT_WINDOW_MS * RATE_LIMIT_WINDOW_MS"

definition bucket :: "string \<Rightarrow> int \<Rightarrow> rate_row \<Rightarrow> bool" where
  "bucket k w r \<longleftrightarrow> rl_key r = k \<and> rl_windowStart r = w"

text \<open>The upsert on the unique columns key and window; the count it returns.\<close>

definition count_request :: "string \<Rightarrow> int \<Rightarrow> int \<Rightarrow> rate_row list \<Rightarrow> nat \<times> rate_row list" where
  "count_request k w now rows =
     (case find (bucket k w) rows of
        None \<Rightarrow> (1, rows @ [\<lparr>rl_key = k, rl_windowStart = w, rl_count = 1, rl_updatedAt = now\<rparr>])
      | Some r \<Rightarrow> (rl_count r + 1,
          map (\<lambda>x. if bucket k w x then x\<lparr>rl_count := rl_count x + 1, rl_updatedAt := now\<rparr> else x) rows))"

text \<open>\<open>db_ok\<close>: whether the statement succeeds; on an error the request is allowed.\<close>

definition checkRateLimit :: "bool \<Rightarrow> int \<Rightarrow> string \<Rightarrow> nat \<Rightarrow> rate_row list \<Rightarrow> bool \<times> rate_row list" where
  "checkRateLimit stored now k limit rows =
     (if \<not> stored then (True, rows)
      else case count_request k (window_start now) now rows of (n, rows') \<Rightarrow> (n \<le> limit, rows'))"

definition prune_rate_limits :: "int \<Rightarrow> rate_row list \<Rightarrow> rate_row list" where
  "prune_rate_limits now rows = filter (\<lambda>r. \<not> rl_updatedAt r < now - 120 * 1000) rows"

text \<open>Requests for a key, and runs of the cleanup job.\<close>

datatype rate_event = Hit int string | Prune int

fun rate_time :: "rate_event \<Rightarrow> int" where
  "rate_time (Hit t k) = t"
| "rate_time (Prune t) = t"

fun rate_step :: "(string \<Rightarrow> nat) \<Rightarrow> rate_event \<Rightarrow> rate_row list \<Rightarrow> bool \<times> rate_row list" where
  "rate_step limit (Hit t k) rows = checkRateLimit True t k (limit k) rows"
| "rate_step limit (Prune t) rows = (False, prune_rate_limits t rows)"

text \<open>How many of the requests for key \<open>k\<close> in window \<open>w\<close> are allowed.\<close>

fun allowed_in :: "(string \<Rightarrow> nat) \<Rightarrow> string \<Rightarrow> int \<Rightarrow> rate_event list \<Rightarrow> rate_row list \<Rightarrow> nat" where
  "allowed_in limit k w [] rows = 0"
| "allowed_in limit k w (e # es) rows =
     (case rate_step limit e rows of (ok, rows') \<Rightarrow>
       (if ok \<and> (\<exists>t. e = Hit t k \<and> window_start t = w) then 1 else 0) + allowed_in limit k w es rows')"

definition count_of :: "string \<Rightarrow> int \<Rightarrow> rate_row list \<Rightarrow> nat" where
  "count_of k w rows = (case find (bucket k w) rows of None \<Rightarrow> 0 | Some r \<Rightarrow> rl_count r)"

definition rates_ok :: "rate_row list \<Rightarrow> bool" where
  "rates_ok rows \<longleftrightarrow> distinct (map (\<lambda>r. (rl_key r, rl_windowStart r)) rows)
     \<and> (\<forall>r \<in> set rows. rl_windowStart r \<le> rl_updatedAt r)"

lemma window_start_le: "window_start t \<le> t" "t < window_start t + 60000"
proof -
  have "t div 60000 * 60000 + t mod 60000 = t" by (rule div_mult_mod_eq)
  moreover have "0 \<le> t mod 60000" "t mod 60000 < 60000" by simp_all
  ultimately show "window_start t \<le> t" "t < window_start t + 60000"
    by (simp_all add: window_start_def RATE_LIMIT_WINDOW_MS_def)
qed

lemma count_request_count:
  assumes "count_request k w now rows = (n, rows')"
  shows "n = count_of k w rows + 1" "count_of k' w' rows' = (if k' = k \<and> w' = w then n else count_of k' w' rows)"
proof -
  show "n = count_of k w rows + 1"
    using assms by (auto simp: count_request_def count_of_def split: option.splits)
  let ?f = "\<lambda>x. if bucket k w x then x\<lparr>rl_count := rl_count x + 1, rl_updatedAt := now\<rparr> else x"
  have f: "bucket k' w' (?f x) = bucket k' w' x" for k' w' x by (simp add: bucket_def)
  have find_map: "find (bucket k' w') (map ?f xs) = map_option ?f (find (bucket k' w') xs)" for k' w' xs
    by (induction xs) (simp_all add: f)
  have hit: "bucket k' w' r \<Longrightarrow> bucket k w r = (k' = k \<and> w' = w)" for r by (auto simp: bucket_def)
  show "count_of k' w' rows' = (if k' = k \<and> w' = w then n else count_of k' w' rows)"
  proof (cases "find (bucket k w) rows")
    case None
    then show ?thesis
      using assms by (auto simp: count_request_def count_of_def find_snoc bucket_def split: option.split)
  next
    case (Some r)
    then show ?thesis
      using assms hit find_Some_set [of "bucket k' w'" rows]
      by (auto simp: count_request_def count_of_def find_map split: option.split)
  qed
qed

lemma count_request_ok:
  assumes "rates_ok rows" "count_request k w now rows = (n, rows')" "w \<le> now"
  shows "rates_ok rows'"
proof (cases "find (bucket k w) rows")
  case None
  then have "(k, w) \<notin> (\<lambda>r. (rl_key r, rl_windowStart r)) ` set rows"
    by (auto simp: find_None_set bucket_def)
  then show ?thesis using assms None by (auto simp: count_request_def rates_ok_def)
next
  case (Some r)
  let ?f = "\<lambda>x. if bucket k w x then x\<lparr>rl_count := rl_count x + 1, rl_updatedAt := now\<rparr> else x"
  have "map (\<lambda>r. (rl_key r, rl_windowStart r)) (map ?f rows) = map (\<lambda>r. (rl_key r, rl_windowStart r)) rows" by simp
  moreover have "\<forall>r \<in> set (map ?f rows). rl_windowStart r \<le> rl_updatedAt r"
    using assms(1, 3) by (auto simp: rates_ok_def bucket_def)
  ultimately show ?thesis using assms Some by (auto simp: count_request_def rates_ok_def simp del: map_map)
qed

text \<open>The cleanup keeps every bucket of a window that may still be open.\<close>

lemma prune_keeps:
  assumes "rates_ok rows" "window_start t \<le> w"
  shows "count_of k w (prune_rate_limits t rows) = count_of k w rows" "rates_ok (prune_rate_limits t rows)"
proof -
  have keep: "\<not> rl_updatedAt r < t - 120 * 1000" if "r \<in> set rows" "bucket k w r" for r
    using assms that window_start_le [of t] by (auto simp: rates_ok_def bucket_def)
  have "\<forall>r \<in> set xs. bucket k w r \<longrightarrow> P r \<Longrightarrow> find (bucket k w) (filter P xs) = find (bucket k w) xs" for P xs
    by (induction xs) auto
  then show "count_of k w (prune_rate_limits t rows) = count_of k w rows"
    using keep by (simp add: count_of_def prune_rate_limits_def)
  show "rates_ok (prune_rate_limits t rows)"
    using assms(1) by (auto simp: rates_ok_def prune_rate_limits_def distinct_map_filter_pred)
qed

definition hits_in :: "string \<Rightarrow> int \<Rightarrow> rate_event list \<Rightarrow> nat" where
  "hits_in k w es = length (filter (\<lambda>e. \<exists>t. e = Hit t k \<and> window_start t = w) es)"

lemma hits_in_simps [simp]:
  "hits_in k w [] = 0"
  "hits_in k w (Hit t k' # es) = (if k' = k \<and> window_start t = w then 1 else 0) + hits_in k w es"
  "hits_in k w (Prune t # es) = hits_in k w es"
  by (simp_all add: hits_in_def)

lemma window_start_mono: "s \<le> t \<Longrightarrow> window_start s \<le> window_start t"
  by (simp add: window_start_def RATE_LIMIT_WINDOW_MS_def zdiv_mono1)

lemma later_windows:
  assumes "\<forall>e \<in> set es. w < window_start (rate_time e)"
  shows "allowed_in limit k w es rows = 0" "hits_in k w es = 0"
  using assms by (induction es arbitrary: rows) (auto simp: hits_in_def split: prod.split rate_event.splits)

lemma allowed_in_exact:
  assumes "rates_ok rows" "sorted (map rate_time es)"
  shows "allowed_in limit k w es rows + min (count_of k w rows) (limit k)
    = min (count_of k w rows + hits_in k w es) (limit k)"
  using assms
proof (induction es arbitrary: rows)
  case Nil
  then show ?case by simp
next
  case (Cons e es)
  have es: "sorted (map rate_time es)" "\<forall>x \<in> set es. rate_time e \<le> rate_time x" using Cons.prems(2) by auto
  show ?case
  proof (cases "window_start (rate_time e) > w")
    case True
    then have "\<forall>x \<in> set (e # es). w < window_start (rate_time x)"
      using es(2) window_start_mono by fastforce
    from later_windows [OF this] show ?thesis by simp
  next
    case False
    show ?thesis
    proof (cases e)
      case (Prune t)
      then have "window_start t \<le> w" using False by simp
      from prune_keeps [OF Cons.prems(1) this] have kept: "count_of k w (prune_rate_limits t rows) = count_of k w rows"
        "rates_ok (prune_rate_limits t rows)" by blast+
      from Cons.IH [OF kept(2) es(1)] Prune kept(1) show ?thesis by simp
    next
      case (Hit t k')
      obtain n rows' where c: "count_request k' (window_start t) t rows = (n, rows')" by fastforce
      note cc = count_request_count [OF c] and ok = count_request_ok [OF Cons.prems(1) c window_start_le(1)]
      have step: "allowed_in limit k w (e # es) rows
          = (if n \<le> limit k' \<and> k' = k \<and> window_start t = w then 1 else 0) + allowed_in limit k w es rows'"
        using c by (simp add: Hit checkRateLimit_def)
      from Cons.IH [OF ok es(1)] cc(1) cc(2) [of k w] show ?thesis
        unfolding step by (cases "k' = k \<and> window_start t = w") (auto simp: Hit min_def split: if_splits)
    qed
  qed
qed



section \<open>Idempotency keys\<close>

text \<open>
  A reply: its status, whether the content type is JSON, and its body, which is a JSON value
  or some other text. \<open>'j\<close> is the type of JSON values.
\<close>

datatype 'j http_body = Json 'j | Text string

record 'j http_reply =
  hr_status :: int
  hr_isJson :: bool
  hr_body :: "'j http_body"

record 'j idem_row =
  ik_key :: string
  ik_route :: string
  ik_userId :: "string option"
  ik_status :: int
  ik_body :: 'j
  ik_createdAt :: int

text \<open>
  \<open>fn\<close> is the wrapped handler on the state \<open>'s\<close>; \<open>look\<close> and \<open>store\<close> say whether the two
  database statements succeed, \<open>err\<close> builds the JSON value of an error message.
\<close>

definition withIdempotency ::
  "(string \<Rightarrow> 'j) \<Rightarrow> bool \<Rightarrow> bool \<Rightarrow> int \<Rightarrow> string option \<Rightarrow> string option \<Rightarrow> string
     \<Rightarrow> ('s \<Rightarrow> 'j http_reply \<times> 's) \<Rightarrow> 'j idem_row list \<times> 's \<Rightarrow> 'j http_reply \<times> 'j idem_row list \<times> 's"
where
  "withIdempotency err look store now key user route fn st =
     (let (rows, s) = st; run = (case fn s of (r, s') \<Rightarrow> (r, rows, s')) in
      case key of
        None \<Rightarrow> run
      | Some k0 \<Rightarrow>
          (let k = js_trim k0 in
           if k = [] then run
           else if length k > 200
           then (\<lparr>hr_status = 400, hr_isJson = True, hr_body = Json (err ''idempotency_key_too_long'')\<rparr>, rows, s)
           else if \<not> look then run
           else case find (\<lambda>r. ik_key r = k) rows of
             Some c \<Rightarrow>
               if ik_route c \<noteq> route
               then (\<lparr>hr_status = 409, hr_isJson = True, hr_body = Json (err ''idempotency_key_route_mismatch'')\<rparr>, rows, s)
               else if ik_userId c \<noteq> user
               then (\<lparr>hr_status = 409, hr_isJson = True, hr_body = Json (err ''idempotency_key_owner_mismatch'')\<rparr>, rows, s)
               else (\<lparr>hr_status = ik_status c, hr_isJson = True, hr_body = Json (ik_body c)\<rparr>, rows, s)
           | None \<Rightarrow>
               (case fn s of (r, s') \<Rightarrow>
                  (case hr_body r of
                     Json j \<Rightarrow>
                       if hr_isJson r \<and> store
                       then (r, rows @ [\<lparr>ik_key = k, ik_route = route, ik_userId = user, ik_status = hr_status r,
                                       ik_body = j, ik_createdAt = now\<rparr>], s')
                       else (r, rows, s')
                   | Text t \<Rightarrow> (r, rows, s')))))"

definition IDEMPOTENCY_TTL_MS :: int where "IDEMPOTENCY_TTL_MS = 24 * 60 * 60 * 1000"

definition pruneExpiredIdempotencyKeys :: "bool \<Rightarrow> int \<Rightarrow> 'j idem_row list \<Rightarrow> nat \<times> 'j idem_row list" where
  "pruneExpiredIdempotencyKeys stored now rows =
     (if \<not> stored then (0, rows)
      else (let old = (\<lambda>r. ik_createdAt r < now - IDEMPOTENCY_TTL_MS)
            in (length (filter old rows), filter (\<lambda>r. \<not> old r) rows)))"

text \<open>A client that sends the same request again and again, at the times of the list.\<close>

fun replay ::
  "(string \<Rightarrow> 'j) \<Rightarrow> string \<Rightarrow> string option \<Rightarrow> string \<Rightarrow> ('s \<Rightarrow> 'j http_reply \<times> 's) \<Rightarrow> int list
     \<Rightarrow> 'j idem_row list \<times> 's \<Rightarrow> 'j http_reply list \<times> 'j idem_row list \<times> 's"
where
  "replay err key user route fn [] st = ([], st)"
| "replay err key user route fn (t # ts) st =
     (case withIdempotency err True True t (Some key) user route fn st of
        (r, st') \<Rightarrow> (case replay err key user route fn ts st' of (rs, st'') \<Rightarrow> (r # rs, st'')))"

lemma withIdempotency_cached:
  assumes "find (\<lambda>r. ik_key r = js_trim key) rows = Some c" "ik_route c = route" "ik_userId c = user"
    and "js_trim key \<noteq> []" "length (js_trim key) \<le> 200"
  shows "withIdempotency err True True t (Some key) user route fn (rows, s)
    = (\<lparr>hr_status = ik_status c, hr_isJson = True, hr_body = Json (ik_body c)\<rparr>, rows, s)"
  using assms by (simp add: withIdempotency_def Let_def)

lemma replay_cached:
  assumes "find (\<lambda>r. ik_key r = js_trim key) rows = Some c" "ik_route c = route" "ik_userId c = user"
    and "js_trim key \<noteq> []" "length (js_trim key) \<le> 200"
  shows "replay err key user route fn ts (rows, s)
    = (replicate (length ts) \<lparr>hr_status = ik_status c, hr_isJson = True, hr_body = Json (ik_body c)\<rparr>, rows, s)"
  by (induction ts) (simp_all add: withIdempotency_cached [OF assms])

text \<open>
  A retried request takes effect once: when a handler answers with JSON, sending the
  request any number of times under one key, one user and one route runs the handler exactly
  once, and every reply is the first one; another user or another route gets an error and
  runs nothing.
\<close>

theorem retried_request_runs_once:
  assumes "js_trim key \<noteq> []" "length (js_trim key) \<le> 200" "find (\<lambda>r. ik_key r = js_trim key) rows = None"
    and "fn s = (r, s')" "hr_isJson r" "hr_body r = Json j" "replay err key user route fn (t # ts) (rows, s) = (rs, rows', s2)"
  shows "s2 = s' \<and> (\<forall>q \<in> set rs. q = r) \<and> length rs = Suc (length ts)
    \<and> (\<forall>user' route' t'. user' \<noteq> user \<or> route' \<noteq> route \<longrightarrow>
         (case withIdempotency err True True t' (Some key) user' route' fn (rows', s2) of (q, rows'', s3) \<Rightarrow>
            hr_status q = 409 \<and> rows'' = rows' \<and> s3 = s2))"
proof -
  let ?c = "\<lparr>ik_key = js_trim key, ik_route = route, ik_userId = user, ik_status = hr_status r, ik_body = j, ik_createdAt = t\<rparr>"
  have first: "withIdempotency err True True t (Some key) user route fn (rows, s) = (r, rows @ [?c], s')"
    using assms by (simp add: withIdempotency_def Let_def)
  have found: "find (\<lambda>r. ik_key r = js_trim key) (rows @ [?c]) = Some ?c" using assms(3) by (simp add: find_snoc)
  have r: "\<lparr>hr_status = hr_status r, hr_isJson = True, hr_body = Json j\<rparr> = r" using assms(5, 6) by (cases r) simp
  have "rs = r # replicate (length ts) r" "rows' = rows @ [?c]" "s2 = s'"
    using assms(7) replay_cached [OF found _ _ assms(1, 2), of route user err fn ts s'] r by (auto simp: first)
  then show ?thesis using found assms(1, 2) by (auto simp: withIdempotency_def Let_def)
qed

theorem retried_request_runs_once_witness:
  "replay (\<lambda>e. e) '' k1 '' (Some ''u'') ''/x'' (\<lambda>n. (\<lparr>hr_status = 200, hr_isJson = True, hr_body = Json ''ok''\<rparr>, Suc n)) [1, 2, 3] ([], 0)
     = (replicate 3 \<lparr>hr_status = 200, hr_isJson = True, hr_body = Json ''ok''\<rparr>,
        [\<lparr>ik_key = ''k1'', ik_route = ''/x'', ik_userId = Some ''u'', ik_status = 200, ik_body = ''ok'', ik_createdAt = 1\<rparr>], 1)
   \<and> snd (snd (replay (\<lambda>e. e) '' k1 '' (Some ''u'') ''/x'' (\<lambda>n. (\<lparr>hr_status = 200, hr_isJson = True, hr_body = Json ''ok''\<rparr>, Suc n))
       [1, 2, 3] ([], 0))) = 1"
proof -
  let ?fn = "\<lambda>n :: nat. (\<lparr>hr_status = 200, hr_isJson = True, hr_body = Json ''ok''\<rparr>, Suc n)"
  have v: "replay (\<lambda>e. e) '' k1 '' (Some ''u'') ''/x'' ?fn [1, 2, 3] ([], 0)
     = (replicate 3 \<lparr>hr_status = 200, hr_isJson = True, hr_body = Json ''ok''\<rparr>,
        [\<lparr>ik_key = ''k1'', ik_route = ''/x'', ik_userId = Some ''u'', ik_status = 200, ik_body = ''ok'', ik_createdAt = 1\<rparr>], 1)"
    by code_simp
  have k: "js_trim '' k1 '' \<noteq> []" "length (js_trim '' k1 '') \<le> 200" by code_simp+
  have "find (\<lambda>r. ik_key r = js_trim '' k1 '') [] = None" "?fn 0 = (\<lparr>hr_status = 200, hr_isJson = True, hr_body = Json ''ok''\<rparr>, 1)"
    "hr_isJson \<lparr>hr_status = 200, hr_isJson = True, hr_body = Json ''ok''\<rparr>"
    "hr_body \<lparr>hr_status = 200, hr_isJson = True, hr_body = Json ''ok''\<rparr> = Json ''ok''"
    by simp_all
  from retried_request_runs_once [OF k this v] v show ?thesis by simp
qed

section \<open>Retries\<close>

record retry_options =
  ro_maxAttempts :: int
  ro_initialDelay :: rat
  ro_maxDelay :: rat
  ro_backoffMultiplier :: rat

definition DEFAULT_OPTIONS :: retry_options where
  "DEFAULT_OPTIONS = \<lparr>ro_maxAttempts = 3, ro_initialDelay = 1000, ro_maxDelay = 30000, ro_backoffMultiplier = 2\<rparr>"

text \<open>\<open>s.includes(t)\<close>.\<close>

fun str_includes :: "string \<Rightarrow> string \<Rightarrow> bool" where
  "str_includes [] t = (t = [])"
| "str_includes (c # s) t = (take (length t) (c # s) = t \<or> str_includes s t)"

definition default_isRetryable :: "string \<Rightarrow> bool" where
  "default_isRetryable msg =
     list_ex (str_includes (to_lower msg)) [''network'', ''timeout'', ''500'', ''502'', ''503'', ''504'']"

text \<open>
  The loop from attempt \<open>n\<close> on, with \<open>fuel\<close> attempts left: the result (the error of the last
  attempt), the number of calls and the delays slept. \<open>fn n\<close> is the outcome of call \<open>n\<close>.
\<close>

fun retry_loop ::
  "(int \<Rightarrow> string + 'a) \<Rightarrow> (string \<Rightarrow> bool) \<Rightarrow> retry_options \<Rightarrow> nat \<Rightarrow> int \<Rightarrow> rat
     \<Rightarrow> (string option + 'a) \<times> nat \<times> rat list"
where
  "retry_loop fn retryable opts 0 n delay = (Inl None, 0, [])"
| "retry_loop fn retryable opts (Suc fuel) n delay =
     (case fn n of
        Inr v \<Rightarrow> (Inr v, 1, [])
      | Inl e \<Rightarrow>
          if n = ro_maxAttempts opts \<or> \<not> retryable e then (Inl (Some e), 1, [])
          else (case retry_loop fn retryable opts fuel (n + 1) (min (delay * ro_backoffMultiplier opts) (ro_maxDelay opts)) of
                  (r, calls, slept) \<Rightarrow> (r, calls + 1, delay # slept)))"

text \<open>The loop runs while \<open>attempt <= maxAttempts\<close>, so at most \<open>maxAttempts\<close> rounds.\<close>

definition retry :: "(int \<Rightarrow> string + 'a) \<Rightarrow> (string \<Rightarrow> bool) \<Rightarrow> retry_options \<Rightarrow> (string option + 'a) \<times> nat \<times> rat list" where
  "retry fn retryable opts = retry_loop fn retryable opts (nat (ro_maxAttempts opts)) 1 (ro_initialDelay opts)"


lemma retry_loop_spec:
  assumes "retry_loop fn retryable opts fuel n delay = (r, calls, slept)" "0 < fuel" "ro_maxAttempts opts = n + int fuel - 1"
    and "delay \<le> M" "ro_maxDelay opts \<le> M"
  shows "1 \<le> calls \<and> calls \<le> fuel \<and> length slept = calls - 1 \<and> (\<forall>d \<in> set slept. d \<le> M)
    \<and> (\<forall>i < calls - 1. \<exists>e. fn (n + int i) = Inl e \<and> retryable e)
    \<and> (case fn (n + int (calls - 1)) of Inr v \<Rightarrow> r = Inr v
         | Inl e \<Rightarrow> r = Inl (Some e) \<and> (calls = fuel \<or> \<not> retryable e))"
  using assms
proof (induction fuel arbitrary: n delay r calls slept)
  case (Suc fuel)
  show ?case
  proof (cases "\<exists>e. fn n = Inl e \<and> n \<noteq> ro_maxAttempts opts \<and> retryable e")
    case False
    then have "calls = 1 \<and> slept = [] \<and> (case fn n of Inr v \<Rightarrow> r = Inr v
        | Inl e \<Rightarrow> r = Inl (Some e) \<and> (n = ro_maxAttempts opts \<or> \<not> retryable e))"
      using Suc.prems(1) by (auto split: sum.splits if_splits)
    then show ?thesis using Suc.prems(3) by (auto split: sum.splits)
  next
    case True
    then obtain e where e: "fn n = Inl e" "n \<noteq> ro_maxAttempts opts" "retryable e" by blast
    let ?d = "min (delay * ro_backoffMultiplier opts) (ro_maxDelay opts)"
    obtain r' c sl where rest: "retry_loop fn retryable opts fuel (n + 1) ?d = (r', c, sl)" by (metis prod_cases3)
    have now: "r = r'" "calls = c + 1" "slept = delay # sl" using Suc.prems(1) e rest by auto
    have fuel: "0 < fuel" using e(2) Suc.prems(3) by (cases fuel) auto
    have "?d \<le> M" using Suc.prems(5) by simp
    from Suc.IH [OF rest fuel _ this Suc.prems(5)] Suc.prems(3)
    have IH: "1 \<le> c" "c \<le> fuel" "length sl = c - 1" "\<forall>d \<in> set sl. d \<le> M"
      "\<forall>i < c - 1. \<exists>e. fn (n + 1 + int i) = Inl e \<and> retryable e"
      "case fn (n + 1 + int (c - 1)) of Inr v \<Rightarrow> r' = Inr v | Inl e \<Rightarrow> r' = Inl (Some e) \<and> (c = fuel \<or> \<not> retryable e)"
      by auto
    have "\<exists>e. fn (n + int i) = Inl e \<and> retryable e" if "i < calls - 1" for i
    proof (cases i)
      case 0
      then show ?thesis using e by simp
    next
      case (Suc j)
      then have "j < c - 1" using that now by simp
      with IH(5) have "\<exists>e. fn (n + 1 + int j) = Inl e \<and> retryable e" by blast
      then show ?thesis using Suc by (simp add: algebra_simps)
    qed
    moreover have "n + 1 + int (c - 1) = n + int (calls - 1)" using IH(1) now by simp
    ultimately show ?thesis using IH now Suc.prems(4) by (auto split: sum.splits)
  qed
qed simp

text \<open>
  A retried call ends: it is tried at least once and at most \<open>maxAttempts\<close> times, every
  attempt but the last failed with an error worth retrying, the outcome is that of the last
  attempt, which is the first success, the first error not worth retrying, or the last
  attempt allowed, and no pause is longer than the configured delays.
\<close>

theorem retry_ends:
  assumes "1 \<le> ro_maxAttempts opts" "retry fn retryable opts = (r, calls, slept)"
  shows "1 \<le> calls \<and> int calls \<le> ro_maxAttempts opts \<and> length slept = calls - 1
    \<and> (\<forall>d \<in> set slept. d \<le> max (ro_initialDelay opts) (ro_maxDelay opts))
    \<and> (\<forall>i. 1 \<le> i \<and> i < int calls \<longrightarrow> (\<exists>e. fn i = Inl e \<and> retryable e))
    \<and> (case fn (int calls) of Inr v \<Rightarrow> r = Inr v
         | Inl e \<Rightarrow> r = Inl (Some e) \<and> (int calls = ro_maxAttempts opts \<or> \<not> retryable e))"
proof -
  let ?M = "max (ro_initialDelay opts) (ro_maxDelay opts)"
  from retry_loop_spec [OF assms(2) [unfolded retry_def], of ?M] assms(1)
  have R: "1 \<le> calls" "calls \<le> nat (ro_maxAttempts opts)" "length slept = calls - 1" "\<forall>d \<in> set slept. d \<le> ?M"
    "\<forall>i < calls - 1. \<exists>e. fn (1 + int i) = Inl e \<and> retryable e"
    "case fn (1 + int (calls - 1)) of Inr v \<Rightarrow> r = Inr v
       | Inl e \<Rightarrow> r = Inl (Some e) \<and> (calls = nat (ro_maxAttempts opts) \<or> \<not> retryable e)"
    by auto
  have "\<exists>e. fn i = Inl e \<and> retryable e" if "1 \<le> i" "i < int calls" for i
  proof -
    from that have "nat (i - 1) < calls - 1" by linarith
    with R(5) have "\<exists>e. fn (1 + int (nat (i - 1))) = Inl e \<and> retryable e" by blast
    then show ?thesis using that(1) by simp
  qed
  moreover have "1 + int (calls - 1) = int calls" using R(1) by simp
  ultimately show ?thesis using R assms(1) by (auto split: sum.splits)
qed

theorem retry_ends_witness:
  "retry (\<lambda>n. if n < 3 then Inl ''HTTP 503'' else Inr n) default_isRetryable DEFAULT_OPTIONS = (Inr 3, 3, [1000, 2000])
   \<and> int 3 \<le> ro_maxAttempts DEFAULT_OPTIONS"
proof -
  have v: "retry (\<lambda>n. if n < 3 then Inl ''HTTP 503'' else Inr n) default_isRetryable DEFAULT_OPTIONS = (Inr 3, 3, [1000, 2000])"
    by code_simp
  have m: "1 \<le> ro_maxAttempts DEFAULT_OPTIONS" by (simp add: DEFAULT_OPTIONS_def)
  show ?thesis using v retry_ends [OF m v, THEN conjunct2, THEN conjunct1] by (rule conjI)
qed

end
