(* ===== verification/Pairing.thy ===== *)
theory Pairing
  imports Prelude "HOL-Library.Char_ord"
begin

text \<open>
  Arming a tap (\<open>src/services/scan-arm.service.ts\<close>): pairing codes, the rows of the table
  \<open>verifications\<close> that hold armed pairings, and the push to an armed phone. The random
  source is the list of bytes it delivers. The JSON text of a row is modelled by the fields
  the code reads; \<open>LIKE\<close> is the matching of SQL, so that the identifier patterns behave as in
  the database.
\<close>

section \<open>SQL patterns\<close>

text \<open>\<open>%\<close> stands for any text, \<open>_\<close> for one character, a backslash quotes the next one.\<close>

function sql_like :: "string \<Rightarrow> string \<Rightarrow> bool" where
  "sql_like [] s = (s = [])"
| "sql_like (p # ps) s =
     (if p = CHR ''%'' then sql_like ps s \<or> (case s of [] \<Rightarrow> False | c # cs \<Rightarrow> sql_like (p # ps) cs)
      else if p = CHR ''_'' then (case s of [] \<Rightarrow> False | c # cs \<Rightarrow> sql_like ps cs)
      else if p = CHR 0x5C then (case ps of [] \<Rightarrow> False | q # qs \<Rightarrow> (case s of [] \<Rightarrow> False | c # cs \<Rightarrow> q = c \<and> sql_like qs cs))
      else (case s of [] \<Rightarrow> False | c # cs \<Rightarrow> p = c \<and> sql_like ps cs))"
  by pat_completeness auto
termination by (relation "measures [\<lambda>(p, s). length p + length s]") auto

definition plain_text :: "string \<Rightarrow> bool" where
  "plain_text s \<longleftrightarrow> (\<forall>c \<in> set s. c \<noteq> CHR ''%'' \<and> c \<noteq> CHR ''_'' \<and> c \<noteq> CHR 0x5C)"

lemma like_percent: "sql_like [CHR ''%''] s"
  by (induction s) simp_all

lemma like_plain: "plain_text p \<Longrightarrow> sql_like (p @ q) (p @ s) = sql_like q s"
  by (induction p) (simp_all add: plain_text_def)

text \<open>A pattern without special characters before its final \<open>%\<close> is a prefix test.\<close>

lemma like_prefix: "plain_text p \<Longrightarrow> sql_like (p @ [CHR ''%'']) s \<longleftrightarrow> (\<exists>t. s = p @ t)"
proof (induction p arbitrary: s)
  case Nil
  then show ?case by (simp add: like_percent del: sql_like.simps)
next
  case (Cons c p)
  then have "plain_text p" and c: "c \<noteq> CHR ''%''" "c \<noteq> CHR ''_''" "c \<noteq> CHR 0x5C" by (simp_all add: plain_text_def)
  with Cons.IH show ?case by (cases s) auto
qed

section \<open>Codes\<close>

definition PAIRING_TTL_SEC :: int where "PAIRING_TTL_SEC = 90"
definition ONLINE_WINDOW_MS :: int where "ONLINE_WINDOW_MS = 90 * 1000"

definition base64_alphabet :: string where
  "base64_alphabet = ''ABCDEFGHIJKLMNOPQRSTUVWXYZabcdefghijklmnopqrstuvwxyz0123456789+/''"

text \<open>\<open>btoa\<close>: three bytes become four digits, an incomplete group is padded with \<open>=\<close>.\<close>

fun btoa :: "nat list \<Rightarrow> string" where
  "btoa [] = []"
| "btoa [a] = [base64_alphabet ! (a div 4), base64_alphabet ! (a mod 4 * 16), CHR ''='', CHR ''='']"
| "btoa [a, b] = [base64_alphabet ! (a div 4), base64_alphabet ! (a mod 4 * 16 + b div 16),
     base64_alphabet ! (b mod 16 * 4), CHR ''='']"
| "btoa (a # b # c # bs) = base64_alphabet ! (a div 4) # base64_alphabet ! (a mod 4 * 16 + b div 16)
     # base64_alphabet ! (b mod 16 * 4 + c div 64) # base64_alphabet ! (c mod 64) # btoa bs"

definition url_safe :: "char \<Rightarrow> char" where
  "url_safe c = (if c = CHR ''+'' then CHR ''-'' else if c = CHR ''/'' then CHR ''_'' else c)"

definition strip_padding :: "string \<Rightarrow> string" where
  "strip_padding s = rev (dropWhile (\<lambda>c. c = CHR ''='') (rev s))"

definition generateChargerPairingCode :: "nat list \<Rightarrow> string" where
  "generateChargerPairingCode bytes = strip_padding (map url_safe (btoa bytes))"

definition DEVICE_PAIRING_CHARS :: string where
  "DEVICE_PAIRING_CHARS = ''23456789ABCDEFGHJKMNPQRSTUVWXYZ''"

definition DEVICE_PAIRING_LEN :: nat where "DEVICE_PAIRING_LEN = 6"

text \<open>The largest multiple of the alphabet's size below 256: bytes from there on are rejected.\<close>

definition reject_limit :: nat where
  "reject_limit = 256 div length DEVICE_PAIRING_CHARS * length DEVICE_PAIRING_CHARS"

text \<open>
  The two sampling loops read one stream of random bytes: the buffer of 24 first, then single
  bytes. \<open>None\<close>: the stream ended before six characters were found.
\<close>

fun sample_code :: "nat \<Rightarrow> nat list \<Rightarrow> string option" where
  "sample_code 0 bytes = Some []"
| "sample_code (Suc n) [] = None"
| "sample_code (Suc n) (b # bs) =
     (if b \<ge> reject_limit then sample_code (Suc n) bs
      else map_option (Cons (DEVICE_PAIRING_CHARS ! (b mod length DEVICE_PAIRING_CHARS))) (sample_code n bs))"

definition generateDevicePairingCode :: "nat list \<Rightarrow> string option" where
  "generateDevicePairingCode bytes = sample_code DEVICE_PAIRING_LEN bytes"

text \<open>Both kinds of codes are made of characters that are safe in an identifier.\<close>

lemma set_btoa: "\<forall>b \<in> set bytes. b < 256 \<Longrightarrow> set (btoa bytes) \<subseteq> set base64_alphabet \<union> {CHR ''=''}"
proof (induction bytes rule: btoa.induct)
  case (2 a)
  have "length base64_alphabet = 64" by (simp add: base64_alphabet_def)
  then show ?case using 2 by (auto intro!: nth_mem)
next
  case (3 a b)
  have "length base64_alphabet = 64" by (simp add: base64_alphabet_def)
  moreover have "a mod 4 * 16 + b div 16 < 64" using 3 by auto
  ultimately show ?case using 3 by (auto intro!: nth_mem)
next
  case (4 a b c bs)
  have "length base64_alphabet = 64" by (simp add: base64_alphabet_def)
  moreover have "a mod 4 * 16 + b div 16 < 64" "b mod 16 * 4 + c div 64 < 64" using 4(2) by auto
  ultimately show ?case using 4 by (auto intro!: nth_mem)
qed simp

lemma charger_code_plain:
  assumes "\<forall>b \<in> set bytes. b < 256"
  shows "CHR '':'' \<notin> set (generateChargerPairingCode bytes)"
proof
  assume "CHR '':'' \<in> set (generateChargerPairingCode bytes)"
  then have "CHR '':'' \<in> set (map url_safe (btoa bytes))"
    unfolding generateChargerPairingCode_def strip_padding_def set_rev by (auto dest: set_dropWhileD)
  then obtain c where c: "c \<in> set base64_alphabet \<union> {CHR ''=''}" "CHR '':'' = url_safe c"
    using set_btoa [OF assms] by auto
  moreover have "CHR '':'' \<notin> set base64_alphabet \<union> {CHR ''=''}" by (simp add: base64_alphabet_def)
  ultimately show False by (auto simp: url_safe_def split: if_splits)
qed

lemma set_sample_code: "sample_code n bytes = Some code \<Longrightarrow> set code \<subseteq> set DEVICE_PAIRING_CHARS"
proof (induction n bytes arbitrary: code rule: sample_code.induct)
  case (3 n b bs)
  have "0 < length DEVICE_PAIRING_CHARS" by (simp add: DEVICE_PAIRING_CHARS_def)
  then show ?case using 3 by (auto split: if_splits)
qed simp_all

lemma length_sample_code: "sample_code n bytes = Some code \<Longrightarrow> length code = n"
  by (induction n bytes arbitrary: code rule: sample_code.induct) (auto split: if_splits)

lemma device_code_plain: "generateDevicePairingCode bytes = Some code \<Longrightarrow> CHR '':'' \<notin> set code"
  using set_sample_code [of DEVICE_PAIRING_LEN bytes code]
  by (auto simp: generateDevicePairingCode_def DEVICE_PAIRING_CHARS_def)

section \<open>Rows\<close>

datatype pairing_status = Armed | Matched | Consumed

record pairing_value =
  pv_status :: pairing_status
  pv_matchedIdTag :: "string option"
  pv_purpose :: "string option"
  pv_hintLabel :: "string option"
  pv_by :: "string option"

record verification =
  vf_id :: nat
  vf_identifier :: string
  vf_value :: pairing_value
  vf_expiresAt :: int
  vf_createdAt :: int
  vf_updatedAt :: int

record verification_db =
  vd_rows :: "verification list"
  vd_nextId :: nat

definition chargerPairingIdentifier :: "string \<Rightarrow> string \<Rightarrow> string" where
  "chargerPairingIdentifier box code = ''scan-pair:'' @ box @ '':'' @ code"

definition devicePairingIdentifier :: "string \<Rightarrow> string \<Rightarrow> string" where
  "devicePairingIdentifier dev code = ''device-scan:'' @ dev @ '':'' @ code"

text \<open>The first row with the latest expiry (\<open>ORDER BY expires_at DESC LIMIT 1\<close>).\<close>

definition latest :: "(verification \<Rightarrow> int) \<Rightarrow> verification list \<Rightarrow> verification option" where
  "latest f rows = (case sort_key (\<lambda>r. - f r) rows of [] \<Rightarrow> None | r # rs \<Rightarrow> Some r)"

text \<open>The query and prefix check shared by the two lookups.\<close>

definition find_armed :: "int \<Rightarrow> string \<Rightarrow> verification_db \<Rightarrow> (string \<times> int) option" where
  "find_armed now prefix d =
     (case latest vf_expiresAt (filter (\<lambda>r. sql_like (prefix @ ''%'') (vf_identifier r) \<and> vf_expiresAt r > now
             \<and> pv_status (vf_value r) = Armed) (vd_rows d)) of
        None \<Rightarrow> None
      | Some r \<Rightarrow>
          if take (length prefix) (vf_identifier r) = prefix
          then Some (drop (length prefix) (vf_identifier r), vf_expiresAt r) else None)"

text \<open>\<open>ok\<close>: whether the query succeeds; an error is logged and counts as not armed.\<close>

definition findArmedChargerPairing :: "bool \<Rightarrow> int \<Rightarrow> string \<Rightarrow> verification_db \<Rightarrow> (string \<times> int) option" where
  "findArmedChargerPairing ok now box d = (if ok then find_armed now (''scan-pair:'' @ box @ '':'') d else None)"

definition findArmedDevicePairing :: "bool \<Rightarrow> int \<Rightarrow> string \<Rightarrow> verification_db \<Rightarrow> (string \<times> int) option" where
  "findArmedDevicePairing ok now dev d = (if ok then find_armed now (''device-scan:'' @ dev @ '':'') d else None)"

definition insert_row :: "int \<Rightarrow> string \<Rightarrow> pairing_value \<Rightarrow> verification_db \<Rightarrow> int \<times> verification_db" where
  "insert_row now ident v d =
     (now + PAIRING_TTL_SEC * 1000,
      d\<lparr>vd_rows := vd_rows d @ [\<lparr>vf_id = vd_nextId d, vf_identifier = ident, vf_value = v,
                                vf_expiresAt = now + PAIRING_TTL_SEC * 1000, vf_createdAt = now, vf_updatedAt = now\<rparr>],
        vd_nextId := vd_nextId d + 1\<rparr>)"

definition insertChargerPairingRow ::
  "int \<Rightarrow> string \<Rightarrow> string \<Rightarrow> string option \<Rightarrow> string option \<Rightarrow> verification_db \<Rightarrow> int \<times> verification_db"
where
  "insertChargerPairingRow now box code purpose admin d =
     insert_row now (chargerPairingIdentifier box code)
       \<lparr>pv_status = Armed, pv_matchedIdTag = None, pv_purpose = (if truthy purpose then purpose else None),
        pv_hintLabel = None, pv_by = (if truthy admin then admin else None)\<rparr> d"

definition insertDevicePairingRow ::
  "int \<Rightarrow> string \<Rightarrow> string \<Rightarrow> string \<Rightarrow> string option \<Rightarrow> string option \<Rightarrow> verification_db \<Rightarrow> int \<times> verification_db"
where
  "insertDevicePairingRow now dev code purpose hint user d =
     insert_row now (devicePairingIdentifier dev code)
       \<lparr>pv_status = Armed, pv_matchedIdTag = None, pv_purpose = Some purpose, pv_hintLabel = hint, pv_by = user\<rparr> d"

definition deletePairingRow :: "string \<Rightarrow> verification_db \<Rightarrow> nat \<times> verification_db" where
  "deletePairingRow ident d =
     (length (filter (\<lambda>r. vf_identifier r = ident) (vd_rows d)),
      d\<lparr>vd_rows := filter (\<lambda>r. vf_identifier r \<noteq> ident) (vd_rows d)\<rparr>)"

section \<open>Phones\<close>

record device_row =
  dv_id :: string
  dv_ownerUserId :: string
  dv_capabilities :: "string list"
  dv_pushToken :: "string option"
  dv_apnsEnvironment :: "string option"
  dv_lastSeenAt :: "int option"
  dv_deletedAt :: "int option"
  dv_revokedAt :: "int option"

record apns_payload =
  ap_title :: string
  ap_body :: string
  ap_threadId :: string
  ap_collapseId :: string
  ap_expirationEpochSec :: int
  ap_pairingCode :: string
  ap_purpose :: string

text \<open>The push of an armed scan, to which token and environment; none without a usable token.\<close>

definition device_scan_push ::
  "string option \<Rightarrow> string option \<Rightarrow> string \<Rightarrow> string \<Rightarrow> string \<Rightarrow> string option \<Rightarrow> int \<Rightarrow> (string \<times> string \<times> apns_payload) option"
where
  "device_scan_push token env dev code purpose hint expires =
     (if \<not> truthy token \<or> (env \<noteq> Some ''sandbox'' \<and> env \<noteq> Some ''production'') then None
      else Some (the token, the env,
        \<lparr>ap_title = (if purpose = ''login'' then ''Sign someone in'' else ''Scan a card now''),
         ap_body = (if truthy hint then ''Tap to start the NFC scan: '' @ the hint else ''Tap to start the NFC scan''),
         ap_threadId = ''device-scan-'' @ dev, ap_collapseId = ''scan-'' @ code,
         ap_expirationEpochSec = expires div 1000, ap_pairingCode = code, ap_purpose = purpose\<rparr>))"

text \<open>The answer of Apple, \<open>None\<close> when the call throws; whether the token is dead.\<close>

record apns_result =
  ar_ok :: bool
  ar_status :: int
  ar_reason :: "string option"

definition dead_token :: "apns_result option \<Rightarrow> bool" where
  "dead_token ans = (case ans of None \<Rightarrow> False | Some r \<Rightarrow>
     \<not> ar_ok r \<and> (ar_status r = 410 \<or> ar_reason r = Some ''Unregistered'' \<or> ar_reason r = Some ''BadDeviceToken''))"

definition clearDevicePushToken :: "string \<Rightarrow> device_row list \<Rightarrow> device_row list" where
  "clearDevicePushToken dev rows =
     map (\<lambda>d. if dv_id d = dev then d\<lparr>dv_pushToken := None, dv_apnsEnvironment := None\<rparr> else d) rows"

text \<open>The whole of \<open>fireDeviceScanApns\<close> with the handler the callers pass.\<close>

definition fireDeviceScanApns ::
  "apns_result option \<Rightarrow> device_row \<Rightarrow> string \<Rightarrow> string \<Rightarrow> string option \<Rightarrow> int \<Rightarrow> device_row list
     \<Rightarrow> (string \<times> string \<times> apns_payload) option \<times> device_row list"
where
  "fireDeviceScanApns ans dev code purpose hint expires rows =
     (case device_scan_push (dv_pushToken dev) (dv_apnsEnvironment dev) (dv_id dev) code purpose hint expires of
        None \<Rightarrow> (None, rows)
      | Some p \<Rightarrow> (Some p, if dead_token ans then clearDevicePushToken (dv_id dev) rows else rows))"

definition loadDeviceForArm :: "string \<Rightarrow> device_row list \<Rightarrow> device_row option" where
  "loadDeviceForArm dev rows = find (\<lambda>d. dv_id d = dev) rows"

definition isDeviceOnline :: "int \<Rightarrow> device_row \<Rightarrow> bool" where
  "isDeviceOnline now d = (case dv_lastSeenAt d of None \<Rightarrow> False | Some t \<Rightarrow> now - t \<le> ONLINE_WINDOW_MS)"

end
