(* ===== verification/Scan.thy ===== *)
theory Scan
  imports Pairing Guards Mappings "HOL-Library.Word"
begin

text \<open>
  The endpoints of a scan: arming and releasing a charger or a phone
  (\<open>routes/api/auth/scan-pair.ts\<close>, \<open>routes/api/admin/tag/scan-arm.ts\<close>), the hook the OCPP
  server calls on every tap (\<open>routes/api/ocpp/pre-authorize.ts\<close>), the event stream of the
  waiting browser (\<open>routes/api/auth/scan-detect.ts\<close>) and the phone's answers
  (\<open>routes/api/devices/scan-result.ts\<close>, \<open>scan-cancel.ts\<close>). Every handler is a function from the
  request and the world to the reply and the new world. The record \<open>scan_io\<close> holds the clock
  and the outcome of each call that can fail.
\<close>

section \<open>The world\<close>

record scan_io =
  io_now :: int
  io_rate :: bool
  io_load :: bool
  io_query :: bool
  io_write :: bool
  io_requery :: bool
  io_publish :: bool
  io_docker :: bool
  io_bytes :: "8 word list"
  io_apns :: "apns_result option"

datatype pairable = Charger | Phone

record intercepted =
  ic_idTag :: string
  ic_type :: pairable
  ic_id :: string
  ic_code :: string
  ic_purpose :: string
  ic_t :: int
  ic_source :: string

text \<open>Device, pairing code, and the purpose or the source of the event.\<close>

datatype phone_event = ScanRequested string string string | ScanCancelled string string string

record binding =
  bd_type :: pairable
  bd_id :: string
  bd_code :: string

definition bd_identifier :: "binding \<Rightarrow> string" where
  "bd_identifier b = (case bd_type b of Charger \<Rightarrow> chargerPairingIdentifier (bd_id b) (bd_code b)
                                      | Phone \<Rightarrow> devicePairingIdentifier (bd_id b) (bd_code b))"

text \<open>An event stream of a browser with the scans sent on it: tag, nonce, time.\<close>

record scan_stream =
  ss_ip :: string
  ss_binding :: binding
  ss_open :: bool
  ss_sent :: "(string \<times> string \<times> int) list"

text \<open>A minted session: the consumed row, the user, the tag and the time.\<close>

record login_session =
  ls_row :: nat
  ls_user :: string
  ls_tag :: string
  ls_time :: int

record user_row =
  us_id :: string
  us_role :: string

record scan_world =
  sw_db :: verification_db
  sw_rates :: "rate_row list"
  sw_devices :: "device_row list"
  sw_chargers :: "(string \<times> int option) list"
  sw_mappings :: "user_mapping list"
  sw_users :: "user_row list"
  sw_streams :: "scan_stream list"
  sw_concurrent :: "(string, int) jsmap"
  sw_bus :: "(int \<times> intercepted) list"
  sw_phone :: "phone_event list"
  sw_pushes :: "(string \<times> string \<times> apns_payload) list"
  sw_sessions :: "login_session list"

text \<open>\<open>Undecided\<close>: the handler still waits for random bytes.\<close>

datatype scan_reply =
    Refused int string
  | Undecided
  | ArmedReply string int
  | Conflict string int
  | NoContent
  | Override "string option"
  | Streaming int
  | Accepted
  | LoggedIn string

section \<open>Arming and releasing\<close>

definition CHARGER_ONLINE_MS :: int where "CHARGER_ONLINE_MS = 10 * 60 * 1000"
definition PAIR_LIMIT_PER_IP :: nat where "PAIR_LIMIT_PER_IP = 30"
definition PAIR_LIMIT_GLOBAL :: nat where "PAIR_LIMIT_GLOBAL = 100"

text \<open>A charger's \<open>lastSeenAt\<close> is \<open>None\<close> when it is no valid date.\<close>

definition resolveChargeBoxId ::
  "bool \<Rightarrow> int \<Rightarrow> (string \<times> int option) list \<Rightarrow> string option \<Rightarrow> (int \<times> string) + string"
where
  "resolveChargeBoxId ok now chargers body =
     (if truthy body \<and> js_trim (the body) \<noteq> [] then Inr (js_trim (the body))
      else if \<not> ok then Inl (500, ''internal'')
      else case filter (\<lambda>(b, seen). case seen of None \<Rightarrow> False | Some t \<Rightarrow> now - t \<le> CHARGER_ONLINE_MS) chargers of
             [] \<Rightarrow> Inl (400, ''no_chargers_online'')
           | [(b, seen)] \<Rightarrow> Inr b
           | _ # _ # _ \<Rightarrow> Inl (400, ''chargeBoxId required''))"

text \<open>The fields of the JSON body that are strings.\<close>

record pair_body =
  pb_type :: "string option"
  pb_box :: "string option"
  pb_dev :: "string option"
  pb_code :: "string option"

definition trimmed :: "string option \<Rightarrow> string" where
  "trimmed s = (case s of None \<Rightarrow> [] | Some x \<Rightarrow> js_trim x)"

definition start_push :: "scan_io \<Rightarrow> device_row \<Rightarrow> string \<Rightarrow> string \<Rightarrow> string option \<Rightarrow> int \<Rightarrow> scan_world \<Rightarrow> scan_world" where
  "start_push io d code purpose hint expires w =
     (case fireDeviceScanApns (io_apns io) d code purpose hint expires (sw_devices w) of
        (p, rows) \<Rightarrow> w\<lparr>sw_devices := rows,
          sw_pushes := sw_pushes w @ (case p of None \<Rightarrow> [] | Some x \<Rightarrow> [x])\<rparr>)"

definition announce :: "bool \<Rightarrow> phone_event \<Rightarrow> scan_world \<Rightarrow> scan_world" where
  "announce published e w = (if published then w\<lparr>sw_phone := sw_phone w @ [e]\<rparr> else w)"

definition armDevicePath :: "scan_io \<Rightarrow> string \<Rightarrow> scan_world \<Rightarrow> scan_reply \<times> scan_world" where
  "armDevicePath io dev w =
     (if dev = [] then (Refused 400 ''deviceId required'', w)
      else if \<not> io_load io then (Refused 500 ''uncaught'', w)
      else case loadDeviceForArm dev (sw_devices w) of
        None \<Rightarrow> (Refused 404 ''not_found'', w)
      | Some d \<Rightarrow>
          if dv_deletedAt d \<noteq> None \<or> dv_revokedAt d \<noteq> None then (Refused 410 ''device_revoked'', w)
          else if ''scanner'' \<notin> set (dv_capabilities d) then (Refused 400 ''capability_missing'', w)
          else if \<not> isDeviceOnline (io_now io) d then (Refused 409 ''device_offline'', w)
          else if findArmedDevicePairing (io_query io) (io_now io) dev (sw_db w) \<noteq> None
          then (Refused 409 ''already_armed_for_device'', w)
          else case generateDevicePairingCode (map unat (io_bytes io)) of
            None \<Rightarrow> (Undecided, w)
          | Some code \<Rightarrow>
              if \<not> io_write io
              then (if findArmedDevicePairing (io_requery io) (io_now io) dev (sw_db w) \<noteq> None
                    then (Refused 409 ''already_armed_for_device'', w) else (Refused 500 ''internal'', w))
              else (case insertDevicePairingRow (io_now io) dev code ''login'' None None (sw_db w) of
                (expires, d') \<Rightarrow> (ArmedReply code expires,
                   start_push io d code ''login'' None expires
                     (announce (io_publish io) (ScanRequested dev code ''login'') (w\<lparr>sw_db := d'\<rparr>)))))"

text \<open>
  The administrator's request to a phone (\<open>routes/api/admin/devices/[deviceId]/scan-arm.ts\<close>, which
  has copies of the lookups, the code generator and the push of \<open>scan-arm.service.ts\<close>); the
  handlers run inside the wrapper for idempotency keys.
\<close>

definition SCAN_PURPOSES :: "string list" where
  "SCAN_PURPOSES = [''admin-link'', ''customer-link'', ''login'', ''view-card'']"

datatype hint_field = No_hint | Bad_hint | Hint string

text \<open>The fields purpose (when it is a string) and hintLabel.\<close>

definition parsePostBody :: "string option \<times> hint_field \<Rightarrow> (string \<times> string option) option" where
  "parsePostBody body =
     (case body of (purpose, hint) \<Rightarrow>
        if purpose = None \<or> the purpose \<notin> set SCAN_PURPOSES then None
        else case hint of
          No_hint \<Rightarrow> Some (the purpose, None)
        | Bad_hint \<Rightarrow> None
        | Hint h \<Rightarrow> Some (the purpose, if js_trim h = [] then None else Some (take 80 (js_trim h))))"

definition secondsUntil :: "int \<Rightarrow> int \<Rightarrow> int" where
  "secondsUntil now t = (if t - now \<le> 0 then 0 else - ((now - t) div 1000))"

definition isLikelyUuid :: "string \<Rightarrow> bool" where
  "isLikelyUuid s \<longleftrightarrow> 8 \<le> length s \<and> length s \<le> 64"

definition admin_push :: "scan_io \<Rightarrow> device_row \<Rightarrow> string \<Rightarrow> string \<Rightarrow> string option \<Rightarrow> int \<Rightarrow> scan_world \<Rightarrow> scan_world" where
  "admin_push io d code purpose hint expires w =
     (case fireDeviceScanApns (io_apns io) d code purpose hint expires (sw_devices w) of
        (p, rows) \<Rightarrow> w\<lparr>sw_devices := rows,
          sw_pushes := sw_pushes w @ (case p of None \<Rightarrow> []
            | Some (token, env, load) \<Rightarrow> [(token, env, load\<lparr>ap_title := ''Scan a card now''\<rparr>)])\<rparr>)"

definition device_scan_arm_POST ::
  "scan_io \<Rightarrow> (string \<times> string) option \<Rightarrow> string \<Rightarrow> (string option \<times> hint_field) option \<Rightarrow> scan_world
     \<Rightarrow> scan_reply \<times> scan_world"
where
  "device_scan_arm_POST io user dev body w =
     (case user of None \<Rightarrow> (Refused 401 ''unauthorized'', w) | Some (admin, role) \<Rightarrow>
      if role \<noteq> ''admin'' then (Refused 403 ''forbidden'', w)
      else if \<not> isLikelyUuid dev then (Refused 404 ''not_found'', w)
      else case Option.bind body parsePostBody of None \<Rightarrow> (Refused 400 ''invalid_body'', w)
      | Some (purpose, hint) \<Rightarrow>
      if \<not> io_load io then (Refused 500 ''internal_error'', w)
      else case loadDeviceForArm dev (sw_devices w) of None \<Rightarrow> (Refused 404 ''not_found'', w)
      | Some d \<Rightarrow>
      if dv_deletedAt d \<noteq> None \<or> dv_revokedAt d \<noteq> None then (Refused 410 ''device_revoked'', w)
      else if ''scanner'' \<notin> set (dv_capabilities d) then (Refused 400 ''capability_missing'', w)
      else if \<not> isDeviceOnline (io_now io) d then (Refused 409 ''device_offline'', w)
      else case findArmedDevicePairing (io_query io) (io_now io) dev (sw_db w) of
        Some (code, expires) \<Rightarrow> (Conflict code (secondsUntil (io_now io) expires), w)
      | None \<Rightarrow>
      (case generateDevicePairingCode (map unat (io_bytes io)) of None \<Rightarrow> (Undecided, w)
      | Some code \<Rightarrow>
      if \<not> io_write io
      then (case findArmedDevicePairing (io_requery io) (io_now io) dev (sw_db w) of
              Some (code', expires) \<Rightarrow> (Conflict code' (secondsUntil (io_now io) expires), w)
            | None \<Rightarrow> (Refused 500 ''internal_error'', w))
      else case insertDevicePairingRow (io_now io) dev code purpose hint (Some admin) (sw_db w) of
        (expires, d') \<Rightarrow> (ArmedReply code expires,
          admin_push io d code purpose hint expires
            (announce (io_publish io) (ScanRequested dev code purpose) (w\<lparr>sw_db := d'\<rparr>)))))"

text \<open>The steps the two charger endpoints share after their guards.\<close>

definition arm_charger ::
  "scan_io \<Rightarrow> string \<Rightarrow> string option \<Rightarrow> string option \<Rightarrow> scan_world \<Rightarrow> scan_reply \<times> scan_world"
where
  "arm_charger io box purpose admin w =
     (if findArmedChargerPairing (io_query io) (io_now io) box (sw_db w) \<noteq> None
      then (Refused 409 ''already_armed_for_charger'', w)
      else let code = generateChargerPairingCode (map unat (take 16 (io_bytes io))) in
        if length (io_bytes io) < 16 then (Undecided, w)
        else if \<not> io_write io then (Refused 500 ''internal'', w)
        else case insertChargerPairingRow (io_now io) box code purpose admin (sw_db w) of
          (expires, d') \<Rightarrow> (ArmedReply code expires, w\<lparr>sw_db := d'\<rparr>))"

text \<open>\<open>body\<close> is \<open>None\<close> when the text is no JSON; an empty text counts as an object without fields.\<close>

definition scan_pair_POST :: "scan_io \<Rightarrow> string \<Rightarrow> pair_body option \<Rightarrow> scan_world \<Rightarrow> scan_reply \<times> scan_world" where
  "scan_pair_POST io ip body w =
     (case checkRateLimit (io_rate io) (io_now io) (''scanpair:ip:'' @ ip) PAIR_LIMIT_PER_IP (sw_rates w) of
        (ok1, r1) \<Rightarrow>
      if \<not> ok1 then (Refused 429 ''rate_limited'', w\<lparr>sw_rates := r1\<rparr>)
      else case checkRateLimit (io_rate io) (io_now io) ''scanpair:global'' PAIR_LIMIT_GLOBAL r1 of
        (ok2, r2) \<Rightarrow> let w2 = w\<lparr>sw_rates := r2\<rparr> in
      if \<not> ok2 then (Refused 429 ''rate_limited'', w2)
      else case body of
        None \<Rightarrow> (Refused 400 ''invalid_json'', w2)
      | Some b \<Rightarrow>
          let ty = (case pb_type b of None \<Rightarrow> ''charger'' | Some x \<Rightarrow> x) in
          if ty = ''device'' then armDevicePath io (trimmed (pb_dev b)) w2
          else if ty \<noteq> ''charger'' then (Refused 400 ''invalid_pairableType'', w2)
          else case resolveChargeBoxId (io_load io) (io_now io) (sw_chargers w2) (pb_box b) of
            Inl (st, e) \<Rightarrow> (Refused st e, w2)
          | Inr box \<Rightarrow> arm_charger io box None None w2)"

text \<open>The administrator's variant for a charger; \<open>admin\<close> is the user of the session.\<close>

definition admin_scan_arm_POST :: "scan_io \<Rightarrow> string option \<Rightarrow> pair_body option \<Rightarrow> scan_world \<Rightarrow> scan_reply \<times> scan_world" where
  "admin_scan_arm_POST io admin body w =
     (if \<not> truthy admin then (Refused 401 ''unauthorized'', w)
      else case body of
        None \<Rightarrow> (Refused 400 ''invalid_json'', w)
      | Some b \<Rightarrow>
          if trimmed (pb_box b) = [] then (Refused 400 ''chargeBoxId required'', w)
          else arm_charger io (trimmed (pb_box b)) (Some ''admin-link'') admin w)"

text \<open>Closing the streams that satisfy \<open>P\<close> gives their slots back.\<close>

definition release_slot :: "string \<Rightarrow> (string, int) jsmap \<Rightarrow> (string, int) jsmap" where
  "release_slot ip m =
     (let remaining = (case map_of m ip of None \<Rightarrow> 1 | Some n \<Rightarrow> n) - 1
      in if remaining \<le> 0 then AList.delete ip m else AList.update ip remaining m)"

definition close_streams :: "(scan_stream \<Rightarrow> bool) \<Rightarrow> scan_world \<Rightarrow> scan_world" where
  "close_streams P w =
     w\<lparr>sw_streams := map (\<lambda>s. if P s then s\<lparr>ss_open := False\<rparr> else s) (sw_streams w),
       sw_concurrent := fold release_slot (map ss_ip (filter (\<lambda>s. P s \<and> ss_open s) (sw_streams w))) (sw_concurrent w)\<rparr>"

text \<open>\<open>device.scan.cancelled\<close> reaches the phone and closes the streams bound to the pairing.\<close>

definition publishDeviceScanCancelled :: "bool \<Rightarrow> string \<Rightarrow> string \<Rightarrow> string \<Rightarrow> scan_world \<Rightarrow> scan_world" where
  "publishDeviceScanCancelled published dev code source w =
     (if published
      then close_streams (\<lambda>s. bd_type (ss_binding s) = Phone \<and> bd_id (ss_binding s) = dev \<and> bd_code (ss_binding s) = code)
             (announce True (ScanCancelled dev code source) w)
      else w)"

definition release_row :: "string \<Rightarrow> scan_world \<Rightarrow> scan_world" where
  "release_row ident w = w\<lparr>sw_db := snd (deletePairingRow ident (sw_db w))\<rparr>"

definition scan_pair_DELETE :: "scan_io \<Rightarrow> string \<Rightarrow> pair_body option \<Rightarrow> scan_world \<Rightarrow> scan_reply \<times> scan_world" where
  "scan_pair_DELETE io ip body w =
     (case checkRateLimit (io_rate io) (io_now io) (''scanpair:ip:'' @ ip) PAIR_LIMIT_PER_IP (sw_rates w) of
        (ok1, r1) \<Rightarrow> let w1 = w\<lparr>sw_rates := r1\<rparr> in
      if \<not> ok1 then (Refused 429 ''rate_limited'', w1)
      else case body of
        None \<Rightarrow> (Refused 400 ''invalid_json'', w1)
      | Some b \<Rightarrow>
          let code = trimmed (pb_code b);
              ty = (case pb_type b of Some x \<Rightarrow> x | None \<Rightarrow> if pb_dev b \<noteq> None then ''device'' else ''charger'') in
          if code = [] then (Refused 400 ''pairingCode required'', w1)
          else if ty = ''device''
          then (if trimmed (pb_dev b) = [] then (Refused 400 ''deviceId required'', w1)
                else let dev = trimmed (pb_dev b);
                         w2 = (if io_write io then release_row (devicePairingIdentifier dev code) w1 else w1)
                  in (NoContent, publishDeviceScanCancelled (io_publish io) dev code ''customer'' w2))
          else if trimmed (pb_box b) = [] then (Refused 400 ''chargeBoxId required'', w1)
          else if io_write io
          then (NoContent, release_row (chargerPairingIdentifier (trimmed (pb_box b)) code) w1)
          else (Refused 500 ''internal'', w1))"

definition admin_scan_arm_DELETE :: "scan_io \<Rightarrow> string option \<Rightarrow> pair_body option \<Rightarrow> scan_world \<Rightarrow> scan_reply \<times> scan_world" where
  "admin_scan_arm_DELETE io admin body w =
     (if \<not> truthy admin then (Refused 401 ''unauthorized'', w)
      else case body of
        None \<Rightarrow> (Refused 400 ''invalid_json'', w)
      | Some b \<Rightarrow>
          if trimmed (pb_box b) = [] \<or> trimmed (pb_code b) = []
          then (Refused 400 ''chargeBoxId and pairingCode required'', w)
          else (NoContent, if io_write io
                           then release_row (chargerPairingIdentifier (trimmed (pb_box b)) (trimmed (pb_code b))) w
                           else w))"

definition device_scan_arm_DELETE ::
  "scan_io \<Rightarrow> (string \<times> string) option \<Rightarrow> string \<Rightarrow> string option \<Rightarrow> scan_world \<Rightarrow> scan_reply \<times> scan_world"
where
  "device_scan_arm_DELETE io user dev code w =
     (case user of None \<Rightarrow> (Refused 401 ''unauthorized'', w) | Some (admin, role) \<Rightarrow>
      if role \<noteq> ''admin'' then (Refused 403 ''forbidden'', w)
      else if \<not> isLikelyUuid dev then (Refused 404 ''not_found'', w)
      else if trimmed code = [] \<or> length (trimmed code) > 64 then (Refused 400 ''invalid_body'', w)
      else let w1 = (if io_write io then release_row (devicePairingIdentifier dev (trimmed code)) w else w)
        in (Accepted, publishDeviceScanCancelled (io_publish io) dev (trimmed code) ''admin'' w1))"

section \<open>Streams of the waiting browser\<close>

text \<open>\<open>hmac\<close> is HMAC-SHA256 under the server's secret, in lowercase hex.\<close>

definition nonce_text :: "string \<Rightarrow> string \<Rightarrow> string \<Rightarrow> int \<Rightarrow> string" where
  "nonce_text tag code pid t = tag @ '':'' @ code @ '':'' @ pid @ '':'' @ show_int t"

definition signNonce :: "(string \<Rightarrow> string) \<Rightarrow> string \<Rightarrow> string \<Rightarrow> string \<Rightarrow> int \<Rightarrow> string" where
  "signNonce hmac tag code pid t = hmac (nonce_text tag code pid t)"

definition emit_scan :: "(string \<Rightarrow> string) \<Rightarrow> string \<Rightarrow> int \<Rightarrow> scan_stream \<Rightarrow> scan_stream" where
  "emit_scan hmac tag t s =
     (if ss_open s
      then s\<lparr>ss_sent := ss_sent s @ [(tag, signNonce hmac tag (bd_code (ss_binding s)) (bd_id (ss_binding s)) t, t)]\<rparr>
      else s)"

definition bound_to :: "intercepted \<Rightarrow> binding \<Rightarrow> bool" where
  "bound_to e b \<longleftrightarrow> ic_type e = bd_type b \<and> ic_id e = bd_id b \<and> ic_code e = bd_code b"

definition publish_intercepted :: "(string \<Rightarrow> string) \<Rightarrow> int \<Rightarrow> intercepted \<Rightarrow> scan_world \<Rightarrow> scan_world" where
  "publish_intercepted hmac now e w =
     w\<lparr>sw_bus := sw_bus w @ [(now, e)],
       sw_streams := map (\<lambda>s. if bound_to e (ss_binding s) then emit_scan hmac (ic_idTag e) (ic_t e) s else s)
                         (sw_streams w)\<rparr>"

definition MAX_CONCURRENT_PER_IP :: int where "MAX_CONCURRENT_PER_IP = 3"

definition concurrent_of :: "string \<Rightarrow> scan_world \<Rightarrow> int" where
  "concurrent_of ip w = (case map_of (sw_concurrent w) ip of None \<Rightarrow> 0 | Some n \<Rightarrow> n)"

text \<open>
  Opening a stream waits for the database between reading the counter of the address and
  writing it: \<open>detect_admit\<close> is the part up to the query, \<open>detect_attach\<close> the part after it.
\<close>

definition detect_binding :: "string \<Rightarrow> string \<Rightarrow> string \<Rightarrow> (int \<times> string) + binding" where
  "detect_binding code box dev =
     (if code = [] \<or> (box = [] \<and> dev = []) then Inl (400, ''pairingCode_and_(chargeBoxId|deviceId)_required'')
      else if box \<noteq> [] \<and> dev \<noteq> [] then Inl (400, ''chargeBoxId_and_deviceId_are_mutually_exclusive'')
      else if box \<noteq> [] then Inr \<lparr>bd_type = Charger, bd_id = box, bd_code = code\<rparr>
      else Inr \<lparr>bd_type = Phone, bd_id = dev, bd_code = code\<rparr>)"

definition detect_admit :: "string \<Rightarrow> string \<Rightarrow> string \<Rightarrow> string \<Rightarrow> scan_world \<Rightarrow> scan_reply + binding \<times> int" where
  "detect_admit ip code box dev w =
     (case detect_binding code box dev of
        Inl (st, e) \<Rightarrow> Inl (Refused st e)
      | Inr b \<Rightarrow>
          if concurrent_of ip w \<ge> MAX_CONCURRENT_PER_IP then Inl (Refused 429 ''too_many_concurrent_streams'')
          else Inr (b, concurrent_of ip w))"

definition armed_row :: "int \<Rightarrow> string \<Rightarrow> verification_db \<Rightarrow> verification option" where
  "armed_row now ident d =
     find (\<lambda>r. vf_identifier r = ident \<and> vf_expiresAt r > now \<and> pv_status (vf_value r) = Armed) (vd_rows d)"

text \<open>\<open>Math.ceil(ms / 1000)\<close>, at least 0.\<close>

definition expires_in :: "int \<Rightarrow> int \<Rightarrow> int" where
  "expires_in now expires = max 0 (- ((now - expires) div 1000))"

definition detect_attach ::
  "(string \<Rightarrow> string) \<Rightarrow> scan_io \<Rightarrow> string \<Rightarrow> binding \<Rightarrow> int \<Rightarrow> scan_world \<Rightarrow> scan_reply \<times> scan_world"
where
  "detect_attach hmac io ip b cur w =
     (if \<not> io_query io then (Refused 500 ''internal'', w)
      else case armed_row (io_now io) (bd_identifier b) (sw_db w) of
        None \<Rightarrow> (Refused 404 ''pairing_not_found'', w)
      | Some r \<Rightarrow>
          let conc = AList.update ip (cur + 1) (sw_concurrent w);
              s0 = \<lparr>ss_ip = ip, ss_binding = b, ss_open = True, ss_sent = []\<rparr>;
              recent = filter (\<lambda>(ts, e). ts > io_now io - 5000 \<and> bound_to e b) (sw_bus w)
          in (Streaming (expires_in (io_now io) (vf_expiresAt r)),
              if bd_type b = Charger \<and> \<not> io_docker io
              then w\<lparr>sw_concurrent := release_slot ip conc, sw_streams := sw_streams w @ [s0\<lparr>ss_open := False\<rparr>]\<rparr>
              else w\<lparr>sw_concurrent := conc,
                     sw_streams := sw_streams w
                       @ [fold (\<lambda>(ts, e). emit_scan hmac (ic_idTag e) (ic_t e)) recent s0]\<rparr>))"

definition scan_detect_GET ::
  "(string \<Rightarrow> string) \<Rightarrow> scan_io \<Rightarrow> string \<Rightarrow> string \<Rightarrow> string \<Rightarrow> string \<Rightarrow> scan_world \<Rightarrow> scan_reply \<times> scan_world"
where
  "scan_detect_GET hmac io ip code box dev w =
     (case detect_admit ip code box dev w of
        Inl r \<Rightarrow> (r, w)
      | Inr (b, cur) \<Rightarrow> detect_attach hmac io ip b cur w)"

text \<open>The time limit, a cancelled or a failed stream: \<open>cleanup\<close> of the stream \<open>i\<close>.\<close>

definition close_stream :: "nat \<Rightarrow> scan_world \<Rightarrow> scan_world" where
  "close_stream i w =
     (if i < length (sw_streams w) \<and> ss_open (sw_streams w ! i)
      then w\<lparr>sw_streams := (sw_streams w)[i := (sw_streams w ! i)\<lparr>ss_open := False\<rparr>],
             sw_concurrent := release_slot (ss_ip (sw_streams w ! i)) (sw_concurrent w)\<rparr>
      else w)"

text \<open>A line of the OCPP server's log: the kind, the tag and the charger found in it.\<close>

definition log_line :: "(string \<Rightarrow> string) \<Rightarrow> bool \<Rightarrow> string option \<Rightarrow> string option \<Rightarrow> int \<Rightarrow> scan_world \<Rightarrow> scan_world" where
  "log_line hmac reject tag box t w =
     w\<lparr>sw_streams := map (\<lambda>s.
         if bd_type (ss_binding s) = Charger \<and> box = Some (bd_id (ss_binding s)) \<and> reject \<and> truthy tag
         then emit_scan hmac (the tag) t s else s) (sw_streams w)\<rparr>"

section \<open>The hook of the OCPP server\<close>

text \<open>\<open>parseInt\<close> of two characters in base 16, and the bytes of the signature.\<close>

definition hex_value :: "char \<Rightarrow> nat option" where
  "hex_value c =
     (let n = (of_char c :: nat) in
      if 48 \<le> n \<and> n \<le> 57 then Some (n - 48)
      else if 97 \<le> n \<and> n \<le> 102 then Some (n - 87)
      else if 65 \<le> n \<and> n \<le> 70 then Some (n - 55) else None)"

fun parse_byte :: "char \<Rightarrow> char \<Rightarrow> int option" where
  "parse_byte a b =
     (case hex_value a of
        Some x \<Rightarrow> (case hex_value b of
            Some y \<Rightarrow> Some (int (16 * x + y))
          | None \<Rightarrow> if x = 0 \<and> (b = CHR ''x'' \<or> b = CHR ''X'') then None else Some (int x))
      | None \<Rightarrow> if js_space a \<or> a = CHR ''+'' then map_option int (hex_value b)
          else if a = CHR ''-'' then map_option (\<lambda>y. - int y) (hex_value b)
          else None)"

text \<open>Storing a number into a byte array keeps it modulo 256.\<close>

fun hexDecode :: "string \<Rightarrow> nat list option" where
  "hexDecode [] = Some []"
| "hexDecode [a] = None"
| "hexDecode (a # b # s) =
     (case parse_byte a b of
        None \<Rightarrow> None
      | Some v \<Rightarrow> map_option (Cons (nat (v mod 256))) (hexDecode s))"

text \<open>\<open>split_part(s, ':', 3)\<close>.\<close>

fun fields :: "string \<Rightarrow> string list" where
  "fields [] = [[]]"
| "fields (c # cs) =
     (if c = CHR '':'' then [] # fields cs
      else case fields cs of [] \<Rightarrow> [[c]] | f # fs \<Rightarrow> (c # f) # fs)"

definition third_field :: "string \<Rightarrow> string" where
  "third_field s = (case drop 2 (fields s) of [] \<Rightarrow> [] | f # fs \<Rightarrow> f)"

text \<open>
  The statement that steals a tap: the newest row of the charger that is armed, or matched to
  the same tag; it becomes matched. The row as it was before is returned.
\<close>

definition stealable :: "int \<Rightarrow> string \<Rightarrow> string \<Rightarrow> verification \<Rightarrow> bool" where
  "stealable now box tag r \<longleftrightarrow>
     sql_like (''scan-pair:'' @ box @ '':%'') (vf_identifier r) \<and> vf_expiresAt r > now
     \<and> (pv_status (vf_value r) = Armed
        \<or> pv_status (vf_value r) = Matched \<and> pv_matchedIdTag (vf_value r) = Some tag)"

definition set_value :: "int \<Rightarrow> (verification \<Rightarrow> bool) \<Rightarrow> (pairing_value \<Rightarrow> pairing_value) \<Rightarrow> verification_db \<Rightarrow> verification_db" where
  "set_value now P f d =
     d\<lparr>vd_rows := map (\<lambda>r. if P r then r\<lparr>vf_value := f (vf_value r), vf_updatedAt := now\<rparr> else r) (vd_rows d)\<rparr>"

definition steal_tap :: "int \<Rightarrow> string \<Rightarrow> string \<Rightarrow> verification_db \<Rightarrow> verification option \<times> verification_db" where
  "steal_tap now box tag d =
     (case latest vf_createdAt (filter (stealable now box tag) (vd_rows d)) of
        None \<Rightarrow> (None, d)
      | Some r \<Rightarrow> (Some r, set_value now (\<lambda>x. vf_id x = vf_id r)
                             (\<lambda>v. v\<lparr>pv_status := Matched, pv_matchedIdTag := Some tag\<rparr>) d))"

text \<open>
  The signature and the raw text of a request, and the tag and charger of its JSON body
  (\<open>None\<close>: no JSON). \<open>verify\<close> checks a signature of the text; \<open>None\<close> when it throws.
\<close>

record hook_request =
  hk_sig :: string
  hk_raw :: string
  hk_body :: "(string option \<times> string option) option"

definition pre_authorize ::
  "(string \<Rightarrow> string) \<Rightarrow> (nat list \<Rightarrow> string \<Rightarrow> bool option) option \<Rightarrow> scan_io \<Rightarrow> hook_request \<Rightarrow> scan_world
     \<Rightarrow> scan_reply \<times> scan_world"
where
  "pre_authorize hmac verify io req w =
     (case verify of None \<Rightarrow> (Refused 401 ''unauthorized'', w) | Some check \<Rightarrow>
      if hk_sig req = [] then (Refused 401 ''unauthorized'', w)
      else case hexDecode (hk_sig req) of None \<Rightarrow> (Refused 401 ''unauthorized'', w) | Some bytes \<Rightarrow>
      (case check bytes (hk_raw req) of
        None \<Rightarrow> (Refused 500 ''internal'', w)
      | Some valid \<Rightarrow>
      if \<not> valid then (Refused 401 ''unauthorized'', w)
      else case hk_body req of None \<Rightarrow> (Refused 400 ''invalid_json'', w) | Some (tag0, box0) \<Rightarrow>
      let tag = trimmed tag0; box = trimmed box0 in
      if tag = [] \<or> box = [] then (Refused 400 ''invalid_body'', w)
      else if \<not> io_write io then (Refused 500 ''internal'', w)
      else case steal_tap (io_now io) box tag (sw_db w) of
        (None, d') \<Rightarrow> (Override None, w)
      | (Some r, d') \<Rightarrow>
          let w1 = w\<lparr>sw_db := d'\<rparr> in
          (Override (Some ''BLOCKED''),
           if pv_status (vf_value r) = Armed \<and> io_publish io
           then publish_intercepted hmac (io_now io)
                  \<lparr>ic_idTag = tag, ic_type = Charger, ic_id = box, ic_code = third_field (vf_identifier r),
                   ic_purpose = (case pv_purpose (vf_value r) of None \<Rightarrow> ''login'' | Some p \<Rightarrow> p),
                   ic_t = io_now io, ic_source = ''ocpp-preauth''\<rparr> w1
           else w1)))"

section \<open>The answers of a phone\<close>

text \<open>A request whose body passed the schema's types; its lengths are checked here.\<close>

record result_body =
  rb_idTag :: string
  rb_code :: string
  rb_ts :: int
  rb_nonce :: string

definition valid_result :: "result_body \<Rightarrow> bool" where
  "valid_result b \<longleftrightarrow> 1 \<le> length (rb_idTag b) \<and> length (rb_idTag b) \<le> 64
     \<and> 1 \<le> length (rb_code b) \<and> length (rb_code b) \<le> 64
     \<and> 1 \<le> length (rb_nonce b) \<and> length (rb_nonce b) \<le> 128"

definition CLOCK_SKEW_S :: int where "CLOCK_SKEW_S = 60"

text \<open>Claiming the pairing of a scan: all armed rows of the identifier change, one is expected.\<close>

definition claim_pairing :: "int \<Rightarrow> string \<Rightarrow> string \<Rightarrow> verification_db \<Rightarrow> verification option \<times> verification_db" where
  "claim_pairing now ident tag d =
     (let hit = (\<lambda>r. vf_identifier r = ident \<and> vf_expiresAt r > now \<and> pv_status (vf_value r) = Armed);
          d' = set_value now hit (\<lambda>v. v\<lparr>pv_status := Consumed, pv_matchedIdTag := Some tag\<rparr>) d
      in case filter hit (vd_rows d) of [r] \<Rightarrow> (Some r, d') | _ \<Rightarrow> (None, d'))"

text \<open>
  \<open>dev\<close>: the identifier and the secret of the device the bearer token belongs to. \<open>dmac\<close> signs
  under a device's secret, \<open>None\<close> when the secret does not decode.
\<close>

definition result_text :: "string \<Rightarrow> string \<Rightarrow> string \<Rightarrow> int \<Rightarrow> string" where
  "result_text tag code dev ts =
     ''scan-result/v1|'' @ tag @ ''|'' @ code @ ''|'' @ dev @ ''|'' @ show_int ts"

definition scan_result_POST ::
  "(string \<Rightarrow> string) \<Rightarrow> (string \<Rightarrow> string \<Rightarrow> string option) \<Rightarrow> scan_io \<Rightarrow> (string \<times> string) option
     \<Rightarrow> result_body option \<Rightarrow> scan_world \<Rightarrow> scan_reply \<times> scan_world"
where
  "scan_result_POST hmac dmac io bearer body w =
     (case bearer of None \<Rightarrow> (Refused 401 ''unauthorized'', w) | Some (dev, secret) \<Rightarrow>
      (case body of None \<Rightarrow> (Refused 400 ''invalid_body'', w) | Some b \<Rightarrow>
      if \<not> valid_result b then (Refused 400 ''invalid_body'', w)
      else let tag = to_upper (rb_idTag b); code = rb_code b in
      if \<bar>io_now io div 1000 - rb_ts b\<bar> > CLOCK_SKEW_S then (Refused 400 ''clock_skew'', w)
      else case dmac secret (result_text tag code dev (rb_ts b)) of
        None \<Rightarrow> (Refused 401 ''invalid_nonce'', w)
      | Some expected \<Rightarrow>
      if expected \<noteq> to_lower (rb_nonce b) then (Refused 401 ''invalid_nonce'', w)
      else if \<not> io_write io then (Refused 500 ''internal'', w)
      else case claim_pairing (io_now io) (devicePairingIdentifier dev code) tag (sw_db w) of
        (None, d') \<Rightarrow> (Refused 429 ''rate_limited'', w\<lparr>sw_db := d'\<rparr>)
      | (Some r, d') \<Rightarrow>
          let w1 = w\<lparr>sw_db := d'\<rparr> in
          (Accepted,
           if io_publish io
           then publish_intercepted hmac (io_now io)
                  \<lparr>ic_idTag = tag, ic_type = Phone, ic_id = dev, ic_code = code,
                   ic_purpose = (case pv_purpose (vf_value r) of None \<Rightarrow> ''login'' | Some p \<Rightarrow> p),
                   ic_t = io_now io, ic_source = ''device-scan-result''\<rparr> w1
           else w1)))"

definition scan_cancel_POST :: "scan_io \<Rightarrow> string option \<Rightarrow> string option \<Rightarrow> scan_world \<Rightarrow> scan_reply \<times> scan_world" where
  "scan_cancel_POST io bearer code w =
     (case bearer of None \<Rightarrow> (Refused 401 ''unauthorized'', w) | Some dev \<Rightarrow>
      (case code of None \<Rightarrow> (Refused 400 ''invalid_body'', w) | Some c \<Rightarrow>
      if c = [] \<or> length c > 64 then (Refused 400 ''invalid_body'', w)
      else if \<not> io_write io then (Refused 500 ''internal'', w)
      else (Accepted, publishDeviceScanCancelled (io_publish io) dev c ''device''
                        (release_row (devicePairingIdentifier dev c) w))))"

section \<open>Chargers whose names look alike\<close>

lemma latest_singleton [simp]: "latest f [r] = Some r"
  by (simp add: latest_def)

lemma publish_unbound:
  assumes "\<forall>s \<in> set (sw_streams w). bd_id (ss_binding s) \<noteq> ic_id e"
  shows "sw_streams (publish_intercepted hmac now e w) = sw_streams w"
  using assms by (auto simp: publish_intercepted_def bound_to_def intro!: map_idI)

text \<open>
  A charger whose name contains an underscore takes the taps of other pairings: when the
  only open pairing is armed for a charger whose name has another character in that place, a tap
  at this charger is blocked, the pairing of the other charger is used up by the tag, and no
  waiting browser hears of the tap.
\<close>

theorem underscore_steals_pairing:
  assumes "plain_text a" "plain_text c" "x \<noteq> CHR ''_''"
    and "trimmed tag0 = tag" "tag \<noteq> []" "trimmed box0 = a @ ''_'' @ c"
    and "vd_rows (sw_db w) = [r]" "vf_identifier r = chargerPairingIdentifier (a @ [x] @ c) code"
    and "vf_expiresAt r > io_now io" "pv_status (vf_value r) = Armed" "io_write io"
    and "\<forall>s \<in> set (sw_streams w). bd_id (ss_binding s) \<noteq> a @ ''_'' @ c"
    and "hk_sig req \<noteq> []" "hexDecode (hk_sig req) = Some bytes" "check bytes (hk_raw req) = Some True"
    and "hk_body req = Some (tag0, box0)"
    and "pre_authorize hmac (Some check) io req w = (reply, w')"
  shows "reply = Override (Some ''BLOCKED'') \<and> sw_streams w' = sw_streams w
    \<and> (\<exists>r'. vd_rows (sw_db w') = [r'] \<and> vf_identifier r' = vf_identifier r
         \<and> pv_status (vf_value r') = Matched \<and> pv_matchedIdTag (vf_value r') = Some tag)"
proof -
  have "plain_text ''scan-pair:''" "plain_text (c @ '':'')" using assms(2) by (auto simp: plain_text_def)
  then have "sql_like (''scan-pair:'' @ (a @ ''_'' @ c) @ '':%'') (''scan-pair:'' @ (a @ [x] @ c) @ '':'' @ code)"
    using like_plain [of "''scan-pair:''"] like_plain [OF assms(1)] like_plain [of "c @ '':''" "''%''" code] like_percent [of code]
    by (simp del: sql_like.simps) (simp add: like_plain)
  then have s: "stealable (io_now io) (a @ ''_'' @ c) tag r"
    using assms(8-10) by (simp add: stealable_def chargerPairingIdentifier_def del: sql_like.simps)
  have steal: "steal_tap (io_now io) (a @ ''_'' @ c) tag (sw_db w)
      = (Some r, (sw_db w)\<lparr>vd_rows := [r\<lparr>vf_value := (vf_value r)\<lparr>pv_status := Matched, pv_matchedIdTag := Some tag\<rparr>, vf_updatedAt := io_now io\<rparr>]\<rparr>)"
    using s by (simp add: steal_tap_def assms(7) set_value_def)
  let ?w = "w\<lparr>sw_db := (sw_db w)\<lparr>vd_rows := [r\<lparr>vf_value := (vf_value r)\<lparr>pv_status := Matched, pv_matchedIdTag := Some tag\<rparr>, vf_updatedAt := io_now io\<rparr>]\<rparr>\<rparr>"
  let ?e = "\<lparr>ic_idTag = tag, ic_type = Charger, ic_id = a @ ''_'' @ c, ic_code = third_field (vf_identifier r),
    ic_purpose = (case pv_purpose (vf_value r) of None \<Rightarrow> ''login'' | Some p \<Rightarrow> p), ic_t = io_now io, ic_source = ''ocpp-preauth''\<rparr>"
  have unheard: "sw_streams (publish_intercepted hmac (io_now io) ?e ?w) = sw_streams w"
    using publish_unbound [of ?w ?e hmac "io_now io"] assms(12) by simp
  have "reply = Override (Some ''BLOCKED'')" "w' = ?w \<or> w' = publish_intercepted hmac (io_now io) ?e ?w"
    using assms(4-6, 11, 13-17) steal by (auto simp: pre_authorize_def Let_def split: if_splits)
  then show ?thesis using unheard by (auto simp: publish_intercepted_def)
qed

definition demo_io :: "int \<Rightarrow> scan_io" where
  "demo_io t = \<lparr>io_now = t, io_rate = True, io_load = True, io_query = True, io_write = True, io_requery = True,
     io_publish = True, io_docker = True, io_bytes = replicate 16 0, io_apns = None\<rparr>"

definition twin_world :: scan_world where
  "twin_world = \<lparr>sw_db = \<lparr>vd_rows = [\<lparr>vf_id = 0, vf_identifier = ''scan-pair:EV-1:code'',
       vf_value = \<lparr>pv_status = Armed, pv_matchedIdTag = None, pv_purpose = None, pv_hintLabel = None, pv_by = None\<rparr>,
       vf_expiresAt = 9000, vf_createdAt = 0, vf_updatedAt = 0\<rparr>], vd_nextId = 1\<rparr>,
     sw_rates = [], sw_devices = [], sw_chargers = [], sw_mappings = [], sw_users = [],
     sw_streams = [\<lparr>ss_ip = ''ip'', ss_binding = \<lparr>bd_type = Charger, bd_id = ''EV-1'', bd_code = ''code''\<rparr>,
       ss_open = True, ss_sent = []\<rparr>],
     sw_concurrent = [(''ip'', 1)], sw_bus = [], sw_phone = [], sw_pushes = [], sw_sessions = []\<rparr>"

definition twin_request :: hook_request where
  "twin_request = \<lparr>hk_sig = ''00'', hk_raw = ''text'', hk_body = Some (Some ''CARD9'', Some ''EV_1'')\<rparr>"

text \<open>A tap at EV_1 while a browser waits for EV-1.\<close>

theorem underscore_steals_pairing_witness:
  "fst (pre_authorize to_lower (Some (\<lambda>_ _. Some True)) (demo_io 1000) twin_request twin_world) = Override (Some ''BLOCKED'')
   \<and> map (\<lambda>s. ss_sent s) (sw_streams (snd (pre_authorize to_lower (Some (\<lambda>_ _. Some True)) (demo_io 1000) twin_request twin_world))) = [[]]"
proof -
  let ?res = "pre_authorize to_lower (Some (\<lambda>_ _. Some True)) (demo_io 1000) twin_request twin_world"
  have *: "fst ?res = Override (Some ''BLOCKED'') \<and> sw_streams (snd ?res) = sw_streams twin_world
      \<and> (\<exists>r'. vd_rows (sw_db (snd ?res)) = [r'] \<and> vf_identifier r' = vf_identifier (hd (vd_rows (sw_db twin_world)))
           \<and> pv_status (vf_value r') = Matched \<and> pv_matchedIdTag (vf_value r') = Some ''CARD9'')"
    by (rule underscore_steals_pairing [where a = "''EV''" and c = "''1''" and x = "CHR ''-''" and code = "''code''"
          and ?tag0.0 = "Some ''CARD9''" and ?box0.0 = "Some ''EV_1''" and bytes = "[0]"])
      (simp_all add: plain_text_def twin_world_def twin_request_def demo_io_def trimmed_def js_trim_def js_space_def
        hex_value_def chargerPairingIdentifier_def)
  then show ?thesis by (simp add: twin_world_def)
qed

end
