(* ===== verification/ScanLogin.thy ===== *)
theory ScanLogin
  imports Scan
begin

text \<open>
  Completing a scan with a customer session (\<open>routes/api/auth/scan-login.ts\<close>, with
  \<open>createCustomerSession\<close> of \<open>src/lib/auth-helpers.ts\<close>), and the whole flow as sequences of
  requests. A session needs a tap of the same tag at most sixty seconds ago and uses its pairing
  row up; a scan made with a phone can never be completed, because the phone's answer already
  consumes the row.
\<close>

section \<open>The session\<close>

text \<open>What the session library does with a valid user: it may throw, or fail in two ways.\<close>

datatype adapter = Throws | User_missing | Session_missing | Creates

definition signInWithUserId :: "adapter \<Rightarrow> user_row list \<Rightarrow> string \<Rightarrow> int option" where
  "signInWithUserId a users uid =
     (if uid = [] then Some 400
      else case find (\<lambda>u. us_id u = uid) users of
        None \<Rightarrow> Some 404
      | Some u \<Rightarrow>
          if us_role u \<noteq> ''customer'' then Some 403
          else case a of Throws \<Rightarrow> None | User_missing \<Rightarrow> Some 500 | Session_missing \<Rightarrow> Some 500 | Creates \<Rightarrow> Some 200)"

text \<open>
  The helper asks for a response object, so that an error status does not throw: the result is
  whether the headers carry a session cookie, \<open>None\<close> when the call throws.
\<close>

definition createCustomerSession :: "adapter \<Rightarrow> user_row list \<Rightarrow> string \<Rightarrow> bool option" where
  "createCustomerSession a users uid = map_option (\<lambda>st. st = 200) (signInWithUserId a users uid)"

record login_io =
  li_now :: int
  li_rate :: bool
  li_sign :: bool
  li_consume :: bool
  li_mapping :: bool
  li_user :: bool
  li_adapter :: adapter
  li_cleanup :: bool

text \<open>
  The strings of the body (a missing one is empty) and its time, \<open>None\<close> when that is no finite
  number. Times are whole numbers, as the streams send them.
\<close>

record login_body =
  lb_code :: string
  lb_box :: string
  lb_dev :: string
  lb_tag :: string
  lb_nonce :: string
  lb_t :: "int option"

definition REPLAY_WINDOW_MS :: int where "REPLAY_WINDOW_MS = 60000"
definition LOGIN_LIMIT_PER_IP :: nat where "LOGIN_LIMIT_PER_IP = 10"

definition consumable :: "int \<Rightarrow> string \<Rightarrow> string \<Rightarrow> verification \<Rightarrow> bool" where
  "consumable now ident tag r \<longleftrightarrow> vf_identifier r = ident \<and> vf_expiresAt r > now
     \<and> (pv_status (vf_value r) = Armed
        \<or> pv_status (vf_value r) = Matched \<and> pv_matchedIdTag (vf_value r) = Some tag)"

definition consume_pairing :: "int \<Rightarrow> string \<Rightarrow> string \<Rightarrow> verification_db \<Rightarrow> nat list \<times> verification_db" where
  "consume_pairing now ident tag d =
     (map vf_id (filter (consumable now ident tag) (vd_rows d)),
      set_value now (consumable now ident tag) (\<lambda>v. v\<lparr>pv_status := Consumed\<rparr>) d)"

definition login_pairable :: "login_body \<Rightarrow> pairable \<times> string" where
  "login_pairable b = (if lb_dev b \<noteq> [] then (Phone, lb_dev b) else (Charger, lb_box b))"

definition login_identifier :: "login_body \<Rightarrow> string" where
  "login_identifier b = (case login_pairable b of (ty, pid) \<Rightarrow>
     bd_identifier \<lparr>bd_type = ty, bd_id = pid, bd_code = lb_code b\<rparr>)"

text \<open>Steps 4 to 9, after the row \<open>row\<close> is consumed.\<close>

definition finish_login :: "login_io \<Rightarrow> string \<Rightarrow> nat \<Rightarrow> scan_world \<Rightarrow> scan_reply \<times> scan_world" where
  "finish_login io tag row w =
     (if \<not> li_mapping io then (Refused 500 ''internal'', w)
      else case find (\<lambda>m. steveOcppIdTag m = tag \<and> isActive m) (sw_mappings w) of
        None \<Rightarrow> (Refused 401 ''unauthorized'', w)
      | Some m \<Rightarrow>
          if \<not> truthy (userId m) then (Refused 401 ''unauthorized'', w)
          else if \<not> li_user io then (Refused 500 ''internal'', w)
          else case find (\<lambda>u. us_id u = the (userId m)) (sw_users w) of
            None \<Rightarrow> (Refused 401 ''unauthorized'', w)
          | Some u \<Rightarrow>
              if us_role u \<noteq> ''customer'' then (Refused 401 ''unauthorized'', w)
              else case createCustomerSession (li_adapter io) (sw_users w) (us_id u) of
                None \<Rightarrow> (Refused 500 ''internal'', w)
              | Some cookie \<Rightarrow>
                  (LoggedIn (us_id u),
                   w\<lparr>sw_sessions := sw_sessions w @ (if cookie
                        then [\<lparr>ls_row = row, ls_user = us_id u, ls_tag = tag, ls_time = li_now io\<rparr>] else []),
                     sw_db := (if li_cleanup io
                        then (sw_db w)\<lparr>vd_rows := filter (\<lambda>r. vf_id r \<noteq> row) (vd_rows (sw_db w))\<rparr> else sw_db w)\<rparr>))"

definition scan_login_POST ::
  "(string \<Rightarrow> string) \<Rightarrow> login_io \<Rightarrow> string \<Rightarrow> login_body option \<Rightarrow> scan_world \<Rightarrow> scan_reply \<times> scan_world"
where
  "scan_login_POST hmac io ip body w =
     (case checkRateLimit (li_rate io) (li_now io) (''scanlogin:ip:'' @ ip) LOGIN_LIMIT_PER_IP (sw_rates w) of
        (ok1, r1) \<Rightarrow> let w1 = w\<lparr>sw_rates := r1\<rparr> in
      if \<not> ok1 then (Refused 429 ''rate_limited'', w1)
      else case body of None \<Rightarrow> (Refused 400 ''invalid_json'', w1) | Some b \<Rightarrow>
      let tag = js_trim (lb_tag b) in
      if lb_code b = [] \<or> tag = [] \<or> lb_nonce b = [] \<or> lb_t b = None
         \<or> (lb_box b = [] \<and> lb_dev b = []) \<or> (lb_box b \<noteq> [] \<and> lb_dev b \<noteq> [])
      then (Refused 400 ''invalid_body'', w1)
      else case checkRateLimit (li_rate io) (li_now io) (''scanlogin:pairing:'' @ lb_code b) 1 r1 of
        (ok2, r2) \<Rightarrow> let w2 = w\<lparr>sw_rates := r2\<rparr> in
      if \<not> ok2 then (Refused 429 ''rate_limited'', w2)
      else if \<not> li_sign io then (Refused 500 ''internal'', w2)
      else if signNonce hmac tag (lb_code b) (snd (login_pairable b)) (the (lb_t b)) \<noteq> to_lower (lb_nonce b)
      then (Refused 403 ''forbidden'', w2)
      else if li_now io - the (lb_t b) < 0 \<or> li_now io - the (lb_t b) > REPLAY_WINDOW_MS
      then (Refused 403 ''stale'', w2)
      else if \<not> li_consume io then (Refused 500 ''internal'', w2)
      else case consume_pairing (li_now io) (login_identifier b) tag (sw_db w2) of
        (ids, d') \<Rightarrow> let w3 = w2\<lparr>sw_db := d'\<rparr> in
      (case ids of [row] \<Rightarrow> finish_login io tag row w3 | _ \<Rightarrow> (Refused 429 ''rate_limited'', w3)))"

section \<open>Sequences of requests\<close>

text \<open>
  \<open>Attach\<close> is the second part of opening a stream, with the counter read earlier; \<open>Forget\<close> drops
  the oldest events of the ring buffer; \<open>Edit\<close> is any change of the tables other parts own.
\<close>

datatype scan_cmd =
    Pair scan_io string "pair_body option"
  | Unpair scan_io string "pair_body option"
  | Admin_arm scan_io "string option" "pair_body option"
  | Admin_release scan_io "string option" "pair_body option"
  | Device_arm scan_io "(string \<times> string) option" string "(string option \<times> hint_field) option"
  | Device_release scan_io "(string \<times> string) option" string "string option"
  | Hook scan_io hook_request
  | Attach scan_io string string string string int
  | Close_stream nat
  | Log_line bool "string option" "string option" int
  | Phone_result scan_io "(string \<times> string) option" "result_body option"
  | Phone_cancel scan_io "string option" "string option"
  | Login login_io string "login_body option"
  | Forget nat
  | Edit "device_row list" "(string \<times> int option) list" "user_mapping list" "user_row list" "rate_row list"

record scan_keys =
  sk_hmac :: "string \<Rightarrow> string"
  sk_verify :: "(nat list \<Rightarrow> string \<Rightarrow> bool option) option"
  sk_dmac :: "string \<Rightarrow> string \<Rightarrow> string option"

fun scan_exec :: "scan_keys \<Rightarrow> scan_cmd \<Rightarrow> scan_world \<Rightarrow> scan_world" where
  "scan_exec k (Pair io ip b) w = snd (scan_pair_POST io ip b w)"
| "scan_exec k (Unpair io ip b) w = snd (scan_pair_DELETE io ip b w)"
| "scan_exec k (Admin_arm io a b) w = snd (admin_scan_arm_POST io a b w)"
| "scan_exec k (Admin_release io a b) w = snd (admin_scan_arm_DELETE io a b w)"
| "scan_exec k (Device_arm io u dev b) w = snd (device_scan_arm_POST io u dev b w)"
| "scan_exec k (Device_release io u dev c) w = snd (device_scan_arm_DELETE io u dev c w)"
| "scan_exec k (Hook io req) w = snd (pre_authorize (sk_hmac k) (sk_verify k) io req w)"
| "scan_exec k (Attach io ip code box dev cur) w =
     (case detect_binding code box dev of Inl e \<Rightarrow> w | Inr b \<Rightarrow> snd (detect_attach (sk_hmac k) io ip b cur w))"
| "scan_exec k (Close_stream i) w = close_stream i w"
| "scan_exec k (Log_line reject tag box t) w = log_line (sk_hmac k) reject tag box t w"
| "scan_exec k (Phone_result io bearer b) w = snd (scan_result_POST (sk_hmac k) (sk_dmac k) io bearer b w)"
| "scan_exec k (Phone_cancel io bearer c) w = snd (scan_cancel_POST io bearer c w)"
| "scan_exec k (Login io ip b) w = snd (scan_login_POST (sk_hmac k) io ip b w)"
| "scan_exec k (Forget n) w = w\<lparr>sw_bus := drop n (sw_bus w)\<rparr>"
| "scan_exec k (Edit ds cs ms us rs) w =
     w\<lparr>sw_devices := ds, sw_chargers := cs, sw_mappings := ms, sw_users := us, sw_rates := rs\<rparr>"

text \<open>The tap an authentic request reports: the tag and the time.\<close>

definition hook_valid :: "scan_keys \<Rightarrow> hook_request \<Rightarrow> bool" where
  "hook_valid k req = (case sk_verify k of None \<Rightarrow> False | Some check \<Rightarrow>
     (case hexDecode (hk_sig req) of None \<Rightarrow> False | Some bytes \<Rightarrow> check bytes (hk_raw req) = Some True))"

definition result_valid :: "scan_keys \<Rightarrow> (string \<times> string) option \<Rightarrow> result_body \<Rightarrow> bool" where
  "result_valid k bearer b = (case bearer of None \<Rightarrow> False | Some (dev, secret) \<Rightarrow>
     sk_dmac k secret (result_text (to_upper (rb_idTag b)) (rb_code b) dev (rb_ts b)) = Some (to_lower (rb_nonce b)))"

fun tap_of :: "scan_keys \<Rightarrow> scan_cmd \<Rightarrow> (string \<times> int) option" where
  "tap_of k (Hook io req) =
     (case hk_body req of None \<Rightarrow> None
      | Some (tag, box) \<Rightarrow> if hook_valid k req then Some (trimmed tag, io_now io) else None)"
| "tap_of k (Log_line reject tag box t) = map_option (\<lambda>x. (x, t)) tag"
| "tap_of k (Phone_result io bearer b) =
     (case b of None \<Rightarrow> None
      | Some x \<Rightarrow> if result_valid k bearer x then Some (to_upper (rb_idTag x), io_now io) else None)"
| "tap_of k _ = None"

definition colon_free :: "string \<Rightarrow> bool" where
  "colon_free s \<longleftrightarrow> CHR '':'' \<notin> set s"

text \<open>The text after the last colon: the pairing code of an identifier.\<close>

definition code_of :: "string \<Rightarrow> string" where
  "code_of s = rev (takeWhile (\<lambda>c. c \<noteq> CHR '':'') (rev s))"

definition new_idents :: "scan_world \<Rightarrow> scan_world \<Rightarrow> string list" where
  "new_idents w w' = map vf_identifier (filter (\<lambda>r. vf_id r \<ge> vd_nextId (sw_db w)) (vd_rows (sw_db w')))"

text \<open>
  Runs from a world without pairings, with the identifiers armed so far. Random codes never
  repeat, tags and device identifiers contain no colon.
\<close>

inductive scan_reach :: "scan_keys \<Rightarrow> scan_cmd list \<Rightarrow> string list \<Rightarrow> scan_world \<Rightarrow> bool" for k where
  scan_start: "vd_rows (sw_db w) = [] \<Longrightarrow> sw_streams w = [] \<Longrightarrow> sw_bus w = [] \<Longrightarrow> sw_sessions w = []
    \<Longrightarrow> scan_reach k [] [] w"
| scan_step: "scan_reach k es cs w \<Longrightarrow> w' = scan_exec k c w
    \<Longrightarrow> distinct (map code_of (new_idents w w' @ cs))
    \<Longrightarrow> (\<forall>tag t. tap_of k c = Some (tag, t) \<longrightarrow> colon_free tag)
    \<Longrightarrow> (\<forall>d \<in> set (sw_devices w). colon_free (dv_id d))
    \<Longrightarrow> scan_reach k (es @ [c]) (new_idents w w' @ cs) w'"

section \<open>The invariant\<close>

definition consumed_in :: "verification_db \<Rightarrow> string \<Rightarrow> bool" where
  "consumed_in d ident \<longleftrightarrow> (\<forall>r \<in> set (vd_rows d). vf_identifier r = ident \<longrightarrow> pv_status (vf_value r) = Consumed)"

definition good_ident :: "string \<Rightarrow> bool" where
  "good_ident i \<longleftrightarrow> (\<exists>b. i = bd_identifier b \<and> colon_free (bd_code b) \<and> (bd_type b = Phone \<longrightarrow> colon_free (bd_id b)))"

definition stream_ok :: "(string \<times> int) set \<Rightarrow> string list \<Rightarrow> verification_db \<Rightarrow> scan_stream \<Rightarrow> bool" where
  "stream_ok T cs d s \<longleftrightarrow> bd_identifier (ss_binding s) \<in> set cs
     \<and> (\<forall>(tag, n, t) \<in> set (ss_sent s). (tag, t) \<in> T)
     \<and> (bd_type (ss_binding s) = Phone \<and> ss_sent s \<noteq> [] \<longrightarrow> consumed_in d (bd_identifier (ss_binding s)))"

definition event_ok :: "(string \<times> int) set \<Rightarrow> string list \<Rightarrow> verification_db \<Rightarrow> intercepted \<Rightarrow> bool" where
  "event_ok T cs d e \<longleftrightarrow> (ic_idTag e, ic_t e) \<in> T
     \<and> (ic_type e = Phone \<longrightarrow> devicePairingIdentifier (ic_id e) (ic_code e) \<in> set cs
          \<and> consumed_in d (devicePairingIdentifier (ic_id e) (ic_code e)))"

definition rows_ok :: "string list \<Rightarrow> verification_db \<Rightarrow> bool" where
  "rows_ok cs d \<longleftrightarrow> distinct (map vf_id (vd_rows d)) \<and> (\<forall>r \<in> set (vd_rows d). vf_id r < vd_nextId d)
     \<and> distinct (map vf_identifier (vd_rows d)) \<and> vf_identifier ` set (vd_rows d) \<subseteq> set cs
     \<and> distinct (map code_of cs) \<and> (\<forall>i \<in> set cs. good_ident i)"

definition sessions_ok :: "verification_db \<Rightarrow> login_session list \<Rightarrow> bool" where
  "sessions_ok d ss \<longleftrightarrow> distinct (map ls_row ss)
     \<and> (\<forall>x \<in> set ss. ls_row x < vd_nextId d
          \<and> (\<forall>r \<in> set (vd_rows d). vf_id r = ls_row x \<longrightarrow> pv_status (vf_value r) = Consumed))"

definition scan_inv :: "(string \<times> int) set \<Rightarrow> string list \<Rightarrow> verification_db \<Rightarrow> scan_stream list
    \<Rightarrow> (int \<times> intercepted) list \<Rightarrow> login_session list \<Rightarrow> bool" where
  "scan_inv T cs d strs bus ss \<longleftrightarrow> rows_ok cs d \<and> (\<forall>s \<in> set strs. stream_ok T cs d s)
     \<and> (\<forall>x \<in> set bus. event_ok T cs d (snd x)) \<and> sessions_ok d ss"

abbreviation world_inv :: "(string \<times> int) set \<Rightarrow> string list \<Rightarrow> scan_world \<Rightarrow> bool" where
  "world_inv T cs w \<equiv> scan_inv T cs (sw_db w) (sw_streams w) (sw_bus w) (sw_sessions w)"

text \<open>Rows may be deleted and change their value, but a consumed row stays consumed.\<close>

definition db_evolves :: "verification_db \<Rightarrow> verification_db \<Rightarrow> bool" where
  "db_evolves d d' \<longleftrightarrow> vd_nextId d' = vd_nextId d
     \<and> (\<exists>f P. vd_rows d' = map f (filter P (vd_rows d))
          \<and> (\<forall>r \<in> set (vd_rows d). vf_id (f r) = vf_id r \<and> vf_identifier (f r) = vf_identifier r
               \<and> (pv_status (vf_value r) = Consumed \<longrightarrow> pv_status (vf_value (f r)) = Consumed)))"

lemma db_evolves_refl [simp]: "db_evolves d d"
  unfolding db_evolves_def by (rule conjI, simp, rule exI [of _ id], rule exI [of _ "\<lambda>_. True"]) simp

lemma db_evolves_filter: "db_evolves d (d\<lparr>vd_rows := filter P (vd_rows d)\<rparr>)"
  unfolding db_evolves_def by (rule conjI, simp, rule exI [of _ id], rule exI [of _ P]) simp

lemma db_evolves_set_value:
  assumes "\<And>r. r \<in> set (vd_rows d) \<Longrightarrow> P r \<Longrightarrow> pv_status (vf_value r) = Consumed \<Longrightarrow> pv_status (f (vf_value r)) = Consumed"
  shows "db_evolves d (set_value now P f d)"
  unfolding db_evolves_def set_value_def using assms
  by (intro conjI exI [of _ "\<lambda>r. if P r then r\<lparr>vf_value := f (vf_value r), vf_updatedAt := now\<rparr> else r"] exI [of _ "\<lambda>_. True"]) auto

lemma db_evolves_D:
  assumes "db_evolves d d'" "r' \<in> set (vd_rows d')"
  obtains r where "r \<in> set (vd_rows d)" "vf_id r' = vf_id r" "vf_identifier r' = vf_identifier r"
    "pv_status (vf_value r) = Consumed \<Longrightarrow> pv_status (vf_value r') = Consumed"
  using assms unfolding db_evolves_def by (auto simp: image_iff)

lemma consumed_evolves: "db_evolves d d' \<Longrightarrow> consumed_in d i \<Longrightarrow> consumed_in d' i"
  unfolding consumed_in_def by (metis db_evolves_D)

lemma map_filter_evolves:
  assumes "\<And>r. r \<in> set xs \<Longrightarrow> g (f r) = g r" and "distinct (map g xs)"
  shows "distinct (map g (map f (filter P xs)))"
proof -
  have "map g (map f (filter P xs)) = map g (filter P xs)" using assms(1) by (induction xs) auto
  then show ?thesis using assms(2) by (simp add: distinct_map_filter_pred del: map_map)
qed

lemma rows_ok_evolves:
  assumes "rows_ok cs d" "db_evolves d d'"
  shows "rows_ok cs d'"
proof -
  obtain f P where rows: "vd_rows d' = map f (filter P (vd_rows d))"
    and f: "\<And>r. r \<in> set (vd_rows d) \<Longrightarrow> vf_id (f r) = vf_id r" "\<And>r. r \<in> set (vd_rows d) \<Longrightarrow> vf_identifier (f r) = vf_identifier r"
    and next_id: "vd_nextId d' = vd_nextId d"
    using assms(2) unfolding db_evolves_def by blast
  have "distinct (map vf_id (vd_rows d'))" "distinct (map vf_identifier (vd_rows d'))"
    using assms(1) map_filter_evolves [of "vd_rows d" vf_id f P] map_filter_evolves [of "vd_rows d" vf_identifier f P] f
    by (simp_all add: rows_ok_def rows)
  then show ?thesis using assms(1) f next_id by (auto simp: rows_ok_def rows)
qed

lemma sessions_ok_evolves: "sessions_ok d ss \<Longrightarrow> db_evolves d d' \<Longrightarrow> sessions_ok d' ss"
  unfolding sessions_ok_def
  by (rule conjI, blast, rule ballI, rule conjI, simp add: db_evolves_def, metis db_evolves_D)

lemma scan_inv_evolves:
  assumes "scan_inv T cs d strs bus ss" "db_evolves d d'"
  shows "scan_inv T cs d' strs bus ss"
  using assms rows_ok_evolves [of cs d d'] sessions_ok_evolves [of d ss d'] consumed_evolves [of d d']
  unfolding scan_inv_def stream_ok_def event_ok_def by blast

lemma new_idents_evolves:
  assumes "world_inv T cs w" "db_evolves (sw_db w) (sw_db w')"
  shows "new_idents w w' = []"
proof -
  have "\<forall>r \<in> set (vd_rows (sw_db w')). vf_id r < vd_nextId (sw_db w)"
    using assms(1) by (auto simp: scan_inv_def rows_ok_def elim!: db_evolves_D [OF assms(2)])
  then show ?thesis by (auto simp: new_idents_def filter_empty_conv)
qed

lemma scan_inv_mono:
  assumes "scan_inv T cs d strs bus ss" "T \<subseteq> T'"
  shows "scan_inv T' cs d strs bus ss"
  using assms unfolding scan_inv_def stream_ok_def event_ok_def by (auto simp: split_beta)

text \<open>A new row.\<close>

lemma scan_inv_insert:
  assumes "scan_inv T cs d strs bus ss" "distinct (map code_of (ident # cs))" "good_ident ident"
  shows "scan_inv T (ident # cs) (snd (insert_row now ident v d)) strs bus ss"
proof -
  have new: "ident \<notin> set cs" using assms(2) by auto
  have "consumed_in (snd (insert_row now ident v d)) i" if "consumed_in d i" "i \<in> set cs" for i
    using that new by (auto simp: consumed_in_def insert_row_def)
  moreover have "rows_ok (ident # cs) (snd (insert_row now ident v d))"
    using assms new by (auto simp: scan_inv_def rows_ok_def insert_row_def)
  moreover have "sessions_ok (snd (insert_row now ident v d)) ss"
    using assms(1) by (auto simp: scan_inv_def sessions_ok_def insert_row_def less_Suc_eq)
  ultimately show ?thesis
    using assms(1) unfolding scan_inv_def stream_ok_def event_ok_def by auto
qed

text \<open>The streams.\<close>

lemma stream_ok_close: "stream_ok T cs d (s\<lparr>ss_open := b\<rparr>) = stream_ok T cs d s"
  by (simp add: stream_ok_def)

lemma stream_ok_emit:
  assumes "stream_ok T cs d s" "(tag, t) \<in> T"
    "bd_type (ss_binding s) = Phone \<Longrightarrow> consumed_in d (bd_identifier (ss_binding s))"
  shows "stream_ok T cs d (emit_scan hmac tag t s)"
  using assms by (auto simp: stream_ok_def emit_scan_def)

lemma emit_scan_binding [simp]: "ss_binding (emit_scan hmac tag t s) = ss_binding s"
  by (simp add: emit_scan_def)

lemma bound_to_Phone:
  "bound_to e b \<Longrightarrow> bd_type b = Phone \<Longrightarrow> ic_type e = Phone \<and> bd_identifier b = devicePairingIdentifier (ic_id e) (ic_code e)"
  by (simp add: bound_to_def bd_identifier_def)

lemma world_inv_publish:
  assumes "world_inv T cs w" "event_ok T cs (sw_db w) e"
  shows "world_inv T cs (publish_intercepted hmac now e w)"
  using assms unfolding scan_inv_def publish_intercepted_def
  by (auto simp: event_ok_def intro!: stream_ok_emit dest!: bound_to_Phone)

lemma world_inv_close_streams: "world_inv T cs w \<Longrightarrow> world_inv T cs (close_streams P w)"
  unfolding scan_inv_def close_streams_def by (auto simp: stream_ok_close)

lemma world_inv_close_stream: "world_inv T cs w \<Longrightarrow> world_inv T cs (close_stream i w)"
  unfolding scan_inv_def close_stream_def
  by (auto simp: stream_ok_close dest!: set_update_subset_insert [THEN subsetD])

lemma stream_ok_replay:
  assumes "\<forall>x \<in> set evs. event_ok T cs d (snd x) \<and> bound_to (snd x) (ss_binding s)" "stream_ok T cs d s"
  shows "stream_ok T cs d (fold (\<lambda>(ts, e). emit_scan hmac (ic_idTag e) (ic_t e)) evs s)"
  using assms
proof (induction evs arbitrary: s)
  case (Cons x evs)
  have "stream_ok T cs d (emit_scan hmac (ic_idTag (snd x)) (ic_t (snd x)) s)"
    using Cons.prems by (auto simp: event_ok_def intro!: stream_ok_emit dest!: bound_to_Phone)
  then show ?case using Cons.IH Cons.prems(1) by (simp add: split_beta)
qed simp

section \<open>Every request keeps the invariant\<close>

lemma world_inv_evolves:
  assumes "world_inv T cs w" "db_evolves (sw_db w) (sw_db w')"
    and "sw_streams w' = sw_streams w" "sw_bus w' = sw_bus w" "sw_sessions w' = sw_sessions w"
  shows "world_inv T cs w'"
  using assms scan_inv_evolves by metis

lemma new_idents_insert:
  assumes "world_inv T cs w" "sw_db w' = snd (insert_row now ident v (sw_db w))"
  shows "new_idents w w' = [ident]"
proof -
  have "\<forall>r \<in> set (vd_rows (sw_db w)). vf_id r < vd_nextId (sw_db w)"
    using assms(1) by (simp add: scan_inv_def rows_ok_def)
  then have "filter (\<lambda>r. vd_nextId (sw_db w) \<le> vf_id r) (vd_rows (sw_db w)) = []"
    by (auto simp: filter_empty_conv)
  then show ?thesis using assms(2) by (simp add: new_idents_def insert_row_def)
qed

lemma world_inv_insert:
  assumes "world_inv T cs w" "sw_db w' = snd (insert_row now ident v (sw_db w))" "good_ident ident"
    and "sw_streams w' = sw_streams w" "sw_bus w' = sw_bus w" "sw_sessions w' = sw_sessions w"
    and "distinct (map code_of (new_idents w w' @ cs))"
  shows "world_inv T (new_idents w w' @ cs) w'"
  using assms scan_inv_insert [of T cs "sw_db w" "sw_streams w" "sw_bus w" "sw_sessions w" ident now v]
  by (simp add: new_idents_insert [OF assms(1, 2)])

text \<open>What a request may do to the world: nothing of interest, one new row, or a change of rows.\<close>

definition same_flow :: "scan_world \<Rightarrow> scan_world \<Rightarrow> bool" where
  "same_flow w w' \<longleftrightarrow> sw_streams w' = sw_streams w \<and> sw_bus w' = sw_bus w \<and> sw_sessions w' = sw_sessions w"

definition arms_row :: "scan_world \<Rightarrow> scan_world \<Rightarrow> bool" where
  "arms_row w w' \<longleftrightarrow> same_flow w w' \<and>
     (db_evolves (sw_db w) (sw_db w')
      \<or> (\<exists>now ident v. good_ident ident \<and> sw_db w' = snd (insert_row now ident v (sw_db w))))"

lemma world_inv_arms_row:
  assumes "world_inv T cs w" "arms_row w w'" "distinct (map code_of (new_idents w w' @ cs))"
  shows "world_inv T (new_idents w w' @ cs) w'"
  using assms world_inv_insert [of T cs w w'] world_inv_evolves [of T cs w w'] new_idents_evolves [of T cs w w']
  by (auto simp: arms_row_def same_flow_def)

lemma arms_row_refl [simp]: "arms_row w w"
  by (simp add: arms_row_def same_flow_def)

lemma arms_row_rates [simp]: "arms_row (w\<lparr>sw_rates := r\<rparr>) w' = arms_row w w'"
  by (simp add: arms_row_def same_flow_def)

lemma arm_charger_arms: "arms_row w (snd (arm_charger io box purpose admin w))"
proof -
  have "\<forall>b \<in> set (map unat (take 16 (io_bytes io))). b < (256::nat)"
    using unsigned_less [where ?'b = 8 and ?'a = nat] by auto
  then have "good_ident (chargerPairingIdentifier box (generateChargerPairingCode (map unat (take 16 (io_bytes io)))))"
    by (auto simp: good_ident_def bd_identifier_def colon_free_def charger_code_plain
        intro!: exI [of _ "\<lparr>bd_type = Charger, bd_id = box, bd_code = generateChargerPairingCode (map unat (take 16 (io_bytes io)))\<rparr>"])
  then show ?thesis
    unfolding arms_row_def same_flow_def
    by (auto simp: arm_charger_def Let_def insertChargerPairingRow_def split: prod.splits) (metis snd_conv)+
qed

lemma arms_new:
  "insert_row now ident v (sw_db w) = (e, d') \<Longrightarrow> good_ident ident \<Longrightarrow> sw_db w' = d' \<Longrightarrow> same_flow w w' \<Longrightarrow> arms_row w w'"
  unfolding arms_row_def by (metis snd_conv)

lemma loadDeviceForArm_id: "loadDeviceForArm dev ds = Some d \<Longrightarrow> d \<in> set ds \<and> dv_id d = dev"
  unfolding loadDeviceForArm_def by (drule find_Some_set) simp

lemma start_push_flow [simp]:
  "sw_streams (start_push io d code p h e w) = sw_streams w" "sw_bus (start_push io d code p h e w) = sw_bus w"
  "sw_sessions (start_push io d code p h e w) = sw_sessions w" "sw_db (start_push io d code p h e w) = sw_db w"
  by (simp_all add: start_push_def split: prod.split)

lemma announce_flow [simp]:
  "sw_streams (announce ok e w) = sw_streams w" "sw_bus (announce ok e w) = sw_bus w"
  "sw_sessions (announce ok e w) = sw_sessions w" "sw_db (announce ok e w) = sw_db w"
  by (simp_all add: announce_def)

lemma admin_push_flow [simp]:
  "sw_streams (admin_push io d code p h e w) = sw_streams w" "sw_bus (admin_push io d code p h e w) = sw_bus w"
  "sw_sessions (admin_push io d code p h e w) = sw_sessions w" "sw_db (admin_push io d code p h e w) = sw_db w"
  by (simp_all add: admin_push_def split: prod.split)

lemma good_device_ident:
  assumes "\<forall>d \<in> set (sw_devices w). colon_free (dv_id d)"
    and "loadDeviceForArm dev (sw_devices w) = Some d" "generateDevicePairingCode bytes = Some code"
  shows "good_ident (devicePairingIdentifier dev code)"
  using assms(1) loadDeviceForArm_id [OF assms(2)] device_code_plain [OF assms(3)]
  by (auto simp: good_ident_def bd_identifier_def colon_free_def
      intro!: exI [of _ "\<lparr>bd_type = Phone, bd_id = dev, bd_code = code\<rparr>"])

lemma device_arm_arms:
  assumes "\<forall>d \<in> set (sw_devices w). colon_free (dv_id d)"
  shows "arms_row w (snd (device_scan_arm_POST io user dev body w))"
  unfolding device_scan_arm_POST_def insertDevicePairingRow_def
  by (auto split: option.split prod.split intro: arms_new good_device_ident [OF assms] simp: same_flow_def)

lemma armDevicePath_arms:
  assumes "\<forall>d \<in> set (sw_devices w). colon_free (dv_id d)"
  shows "arms_row w (snd (armDevicePath io dev w))"
  unfolding armDevicePath_def insertDevicePairingRow_def
  by (auto split: option.split prod.split intro: arms_new good_device_ident [OF assms] simp: same_flow_def)

text \<open>Requests that arm nothing, with the taps in \<open>T\<close>.\<close>

definition keeps :: "(string \<times> int) set \<Rightarrow> scan_world \<Rightarrow> scan_world \<Rightarrow> bool" where
  "keeps T w w' \<longleftrightarrow> vd_nextId (sw_db w') = vd_nextId (sw_db w)
     \<and> (\<forall>cs. world_inv T cs w \<longrightarrow> world_inv T cs w')"

lemma keeps_refl [simp]: "keeps T w w"
  by (simp add: keeps_def)

lemma keeps_trans: "keeps T u v \<Longrightarrow> keeps T v w \<Longrightarrow> keeps T u w"
  by (simp add: keeps_def)

lemma keeps_rates [simp]: "keeps T (w\<lparr>sw_rates := r\<rparr>) w' = keeps T w w'" "keeps T w (w'\<lparr>sw_rates := r\<rparr>) = keeps T w w'"
  by (simp_all add: keeps_def)

lemma keeps_new_idents:
  assumes "keeps T w w'" "world_inv T cs w"
  shows "new_idents w w' = []" "world_inv T cs w'"
  using assms by (auto simp: keeps_def new_idents_def filter_empty_conv scan_inv_def rows_ok_def not_le)

lemma keeps_evolves:
  assumes "db_evolves (sw_db w) (sw_db w')" "same_flow w w'"
  shows "keeps T w w'"
  using assms world_inv_evolves [of T _ w w'] by (simp add: keeps_def same_flow_def db_evolves_def)

lemma keeps_release_row: "keeps T w (release_row ident w)"
  by (rule keeps_evolves) (simp_all add: release_row_def deletePairingRow_def same_flow_def db_evolves_filter)

lemma keeps_cancelled: "keeps T w (publishDeviceScanCancelled ok dev code source w)"
proof -
  have "keeps T w (close_streams P (announce True e w))" for P e
    using world_inv_close_streams [of T _ "announce True e w" P]
    by (auto simp: keeps_def close_streams_def announce_def)
  then show ?thesis by (simp add: publishDeviceScanCancelled_def)
qed

lemma scan_pair_DELETE_keeps: "keeps T w (snd (scan_pair_DELETE io ip b w))"
proof -
  have "keeps T w (publishDeviceScanCancelled ok dev code source (release_row ident (w\<lparr>sw_rates := r\<rparr>)))" for ok dev code source ident r
    using keeps_trans [OF keeps_release_row [of T "w\<lparr>sw_rates := r\<rparr>" ident] keeps_cancelled] by simp
  then show ?thesis
    using keeps_release_row [of T "w\<lparr>sw_rates := r\<rparr>" for r] keeps_cancelled [of T "w\<lparr>sw_rates := r\<rparr>" for r]
    by (auto simp: scan_pair_DELETE_def Let_def split: prod.splits option.splits)
qed

lemma admin_release_keeps: "keeps T w (snd (admin_scan_arm_DELETE io a b w))"
  by (auto simp: admin_scan_arm_DELETE_def keeps_release_row split: option.splits)

lemma scan_cancel_keeps: "keeps T w (snd (scan_cancel_POST io bearer c w))"
proof -
  have "keeps T w (publishDeviceScanCancelled ok dev code source (release_row ident w))" for ok dev code source ident
    by (rule keeps_trans [OF keeps_release_row keeps_cancelled])
  then show ?thesis by (auto simp: scan_cancel_POST_def split: option.splits)
qed

lemma device_release_keeps: "keeps T w (snd (device_scan_arm_DELETE io user dev c w))"
proof -
  have "keeps T w (publishDeviceScanCancelled ok dev code source (release_row ident w))" for ok code source ident
    by (rule keeps_trans [OF keeps_release_row keeps_cancelled])
  then show ?thesis by (auto simp: device_scan_arm_DELETE_def Let_def keeps_cancelled split: option.splits prod.splits)
qed

lemma scan_pair_POST_arms:
  "\<forall>d \<in> set (sw_devices w). colon_free (dv_id d) \<Longrightarrow> arms_row w (snd (scan_pair_POST io ip b w))"
  using armDevicePath_arms [of "w\<lparr>sw_rates := r\<rparr>" for r] arm_charger_arms [of "w\<lparr>sw_rates := r\<rparr>" for r]
  by (auto simp: scan_pair_POST_def Let_def arms_row_def same_flow_def split: prod.splits option.splits sum.splits)

lemma admin_arm_arms: "arms_row w (snd (admin_scan_arm_POST io a b w))"
  by (auto simp: admin_scan_arm_POST_def arm_charger_arms split: option.splits)

text \<open>Taps.\<close>

lemma rows_ok_same_id:
  "rows_ok cs d \<Longrightarrow> r \<in> set (vd_rows d) \<Longrightarrow> x \<in> set (vd_rows d) \<Longrightarrow> vf_id x = vf_id r \<Longrightarrow> x = r"
  unfolding rows_ok_def by (meson distinct_map inj_onD)

lemma rows_ok_same_ident:
  "rows_ok cs d \<Longrightarrow> r \<in> set (vd_rows d) \<Longrightarrow> x \<in> set (vd_rows d) \<Longrightarrow> vf_identifier x = vf_identifier r \<Longrightarrow> x = r"
  unfolding rows_ok_def by (meson distinct_map inj_onD)

lemma latest_in: "latest f rows = Some r \<Longrightarrow> r \<in> set rows"
  unfolding latest_def by (auto split: list.splits) (metis list.set_intros(1) set_sort)

lemma steal_tap_evolves:
  assumes "steal_tap now box tag d = (x, d')" "rows_ok cs d"
  shows "db_evolves d d'"
proof (cases "latest vf_createdAt (filter (stealable now box tag) (vd_rows d))")
  case None
  then show ?thesis using assms(1) by (simp add: steal_tap_def)
next
  case (Some r)
  then have r: "r \<in> set (vd_rows d)" "stealable now box tag r" by (auto dest: latest_in)
  then have "pv_status (vf_value r) \<noteq> Consumed" by (auto simp: stealable_def)
  with r(1) Some assms rows_ok_same_id [OF assms(2) r(1)] show ?thesis
    by (auto simp: steal_tap_def intro!: db_evolves_set_value)
qed

lemma world_inv_rows_ok: "world_inv T cs w \<Longrightarrow> rows_ok cs (sw_db w)"
  by (simp add: scan_inv_def)

lemma world_inv_set_db: "world_inv T cs w \<Longrightarrow> db_evolves (sw_db w) d' \<Longrightarrow> world_inv T cs (w\<lparr>sw_db := d'\<rparr>)"
  using scan_inv_evolves by simp

lemma pre_authorize_keeps:
  assumes "\<And>tag box. hk_body req = Some (tag, box) \<Longrightarrow> hook_valid k req \<Longrightarrow> (trimmed tag, io_now io) \<in> T"
  shows "keeps T w (snd (pre_authorize hmac (sk_verify k) io req w))"
proof -
  have steal: "keeps T w (w\<lparr>sw_db := d'\<rparr>)" if "steal_tap now box tag (sw_db w) = (x, d')" for now box tag x d'
    using that steal_tap_evolves [OF that] world_inv_set_db [of T _ w d'] world_inv_rows_ok [of T _ w]
    by (auto simp: keeps_def steal_tap_def set_value_def split: option.splits)
  have pub: "keeps T u (publish_intercepted hmac now e u)" if "(ic_idTag e, ic_t e) \<in> T" "ic_type e = Charger" for e now u
    using world_inv_publish [of T _ u e hmac now] that by (simp add: keeps_def event_ok_def publish_intercepted_def)
  have "keeps T w (publish_intercepted hmac now e (w\<lparr>sw_db := d'\<rparr>))"
    if "steal_tap now box tag (sw_db w) = (x, d')" "(ic_idTag e, ic_t e) \<in> T" "ic_type e = Charger" for now box tag x d' e
    by (rule keeps_trans [OF steal [OF that(1)] pub [OF that(2, 3)]])
  then show ?thesis
    using assms steal
    by (auto simp: pre_authorize_def hook_valid_def Let_def split: option.splits prod.splits)
qed

lemma filter_singleton: "filter P xs = [x] \<Longrightarrow> x \<in> set xs \<and> P x"
  using set_filter [of P xs] by auto

lemma claim_pairing_spec:
  assumes "claim_pairing now ident tag d = (x, d')"
  shows "db_evolves d d'"
    and "x = Some r \<Longrightarrow> rows_ok cs d \<Longrightarrow> ident \<in> set cs \<and> consumed_in d' ident"
proof -
  let ?hit = "\<lambda>r. vf_identifier r = ident \<and> vf_expiresAt r > now \<and> pv_status (vf_value r) = Armed"
  let ?f = "\<lambda>v. v\<lparr>pv_status := Consumed, pv_matchedIdTag := Some tag\<rparr>"
  have d': "d' = set_value now ?hit ?f d"
    using assms by (auto simp: claim_pairing_def Let_def split: list.splits)
  show "db_evolves d d'" unfolding d' by (rule db_evolves_set_value) auto
  assume x: "x = Some r" and ok: "rows_ok cs d"
  then have "filter ?hit (vd_rows d) = [r]"
    using assms by (auto simp: claim_pairing_def Let_def split: list.splits)
  then have r: "r \<in> set (vd_rows d)" "?hit r" by (auto dest: filter_singleton)
  then have "vf_identifier y = ident \<Longrightarrow> y \<in> set (vd_rows d) \<Longrightarrow> y = r" for y
    using rows_ok_same_ident [OF ok r(1)] by simp
  then have "consumed_in d' ident" using r by (auto simp: consumed_in_def d' set_value_def)
  moreover have "ident \<in> set cs" using ok r by (auto simp: rows_ok_def)
  ultimately show "ident \<in> set cs \<and> consumed_in d' ident" by simp
qed

lemma scan_result_keeps:
  assumes "\<And>x. b = Some x \<Longrightarrow> result_valid k bearer x \<Longrightarrow> (to_upper (rb_idTag x), io_now io) \<in> T"
  shows "keeps T w (snd (scan_result_POST hmac (sk_dmac k) io bearer b w))"
proof -
  have claim: "keeps T w (w\<lparr>sw_db := d'\<rparr>)" if "claim_pairing now ident tag (sw_db w) = (x, d')" for now ident tag x d'
    by (rule keeps_evolves) (simp_all add: claim_pairing_spec(1) [OF that] same_flow_def)
  have "keeps T w (publish_intercepted hmac now e (w\<lparr>sw_db := d'\<rparr>))"
    if c: "claim_pairing now (devicePairingIdentifier (ic_id e) (ic_code e)) tag (sw_db w) = (Some r, d')"
      and e: "(ic_idTag e, ic_t e) \<in> T" for now tag r d' e
    unfolding keeps_def
  proof (intro conjI allI impI)
    show "vd_nextId (sw_db (publish_intercepted hmac now e (w\<lparr>sw_db := d'\<rparr>))) = vd_nextId (sw_db w)"
      using claim [OF c] by (simp add: keeps_def publish_intercepted_def)
    fix cs assume inv: "world_inv T cs w"
    have "event_ok T cs d' e"
      using claim_pairing_spec(2) [OF c refl world_inv_rows_ok [OF inv]] e by (simp add: event_ok_def)
    then show "world_inv T cs (publish_intercepted hmac now e (w\<lparr>sw_db := d'\<rparr>))"
      using world_inv_publish [of T cs "w\<lparr>sw_db := d'\<rparr>" e hmac now] claim [OF c] inv by (simp add: keeps_def)
  qed
  then show ?thesis
    using assms claim by (auto simp: scan_result_POST_def result_valid_def Let_def split: option.splits prod.splits)
qed

lemma close_stream_keeps: "keeps T w (close_stream i w)"
  using world_inv_close_stream [of T _ w i] by (simp add: keeps_def close_stream_def)

lemma log_line_keeps:
  assumes "\<And>x. tag = Some x \<Longrightarrow> (x, t) \<in> T"
  shows "keeps T w (log_line hmac reject tag box t w)"
proof -
  have "stream_ok T cs d (emit_scan hmac (the tag) t s)"
    if "stream_ok T cs d s" "bd_type (ss_binding s) = Charger" "truthy tag" for cs d s
    using that assms by (auto intro!: stream_ok_emit elim!: truthyE)
  then show ?thesis by (auto simp: keeps_def log_line_def scan_inv_def)
qed

lemma detect_attach_keeps: "keeps T w (snd (detect_attach hmac io ip b cur w))"
proof (cases "io_query io \<and> armed_row (io_now io) (bd_identifier b) (sw_db w) \<noteq> None")
  case False
  then show ?thesis by (auto simp: detect_attach_def)
next
  case True
  then obtain r where r: "armed_row (io_now io) (bd_identifier b) (sw_db w) = Some r" by blast
  then have "r \<in> set (vd_rows (sw_db w))" "vf_identifier r = bd_identifier b"
    unfolding armed_row_def by (auto dest: find_Some_set)
  then have ident: "bd_identifier b \<in> set cs" if "world_inv T cs w" for cs
    using that by (auto simp: scan_inv_def rows_ok_def)
  define s0 where "s0 = \<lparr>ss_ip = ip, ss_binding = b, ss_open = True, ss_sent = []\<rparr>"
  have s0: "stream_ok T cs (sw_db w) (s0\<lparr>ss_open := o'\<rparr>)" if "world_inv T cs w" for cs o'
    using ident [OF that] by (simp add: stream_ok_def s0_def)
  have "stream_ok T cs (sw_db w)
      (fold (\<lambda>(ts, e). emit_scan hmac (ic_idTag e) (ic_t e)) (filter (\<lambda>(ts, e). ts > io_now io - 5000 \<and> bound_to e b) (sw_bus w)) s0)"
    if "world_inv T cs w" for cs
    by (rule stream_ok_replay) (use that s0 [OF that, of True] in \<open>auto simp: scan_inv_def s0_def stream_ok_close\<close>)
  then have inv: "scan_inv T cs (sw_db w) (sw_streams w @ [if off then s0\<lparr>ss_open := False\<rparr> else
      fold (\<lambda>(ts, e). emit_scan hmac (ic_idTag e) (ic_t e)) (filter (\<lambda>(ts, e). ts > io_now io - 5000 \<and> bound_to e b) (sw_bus w)) s0])
      (sw_bus w) (sw_sessions w)" if "world_inv T cs w" for cs off
    using that s0 [OF that, of False] by (auto simp: scan_inv_def)
  show ?thesis
    using True r inv [of _ True] inv [of _ False]
    by (auto simp: keeps_def detect_attach_def Let_def s0_def [symmetric])
qed

text \<open>The login.\<close>

lemma consume_evolves: "db_evolves d (snd (consume_pairing now ident tag d))"
  unfolding consume_pairing_def by (simp, rule db_evolves_set_value) auto

lemma consume_unique:
  assumes "consume_pairing now ident tag d = ([row], d')" "rows_ok cs d" "sessions_ok d ss"
  shows "row \<notin> ls_row ` set ss" "row < vd_nextId d" "\<forall>r \<in> set (vd_rows d'). vf_id r = row \<longrightarrow> pv_status (vf_value r) = Consumed"
proof -
  have "map vf_id (filter (consumable now ident tag) (vd_rows d)) = [row]"
    and d': "d' = set_value now (consumable now ident tag) (\<lambda>v. v\<lparr>pv_status := Consumed\<rparr>) d"
    using assms(1) by (simp_all add: consume_pairing_def)
  then obtain r where r: "r \<in> set (vd_rows d)" "consumable now ident tag r" "vf_id r = row"
    by (auto simp: map_eq_Cons_conv dest!: filter_singleton)
  then have open_row: "pv_status (vf_value r) \<noteq> Consumed" by (auto simp: consumable_def)
  show "row \<notin> ls_row ` set ss" using r open_row assms(3) by (auto simp: sessions_ok_def)
  show "row < vd_nextId d" using r assms(2) by (auto simp: rows_ok_def)
  show "\<forall>x \<in> set (vd_rows d'). vf_id x = row \<longrightarrow> pv_status (vf_value x) = Consumed"
  proof (intro ballI impI)
    fix x assume x: "x \<in> set (vd_rows d')" "vf_id x = row"
    then obtain y where y: "y \<in> set (vd_rows d)"
      "x = (if consumable now ident tag y then y\<lparr>vf_value := (vf_value y)\<lparr>pv_status := Consumed\<rparr>, vf_updatedAt := now\<rparr> else y)"
      by (auto simp: d' set_value_def)
    then have "vf_id y = vf_id r" using x(2) r(3) by (simp split: if_splits)
    then have "y = r" by (rule rows_ok_same_id [OF assms(2) r(1) y(1)])
    then show "pv_status (vf_value x) = Consumed" using y(2) r(2) by simp
  qed
qed

lemma finish_login_inv:
  assumes "world_inv T cs w" "row \<notin> ls_row ` set (sw_sessions w)" "row < vd_nextId (sw_db w)"
    and "\<forall>r \<in> set (vd_rows (sw_db w)). vf_id r = row \<longrightarrow> pv_status (vf_value r) = Consumed"
  shows "world_inv T cs (snd (finish_login io tag row w))" "vd_nextId (sw_db (snd (finish_login io tag row w))) = vd_nextId (sw_db w)"
proof -
  have ss: "scan_inv T cs (sw_db w) (sw_streams w) (sw_bus w) (sw_sessions w @ (if cookie then [\<lparr>ls_row = row, ls_user = u, ls_tag = tg, ls_time = t\<rparr>] else []))" for cookie u tg t
    using assms by (auto simp: scan_inv_def sessions_ok_def)
  have "scan_inv T cs ((sw_db w)\<lparr>vd_rows := filter (\<lambda>r. vf_id r \<noteq> row) (vd_rows (sw_db w))\<rparr>)
      (sw_streams w) (sw_bus w) (sw_sessions w @ (if cookie then [\<lparr>ls_row = row, ls_user = u, ls_tag = tg, ls_time = t\<rparr>] else []))" for cookie u tg t
    by (rule scan_inv_evolves [OF ss db_evolves_filter])
  then show "world_inv T cs (snd (finish_login io tag row w))"
    using assms(1) ss by (simp add: finish_login_def split: option.split)
  show "vd_nextId (sw_db (snd (finish_login io tag row w))) = vd_nextId (sw_db w)"
    by (simp add: finish_login_def split: option.split)
qed

lemma scan_login_keeps: "keeps T w (snd (scan_login_POST hmac io ip b w))"
proof -
  have consumed: "keeps T u (case ids of [row] \<Rightarrow> snd (finish_login io tag row (u\<lparr>sw_db := d'\<rparr>)) | _ \<Rightarrow> u\<lparr>sw_db := d'\<rparr>)"
    if c: "consume_pairing now ident tag (sw_db u) = (ids, d')" for u now ident tag ids d'
    unfolding keeps_def
  proof (intro conjI allI impI)
    let ?r = "case ids of [row] \<Rightarrow> snd (finish_login io tag row (u\<lparr>sw_db := d'\<rparr>)) | _ \<Rightarrow> u\<lparr>sw_db := d'\<rparr>"
    have ev: "db_evolves (sw_db u) d'" using consume_evolves [of "sw_db u" now ident tag] c by simp
    then have nx: "vd_nextId d' = vd_nextId (sw_db u)" by (simp add: db_evolves_def)
    have "vd_nextId (sw_db (snd (finish_login io tag row (u\<lparr>sw_db := d'\<rparr>)))) = vd_nextId d'" for row
      by (simp add: finish_login_def split: option.split)
    then show "vd_nextId (sw_db ?r) = vd_nextId (sw_db u)" using nx by (simp split: list.split)
    fix cs assume inv: "world_inv T cs u"
    then have d': "world_inv T cs (u\<lparr>sw_db := d'\<rparr>)" using world_inv_set_db ev by blast
    show "world_inv T cs ?r"
    proof (cases "\<exists>row. ids = [row]")
      case True
      then obtain row where ids: "ids = [row]" ..
      have "sessions_ok (sw_db u) (sw_sessions u)" using inv by (simp add: scan_inv_def)
      from consume_unique [OF c [unfolded ids] world_inv_rows_ok [OF inv] this]
      show ?thesis using finish_login_inv(1) [OF d', of row io tag] nx by (simp add: ids)
    next
      case False
      then show ?thesis using d' by (cases ids rule: remdups_adj.cases) auto
    qed
  qed
  have snd_case: "snd (case ids of [row] \<Rightarrow> f row | _ \<Rightarrow> (r, z)) = (case ids of [row] \<Rightarrow> snd (f row) | _ \<Rightarrow> z)"
    for ids and f :: "nat \<Rightarrow> scan_reply \<times> scan_world" and r z
    by (simp split: list.split)
  show ?thesis
    using consumed [where u = "w\<lparr>sw_rates := r\<rparr>" for r]
    by (auto simp: scan_login_POST_def Let_def snd_case split: option.splits prod.splits)
qed

section \<open>The runs\<close>

definition taps :: "scan_keys \<Rightarrow> scan_cmd list \<Rightarrow> (string \<times> int) set" where
  "taps k es = {x. \<exists>c \<in> set es. tap_of k c = Some x}"

lemma scan_exec_inv:
  assumes "world_inv (taps k es) cs w" "w' = scan_exec k c w"
    and "distinct (map code_of (new_idents w w' @ cs))"
    and "\<forall>d \<in> set (sw_devices w). colon_free (dv_id d)"
  shows "world_inv (taps k (es @ [c])) (new_idents w w' @ cs) w'"
proof -
  let ?T = "taps k (es @ [c])"
  have T: "world_inv ?T cs w" by (rule scan_inv_mono [OF assms(1)]) (auto simp: taps_def)
  have tap: "tap_of k c = Some x \<Longrightarrow> x \<in> ?T" for x by (auto simp: taps_def)
  have "arms_row w w' \<or> keeps ?T w w'"
  proof (cases c)
    case (Edit ds chs ms us rs)
    then show ?thesis using assms(2) by (simp add: keeps_def)
  next
    case (Forget n)
    then show ?thesis using assms(2) by (auto simp: keeps_def scan_inv_def dest: in_set_dropD)
  qed (use assms(2, 4) tap in \<open>auto simp: scan_pair_POST_arms admin_arm_arms device_arm_arms device_release_keeps scan_pair_DELETE_keeps admin_release_keeps
      scan_cancel_keeps close_stream_keeps detect_attach_keeps scan_login_keeps split: sum.splits
      intro!: pre_authorize_keeps log_line_keeps scan_result_keeps\<close>)
  then show ?thesis
    using world_inv_arms_row [OF T _ assms(3)] keeps_new_idents [OF _ T] by auto
qed

lemma scan_reach_inv: "scan_reach k es cs w \<Longrightarrow> world_inv (taps k es) cs w"
proof (induction rule: scan_reach.induct)
  case (scan_start w)
  then show ?case by (simp add: scan_inv_def rows_ok_def sessions_ok_def)
next
  case (scan_step es cs w w' c)
  then show ?case using scan_exec_inv by blast
qed

section \<open>Texts under a signature\<close>

lemma split_first_colon:
  "colon_free a \<Longrightarrow> colon_free b \<Longrightarrow> a @ CHR '':'' # x = b @ CHR '':'' # y \<longleftrightarrow> a = b \<and> x = y"
proof (induction a arbitrary: b)
  case Nil
  then show ?case by (cases b) (auto simp: colon_free_def)
next
  case (Cons c a)
  then show ?case by (cases b) (auto simp: colon_free_def)
qed

lemma colon_free_rev [simp]: "colon_free (rev s) = colon_free s"
  by (simp add: colon_free_def)

lemma split_last_colon:
  assumes "colon_free x" "colon_free y"
  shows "a @ CHR '':'' # x = b @ CHR '':'' # y \<longleftrightarrow> a = b \<and> x = y"
proof -
  have "a @ CHR '':'' # x = b @ CHR '':'' # y
      \<longleftrightarrow> rev x @ CHR '':'' # rev a = rev y @ CHR '':'' # rev b"
    by (metis rev_append rev.simps(2) rev_is_rev_conv append.assoc append_Cons append_Nil)
  then show ?thesis using assms split_first_colon [of "rev x" "rev y" "rev a" "rev b"] by auto
qed

lemma colon_free_show_int [simp]: "colon_free (show_int t)"
proof -
  have "\<not> is_digit (CHR '':'')" by (simp add: is_digit_def)
  then show ?thesis
    using show_nat_digits [of "nat (- t)"] show_nat_digits [of "nat t"] by (auto simp: colon_free_def show_int_def)
qed

lemma nonce_text_eq:
  assumes "nonce_text tag code pid t = nonce_text tag' code' pid' t'" "colon_free tag" "colon_free tag'"
  shows "tag = tag'" "code @ '':'' @ pid = code' @ '':'' @ pid'" "t = t'"
proof -
  have "(tag @ CHR '':'' # code @ CHR '':'' # pid) @ CHR '':'' # show_int t
      = (tag' @ CHR '':'' # code' @ CHR '':'' # pid') @ CHR '':'' # show_int t'"
    using assms(1) by (simp add: nonce_text_def)
  from iffD1 [OF split_last_colon [OF colon_free_show_int colon_free_show_int] this]
  have eqs: "tag @ CHR '':'' # code @ CHR '':'' # pid = tag' @ CHR '':'' # code' @ CHR '':'' # pid'"
    and t: "show_int t = show_int t'" by (rule conjunct1, rule conjunct2)
  show "tag = tag'" "code @ '':'' @ pid = code' @ '':'' @ pid'"
    using iffD1 [OF split_first_colon [OF assms(2, 3)] eqs] by simp_all
  show "t = t'" using t by simp
qed

text \<open>
  A request is genuine when the server signed its text before, or its nonce is wrong: nobody
  else can sign.
\<close>

definition genuine :: "(string \<Rightarrow> string) \<Rightarrow> scan_world \<Rightarrow> login_body \<Rightarrow> bool" where
  "genuine hmac w b \<longleftrightarrow>
     (let text = nonce_text (js_trim (lb_tag b)) (lb_code b) (snd (login_pairable b)) (the (lb_t b))
      in hmac text = to_lower (lb_nonce b) \<longrightarrow>
         (\<exists>s \<in> set (sw_streams w). \<exists>(tag, n, t) \<in> set (ss_sent s).
            nonce_text tag (bd_code (ss_binding s)) (bd_id (ss_binding s)) t = text))"

lemma finish_login_LoggedIn:
  assumes "finish_login io tag row w = (LoggedIn u, w')"
  shows "\<exists>m \<in> set (sw_mappings w). isActive m \<and> steveOcppIdTag m = tag \<and> userId m = Some u"
    and "\<exists>x \<in> set (sw_users w). us_id x = u \<and> us_role x = ''customer''"
proof -
  obtain m where m: "find (\<lambda>m. steveOcppIdTag m = tag \<and> isActive m) (sw_mappings w) = Some m" "truthy (userId m)"
    and "\<exists>x. find (\<lambda>u. us_id u = the (userId m)) (sw_users w) = Some x \<and> us_role x = ''customer'' \<and> us_id x = u"
    using assms by (auto simp: finish_login_def split: option.splits if_splits)
  then obtain x where x: "find (\<lambda>u. us_id u = the (userId m)) (sw_users w) = Some x" "us_role x = ''customer''" "us_id x = u"
    by blast
  show "\<exists>x \<in> set (sw_users w). us_id x = u \<and> us_role x = ''customer''" using x by (auto dest: find_Some_set)
  show "\<exists>m \<in> set (sw_mappings w). isActive m \<and> steveOcppIdTag m = tag \<and> userId m = Some u"
    using m x by (auto dest!: find_Some_set elim!: truthyE)
qed

lemma scan_login_LoggedIn:
  assumes "scan_login_POST hmac io ip (Some b) w = (LoggedIn u, w')"
  obtains t row where "lb_t b = Some t" "0 \<le> li_now io - t" "li_now io - t \<le> 60000"
    "hmac (nonce_text (js_trim (lb_tag b)) (lb_code b) (snd (login_pairable b)) t) = to_lower (lb_nonce b)"
    "fst (consume_pairing (li_now io) (login_identifier b) (js_trim (lb_tag b)) (sw_db w)) = [row]"
    "\<exists>m \<in> set (sw_mappings w). isActive m \<and> steveOcppIdTag m = js_trim (lb_tag b) \<and> userId m = Some u"
    "\<exists>x \<in> set (sw_users w). us_id x = u \<and> us_role x = ''customer''"
proof -
  obtain t where t: "lb_t b = Some t"
    using assms by (cases "lb_t b") (auto simp: scan_login_POST_def Let_def split: prod.splits if_splits)
  obtain ids d' where c: "consume_pairing (li_now io) (login_identifier b) (js_trim (lb_tag b)) (sw_db w) = (ids, d')"
    by fastforce
  have facts: "0 \<le> li_now io - t \<and> li_now io - t \<le> 60000
      \<and> hmac (nonce_text (js_trim (lb_tag b)) (lb_code b) (snd (login_pairable b)) t) = to_lower (lb_nonce b)
      \<and> (\<exists>row r2 w2. ids = [row] \<and> finish_login io (js_trim (lb_tag b)) row (w\<lparr>sw_rates := r2, sw_db := d'\<rparr>) = (LoggedIn u, w2))"
    using assms t c
    by (auto simp: scan_login_POST_def signNonce_def REPLAY_WINDOW_MS_def Let_def split: prod.splits if_splits list.splits)
  then obtain row r2 w2 where f: "ids = [row]"
    "finish_login io (js_trim (lb_tag b)) row (w\<lparr>sw_rates := r2, sw_db := d'\<rparr>) = (LoggedIn u, w2)" by blast
  show ?thesis
    by (rule that [OF t]) (use facts f c finish_login_LoggedIn [OF f(2)] in auto)
qed

section \<open>A session needs a recent tap\<close>

lemma genuine_tap:
  assumes "scan_reach k es cs w" "genuine (sk_hmac k) w b" "lb_t b = Some t"
    and "sk_hmac k (nonce_text (js_trim (lb_tag b)) (lb_code b) (snd (login_pairable b)) t) = to_lower (lb_nonce b)"
    and "colon_free (js_trim (lb_tag b))" "\<forall>(tag, t) \<in> taps k es. colon_free tag"
  obtains s where "s \<in> set (sw_streams w)" "ss_sent s \<noteq> []" "(js_trim (lb_tag b), t) \<in> taps k es"
    "bd_code (ss_binding s) @ '':'' @ bd_id (ss_binding s) = lb_code b @ '':'' @ snd (login_pairable b)"
proof -
  obtain s tag n t' where s: "s \<in> set (sw_streams w)" "(tag, n, t') \<in> set (ss_sent s)"
    "nonce_text tag (bd_code (ss_binding s)) (bd_id (ss_binding s)) t'
       = nonce_text (js_trim (lb_tag b)) (lb_code b) (snd (login_pairable b)) t"
    using assms(2, 3, 4) by (auto simp: genuine_def Let_def)
  have "stream_ok (taps k es) cs (sw_db w) s"
    using scan_reach_inv [OF assms(1)] s(1) by (simp add: scan_inv_def)
  then have tap: "(tag, t') \<in> taps k es" using s(2) by (auto simp: stream_ok_def)
  then have "colon_free tag" using assms(6) by blast
  from nonce_text_eq [OF s(3) this assms(5)] show ?thesis
    by (intro that [OF s(1)]) (use s(2) tap in auto)
qed

lemma scan_reach_taps: "scan_reach k es cs w \<Longrightarrow> \<forall>(tag, t) \<in> taps k es. colon_free tag"
  by (induction rule: scan_reach.induct) (auto simp: taps_def)

text \<open>
  C7. Signing in with a scan is sound: in every run of the pairing flow, a login that succeeds
  carries the tag and the time of an authentic tap at most sixty seconds old, finds exactly one
  pairing row of its identifier that is not expired, armed or matched to this tag, and was never
  used for a session before; the tag has an active mapping to the user, who is a customer. Here
  nobody but the server can sign, and mapped tags contain no colon.
\<close>

theorem scan_login_sound:
  assumes "scan_reach k es cs w" "genuine (sk_hmac k) w b" "\<forall>m \<in> set (sw_mappings w). colon_free (steveOcppIdTag m)"
    and "scan_login_POST (sk_hmac k) io ip (Some b) w = (LoggedIn u, w')"
  shows "\<exists>tag t r. tag = js_trim (lb_tag b) \<and> lb_t b = Some t \<and> (tag, t) \<in> taps k es
    \<and> 0 \<le> li_now io - t \<and> li_now io - t \<le> 60000
    \<and> filter (consumable (li_now io) (login_identifier b) tag) (vd_rows (sw_db w)) = [r]
    \<and> vf_id r \<notin> ls_row ` set (sw_sessions w)
    \<and> (\<exists>m \<in> set (sw_mappings w). isActive m \<and> steveOcppIdTag m = tag \<and> userId m = Some u)
    \<and> (\<exists>x \<in> set (sw_users w). us_id x = u \<and> us_role x = ''customer'')"
proof -
  note inv = scan_reach_inv [OF assms(1)]
  let ?tag = "js_trim (lb_tag b)"
  from assms(4) obtain t row where facts: "lb_t b = Some t" "0 \<le> li_now io - t" "li_now io - t \<le> 60000"
    "sk_hmac k (nonce_text ?tag (lb_code b) (snd (login_pairable b)) t) = to_lower (lb_nonce b)"
    "fst (consume_pairing (li_now io) (login_identifier b) ?tag (sw_db w)) = [row]"
    "\<exists>m \<in> set (sw_mappings w). isActive m \<and> steveOcppIdTag m = ?tag \<and> userId m = Some u"
    "\<exists>x \<in> set (sw_users w). us_id x = u \<and> us_role x = ''customer''"
    by (rule scan_login_LoggedIn)
  then have "colon_free ?tag" using assms(3) by auto
  with genuine_tap [OF assms(1, 2) facts(1, 4)] scan_reach_taps [OF assms(1)]
  have tap: "(?tag, t) \<in> taps k es" by blast
  obtain r where r: "filter (consumable (li_now io) (login_identifier b) ?tag) (vd_rows (sw_db w)) = [r]"
    using facts(5) by (auto simp: consume_pairing_def map_eq_Cons_conv)
  have "consume_pairing (li_now io) (login_identifier b) ?tag (sw_db w)
      = ([vf_id r], snd (consume_pairing (li_now io) (login_identifier b) ?tag (sw_db w)))"
    using r by (simp add: consume_pairing_def)
  from consume_unique(1) [OF this world_inv_rows_ok [OF inv], of "sw_sessions w"]
  have "vf_id r \<notin> ls_row ` set (sw_sessions w)" using inv by (simp add: scan_inv_def)
  with facts tap r show ?thesis by blast
qed

section \<open>A scan with a phone is never completed\<close>

lemma code_of_bd_identifier: "colon_free (bd_code b) \<Longrightarrow> code_of (bd_identifier b) = bd_code b"
proof -
  assume c: "colon_free (bd_code b)"
  obtain p where "bd_identifier b = p @ CHR '':'' # bd_code b"
    by (cases "bd_type b") (auto simp: bd_identifier_def chargerPairingIdentifier_def devicePairingIdentifier_def)
  then show ?thesis using c by (simp add: code_of_def colon_free_def takeWhile_append)
qed

lemma bd_identifier_inject:
  assumes "bd_identifier b = bd_identifier b'" "colon_free (bd_code b)" "colon_free (bd_code b')"
  shows "b = b'"
proof -
  have code: "bd_code b = bd_code b'"
    using code_of_bd_identifier [OF assms(2)] code_of_bd_identifier [OF assms(3)] assms(1) by simp
  have "bd_type b = bd_type b'"
    using assms(1) by (cases "bd_type b"; cases "bd_type b'")
      (simp_all add: bd_identifier_def chargerPairingIdentifier_def devicePairingIdentifier_def)
  moreover have "bd_id b = bd_id b'"
    using assms(1) code calculation
    by (cases "bd_type b'") (simp_all add: bd_identifier_def chargerPairingIdentifier_def devicePairingIdentifier_def)
  ultimately show ?thesis using code by (cases b; cases b') simp
qed

lemma split_only_colon:
  assumes "a @ CHR '':'' # x = b @ CHR '':'' # y" "colon_free a" "colon_free x"
  shows "b = a" "y = x"
proof -
  have "length (filter (\<lambda>c. c = CHR '':'') (b @ CHR '':'' # y)) = length (filter (\<lambda>c. c = CHR '':'') (a @ CHR '':'' # x))"
    using assms(1) by simp
  also have "\<dots> = 1" using assms(2, 3) by (auto simp: colon_free_def filter_empty_conv)
  finally have "colon_free b" by (auto simp: colon_free_def filter_empty_conv)
  from iffD1 [OF split_first_colon [OF assms(2) this] assms(1)] show "b = a" "y = x" by simp_all
qed

text \<open>
  C29. A login for a phone never succeeds, in any run of the pairing flow: the server signs a
  scan for the stream of a phone's pairing only after the phone's answer has consumed the
  pairing row, and the login then finds no armed row.
\<close>

theorem phone_login_never:
  assumes "scan_reach k es cs w" "genuine (sk_hmac k) w b" "\<forall>m \<in> set (sw_mappings w). colon_free (steveOcppIdTag m)"
    and "lb_dev b \<noteq> []"
  shows "fst (scan_login_POST (sk_hmac k) io ip (Some b) w) \<noteq> LoggedIn u"
proof
  note inv = scan_reach_inv [OF assms(1)]
  let ?tag = "js_trim (lb_tag b)" and ?ident = "devicePairingIdentifier (lb_dev b) (lb_code b)"
  have rows: "rows_ok cs (sw_db w)" using inv by (simp add: scan_inv_def)
  have pairable: "login_pairable b = (Phone, lb_dev b)" "login_identifier b = ?ident"
    using assms(4) by (simp_all add: login_pairable_def login_identifier_def bd_identifier_def)
  assume "fst (scan_login_POST (sk_hmac k) io ip (Some b) w) = LoggedIn u"
  then obtain w' where "scan_login_POST (sk_hmac k) io ip (Some b) w = (LoggedIn u, w')" by (metis prod.collapse)
  then obtain t row where facts: "lb_t b = Some t"
    "sk_hmac k (nonce_text ?tag (lb_code b) (snd (login_pairable b)) t) = to_lower (lb_nonce b)"
    "fst (consume_pairing (li_now io) (login_identifier b) ?tag (sw_db w)) = [row]"
    "\<exists>m \<in> set (sw_mappings w). isActive m \<and> steveOcppIdTag m = ?tag \<and> userId m = Some u"
    by (rule scan_login_LoggedIn)
  obtain r where "filter (consumable (li_now io) ?ident ?tag) (vd_rows (sw_db w)) = [r]"
    using facts(3) pairable by (auto simp: consume_pairing_def map_eq_Cons_conv)
  then have r: "r \<in> set (vd_rows (sw_db w))" "consumable (li_now io) ?ident ?tag r" by (auto dest: filter_singleton)
  then have ident: "?ident \<in> set cs" using rows by (auto simp: rows_ok_def consumable_def)
  then obtain b0 where b0: "?ident = bd_identifier b0" "colon_free (bd_code b0)"
    "bd_type b0 = Phone \<Longrightarrow> colon_free (bd_id b0)"
    using rows unfolding rows_ok_def good_ident_def by blast
  have ty: "bd_type b0 = Phone"
    using b0(1) by (cases "bd_type b0") (simp_all add: bd_identifier_def chargerPairingIdentifier_def devicePairingIdentifier_def)
  then have "bd_id b0 @ CHR '':'' # bd_code b0 = lb_dev b @ CHR '':'' # lb_code b"
    using b0(1) by (simp add: bd_identifier_def devicePairingIdentifier_def)
  from split_only_colon [OF this b0(3) [OF ty] b0(2)]
  have req: "lb_dev b = bd_id b0" "lb_code b = bd_code b0" .
  have "colon_free ?tag" using facts(4) assms(3) by auto
  then obtain s where s: "s \<in> set (sw_streams w)" "ss_sent s \<noteq> []"
    "bd_code (ss_binding s) @ '':'' @ bd_id (ss_binding s) = lb_code b @ '':'' @ snd (login_pairable b)"
    using genuine_tap [OF assms(1, 2) facts(1, 2) _ scan_reach_taps [OF assms(1)]] by blast
  have "bd_code b0 @ CHR '':'' # bd_id b0 = bd_code (ss_binding s) @ CHR '':'' # bd_id (ss_binding s)"
    using s(3) pairable req by simp
  from split_only_colon(1) [OF this b0(2) b0(3) [OF ty]] have code: "bd_code (ss_binding s) = bd_code b0" .
  have ok: "stream_ok (taps k es) cs (sw_db w) s" using inv s(1) by (simp add: scan_inv_def)
  then have "bd_identifier (ss_binding s) \<in> set cs" by (simp add: stream_ok_def)
  moreover have "code_of (bd_identifier (ss_binding s)) = code_of ?ident"
    using code b0(1, 2) code_of_bd_identifier [of "ss_binding s"] code_of_bd_identifier [of b0] by simp
  ultimately have same: "bd_identifier (ss_binding s) = ?ident"
    using rows ident unfolding rows_ok_def by (metis distinct_map inj_onD)
  then have "ss_binding s = b0" using bd_identifier_inject [of "ss_binding s" b0] b0 code by simp
  then have "consumed_in (sw_db w) ?ident" using ok ty s(2) same by (simp add: stream_ok_def)
  then show False using r by (auto simp: consumed_in_def consumable_def)
qed

section \<open>Concrete runs\<close>

text \<open>
  A server whose signature is the text itself, every hook request and every phone authentic; one
  customer with a card, a charger and a phone.
\<close>

definition demo_keys :: scan_keys where
  "demo_keys = \<lparr>sk_hmac = to_lower, sk_verify = Some (\<lambda>_ _. Some True), sk_dmac = (\<lambda>s text. Some ''aa'')\<rparr>"

definition demo_login_io :: "int \<Rightarrow> login_io" where
  "demo_login_io t = \<lparr>li_now = t, li_rate = True, li_sign = True, li_consume = True, li_mapping = True, li_user = True,
     li_adapter = Creates, li_cleanup = True\<rparr>"

definition demo_scan_world :: scan_world where
  "demo_scan_world = \<lparr>sw_db = \<lparr>vd_rows = [], vd_nextId = 0\<rparr>, sw_rates = [],
     sw_devices = [\<lparr>dv_id = ''phone1'', dv_ownerUserId = ''boss'', dv_capabilities = [''scanner''], dv_pushToken = None,
        dv_apnsEnvironment = None, dv_lastSeenAt = Some 0, dv_deletedAt = None, dv_revokedAt = None\<rparr>],
     sw_chargers = [(''CB1'', Some 0)],
     sw_mappings = [(mapping_of 1 ''CARD1'' (Some ''cust'') None True)\<lparr>userId := Some ''u1''\<rparr>],
     sw_users = [\<lparr>us_id = ''u1'', us_role = ''customer''\<rparr>],
     sw_streams = [], sw_concurrent = [], sw_bus = [], sw_phone = [], sw_pushes = [], sw_sessions = []\<rparr>"

definition charger_run :: "scan_cmd list" where
  "charger_run =
     [Pair (demo_io 1000) ''ip'' (Some \<lparr>pb_type = None, pb_box = Some ''CB1'', pb_dev = None, pb_code = None\<rparr>),
      Attach (demo_io 1100) ''ip'' ''AAAAAAAAAAAAAAAAAAAAAA'' ''CB1'' '''' 0,
      Hook (demo_io 2000) \<lparr>hk_sig = ''00'', hk_raw = ''text'', hk_body = Some (Some ''CARD1'', Some ''CB1'')\<rparr>]"

definition phone_run :: "scan_cmd list" where
  "phone_run =
     [Pair (demo_io 1000) ''ip'' (Some \<lparr>pb_type = Some ''device'', pb_box = None, pb_dev = Some ''phone1'', pb_code = None\<rparr>),
      Attach (demo_io 1100) ''ip'' ''222222'' '''' ''phone1'' 0,
      Phone_result (demo_io 2000) (Some (''phone1'', ''key''))
        (Some \<lparr>rb_idTag = ''card1'', rb_code = ''222222'', rb_ts = 2, rb_nonce = ''aa''\<rparr>)]"

text \<open>Running commands, with the checks that \<open>scan_reach\<close> makes on the way.\<close>

fun scan_run :: "scan_keys \<Rightarrow> scan_cmd list \<Rightarrow> string list \<times> scan_world \<Rightarrow> (string list \<times> scan_world) option" where
  "scan_run k [] st = Some st"
| "scan_run k (c # es) (cs, w) =
     (let w' = scan_exec k c w; cs' = new_idents w w' @ cs in
      if distinct (map code_of cs') \<and> (case tap_of k c of None \<Rightarrow> True | Some (tag, t) \<Rightarrow> colon_free tag)
         \<and> (\<forall>d \<in> set (sw_devices w). colon_free (dv_id d))
      then scan_run k es (cs', w') else None)"

lemma scan_run_reach:
  "scan_reach k es cs w \<Longrightarrow> scan_run k fs (cs, w) = Some (cs', w') \<Longrightarrow> scan_reach k (es @ fs) cs' w'"
proof (induction fs arbitrary: es cs w)
  case Nil
  then show ?case by simp
next
  case (Cons c fs)
  let ?w = "scan_exec k c w"
  have ok: "distinct (map code_of (new_idents w ?w @ cs))"
      "\<forall>tag t. tap_of k c = Some (tag, t) \<longrightarrow> colon_free tag"
      "\<forall>d \<in> set (sw_devices w). colon_free (dv_id d)"
      "scan_run k fs (new_idents w ?w @ cs, ?w) = Some (cs', w')"
    using Cons.prems(2) by (auto simp: Let_def split: if_splits option.splits)
  from Cons.IH [OF scan_step [OF Cons.prems(1) refl ok(1-3)] ok(4)] show ?case by simp
qed

definition demo_login :: "bool \<Rightarrow> login_body" where
  "demo_login phone =
     (if phone
      then \<lparr>lb_code = ''222222'', lb_box = '''', lb_dev = ''phone1'', lb_tag = ''CARD1'',
            lb_nonce = ''card1:222222:phone1:2000'', lb_t = Some 2000\<rparr>
      else \<lparr>lb_code = ''AAAAAAAAAAAAAAAAAAAAAA'', lb_box = ''CB1'', lb_dev = '''', lb_tag = ''CARD1'',
            lb_nonce = ''card1:aaaaaaaaaaaaaaaaaaaaaa:cb1:2000'', lb_t = Some 2000\<rparr>)"

lemma demo_runs:
  "(case scan_run demo_keys charger_run ([], demo_scan_world) of None \<Rightarrow> False | Some (cs, w) \<Rightarrow>
      genuine to_lower w (demo_login False) \<and> (\<forall>m \<in> set (sw_mappings w). colon_free (steveOcppIdTag m))
      \<and> fst (scan_login_POST to_lower (demo_login_io 3000) ''ip'' (Some (demo_login False)) w) = LoggedIn ''u1'')"
  "(case scan_run demo_keys phone_run ([], demo_scan_world) of None \<Rightarrow> False | Some (cs, w) \<Rightarrow>
      genuine to_lower w (demo_login True) \<and> (\<forall>m \<in> set (sw_mappings w). colon_free (steveOcppIdTag m))
      \<and> map ss_sent (sw_streams w) = [[(''CARD1'', ''card1:222222:phone1:2000'', 2000)]]
      \<and> fst (scan_login_POST to_lower (demo_login_io 3000) ''ip'' (Some (demo_login True)) w) = Refused 429 ''rate_limited'')"
  by code_simp+

lemma demo_reach:
  "scan_run demo_keys es ([], demo_scan_world) = Some (cs, w) \<Longrightarrow> scan_reach demo_keys es cs w"
  using scan_run_reach [OF scan_start, of demo_scan_world demo_keys es cs w] by (simp add: demo_scan_world_def)

lemma demo_hmac: "sk_hmac demo_keys = to_lower"
  by (simp add: demo_keys_def)

theorem scan_login_sound_witness:
  "\<exists>cs w tag t. scan_run demo_keys charger_run ([], demo_scan_world) = Some (cs, w)
     \<and> fst (scan_login_POST to_lower (demo_login_io 3000) ''ip'' (Some (demo_login False)) w) = LoggedIn ''u1''
     \<and> (tag, t) \<in> taps demo_keys charger_run \<and> 3000 - t \<le> 60000"
proof -
  from demo_runs(1) obtain cs w where run: "scan_run demo_keys charger_run ([], demo_scan_world) = Some (cs, w)"
    and gen: "genuine to_lower w (demo_login False)" and tags: "\<forall>m \<in> set (sw_mappings w). colon_free (steveOcppIdTag m)"
    and fst: "fst (scan_login_POST to_lower (demo_login_io 3000) ''ip'' (Some (demo_login False)) w) = LoggedIn ''u1''"
    by (auto split: option.splits)
  then obtain w' where ok: "scan_login_POST to_lower (demo_login_io 3000) ''ip'' (Some (demo_login False)) w = (LoggedIn ''u1'', w')"
    by (metis prod.collapse)
  from scan_login_sound [OF demo_reach [OF run], unfolded demo_hmac, OF gen tags ok]
  obtain tag t where "(tag, t) \<in> taps demo_keys charger_run" "li_now (demo_login_io 3000) - t \<le> 60000" by blast
  then show ?thesis using run fst by (auto simp: demo_login_io_def)
qed

text \<open>The browser got the signed scan of the phone, and its login is refused.\<close>

theorem phone_login_never_witness:
  "\<exists>cs w. scan_run demo_keys phone_run ([], demo_scan_world) = Some (cs, w)
     \<and> map ss_sent (sw_streams w) = [[(''CARD1'', ''card1:222222:phone1:2000'', 2000)]]
     \<and> (\<forall>u. fst (scan_login_POST to_lower (demo_login_io 3000) ''ip'' (Some (demo_login True)) w) \<noteq> LoggedIn u)"
proof -
  from demo_runs(2) obtain cs w where run: "scan_run demo_keys phone_run ([], demo_scan_world) = Some (cs, w)"
    and gen: "genuine to_lower w (demo_login True)" and tags: "\<forall>m \<in> set (sw_mappings w). colon_free (steveOcppIdTag m)"
    and sent: "map ss_sent (sw_streams w) = [[(''CARD1'', ''card1:222222:phone1:2000'', 2000)]]"
    by (auto split: option.splits)
  have "lb_dev (demo_login True) \<noteq> []" by (simp add: demo_login_def)
  then have never: "fst (scan_login_POST to_lower (demo_login_io 3000) ''ip'' (Some (demo_login True)) w) \<noteq> LoggedIn u" for u
    by (rule phone_login_never [OF demo_reach [OF run], unfolded demo_hmac, OF gen tags])
  show ?thesis by (rule exI [of _ cs], rule exI [of _ w]) (simp add: run sent never)
qed

end
