(* ===== verification/AutoStop.thy ===== *)
theory AutoStop
  imports Scan
begin

text \<open>
  Stopping sessions from the server: the sweep over the running transactions of a customer
  (\<open>src/services/auto-stop.service.ts\<close>) and the watchdog that stops a session started during
  an armed scan (\<open>src/services/pair-intent-watchdog.ts\<close>). Both remember the transactions they
  stopped for a minute, the first in a map of times, the second in a set with timers; the
  locale \<open>recent_guard\<close> is the contract of such a memory.
\<close>

section \<open>The memory of recent stops\<close>

locale recent_guard =
  fixes recent :: "'s \<Rightarrow> int \<Rightarrow> int \<Rightarrow> bool"
    and mark :: "int \<Rightarrow> int \<Rightarrow> 's \<Rightarrow> 's"
    and ok :: "'s \<Rightarrow> bool"
    and ttl :: int
  assumes fades: "\<not> recent s t i \<Longrightarrow> t \<le> u \<Longrightarrow> \<not> recent s u i"
    and marked: "ok s \<Longrightarrow> \<not> recent s now i \<Longrightarrow> now \<le> t \<Longrightarrow> t < now + ttl \<Longrightarrow> recent (mark now i s) t i"
    and mark_keeps: "ok s \<Longrightarrow> recent s t j \<Longrightarrow> now \<le> t \<Longrightarrow> j \<noteq> i \<Longrightarrow> recent (mark now i s) t j"
    and ok_mark: "ok s \<Longrightarrow> \<not> recent s now i \<Longrightarrow> ok (mark now i s)"
begin

text \<open>Transaction \<open>i\<close> is remembered from \<open>t\<close> to the end \<open>e\<close> of a window.\<close>

definition remembered :: "int \<Rightarrow> 's \<Rightarrow> int \<Rightarrow> int \<Rightarrow> bool" where
  "remembered e s t i \<longleftrightarrow> (\<forall>u. t \<le> u \<longrightarrow> u < e \<longrightarrow> recent s u i)"

lemma remembered_recent: "remembered e s t i \<Longrightarrow> t \<le> u \<Longrightarrow> u < e \<Longrightarrow> recent s u i"
  by (simp add: remembered_def)

lemma remembered_later: "remembered e s t i \<Longrightarrow> t \<le> u \<Longrightarrow> remembered e s u i"
  by (simp add: remembered_def)

lemma remembered_after_mark:
  assumes "ok s" "\<not> recent s t i" "t \<le> now" "e \<le> now + ttl" "\<forall>j \<in> S. remembered e s t j"
  shows "\<forall>j \<in> insert i S. remembered e (mark now i s) now j"
proof
  fix j assume j: "j \<in> insert i S"
  have "\<not> recent s now i" using fades assms(2, 3) by blast
  then show "remembered e (mark now i s) now j"
    using j assms marked mark_keeps by (cases "j = i") (auto simp: remembered_def)
qed

end

section \<open>The sweep\<close>

definition RECENT_TTL_MS :: int where "RECENT_TTL_MS = 60000"

text \<open>\<open>markRecent\<close>: with more than 256 entries, the outdated ones are dropped.\<close>

definition markRecent :: "int \<Rightarrow> int \<Rightarrow> (int, int) jsmap \<Rightarrow> (int, int) jsmap" where
  "markRecent now i m =
     (let m' = AList.update i now m in
      if length m' > 256 then filter (\<lambda>(j, t). \<not> t < now - RECENT_TTL_MS) m' else m')"

definition wasRecentlyStopped :: "int \<Rightarrow> int \<Rightarrow> (int, int) jsmap \<Rightarrow> bool \<times> (int, int) jsmap" where
  "wasRecentlyStopped now i m =
     (case map_of m i of
        None \<Rightarrow> (False, m)
      | Some t \<Rightarrow> if now - t > RECENT_TTL_MS then (False, AList.delete i m) else (True, m))"

record operation_row =
  ol_id :: nat
  ol_chargeBoxId :: string
  ol_transactionId :: int
  ol_reason :: string
  ol_detail :: string
  ol_status :: string
  ol_error :: "string option"
  ol_completedAt :: "int option"

record stop_reason =
  rs_code :: string
  rs_detail :: string
  rs_webhookEventId :: "int option"

record stop_result =
  sr_transactionPk :: int
  sr_chargeBoxId :: string
  sr_ok :: bool
  sr_error :: "string option"

record notice =
  no_severity :: string
  no_title :: string
  no_body :: string
  no_sourceId :: "string option"

record stop_state =
  sp_recent :: "(int, int) jsmap"
  sp_log :: "operation_row list"
  sp_nextLog :: nat
  sp_notices :: "notice list"

text \<open>
  The outcomes around one stop: the time of the check, the insert of the audit row, the answer of
  the OCPP server, the update of the row and the time after it.
\<close>

record stop_answer =
  sa_checked :: int
  sa_insert :: bool
  sa_stop :: "string option"
  sa_update :: bool
  sa_done :: int

definition insert_operation :: "bool \<Rightarrow> string \<Rightarrow> int \<Rightarrow> string \<Rightarrow> string \<Rightarrow> stop_state \<Rightarrow> nat option \<times> stop_state" where
  "insert_operation stored box tx reason detail st =
     (if stored
      then (Some (sp_nextLog st), st\<lparr>sp_nextLog := sp_nextLog st + 1,
        sp_log := sp_log st @ [\<lparr>ol_id = sp_nextLog st, ol_chargeBoxId = box, ol_transactionId = tx, ol_reason = reason,
          ol_detail = detail, ol_status = ''pending'', ol_error = None, ol_completedAt = None\<rparr>]\<rparr>)
      else (None, st))"

definition finish_operation :: "bool \<Rightarrow> nat option \<Rightarrow> string \<Rightarrow> string option \<Rightarrow> int \<Rightarrow> stop_state \<Rightarrow> stop_state" where
  "finish_operation stored row status err now st =
     (case row of
        None \<Rightarrow> st
      | Some i \<Rightarrow> if stored
          then st\<lparr>sp_log := map (\<lambda>r. if ol_id r = i then r\<lparr>ol_status := status, ol_error := err, ol_completedAt := Some now\<rparr> else r)
                                 (sp_log st)\<rparr>
          else st)"

definition stopOne :: "stop_answer \<Rightarrow> int \<Rightarrow> string \<Rightarrow> stop_reason \<Rightarrow> stop_state \<Rightarrow> stop_result \<times> stop_state" where
  "stopOne a tx box reason st =
     (case insert_operation (sa_insert a) box tx (''auto-stop:'' @ rs_code reason) (rs_detail reason) st of
        (row, st1) \<Rightarrow>
      (case sa_stop a of
         None \<Rightarrow> (\<lparr>sr_transactionPk = tx, sr_chargeBoxId = box, sr_ok = True, sr_error = None\<rparr>,
                  finish_operation (sa_update a) row ''completed'' None (sa_done a) st1)
       | Some msg \<Rightarrow> (\<lparr>sr_transactionPk = tx, sr_chargeBoxId = box, sr_ok = False, sr_error = Some msg\<rparr>,
                  finish_operation (sa_update a) row ''failed'' (Some msg) (sa_done a) st1)))"

text \<open>The inner loop: the transactions of one tag, with the answers \<open>ans\<close> numbered from \<open>n\<close>.\<close>

fun stop_loop ::
  "(nat \<Rightarrow> stop_answer) \<Rightarrow> stop_reason \<Rightarrow> (int \<times> string) list \<Rightarrow> nat \<Rightarrow> stop_result list \<Rightarrow> stop_state
     \<Rightarrow> nat \<times> stop_result list \<times> stop_state"
where
  "stop_loop ans reason [] n res st = (n, res, st)"
| "stop_loop ans reason ((tx, box) # txs) n res st =
     (case wasRecentlyStopped (sa_checked (ans n)) tx (sp_recent st) of
        (True, m) \<Rightarrow> stop_loop ans reason txs (n + 1) res (st\<lparr>sp_recent := m\<rparr>)
      | (False, m) \<Rightarrow>
          (case stopOne (ans n) tx box reason (st\<lparr>sp_recent := m\<rparr>) of
             (r, st1) \<Rightarrow> stop_loop ans reason txs (n + 1) (res @ [r])
               (if sr_ok r then st1\<lparr>sp_recent := markRecent (sa_done (ans n)) tx (sp_recent st1)\<rparr> else st1)))"

text \<open>The outer loop over the tags; \<open>active\<close> is \<open>None\<close> where the query for a tag fails.\<close>

fun tag_loop ::
  "(nat \<Rightarrow> stop_answer) \<Rightarrow> stop_reason \<Rightarrow> (string \<Rightarrow> (int \<times> string) list option) \<Rightarrow> string list \<Rightarrow> nat
     \<Rightarrow> stop_result list \<Rightarrow> stop_state \<Rightarrow> nat \<times> stop_result list \<times> stop_state"
where
  "tag_loop ans reason active [] n res st = (n, res, st)"
| "tag_loop ans reason active (tag # tags) n res st =
     (case active tag of
        None \<Rightarrow> tag_loop ans reason active tags n res st
      | Some txs \<Rightarrow>
          (case stop_loop ans reason txs n res st of
             (n', res', st') \<Rightarrow> tag_loop ans reason active tags n' res' st'))"

definition stop_notice :: "stop_reason \<Rightarrow> stop_result list \<Rightarrow> notice" where
  "stop_notice reason res =
     (let good = length (filter sr_ok res); bad = length (filter (\<lambda>r. \<not> sr_ok r) res) in
      \<lparr>no_severity = (if bad > 0 then ''warn'' else ''info''),
       no_title = ''Auto-stopped '' @ show_nat good @ ''/'' @ show_nat (length res) @ '' session(s)'',
       no_body = rs_detail reason @ [CHR 0x0A, CHR 0x0A] @ show_nat good @ '' session(s) stopped, '' @ show_nat bad
         @ '' failed. Source: '' @ rs_code reason @ ''.'',
       no_sourceId = map_option show_int (rs_webhookEventId reason)\<rparr>)"

text \<open>
  The sweep; \<open>rows_ok\<close> says whether the query for the mappings succeeds (otherwise the call
  throws, \<open>None\<close>), \<open>notified\<close> whether the notification is stored.
\<close>

definition stopActiveTransactionsForMappings ::
  "bool \<Rightarrow> bool \<Rightarrow> (nat \<Rightarrow> stop_answer) \<Rightarrow> (string \<Rightarrow> (int \<times> string) list option) \<Rightarrow> user_mapping list
     \<Rightarrow> int list \<Rightarrow> stop_reason \<Rightarrow> stop_state \<Rightarrow> stop_result list option \<times> stop_state"
where
  "stopActiveTransactionsForMappings rows_ok notified ans active table ids reason st =
     (if ids = [] then (Some [], st)
      else if \<not> rows_ok then (None, st)
      else let tags = map steveOcppIdTag (filter (\<lambda>m. mappingId m \<in> set ids) table) in
        case tag_loop ans reason active tags 0 [] st of
          (n, res, st') \<Rightarrow> (Some res,
            if res \<noteq> [] \<and> notified then st'\<lparr>sp_notices := sp_notices st' @ [stop_notice reason res]\<rparr> else st'))"

definition stopActiveTransactionsForSubscription ::
  "bool \<Rightarrow> bool \<Rightarrow> (nat \<Rightarrow> stop_answer) \<Rightarrow> (string \<Rightarrow> (int \<times> string) list option) \<Rightarrow> user_mapping list
     \<Rightarrow> string \<Rightarrow> stop_reason \<Rightarrow> stop_state \<Rightarrow> stop_result list option \<times> stop_state"
where
  "stopActiveTransactionsForSubscription rows_ok notified ans active table sub reason st =
     (if \<not> rows_ok then (None, st)
      else stopActiveTransactionsForMappings rows_ok notified ans active table
        (map mappingId (filter (\<lambda>m. lagoSubscriptionExternalId m = Some sub) table)) reason st)"

definition stopActiveTransactionsForCustomer ::
  "bool \<Rightarrow> bool \<Rightarrow> (nat \<Rightarrow> stop_answer) \<Rightarrow> (string \<Rightarrow> (int \<times> string) list option) \<Rightarrow> user_mapping list
     \<Rightarrow> string \<Rightarrow> stop_reason \<Rightarrow> stop_state \<Rightarrow> stop_result list option \<times> stop_state"
where
  "stopActiveTransactionsForCustomer rows_ok notified ans active table cust reason st =
     (if \<not> rows_ok then (None, st)
      else stopActiveTransactionsForMappings rows_ok notified ans active table
        (map mappingId (filter (\<lambda>m. lagoCustomerExternalId m = Some cust \<and> isActive m) table)) reason st)"

section \<open>One stop per minute\<close>

text \<open>A sweep of a run: its answers, with the times between \<open>sq_from\<close> and \<open>sq_to\<close>.\<close>

record sweep =
  sq_ans :: "nat \<Rightarrow> stop_answer"
  sq_active :: "string \<Rightarrow> (int \<times> string) list option"
  sq_table :: "user_mapping list"
  sq_ids :: "int list"
  sq_reason :: stop_reason
  sq_rows :: bool
  sq_notified :: bool
  sq_from :: int
  sq_to :: int

fun run_sweeps :: "sweep list \<Rightarrow> stop_state \<Rightarrow> stop_result list \<times> stop_state" where
  "run_sweeps [] st = ([], st)"
| "run_sweeps (q # qs) st =
     (case stopActiveTransactionsForMappings (sq_rows q) (sq_notified q) (sq_ans q) (sq_active q) (sq_table q)
             (sq_ids q) (sq_reason q) st of
        (r, st1) \<Rightarrow> (case run_sweeps qs st1 of
           (rs, st2) \<Rightarrow> ((case r of None \<Rightarrow> [] | Some x \<Rightarrow> x) @ rs, st2)))"

text \<open>The clock of a run of sweeps goes forward from \<open>a\<close> and stays before \<open>e\<close>.\<close>

fun clock_in :: "int \<Rightarrow> int \<Rightarrow> sweep list \<Rightarrow> bool" where
  "clock_in a e [] = True"
| "clock_in a e (q # qs) \<longleftrightarrow> a \<le> sq_from q \<and> sq_from q \<le> sq_to q \<and> sq_to q < e
     \<and> (\<forall>n. sq_from q \<le> sa_checked (sq_ans q n) \<and> sa_checked (sq_ans q n) \<le> sa_done (sq_ans q n)
          \<and> sa_done (sq_ans q n) \<le> sa_checked (sq_ans q (n + 1)) \<and> sa_done (sq_ans q n) \<le> sq_to q)
     \<and> clock_in (sq_to q) e qs"

text \<open>No attempt on a transaction in \<open>S\<close> or stopped earlier in the list.\<close>

fun no_retry :: "int set \<Rightarrow> stop_result list \<Rightarrow> bool" where
  "no_retry S [] = True"
| "no_retry S (r # rs) \<longleftrightarrow> sr_transactionPk r \<notin> S \<and> no_retry (if sr_ok r then insert (sr_transactionPk r) S else S) rs"

definition stopped :: "stop_result list \<Rightarrow> int set" where
  "stopped rs = sr_transactionPk ` {r \<in> set rs. sr_ok r}"

lemma stopped_simps [simp]:
  "stopped [] = {}" "stopped (r # rs) = (if sr_ok r then insert (sr_transactionPk r) (stopped rs) else stopped rs)"
  "stopped (rs @ ts) = stopped rs \<union> stopped ts"
  by (auto simp: stopped_def)

lemma no_retry_append: "no_retry S (rs @ ts) \<longleftrightarrow> no_retry S rs \<and> no_retry (S \<union> stopped rs) ts"
  by (induction rs arbitrary: S) auto

lemma no_retry_notin: "no_retry U rs \<Longrightarrow> r \<in> set rs \<Longrightarrow> sr_transactionPk r \<notin> U"
  by (induction rs arbitrary: U) (auto split: if_splits)

lemma no_retry_nth:
  assumes "no_retry S rs" "i < j" "j < length rs" "sr_ok (rs ! i)"
  shows "sr_transactionPk (rs ! j) \<noteq> sr_transactionPk (rs ! i)"
  using assms
proof (induction rs arbitrary: S i j)
  case (Cons r rs)
  obtain j' where j: "j = Suc j'" "j' < length rs" using Cons.prems by (cases j) auto
  show ?case
  proof (cases i)
    case 0
    then have "no_retry (insert (sr_transactionPk r) S) rs" using Cons.prems by simp
    from no_retry_notin [OF this nth_mem [OF j(2)]] show ?thesis using 0 j by simp
  next
    case (Suc i')
    then show ?thesis using Cons.IH [of _ i' j'] Cons.prems j by auto
  qed
qed simp

text \<open>The map of times is such a memory.\<close>

definition stop_recent :: "(int, int) jsmap \<Rightarrow> int \<Rightarrow> int \<Rightarrow> bool" where
  "stop_recent m t i = (case map_of m i of None \<Rightarrow> False | Some x \<Rightarrow> t - x \<le> RECENT_TTL_MS)"

lemma map_of_filter_Some: "map_of m i = Some x \<Longrightarrow> P (i, x) \<Longrightarrow> map_of (filter P m) i = Some x"
  by (induction m) (auto split: if_splits)

lemma markRecent_look:
  "map_of (AList.update i now m) j = Some x \<Longrightarrow> \<not> x < now - RECENT_TTL_MS \<Longrightarrow> map_of (markRecent now i m) j = Some x"
  unfolding markRecent_def Let_def by (auto intro: map_of_filter_Some)

interpretation stops: recent_guard stop_recent markRecent "\<lambda>_. True" RECENT_TTL_MS
proof unfold_locales
  fix s :: "(int, int) jsmap" and t i u :: int
  assume "\<not> stop_recent s t i" "t \<le> u"
  then show "\<not> stop_recent s u i" by (simp add: stop_recent_def split: option.splits)
next
  fix now t i :: int and s :: "(int, int) jsmap"
  assume "now \<le> t" "t < now + RECENT_TTL_MS"
  moreover have "map_of (markRecent now i s) i = Some now"
    by (rule markRecent_look) (simp_all add: map_of_update RECENT_TTL_MS_def)
  ultimately show "stop_recent (markRecent now i s) t i" by (simp add: stop_recent_def)
next
  fix s :: "(int, int) jsmap" and t j now i :: int
  assume rec: "stop_recent s t j" and le: "now \<le> t" "j \<noteq> i"
  then obtain x where x: "map_of s j = Some x" "t - x \<le> RECENT_TTL_MS" by (auto simp: stop_recent_def split: option.splits)
  then have "map_of (markRecent now i s) j = Some x"
    using markRecent_look [of i now s j x] le by (simp add: map_of_update)
  then show "stop_recent (markRecent now i s) t j" using x by (simp add: stop_recent_def)
qed simp

lemma wasRecentlyStopped_recent:
  assumes "wasRecentlyStopped now i m = (b, m')"
  shows "b = stop_recent m now i" "now \<le> t \<Longrightarrow> stop_recent m t j \<Longrightarrow> stop_recent m' t j"
    "\<not> stop_recent m now i \<Longrightarrow> \<not> stop_recent m' now i"
  using assms by (auto simp: wasRecentlyStopped_def stop_recent_def map_of_delete split: option.splits if_splits)

lemma stopOne_result:
  assumes "stopOne a tx box reason st = (r, st')"
  shows "sr_transactionPk r = tx" "sp_recent st' = sp_recent st"
  using assms by (auto simp: stopOne_def insert_operation_def finish_operation_def split: prod.splits option.splits if_splits)

lemma stop_loop_spec:
  assumes "stop_loop ans reason txs n res st = (n', res', st')"
    and "\<And>k. a \<le> sa_checked (ans k) \<and> sa_checked (ans k) \<le> sa_done (ans k) \<and> sa_done (ans k) \<le> sa_checked (ans (k + 1)) \<and> sa_done (ans k) < e"
    and "e \<le> a + RECENT_TTL_MS"
    and "\<forall>i \<in> S. stops.remembered e (sp_recent st) (sa_checked (ans n)) i"
  shows "\<exists>new. res' = res @ new \<and> no_retry S new
    \<and> (\<forall>i \<in> S \<union> stopped new. stops.remembered e (sp_recent st') (sa_checked (ans n')) i)"
  using assms(1, 4)
proof (induction txs arbitrary: n res st S)
  case Nil
  then show ?case by auto
next
  case (Cons p txs)
  obtain tx box where p: "p = (tx, box)" by (cases p)
  obtain b m where w: "wasRecentlyStopped (sa_checked (ans n)) tx (sp_recent st) = (b, m)" by fastforce
  have m: "\<forall>i \<in> S. stops.remembered e m (sa_checked (ans n)) i"
    using Cons.prems(2) wasRecentlyStopped_recent(2) [OF w] by (auto simp: stops.remembered_def)
  have step: "sa_checked (ans n) \<le> sa_done (ans n)" "sa_done (ans n) \<le> sa_checked (ans (n + 1))" "sa_checked (ans n) < e"
      "e \<le> sa_done (ans n) + RECENT_TTL_MS" using assms(2) [of n] assms(3) by linarith+
  show ?case
  proof (cases b)
    case True
    then have "stop_loop ans reason txs (n + 1) res (st\<lparr>sp_recent := m\<rparr>) = (n', res', st')"
      using Cons.prems(1) w p by simp
    from Cons.IH [OF this, of S] show ?thesis
      using m step stops.remembered_later [of e m "sa_checked (ans n)" _ "sa_checked (ans (n + 1))"] by auto
  next
    case False
    obtain r st1 where r: "stopOne (ans n) tx box reason (st\<lparr>sp_recent := m\<rparr>) = (r, st1)" by fastforce
    note rr = stopOne_result [OF r]
    let ?st = "if sr_ok r then st1\<lparr>sp_recent := markRecent (sa_done (ans n)) tx (sp_recent st1)\<rparr> else st1"
    let ?S = "if sr_ok r then insert tx S else S"
    have loop: "stop_loop ans reason txs (n + 1) (res @ [r]) ?st = (n', res', st')"
      using Cons.prems(1) w p r False by simp
    have unstopped: "\<not> stop_recent (sp_recent st) (sa_checked (ans n)) tx" using wasRecentlyStopped_recent(1) [OF w] False by simp
    then have fresh: "tx \<notin> S" using Cons.prems(2) stops.remembered_recent step by blast
    have unmarked: "\<not> stop_recent m (sa_checked (ans n)) tx" using wasRecentlyStopped_recent(3) [OF w unstopped] .
    have "\<forall>i \<in> ?S. stops.remembered e (sp_recent ?st) (sa_done (ans n)) i"
      using stops.remembered_after_mark [of m "sa_checked (ans n)" tx "sa_done (ans n)" e S] m step rr unmarked
        stops.remembered_later [of e m "sa_checked (ans n)" _ "sa_done (ans n)"] by auto
    then have "\<forall>i \<in> ?S. stops.remembered e (sp_recent ?st) (sa_checked (ans (n + 1))) i"
      using stops.remembered_later step(2) by blast
    from Cons.IH [OF loop this] obtain new where new: "res' = (res @ [r]) @ new" "no_retry ?S new"
      "\<forall>i \<in> ?S \<union> stopped new. stops.remembered e (sp_recent st') (sa_checked (ans n')) i" by blast
    show ?thesis
      by (rule exI [of _ "r # new"]) (use new fresh rr in \<open>auto split: if_splits\<close>)
  qed
qed

lemma tag_loop_spec:
  assumes "tag_loop ans reason active tags n res st = (n', res', st')"
    and "\<And>k. a \<le> sa_checked (ans k) \<and> sa_checked (ans k) \<le> sa_done (ans k) \<and> sa_done (ans k) \<le> sa_checked (ans (k + 1)) \<and> sa_done (ans k) < e"
    and "e \<le> a + RECENT_TTL_MS"
    and "\<forall>i \<in> S. stops.remembered e (sp_recent st) (sa_checked (ans n)) i"
  shows "\<exists>new. res' = res @ new \<and> no_retry S new
    \<and> (\<forall>i \<in> S \<union> stopped new. stops.remembered e (sp_recent st') (sa_checked (ans n')) i)"
  using assms(1, 4)
proof (induction tags arbitrary: n res st S)
  case Nil
  then show ?case by auto
next
  case (Cons tag tags)
  show ?case
  proof (cases "active tag")
    case None
    then show ?thesis using Cons.IH [of n res st S] Cons.prems by simp
  next
    case (Some txs)
    obtain n1 res1 st1 where loop: "stop_loop ans reason txs n res st = (n1, res1, st1)" using prod_cases3 by blast
    from stop_loop_spec [OF loop assms(2, 3) Cons.prems(2)]
    obtain new1 where new1: "res1 = res @ new1" "no_retry S new1"
      "\<forall>i \<in> S \<union> stopped new1. stops.remembered e (sp_recent st1) (sa_checked (ans n1)) i" by blast
    have "tag_loop ans reason active tags n1 res1 st1 = (n', res', st')" using Cons.prems(1) Some loop by simp
    from Cons.IH [OF this new1(3)] obtain new2 where "res' = res1 @ new2" "no_retry (S \<union> stopped new1) new2"
      "\<forall>i \<in> S \<union> stopped new1 \<union> stopped new2. stops.remembered e (sp_recent st') (sa_checked (ans n')) i" by blast
    then show ?thesis using new1 by (intro exI [of _ "new1 @ new2"]) (simp add: no_retry_append Un_assoc)
  qed
qed

lemma run_sweeps_spec:
  assumes "clock_in a e qs" "e \<le> b + RECENT_TTL_MS" "b \<le> a" "run_sweeps qs st = (rs, st')"
    and "\<forall>i \<in> S. stops.remembered e (sp_recent st) a i"
  shows "no_retry S rs"
  using assms
proof (induction qs arbitrary: a st st' S rs)
  case Nil
  then show ?case by simp
next
  case (Cons q qs)
  obtain r st1 where sw: "stopActiveTransactionsForMappings (sq_rows q) (sq_notified q) (sq_ans q) (sq_active q) (sq_table q)
      (sq_ids q) (sq_reason q) st = (r, st1)" by fastforce
  obtain rs2 st2 where rest: "run_sweeps qs st1 = (rs2, st2)" by fastforce
  have rs: "rs = (case r of None \<Rightarrow> [] | Some x \<Rightarrow> x) @ rs2" using Cons.prems(4) sw rest by simp
  have clk: "sq_from q \<le> sa_checked (sq_ans q k) \<and> sa_checked (sq_ans q k) \<le> sa_done (sq_ans q k)
      \<and> sa_done (sq_ans q k) \<le> sa_checked (sq_ans q (k + 1)) \<and> sa_done (sq_ans q k) < e" for k
    using Cons.prems(1) by (auto intro: le_less_trans)
  have from_a: "a \<le> sq_from q" "e \<le> sq_from q + RECENT_TTL_MS" "sa_checked (sq_ans q k) \<le> sq_to q" "sq_from q \<le> sq_to q" for k
    using Cons.prems(1-3) by (auto intro: order_trans)
  have S: "\<forall>i \<in> S. stops.remembered e (sp_recent st) (sa_checked (sq_ans q 0)) i"
    using Cons.prems(5) stops.remembered_later clk [of 0] from_a(1) by (meson order_trans)
  define new where "new = (case r of None \<Rightarrow> [] | Some x \<Rightarrow> x)"
  have "no_retry S new \<and> (\<forall>i \<in> S \<union> stopped new. stops.remembered e (sp_recent st1) (sq_to q) i)"
  proof (cases "sq_ids q = [] \<or> \<not> sq_rows q")
    case True
    then have "new = []" "st1 = st" using sw by (auto simp: stopActiveTransactionsForMappings_def new_def split: if_splits)
    then show ?thesis using Cons.prems(5) stops.remembered_later from_a by (auto intro: stops.remembered_later)
  next
    case False
    obtain n' st3 where loop: "tag_loop (sq_ans q) (sq_reason q) (sq_active q)
        (map steveOcppIdTag (filter (\<lambda>m. mappingId m \<in> set (sq_ids q)) (sq_table q))) 0 [] st = (n', new, st3)"
      and st1: "sp_recent st1 = sp_recent st3"
      using sw False by (auto simp: stopActiveTransactionsForMappings_def new_def split: prod.splits)
    from tag_loop_spec [OF loop clk from_a(2) S] have "no_retry S new"
      "\<forall>i \<in> S \<union> stopped new. stops.remembered e (sp_recent st3) (sa_checked (sq_ans q n')) i" by auto
    then show ?thesis using stops.remembered_later [OF _ from_a(3) [of n']] st1 by simp
  qed
  moreover from this have "no_retry (S \<union> stopped new) rs2"
    using Cons.IH [OF _ Cons.prems(2) _ rest] Cons.prems(1, 3) from_a by auto
  ultimately show ?case by (simp add: rs new_def [symmetric] no_retry_append)
qed

text \<open>
  The sweeps stop a session once: in any run of sweeps within one minute, over any tags and
  with any answers of the database and the OCPP server, a transaction whose stop was accepted is
  not attempted again.
\<close>

theorem stopped_once_per_minute:
  assumes "clock_in a e qs" "e \<le> a + RECENT_TTL_MS" "run_sweeps qs st = (rs, st')"
    and "i < j" "j < length rs" "sr_ok (rs ! i)"
  shows "sr_transactionPk (rs ! j) \<noteq> sr_transactionPk (rs ! i)"
  by (rule no_retry_nth [OF run_sweeps_spec [OF assms(1, 2) _ assms(3), of "{}"] assms(4-6)]) simp_all

definition demo_answer :: "int \<Rightarrow> stop_answer" where
  "demo_answer t = \<lparr>sa_checked = t, sa_insert = True, sa_stop = None, sa_update = True, sa_done = t\<rparr>"

definition demo_sweep :: "int \<Rightarrow> sweep" where
  "demo_sweep t = \<lparr>sq_ans = (\<lambda>n. demo_answer t), sq_active = (\<lambda>tag. Some [(7, ''CB1''), (8, ''CB2'')]),
     sq_table = [mapping_of 1 ''CARD1'' (Some ''cust'') None True, mapping_of 2 ''CARD2'' (Some ''cust'') None True],
     sq_ids = [1, 2], sq_reason = \<lparr>rs_code = ''manual'', rs_detail = ''test'', rs_webhookEventId = None\<rparr>,
     sq_rows = True, sq_notified = True, sq_from = t, sq_to = t\<rparr>"

definition quiet_stops :: stop_state where
  "quiet_stops = \<lparr>sp_recent = [], sp_log = [], sp_nextLog = 0, sp_notices = []\<rparr>"

text \<open>Two sweeps half a minute apart, both tags reporting both transactions.\<close>

theorem stopped_once_per_minute_witness:
  "map sr_transactionPk (fst (run_sweeps [demo_sweep 0, demo_sweep 30000] quiet_stops)) = [7, 8]
   \<and> sr_transactionPk (fst (run_sweeps [demo_sweep 0, demo_sweep 30000] quiet_stops) ! 1)
     \<noteq> sr_transactionPk (fst (run_sweeps [demo_sweep 0, demo_sweep 30000] quiet_stops) ! 0)"
proof -
  let ?run = "run_sweeps [demo_sweep 0, demo_sweep 30000] quiet_stops"
  have res: "map sr_transactionPk (fst ?run) = [7, 8]" "sr_ok (fst ?run ! 0)" by code_simp+
  then have len: "1 < length (fst ?run)" by (metis length_map list.size(3, 4) less_add_one One_nat_def add.commute plus_1_eq_Suc lessI)
  have "clock_in 0 60000 [demo_sweep 0, demo_sweep 30000]" by (simp add: demo_sweep_def demo_answer_def)
  from stopped_once_per_minute [OF this, of quiet_stops "fst ?run" "snd ?run" 0 1] res len
  show ?thesis by (simp add: RECENT_TTL_MS_def)
qed

section \<open>The watchdog\<close>

definition MATCH_WINDOW_MS :: int where "MATCH_WINDOW_MS = 10000"

text \<open>
  The set of stopped transactions and the timers that remove them; \<open>fire_timers\<close> runs those that
  are due.
\<close>

record watch_memory =
  wm_ids :: "int list"
  wm_timers :: "(int \<times> int) list"

definition fire_timers :: "int \<Rightarrow> watch_memory \<Rightarrow> watch_memory" where
  "fire_timers now s =
     \<lparr>wm_ids = filter (\<lambda>i. \<not> (\<exists>(t, j) \<in> set (wm_timers s). t \<le> now \<and> j = i)) (wm_ids s),
      wm_timers = filter (\<lambda>(t, j). \<not> t \<le> now) (wm_timers s)\<rparr>"

definition watch_markRecent :: "int \<Rightarrow> int \<Rightarrow> watch_memory \<Rightarrow> watch_memory" where
  "watch_markRecent now i s =
     (let u = fire_timers now s in
      \<lparr>wm_ids = (if i \<in> set (wm_ids u) then wm_ids u else wm_ids u @ [i]),
       wm_timers = wm_timers u @ [(now + RECENT_TTL_MS, i)]\<rparr>)"

definition watch_recent :: "watch_memory \<Rightarrow> int \<Rightarrow> int \<Rightarrow> bool" where
  "watch_recent s t i \<longleftrightarrow> i \<in> set (wm_ids (fire_timers t s))"

text \<open>A row of the charger that is armed, or was recently matched or consumed by the tag.\<close>

definition intercepts :: "int \<Rightarrow> string \<Rightarrow> string option \<Rightarrow> verification \<Rightarrow> bool" where
  "intercepts now box tag r \<longleftrightarrow>
     sql_like (''scan-pair:'' @ box @ '':%'') (vf_identifier r) \<and> vf_expiresAt r > now
     \<and> (pv_status (vf_value r) = Armed
        \<or> (pv_status (vf_value r) = Matched \<or> pv_status (vf_value r) = Consumed)
          \<and> vf_updatedAt r > now - MATCH_WINDOW_MS
          \<and> (tag = None \<or> pv_matchedIdTag (vf_value r) = tag))"

record watch_io =
  wi_now :: int
  wi_query :: bool
  wi_insert :: bool
  wi_stop :: "string option"
  wi_update :: "string option"
  wi_repair :: bool

record watch_world =
  ww_memory :: watch_memory
  ww_log :: stop_state
  ww_stops :: "(string \<times> int) list"

text \<open>
  \<open>handleTxStarted\<close>. When the audit row of a stop that was accepted cannot be updated, the same
  handler as for a refused stop runs.
\<close>

definition handleTxStarted ::
  "watch_io \<Rightarrow> string \<Rightarrow> int option \<Rightarrow> string option \<Rightarrow> verification_db \<Rightarrow> watch_world \<Rightarrow> watch_world"
where
  "handleTxStarted io box tx tag d w =
     (if tx = None \<or> tx = Some 0 then w
      else let i = the tx in
      if watch_recent (ww_memory w) (wi_now io) i then w
      else if \<not> wi_query io then w
      else case find (intercepts (wi_now io) box tag) (vd_rows d) of None \<Rightarrow> w
      | Some r \<Rightarrow>
          (case insert_operation (wi_insert io) box i ''intercepted-for-login'' '''' (ww_log w) of
             (row, log1) \<Rightarrow>
               w\<lparr>ww_memory := watch_markRecent (wi_now io) i (ww_memory w),
                 ww_stops := ww_stops w @ [(box, i)],
                 ww_log := (case wi_stop io of
                     None \<Rightarrow> if wi_update io = None then finish_operation True row ''submitted'' None (wi_now io) log1
                             else finish_operation (wi_repair io) row ''failed'' (wi_update io) (wi_now io) log1
                   | Some msg \<Rightarrow> finish_operation (wi_repair io) row ''failed'' (Some msg) (wi_now io) log1)\<rparr>))"

text \<open>Every pending timer belongs to a transaction of the set, and each has one.\<close>

definition watch_ok :: "watch_memory \<Rightarrow> bool" where
  "watch_ok s \<longleftrightarrow> distinct (map snd (wm_timers s)) \<and> snd ` set (wm_timers s) \<subseteq> set (wm_ids s)"

lemma fire_timers_ids:
  "i \<in> set (wm_ids (fire_timers t s)) \<longleftrightarrow> i \<in> set (wm_ids s) \<and> (\<forall>d. (d, i) \<in> set (wm_timers s) \<longrightarrow> t < d)"
  "(d, i) \<in> set (wm_timers (fire_timers t s)) \<longleftrightarrow> (d, i) \<in> set (wm_timers s) \<and> t < d"
  by (auto simp: fire_timers_def not_le)

lemma fire_timers_ok:
  assumes "watch_ok s"
  shows "watch_ok (fire_timers now s)"
proof -
  have one: "a = u" if "(u, i) \<in> set (wm_timers s)" "(a, i) \<in> set (wm_timers s)" for a u i
    using assms that inj_onD [of snd "set (wm_timers s)" "(a, i)" "(u, i)"] by (simp add: watch_ok_def distinct_map)
  have "i \<in> set (wm_ids (fire_timers now s))" if t: "(d, i) \<in> set (wm_timers (fire_timers now s))" for d i
  proof -
    have d: "(d, i) \<in> set (wm_timers s)" "now < d" using t by (simp_all add: fire_timers_ids)
    then have "i \<in> set (wm_ids s)" using assms by (force simp: watch_ok_def)
    moreover have "now < a" if "(a, i) \<in> set (wm_timers s)" for a using one [OF d(1) that] d(2) by simp
    ultimately show ?thesis by (simp add: fire_timers_ids)
  qed
  moreover have "distinct (map snd (wm_timers (fire_timers now s)))"
    using assms by (simp add: watch_ok_def fire_timers_def distinct_map_filter_pred)
  ultimately show ?thesis unfolding watch_ok_def by (metis imageE prod.collapse subsetI)
qed

interpretation watched: recent_guard watch_recent watch_markRecent watch_ok RECENT_TTL_MS
proof unfold_locales
  fix s and t i u :: int
  assume "\<not> watch_recent s t i" "t \<le> u"
  then show "\<not> watch_recent s u i" by (auto simp: watch_recent_def fire_timers_ids)
next
  fix s and now t i :: int
  assume s: "watch_ok s" "\<not> watch_recent s now i" "now \<le> t" "t < now + RECENT_TTL_MS"
  let ?u = "fire_timers now s"
  have "i \<notin> set (wm_ids ?u)" using s(2) by (simp add: watch_recent_def)
  moreover from this have "(d, i) \<notin> set (wm_timers ?u)" for d
    using fire_timers_ok [OF s(1), of now] by (force simp: watch_ok_def)
  ultimately show "watch_recent (watch_markRecent now i s) t i"
    using s(4) by (auto simp: watch_recent_def watch_markRecent_def Let_def fire_timers_ids(1))
next
  fix s and now t i j :: int
  assume s: "watch_ok s" "watch_recent s t j" "now \<le> t" "j \<noteq> i"
  then show "watch_recent (watch_markRecent now i s) t j"
    by (auto simp: watch_recent_def watch_markRecent_def Let_def fire_timers_ids)
next
  fix s and now i :: int
  assume s: "watch_ok s" "\<not> watch_recent s now i"
  let ?u = "fire_timers now s"
  have "i \<notin> set (wm_ids ?u)" using s(2) by (simp add: watch_recent_def)
  then show "watch_ok (watch_markRecent now i s)"
    using fire_timers_ok [OF s(1), of now] by (force simp: watch_ok_def watch_markRecent_def Let_def)
qed

text \<open>A run of the watchdog on the sessions the log reports.\<close>

record started =
  st_io :: watch_io
  st_box :: string
  st_tx :: "int option"
  st_tag :: "string option"
  st_db :: verification_db

fun run_watch :: "started list \<Rightarrow> watch_world \<Rightarrow> watch_world" where
  "run_watch [] w = w"
| "run_watch (e # es) w = run_watch es (handleTxStarted (st_io e) (st_box e) (st_tx e) (st_tag e) (st_db e) w)"

lemma handleTxStarted_cases:
  assumes "w' = handleTxStarted io box tx tag d w"
  shows "ww_memory w' = ww_memory w \<and> ww_stops w' = ww_stops w
    \<or> (\<exists>i. \<not> watch_recent (ww_memory w) (wi_now io) i \<and> ww_memory w' = watch_markRecent (wi_now io) i (ww_memory w)
         \<and> ww_stops w' = ww_stops w @ [(box, i)])"
  using assms by (auto simp: handleTxStarted_def Let_def split: option.splits prod.splits)

lemma run_watch_distinct:
  assumes "sorted (map (\<lambda>e. wi_now (st_io e)) es)" "\<forall>x \<in> set es. t \<le> wi_now (st_io x) \<and> wi_now (st_io x) < e"
    and "e \<le> t + RECENT_TTL_MS" "watch_ok (ww_memory w)"
    and "distinct (map snd (ww_stops w))" "\<forall>i \<in> snd ` set (ww_stops w). watched.remembered e (ww_memory w) t i"
  shows "distinct (map snd (ww_stops (run_watch es w)))"
  using assms
proof (induction es arbitrary: t w)
  case (Cons x es)
  let ?now = "wi_now (st_io x)"
  define w' where "w' = handleTxStarted (st_io x) (st_box x) (st_tx x) (st_tag x) (st_db x) w"
  have now: "t \<le> ?now" "?now < e" "e \<le> ?now + RECENT_TTL_MS" using Cons.prems(2, 3) by auto
  have rem: "\<forall>i \<in> snd ` set (ww_stops w). watched.remembered e (ww_memory w) ?now i"
    using Cons.prems(6) watched.remembered_later now(1) by blast
  have "watch_ok (ww_memory w') \<and> distinct (map snd (ww_stops w'))
      \<and> (\<forall>i \<in> snd ` set (ww_stops w'). watched.remembered e (ww_memory w') ?now i)"
    using handleTxStarted_cases [OF w'_def]
  proof (elim disjE exE conjE)
    assume "ww_memory w' = ww_memory w" "ww_stops w' = ww_stops w"
    then show ?thesis using Cons.prems(4, 5) rem by simp
  next
    fix i assume i: "\<not> watch_recent (ww_memory w) ?now i" "ww_memory w' = watch_markRecent ?now i (ww_memory w)"
      "ww_stops w' = ww_stops w @ [(st_box x, i)]"
    then have "i \<notin> snd ` set (ww_stops w)" using rem watched.remembered_recent now(2) by blast
    then show ?thesis
      using i Cons.prems(4, 5) watched.ok_mark [OF Cons.prems(4) i(1)]
        watched.remembered_after_mark [OF Cons.prems(4) i(1) order.refl now(3) rem] by auto
  qed
  then have "distinct (map snd (ww_stops (run_watch es w')))"
    using Cons.prems(1, 2) by (intro Cons.IH [of ?now w']) (auto simp: now(3))
  then show ?case by (simp add: w'_def)
qed simp

text \<open>
  The watchdog stops a session once: over any run of reported sessions within a minute,
  whatever the pairing rows and the outcomes of the calls, it issues at most one stop for each
  transaction.
\<close>

theorem watchdog_stops_once:
  assumes "sorted (map (\<lambda>e. wi_now (st_io e)) es)" "\<forall>x \<in> set es. a \<le> wi_now (st_io x) \<and> wi_now (st_io x) < a + RECENT_TTL_MS"
    and "watch_ok (ww_memory w)" "ww_stops w = []"
  shows "distinct (map snd (ww_stops (run_watch es w)))"
  by (rule run_watch_distinct [OF assms(1, 2) order.refl assms(3)]) (simp_all add: assms(4))

text \<open>
  While a pairing is armed for a charger, the watchdog stops every session that starts
  there: with a row of the charger that is armed and not expired, a reported session that was
  not stopped in the last minute is stopped and remembered whatever its tag.
\<close>

theorem armed_pairing_stops_any_tag:
  assumes "plain_text box" "r \<in> set (vd_rows d)" "vf_identifier r = chargerPairingIdentifier box code"
    and "vf_expiresAt r > wi_now io" "pv_status (vf_value r) = Armed"
    and "tx = Some i" "i \<noteq> 0" "watch_ok (ww_memory w)" "\<not> watch_recent (ww_memory w) (wi_now io) i" "wi_query io"
  shows "ww_stops (handleTxStarted io box tx tag d w) = ww_stops w @ [(box, i)]
    \<and> watch_recent (ww_memory (handleTxStarted io box tx tag d w)) (wi_now io) i"
proof -
  have "plain_text ''scan-pair:''" by (simp add: plain_text_def)
  then have "plain_text (''scan-pair:'' @ box @ '':'')" using assms(1) by (auto simp: plain_text_def)
  from like_plain [OF this, of "''%''" code] have "sql_like (''scan-pair:'' @ box @ '':%'') (vf_identifier r)"
    by (simp add: assms(3) chargerPairingIdentifier_def like_percent del: sql_like.simps)
  then have "intercepts (wi_now io) box tag r" using assms(4, 5) by (simp add: intercepts_def)
  then obtain r' where "find (intercepts (wi_now io) box tag) (vd_rows d) = Some r'"
    using assms(2) by (cases "find (intercepts (wi_now io) box tag) (vd_rows d)") (auto simp: find_None_set)
  moreover have "watch_recent (watch_markRecent (wi_now io) i (ww_memory w)) (wi_now io) i"
    using watched.marked [OF assms(8, 9), of "wi_now io"] by (simp add: RECENT_TTL_MS_def)
  ultimately show ?thesis using assms(6, 7, 9, 10) by (auto simp: handleTxStarted_def Let_def split: prod.split)
qed

definition demo_started :: "int \<Rightarrow> started" where
  "demo_started t = \<lparr>st_io = \<lparr>wi_now = t, wi_query = True, wi_insert = True, wi_stop = None, wi_update = None, wi_repair = True\<rparr>,
     st_box = ''EV-1'', st_tx = Some 7, st_tag = Some ''CARD9'', st_db = sw_db twin_world\<rparr>"

definition demo_watch :: watch_world where
  "demo_watch = \<lparr>ww_memory = \<lparr>wm_ids = [], wm_timers = []\<rparr>, ww_log = quiet_stops, ww_stops = []\<rparr>"

text \<open>The log reports the same session twice while a pairing of the charger is armed.\<close>

theorem watchdog_stops_once_witness:
  "ww_stops (run_watch [demo_started 1000, demo_started 2000] demo_watch) = [(''EV-1'', 7)]
   \<and> distinct (map snd (ww_stops (run_watch [demo_started 1000, demo_started 2000] demo_watch)))"
proof
  show "ww_stops (run_watch [demo_started 1000, demo_started 2000] demo_watch) = [(''EV-1'', 7)]" by code_simp
  show "distinct (map snd (ww_stops (run_watch [demo_started 1000, demo_started 2000] demo_watch)))"
    by (rule watchdog_stops_once [of _ 0]) (simp_all add: demo_started_def demo_watch_def watch_ok_def RECENT_TTL_MS_def)
qed

theorem armed_pairing_stops_any_tag_witness:
  "ww_stops (handleTxStarted (st_io (demo_started 1000)) ''EV-1'' (Some 7) (Some ''CARD9'') (sw_db twin_world) demo_watch)
     = [(''EV-1'', 7)]"
  using armed_pairing_stops_any_tag [of "''EV-1''" "hd (vd_rows (sw_db twin_world))" "sw_db twin_world" "''code''"
      "st_io (demo_started 1000)" "Some 7" 7 demo_watch "Some ''CARD9''"]
  by (simp add: plain_text_def twin_world_def demo_started_def demo_watch_def chargerPairingIdentifier_def
      watch_ok_def watch_recent_def fire_timers_def)

end
