(* ===== verification/Settings.thy ===== *)
theory Settings
  imports Prelude "HOL-Library.Char_ord" "HOL-Library.List_Lexorder" "HOL-Library.Multiset"
begin

text \<open>
  The data a phone synchronises: JSON values, capability sets
  (\<open>src/lib/devices/capability-gate.ts\<close>), the last-writer-wins merge of settings
  (\<open>src/lib/devices/lww.ts\<close>, \<open>settings-keys.ts\<close> and the writes of
  \<open>routes/api/devices/me/state/sync.ts\<close>) and feature flags
  (\<open>src/lib/devices/feature-flag-resolver.ts\<close>). Times are milliseconds.
\<close>

section \<open>JSON\<close>

datatype json =
    JNull
  | JBool bool
  | JNum rat
  | JStr string
  | JArr "json list"
  | JObj "(string \<times> json) list"

text \<open>\<open>deepEqualJson\<close>; the keys of an object are those of its association list.\<close>

fun deepEqualJson :: "json \<Rightarrow> json \<Rightarrow> bool"
  and deep_equal_elems :: "json list \<Rightarrow> json list \<Rightarrow> bool"
  and deep_equal_fields :: "(string \<times> json) list \<Rightarrow> (string \<times> json) list \<Rightarrow> bool"
where
  "deepEqualJson (JArr xs) b = (case b of JArr ys \<Rightarrow> length xs = length ys \<and> deep_equal_elems xs ys | _ \<Rightarrow> False)"
| "deepEqualJson (JObj ao) b = (case b of JObj bo \<Rightarrow> length ao = length bo \<and> deep_equal_fields ao bo | _ \<Rightarrow> False)"
| "deepEqualJson a b = (a = b)"
| "deep_equal_elems [] ys = True"
| "deep_equal_elems (x # xs) ys = (case ys of [] \<Rightarrow> False | y # ys' \<Rightarrow> deepEqualJson x y \<and> deep_equal_elems xs ys')"
| "deep_equal_fields [] bo = True"
| "deep_equal_fields ((k, v) # ao) bo =
     (case map_of bo k of None \<Rightarrow> False | Some w \<Rightarrow> deepEqualJson v w \<and> deep_equal_fields ao bo)"

section \<open>Capabilities\<close>

definition DEVICE_CAPABILITIES :: "string list" where
  "DEVICE_CAPABILITIES = [''scanner'', ''charger'', ''user'', ''kiosk'', ''managed'']"

text \<open>The loop with its set of seen tokens; the reason of the first offence, \<open>None\<close> if legal.\<close>

fun capability_loop :: "string set \<Rightarrow> string list \<Rightarrow> string option" where
  "capability_loop seen [] = None"
| "capability_loop seen (c # cs) =
     (if c \<notin> set DEVICE_CAPABILITIES then Some ''capability_unknown''
      else if c \<in> seen then Some ''capability_duplicate''
      else capability_loop (insert c seen) cs)"

definition validateCapabilitySet :: "string list \<Rightarrow> string option" where
  "validateCapabilitySet caps =
     (if caps = [] then Some ''capabilities_must_not_be_empty''
      else case capability_loop {} caps of
        Some reason \<Rightarrow> Some reason
      | None \<Rightarrow>
          if ''charger'' \<in> set caps then Some ''capability_not_app_eligible''
          else if ''kiosk'' \<in> set caps \<and> ((''scanner'' \<in> set caps) = (''user'' \<in> set caps))
          then Some ''kiosk_requires_exactly_one_of_scanner_user''
          else None)"

text \<open>The capabilities a device lacks; the call throws when there are any.\<close>

definition requireCapability :: "string list option \<Rightarrow> string list \<Rightarrow> string list" where
  "requireCapability granted required = filter (\<lambda>c. c \<notin> set (case granted of None \<Rightarrow> [] | Some g \<Rightarrow> g)) required"

lemma capability_loop_None:
  "capability_loop seen cs = None \<longleftrightarrow> set cs \<subseteq> set DEVICE_CAPABILITIES \<and> distinct cs \<and> set cs \<inter> seen = {}"
  by (induction cs arbitrary: seen) auto

lemma validateCapabilitySet_None:
  "validateCapabilitySet caps = None \<longleftrightarrow>
     caps \<noteq> [] \<and> set caps \<subseteq> set DEVICE_CAPABILITIES \<and> distinct caps \<and> ''charger'' \<notin> set caps
     \<and> (''kiosk'' \<in> set caps \<longrightarrow> (''scanner'' \<in> set caps) \<noteq> (''user'' \<in> set caps))"
  by (auto simp: validateCapabilitySet_def capability_loop_None split: option.split)
     (metis capability_loop_None inf_bot_right option.distinct(1))+

section \<open>Settings\<close>

record setting_row =
  sg_key :: string
  sg_value :: json
  sg_updatedAt :: int
  sg_updatedBy :: string

record setting_delta =
  sd_key :: string
  sd_value :: json
  sd_clientUpdatedAt :: int
  sd_updatedBy :: string

definition clampClientUpdatedAt :: "int \<Rightarrow> int \<Rightarrow> int" where
  "clampClientUpdatedAt client now = (if client > now + 5000 then now + 5000 else client)"

definition candidate :: "setting_delta \<Rightarrow> setting_row" where
  "candidate d = \<lparr>sg_key = sd_key d, sg_value = sd_value d, sg_updatedAt = sd_clientUpdatedAt d, sg_updatedBy = sd_updatedBy d\<rparr>"

definition merge_delta :: "setting_delta \<Rightarrow> (string, setting_row) jsmap \<Rightarrow> (string, setting_row) jsmap" where
  "merge_delta d m =
     (case map_of m (sd_key d) of
        None \<Rightarrow> AList.update (sd_key d) (candidate d) m
      | Some r \<Rightarrow> if sd_clientUpdatedAt d > sg_updatedAt r then AList.update (sd_key d) (candidate d) m else m)"

definition mergeSettings :: "setting_delta list \<Rightarrow> setting_row list \<Rightarrow> setting_row list" where
  "mergeSettings local remote = sort_key sg_key (map snd (fold merge_delta local (map_from sg_key remote)))"

text \<open>The wire form of a delta: the time is a text or a date, here its value or \<open>None\<close> if invalid.\<close>

record wire_delta =
  wd_key :: string
  wd_value :: json
  wd_clientUpdatedAt :: "int option"
  wd_updatedBy :: string

definition SETTING_KEYS :: "(string \<times> (json \<Rightarrow> bool) \<times> json) list" where
  "SETTING_KEYS =
     [(''device.label'', (\<lambda>v. case v of JStr s \<Rightarrow> 1 \<le> length s \<and> length s \<le> 120 | _ \<Rightarrow> False), JStr ''''),
      (''notifications.scanRequest'', (\<lambda>v. case v of JBool b \<Rightarrow> True | _ \<Rightarrow> False), JBool True)]"

text \<open>The first failing entry makes the whole call fail; the path of the issue is kept.\<close>

datatype delta_issue = Bad_shape | Unknown_key nat | Bad_value nat | Bad_time nat

fun parse_deltas :: "nat \<Rightarrow> wire_delta list \<Rightarrow> delta_issue + setting_delta list" where
  "parse_deltas i [] = Inr []"
| "parse_deltas i (w # ws) =
     (case map_of SETTING_KEYS (wd_key w) of
        None \<Rightarrow> Inl (Unknown_key i)
      | Some (ok, dflt) \<Rightarrow>
          if \<not> ok (wd_value w) then Inl (Bad_value i)
          else case wd_clientUpdatedAt w of
            None \<Rightarrow> Inl (Bad_time i)
          | Some t \<Rightarrow> (case parse_deltas (i + 1) ws of
               Inl e \<Rightarrow> Inl e
             | Inr ds \<Rightarrow> Inr (\<lparr>sd_key = wd_key w, sd_value = wd_value w, sd_clientUpdatedAt = t,
                              sd_updatedBy = wd_updatedBy w\<rparr> # ds)))"

definition parseSettingDelta :: "wire_delta list \<Rightarrow> delta_issue + setting_delta list" where
  "parseSettingDelta ws =
     (if \<exists>w \<in> set ws. wd_updatedBy w = [] \<or> length (wd_updatedBy w) > 120 then Inl Bad_shape else parse_deltas 0 ws)"

text \<open>The rows the merge changed, and writing them: insert, or update on the key.\<close>

definition diffMergedRows :: "setting_row list \<Rightarrow> setting_row list \<Rightarrow> setting_row list" where
  "diffMergedRows remote merged =
     filter (\<lambda>m. case map_of (map_from sg_key remote) (sg_key m) of
        None \<Rightarrow> True
      | Some r \<Rightarrow> sg_updatedAt r \<noteq> sg_updatedAt m \<or> sg_updatedBy r \<noteq> sg_updatedBy m) merged"

definition upsert_setting :: "setting_row \<Rightarrow> setting_row list \<Rightarrow> setting_row list" where
  "upsert_setting r rows =
     (if sg_key r \<in> sg_key ` set rows then map (\<lambda>x. if sg_key x = sg_key r then r else x) rows else rows @ [r])"

definition write_settings :: "setting_row list \<Rightarrow> setting_row list \<Rightarrow> setting_row list" where
  "write_settings changed rows = fold upsert_setting changed rows"

text \<open>
  Steps 3 to 5 of a sync: \<open>remote\<close> are the rows read, \<open>rows\<close> the table when the writes run. With
  \<open>rows = remote\<close> nothing else ran in between.
\<close>

definition clamp_delta :: "int \<Rightarrow> setting_delta \<Rightarrow> setting_delta" where
  "clamp_delta now d = d\<lparr>sd_clientUpdatedAt := clampClientUpdatedAt (sd_clientUpdatedAt d) now\<rparr>"

definition sync_write :: "int \<Rightarrow> setting_delta list \<Rightarrow> setting_row list \<Rightarrow> setting_row list \<Rightarrow> setting_row list" where
  "sync_write now deltas remote rows =
     write_settings (diffMergedRows remote (mergeSettings (map (clamp_delta now) deltas) remote)) rows"

definition sync_settings :: "int \<Rightarrow> setting_delta list \<Rightarrow> setting_row list \<Rightarrow> setting_row list" where
  "sync_settings now deltas rows = sync_write now deltas rows rows"

section \<open>Feature flags\<close>

definition FEATURE_FLAGS :: "(string \<times> json) list" where
  "FEATURE_FLAGS = [(''customer.connectivityCheck'', JBool True)]"

definition isFeatureFlag :: "string \<Rightarrow> bool" where
  "isFeatureFlag k \<longleftrightarrow> k \<in> set (map fst FEATURE_FLAGS)"

definition FEATURE_FLAG_DEVICE_KINDS :: "string list" where
  "FEATURE_FLAG_DEVICE_KINDS = [''phone_nfc'', ''tablet_nfc'', ''laptop_nfc'']"

definition isFeatureFlagEligibleKind :: "string option \<Rightarrow> bool" where
  "isFeatureFlagEligibleKind kind \<longleftrightarrow> (case kind of None \<Rightarrow> False | Some k \<Rightarrow> k \<in> set FEATURE_FLAG_DEVICE_KINDS)"

text \<open>A tier: its rows as a map from registered keys; a later row wins.\<close>

definition flag_tier :: "setting_row list \<Rightarrow> (string, setting_row) jsmap" where
  "flag_tier rows = map_from sg_key (filter (\<lambda>r. isFeatureFlag (sg_key r)) rows)"

definition flag_source ::
  "(string, setting_row) jsmap \<Rightarrow> (string, setting_row) jsmap \<Rightarrow> (string, setting_row) jsmap \<Rightarrow> string \<Rightarrow> setting_row option"
where
  "flag_source device user global k =
     (case map_of device k of Some r \<Rightarrow> Some r | None \<Rightarrow>
       (case map_of user k of Some r \<Rightarrow> Some r | None \<Rightarrow> map_of global k))"

definition effective_flag :: "setting_row option \<Rightarrow> json \<Rightarrow> json" where
  "effective_flag source dflt = (case source of None \<Rightarrow> dflt | Some r \<Rightarrow> sg_value r)"

text \<open>
  \<open>device\<close> is \<open>None\<close> without a device; otherwise the kind and the deletion time of its row (\<open>None\<close>
  if missing) and its overrides. The result maps a flag to its value, time and author.
\<close>

definition resolveFlags ::
  "((string \<times> int option) option \<times> setting_row list) option \<Rightarrow> setting_row list \<Rightarrow> setting_row list
     \<Rightarrow> (string \<times> json \<times> int \<times> string) list"
where
  "resolveFlags device userRows globalRows =
     (let overrides = (case device of
            Some (Some (kind, None), rows) \<Rightarrow> if isFeatureFlagEligibleKind (Some kind) then flag_tier rows else []
          | _ \<Rightarrow> []);
          source = flag_source overrides (flag_tier userRows) (flag_tier globalRows)
      in List.map_filter (\<lambda>(k, dflt).
           if deepEqualJson (effective_flag (source k) dflt) dflt then None
           else case source k of
             Some r \<Rightarrow> Some (k, sg_value r, sg_updatedAt r, sg_updatedBy r)
           | None \<Rightarrow> Some (k, dflt, 0, ''system:default'')) FEATURE_FLAGS)"

section \<open>What a sync stores\<close>

definition setting_at :: "setting_row list \<Rightarrow> string \<Rightarrow> setting_row option" where
  "setting_at rows k = find (\<lambda>r. sg_key r = k) rows"

lemma setting_at_None: "setting_at rows k = None \<longleftrightarrow> k \<notin> sg_key ` set rows"
  by (auto simp: setting_at_def find_None_set)

lemma setting_at_Some: "setting_at rows k = Some r \<Longrightarrow> r \<in> set rows \<and> sg_key r = k"
  by (auto simp: setting_at_def dest: find_Some_set)

lemma setting_at_Cons: "setting_at (r # rows) k = (if sg_key r = k then Some r else setting_at rows k)"
  by (simp add: setting_at_def)

text \<open>The register of one key: a delta wins only with a later time.\<close>

definition best :: "setting_delta \<Rightarrow> setting_row option \<Rightarrow> setting_row option" where
  "best d cur = (case cur of None \<Rightarrow> Some (candidate d)
     | Some r \<Rightarrow> if sd_clientUpdatedAt d > sg_updatedAt r then Some (candidate d) else Some r)"

definition deltas_of :: "string \<Rightarrow> setting_delta list \<Rightarrow> setting_delta list" where
  "deltas_of k ds = filter (\<lambda>d. sd_key d = k) ds"

lemma candidate_simps [simp]:
  "sg_key (candidate d) = sd_key d" "sg_updatedAt (candidate d) = sd_clientUpdatedAt d"
  "sg_value (candidate d) = sd_value d" "sg_updatedBy (candidate d) = sd_updatedBy d"
  by (simp_all add: candidate_def)

lemma merge_deltas_at: "map_of (fold merge_delta ds m) k = fold best (deltas_of k ds) (map_of m k)"
proof (induction ds arbitrary: m)
  case (Cons d ds)
  have "map_of (merge_delta d m) k = (if sd_key d = k then best d (map_of m k) else map_of m k)"
    by (auto simp: merge_delta_def best_def map_of_update split: option.split)
  then show ?case by (simp add: Cons.IH deltas_of_def)
qed (simp add: deltas_of_def)

definition keyed :: "(string, setting_row) jsmap \<Rightarrow> bool" where
  "keyed m \<longleftrightarrow> distinct (map fst m) \<and> (\<forall>(k, r) \<in> set m. sg_key r = k)"

lemma keyed_update: "keyed m \<Longrightarrow> sg_key r = k \<Longrightarrow> keyed (AList.update k r m)"
  using set_update_subset [of k r m] distinct_keys_update [of m k r] by (auto simp: keyed_def)

lemma keyed_merge: "keyed m \<Longrightarrow> keyed (fold merge_delta ds m)"
proof (induction ds arbitrary: m)
  case (Cons d ds)
  then have "keyed (merge_delta d m)"
    by (cases "map_of m (sd_key d)") (simp_all add: merge_delta_def keyed_update)
  then show ?case by (simp add: Cons.IH)
qed simp

lemma keyed_map_from: "keyed (map_from sg_key rows)"
proof -
  have "sg_key r = k" if "(k, r) \<in> set (map_from sg_key rows)" for k r
    using that map_from_Some [of sg_key rows k r] distinct_map_from [of sg_key rows] by (auto simp: map_of_eq_Some_iff)
  then show ?thesis using distinct_map_from [of sg_key rows] by (auto simp: keyed_def)
qed

lemma find_keyed: "keyed m \<Longrightarrow> find (\<lambda>r. sg_key r = k) (map snd m) = map_of m k"
  by (induction m) (auto simp: keyed_def)

lemma find_by_key:
  assumes "distinct (map sg_key rows)"
  shows "setting_at rows k = Some r \<longleftrightarrow> r \<in> set rows \<and> sg_key r = k"
proof -
  have "find (\<lambda>r. sg_key r = k) rows = Some r" if "r \<in> set rows" "sg_key r = k" for r
    using find_distinct [of sg_key rows r] assms that by simp
  then show ?thesis by (auto simp: setting_at_def dest: find_Some_set)
qed

lemma setting_at_set:
  assumes "distinct (map sg_key xs)" "distinct (map sg_key ys)" "set xs = set ys"
  shows "setting_at xs k = setting_at ys k"
  using find_by_key [OF assms(1)] find_by_key [OF assms(2)] assms(3) by (metis option.exhaust)

lemma map_from_distinct:
  assumes "distinct (map sg_key rows)"
  shows "map_of (map_from sg_key rows) k = setting_at rows k"
proof (cases "map_of (map_from sg_key rows) k")
  case None
  then show ?thesis by (metis map_from_None setting_at_None)
next
  case (Some r)
  then have "setting_at rows k = Some r" using map_from_Some [OF Some] find_by_key [OF assms, of k r] by simp
  then show ?thesis using Some by simp
qed

lemma mergeSettings_at:
  assumes "distinct (map sg_key rows)"
  shows "setting_at (mergeSettings ds rows) k = fold best (deltas_of k ds) (setting_at rows k)"
    and "distinct (map sg_key (mergeSettings ds rows))"
proof -
  let ?m = "fold merge_delta ds (map_from sg_key rows)"
  have keyed: "keyed ?m" by (intro keyed_merge keyed_map_from)
  have "map sg_key (map snd ?m) = map fst ?m" using keyed by (auto simp: keyed_def)
  then have dist: "distinct (map sg_key (map snd ?m))" using keyed by (simp add: keyed_def del: map_map)
  have perm: "mset (map sg_key (mergeSettings ds rows)) = mset (map sg_key (map snd ?m))"
    by (simp add: mergeSettings_def del: map_map)
  then show dist': "distinct (map sg_key (mergeSettings ds rows))"
    using dist mset_eq_imp_distinct_iff by blast
  have "set (mergeSettings ds rows) = set (map snd ?m)" by (simp add: mergeSettings_def)
  from setting_at_set [OF dist' dist this]
  show "setting_at (mergeSettings ds rows) k = fold best (deltas_of k ds) (setting_at rows k)"
    using find_keyed [OF keyed] by (simp add: setting_at_def merge_deltas_at map_from_distinct [OF assms, unfolded setting_at_def])
qed

lemma upsert_setting_at:
  assumes "distinct (map sg_key rows)"
  shows "setting_at (upsert_setting r rows) k = (if sg_key r = k then Some r else setting_at rows k)"
    and "distinct (map sg_key (upsert_setting r rows))"
proof -
  have keys: "map sg_key (map (\<lambda>x. if sg_key x = sg_key r then r else x) rows) = map sg_key rows" by (induction rows) auto
  show "distinct (map sg_key (upsert_setting r rows))"
    using assms keys by (simp add: upsert_setting_def image_iff del: map_map)
  have "find (\<lambda>x. sg_key x = k) (map (\<lambda>x. if sg_key x = sg_key r then r else x) xs)
      = (if sg_key r = k \<and> k \<in> sg_key ` set xs then Some r else find (\<lambda>x. sg_key x = k) xs)" for xs
    by (induction xs) auto
  moreover have "setting_at (rows @ [r]) k = (if sg_key r = k then Some r else setting_at rows k)"
    if "sg_key r \<notin> sg_key ` set rows"
    using that setting_at_None [of rows k] by (auto simp: setting_at_def find_snoc split: option.split)
  ultimately show "setting_at (upsert_setting r rows) k = (if sg_key r = k then Some r else setting_at rows k)"
    using setting_at_None [of rows k] by (auto simp: upsert_setting_def setting_at_def)
qed

lemma write_settings_at:
  assumes "distinct (map sg_key rows)" "distinct (map sg_key changed)"
  shows "setting_at (write_settings changed rows) k = (case setting_at changed k of Some r \<Rightarrow> Some r | None \<Rightarrow> setting_at rows k)"
    and "distinct (map sg_key (write_settings changed rows))"
  using assms
proof (induction changed arbitrary: rows)
  case Nil
  { case 1 then show ?case by (simp add: write_settings_def setting_at_def) next
    case 2 then show ?case by (simp add: write_settings_def) }
next
  case (Cons r changed)
  { case 1
    then have "setting_at (write_settings changed (upsert_setting r rows)) k
        = (case setting_at changed k of Some r \<Rightarrow> Some r | None \<Rightarrow> setting_at (upsert_setting r rows) k)"
      by (intro Cons.IH) (simp_all add: upsert_setting_at)
    moreover have "setting_at changed (sg_key r) = None" using 1 by (simp add: setting_at_None)
    ultimately show ?case using 1 by (auto simp: write_settings_def upsert_setting_at setting_at_Cons split: option.split)
  next
    case 2
    then show ?case using Cons.IH(2) [of "upsert_setting r rows"] by (simp add: write_settings_def upsert_setting_at) }
qed

text \<open>The register only moves to a row that wins, so an unchanged stamp is an unchanged row.\<close>

lemma fold_best_same:
  "fold best ds cur = Some r \<Longrightarrow> cur = Some r0 \<Longrightarrow> r = r0 \<or> sg_updatedAt r0 < sg_updatedAt r"
  by (induction ds arbitrary: cur r0) (fastforce simp: best_def split: if_splits)+

lemma sync_write_at:
  assumes "distinct (map sg_key remote)" "distinct (map sg_key rows)"
  shows "setting_at (sync_write now ds remote rows) k =
      (case fold best (deltas_of k (map (clamp_delta now) ds)) (setting_at remote k) of
         None \<Rightarrow> setting_at rows k
       | Some r \<Rightarrow> if setting_at remote k = Some r then setting_at rows k else Some r)"
    and "distinct (map sg_key (sync_write now ds remote rows))"
proof -
  let ?m = "mergeSettings (map (clamp_delta now) ds) remote"
  let ?changed = "diffMergedRows remote ?m"
  note m = mergeSettings_at [OF assms(1), of "map (clamp_delta now) ds"]
  have changed: "distinct (map sg_key ?changed)" using m(2) by (simp add: diffMergedRows_def distinct_map_filter_pred)
  show "distinct (map sg_key (sync_write now ds remote rows))"
    unfolding sync_write_def by (rule write_settings_at(2) [OF assms(2) changed])
  have "setting_at ?changed k = (case setting_at ?m k of None \<Rightarrow> None
      | Some r \<Rightarrow> if setting_at remote k = Some r then None else Some r)"
  proof (cases "setting_at ?m k")
    case None
    then have "setting_at ?changed k = None" by (auto simp: setting_at_def find_None_set diffMergedRows_def)
    then show ?thesis using None by simp
  next
    case (Some r)
    then have r: "r \<in> set ?m" "sg_key r = k" using find_by_key [OF m(2)] by auto
    have "r \<in> set ?changed \<longleftrightarrow> setting_at remote k \<noteq> Some r"
      using r Some m(1) [of k] fold_best_same [of "deltas_of k (map (clamp_delta now) ds)" "setting_at remote k" r]
      by (cases "setting_at remote k") (auto simp: diffMergedRows_def map_from_distinct [OF assms(1)])
    moreover have "setting_at ?changed k = None" if "r \<notin> set ?changed"
    proof -
      have "x = r" if "x \<in> set ?changed" "sg_key x = k" for x
        using that r m(2) find_by_key [OF m(2), of k x] Some by (simp add: diffMergedRows_def)
      then show ?thesis using that by (auto simp: setting_at_def find_None_set)
    qed
    ultimately show ?thesis using Some r(2) find_by_key [OF changed, of k r] by auto
  qed
  then show "setting_at (sync_write now ds remote rows) k =
      (case fold best (deltas_of k (map (clamp_delta now) ds)) (setting_at remote k) of
         None \<Rightarrow> setting_at rows k
       | Some r \<Rightarrow> if setting_at remote k = Some r then setting_at rows k else Some r)"
    unfolding sync_write_def by (simp add: write_settings_at(1) [OF assms(2) changed] m(1) split: option.split)
qed

lemma fold_best_None: "fold best ds cur = None \<longleftrightarrow> ds = [] \<and> cur = None"
  by (induction ds arbitrary: cur) (auto simp: best_def split: option.splits)

lemma sync_settings_at:
  assumes "distinct (map sg_key rows)"
  shows "setting_at (sync_settings now ds rows) k = fold best (deltas_of k (map (clamp_delta now) ds)) (setting_at rows k)"
    and "distinct (map sg_key (sync_settings now ds rows))"
  using sync_write_at [OF assms assms, of now ds] by (auto simp: sync_settings_def fold_best_None split: option.split)

section \<open>Convergence\<close>

text \<open>A run of syncs, each with the server's time and the deltas of a phone.\<close>

definition run_syncs :: "(int \<times> setting_delta list) list \<Rightarrow> setting_row list \<Rightarrow> setting_row list" where
  "run_syncs batches rows = fold (\<lambda>(now, ds). sync_settings now ds) batches rows"

definition clamped_deltas :: "(int \<times> setting_delta list) list \<Rightarrow> setting_delta list" where
  "clamped_deltas batches = concat (map (\<lambda>(now, ds). map (clamp_delta now) ds) batches)"

lemma deltas_of_append [simp]: "deltas_of k (xs @ ys) = deltas_of k xs @ deltas_of k ys"
  by (simp add: deltas_of_def)

lemma run_syncs_at:
  "distinct (map sg_key rows) \<Longrightarrow>
     setting_at (run_syncs batches rows) k = fold best (deltas_of k (clamped_deltas batches)) (setting_at rows k)"
proof (induction batches arbitrary: rows)
  case (Cons b batches)
  then show ?case
    using sync_settings_at [OF Cons.prems, of "fst b" "snd b"]
    by (simp add: run_syncs_def clamped_deltas_def split_beta)
qed (simp add: run_syncs_def clamped_deltas_def deltas_of_def)

lemma best_commutes:
  "sd_clientUpdatedAt a \<noteq> sd_clientUpdatedAt b \<Longrightarrow> best a \<circ> best b = best b \<circ> best a"
  by (rule ext) (auto simp: best_def split: option.split)


lemma fold_best_time:
  "fold best ds cur = Some r \<Longrightarrow> (\<forall>d \<in> set ds. sd_clientUpdatedAt d \<le> e) \<Longrightarrow> cur = Some r \<or> sg_updatedAt r \<le> e"
proof (induction ds arbitrary: cur)
  case (Cons d ds)
  have "best d cur = Some r \<Longrightarrow> cur = Some r \<or> sg_updatedAt r = sd_clientUpdatedAt d"
    by (cases cur) (auto simp: best_def split: if_splits)
  with Cons.IH [of "best d cur"] Cons.prems show ?case by auto
qed simp

text \<open>No delta gets a stamp more than five seconds ahead of the server.\<close>

lemma sync_stamp_bound:
  assumes "distinct (map sg_key rows)" "setting_at (sync_settings now ds rows) k = Some r"
  shows "setting_at rows k = Some r \<or> sg_updatedAt r \<le> now + 5000"
proof -
  have "\<forall>d \<in> set (deltas_of k (map (clamp_delta now) ds)). sd_clientUpdatedAt d \<le> now + 5000"
    by (auto simp: deltas_of_def clamp_delta_def clampClientUpdatedAt_def)
  from fold_best_time [OF _ this, of "setting_at rows k" r] show ?thesis
    using assms(2) unfolding sync_settings_at(1) [OF assms(1)] by blast
qed

text \<open>
  Two syncs that overlap lose the later writer: when both read the settings before either
  writes, and the one with the earlier delta writes last, the stored setting is the earlier one;
  run one after the other, in either order, the later delta is stored.
\<close>

theorem overlapping_syncs_lose_newer:
  assumes "distinct (map sg_key rows)" "sd_key a = k" "sd_key b = k"
    and "setting_at rows k = Some r" "sg_updatedAt r < sd_clientUpdatedAt a"
    and "sd_clientUpdatedAt a < sd_clientUpdatedAt b" "sd_clientUpdatedAt b \<le> now"
  shows "setting_at (sync_write now [a] rows (sync_write now [b] rows rows)) k = Some (candidate a)
    \<and> setting_at (sync_settings now [a] (sync_settings now [b] rows)) k = Some (candidate b)
    \<and> setting_at (sync_settings now [b] (sync_settings now [a] rows)) k = Some (candidate b)"
proof -
  have clamp: "clamp_delta now a = a" "clamp_delta now b = b"
    using assms(6, 7) by (simp_all add: clamp_delta_def clampClientUpdatedAt_def)
  have old: "r \<noteq> candidate a" "r \<noteq> candidate b" using assms(5, 6) by auto
  have dist: "distinct (map sg_key (sync_write now [b] rows rows))" "distinct (map sg_key (sync_settings now [x] rows))" for x
    using sync_write_at(2) [OF assms(1) assms(1)] sync_settings_at(2) [OF assms(1)] by blast+
  have "setting_at (sync_write now [a] rows (sync_write now [b] rows rows)) k = Some (candidate a)"
    using sync_write_at(1) [OF assms(1) dist(1), of now "[a]" k] assms(2, 4, 5) clamp old
    by (simp add: deltas_of_def best_def)
  moreover have "setting_at (sync_settings now [a] (sync_settings now [b] rows)) k = Some (candidate b)"
    using sync_settings_at(1) [OF dist(2), of now "[a]" b k] sync_settings_at(1) [OF assms(1), of now "[b]" k] assms clamp
    by (simp add: deltas_of_def best_def)
  moreover have "setting_at (sync_settings now [b] (sync_settings now [a] rows)) k = Some (candidate b)"
    using sync_settings_at(1) [OF dist(2), of now "[b]" a k] sync_settings_at(1) [OF assms(1), of now "[a]" k] assms clamp
    by (simp add: deltas_of_def best_def)
  ultimately show ?thesis by simp
qed


section \<open>Precedence of flags\<close>

text \<open>The effective value is the device's, else the user's, else the global one; defaults are omitted.\<close>

lemma resolveFlags_at:
  fixes userRows globalRows device
  defines "source \<equiv> flag_source
    (case device of Some (Some (kind, None), rows) \<Rightarrow> if isFeatureFlagEligibleKind (Some kind) then flag_tier rows else [] | _ \<Rightarrow> [])
    (flag_tier userRows) (flag_tier globalRows)"
  assumes "(k, dflt) \<in> set FEATURE_FLAGS"
  shows "map_of (resolveFlags device userRows globalRows) k =
    (case source k of None \<Rightarrow> None
     | Some r \<Rightarrow> if deepEqualJson (sg_value r) dflt then None else Some (sg_value r, sg_updatedAt r, sg_updatedBy r))"
proof -
  have "k = ''customer.connectivityCheck''" "dflt = JBool True" using assms(2) by (simp_all add: FEATURE_FLAGS_def)
  then show ?thesis
    by (simp add: resolveFlags_def source_def [symmetric] Let_def FEATURE_FLAGS_def effective_flag_def
        map_filter_simps split: option.split)
qed

definition label_delta :: "string \<Rightarrow> int \<Rightarrow> setting_delta" where
  "label_delta s t = \<lparr>sd_key = ''device.label'', sd_value = JStr s, sd_clientUpdatedAt = t, sd_updatedBy = ''device:1''\<rparr>"

definition label_rows :: "setting_row list" where
  "label_rows = [candidate (label_delta ''old'' 0)]"


theorem overlapping_syncs_lose_newer_witness:
  "setting_at (sync_write 100 [label_delta ''a'' 10] label_rows (sync_write 100 [label_delta ''b'' 20] label_rows label_rows)) ''device.label''
     = Some (candidate (label_delta ''a'' 10))"
  using overlapping_syncs_lose_newer [of label_rows "label_delta ''a'' 10" "''device.label''" "label_delta ''b'' 20"
      "candidate (label_delta ''old'' 0)" 100]
  by (simp add: label_delta_def label_rows_def setting_at_def)

end
