(* ===== verification/DeviceSync.thy ===== *)
theory DeviceSync
  imports Settings Scan "HOL-Library.Sublist"
begin

text \<open>
  The synchronisation of a phone (\<open>routes/api/devices/me/state/sync.ts\<close>): the settings, the
  diagnostics, the location and the batch of log records a phone sends, and the envelope it gets
  back (\<open>src/lib/devices/device-state.ts\<close>, \<open>src/lib/devices/log-schemas.ts\<close>). The body is the
  result of the request schema; times are milliseconds, log times nanoseconds.
\<close>

section \<open>Log records\<close>

record otel_record =
  ot_timestamp :: int
  ot_severity_text :: string
  ot_severity_number :: int
  ot_body :: string
  ot_attributes :: "(string \<times> json) list"
  ot_resource :: "(string \<times> json) list"
  ot_trace_id :: "string option"
  ot_span_id :: "string option"

record log_row =
  lw_device :: string
  lw_seq :: int
  lw_timestampNs :: int
  lw_severity_text :: string
  lw_severity_number :: int
  lw_body :: string
  lw_category :: "string option"
  lw_trace_id :: "string option"
  lw_span_id :: "string option"
  lw_attributes :: "(string \<times> json) list"
  lw_resource :: "(string \<times> json) list"

text \<open>
  \<open>BigInt\<close> of a text: blanks around it are ignored, the empty text is 0, a sign is allowed
  before decimal digits, and hexadecimal, octal and binary digits after their prefix.
\<close>

definition digit_below :: "nat \<Rightarrow> char \<Rightarrow> bool" where
  "digit_below b c = (case hex_value c of None \<Rightarrow> False | Some v \<Rightarrow> v < b)"

definition base_value :: "nat \<Rightarrow> string \<Rightarrow> int option" where
  "base_value b s = (if s = [] \<or> (\<exists>c \<in> set s. \<not> digit_below b c) then None
     else Some (foldl (\<lambda>n c. n * int b + int (the (hex_value c))) 0 s))"

definition parse_bigint :: "string \<Rightarrow> int option" where
  "parse_bigint text =
     (let s = js_trim text in
      case s of
        [] \<Rightarrow> Some 0
      | c # r \<Rightarrow>
          if c = CHR ''-'' then map_option uminus (base_value 10 r)
          else if c = CHR ''+'' then base_value 10 r
          else if c = CHR ''0'' \<and> r \<noteq> [] \<and> hd r \<in> set ''xX'' then base_value 16 (tl r)
          else if c = CHR ''0'' \<and> r \<noteq> [] \<and> hd r \<in> set ''oO'' then base_value 8 (tl r)
          else if c = CHR ''0'' \<and> r \<noteq> [] \<and> hd r \<in> set ''bB'' then base_value 2 (tl r)
          else base_value 10 s)"

definition truncate_rat :: "rat \<Rightarrow> int" where
  "truncate_rat r = (if r < 0 then - \<lfloor>- r\<rfloor> else \<lfloor>r\<rfloor>)"

definition extractSeq :: "otel_record \<Rightarrow> int option" where
  "extractSeq r =
     (case map_of (ot_attributes r) ''expressync.seq'' of
        Some (JStr s) \<Rightarrow> parse_bigint s
      | Some (JNum n) \<Rightarrow> Some (truncate_rat n)
      | _ \<Rightarrow> None)"

definition extractCategory :: "otel_record \<Rightarrow> string option" where
  "extractCategory r = (case map_of (ot_attributes r) ''category'' of Some (JStr s) \<Rightarrow> Some s | _ \<Rightarrow> None)"

definition clampLogTimestampNs :: "int \<Rightarrow> int \<Rightarrow> int" where
  "clampLogTimestampNs raw nowMs =
     (let ceiling = nowMs * 1000000 + 5000000000 in if raw > ceiling then ceiling else raw)"

text \<open>
  The insert of one record: a number out of the range of its column raises, a known sequence
  number of the device changes nothing.
\<close>

definition log_row_of :: "string \<Rightarrow> int \<Rightarrow> int \<Rightarrow> otel_record \<Rightarrow> log_row" where
  "log_row_of dev seq nowMs r =
     \<lparr>lw_device = dev, lw_seq = seq, lw_timestampNs = clampLogTimestampNs (ot_timestamp r) nowMs,
      lw_severity_text = ot_severity_text r, lw_severity_number = ot_severity_number r,
      lw_body = take 4096 (ot_body r), lw_category = extractCategory r,
      lw_trace_id = ot_trace_id r, lw_span_id = ot_span_id r,
      lw_attributes = ot_attributes r, lw_resource = ot_resource r\<rparr>"

definition row_fits :: "log_row \<Rightarrow> bool" where
  "row_fits l \<longleftrightarrow> \<bar>lw_seq l\<bar> < 10 ^ 20 \<and> - (2 ^ 63) \<le> lw_timestampNs l \<and> lw_timestampNs l < 2 ^ 63"

definition known_log :: "log_row list \<Rightarrow> log_row \<Rightarrow> bool" where
  "known_log rows l \<longleftrightarrow> (\<exists>x \<in> set rows. lw_device x = lw_device l \<and> lw_seq x = lw_seq l)"

text \<open>What a batch leaves: the table, the highest number stored, the duplicates, the records to publish.\<close>

record ingest =
  ig_rows :: "log_row list"
  ig_acked :: "int option"
  ig_dropped :: nat
  ig_fresh :: "otel_record list"

definition ack :: "int \<Rightarrow> int option \<Rightarrow> int option" where
  "ack seq cur = (case cur of None \<Rightarrow> Some seq | Some a \<Rightarrow> if seq > a then Some seq else Some a)"

definition ingest_record :: "bool \<Rightarrow> string \<Rightarrow> int \<Rightarrow> otel_record \<Rightarrow> ingest \<Rightarrow> ingest" where
  "ingest_record stored dev nowMs r g =
     (case extractSeq r of None \<Rightarrow> g
      | Some seq \<Rightarrow>
          let l = log_row_of dev seq nowMs r in
          if \<not> stored \<or> \<not> row_fits l then g
          else if known_log (ig_rows g) l
          then g\<lparr>ig_dropped := ig_dropped g + 1, ig_acked := ack seq (ig_acked g)\<rparr>
          else g\<lparr>ig_rows := ig_rows g @ [l], ig_acked := ack seq (ig_acked g),
                  ig_fresh := ig_fresh g @ [r\<lparr>ot_timestamp := lw_timestampNs l\<rparr>]\<rparr>)"

text \<open>\<open>ok\<close> says for each record whether the database answers.\<close>

fun ingest_logs :: "(nat \<Rightarrow> bool) \<Rightarrow> string \<Rightarrow> int \<Rightarrow> nat \<Rightarrow> otel_record list \<Rightarrow> ingest \<Rightarrow> ingest" where
  "ingest_logs ok dev nowMs n [] g = g"
| "ingest_logs ok dev nowMs n (r # rs) g = ingest_logs ok dev nowMs (n + 1) rs (ingest_record (ok n) dev nowMs r g)"

definition no_ingest :: "log_row list \<Rightarrow> ingest" where
  "no_ingest rows = \<lparr>ig_rows = rows, ig_acked = None, ig_dropped = 0, ig_fresh = []\<rparr>"

section \<open>The sync\<close>

record location =
  lo_lat :: rat
  lo_lon :: rat
  lo_accuracy :: rat
  lo_at :: int

record device_entry =
  de_id :: string
  de_kind :: string
  de_label :: string
  de_ownerUserId :: string
  de_capabilities :: "string list option"
  de_platform :: string
  de_model :: string
  de_osVersion :: string
  de_appVersion :: string
  de_pushToken :: "string option"
  de_apnsEnvironment :: "string option"
  de_lastSeenAt :: "int option"
  de_lastStatus :: "(string \<times> json) list option"
  de_registeredAt :: int
  de_deletedAt :: "int option"
  de_revokedAt :: "int option"
  de_revokedByUserId :: "string option"
  de_location :: "location option"

record owner_row =
  ow_id :: string
  ow_name :: "string option"
  ow_email :: "string option"
  ow_role :: string

record sync_world =
  sy_devices :: "device_entry list"
  sy_settings :: "string \<Rightarrow> setting_row list"
  sy_logs :: "log_row list"
  sy_owners :: "owner_row list"
  sy_pairings :: verification_db
  sy_userFlags :: "string \<Rightarrow> setting_row list"
  sy_deviceFlags :: "string \<Rightarrow> setting_row list"
  sy_globalFlags :: "setting_row list"
  sy_published :: "(string \<times> otel_record list) list"

text \<open>The location's time is \<open>None\<close> when the date does not parse.\<close>

record sync_request =
  sb_settings :: "wire_delta list"
  sb_diagnostics :: "(string \<times> json) list"
  sb_logs :: "otel_record list option"
  sb_location :: "(rat \<times> rat \<times> rat \<times> int option) option"

text \<open>
  The outcomes of the statements: the reads, the number of setting rows written before a failure
  (\<open>None\<close>: all), the update of the device, of the location, the inserts of log records, the
  reads of the envelope and its schema.
\<close>

record sync_io =
  si_now :: int
  si_read :: bool
  si_written :: "nat option"
  si_update :: bool
  si_location :: bool
  si_log :: "nat \<Rightarrow> bool"
  si_envelope :: bool

text \<open>\<open>||\<close> of two JSON objects: the keys of the right one win.\<close>

definition json_concat :: "(string \<times> json) list \<Rightarrow> (string \<times> json) list \<Rightarrow> (string \<times> json) list" where
  "json_concat a b = fold (\<lambda>(k, v) m. AList.update k v m) b a"

definition update_device :: "string \<Rightarrow> (device_entry \<Rightarrow> device_entry) \<Rightarrow> sync_world \<Rightarrow> sync_world" where
  "update_device dev f w = w\<lparr>sy_devices := map (\<lambda>d. if de_id d = dev \<and> de_deletedAt d = None then f d else d) (sy_devices w)\<rparr>"

definition write_location :: "int \<Rightarrow> rat \<times> rat \<times> rat \<times> int option \<Rightarrow> device_entry \<Rightarrow> device_entry" where
  "write_location now loc d =
     (case loc of (lat, lon, acc, taken) \<Rightarrow>
        let t = (case taken of None \<Rightarrow> now | Some x \<Rightarrow> min x (now + 5000)) in
        if (case de_location d of None \<Rightarrow> True | Some l \<Rightarrow> lo_at l < t)
        then d\<lparr>de_location := Some \<lparr>lo_lat = lat, lo_lon = lon, lo_accuracy = acc, lo_at = t\<rparr>\<rparr> else d)"

text \<open>Steps 4 to 6a; \<open>Inl\<close> is the status of the reply when the handler stops here.\<close>

definition sync_main ::
  "sync_io \<Rightarrow> string \<Rightarrow> sync_request \<Rightarrow> setting_delta list \<Rightarrow> sync_world \<Rightarrow> int option \<times> sync_world"
where
  "sync_main io dev body deltas w =
     (if \<not> si_read io then (Some 500, w)
      else case find (\<lambda>d. de_id d = dev) (sy_devices w) of
        None \<Rightarrow> (Some 410, w)
      | Some d \<Rightarrow>
          if de_deletedAt d \<noteq> None then (Some 410, w)
          else
            let remote = sy_settings w dev;
                changed = diffMergedRows remote (mergeSettings (map (clamp_delta (si_now io)) deltas) remote);
                written = (case si_written io of None \<Rightarrow> changed | Some n \<Rightarrow> take n changed);
                w1 = w\<lparr>sy_settings := (sy_settings w)(dev := write_settings written remote)\<rparr>
            in if (case si_written io of None \<Rightarrow> False | Some n \<Rightarrow> n < length changed) \<or> \<not> si_update io then (Some 500, w1)
               else
                 let w2 = update_device dev (\<lambda>d. d\<lparr>de_lastSeenAt := Some (si_now io),
                       de_lastStatus := Some (json_concat (case de_lastStatus d of None \<Rightarrow> [] | Some s \<Rightarrow> s) (sb_diagnostics body))\<rparr>) w1
                 in (None,
                     case sb_location body of None \<Rightarrow> w2
                     | Some loc \<Rightarrow>
                         if ''managed'' \<in> set (case de_capabilities d of None \<Rightarrow> [] | Some c \<Rightarrow> c) \<and> si_location io
                         then update_device dev (write_location (si_now io) loc) w2 else w2))"

definition sync_logs :: "sync_io \<Rightarrow> string \<Rightarrow> sync_request \<Rightarrow> sync_world \<Rightarrow> (int option \<times> nat) \<times> sync_world" where
  "sync_logs io dev body w =
     (case sb_logs body of
        None \<Rightarrow> ((None, 0), w)
      | Some rs \<Rightarrow>
          let g = ingest_logs (si_log io) dev (si_now io) 0 rs (no_ingest (sy_logs w)) in
          ((ig_acked g, ig_dropped g),
           w\<lparr>sy_logs := ig_rows g,
             sy_published := (if ig_fresh g = [] then sy_published w else sy_published w @ [(dev, ig_fresh g)])\<rparr>))"

section \<open>The envelope\<close>

definition pushTokenLast8 :: "string option \<Rightarrow> string option \<Rightarrow> (string \<times> string) option" where
  "pushTokenLast8 token env =
     (if \<not> truthy token \<or> \<not> truthy env then None
      else if the env \<noteq> ''sandbox'' \<and> the env \<noteq> ''production'' then None
      else Some (rev (take 8 (rev (the token))), the env))"

definition count_field :: "string \<Rightarrow> (string \<times> json) list option \<Rightarrow> int" where
  "count_field k status =
     (case status of None \<Rightarrow> 0
      | Some s \<Rightarrow> (case map_of s k of Some (JNum n) \<Rightarrow> if n \<ge> 0 then \<lfloor>n\<rfloor> else 0 | _ \<Rightarrow> 0))"

record connectivity =
  cn_online :: bool
  cn_lastSyncAt :: "int option"
  cn_reconnectCount :: int
  cn_pendingUploads :: int

definition deriveConnectivity :: "int \<Rightarrow> (string \<times> json) list option \<Rightarrow> int option \<Rightarrow> connectivity" where
  "deriveConnectivity now status seen =
     \<lparr>cn_online = (case seen of None \<Rightarrow> False | Some t \<Rightarrow> now - t \<le> ONLINE_WINDOW_MS), cn_lastSyncAt = seen,
      cn_reconnectCount = count_field ''reconnectCount'' status, cn_pendingUploads = count_field ''pendingUploads'' status\<rparr>"

text \<open>Without the scanner capability \<open>None\<close>; otherwise whether a pairing is armed, its code and expiry.\<close>

definition loadScanStatus :: "int \<Rightarrow> string \<Rightarrow> string list \<Rightarrow> verification_db \<Rightarrow> (bool \<times> string option \<times> int option) option" where
  "loadScanStatus now dev caps d =
     (if ''scanner'' \<notin> set caps then None
      else let prefix = ''device-scan:'' @ dev @ '':'' in
        case latest vf_expiresAt (filter (\<lambda>r. sql_like (prefix @ ''%'') (vf_identifier r) \<and> vf_expiresAt r > now) (vd_rows d)) of
          None \<Rightarrow> Some (False, None, None)
        | Some r \<Rightarrow> Some (True,
            if take (length prefix) (vf_identifier r) = prefix then Some (drop (length prefix) (vf_identifier r)) else None,
            Some (vf_expiresAt r)))"

record envelope =
  en_device :: device_entry
  en_kind :: string
  en_capabilities :: "string list"
  en_kioskAllowed :: bool
  en_ownerRole :: string
  en_displayName :: string
  en_settings :: "setting_row list"
  en_flags :: "(string \<times> json \<times> int \<times> string) list"
  en_scanStatus :: "(bool \<times> string option \<times> int option) option"
  en_pushToken :: "(string \<times> string) option"
  en_needsPushToken :: bool
  en_connectivity :: connectivity

definition DEVICE_KINDS :: "string list" where
  "DEVICE_KINDS = [''phone_nfc'', ''tablet_nfc'', ''laptop_nfc'']"

text \<open>\<open>None\<close>: the device is missing or deleted.\<close>

definition buildDeviceStateEnvelope :: "int \<Rightarrow> string \<Rightarrow> sync_world \<Rightarrow> envelope option" where
  "buildDeviceStateEnvelope now dev w =
     (case find (\<lambda>d. de_id d = dev \<and> (\<exists>o' \<in> set (sy_owners w). ow_id o' = de_ownerUserId d)) (sy_devices w) of
        None \<Rightarrow> None
      | Some d \<Rightarrow>
          if de_deletedAt d \<noteq> None then None
          else case find (\<lambda>u. ow_id u = de_ownerUserId d) (sy_owners w) of None \<Rightarrow> None | Some u \<Rightarrow>
            let caps = filter (\<lambda>c. c \<in> set DEVICE_CAPABILITIES) (case de_capabilities d of None \<Rightarrow> [] | Some c \<Rightarrow> c);
                push = pushTokenLast8 (de_pushToken d) (de_apnsEnvironment d)
            in Some \<lparr>en_device = d,
              en_kind = (if de_kind d \<in> set DEVICE_KINDS then de_kind d else ''phone_nfc''),
              en_capabilities = caps,
              en_kioskAllowed = (validateCapabilitySet (filter (\<lambda>c. c \<noteq> ''kiosk'') caps @ [''kiosk'']) = None),
              en_ownerRole = (if ow_role u = ''admin'' then ''admin'' else ''customer''),
              en_displayName = (if trimmed (ow_name u) \<noteq> [] then trimmed (ow_name u)
                 else if trimmed (ow_email u) \<noteq> [] then trimmed (ow_email u) else de_ownerUserId d),
              en_settings = sort_key sg_key (sy_settings w dev),
              en_flags = resolveFlags (Some (map_option (\<lambda>x. (de_kind x, de_deletedAt x)) (find (\<lambda>x. de_id x = dev) (sy_devices w)),
                 sy_deviceFlags w dev)) (sy_userFlags w (de_ownerUserId d)) (sy_globalFlags w),
              en_scanStatus = loadScanStatus now dev caps (sy_pairings w),
              en_pushToken = push,
              en_needsPushToken = (push = None \<and>
                 (case map_of (case de_lastStatus d of None \<Rightarrow> [] | Some s \<Rightarrow> s) ''pushPermission'' of
                    Some (JStr p) \<Rightarrow> p \<in> {''authorized'', ''provisional'', ''ephemeral''} | _ \<Rightarrow> False)),
              en_connectivity = deriveConnectivity now (de_lastStatus d) (de_lastSeenAt d)\<rparr>)"

datatype sync_reply = Failed int | Synced envelope "(int option \<times> nat) option"

definition state_sync_POST ::
  "sync_io \<Rightarrow> string option \<Rightarrow> sync_request option \<Rightarrow> sync_world \<Rightarrow> sync_reply \<times> sync_world"
where
  "state_sync_POST io bearer body w =
     (case bearer of None \<Rightarrow> (Failed 401, w) | Some dev \<Rightarrow>
      (case body of None \<Rightarrow> (Failed 400, w) | Some b \<Rightarrow>
      (case parseSettingDelta (sb_settings b) of Inl e \<Rightarrow> (Failed 400, w) | Inr deltas \<Rightarrow>
      (case sync_main io dev b deltas w of
         (Some st, w1) \<Rightarrow> (Failed st, w1)
       | (None, w1) \<Rightarrow>
      (case sync_logs io dev b w1 of (summary, w2) \<Rightarrow>
       if \<not> si_envelope io then (Failed 500, w2)
       else case buildDeviceStateEnvelope (si_now io) dev w2 of
         None \<Rightarrow> (Failed 410, w2)
       | Some e \<Rightarrow> (Synced e (if sb_logs b = None then None else Some summary), w2))))))"

section \<open>At-least-once delivery of log records\<close>

definition log_key :: "log_row \<Rightarrow> string \<times> int" where
  "log_key l = (lw_device l, lw_seq l)"

definition storable :: "string \<Rightarrow> int \<Rightarrow> otel_record \<Rightarrow> bool" where
  "storable dev nowMs r = (case extractSeq r of None \<Rightarrow> False | Some seq \<Rightarrow> row_fits (log_row_of dev seq nowMs r))"

text \<open>One insert keeps the key unique, appends at most one row, of this device, and touches no other.\<close>

definition log_step :: "string \<Rightarrow> ingest \<Rightarrow> ingest \<Rightarrow> bool" where
  "log_step dev g h \<longleftrightarrow> (\<exists>new. ig_rows h = ig_rows g @ new \<and> distinct (map log_key new) \<and> log_key ` set (ig_rows g) \<inter> log_key ` set new = {} \<and>
     (\<forall>l \<in> set new. lw_device l = dev))"

lemma log_step_refl: "log_step dev g g"
  by (auto simp: log_step_def)

lemma log_step_rows: "ig_rows h = ig_rows g \<Longrightarrow> log_step dev g h"
  by (auto simp: log_step_def)

lemma log_step_trans:
  assumes "log_step dev g h" and "log_step dev h k"
  shows "log_step dev g k"
proof -
  obtain a where a: "ig_rows h = ig_rows g @ a" "distinct (map log_key a)"
    "log_key ` set (ig_rows g) \<inter> log_key ` set a = {}" "\<forall>l \<in> set a. lw_device l = dev"
    using assms(1) unfolding log_step_def by blast
  obtain b where b: "ig_rows k = ig_rows h @ b" "distinct (map log_key b)"
    "log_key ` set (ig_rows h) \<inter> log_key ` set b = {}" "\<forall>l \<in> set b. lw_device l = dev"
    using assms(2) unfolding log_step_def by blast
  show ?thesis
    unfolding log_step_def by (rule exI [of _ "a @ b"]) (use a b in auto)
qed

lemma known_log_key: "known_log rows l \<longleftrightarrow> log_key l \<in> log_key ` set rows"
  by (auto simp: known_log_def log_key_def image_iff intro: rev_bexI)

lemma log_key_of [simp]: "log_key (log_row_of dev seq nowMs r) = (dev, seq)"
  by (simp add: log_key_def log_row_of_def)

lemma log_device_of [simp]: "lw_device (log_row_of dev seq nowMs r) = dev"
  by (simp add: log_row_of_def)

lemma ingest_record_step: "log_step dev g (ingest_record stored dev nowMs r g)"
proof (cases "extractSeq r")
  case (Some seq)
  let ?l = "log_row_of dev seq nowMs r"
  show ?thesis
  proof (cases "\<not> stored \<or> \<not> row_fits ?l \<or> known_log (ig_rows g) ?l")
    case True
    then show ?thesis
      using Some by (intro log_step_rows) (auto simp: ingest_record_def Let_def)
  next
    case False
    then show ?thesis
      unfolding log_step_def using Some
      by (intro exI [of _ "[?l]"]) (simp add: ingest_record_def Let_def known_log_key)
  qed
qed (simp add: ingest_record_def log_step_refl)

lemma ingest_logs_step: "log_step dev g (ingest_logs ok dev nowMs n rs g)"
proof (induction rs arbitrary: n g)
  case (Cons r rs)
  show ?case
    unfolding ingest_logs.simps by (rule log_step_trans [OF ingest_record_step Cons.IH])
qed (simp add: log_step_refl)

lemma log_step_keys: "log_step dev g h \<Longrightarrow> log_key ` set (ig_rows g) \<subseteq> log_key ` set (ig_rows h)"
  by (auto simp: log_step_def)

lemma log_step_distinct:
  "log_step dev g h \<Longrightarrow> distinct (map log_key (ig_rows g)) \<Longrightarrow> distinct (map log_key (ig_rows h))"
  by (auto simp: log_step_def)

lemma ingest_record_stores:
  assumes "extractSeq r = Some seq" and "row_fits (log_row_of dev seq nowMs r)"
  shows "(dev, seq) \<in> log_key ` set (ig_rows (ingest_record True dev nowMs r g))"
  using assms by (auto simp: ingest_record_def Let_def known_log_key)

lemma ingest_logs_stores:
  "r \<in> set rs \<Longrightarrow> extractSeq r = Some seq \<Longrightarrow> row_fits (log_row_of dev seq nowMs r) \<Longrightarrow>
   (dev, seq) \<in> log_key ` set (ig_rows (ingest_logs (\<lambda>_. True) dev nowMs n rs g))"
proof (induction rs arbitrary: n g)
  case (Cons r' rs)
  then show ?case
    using ingest_record_stores [OF Cons.prems(2,3)] log_step_keys [OF ingest_logs_step]
    by (metis ingest_logs.simps(2) set_ConsD subsetD)
qed simp

text \<open>A batch all of whose records are stored already: nothing is inserted, each is a duplicate.\<close>

definition resend_step :: "string \<Rightarrow> int \<Rightarrow> otel_record \<Rightarrow> ingest \<Rightarrow> ingest" where
  "resend_step dev nowMs r g = (if storable dev nowMs r
     then g\<lparr>ig_dropped := ig_dropped g + 1, ig_acked := ack (the (extractSeq r)) (ig_acked g)\<rparr> else g)"

lemma ingest_record_known:
  assumes "\<And>seq. extractSeq r = Some seq \<Longrightarrow> storable dev nowMs r \<Longrightarrow> (dev, seq) \<in> log_key ` set (ig_rows g)"
  shows "ingest_record True dev nowMs r g = resend_step dev nowMs r g"
  using assms
  by (cases "extractSeq r") (auto simp: ingest_record_def resend_step_def storable_def Let_def known_log_key)

lemma resend_step_rows [simp]:
  "ig_rows (resend_step dev nowMs r g) = ig_rows g" "ig_fresh (resend_step dev nowMs r g) = ig_fresh g"
  by (simp_all add: resend_step_def)

lemma ingest_logs_known:
  "(\<And>r seq. r \<in> set rs \<Longrightarrow> extractSeq r = Some seq \<Longrightarrow> storable dev nowMs r \<Longrightarrow> (dev, seq) \<in> log_key ` set (ig_rows g))
   \<Longrightarrow> ingest_logs (\<lambda>_. True) dev nowMs n rs g = fold (resend_step dev nowMs) rs g"
proof (induction rs arbitrary: n g)
  case (Cons r rs)
  have "ingest_record True dev nowMs r g = resend_step dev nowMs r g"
    by (rule ingest_record_known) (rule Cons.prems, simp_all)
  moreover have "ingest_logs (\<lambda>_. True) dev nowMs (n + 1) rs (resend_step dev nowMs r g) =
      fold (resend_step dev nowMs) rs (resend_step dev nowMs r g)"
    by (rule Cons.IH) (simp, rule Cons.prems, simp_all)
  ultimately show ?case
    by simp
qed simp

text \<open>The acknowledgement depends only on the records, not on which of them were new.\<close>

lemma ingest_record_ack:
  "ig_acked (ingest_record True dev nowMs r g) = ig_acked (resend_step dev nowMs r g)"
  by (cases "extractSeq r") (auto simp: ingest_record_def resend_step_def storable_def Let_def)

lemma resend_step_ack: "ig_acked g = ig_acked h \<Longrightarrow> ig_acked (resend_step dev nowMs r g) = ig_acked (resend_step dev nowMs r h)"
  by (simp add: resend_step_def)

lemma ingest_logs_ack:
  "ig_acked g = ig_acked h \<Longrightarrow>
   ig_acked (ingest_logs (\<lambda>_. True) dev nowMs n rs g) = ig_acked (fold (resend_step dev nowMs) rs h)"
proof (induction rs arbitrary: n g h)
  case (Cons r rs)
  show ?case
    using Cons.IH [of "ingest_record True dev nowMs r g" "resend_step dev nowMs r h"]
      ingest_record_ack [of dev nowMs r g] resend_step_ack [OF Cons.prems, of dev nowMs r]
    by simp
qed simp

lemma resend_rows [simp]:
  "ig_rows (fold (resend_step dev nowMs) rs g) = ig_rows g" "ig_fresh (fold (resend_step dev nowMs) rs g) = ig_fresh g"
  by (induction rs arbitrary: g) simp_all

lemma resend_dropped:
  "ig_dropped (fold (resend_step dev nowMs) rs g) = ig_dropped g + length (filter (storable dev nowMs) rs)"
  by (induction rs arbitrary: g) (simp_all add: resend_step_def)


definition log_example :: "int \<Rightarrow> otel_record" where
  "log_example n = \<lparr>ot_timestamp = 5, ot_severity_text = ''INFO'', ot_severity_number = 9, ot_body = ''hello'',
     ot_attributes = [(''expressync.seq'', JNum (of_int n))], ot_resource = [], ot_trace_id = None, ot_span_id = None\<rparr>"


section \<open>A sync concerns one device\<close>

text \<open>The world without the rows of a device.\<close>

definition foreign :: "string \<Rightarrow> sync_world \<Rightarrow> sync_world" where
  "foreign dev w = w\<lparr>sy_devices := filter (\<lambda>d. de_id d \<noteq> dev) (sy_devices w), sy_settings := (sy_settings w)(dev := []),
     sy_logs := filter (\<lambda>l. lw_device l \<noteq> dev) (sy_logs w), sy_published := filter (\<lambda>p. fst p \<noteq> dev) (sy_published w)\<rparr>"

lemma filter_update_device:
  assumes "\<And>d. de_id (f d) = de_id d"
  shows "filter (\<lambda>d. de_id d \<noteq> dev) (map (\<lambda>d. if de_id d = dev \<and> p d then f d else d) ds) = filter (\<lambda>d. de_id d \<noteq> dev) ds"
  using assms by (induction ds) auto

lemma foreign_update_device:
  assumes "\<And>d. de_id (f d) = de_id d"
  shows "foreign dev (update_device dev f w) = foreign dev w"
  unfolding foreign_def update_device_def using filter_update_device [of f dev, OF assms] by simp

lemma write_location_id [simp]: "de_id (write_location now loc d) = de_id d"
  by (cases loc) (simp add: write_location_def Let_def)

lemma foreign_settings: "foreign dev (w\<lparr>sy_settings := (sy_settings w)(dev := s)\<rparr>) = foreign dev w"
  by (simp add: foreign_def)

lemma foreign_main: "foreign dev (snd (sync_main io dev body deltas w)) = foreign dev w"
  by (simp add: sync_main_def Let_def foreign_update_device foreign_settings split: option.split)

lemma foreign_logs: "foreign dev (snd (sync_logs io dev body w)) = foreign dev w"
proof (cases "sb_logs body")
  case (Some rs)
  obtain new where "ig_rows (ingest_logs (si_log io) dev (si_now io) 0 rs (no_ingest (sy_logs w))) = sy_logs w @ new"
      "\<forall>l \<in> set new. lw_device l = dev"
    using ingest_logs_step [of dev "no_ingest (sy_logs w)" "si_log io" "si_now io" 0 rs]
    unfolding log_step_def by (auto simp: no_ingest_def)
  then show ?thesis
    using Some by (auto simp: sync_logs_def foreign_def Let_def filter_empty_conv)
qed (simp add: sync_logs_def)

lemma sync_main_gone:
  "\<forall>d \<in> set (sy_devices w). de_id d = dev \<longrightarrow> de_deletedAt d \<noteq> None \<Longrightarrow>
   \<exists>status. sync_main io dev body deltas w = (Some status, w)"
  by (auto simp: sync_main_def split: option.split dest!: find_Some_set)

lemma sync_world_ok:
  "parseSettingDelta (sb_settings b) = Inr deltas \<Longrightarrow>
   snd (state_sync_POST io (Some dev) (Some b) w) =
     (case sync_main io dev b deltas w of (Some status, w1) \<Rightarrow> w1 | (None, w1) \<Rightarrow> snd (sync_logs io dev b w1))"
  by (auto simp: state_sync_POST_def split: option.split prod.split)

lemma sync_world_bad:
  "(case body of None \<Rightarrow> True | Some b \<Rightarrow> \<exists>e. parseSettingDelta (sb_settings b) = Inl e) \<Longrightarrow>
   snd (state_sync_POST io (Some dev) body w) = w"
  by (auto simp: state_sync_POST_def split: option.splits)

lemma sync_world_cases:
  obtains "snd (state_sync_POST io (Some dev) body w) = w"
  | b deltas where "snd (state_sync_POST io (Some dev) body w) =
     (case sync_main io dev b deltas w of (Some status, w1) \<Rightarrow> w1 | (None, w1) \<Rightarrow> snd (sync_logs io dev b w1))"
proof (cases "case body of None \<Rightarrow> True | Some b \<Rightarrow> \<exists>e. parseSettingDelta (sb_settings b) = Inl e")
  case True
  then show ?thesis by (rule that(1) [OF sync_world_bad])
next
  case False
  then obtain b deltas where "body = Some b" "parseSettingDelta (sb_settings b) = Inr deltas"
    by (cases body; cases "parseSettingDelta (sb_settings (the body))") auto
  then have "snd (state_sync_POST io (Some dev) body w) =
     (case sync_main io dev b deltas w of (Some status, w1) \<Rightarrow> w1 | (None, w1) \<Rightarrow> snd (sync_logs io dev b w1))"
    by (simp only: sync_world_ok)
  then show ?thesis by (rule that(2))
qed

lemma foreign_case:
  "foreign dev (case sync_main io dev b deltas w of (Some status, w1) \<Rightarrow> w1 | (None, w1) \<Rightarrow> snd (sync_logs io dev b w1)) =
   foreign dev w"
  using foreign_main [of dev io b deltas w] foreign_logs by (auto split: prod.split option.split)

text \<open>
  C32. The synchronisation of a device writes nothing of any other: whatever the body, the outcome
  of each statement and the reply, the other devices, their settings, their log records, what is
  published for them, the owners, the pairings and the flags are as before. Without a bearer, or
  for a device that is gone, nothing at all is written.
\<close>

theorem sync_touches_own_device:
  "foreign dev (snd (state_sync_POST io (Some dev) body w)) = foreign dev w \<and>
   snd (state_sync_POST io None body w) = w \<and>
   ((\<forall>d \<in> set (sy_devices w). de_id d = dev \<longrightarrow> de_deletedAt d \<noteq> None) \<longrightarrow> snd (state_sync_POST io (Some dev) body w) = w)"
proof (intro conjI impI)
  show "foreign dev (snd (state_sync_POST io (Some dev) body w)) = foreign dev w"
    by (rule sync_world_cases [of io dev body w]) (simp_all add: foreign_case)
  show "snd (state_sync_POST io None body w) = w"
    by (simp add: state_sync_POST_def)
  assume gone: "\<forall>d \<in> set (sy_devices w). de_id d = dev \<longrightarrow> de_deletedAt d \<noteq> None"
  show "snd (state_sync_POST io (Some dev) body w) = w"
  proof (rule sync_world_cases [of io dev body w])
    fix b deltas
    assume "snd (state_sync_POST io (Some dev) body w) =
      (case sync_main io dev b deltas w of (Some status, w1) \<Rightarrow> w1 | (None, w1) \<Rightarrow> snd (sync_logs io dev b w1))"
    with sync_main_gone [OF gone, of io b deltas] show ?thesis by auto
  qed
qed

definition old_phone :: device_entry where
  "old_phone = \<lparr>de_id = ''old'', de_kind = ''phone_nfc'', de_label = ''Old phone'', de_ownerUserId = ''u1'',
     de_capabilities = Some [''managed''], de_platform = ''ios'', de_model = ''iPhone'', de_osVersion = ''18'',
     de_appVersion = ''2'', de_pushToken = None, de_apnsEnvironment = None, de_lastSeenAt = Some 5,
     de_lastStatus = None, de_registeredAt = 1, de_deletedAt = Some 9, de_revokedAt = Some 9,
     de_revokedByUserId = None, de_location = None\<rparr>"

definition sync_example :: sync_world where
  "sync_example = \<lparr>sy_devices = [old_phone, old_phone\<lparr>de_id := ''new'', de_deletedAt := None\<rparr>], sy_settings = (\<lambda>_. []),
     sy_logs = [], sy_owners = [], sy_pairings = \<lparr>vd_rows = [], vd_nextId = 0\<rparr>, sy_userFlags = (\<lambda>_. []),
     sy_deviceFlags = (\<lambda>_. []), sy_globalFlags = [], sy_published = []\<rparr>"

definition sync_answers :: sync_io where
  "sync_answers = \<lparr>si_now = 100, si_read = True, si_written = None, si_update = True, si_location = True,
     si_log = (\<lambda>_. True), si_envelope = True\<rparr>"

definition phone_request :: sync_request where
  "phone_request = \<lparr>sb_settings = [], sb_diagnostics = [(''pendingUploads'', JNum 2)],
     sb_logs = Some [log_example 1], sb_location = None\<rparr>"

theorem sync_touches_own_device_witness:
  "length (sy_logs (snd (state_sync_POST sync_answers (Some ''new'') (Some phone_request) sync_example))) = 1 \<and>
   snd (state_sync_POST sync_answers (Some ''old'') (Some phone_request) sync_example) = sync_example"
proof
  show "length (sy_logs (snd (state_sync_POST sync_answers (Some ''new'') (Some phone_request) sync_example))) = 1"
    by code_simp
  have "\<forall>d \<in> set (sy_devices sync_example). de_id d = ''old'' \<longrightarrow> de_deletedAt d \<noteq> None"
    by (simp add: sync_example_def old_phone_def)
  then show "snd (state_sync_POST sync_answers (Some ''old'') (Some phone_request) sync_example) = sync_example"
    using sync_touches_own_device [of "''old''" sync_answers "Some phone_request" sync_example] by blast
qed

text \<open>
  The acknowledgement of a batch is the highest number stored, also when a lower one was not:
  of two records of which the first cannot be stored and the second can, the reply acknowledges
  the second, and a phone that moves its cursor past the acknowledged number never sends the
  first again.
\<close>

theorem ack_passes_failed_record:
  assumes "extractSeq r1 = Some s1" and "extractSeq r2 = Some s2" and "s1 < s2"
    and "storable dev t r2" and "(dev, s1) \<notin> log_key ` set rows"
  shows "ig_acked (ingest_logs (\<lambda>n. n = 1) dev t 0 [r1, r2] (no_ingest rows)) = Some s2 \<and>
    (dev, s1) \<notin> log_key ` set (ig_rows (ingest_logs (\<lambda>n. n = 1) dev t 0 [r1, r2] (no_ingest rows)))"
  using assms by (simp add: ingest_record_def no_ingest_def storable_def Let_def ack_def)

theorem ack_passes_failed_record_witness:
  "ig_acked (ingest_logs (\<lambda>n. n = 1) ''phone'' 0 0 [log_example 1, log_example 2] (no_ingest [])) = Some 2 \<and>
   (''phone'', 1) \<notin> log_key ` set (ig_rows (ingest_logs (\<lambda>n. n = 1) ''phone'' 0 0 [log_example 1, log_example 2] (no_ingest [])))"
proof (rule ack_passes_failed_record)
  show "extractSeq (log_example 1) = Some 1" "extractSeq (log_example 2) = Some 2" "storable ''phone'' 0 (log_example 2)"
    by code_simp+
qed simp_all

end
