(* ===== verification/Access.thy ===== *)
theory Access
  imports Guards DeviceSync
begin

text \<open>
  Who reaches which handler: the surface of a host and the rewrite of its paths
  (\<open>src/lib/hostname-dispatch.ts\<close>, \<open>main.ts\<close>), the classification of routes
  (\<open>src/lib/route-classifier.ts\<close>), the tokens of devices (\<open>src/lib/devices/bearer-auth.ts\<close>), the
  check of the origin (\<open>src/lib/origin.ts\<close>) and the middleware that combines them
  (\<open>routes/_middleware.ts\<close>). The session library and SHA-256 answer through arguments.
\<close>

section \<open>Surfaces and paths\<close>

definition has_prefix :: "string \<Rightarrow> string \<Rightarrow> bool" where
  "has_prefix p s \<longleftrightarrow> take (length p) s = p"

datatype surface = Admin | Customer

definition ADMIN_HOSTS :: "string list" where
  "ADMIN_HOSTS = [''manage.example.com'', ''manage.polaris.localhost'', ''localhost'', ''127.0.0.1'']"

definition CUSTOMER_HOSTS :: "string list" where
  "CUSTOMER_HOSTS = [''example.com'', ''polaris.localhost'']"

definition classifySurface :: "string \<Rightarrow> surface option" where
  "classifySurface host =
     (if host \<in> set CUSTOMER_HOSTS then Some Customer else if host \<in> set ADMIN_HOSTS then Some Admin else None)"

definition strip_slash :: "string \<Rightarrow> string" where
  "strip_slash p = (if p \<noteq> [] \<and> last p = CHR ''/'' then butlast p else p)"

definition rewrite_admin_path :: "string \<Rightarrow> string" where
  "rewrite_admin_path p = (if p = ''/'' then ''/admin'' else ''/admin'' @ strip_slash p)"

definition isShellOrApiPath :: "string \<Rightarrow> bool" where
  "isShellOrApiPath p \<longleftrightarrow>
     has_prefix ''/api/'' p \<or> has_prefix ''/_fresh'' p \<or> has_prefix ''/static'' p \<or> has_prefix ''/assets'' p
     \<or> p \<in> {''/favicon.ico'', ''/favicon.svg'', ''/manifest.json'', ''/manifest.admin.json'', ''/robots.txt'',
           ''/apple-touch-icon.png'', ''/favicon-16.png'', ''/favicon-32.png'', ''/favicon-48.png'',
           ''/favicon-96.png'', ''/icon-192.png'', ''/icon-512.png'', ''/icon-maskable-192.png'',
           ''/icon-maskable-512.png''}"

definition shouldRewriteAdminPath :: "string \<Rightarrow> bool" where
  "shouldRewriteAdminPath p \<longleftrightarrow>
     \<not> isShellOrApiPath p \<and> \<not> has_prefix ''/.well-known/'' p \<and> p \<noteq> ''/admin'' \<and> \<not> has_prefix ''/admin/'' p"

text \<open>The path the file system router and the middleware see.\<close>

definition dispatch_path :: "string \<Rightarrow> string \<Rightarrow> string" where
  "dispatch_path host p =
     (if to_lower host \<in> set ADMIN_HOSTS \<and> shouldRewriteAdminPath p then rewrite_admin_path p else p)"

section \<open>Routes\<close>

datatype route_class = PUBLIC | SHARED | CUSTOMER_ONLY | ADMIN_ONLY | UNKNOWN

record route_rule =
  ru_prefix :: string
  ru_class :: route_class
  ru_surface :: "surface option"

definition rule :: "string \<Rightarrow> route_class \<Rightarrow> surface option \<Rightarrow> route_rule" where
  "rule p c s = \<lparr>ru_prefix = p, ru_class = c, ru_surface = s\<rparr>"

definition RULES :: "route_rule list" where
  "RULES =
    [rule ''/api/auth'' PUBLIC None,
     rule ''/api/health'' PUBLIC None,
     rule ''/api/webhook/lago'' PUBLIC None,
     rule ''/api/ocpp'' PUBLIC None,
     rule ''/api/devices/register'' PUBLIC None,
     rule ''/admin/login'' PUBLIC (Some Admin),
     rule ''/admin/reset-password'' PUBLIC (Some Admin),
     rule ''/api/admin/forgot-password'' PUBLIC (Some Admin),
     rule ''/api/admin/reset-password'' PUBLIC (Some Admin),
     rule ''/login'' PUBLIC (Some Customer),
     rule ''/auth/verify'' PUBLIC (Some Customer),
     rule ''/auth/scan'' PUBLIC (Some Customer),
     rule ''/switch'' PUBLIC (Some Customer),
     rule ''/privacy'' PUBLIC None,
     rule ''/terms'' PUBLIC None,
     rule ''/c/'' PUBLIC (Some Customer),
     rule ''/u/'' PUBLIC (Some Customer),
     rule ''/admin'' ADMIN_ONLY (Some Admin),
     rule ''/api/admin'' ADMIN_ONLY (Some Admin),
     rule ''/sessions'' CUSTOMER_ONLY (Some Customer),
     rule ''/reservations'' CUSTOMER_ONLY (Some Customer),
     rule ''/cards'' CUSTOMER_ONLY (Some Customer),
     rule ''/subscription'' CUSTOMER_ONLY (Some Customer),
     rule ''/billing'' CUSTOMER_ONLY (Some Customer),
     rule ''/account'' CUSTOMER_ONLY (Some Customer),
     rule ''/api/customer'' CUSTOMER_ONLY (Some Customer),
     rule ''/api/stream/customer'' CUSTOMER_ONLY (Some Customer),
     rule ''/_fresh'' PUBLIC None,
     rule ''/static'' PUBLIC None,
     rule ''/assets'' PUBLIC None,
     rule ''/.well-known'' PUBLIC None,
     rule ''/favicon.ico'' PUBLIC None,
     rule ''/favicon.svg'' PUBLIC None,
     rule ''/favicon-16.png'' PUBLIC None,
     rule ''/favicon-32.png'' PUBLIC None,
     rule ''/favicon-48.png'' PUBLIC None,
     rule ''/favicon-96.png'' PUBLIC None,
     rule ''/icon-192.png'' PUBLIC None,
     rule ''/icon-512.png'' PUBLIC None,
     rule ''/icon-maskable-192.png'' PUBLIC None,
     rule ''/icon-maskable-512.png'' PUBLIC None,
     rule ''/apple-touch-icon.png'' PUBLIC None,
     rule ''/manifest.json'' PUBLIC None,
     rule ''/manifest.admin.json'' PUBLIC None,
     rule ''/robots.txt'' PUBLIC None,
     rule ''/'' SHARED None]"

definition isPrefixMatch :: "string \<Rightarrow> string \<Rightarrow> bool" where
  "isPrefixMatch p pre =
     (if pre = ''/'' then p = ''/''
      else let n = strip_slash pre in p = n \<or> has_prefix (n @ ''/'') p)"

definition rule_applies :: "string \<Rightarrow> surface \<Rightarrow> route_rule \<Rightarrow> bool" where
  "rule_applies p s r \<longleftrightarrow> (ru_surface r = None \<or> ru_surface r = Some s) \<and> isPrefixMatch p (ru_prefix r)"

definition classifyRoute :: "string \<Rightarrow> surface \<Rightarrow> route_class" where
  "classifyRoute p s =
     (case sort_key (\<lambda>r. - int (length (ru_prefix r))) (filter (rule_applies p s) RULES) of
        [] \<Rightarrow> UNKNOWN | r # rs \<Rightarrow> ru_class r)"

definition isPublicRoute :: "string \<Rightarrow> surface \<Rightarrow> bool" where
  "isPublicRoute p s \<longleftrightarrow> classifyRoute p s = PUBLIC"

section \<open>The scheme of a path\<close>

datatype auth_scheme = Bearer | Cookie | Ocpp_hmac | Public_or_cookie

text \<open>The regular expression of the device control endpoints: one segment, then a verb.\<close>

definition DEVICE_VERBS :: "string list" where
  "DEVICE_VERBS = [''/start'', ''/stop'', ''/cancel-reservation'', ''/session'', ''/tags'', ''/customers'', ''/reservations'']"

definition device_control :: "string \<Rightarrow> bool" where
  "device_control p \<longleftrightarrow>
     has_prefix ''/api/admin/devices/'' p \<and>
     (let rest = drop (length ''/api/admin/devices/'') p in
      takeWhile (\<lambda>c. c \<noteq> CHR ''/'') rest \<noteq> [] \<and> dropWhile (\<lambda>c. c \<noteq> CHR ''/'') rest \<in> set DEVICE_VERBS)"

definition selectAuth :: "string \<Rightarrow> auth_scheme" where
  "selectAuth p =
     (if has_prefix ''/api/ocpp/'' p then Ocpp_hmac
      else if p = ''/api/devices/register'' then Public_or_cookie
      else if p \<in> {''/api/devices'', ''/api/devices/me'', ''/api/devices/me/state'', ''/api/devices/me/state/sync'',
                  ''/api/devices/scan-stream'', ''/api/devices/scan-result'', ''/api/devices/scan-cancel''}
              \<or> has_prefix ''/api/devices/scan-result/'' p then Bearer
      else if has_prefix ''/api/devices/'' p then Bearer
      else if device_control p then Bearer
      else if has_prefix ''/api/admin/'' p then Cookie
      else if has_prefix ''/api/customer/'' p then Cookie
      else Public_or_cookie)"

section \<open>Requests\<close>

text \<open>The headers the code reads are fields; names and paths are those after the rewrite.\<close>

record request =
  rq_host :: string
  rq_path :: string
  rq_search :: string
  rq_method :: string
  rq_forwarded :: "string option"
  rq_realIp :: "string option"
  rq_connectingIp :: "string option"
  rq_authorization :: "string option"
  rq_origin :: "string option"
  rq_as :: "string option"

definition first_part :: "string \<Rightarrow> string" where
  "first_part s = js_trim (takeWhile (\<lambda>c. c \<noteq> CHR '','') s)"

definition getClientIp :: "request \<Rightarrow> string" where
  "getClientIp rq =
     (case rq_forwarded rq of Some s \<Rightarrow> first_part s | None \<Rightarrow>
      (case rq_realIp rq of Some s \<Rightarrow> s | None \<Rightarrow>
       (case rq_connectingIp rq of Some s \<Rightarrow> s | None \<Rightarrow> ''unknown'')))"

section \<open>Bearer tokens\<close>

record token_row =
  tk_id :: string
  tk_deviceId :: string
  tk_tokenHash :: string
  tk_secret :: string
  tk_expiresAt :: int
  tk_revokedAt :: "int option"
  tk_lastUsedAt :: "int option"

record device_context =
  dc_id :: string
  dc_ownerUserId :: string
  dc_capabilities :: "string list"
  dc_secret :: string
  dc_tokenId :: string

definition extractBearerToken :: "string option \<Rightarrow> string option" where
  "extractBearerToken header =
     (let auth = (case header of None \<Rightarrow> [] | Some h \<Rightarrow> h) in
      if \<not> has_prefix ''Bearer '' auth then None
      else let raw = js_trim (drop (length ''Bearer '') auth) in
        if \<not> has_prefix ''dev_'' raw then None
        else if length raw < 6 \<or> length raw > 256 then None else Some raw)"

text \<open>The join of tokens and devices: live tokens of live devices.\<close>

definition live_token :: "int \<Rightarrow> token_row \<Rightarrow> bool" where
  "live_token now t \<longleftrightarrow> tk_revokedAt t = None \<and> tk_expiresAt t > now"

definition token_device :: "device_entry list \<Rightarrow> token_row \<Rightarrow> device_entry option" where
  "token_device devs t = find (\<lambda>d. de_id d = tk_deviceId t \<and> de_deletedAt d = None) devs"

definition token_match :: "int \<Rightarrow> string \<Rightarrow> device_entry list \<Rightarrow> token_row list \<Rightarrow> (token_row \<times> device_entry) option" where
  "token_match now hash devs toks =
     (case find (\<lambda>t. tk_tokenHash t = hash \<and> live_token now t \<and> token_device devs t \<noteq> None) toks of
        None \<Rightarrow> None
      | Some t \<Rightarrow> map_option (\<lambda>d. (t, d)) (token_device devs t))"

definition context_of :: "token_row \<Rightarrow> device_entry \<Rightarrow> device_context" where
  "context_of t d = \<lparr>dc_id = de_id d, dc_ownerUserId = de_ownerUserId d,
     dc_capabilities = (case de_capabilities d of None \<Rightarrow> [] | Some c \<Rightarrow> c),
     dc_secret = tk_secret t, dc_tokenId = tk_id t\<rparr>"

text \<open>
  \<open>sha\<close> is SHA-256 in hexadecimal digits, \<open>lookup\<close> whether the query succeeds, \<open>bump\<close> whether the
  update of the last use does; the probe is the audit row of a miss.
\<close>

record token_store =
  ts_tokens :: "token_row list"
  ts_devices :: "device_entry list"
  ts_probes :: "(string \<times> string) list"

definition resolveBearer ::
  "(string \<Rightarrow> string) \<Rightarrow> bool \<Rightarrow> bool \<Rightarrow> int \<Rightarrow> string option \<Rightarrow> string \<Rightarrow> token_store \<Rightarrow> device_context option \<times> token_store"
where
  "resolveBearer sha lookup bump now header route s =
     (case extractBearerToken header of
        None \<Rightarrow> (None, s)
      | Some raw \<Rightarrow>
          if \<not> lookup then (None, s)
          else case token_match now (sha raw) (ts_devices s) (ts_tokens s) of
            None \<Rightarrow> (None, s\<lparr>ts_probes := ts_probes s @ [(take 8 (sha raw), route)]\<rparr>)
          | Some (t, d) \<Rightarrow> (Some (context_of t d),
              if bump then s\<lparr>ts_tokens := map (\<lambda>x. if tk_id x = tk_id t then x\<lparr>tk_lastUsedAt := Some now\<rparr> else x) (ts_tokens s)\<rparr>
              else s))"

section \<open>Origins\<close>

record config =
  cf_AUTH_URL :: string
  cf_ADMIN_BASE_URL :: string
  cf_CUSTOMER_BASE_URL :: string
  cf_development :: bool
  cf_CUSTOMER_SESSION_TTL_SECONDS :: int

definition strip_slashes :: "string \<Rightarrow> string" where
  "strip_slashes s = rev (dropWhile (\<lambda>c. c = CHR ''/'') (rev s))"

definition DEV_ORIGINS :: "string list" where
  "DEV_ORIGINS = [''http://localhost:5173'', ''http://127.0.0.1:5173'', ''http://localhost:8000'', ''http://127.0.0.1:8000'',
     ''http://manage.polaris.localhost:5173'', ''http://polaris.localhost:5173'', ''http://manage.polaris.localhost:8000'',
     ''http://polaris.localhost:8000'']"

definition getTrustedOrigins :: "config \<Rightarrow> string list" where
  "getTrustedOrigins cf = map strip_slashes (remdups ([cf_AUTH_URL cf, cf_ADMIN_BASE_URL cf] @ (if cf_development cf then DEV_ORIGINS else [])))"

datatype origin_error = Missing_origin | Untrusted_origin

text \<open>An empty header is falsy: it counts as missing.\<close>

definition assertSameOrigin :: "config \<Rightarrow> request \<Rightarrow> origin_error + string" where
  "assertSameOrigin cf rq =
     (if to_upper (rq_method rq) \<in> {''GET'', ''HEAD'', ''OPTIONS''}
      then Inr (case rq_origin rq of None \<Rightarrow> [] | Some s \<Rightarrow> s)
      else case rq_origin rq of
        None \<Rightarrow> Inl Missing_origin
      | Some origin \<Rightarrow>
          if origin = [] then Inl Missing_origin
          else if strip_slashes origin \<notin> set (getTrustedOrigins cf) then Inl Untrusted_origin
          else Inr (strip_slashes origin))"

section \<open>The middleware\<close>

definition RATE_LIMIT_GENERAL_MAX :: nat where "RATE_LIMIT_GENERAL_MAX = 100"
definition RATE_LIMIT_AUTH_MAX :: nat where "RATE_LIMIT_AUTH_MAX = 10"
definition RATE_LIMIT_MAGIC_LINK_PREFLIGHT_MAX :: nat where "RATE_LIMIT_MAGIC_LINK_PREFLIGHT_MAX = 20"
definition RATE_LIMIT_SCAN_LOGIN_PER_IP_MAX :: nat where "RATE_LIMIT_SCAN_LOGIN_PER_IP_MAX = 10"

text \<open>The buckets of a path in the order they are counted; the first full one ends the count.\<close>

definition rate_buckets :: "string \<Rightarrow> string \<Rightarrow> (string \<times> nat) list" where
  "rate_buckets path ip =
     (if has_prefix ''/api/ocpp'' path then []
      else [(''general:'' @ ip, RATE_LIMIT_GENERAL_MAX)]
        @ (if has_prefix ''/api/auth'' path then [(''auth:'' @ ip, RATE_LIMIT_AUTH_MAX)] else [])
        @ (if has_prefix ''/api/auth/magic-link/preflight'' path
           then [(''mlpreflight:'' @ ip, RATE_LIMIT_MAGIC_LINK_PREFLIGHT_MAX)] else [])
        @ (if has_prefix ''/api/auth/scan-login'' path then [(''scanlogin:'' @ ip, RATE_LIMIT_SCAN_LOGIN_PER_IP_MAX)] else []))"

fun count_buckets :: "bool list \<Rightarrow> int \<Rightarrow> (string \<times> nat) list \<Rightarrow> rate_row list \<Rightarrow> bool \<times> rate_row list" where
  "count_buckets ok now [] rows = (True, rows)"
| "count_buckets ok now ((k, n) # bs) rows =
     (case checkRateLimit (case ok of [] \<Rightarrow> True | b # _ \<Rightarrow> b) now k n rows of
        (False, rows') \<Rightarrow> (False, rows')
      | (True, rows') \<Rightarrow> count_buckets (tl ok) now bs rows')"

definition applyRateLimits :: "bool list \<Rightarrow> int \<Rightarrow> string \<Rightarrow> string \<Rightarrow> rate_row list \<Rightarrow> bool \<times> rate_row list" where
  "applyRateLimits ok now path ip rows = count_buckets ok now (rate_buckets path ip) rows"

text \<open>\<open>encodeURIComponent\<close> of characters below 256: the octets of UTF-8 outside the unreserved set.\<close>

definition hex_octet :: "nat \<Rightarrow> string" where
  "hex_octet n = [CHR ''%'', (''0123456789ABCDEF'') ! (n div 16), (''0123456789ABCDEF'') ! (n mod 16)]"

definition encodeURIComponent :: "string \<Rightarrow> string" where
  "encodeURIComponent s = concat (map (\<lambda>c. let n = of_char c :: nat in
     if is_digit c \<or> (65 \<le> n \<and> n \<le> 90) \<or> (97 \<le> n \<and> n \<le> 122) \<or> c \<in> set ''-_.!~*()'' \<or> n = 39 then [c]
     else if n < 128 then hex_octet n
     else hex_octet (192 + n div 64) @ hex_octet (128 + n mod 64)) s)"

definition redirectToLogin :: "string option \<Rightarrow> string" where
  "redirectToLogin original =
     (case original of None \<Rightarrow> ''/login''
      | Some p \<Rightarrow>
          if has_prefix ''/'' p \<and> \<not> has_prefix ''//'' p \<and> \<not> has_prefix ''/login'' p \<and> \<not> has_prefix ''/api/'' p
          then ''/login?next='' @ encodeURIComponent p else ''/login'')"

record session_info =
  se_id :: string
  se_userId :: string
  se_role :: "string option"
  se_createdAt :: int

text \<open>What a handler finds in \<open>ctx.state\<close>.\<close>

record handler_state =
  hs_surface :: surface
  hs_device :: "device_context option"
  hs_user :: "(string \<times> string) option"
  hs_actingAs :: "string option"

datatype gate_reply = Next handler_state | Refuse int | Redirect string

record gate_world =
  gw_rates :: "rate_row list"
  gw_store :: token_store
  gw_sessions :: "string list"
  gw_users :: "owner_row list"
  gw_audit :: "(string \<times> string option \<times> string) list"
  gw_impersonations :: "(string \<times> string \<times> string \<times> string) list"

text \<open>
  The outcomes: the rate limit statements, the token query and its update, the session (\<open>None\<close>: the
  library throws), the deletion of a session, the query for the impersonated user, the audit of it.
\<close>

record gate_io =
  gi_now :: int
  gi_rate :: "bool list"
  gi_lookup :: bool
  gi_bump :: bool
  gi_session :: "session_info option option"
  gi_revoke :: bool
  gi_target :: bool
  gi_audit :: bool
  gi_logRate :: bool

definition is_mutation :: "string \<Rightarrow> bool" where
  "is_mutation m \<longleftrightarrow> to_upper m \<in> {''POST'', ''PUT'', ''PATCH'', ''DELETE''}"

text \<open>Step 10: the origin of a state-changing request, then the handler.\<close>

definition check_origin :: "config \<Rightarrow> request \<Rightarrow> handler_state \<Rightarrow> gate_world \<Rightarrow> gate_reply \<times> gate_world" where
  "check_origin cf rq hs w =
     (if is_mutation (rq_method rq)
      then case assertSameOrigin cf rq of
        Inl e \<Rightarrow> (Refuse 403, w\<lparr>gw_audit := gw_audit w @ [(''privilege_violation'', map_option fst (hs_user hs), rq_path rq)]\<rparr>)
      | Inr s \<Rightarrow> (Next hs, w)
      else (Next hs, w))"

text \<open>Step 9: an admin on the customer surface may view it as a customer.\<close>

definition impersonate ::
  "gate_io \<Rightarrow> request \<Rightarrow> session_info \<Rightarrow> string \<Rightarrow> gate_world \<Rightarrow> string option option \<times> gate_world"
where
  "impersonate io rq se role w =
     (if \<not> truthy (rq_as rq) \<or> role \<noteq> ''admin'' then (Some None, w)
      else if \<not> gi_target io then (None, w)
      else case find (\<lambda>u. ow_id u = the (rq_as rq)) (gw_users w) of
        None \<Rightarrow> (Some None, w)
      | Some u \<Rightarrow>
          if ow_role u \<noteq> ''customer'' then (Some None, w)
          else case checkRateLimit (gi_logRate io) (gi_now io) (''imp_log:'' @ se_userId se @ '':'' @ rq_path rq) 1 (gw_rates w) of
            (first, rows) \<Rightarrow> (Some (Some (ow_id u)),
              if first \<and> gi_audit io
              then w\<lparr>gw_rates := rows,
                gw_impersonations := gw_impersonations w @ [(se_userId se, ow_id u, rq_path rq, to_upper (rq_method rq))],
                gw_audit := gw_audit w @ [(''impersonation.start'', Some (se_userId se), rq_path rq)]\<rparr>
              else w\<lparr>gw_rates := rows\<rparr>))"

text \<open>Steps 6 to 10: the session, its age, the role on the surface.\<close>

definition cookie_gate ::
  "config \<Rightarrow> gate_io \<Rightarrow> request \<Rightarrow> surface \<Rightarrow> route_class \<Rightarrow> gate_world \<Rightarrow> gate_reply \<times> gate_world"
where
  "cookie_gate cf io rq s cls w =
     (let p = rq_path rq; api = has_prefix ''/api/'' p in
      case gi_session io of
        None \<Rightarrow> (Refuse 500, w)
      | Some None \<Rightarrow>
          if api then (Refuse 401, w)
          else let browser = (if s = Admin \<and> has_prefix ''/admin'' p
                 then (if drop (length ''/admin'') p = [] then ''/'' else drop (length ''/admin'') p) else p)
               in (Redirect (redirectToLogin (Some (browser @ rq_search rq))), w)
      | Some (Some se) \<Rightarrow>
          let role = (case se_role se of None \<Rightarrow> ''customer'' | Some r \<Rightarrow> r) in
          if role = ''customer'' \<and> gi_now io - se_createdAt se > cf_CUSTOMER_SESSION_TTL_SECONDS cf * 1000
          then let w1 = (if gi_revoke io then w\<lparr>gw_sessions := filter (\<lambda>i. i \<noteq> se_id se) (gw_sessions w)\<rparr> else w);
                   w2 = w1\<lparr>gw_audit := gw_audit w1 @ [(''session.expired_customer_ttl'', Some (se_userId se), p)]\<rparr>
               in (if api then Refuse 401 else Redirect (redirectToLogin None), w2)
          else
            let hs = \<lparr>hs_surface = s, hs_device = None, hs_user = Some (se_userId se, role), hs_actingAs = None\<rparr> in
            if s = Admin then
              if role \<noteq> ''admin'' then (if api then Refuse 404 else Redirect (cf_CUSTOMER_BASE_URL cf @ ''/''), w)
              else check_origin cf rq hs w
            else if cls = ADMIN_ONLY \<or> cls = UNKNOWN then (Refuse 404, w)
            else case impersonate io rq se role w of
              (None, w1) \<Rightarrow> (Refuse 500, w1)
            | (Some target, w1) \<Rightarrow> check_origin cf rq (hs\<lparr>hs_actingAs := target\<rparr>) w1)"

definition middleware ::
  "config \<Rightarrow> (string \<Rightarrow> string) \<Rightarrow> gate_io \<Rightarrow> request \<Rightarrow> gate_world \<Rightarrow> gate_reply \<times> gate_world"
where
  "middleware cf sha io rq w =
     (case classifySurface (to_lower (rq_host rq)) of
        None \<Rightarrow> (Refuse 404, w)
      | Some s \<Rightarrow>
     (case applyRateLimits (gi_rate io) (gi_now io) (rq_path rq) (getClientIp rq) (gw_rates w) of
        (False, rows) \<Rightarrow> (Refuse 429, w\<lparr>gw_rates := rows\<rparr>)
      | (True, rows) \<Rightarrow>
          let w1 = w\<lparr>gw_rates := rows\<rparr>; p = rq_path rq; cls = classifyRoute p s;
              hs = \<lparr>hs_surface = s, hs_device = None, hs_user = None, hs_actingAs = None\<rparr> in
          if cls = PUBLIC then (Next hs, w1)
          else if has_prefix ''/api/admin/'' p \<and> s \<noteq> Admin then (Refuse 404, w1)
          else if has_prefix ''/api/customer/'' p \<and> s \<noteq> Customer then (Refuse 404, w1)
          else if selectAuth p = Bearer then
            (case resolveBearer sha (gi_lookup io) (gi_bump io) (gi_now io) (rq_authorization rq) p (gw_store w1) of
               (None, st) \<Rightarrow> (Refuse 401, w1\<lparr>gw_store := st\<rparr>)
             | (Some d, st) \<Rightarrow> (Next (hs\<lparr>hs_device := Some d\<rparr>), w1\<lparr>gw_store := st\<rparr>))
          else cookie_gate cf io rq s cls w1))"

section \<open>The policy\<close>

lemma has_prefix_iff: "has_prefix p s \<longleftrightarrow> (\<exists>r. s = p @ r)"
  by (auto simp: has_prefix_def intro: exI [of _ "drop (length p) s"]) (metis append_take_drop_id)

lemma classifyRoute_rule:
  assumes "classifyRoute p s = c" and "c \<noteq> UNKNOWN"
  shows "\<exists>r \<in> set RULES. rule_applies p s r \<and> ru_class r = c"
proof -
  obtain r rs where "sort_key (\<lambda>r. - int (length (ru_prefix r))) (filter (rule_applies p s) RULES) = r # rs" "ru_class r = c"
    using assms by (auto simp: classifyRoute_def split: list.splits)
  moreover from this(1) have "r \<in> set (filter (rule_applies p s) RULES)"
    by (metis list.set_intros(1) set_sort)
  ultimately show ?thesis by auto
qed

text \<open>The paths of the operator console and the four of them that need no session.\<close>

definition admin_path :: "string \<Rightarrow> bool" where
  "admin_path p \<longleftrightarrow> p = ''/admin'' \<or> has_prefix ''/admin/'' p \<or> p = ''/api/admin'' \<or> has_prefix ''/api/admin/'' p"

definition admin_public :: "string \<Rightarrow> bool" where
  "admin_public p \<longleftrightarrow> (\<exists>q \<in> {''/admin/login'', ''/admin/reset-password'', ''/api/admin/forgot-password'', ''/api/admin/reset-password''}.
     p = q \<or> has_prefix (q @ ''/'') p)"

text \<open>Two beginnings of one text are comparable; few rules are comparable with the console's paths.\<close>

definition comparable :: "string \<Rightarrow> string \<Rightarrow> bool" where
  "comparable a b \<longleftrightarrow> (let n = min (length a) (length b) in take n a = take n b)"

lemma has_prefix_comparable: "has_prefix a p \<Longrightarrow> has_prefix b p \<Longrightarrow> comparable a b"
  by (auto simp: has_prefix_iff comparable_def append_eq_append_conv2 min_def)

lemma has_prefix_append: "has_prefix (a @ b) p \<Longrightarrow> has_prefix a p" "has_prefix a p \<Longrightarrow> has_prefix a (p @ q)"
  by (auto simp: has_prefix_iff)

lemma admin_path_slash: "admin_path p \<Longrightarrow> has_prefix ''/admin/'' (p @ ''/'') \<or> has_prefix ''/api/admin/'' (p @ ''/'')"
  unfolding admin_path_def has_prefix_iff by auto

lemma admin_rules_table:
  "list_all (\<lambda>r. ru_prefix r = ''/''
     \<or> ru_surface r = Some Admin \<and> (ru_class r = ADMIN_ONLY \<or> ru_class r = PUBLIC \<and>
         strip_slash (ru_prefix r) \<in> {''/admin/login'', ''/admin/reset-password'', ''/api/admin/forgot-password'', ''/api/admin/reset-password''})
     \<or> \<not> comparable (strip_slash (ru_prefix r) @ ''/'') ''/admin/'' \<and> \<not> comparable (strip_slash (ru_prefix r) @ ''/'') ''/api/admin/'') RULES"
  by code_simp

lemma prefix_match_slash: "isPrefixMatch p q \<Longrightarrow> q \<noteq> ''/'' \<Longrightarrow> has_prefix (strip_slash q @ ''/'') (p @ ''/'')"
  by (auto simp: isPrefixMatch_def has_prefix_iff Let_def)

lemma admin_rules:
  assumes "admin_path p" and "r \<in> set RULES" and "rule_applies p s r"
  shows "s = Admin \<and> (ru_class r = ADMIN_ONLY \<or> ru_class r = PUBLIC \<and> admin_public p)"
proof -
  have m: "isPrefixMatch p (ru_prefix r)" and sf: "ru_surface r = None \<or> ru_surface r = Some s"
    using assms(3) by (auto simp: rule_applies_def)
  have slash: "ru_prefix r \<noteq> ''/''"
    using m assms(1) by (auto simp: isPrefixMatch_def admin_path_def has_prefix_def)
  have "comparable (strip_slash (ru_prefix r) @ ''/'') ''/admin/'' \<or> comparable (strip_slash (ru_prefix r) @ ''/'') ''/api/admin/''"
    using admin_path_slash [OF assms(1)] has_prefix_comparable [OF prefix_match_slash [OF m slash]] by blast
  then have "ru_surface r = Some Admin" and cls: "ru_class r = ADMIN_ONLY \<or> ru_class r = PUBLIC \<and>
      strip_slash (ru_prefix r) \<in> {''/admin/login'', ''/admin/reset-password'', ''/api/admin/forgot-password'', ''/api/admin/reset-password''}"
    using admin_rules_table [unfolded list_all_iff] assms(2) slash by blast+
  moreover have "p = strip_slash (ru_prefix r) \<or> has_prefix (strip_slash (ru_prefix r) @ ''/'') p"
    using m slash by (simp add: isPrefixMatch_def Let_def)
  ultimately show ?thesis
    using sf unfolding admin_public_def by fastforce
qed

lemma admin_path_class:
  assumes "admin_path p" and "\<not> admin_public p"
  shows "classifyRoute p s \<noteq> PUBLIC" "classifyRoute p Customer = UNKNOWN"
proof -
  show "classifyRoute p s \<noteq> PUBLIC"
    using classifyRoute_rule [of p s PUBLIC] admin_rules [OF assms(1)] assms(2) by force
  show "classifyRoute p Customer = UNKNOWN"
    using classifyRoute_rule [of p Customer "classifyRoute p Customer"] admin_rules [OF assms(1), of _ Customer] by blast
qed

lemma resolveBearer_sound:
  assumes "resolveBearer sha lookup bump now header route st = (Some c, st')"
  shows "\<exists>raw t d. extractBearerToken header = Some raw \<and> t \<in> set (ts_tokens st) \<and> d \<in> set (ts_devices st)
    \<and> tk_tokenHash t = sha raw \<and> live_token now t \<and> de_id d = tk_deviceId t \<and> de_deletedAt d = None \<and> c = context_of t d"
proof -
  obtain raw t d where "extractBearerToken header = Some raw"
    and m: "token_match now (sha raw) (ts_devices st) (ts_tokens st) = Some (t, d)" and "c = context_of t d"
    using assms by (auto simp: resolveBearer_def split: option.splits if_splits)
  moreover have "t \<in> set (ts_tokens st)" "tk_tokenHash t = sha raw" "live_token now t"
      "token_device (ts_devices st) t = Some d"
    using m by (auto simp: token_match_def split: option.splits dest!: find_Some_set)
  moreover from this(4) have "d \<in> set (ts_devices st)" "de_id d = tk_deviceId t" "de_deletedAt d = None"
    by (auto simp: token_device_def dest!: find_Some_set)
  ultimately show ?thesis by blast
qed

text \<open>The policy, without the order of the steps: when a request may reach its handler.\<close>

definition by_token :: "(string \<Rightarrow> string) \<Rightarrow> gate_io \<Rightarrow> request \<Rightarrow> gate_world \<Rightarrow> handler_state \<Rightarrow> bool" where
  "by_token sha io rq w hs \<longleftrightarrow> hs_user hs = None \<and>
     (\<exists>raw t d. extractBearerToken (rq_authorization rq) = Some raw \<and> t \<in> set (ts_tokens (gw_store w)) \<and>
       d \<in> set (ts_devices (gw_store w)) \<and> tk_tokenHash t = sha raw \<and> live_token (gi_now io) t \<and>
       de_id d = tk_deviceId t \<and> de_deletedAt d = None \<and> hs_device hs = Some (context_of t d))"

definition by_session :: "config \<Rightarrow> gate_io \<Rightarrow> request \<Rightarrow> gate_world \<Rightarrow> handler_state \<Rightarrow> bool" where
  "by_session cf io rq w hs \<longleftrightarrow> hs_device hs = None \<and>
     (\<exists>se role. gi_session io = Some (Some se) \<and> hs_user hs = Some (se_userId se, role) \<and>
       role = (case se_role se of None \<Rightarrow> ''customer'' | Some r \<Rightarrow> r) \<and>
       (role = ''customer'' \<longrightarrow> gi_now io - se_createdAt se \<le> cf_CUSTOMER_SESSION_TTL_SECONDS cf * 1000) \<and>
       (hs_surface hs = Admin \<longrightarrow> role = ''admin'') \<and>
       (\<forall>u. hs_actingAs hs = Some u \<longrightarrow> role = ''admin'' \<and> (\<exists>x \<in> set (gw_users w). ow_id x = u \<and> ow_role x = ''customer''))) \<and>
     (is_mutation (rq_method rq) \<longrightarrow> (\<exists>ori. assertSameOrigin cf rq = Inr ori))"

definition permitted ::
  "config \<Rightarrow> (string \<Rightarrow> string) \<Rightarrow> gate_io \<Rightarrow> request \<Rightarrow> gate_world \<Rightarrow> handler_state \<Rightarrow> bool"
where
  "permitted cf sha io rq w hs \<longleftrightarrow>
     classifySurface (to_lower (rq_host rq)) = Some (hs_surface hs) \<and>
     (let p = rq_path rq; cls = classifyRoute p (hs_surface hs) in
      cls = PUBLIC \<or>
      (has_prefix ''/api/admin/'' p \<longrightarrow> hs_surface hs = Admin) \<and> (has_prefix ''/api/customer/'' p \<longrightarrow> hs_surface hs = Customer) \<and>
      (if selectAuth p = Bearer then by_token sha io rq w hs
       else by_session cf io rq w hs \<and> (hs_surface hs = Customer \<longrightarrow> cls = SHARED \<or> cls = CUSTOMER_ONLY)))"

lemma check_origin_Next:
  "check_origin cf rq hs w = (Next hs', w') \<Longrightarrow>
   hs' = hs \<and> (is_mutation (rq_method rq) \<longrightarrow> (\<exists>ori. assertSameOrigin cf rq = Inr ori))"
  by (auto simp: check_origin_def split: if_splits sum.splits)

lemma impersonate_sound:
  "impersonate io rq se role w = (Some (Some u), w') \<Longrightarrow>
   role = ''admin'' \<and> (\<exists>x \<in> set (gw_users w). ow_id x = u \<and> ow_role x = ''customer'')"
  by (auto simp: impersonate_def split: if_splits option.splits prod.splits dest!: find_Some_set)

lemma cookie_gate_sound:
  assumes "cookie_gate cf io rq s cls w = (Next hs, w')"
  shows "hs_surface hs = s \<and> by_session cf io rq w hs \<and> (s = Customer \<longrightarrow> cls \<noteq> ADMIN_ONLY \<and> cls \<noteq> UNKNOWN)"
proof -
  obtain se where se: "gi_session io = Some (Some se)"
    using assms by (auto simp: cookie_gate_def Let_def split: option.splits if_splits)
  define role where "role = (case se_role se of None \<Rightarrow> ''customer'' | Some r \<Rightarrow> r)"
  have young: "\<not> (role = ''customer'' \<and> gi_now io - se_createdAt se > cf_CUSTOMER_SESSION_TTL_SECONDS cf * 1000)"
    using assms se by (auto simp: cookie_gate_def Let_def role_def split: if_splits)
  show ?thesis
  proof (cases s)
    case Admin
    then have "role = ''admin''"
      and c: "check_origin cf rq \<lparr>hs_surface = s, hs_device = None, hs_user = Some (se_userId se, role), hs_actingAs = None\<rparr> w = (Next hs, w')"
      using assms se young by (auto simp: cookie_gate_def Let_def role_def [symmetric] split: if_splits)
    then show ?thesis
      using se young Admin check_origin_Next [OF c] by (auto simp: by_session_def role_def [symmetric])
  next
    case Customer
    then have "cls \<noteq> ADMIN_ONLY \<and> cls \<noteq> UNKNOWN"
      using assms se young by (auto simp: cookie_gate_def Let_def role_def [symmetric] split: if_splits)
    moreover obtain target w1 where i: "impersonate io rq se role w = (Some target, w1)"
      and c: "check_origin cf rq \<lparr>hs_surface = s, hs_device = None, hs_user = Some (se_userId se, role), hs_actingAs = target\<rparr> w1 = (Next hs, w')"
      using assms se young Customer
      by (auto simp: cookie_gate_def Let_def role_def [symmetric] split: if_splits prod.splits option.splits)
    ultimately show ?thesis
      using se young Customer check_origin_Next [OF c] impersonate_sound
      by (auto simp: by_session_def role_def [symmetric])
  qed
qed

lemma middleware_permitted:
  assumes "middleware cf sha io rq w = (Next hs, w')"
  shows "permitted cf sha io rq w hs"
proof -
  obtain s where s: "classifySurface (to_lower (rq_host rq)) = Some s"
    using assms by (auto simp: middleware_def split: option.splits)
  let ?p = "rq_path rq" and ?cls = "classifyRoute (rq_path rq) s"
  let ?hs = "\<lparr>hs_surface = s, hs_device = None, hs_user = None, hs_actingAs = None\<rparr>"
  obtain rows where r: "applyRateLimits (gi_rate io) (gi_now io) ?p (getClientIp rq) (gw_rates w) = (True, rows)"
    using assms s by (auto simp: middleware_def split: prod.splits bool.splits)
  let ?w = "w\<lparr>gw_rates := rows\<rparr>"
  show ?thesis
  proof (cases "?cls = PUBLIC")
    case True
    then have "hs = ?hs" using assms s r by (simp add: middleware_def Let_def)
    then show ?thesis using True s by (simp add: permitted_def)
  next
    case False
    then have gate: "\<not> (has_prefix ''/api/admin/'' ?p \<and> s \<noteq> Admin)" "\<not> (has_prefix ''/api/customer/'' ?p \<and> s \<noteq> Customer)"
      using assms s r by (auto simp: middleware_def Let_def split: if_splits)
    show ?thesis
    proof (cases "selectAuth ?p = Bearer")
      case True
      then obtain d st where d: "resolveBearer sha (gi_lookup io) (gi_bump io) (gi_now io) (rq_authorization rq) ?p (gw_store ?w) = (Some d, st)"
        and hs: "hs = ?hs\<lparr>hs_device := Some d\<rparr>"
        using assms s r False gate by (auto simp: middleware_def Let_def split: if_splits option.splits prod.splits)
      have "by_token sha io rq w hs"
        using resolveBearer_sound [OF d] unfolding by_token_def hs by simp
      then show ?thesis using True s gate hs by (auto simp: permitted_def)
    next
      case Cookie: False
      then have "cookie_gate cf io rq s ?cls ?w = (Next hs, w')"
        using assms s r False gate by (auto simp: middleware_def Let_def split: if_splits)
      from cookie_gate_sound [OF this] have "hs_surface hs = s" "by_session cf io rq w hs"
          "s = Customer \<longrightarrow> ?cls \<noteq> ADMIN_ONLY \<and> ?cls \<noteq> UNKNOWN"
        by (auto simp: by_session_def)
      then show ?thesis
        using Cookie s gate False by (cases ?cls) (auto simp: permitted_def)
    qed
  qed
qed

lemma device_control_admin: "device_control p \<Longrightarrow> has_prefix ''/api/admin/'' p"
proof -
  have "''/api/admin/devices/'' = ''/api/admin/'' @ ''devices/''" by simp
  then show "device_control p \<Longrightarrow> has_prefix ''/api/admin/'' p"
    unfolding device_control_def using has_prefix_append(1) by metis
qed

lemma admin_auth:
  assumes "admin_path p"
  shows "selectAuth p = Bearer \<longleftrightarrow> device_control p"
proof -
  have other: "\<not> has_prefix q p" if "\<not> comparable q ''/admin/''" "\<not> comparable q ''/api/admin/''" for q
    using admin_path_slash [OF assms] has_prefix_comparable has_prefix_append(2) that by blast
  have "\<not> has_prefix ''/api/ocpp/'' p" "\<not> has_prefix ''/api/devices/scan-result/'' p" "\<not> has_prefix ''/api/devices/'' p"
    by (rule other; code_simp)+
  moreover have "p \<noteq> ''/api/devices/register''" "p \<notin> {''/api/devices'', ''/api/devices/me'', ''/api/devices/me/state'',
      ''/api/devices/me/state/sync'', ''/api/devices/scan-stream'', ''/api/devices/scan-result'', ''/api/devices/scan-cancel''}"
    using assms by (auto simp: admin_path_def has_prefix_def)
  ultimately show ?thesis by (simp add: selectAuth_def)
qed

text \<open>
  C11. Nothing under the operator console is reached without credentials. When the middleware hands
  a request for a path under \<open>/admin\<close> or \<open>/api/admin\<close> to its handler, and the path is none of the
  four public ones, then the request came to the admin host, and either it is one of the device
  control endpoints and carries the live token of a device that is not deleted, or it has the
  session of a user with the role admin and, if it changes state, an origin on the trusted list.
\<close>

theorem console_needs_admin:
  assumes gate: "middleware cf sha io rq w = (Next hs, w')"
    and path: "admin_path (rq_path rq)" and secret: "\<not> admin_public (rq_path rq)"
  shows "hs_surface hs = Admin \<and>
    (if device_control (rq_path rq) then by_token sha io rq w hs
     else (\<exists>u. hs_user hs = Some (u, ''admin'')) \<and> by_session cf io rq w hs)"
proof -
  have p: "permitted cf sha io rq w hs" by (rule middleware_permitted [OF gate])
  have np: "classifyRoute (rq_path rq) (hs_surface hs) \<noteq> PUBLIC" and cu: "classifyRoute (rq_path rq) Customer = UNKNOWN"
    by (rule admin_path_class [OF path secret])+
  note sel = admin_auth [OF path] and dc = device_control_admin [of "rq_path rq"]
  have surface: "hs_surface hs = Admin"
  proof (rule ccontr)
    assume "hs_surface hs \<noteq> Admin"
    then have c: "hs_surface hs = Customer" by (cases "hs_surface hs") simp_all
    then have "\<not> device_control (rq_path rq)" using p np dc unfolding permitted_def Let_def by auto
    then show False using p np cu sel c unfolding permitted_def Let_def by simp
  qed
  show ?thesis
  proof (cases "device_control (rq_path rq)")
    case True
    then show ?thesis using p np sel surface by (simp add: permitted_def Let_def)
  next
    case False
    then have "by_session cf io rq w hs" using p np sel surface by (simp add: permitted_def Let_def)
    moreover from this obtain se :: session_info and role where "hs_user hs = Some (se_userId se, role)" "hs_surface hs = Admin \<longrightarrow> role = ''admin''"
      unfolding by_session_def by blast
    ultimately show ?thesis using False surface by simp
  qed
qed

text \<open>An operator stops a device from the console with a session; the page of the devices is asked for without one.\<close>

definition console_config :: config where
  "console_config = \<lparr>cf_AUTH_URL = ''https://manage.example.com'', cf_ADMIN_BASE_URL = ''https://manage.example.com'',
     cf_CUSTOMER_BASE_URL = ''https://example.com'', cf_development = False, cf_CUSTOMER_SESSION_TTL_SECONDS = 604800\<rparr>"

definition console_request :: "string \<Rightarrow> string \<Rightarrow> string \<Rightarrow> request" where
  "console_request host path verb = \<lparr>rq_host = host, rq_path = dispatch_path host path, rq_search = [], rq_method = verb,
     rq_forwarded = Some ''10.0.0.1'', rq_realIp = None, rq_connectingIp = None, rq_authorization = None,
     rq_origin = Some ''https://manage.example.com/'', rq_as = None\<rparr>"

definition console_io :: "session_info option \<Rightarrow> gate_io" where
  "console_io se = \<lparr>gi_now = 1000, gi_rate = [], gi_lookup = True, gi_bump = True, gi_session = Some se, gi_revoke = True,
     gi_target = True, gi_audit = True, gi_logRate = True\<rparr>"

definition quiet_world :: gate_world where
  "quiet_world = \<lparr>gw_rates = [], gw_store = \<lparr>ts_tokens = [], ts_devices = [], ts_probes = []\<rparr>, gw_sessions = [], gw_users = [],
     gw_audit = [], gw_impersonations = []\<rparr>"

definition operator_session :: session_info where
  "operator_session = \<lparr>se_id = ''s1'', se_userId = ''operator'', se_role = Some ''admin'', se_createdAt = 0\<rparr>"

definition deregister_request :: request where
  "deregister_request = console_request ''manage.example.com'' ''/api/admin/devices/device-1/deregister'' ''POST''"

theorem console_needs_admin_witness:
  "\<exists>hs w'. middleware console_config id (console_io (Some operator_session)) deregister_request quiet_world = (Next hs, w') \<and>
     (\<exists>u. hs_user hs = Some (u, ''admin''))"
proof -
  let ?m = "middleware console_config id (console_io (Some operator_session)) deregister_request quiet_world"
  have "(case fst ?m of Next hs \<Rightarrow> True | _ \<Rightarrow> False) \<and> admin_path (rq_path deregister_request) \<and>
      \<not> admin_public (rq_path deregister_request) \<and> \<not> device_control (rq_path deregister_request)"
    by code_simp
  then obtain hs w' where m: "?m = (Next hs, w')" and p: "admin_path (rq_path deregister_request)"
      "\<not> admin_public (rq_path deregister_request)" "\<not> device_control (rq_path deregister_request)"
    by (cases ?m) (auto split: gate_reply.splits)
  from console_needs_admin [OF m p(1,2)] p(3) m show ?thesis by auto
qed

text \<open>
  The legal pages are public, but only on the customer's host. The route table lists them for
  both surfaces; on an admin host the path is rewritten under \<open>/admin\<close> before it is classified, so
  that a visitor without a session is sent to the login page.
\<close>

theorem legal_pages_by_host:
  "isPublicRoute ''/privacy'' Admin \<and> isPublicRoute ''/terms'' Admin \<and>
   fst (middleware console_config id (console_io None) (console_request ''manage.example.com'' ''/privacy'' ''GET'') quiet_world) =
     Redirect ''/login?next=%2Fprivacy'' \<and>
   fst (middleware console_config id (console_io None) (console_request ''manage.example.com'' ''/terms'' ''GET'') quiet_world) =
     Redirect ''/login?next=%2Fterms'' \<and>
   fst (middleware console_config id (console_io None) (console_request ''example.com'' ''/privacy'' ''GET'') quiet_world) =
     Next \<lparr>hs_surface = Customer, hs_device = None, hs_user = None, hs_actingAs = None\<rparr>"
  by code_simp

end
