(* ===== verification/MetaTags.thy ===== *)
theory MetaTags
  imports Mappings
begin

text \<open>
  The tags the service keeps in StEvE on its own (\<open>src/lib/customer-meta-tags.ts\<close>): the parent tag of
  a customer with the clean-up of its two older formats, and the tag of a customer's phone. StEvE is a
  parameter: a record of its calls over a state the model does not look into; what the lemmas rely
  on of it is the predicate \<open>steve_up\<close>. The rows of \<open>user_mappings\<close> carry the two columns the other
  services do not read.
\<close>

section \<open>Names\<close>

definition parentIdTagFor :: "string \<Rightarrow> string" where
  "parentIdTagFor ext = ''OCPP-'' @ ext"

definition legacyOcppParentIdTagForUserPublicId :: "string \<Rightarrow> string" where
  "legacyOcppParentIdTagForUserPublicId pid = ''OCPP-'' @ pid"

definition parentIdTagForUserPublicId :: "string \<Rightarrow> string" where
  "parentIdTagForUserPublicId pid = ''META-'' @ pid"

definition DEVICE_TAG_PREFIX :: string where "DEVICE_TAG_PREFIX = ''OCPP-D-''"

definition deviceIdTagFor :: "string \<Rightarrow> string \<Rightarrow> string" where
  "deviceIdTagFor pid dev =
     DEVICE_TAG_PREFIX @ pid @ ''-'' @ to_upper (take 6 (filter (\<lambda>c. c \<noteq> CHR ''-'') dev))"

section \<open>StEvE and the database\<close>

text \<open>
  The calls of the StEvE client; \<open>None\<close> and \<open>False\<close>: the call throws. \<open>sv_create\<close> takes the name, the
  note, the limit and the parent.
\<close>

record 's steve_api =
  sv_get :: "string \<Rightarrow> 's \<Rightarrow> ocpp_tag list option"
  sv_children :: "string \<Rightarrow> 's \<Rightarrow> ocpp_tag list option"
  sv_create :: "string \<Rightarrow> string \<Rightarrow> int \<Rightarrow> string option \<Rightarrow> 's \<Rightarrow> int option \<times> 's"
  sv_update :: "ocpp_tag \<Rightarrow> 's \<Rightarrow> bool \<times> 's"
  sv_delete :: "int \<Rightarrow> 's \<Rightarrow> bool \<times> 's"

record mapped_tag = user_mapping +
  mt_tagType :: string
  mt_deviceId :: "string option"

record tag_user =
  tu_id :: string
  tu_publicId :: string
  tu_role :: string
  tu_lagoCustomer :: "string option"

record 's tag_world =
  tw_steve :: 's
  tw_mappings :: "mapped_tag list"
  tw_nextId :: int
  tw_users :: "tag_user list"

definition TAG_TYPES :: "string list" where
  "TAG_TYPES = [''ev_card'', ''keytag'', ''app'', ''meta'']"

text \<open>
  What the table refuses: a second row for a tag, a type outside the check (migrations 0048 and 0049),
  an owner that is no customer (0018), a second owner of one Lago customer (0026).
\<close>

definition row_allowed :: "tag_user list \<Rightarrow> mapped_tag list \<Rightarrow> mapped_tag \<Rightarrow> bool" where
  "row_allowed users rows m \<longleftrightarrow>
     mt_tagType m \<in> set TAG_TYPES
     \<and> (\<forall>x \<in> set rows. mappingId x \<noteq> mappingId m \<longrightarrow> steveOcppTagPk x \<noteq> steveOcppTagPk m)
     \<and> (case userId m of None \<Rightarrow> True | Some u \<Rightarrow> (\<exists>x \<in> set users. tu_id x = u \<and> tu_role x = ''customer'')
          \<and> (case lagoCustomerExternalId m of None \<Rightarrow> True | Some c \<Rightarrow>
               (\<forall>x \<in> set rows. lagoCustomerExternalId x = Some c \<and> mappingId x \<noteq> mappingId m \<longrightarrow>
                  userId x = None \<or> userId x = Some u)))"

definition insert_mapping :: "mapped_tag \<Rightarrow> 's tag_world \<Rightarrow> 's tag_world" where
  "insert_mapping m w =
     (let m' = m\<lparr>mappingId := tw_nextId w\<rparr> in
      if row_allowed (tw_users w) (tw_mappings w) m'
      then w\<lparr>tw_mappings := tw_mappings w @ [m'], tw_nextId := tw_nextId w + 1\<rparr> else w)"

definition update_mapping :: "int \<Rightarrow> (mapped_tag \<Rightarrow> mapped_tag) \<Rightarrow> 's tag_world \<Rightarrow> 's tag_world" where
  "update_mapping i f w =
     (if \<forall>m \<in> set (tw_mappings w). mappingId m = i \<longrightarrow> row_allowed (tw_users w) (tw_mappings w) (f m)
      then w\<lparr>tw_mappings := map (\<lambda>m. if mappingId m = i then f m else m) (tw_mappings w)\<rparr> else w)"

definition nullish :: "'a option \<Rightarrow> 'a option \<Rightarrow> 'a option" where
  "nullish a b = (case a of None \<Rightarrow> b | Some x \<Rightarrow> Some x)"

section \<open>The tag of a customer\<close>

text \<open>The outcomes of the queries, and the answer of Lago (\<open>None\<close>: it throws).\<close>

record meta_io =
  mi_user :: bool
  mi_subs :: "lago_subscription list option"
  mi_row :: bool
  mi_legacy :: bool

definition firstActiveSubscriptionExternalId :: "lago_subscription list option \<Rightarrow> string option" where
  "firstActiveSubscriptionExternalId answer =
     (case answer of None \<Rightarrow> None
      | Some subs \<Rightarrow> map_option sub_external_id (find (\<lambda>s. sub_status s = ''active'') subs))"

text \<open>The dash of the notes in its UTF-8 octets.\<close>

definition tag_note :: "string \<Rightarrow> string option \<Rightarrow> string" where
  "tag_note what name =
     (if truthy name then what @ [CHR '' '', CHR 0xE2, CHR 0x80, CHR 0x94, CHR '' ''] @ the name else what)"

definition meta_tag_steve ::
  "'s steve_api \<Rightarrow> string \<Rightarrow> string option \<Rightarrow> int \<Rightarrow> 's \<Rightarrow> int option \<times> 's"
where
  "meta_tag_steve api i name limit s =
     (case sv_get api i s of
        None \<Rightarrow> (None, s)
      | Some (t # _) \<Rightarrow>
          (Some (ocppTagPk t),
           if maxActiveTransactionCount t \<noteq> Some limit
           then snd (sv_update api (t\<lparr>maxActiveTransactionCount := Some limit\<rparr>) s) else s)
      | Some [] \<Rightarrow> sv_create api i (tag_note ''ExpressCharge customer parent'' name) limit None s)"

definition meta_tag_row ::
  "meta_io \<Rightarrow> string \<Rightarrow> string \<Rightarrow> string option \<Rightarrow> string option \<Rightarrow> int option \<Rightarrow> 's tag_world \<Rightarrow> 's tag_world"
where
  "meta_tag_row io i ext name sub pk w =
     (case pk of
        None \<Rightarrow> w
      | Some k \<Rightarrow>
          if \<not> mi_row io then w
          else
            let owner = map_option tu_id (find (\<lambda>u. tu_lagoCustomer u = Some ext) (tw_users w)) in
            (case find (\<lambda>m. steveOcppTagPk m = k) (tw_mappings w) of
               Some row \<Rightarrow> update_mapping (mappingId row)
                 (\<lambda>m. m\<lparr>steveOcppIdTag := i, lagoCustomerExternalId := Some ext, lagoSubscriptionExternalId := sub,
                        displayName := nullish (displayName row) name, isActive := (sub \<noteq> None), mt_tagType := ''meta'',
                        userId := nullish (userId row) owner\<rparr>) w
             | None \<Rightarrow> insert_mapping
                 \<lparr>mappingId = 0, steveOcppTagPk = k, steveOcppIdTag = i, lagoCustomerExternalId = Some ext,
                  lagoSubscriptionExternalId = sub, displayName = name, isActive = (sub \<noteq> None), steveParentIdTag = None,
                  steveExpiryDate = None, userId = owner, mt_tagType = ''meta'', mt_deviceId = None\<rparr> w))"

text \<open>One older format: its children move to the new parent, its row is switched off, the tag is deleted.\<close>

definition reparent :: "'s steve_api \<Rightarrow> string \<Rightarrow> ocpp_tag \<Rightarrow> 's \<Rightarrow> 's" where
  "reparent api i child s = snd (sv_update api (child\<lparr>parentIdTag := Some i\<rparr>) s)"

definition cleanup_legacy :: "'s steve_api \<Rightarrow> meta_io \<Rightarrow> string \<Rightarrow> string \<Rightarrow> 's tag_world \<Rightarrow> 's tag_world" where
  "cleanup_legacy api io i old w =
     (if old = i then w
      else case sv_get api old (tw_steve w) of
        None \<Rightarrow> w
      | Some [] \<Rightarrow> w
      | Some (t # _) \<Rightarrow>
          (case sv_children api old (tw_steve w) of
             None \<Rightarrow> w
           | Some children \<Rightarrow>
               let s1 = fold (reparent api i) children (tw_steve w);
                   rows = (if mi_legacy io
                           then map (\<lambda>m. if steveOcppIdTag m = old then m\<lparr>isActive := False\<rparr> else m) (tw_mappings w)
                           else tw_mappings w)
               in w\<lparr>tw_steve := snd (sv_delete api (ocppTagPk t) s1), tw_mappings := rows\<rparr>))"

record meta_result =
  mr_idTag :: string
  mr_ocppTagPk :: "int option"
  mr_isActive :: bool
  mr_subscription :: "string option"

definition ensureCustomerMetaTag ::
  "'s steve_api \<Rightarrow> meta_io \<Rightarrow> string \<Rightarrow> string option \<Rightarrow> 's tag_world \<Rightarrow> meta_result option \<times> 's tag_world"
where
  "ensureCustomerMetaTag api io ext name w =
     (if \<not> mi_user io then (None, w)
      else
        let pid = map_option tu_publicId (find (\<lambda>u. tu_lagoCustomer u = Some ext) (tw_users w));
            i = (case pid of Some p \<Rightarrow> parentIdTagForUserPublicId p | None \<Rightarrow> parentIdTagFor ext);
            legacy = parentIdTagFor ext # (case pid of Some p \<Rightarrow> [legacyOcppParentIdTagForUserPublicId p] | None \<Rightarrow> []);
            sub = firstActiveSubscriptionExternalId (mi_subs io)
        in case meta_tag_steve api i name (if sub \<noteq> None then 1 else 0) (tw_steve w) of
          (pk, s) \<Rightarrow>
            let w1 = meta_tag_row io i ext name sub pk (w\<lparr>tw_steve := s\<rparr>);
                w2 = (if pk = None then w1 else fold (cleanup_legacy api io i) legacy w1)
            in (Some \<lparr>mr_idTag = i, mr_ocppTagPk = pk, mr_isActive = (sub \<noteq> None), mr_subscription = sub\<rparr>, w2))"

section \<open>The tag of a phone\<close>

record device_tag_io =
  di_user :: bool
  di_row :: bool

definition device_tag_parent :: "tag_user \<Rightarrow> string option" where
  "device_tag_parent user =
     (if truthy (tu_lagoCustomer user) then Some (parentIdTagFor (the (tu_lagoCustomer user))) else None)"

definition device_tag_steve ::
  "'s steve_api \<Rightarrow> string \<Rightarrow> string option \<Rightarrow> string option \<Rightarrow> 's \<Rightarrow> (int option \<times> bool) \<times> 's"
where
  "device_tag_steve api i name parent s =
     (case sv_get api i s of
        None \<Rightarrow> ((None, True), s)
      | Some (t # _) \<Rightarrow>
          ((Some (ocppTagPk t), (case maxActiveTransactionCount t of None \<Rightarrow> 0 | Some n \<Rightarrow> n) > 0), s)
      | Some [] \<Rightarrow>
          (case sv_create api i (tag_note ''ExpressCharge device'' name) 1 parent s of (pk, s') \<Rightarrow> ((pk, True), s')))"

definition device_tag_row ::
  "device_tag_io \<Rightarrow> string \<Rightarrow> string \<Rightarrow> string \<Rightarrow> string option \<Rightarrow> string option \<Rightarrow> int option \<Rightarrow> bool \<Rightarrow> 's tag_world \<Rightarrow> 's tag_world"
where
  "device_tag_row io i dev uid name parent pk active w =
     (case pk of
        None \<Rightarrow> w
      | Some k \<Rightarrow>
          if \<not> di_row io then w
          else (case find (\<lambda>m. steveOcppTagPk m = k) (tw_mappings w) of
            Some row \<Rightarrow> update_mapping (mappingId row)
              (\<lambda>m. m\<lparr>steveOcppIdTag := i, displayName := nullish (displayName row) name, isActive := active,
                     userId := nullish (userId row) (Some uid), mt_deviceId := nullish (mt_deviceId row) (Some dev),
                     steveParentIdTag := parent, mt_tagType := ''app''\<rparr>) w
          | None \<Rightarrow> insert_mapping
              \<lparr>mappingId = 0, steveOcppTagPk = k, steveOcppIdTag = i, lagoCustomerExternalId = None,
               lagoSubscriptionExternalId = None, displayName = name, isActive = active, steveParentIdTag = parent,
               steveExpiryDate = None, userId = Some uid, mt_tagType = ''phone_nfc'', mt_deviceId = Some dev\<rparr> w))"

definition ensureDeviceTag ::
  "'s steve_api \<Rightarrow> device_tag_io \<Rightarrow> string \<Rightarrow> string \<Rightarrow> string \<Rightarrow> string option \<Rightarrow> 's tag_world
     \<Rightarrow> (string \<times> int option \<times> bool) option \<times> 's tag_world"
where
  "ensureDeviceTag api io dev uid pid name w =
     (let i = deviceIdTagFor pid dev in
      if \<not> di_user io then (None, w)
      else case find (\<lambda>u. tu_id u = uid) (tw_users w) of
        None \<Rightarrow> (Some (i, None, False), w)
      | Some user \<Rightarrow>
          if tu_role user \<noteq> ''customer'' then (Some (i, None, False), w)
          else (case device_tag_steve api i name (device_tag_parent user) (tw_steve w) of
            ((pk, active), s) \<Rightarrow>
              (Some (i, pk, active),
               device_tag_row io i dev uid name (device_tag_parent user) pk active (w\<lparr>tw_steve := s\<rparr>))))"

text \<open>The end of a phone's tag; \<open>look\<close>: the query for its rows; \<open>row\<close>: the updates of them.\<close>

definition revoke_row :: "'s steve_api \<Rightarrow> bool \<Rightarrow> mapped_tag \<Rightarrow> 's tag_world \<Rightarrow> 's tag_world" where
  "revoke_row api row m w =
     (let s = (case sv_get api (steveOcppIdTag m) (tw_steve w) of
                 Some (t # _) \<Rightarrow> snd (sv_update api (t\<lparr>maxActiveTransactionCount := Some 0\<rparr>) (tw_steve w))
               | _ \<Rightarrow> tw_steve w);
          w1 = w\<lparr>tw_steve := s\<rparr>
      in if row then w1\<lparr>tw_mappings := map (\<lambda>x. if mappingId x = mappingId m then x\<lparr>isActive := False\<rparr> else x) (tw_mappings w1)\<rparr>
         else w1)"

definition revokeDeviceTag :: "'s steve_api \<Rightarrow> bool \<Rightarrow> bool \<Rightarrow> string \<Rightarrow> 's tag_world \<Rightarrow> 's tag_world" where
  "revokeDeviceTag api look row dev w =
     (if \<not> look then w
      else fold (revoke_row api row) (filter (\<lambda>m. mt_deviceId m = Some dev) (tw_mappings w)) w)"

section \<open>What StEvE promises\<close>

text \<open>
  While StEvE answers, reads return the tags with the name or the parent, a new name gets a key of
  its own (StEvE may refuse one with a parent), updates and deletions go by key.
\<close>

definition steve_up :: "'s steve_api \<Rightarrow> ('s \<Rightarrow> ocpp_tag list) \<Rightarrow> bool" where
  "steve_up api tags \<longleftrightarrow>
     (\<forall>i s. sv_get api i s = Some (filter (\<lambda>t. idTag t = i) (tags s))) \<and>
     (\<forall>p s. sv_children api p s = Some (filter (\<lambda>t. parentIdTag t = Some p) (tags s))) \<and>
     (\<forall>i n l p s. i \<notin> idTag ` set (tags s) \<longrightarrow>
        (case sv_create api i n l p s of
           (None, s') \<Rightarrow> p \<noteq> None \<and> tags s' = tags s
         | (Some k, s') \<Rightarrow> k \<notin> ocppTagPk ` set (tags s) \<and>
             (\<exists>t. idTag t = i \<and> ocppTagPk t = k \<and> parentIdTag t = p \<and> maxActiveTransactionCount t = Some l \<and>
                tags s' = tags s @ [t]))) \<and>
     (\<forall>t s. tags (snd (sv_update api t s)) = map (\<lambda>x. if ocppTagPk x = ocppTagPk t then t else x) (tags s)) \<and>
     (\<forall>k s. tags (snd (sv_delete api k s)) = filter (\<lambda>x. ocppTagPk x \<noteq> k) (tags s))"

definition keyed_tags :: "ocpp_tag list \<Rightarrow> bool" where
  "keyed_tags ts \<longleftrightarrow> distinct (map ocppTagPk ts) \<and> distinct (map idTag ts)"

lemma keyed_same: "keyed_tags ts \<Longrightarrow> x \<in> set ts \<Longrightarrow> y \<in> set ts \<Longrightarrow> ocppTagPk x = ocppTagPk y \<longleftrightarrow> x = y"
  "keyed_tags ts \<Longrightarrow> x \<in> set ts \<Longrightarrow> y \<in> set ts \<Longrightarrow> idTag x = idTag y \<longleftrightarrow> x = y"
  by (auto simp: keyed_tags_def distinct_map dest: inj_onD)

lemma keyed_map:
  assumes "keyed_tags ts" and "\<And>t. ocppTagPk (f t) = ocppTagPk t" "\<And>t. idTag (f t) = idTag t"
  shows "keyed_tags (map f ts)"
  using assms by (simp add: keyed_tags_def comp_def)

lemma keyed_filter: "keyed_tags ts \<Longrightarrow> keyed_tags (filter P ts)"
  by (auto simp: keyed_tags_def distinct_map inj_on_def)

lemma steve_upD:
  assumes "steve_up api tags"
  shows "sv_get api i s = Some (filter (\<lambda>t. idTag t = i) (tags s))"
    "sv_children api p s = Some (filter (\<lambda>t. parentIdTag t = Some p) (tags s))"
    "tags (snd (sv_update api t s)) = map (\<lambda>x. if ocppTagPk x = ocppTagPk t then t else x) (tags s)"
    "tags (snd (sv_delete api k s)) = filter (\<lambda>x. ocppTagPk x \<noteq> k) (tags s)"
  using assms by (simp_all add: steve_up_def)

lemma steve_up_create:
  assumes "steve_up api tags" and "i \<notin> idTag ` set (tags s)"
  obtains "fst (sv_create api i n l p s) = None" "p \<noteq> None" "tags (snd (sv_create api i n l p s)) = tags s"
  | k t where "fst (sv_create api i n l p s) = Some k" "k \<notin> ocppTagPk ` set (tags s)" "idTag t = i" "ocppTagPk t = k"
      "parentIdTag t = p" "maxActiveTransactionCount t = Some l" "tags (snd (sv_create api i n l p s)) = tags s @ [t]"
proof -
  obtain r s' where c: "sv_create api i n l p s = (r, s')" by (rule prod.exhaust)
  have "case sv_create api i n l p s of
           (None, s') \<Rightarrow> p \<noteq> None \<and> tags s' = tags s
         | (Some k, s') \<Rightarrow> k \<notin> ocppTagPk ` set (tags s) \<and>
             (\<exists>t. idTag t = i \<and> ocppTagPk t = k \<and> parentIdTag t = p \<and> maxActiveTransactionCount t = Some l \<and>
                tags s' = tags s @ [t])"
    using assms by (simp add: steve_up_def)
  then show thesis using that c by (cases r) auto
qed

lemma tags_reparent:
  assumes up: "steve_up api tags"
  shows "keyed_tags (tags s) \<Longrightarrow> set cs \<subseteq> set (tags s) \<Longrightarrow> distinct cs \<Longrightarrow>
    tags (fold (reparent api i) cs s) = map (\<lambda>x. if x \<in> set cs then x\<lparr>parentIdTag := Some i\<rparr> else x) (tags s)"
proof (induction cs arbitrary: s)
  case (Cons c cs)
  let ?s = "reparent api i c s" and ?f = "\<lambda>x. if x = c then x\<lparr>parentIdTag := Some i\<rparr> else x"
  have s: "tags ?s = map ?f (tags s)"
    using keyed_same(1) [OF Cons.prems(1)] Cons.prems(2) by (auto simp: reparent_def steve_upD(3) [OF up])
  have k: "keyed_tags (tags ?s)" unfolding s by (rule keyed_map [OF Cons.prems(1)]) simp_all
  have sub: "set cs \<subseteq> set (tags ?s)" unfolding s using Cons.prems(2,3) by (auto simp: image_iff)
  have c: "c\<lparr>parentIdTag := Some i\<rparr> \<in> set cs \<Longrightarrow> c = c\<lparr>parentIdTag := Some i\<rparr>"
    using keyed_same(1) [OF Cons.prems(1), of c "c\<lparr>parentIdTag := Some i\<rparr>"] Cons.prems(2) by auto
  have "tags (fold (reparent api i) (c # cs) s) = map (\<lambda>x. if x \<in> set cs then x\<lparr>parentIdTag := Some i\<rparr> else x) (tags ?s)"
    using Cons.IH [OF k sub] Cons.prems(3) by simp
  also have "\<dots> = map (\<lambda>x. if x \<in> set (c # cs) then x\<lparr>parentIdTag := Some i\<rparr> else x) (tags s)"
    unfolding s using c Cons.prems(3) by auto
  finally show ?case .
qed simp

text \<open>The tags after the clean-up of one older format.\<close>

definition adopted :: "string \<Rightarrow> string \<Rightarrow> ocpp_tag list \<Rightarrow> ocpp_tag list" where
  "adopted i old ts =
     (if old \<in> idTag ` set ts
      then map (\<lambda>t. if parentIdTag t = Some old then t\<lparr>parentIdTag := Some i\<rparr> else t) (filter (\<lambda>t. idTag t \<noteq> old) ts)
      else ts)"

lemma cleanup_tags:
  assumes up: "steve_up api tags" and k: "keyed_tags (tags (tw_steve w))" and i: "old \<noteq> i"
  shows "tags (tw_steve (cleanup_legacy api io i old w)) = adopted i old (tags (tw_steve w))"
proof (cases "filter (\<lambda>t. idTag t = old) (tags (tw_steve w))")
  case Nil
  then have "old \<notin> idTag ` set (tags (tw_steve w))" by (auto simp: filter_empty_conv)
  with Nil i show ?thesis by (simp add: cleanup_legacy_def adopted_def steve_upD(1) [OF up])
next
  case (Cons t ts)
  let ?tags = "tags (tw_steve w)" and ?cs = "filter (\<lambda>t. parentIdTag t = Some old) (tags (tw_steve w))"
  have "t \<in> set (filter (\<lambda>t. idTag t = old) ?tags)" unfolding Cons by simp
  then have t: "t \<in> set ?tags" "idTag t = old" by auto
  have "distinct ?tags" using k by (auto simp: keyed_tags_def distinct_map)
  then have s1: "tags (fold (reparent api i) ?cs (tw_steve w)) =
      map (\<lambda>x. if x \<in> set ?cs then x\<lparr>parentIdTag := Some i\<rparr> else x) ?tags"
    by (intro tags_reparent [OF up k]) auto
  have "tags (tw_steve (cleanup_legacy api io i old w)) =
      filter (\<lambda>x. ocppTagPk x \<noteq> ocppTagPk t) (map (\<lambda>x. if x \<in> set ?cs then x\<lparr>parentIdTag := Some i\<rparr> else x) ?tags)"
    using Cons i by (simp add: cleanup_legacy_def steve_upD [OF up] s1 [simplified] Let_def)
  also have "\<dots> = map (\<lambda>x. if x \<in> set ?cs then x\<lparr>parentIdTag := Some i\<rparr> else x) (filter (\<lambda>x. ocppTagPk x \<noteq> ocppTagPk t) ?tags)"
    by (simp add: filter_map comp_def if_distrib [of ocppTagPk] cong: if_cong)
  also have "filter (\<lambda>x. ocppTagPk x \<noteq> ocppTagPk t) ?tags = filter (\<lambda>x. idTag x \<noteq> old) ?tags"
    using keyed_same [OF k _ t(1)] t(2) by (intro filter_cong) auto
  also have "map (\<lambda>x. if x \<in> set ?cs then x\<lparr>parentIdTag := Some i\<rparr> else x) (filter (\<lambda>x. idTag x \<noteq> old) ?tags) = adopted i old ?tags"
    using t by (auto simp: adopted_def)
  finally show ?thesis .
qed

lemma adopted_keyed: "keyed_tags ts \<Longrightarrow> keyed_tags (adopted i old ts)"
  by (auto simp: adopted_def intro!: keyed_map keyed_filter)

lemma adopted_ids: "idTag ` set (adopted i old ts) = idTag ` set ts - {old}"
proof (cases "old \<in> idTag ` set ts")
  case True
  have "idTag ` set (adopted i old ts) = set (map idTag (adopted i old ts))" by simp
  also have "map idTag (adopted i old ts) = map idTag (filter (\<lambda>t. idTag t \<noteq> old) ts)"
    using True by (simp add: adopted_def)
  finally show ?thesis by auto
qed (simp add: adopted_def)

lemma adopted_in:
  "t \<in> set ts \<Longrightarrow> idTag t \<noteq> old \<Longrightarrow>
   (if parentIdTag t = Some old \<and> old \<in> idTag ` set ts then t\<lparr>parentIdTag := Some i\<rparr> else t) \<in> set (adopted i old ts)"
  by (auto simp: adopted_def)

section \<open>The move to the new parent\<close>

lemma fold_cleanup_tags:
  assumes up: "steve_up api tags"
  shows "keyed_tags (tags (tw_steve w)) \<Longrightarrow> i \<notin> set olds \<Longrightarrow>
    tags (tw_steve (fold (cleanup_legacy api io i) olds w)) = fold (adopted i) olds (tags (tw_steve w))"
proof (induction olds arbitrary: w)
  case (Cons old olds)
  let ?w = "cleanup_legacy api io i old w"
  have t: "tags (tw_steve ?w) = adopted i old (tags (tw_steve w))"
    using cleanup_tags [OF up Cons.prems(1)] Cons.prems(2) by auto
  then have "keyed_tags (tags (tw_steve ?w))" using adopted_keyed [OF Cons.prems(1)] by simp
  from Cons.IH [OF this] show ?case using Cons.prems(2) t by simp
qed simp

lemma insert_mapping_steve [simp]: "tw_steve (insert_mapping m w) = tw_steve w"
  by (simp add: insert_mapping_def Let_def)

lemma update_mapping_steve [simp]: "tw_steve (update_mapping k f w) = tw_steve w"
  by (simp add: update_mapping_def)

lemma meta_tag_row_steve [simp]: "tw_steve (meta_tag_row io i ext name sub pk w) = tw_steve w"
  by (simp add: meta_tag_row_def Let_def split: option.split)

lemma meta_tag_steve_up:
  assumes up: "steve_up api tags" and k: "keyed_tags (tags s)" and m: "meta_tag_steve api i name l s = (pk, s')"
  obtains k t where "pk = Some k" "keyed_tags (tags s')" "t \<in> set (tags s')" "idTag t = i" "maxActiveTransactionCount t = Some l"
    "\<forall>x \<in> set (tags s). idTag x \<noteq> i \<longrightarrow> x \<in> set (tags s')"
    "idTag ` set (tags s') \<subseteq> insert i (idTag ` set (tags s))"
proof (cases "filter (\<lambda>t. idTag t = i) (tags s)")
  case Nil
  then have new: "i \<notin> idTag ` set (tags s)" by (auto simp: filter_empty_conv)
  have c: "(pk, s') = sv_create api i (tag_note ''ExpressCharge customer parent'' name) l None s"
    using m Nil by (simp add: meta_tag_steve_def steve_upD(1) [OF up])
  show thesis
  proof (rule steve_up_create [OF up new, of "tag_note ''ExpressCharge customer parent'' name" l None], goal_cases)
    case (2 q t)
    then have s': "tags s' = tags s @ [t]" "pk = Some q" by (simp_all add: c [symmetric])
    moreover have "keyed_tags (tags s')" using k new 2 s' by (auto simp: keyed_tags_def)
    ultimately show thesis using 2 by (intro that [of q t]) auto
  qed simp
next
  case (Cons t ts)
  let ?new = "t\<lparr>maxActiveTransactionCount := Some l\<rparr>"
  have "t \<in> set (filter (\<lambda>t. idTag t = i) (tags s))" unfolding Cons by simp
  then have t: "t \<in> set (tags s)" "idTag t = i" by auto
  have eq: "ocppTagPk x = ocppTagPk t \<longleftrightarrow> x = t" if "x \<in> set (tags s)" for x
    using keyed_same(1) [OF k that t(1)] by simp
  have pk: "pk = Some (ocppTagPk t)" and s': "s' = (if maxActiveTransactionCount t \<noteq> Some l then snd (sv_update api ?new s) else s)"
    using m Cons by (simp_all add: meta_tag_steve_def steve_upD(1) [OF up])
  have ts: "tags s' = map (\<lambda>x. if x = t then ?new else x) (tags s)"
  proof (cases "maxActiveTransactionCount t = Some l")
    case True
    then have "?new = t" by simp
    then show ?thesis using True s' by (simp add: map_idI)
  next
    case False
    then show ?thesis using s' eq by (simp add: steve_upD(3) [OF up])
  qed
  have ids: "map idTag (tags s') = map idTag (tags s)" unfolding ts by simp
  show thesis
  proof (rule that [OF pk])
    show "keyed_tags (tags s')" unfolding ts by (rule keyed_map [OF k]) simp_all
    show "?new \<in> set (tags s')" unfolding ts using t(1) by (auto simp: image_iff)
    show "idTag ?new = i" "maxActiveTransactionCount ?new = Some l" using t(2) by simp_all
    show "\<forall>x \<in> set (tags s). idTag x \<noteq> i \<longrightarrow> x \<in> set (tags s')"
      unfolding ts using t(2) by (auto simp: image_iff)
    show "idTag ` set (tags s') \<subseteq> insert i (idTag ` set (tags s))"
      using ids by (metis set_map subset_insertI)
  qed
qed

lemma adopted_keeps:
  assumes "t \<in> set ts" "idTag t \<noteq> old"
  obtains t' where "t' \<in> set (adopted i old ts)" "idTag t' = idTag t" "maxActiveTransactionCount t' = maxActiveTransactionCount t"
    "parentIdTag t' = (if parentIdTag t = Some old \<and> old \<in> idTag ` set ts then Some i else parentIdTag t)"
  by (rule that [OF adopted_in [OF assms, of i]]) auto

lemma meta_names [simp]:
  "parentIdTagForUserPublicId p \<noteq> parentIdTagFor e" "parentIdTagFor e \<noteq> parentIdTagForUserPublicId p"
  "parentIdTagForUserPublicId p \<noteq> legacyOcppParentIdTagForUserPublicId q"
  "legacyOcppParentIdTagForUserPublicId q \<noteq> parentIdTagForUserPublicId p"
  by (simp_all add: parentIdTagForUserPublicId_def parentIdTagFor_def legacyOcppParentIdTagForUserPublicId_def)

lemma adopt_twice:
  assumes "m \<noteq> e" "m \<noteq> p" "b \<longleftrightarrow> p \<noteq> e \<and> p \<in> S"
    and "y = (if x = Some e \<and> e \<in> S then Some m else x)" "z = (if y = Some p \<and> b then Some m else y)"
  shows "z = (if x \<in> Some ` ({e, p} \<inter> S) then Some m else x)"
proof -
  have "x \<in> Some ` ({e, p} \<inter> S) \<longleftrightarrow> x = Some e \<and> e \<in> S \<or> x = Some p \<and> p \<in> S" by auto
  moreover have "z = (if x = Some e \<and> e \<in> S \<or> x = Some p \<and> p \<in> S then Some m else x)"
  proof (cases "x = Some e \<and> e \<in> S")
    case True
    then have "y = Some m" using assms(4) by simp
    then show ?thesis using True assms(2,5) by simp
  next
    case False
    have "y = x" unfolding assms(4) by (rule if_not_P [OF False])
    then show ?thesis using False assms(3,5) by (cases "p = e") auto
  qed
  ultimately show ?thesis by simp
qed

lemma pair_Int_cong: "(e \<in> A \<longleftrightarrow> e \<in> B) \<Longrightarrow> (p \<in> A \<longleftrightarrow> p \<in> B) \<Longrightarrow> {e, p} \<inter> A = {e, p} \<inter> B"
  by blast

lemma ensure_tags:
  assumes up: "steve_up api tags" and k: "keyed_tags (tags (tw_steve w))"
    and user: "find (\<lambda>u. tu_lagoCustomer u = Some ext) (tw_users w) = Some u"
    and run: "ensureCustomerMetaTag api io ext name w = (Some r, w')"
  obtains ts t where "keyed_tags ts" "t \<in> set ts" "idTag t = parentIdTagForUserPublicId (tu_publicId u)"
    "maxActiveTransactionCount t = Some (if firstActiveSubscriptionExternalId (mi_subs io) \<noteq> None then 1 else 0)"
    "\<forall>x \<in> set (tags (tw_steve w)). idTag x \<noteq> parentIdTagForUserPublicId (tu_publicId u) \<longrightarrow> x \<in> set ts"
    "idTag ` set ts \<subseteq> insert (parentIdTagForUserPublicId (tu_publicId u)) (idTag ` set (tags (tw_steve w)))"
    "tags (tw_steve w') = fold (adopted (parentIdTagForUserPublicId (tu_publicId u)))
       [parentIdTagFor ext, legacyOcppParentIdTagForUserPublicId (tu_publicId u)] ts"
    "mr_idTag r = parentIdTagForUserPublicId (tu_publicId u)"
proof -
  let ?i = "parentIdTagForUserPublicId (tu_publicId u)"
    and ?olds = "[parentIdTagFor ext, legacyOcppParentIdTagForUserPublicId (tu_publicId u)]"
    and ?sub = "firstActiveSubscriptionExternalId (mi_subs io)"
  let ?l = "if ?sub \<noteq> None then 1 else 0 :: int"
  obtain pk s where m: "meta_tag_steve api ?i name ?l (tw_steve w) = (pk, s)" by (rule prod.exhaust)
  obtain k t where pk: "pk = Some k" and ts: "keyed_tags (tags s)" "t \<in> set (tags s)" "idTag t = ?i"
      "maxActiveTransactionCount t = Some ?l" "\<forall>x \<in> set (tags (tw_steve w)). idTag x \<noteq> ?i \<longrightarrow> x \<in> set (tags s)"
      "idTag ` set (tags s) \<subseteq> insert ?i (idTag ` set (tags (tw_steve w)))"
    by (rule meta_tag_steve_up [OF up k m])
  let ?w1 = "meta_tag_row io ?i ext name ?sub pk (w\<lparr>tw_steve := s\<rparr>)"
  have "mi_user io" using run by (cases "mi_user io") (simp_all add: ensureCustomerMetaTag_def)
  then have "ensureCustomerMetaTag api io ext name w =
      (Some \<lparr>mr_idTag = ?i, mr_ocppTagPk = pk, mr_isActive = (?sub \<noteq> None), mr_subscription = ?sub\<rparr>,
       fold (cleanup_legacy api io ?i) ?olds ?w1)"
    by (simp only: ensureCustomerMetaTag_def user m pk Let_def option.map option.case prod.case option.distinct if_False simp_thms not_True_eq_False)
  with run have run': "w' = fold (cleanup_legacy api io ?i) ?olds ?w1" "mr_idTag r = ?i"
    by (simp_all only: prod.inject option.inject meta_result.select_convs) (metis meta_result.select_convs(1))
  have "tags (tw_steve w') = fold (adopted ?i) ?olds (tags (tw_steve ?w1))"
    unfolding run'(1) by (rule fold_cleanup_tags [OF up]) (use ts(1) in simp_all)
  then have "tags (tw_steve w') = fold (adopted ?i) ?olds (tags s)" by simp
  then show thesis using that [OF ts(1-4) ts(5,6) _ run'(2)] by blast
qed

text \<open>
  The parent tag of a customer takes over the children of its two older formats. While StEvE
  answers, \<open>ensureCustomerMetaTag\<close> leaves a tag \<open>META-\<close> with the customer's public id whose limit is one
  exactly when the customer has an active subscription; no tag of an older format is left; every other
  tag is still there, and it hangs below the new parent if it hung below an old one, and below its
  own parent otherwise.
\<close>

theorem meta_tag_adopts_children:
  assumes "steve_up api tags" "keyed_tags (tags (tw_steve w))"
    and "find (\<lambda>u. tu_lagoCustomer u = Some ext) (tw_users w) = Some u"
    and "ensureCustomerMetaTag api io ext name w = (Some r, w')"
    and "meta = parentIdTagForUserPublicId (tu_publicId u)"
    and "olds = {parentIdTagFor ext, legacyOcppParentIdTagForUserPublicId (tu_publicId u)}"
  shows "(\<exists>t \<in> set (tags (tw_steve w')). idTag t = meta \<and>
      maxActiveTransactionCount t = Some (if firstActiveSubscriptionExternalId (mi_subs io) \<noteq> None then 1 else 0))
    \<and> (\<forall>t \<in> set (tags (tw_steve w')). idTag t \<notin> olds)
    \<and> (\<forall>t \<in> set (tags (tw_steve w)). idTag t \<notin> olds \<and> idTag t \<noteq> meta \<longrightarrow>
         (\<exists>t' \<in> set (tags (tw_steve w')). idTag t' = idTag t \<and>
            parentIdTag t' = (if parentIdTag t \<in> Some ` (olds \<inter> idTag ` set (tags (tw_steve w))) then Some meta else parentIdTag t)))"
proof -
  obtain ts t where ts: "keyed_tags ts" "t \<in> set ts" "idTag t = meta"
    "maxActiveTransactionCount t = Some (if firstActiveSubscriptionExternalId (mi_subs io) \<noteq> None then 1 else 0)"
    "\<forall>x \<in> set (tags (tw_steve w)). idTag x \<noteq> meta \<longrightarrow> x \<in> set ts"
    "idTag ` set ts \<subseteq> insert meta (idTag ` set (tags (tw_steve w)))"
    "tags (tw_steve w') = fold (adopted meta) [parentIdTagFor ext, legacyOcppParentIdTagForUserPublicId (tu_publicId u)] ts"
    using ensure_tags [OF assms(1-4)] unfolding assms(5) by metis
  let ?e = "parentIdTagFor ext" and ?p = "legacyOcppParentIdTagForUserPublicId (tu_publicId u)"
  let ?ts1 = "adopted meta ?e ts"
  have final: "tags (tw_steve w') = adopted meta ?p ?ts1" using ts(7) by simp
  have names: "meta \<noteq> ?e" "meta \<noteq> ?p" unfolding assms(5) by simp_all
  have ids: "x \<in> idTag ` set ts \<longleftrightarrow> x \<in> idTag ` set (tags (tw_steve w))" if "x \<noteq> meta" for x
    using ts(5,6) that by (auto simp: image_iff)
  have chain: "\<exists>t' \<in> set (tags (tw_steve w')). idTag t' = idTag x \<and> maxActiveTransactionCount t' = maxActiveTransactionCount x
      \<and> parentIdTag t' = (if parentIdTag x \<in> Some ` (olds \<inter> idTag ` set ts) then Some meta else parentIdTag x)"
    if x: "x \<in> set ts" "idTag x \<notin> olds" for x
  proof -
    have n: "idTag x \<noteq> ?e" "idTag x \<noteq> ?p" using x(2) unfolding assms(6) by simp_all
    obtain y where y: "y \<in> set ?ts1" "idTag y = idTag x" "maxActiveTransactionCount y = maxActiveTransactionCount x"
        "parentIdTag y = (if parentIdTag x = Some ?e \<and> ?e \<in> idTag ` set ts then Some meta else parentIdTag x)"
      by (rule adopted_keeps [OF x(1) n(1), of meta])
    have "idTag y \<noteq> ?p" using y(2) n(2) by simp
    from adopted_keeps [OF y(1) this, of meta] obtain z where z: "z \<in> set (adopted meta ?p ?ts1)" "idTag z = idTag y"
        "maxActiveTransactionCount z = maxActiveTransactionCount y"
        "parentIdTag z = (if parentIdTag y = Some ?p \<and> ?p \<in> idTag ` set ?ts1 then Some meta else parentIdTag y)"
      by blast
    have "?p \<in> idTag ` set ?ts1 \<longleftrightarrow> ?p \<noteq> ?e \<and> ?p \<in> idTag ` set ts" unfolding adopted_ids by blast
    then have "parentIdTag z = (if parentIdTag x \<in> Some ` (olds \<inter> idTag ` set ts) then Some meta else parentIdTag x)"
      unfolding assms(6) by (rule adopt_twice [OF names _ y(4) z(4)])
    then show ?thesis using y z final by (intro bexI [of _ z]) simp_all
  qed
  have "meta \<notin> olds" using names unfolding assms(6) by simp
  then have "idTag t \<notin> olds" using ts(3) by simp
  from chain [OF ts(2) this] ts(3,4) have 1: "\<exists>t \<in> set (tags (tw_steve w')). idTag t = meta \<and>
      maxActiveTransactionCount t = Some (if firstActiveSubscriptionExternalId (mi_subs io) \<noteq> None then 1 else 0)"
    by (elim bexE conjE, intro bexI conjI) simp_all
  have "idTag ` set (tags (tw_steve w')) \<inter> olds = {}"
    unfolding final adopted_ids assms(6) by blast
  then have 2: "\<forall>t \<in> set (tags (tw_steve w')). idTag t \<notin> olds" by blast
  have olds: "olds \<inter> idTag ` set ts = olds \<inter> idTag ` set (tags (tw_steve w))"
    unfolding assms(6) by (rule pair_Int_cong [OF ids [OF names(1) [symmetric]] ids [OF names(2) [symmetric]]])
  have 3: "\<exists>t' \<in> set (tags (tw_steve w')). idTag t' = idTag x \<and>
      parentIdTag t' = (if parentIdTag x \<in> Some ` (olds \<inter> idTag ` set (tags (tw_steve w))) then Some meta else parentIdTag x)"
    if "x \<in> set (tags (tw_steve w))" "idTag x \<notin> olds" "idTag x \<noteq> meta" for x
    using chain [of x] ts(5) that unfolding olds by blast
  show ?thesis by (intro conjI ballI impI) (rule 1, use 2 in blast, use 3 in blast)
qed

section \<open>A phone's tag\<close>

text \<open>The type the insert gives is none the table accepts: a new row is never stored.\<close>

lemma phone_row_refused:
  "mt_tagType m = ''phone_nfc'' \<Longrightarrow> insert_mapping m w = w"
  by (simp add: insert_mapping_def row_allowed_def TAG_TYPES_def Let_def)

lemma device_tag_row_new:
  "\<forall>k. pk = Some k \<longrightarrow> k \<notin> steveOcppTagPk ` set (tw_mappings w) \<Longrightarrow> device_tag_row io i dev uid name parent pk active w = w"
proof (cases pk)
  case (Some k)
  moreover assume "\<forall>k. pk = Some k \<longrightarrow> k \<notin> steveOcppTagPk ` set (tw_mappings w)"
  ultimately have "find (\<lambda>m. steveOcppTagPk m = k) (tw_mappings w) = None" unfolding find_None_set by force
  then show ?thesis using Some by (simp add: device_tag_row_def phone_row_refused)
qed (simp add: device_tag_row_def)

lemma device_tag_row_steve [simp]: "tw_steve (device_tag_row io i dev uid name parent pk active w) = tw_steve w"
  by (simp add: device_tag_row_def split: option.split)

lemma ensureDeviceTag_new:
  assumes run: "ensureDeviceTag api io dev uid pid name w = (Some (i, pk, active), w')"
    and new: "\<forall>k. pk = Some k \<longrightarrow> k \<notin> steveOcppTagPk ` set (tw_mappings w)"
  shows "i = deviceIdTagFor pid dev" "tw_mappings w' = tw_mappings w"
    "tw_steve w' = tw_steve w \<or>
     (\<exists>u \<in> set (tw_users w). tu_id u = uid \<and> tu_role u = ''customer'' \<and>
        device_tag_steve api i name (device_tag_parent u) (tw_steve w) = ((pk, active), tw_steve w'))"
proof -
  show i: "i = deviceIdTagFor pid dev"
    using run by (auto simp: ensureDeviceTag_def Let_def split: if_splits option.splits prod.splits)
  have "tw_mappings w' = tw_mappings w \<and> (tw_steve w' = tw_steve w \<or>
     (\<exists>u \<in> set (tw_users w). tu_id u = uid \<and> tu_role u = ''customer'' \<and>
        device_tag_steve api i name (device_tag_parent u) (tw_steve w) = ((pk, active), tw_steve w')))"
  proof (cases "find (\<lambda>u. tu_id u = uid) (tw_users w)")
    case None
    then show ?thesis using run by (auto simp: ensureDeviceTag_def Let_def split: if_splits)
  next
    case (Some u)
    show ?thesis
    proof (cases "di_user io \<and> tu_role u = ''customer''")
      case False
      then show ?thesis using run Some by (auto simp: ensureDeviceTag_def Let_def split: if_splits)
    next
      case True
      obtain s where s: "device_tag_steve api i name (device_tag_parent u) (tw_steve w) = ((pk, active), s)"
        and w': "w' = device_tag_row io i dev uid name (device_tag_parent u) pk active (w\<lparr>tw_steve := s\<rparr>)"
        using run Some True i by (auto simp: ensureDeviceTag_def Let_def split: prod.splits)
      have "w' = w\<lparr>tw_steve := s\<rparr>" unfolding w' by (rule device_tag_row_new) (use new in simp)
      then show ?thesis using s find_Some_set [OF Some] True by auto
    qed
  qed
  then show "tw_mappings w' = tw_mappings w"
    "tw_steve w' = tw_steve w \<or>
     (\<exists>u \<in> set (tw_users w). tu_id u = uid \<and> tu_role u = ''customer'' \<and>
        device_tag_steve api i name (device_tag_parent u) (tw_steve w) = ((pk, active), tw_steve w'))"
    by blast+
qed

lemma device_tag_steve_tags:
  assumes up: "steve_up api tags" and run: "device_tag_steve api i name parent s = ((pk, active), s')"
    and new: "i \<notin> idTag ` set (tags s)"
  shows "pk = None \<and> tags s' = tags s \<or>
    (\<exists>t. tags s' = tags s @ [t] \<and> idTag t = i \<and> pk = Some (ocppTagPk t) \<and> parentIdTag t = parent \<and> maxActiveTransactionCount t = Some 1)"
proof -
  have "filter (\<lambda>t. idTag t = i) (tags s) = []" using new by (auto simp: filter_empty_conv)
  then have c: "fst (sv_create api i (tag_note ''ExpressCharge device'' name) 1 parent s) = pk"
      "snd (sv_create api i (tag_note ''ExpressCharge device'' name) 1 parent s) = s'"
    using run by (auto simp: device_tag_steve_def steve_upD(1) [OF up] split: prod.splits)
  show ?thesis
  proof (rule steve_up_create [OF up new, of "tag_note ''ExpressCharge device'' name" 1 parent], goal_cases)
    case 1
    then show ?case using c by simp
  next
    case (2 k t)
    then show ?case using c by auto
  qed
qed

text \<open>
  Deregistering a phone does not disable its tag. For a phone that got a new tag, no row of
  \<open>user_mappings\<close> is written, because the insert gives a tag type the table's check refuses and the
  failure is swallowed; \<open>revokeDeviceTag\<close>, which looks for the rows of the device, then sends nothing
  to StEvE, and the tag keeps its limit of one transaction.
\<close>

theorem deregistered_phone_keeps_tag:
  assumes "steve_up api tags"
    and "ensureDeviceTag api io dev uid pid name w = (Some (i, Some k, active), w')"
    and "i \<notin> idTag ` set (tags (tw_steve w))"
    and "k \<notin> steveOcppTagPk ` set (tw_mappings w)" and "\<forall>m \<in> set (tw_mappings w). mt_deviceId m \<noteq> Some dev"
  shows "tw_mappings w' = tw_mappings w \<and> revokeDeviceTag api look row dev w' = w' \<and>
    (\<exists>t \<in> set (tags (tw_steve (revokeDeviceTag api look row dev w'))). idTag t = i \<and> maxActiveTransactionCount t = Some 1)"
proof -
  have "\<forall>k'. Some k = Some k' \<longrightarrow> k' \<notin> steveOcppTagPk ` set (tw_mappings w)" using assms(4) by simp
  note e = ensureDeviceTag_new [OF assms(2) this]
  have none: "filter (\<lambda>m. mt_deviceId m = Some dev) (tw_mappings w') = []"
    using e(2) assms(5) by (auto simp: filter_empty_conv)
  then have same: "revokeDeviceTag api look row dev w' = w'" by (simp add: revokeDeviceTag_def)
  have "\<exists>u. device_tag_steve api i name (device_tag_parent u) (tw_steve w) = ((Some k, active), tw_steve w')"
    using assms(2) e(1) by (auto simp: ensureDeviceTag_def Let_def split: if_splits option.splits prod.splits)
  then obtain u where "device_tag_steve api i name (device_tag_parent u) (tw_steve w) = ((Some k, active), tw_steve w')" ..
  from device_tag_steve_tags [OF assms(1) this assms(3)] show ?thesis
    using same e(2) by auto
qed

section \<open>Sessions of a phone\<close>

lemma insert_mapping_users [simp]: "tw_users (insert_mapping m w) = tw_users w"
  by (simp add: insert_mapping_def Let_def)

lemma update_mapping_users [simp]: "tw_users (update_mapping k f w) = tw_users w"
  by (simp add: update_mapping_def)

lemma meta_tag_row_users [simp]: "tw_users (meta_tag_row io i ext name sub pk w) = tw_users w"
  by (simp add: meta_tag_row_def Let_def split: option.split)

lemma cleanup_users [simp]: "tw_users (cleanup_legacy api io i old w) = tw_users w"
  by (simp add: cleanup_legacy_def Let_def split: option.split list.split)

lemma fold_cleanup_users [simp]: "tw_users (fold (cleanup_legacy api io i) olds w) = tw_users w"
  by (induction olds arbitrary: w) simp_all

lemma ensure_users:
  assumes "ensureCustomerMetaTag api io ext name w = (r, w')"
  shows "tw_users w' = tw_users w"
proof (cases "mi_user io")
  case True
  have "tw_users (snd (ensureCustomerMetaTag api io ext name w)) = tw_users w"
    using True by (simp add: ensureCustomerMetaTag_def Let_def split: prod.split)
  then show ?thesis using assms by simp
qed (use assms in \<open>simp add: ensureCustomerMetaTag_def\<close>)

lemma no_ancestors:
  assumes "p \<notin> idTag ` set all \<or> p = idTag t" "parentIdTag t = Some p"
  shows "getAllAncestorTags t all = []"
proof -
  have "find (\<lambda>x. idTag x = p) all = None" if "p \<notin> idTag ` set all"
    unfolding find_None_set using that by force
  then show ?thesis
    unfolding getAllAncestorTags_def ancestor_loop.simps [of all "[idTag t]" t] assms(2) option.case
    by (cases "p = idTag t") (use assms(1) in simp_all)
qed

lemma unmapped_lookup:
  assumes rows: "\<forall>m \<in> set ms. steveOcppIdTag m \<noteq> i"
    and anc: "\<forall>t \<in> set all. idTag t = i \<longrightarrow> getAllAncestorTags t all = []"
  shows "map_of (buildMappingLookupWithInheritance ms all) i = None"
proof -
  have d: "map_of (direct_lookup ms) i = None"
    unfolding direct_lookup_def map_from_None using rows by auto
  have "resolveMappingWithInheritance i (direct_lookup ms) all = None"
  proof (cases "find (\<lambda>t. idTag t = i) all")
    case (Some t)
    then have "getAllAncestorTags t all = []" using find_Some_set [OF Some] anc by blast
    then show ?thesis using d Some by (simp add: resolveMappingWithInheritance_def)
  qed (simp add: resolveMappingWithInheritance_def d)
  then show ?thesis using d by (simp add: mapping_lookup_at)
qed

text \<open>
  A phone's tag is billed to nobody. Once the parent tag of a customer has taken over the older
  formats, the tag minted for a new phone of the customer hangs below a name that is no longer in
  StEvE, and it has no mapping of its own: the lookup table of a sync run has no entry for it, so
  that the sessions it starts are not billed, although the customer's parent tag has its mapping.
\<close>

theorem phone_tag_unbilled:
  assumes "steve_up api tags" "keyed_tags (tags (tw_steve w))" "distinct (map tu_id (tw_users w))"
    and "find (\<lambda>u. tu_lagoCustomer u = Some ext) (tw_users w) = Some u"
    and "ensureCustomerMetaTag api io ext name w = (Some r, w1)"
    and "ensureDeviceTag api io' dev (tu_id u) (tu_publicId u) label w1 = (Some (i, pk, active), w2)"
    and "i \<notin> idTag ` set (tags (tw_steve w1))" "\<forall>m \<in> set (tw_mappings w1). steveOcppIdTag m \<noteq> i"
    and "\<forall>k. pk = Some k \<longrightarrow> k \<notin> steveOcppTagPk ` set (tw_mappings w1)"
  shows "map_of (buildMappingLookupWithInheritance (map user_mapping.truncate (tw_mappings w2)) (tags (tw_steve w2))) i = None"
proof -
  let ?e = "parentIdTagFor ext" and ?meta = "parentIdTagForUserPublicId (tu_publicId u)"
  obtain ts where "tags (tw_steve w1) = fold (adopted ?meta) [?e, legacyOcppParentIdTagForUserPublicId (tu_publicId u)] ts"
    using ensure_tags [OF assms(1,2,4,5)] by metis
  then have gone: "?e \<notin> idTag ` set (tags (tw_steve w1))" by (simp add: adopted_ids)
  note e = ensureDeviceTag_new [OF assms(6,9)]
  have u: "u \<in> set (tw_users w)" "tu_lagoCustomer u = Some ext" using find_Some_set [OF assms(4)] by simp_all
  have rows: "\<forall>m \<in> set (map user_mapping.truncate (tw_mappings w2)). steveOcppIdTag m \<noteq> i"
    using e(2) assms(8) by (auto simp: user_mapping.defs)
  have "tags (tw_steve w2) = tags (tw_steve w1) \<or>
    (\<exists>t. tags (tw_steve w2) = tags (tw_steve w1) @ [t] \<and> idTag t = i \<and> parentIdTag t = device_tag_parent u)"
    using e(3)
  proof
    assume "\<exists>x \<in> set (tw_users w1). tu_id x = tu_id u \<and> tu_role x = ''customer'' \<and>
        device_tag_steve api i label (device_tag_parent x) (tw_steve w1) = ((pk, active), tw_steve w2)"
    then obtain x where x: "x \<in> set (tw_users w)" "tu_id x = tu_id u"
        "device_tag_steve api i label (device_tag_parent x) (tw_steve w1) = ((pk, active), tw_steve w2)"
      unfolding ensure_users [OF assms(5)] by blast
    have "x = u" using x(1,2) u(1) assms(3) by (auto simp: distinct_map dest: inj_onD)
    then show ?thesis using device_tag_steve_tags [OF assms(1) x(3) assms(7)] by blast
  qed simp
  moreover have "device_tag_parent u = (if ext = [] then None else Some ?e)"
    using u(2) by (simp add: device_tag_parent_def truthy_def)
  moreover have old: "\<forall>x \<in> set (tags (tw_steve w1)). idTag x \<noteq> i" using assms(7) by force
  ultimately have "\<forall>t \<in> set (tags (tw_steve w2)). idTag t = i \<longrightarrow> getAllAncestorTags t (tags (tw_steve w2)) = []"
  proof (elim disjE exE conjE, goal_cases)
    case 1
    then show ?case by simp
  next
    case (2 t)
    then have "getAllAncestorTags t (tags (tw_steve w2)) = []"
      using gone no_ancestors [of ?e "tags (tw_steve w2)" t]
      by (cases "ext = []") (auto simp: getAllAncestorTags_def ancestor_loop.simps)
    then show ?case using 2 old by simp
  qed
  then show ?thesis by (rule unmapped_lookup [OF rows])
qed

section \<open>The length of a phone's tag\<close>

text \<open>
  A phone's tag never fits StEvE's limit. With a public id of eight characters and the key of a
  device that has at least six characters beside its dashes, the tag has 22 characters, two more
  than the 20 the code means to stay under; the parent tag has 13.
\<close>

theorem phone_tag_length:
  assumes "length pid = 8" "6 \<le> length (filter (\<lambda>c. c \<noteq> CHR ''-'') dev)"
  shows "length (deviceIdTagFor pid dev) = 22 \<and> length (parentIdTagForUserPublicId pid) = 13
    \<and> isMetaTag (Some (parentIdTagForUserPublicId pid)) \<and> \<not> isMetaTag (Some (deviceIdTagFor pid dev))"
  using assms
  by (simp add: deviceIdTagFor_def DEVICE_TAG_PREFIX_def to_upper_def parentIdTagForUserPublicId_def isMetaTag_def starts_with_def)

section \<open>Example\<close>

text \<open>A StEvE that keeps a list of tags and gives each new one the next free key.\<close>

definition fresh_pk :: "ocpp_tag list \<Rightarrow> int" where
  "fresh_pk ts = foldr max (map ocppTagPk ts) 0 + 1"

definition list_steve :: "ocpp_tag list steve_api" where
  "list_steve = \<lparr>sv_get = (\<lambda>i ts. Some (filter (\<lambda>t. idTag t = i) ts)),
     sv_children = (\<lambda>p ts. Some (filter (\<lambda>t. parentIdTag t = Some p) ts)),
     sv_create = (\<lambda>i n l p ts.
       if i \<in> idTag ` set ts \<or> (p \<noteq> None \<and> the p \<notin> idTag ` set ts) then (None, ts)
       else (Some (fresh_pk ts), ts @ [(tag_of i p)\<lparr>ocppTagPk := fresh_pk ts, tagNote := Some n, maxActiveTransactionCount := Some l\<rparr>])),
     sv_update = (\<lambda>t ts. (True, map (\<lambda>x. if ocppTagPk x = ocppTagPk t then t else x) ts)),
     sv_delete = (\<lambda>k ts. (True, filter (\<lambda>x. ocppTagPk x \<noteq> k) ts))\<rparr>"

lemma fresh_pk: "fresh_pk ts \<notin> ocppTagPk ` set ts"
proof -
  have "t \<in> set ts \<Longrightarrow> ocppTagPk t \<le> foldr max (map ocppTagPk ts) 0" for t
    by (induction ts) auto
  then show ?thesis by (force simp: fresh_pk_def)
qed

lemma list_steve_up: "steve_up list_steve id"
  by (auto simp: steve_up_def list_steve_def fresh_pk tag_of_def)

definition anna :: tag_user where
  "anna = \<lparr>tu_id = ''anna'', tu_publicId = ''ABCDEFGH'', tu_role = ''customer'', tu_lagoCustomer = Some ''c1''\<rparr>"

text \<open>Anna's card hangs below the oldest format of her parent tag.\<close>

definition anna_world :: "ocpp_tag list tag_world" where
  "anna_world = \<lparr>tw_steve = [(tag_of ''OCPP-c1'' None)\<lparr>ocppTagPk := 1\<rparr>, (tag_of ''CARD1'' (Some ''OCPP-c1''))\<lparr>ocppTagPk := 2\<rparr>],
     tw_mappings = [], tw_nextId = 1, tw_users = [anna]\<rparr>"

definition anna_io :: meta_io where
  "anna_io = \<lparr>mi_user = True, mi_subs = Some [\<lparr>sub_external_id = ''s1'', sub_lago_id = ''l1'', sub_name = None,
     sub_status = ''active'', sub_plan_code = ''standard''\<rparr>], mi_row = True, mi_legacy = True\<rparr>"

definition anna_moved :: "ocpp_tag list tag_world" where
  "anna_moved = snd (ensureCustomerMetaTag list_steve anna_io ''c1'' None anna_world)"

lemma anna_facts:
  "find (\<lambda>u. tu_lagoCustomer u = Some ''c1'') (tw_users anna_world) = Some anna"
  "mr_ocppTagPk (the (fst (ensureCustomerMetaTag list_steve anna_io ''c1'' None anna_world))) = Some 3"
  "\<not> Option.is_none (fst (ensureCustomerMetaTag list_steve anna_io ''c1'' None anna_world))"
  "map (\<lambda>t. (idTag t, parentIdTag t, maxActiveTransactionCount t)) (tw_steve anna_moved) =
     [(''CARD1'', Some ''META-ABCDEFGH'', None), (''META-ABCDEFGH'', None, Some 1)]"
  "map (\<lambda>m. (steveOcppIdTag m, isActive m, lagoSubscriptionExternalId m)) (tw_mappings anna_moved) =
     [(''META-ABCDEFGH'', True, Some ''s1'')]"
  by code_simp+

lemma anna_keyed: "keyed_tags (id (tw_steve anna_world))"
  by (simp add: keyed_tags_def anna_world_def tag_of_def)

lemma anna_run:
  "ensureCustomerMetaTag list_steve anna_io ''c1'' None anna_world =
     (Some (the (fst (ensureCustomerMetaTag list_steve anna_io ''c1'' None anna_world))), anna_moved)"
  using anna_facts(3) by (simp add: anna_moved_def prod_eq_iff Option.is_none_def)

theorem meta_tag_adopts_children_witness:
  "\<exists>t' \<in> set (tw_steve anna_moved). idTag t' = ''CARD1'' \<and> parentIdTag t' = Some ''META-ABCDEFGH''"
proof -
  let ?card = "(tag_of ''CARD1'' (Some ''OCPP-c1''))\<lparr>ocppTagPk := 2\<rparr>"
  have c: "?card \<in> set (id (tw_steve anna_world))" "''OCPP-c1'' \<in> idTag ` set (id (tw_steve anna_world))"
    by (simp_all add: anna_world_def tag_of_def)
  have n: "parentIdTagFor ''c1'' = ''OCPP-c1''" "legacyOcppParentIdTagForUserPublicId (tu_publicId anna) = ''OCPP-ABCDEFGH''"
    "parentIdTagForUserPublicId (tu_publicId anna) = ''META-ABCDEFGH''"
    by code_simp+
  have p: "idTag ?card \<notin> {''OCPP-c1'', ''OCPP-ABCDEFGH''} \<and> idTag ?card \<noteq> ''META-ABCDEFGH''"
    "idTag ?card = ''CARD1''" "parentIdTag ?card = Some ''OCPP-c1''"
    by (simp_all add: tag_of_def)
  from meta_tag_adopts_children [OF list_steve_up anna_keyed anna_facts(1) anna_run refl refl,
      THEN conjunct2, THEN conjunct2, THEN bspec, OF c(1), unfolded n, THEN mp, OF p(1)]
  show ?thesis unfolding p(2,3) id_apply using c(2) by (simp add: id_def)
qed

text \<open>A StEvE that takes a tag without looking for its parent.\<close>

definition lax_steve :: "ocpp_tag list steve_api" where
  "lax_steve = list_steve\<lparr>sv_create := (\<lambda>i n l p ts.
     if i \<in> idTag ` set ts then (None, ts)
     else (Some (fresh_pk ts), ts @ [(tag_of i p)\<lparr>ocppTagPk := fresh_pk ts, tagNote := Some n, maxActiveTransactionCount := Some l\<rparr>]))\<rparr>"

lemma lax_steve_up: "steve_up lax_steve id"
  by (auto simp: steve_up_def lax_steve_def list_steve_def fresh_pk tag_of_def)

definition phone_key :: string where "phone_key = ''0A1B2C3D-0000-4000-8000-000000000001''"

definition phone_tagged :: "(string \<times> int option \<times> bool) option \<times> ocpp_tag list tag_world" where
  "phone_tagged = ensureDeviceTag lax_steve \<lparr>di_user = True, di_row = True\<rparr> phone_key ''anna'' ''ABCDEFGH'' (Some ''iPhone'') anna_moved"

lemma phone_tagged_run:
  "ensureDeviceTag lax_steve \<lparr>di_user = True, di_row = True\<rparr> phone_key ''anna'' ''ABCDEFGH'' (Some ''iPhone'') anna_moved =
     (Some (''OCPP-D-ABCDEFGH-0A1B2C'', Some 4, True), snd phone_tagged)"
proof -
  have "fst phone_tagged = Some (''OCPP-D-ABCDEFGH-0A1B2C'', Some 4, True)" by code_simp
  then show ?thesis by (metis phone_tagged_def prod.collapse)
qed

lemma phone_new:
  "''OCPP-D-ABCDEFGH-0A1B2C'' \<notin> idTag ` set (tw_steve anna_moved)" "4 \<notin> steveOcppTagPk ` set (tw_mappings anna_moved)"
  "\<forall>m \<in> set (tw_mappings anna_moved). mt_deviceId m \<noteq> Some phone_key \<and> steveOcppIdTag m \<noteq> ''OCPP-D-ABCDEFGH-0A1B2C''"
  by code_simp+

theorem deregistered_phone_keeps_tag_witness:
  "\<exists>t \<in> set (tw_steve (revokeDeviceTag lax_steve True True phone_key (snd phone_tagged))).
     idTag t = ''OCPP-D-ABCDEFGH-0A1B2C'' \<and> maxActiveTransactionCount t = Some 1"
proof -
  have "''OCPP-D-ABCDEFGH-0A1B2C'' \<notin> idTag ` set (id (tw_steve anna_moved))" "\<forall>m \<in> set (tw_mappings anna_moved). mt_deviceId m \<noteq> Some phone_key"
    using phone_new by simp_all
  from deregistered_phone_keeps_tag [OF lax_steve_up phone_tagged_run this(1) phone_new(2) this(2), of True True]
  show ?thesis unfolding id_apply by (elim conjE)
qed

theorem phone_tag_unbilled_witness:
  "map_of (buildMappingLookupWithInheritance (map user_mapping.truncate (tw_mappings (snd phone_tagged))) (tw_steve (snd phone_tagged)))
     ''OCPP-D-ABCDEFGH-0A1B2C'' = None"
proof -
  have run: "ensureCustomerMetaTag lax_steve anna_io ''c1'' None anna_world =
      (Some (the (fst (ensureCustomerMetaTag lax_steve anna_io ''c1'' None anna_world))), anna_moved)"
  proof -
    have "\<not> Option.is_none (fst (ensureCustomerMetaTag lax_steve anna_io ''c1'' None anna_world)) \<and>
        tw_steve (snd (ensureCustomerMetaTag lax_steve anna_io ''c1'' None anna_world)) = tw_steve anna_moved \<and>
        tw_mappings (snd (ensureCustomerMetaTag lax_steve anna_io ''c1'' None anna_world)) = tw_mappings anna_moved \<and>
        tw_nextId (snd (ensureCustomerMetaTag lax_steve anna_io ''c1'' None anna_world)) = tw_nextId anna_moved \<and>
        tw_users (snd (ensureCustomerMetaTag lax_steve anna_io ''c1'' None anna_world)) = tw_users anna_moved"
      by code_simp
    then show ?thesis by (cases "ensureCustomerMetaTag lax_steve anna_io ''c1'' None anna_world") (auto simp: Option.is_none_def)
  qed
  have d: "distinct (map tu_id (tw_users anna_world))" by code_simp
  have a: "tu_id anna = ''anna''" "tu_publicId anna = ''ABCDEFGH''" by (simp_all add: anna_def)
  from phone_tag_unbilled [OF lax_steve_up anna_keyed d anna_facts(1) run, unfolded a, OF phone_tagged_run]
  show ?thesis using phone_new by simp
qed

theorem phone_tag_length_witness:
  "length (deviceIdTagFor ''ABCDEFGH'' phone_key) = 22"
proof -
  have "length ''ABCDEFGH'' = 8" "6 \<le> length (filter (\<lambda>c. c \<noteq> CHR ''-'') phone_key)" by code_simp+
  from phone_tag_length [OF this] show ?thesis by simp
qed

end
