(* ===== verification/Registration.thy ===== *)
theory Registration
  imports Access MetaTags
begin

text \<open>
  How a phone becomes a device: the one-time code of the operator's page
  (\<open>routes/admin/app/register.tsx\<close>, \<open>src/lib/devices/registration.ts\<close>), its exchange for a token
  (\<open>routes/api/devices/register.ts\<close>), the sign-in with a customer's card
  (\<open>routes/api/auth/qr-sign-in.ts\<close>) and the end of a device (\<open>routes/api/devices/[deviceId].ts\<close>,
  \<open>routes/api/admin/devices/[deviceId]/deregister.ts\<close>). The digest SHA-256 is an argument,
  random bytes and database keys come with the outcomes of the statements.
\<close>

unbundle bit_operations_syntax

section \<open>Encodings\<close>

definition base64UrlEncode :: "nat list \<Rightarrow> string" where
  "base64UrlEncode bytes = strip_padding (map url_safe (btoa bytes))"

definition hex_digit :: "nat \<Rightarrow> char" where
  "hex_digit n = ''0123456789abcdef'' ! n"

definition sha256Hex :: "(string \<Rightarrow> nat list) \<Rightarrow> string \<Rightarrow> string" where
  "sha256Hex digest s = concat (map (\<lambda>b. [hex_digit (b div 16), hex_digit (b mod 16)]) (digest s))"

definition sha256Base64Url :: "(string \<Rightarrow> nat list) \<Rightarrow> string \<Rightarrow> string" where
  "sha256Base64Url digest s = base64UrlEncode (digest s)"

text \<open>The comparison that always reads both texts to their end.\<close>

definition constantTimeEqual :: "string \<Rightarrow> string \<Rightarrow> bool" where
  "constantTimeEqual a b =
     (if length a \<noteq> length b then False
      else foldl (\<lambda>diff (x, y). diff OR (of_char x XOR of_char y)) (0 :: nat) (zip a b) = 0)"

section \<open>One-time codes\<close>

definition ONE_TIME_CODE_TTL_SEC :: int where "ONE_TIME_CODE_TTL_SEC = 60"
definition DEVICE_TOKEN_TTL_MS :: int where "DEVICE_TOKEN_TTL_MS = 365 * 24 * 60 * 60 * 1000"

text \<open>A row of the verifications table that holds a code, with its decoded value.\<close>

record code_row =
  oc_id :: string
  oc_identifier :: string
  oc_codeChallenge :: string
  oc_userId :: string
  oc_label :: string
  oc_capabilities :: "string list"
  oc_consumed :: bool
  oc_mintedAt :: int
  oc_expiresAt :: int
  oc_updatedAt :: int

record registry =
  rg_codes :: "code_row list"
  rg_store :: token_store
  rg_users :: "(string \<times> string \<times> string) list"
  rg_revoked :: "(string \<times> string \<times> string) list"

text \<open>The users are triples of key, public identifier and role; the revocations are events of device, token and reason.\<close>

definition one_time_identifier :: "string \<Rightarrow> string \<Rightarrow> string" where
  "one_time_identifier user hash = ''expresscan-register:'' @ user @ '':'' @ hash"

definition mintOneTimeCode ::
  "(string \<Rightarrow> nat list) \<Rightarrow> bool \<Rightarrow> int \<Rightarrow> nat list \<Rightarrow> string \<Rightarrow> string \<Rightarrow> string \<Rightarrow> string \<Rightarrow> string list \<Rightarrow> registry
     \<Rightarrow> string option \<times> registry"
where
  "mintOneTimeCode digest stored now bytes row_id user challenge label caps g =
     (let raw = base64UrlEncode bytes in
      if \<not> stored \<or> row_id \<in> oc_id ` set (rg_codes g) then (None, g)
      else (Some raw, g\<lparr>rg_codes := rg_codes g @
        [\<lparr>oc_id = row_id, oc_identifier = one_time_identifier user (sha256Hex digest raw), oc_codeChallenge = challenge,
          oc_userId = user, oc_label = label, oc_capabilities = caps, oc_consumed = False, oc_mintedAt = now,
          oc_expiresAt = now + ONE_TIME_CODE_TTL_SEC * 1000, oc_updatedAt = now\<rparr>]\<rparr>))"

text \<open>The lookup of a code and the proof of the verifier.\<close>

definition claim_lookup :: "(string \<Rightarrow> nat list) \<Rightarrow> bool \<Rightarrow> int \<Rightarrow> string \<Rightarrow> string \<Rightarrow> registry \<Rightarrow> code_row option" where
  "claim_lookup digest found now raw verifier g =
     (if raw = [] \<or> verifier = [] then None
      else if length raw > 256 \<or> length verifier > 256 then None
      else if length verifier < 43 then None
      else if \<not> found then None
      else case find (\<lambda>r. sql_like (''expresscan-register:%:'' @ sha256Hex digest raw) (oc_identifier r) \<and> oc_expiresAt r > now)
                     (rg_codes g) of
        None \<Rightarrow> None
      | Some r \<Rightarrow>
          if oc_consumed r then None
          else if \<not> constantTimeEqual (sha256Base64Url digest verifier) (oc_codeChallenge r) then None
          else Some r)"

text \<open>The update that consumes the row, if it is still armed.\<close>

definition claim_commit :: "bool \<Rightarrow> int \<Rightarrow> code_row \<Rightarrow> registry \<Rightarrow> bool \<times> registry" where
  "claim_commit updated now r g =
     (if \<not> updated then (False, g)
      else let hit = (\<lambda>x. oc_id x = oc_id r \<and> oc_expiresAt x > now \<and> \<not> oc_consumed x) in
        (length (filter hit (rg_codes g)) = 1,
         g\<lparr>rg_codes := map (\<lambda>x. if hit x then x\<lparr>oc_consumed := True, oc_updatedAt := now\<rparr> else x) (rg_codes g)\<rparr>))"

record claimed =
  cl_userId :: string
  cl_label :: string
  cl_requestedCapabilities :: "string list"

definition claimOneTimeCode ::
  "(string \<Rightarrow> nat list) \<Rightarrow> bool \<Rightarrow> bool \<Rightarrow> int \<Rightarrow> string \<Rightarrow> string \<Rightarrow> registry \<Rightarrow> claimed option \<times> registry"
where
  "claimOneTimeCode digest found updated now raw verifier g =
     (case claim_lookup digest found now raw verifier g of
        None \<Rightarrow> (None, g)
      | Some r \<Rightarrow> (case claim_commit updated now r g of
          (won, g') \<Rightarrow> (if won then Some \<lparr>cl_userId = oc_userId r, cl_label = oc_label r, cl_requestedCapabilities = oc_capabilities r\<rparr>
                        else None, g')))"

text \<open>The operator's page: only for admins, with a well-formed challenge.\<close>

definition isValidChallenge :: "string \<Rightarrow> bool" where
  "isValidChallenge c \<longleftrightarrow> 43 \<le> length c \<and> length c \<le> 128 \<and>
     (\<forall>x \<in> set c. is_digit x \<or> x \<in> set ''ABCDEFGHIJKLMNOPQRSTUVWXYZabcdefghijklmnopqrstuvwxyz_-'')"

datatype page_reply = Missing_admin | Invalid_challenge | Mint_failed | Callback string

definition register_page_GET ::
  "(string \<Rightarrow> nat list) \<Rightarrow> bool \<Rightarrow> int \<Rightarrow> nat list \<Rightarrow> string \<Rightarrow> (string \<times> string) option \<Rightarrow> string option \<Rightarrow> string option
     \<Rightarrow> registry \<Rightarrow> page_reply \<times> registry"
where
  "register_page_GET digest stored now bytes row_id user challenge label g =
     (case user of None \<Rightarrow> (Missing_admin, g)
      | Some (uid, role) \<Rightarrow>
          if role \<noteq> ''admin'' then (Missing_admin, g)
          else
            let c = js_trim (case challenge of None \<Rightarrow> [] | Some s \<Rightarrow> s);
                l = js_trim (take 120 (case label of None \<Rightarrow> [] | Some s \<Rightarrow> s));
                l' = (if l = [] then ''iPhone'' else l) in
            if \<not> isValidChallenge c then (Invalid_challenge, g)
            else case mintOneTimeCode digest stored now bytes row_id uid c l' [''scanner''] g of
              (None, g') \<Rightarrow> (Mint_failed, g')
            | (Some raw, g') \<Rightarrow> (Callback raw, g'))"

section \<open>Tokens\<close>

record credentials =
  cd_deviceToken :: string
  cd_deviceTokenHash :: string
  cd_deviceSecret :: string

definition generateDeviceCredentials :: "(string \<Rightarrow> nat list) \<Rightarrow> nat list \<Rightarrow> nat list \<Rightarrow> credentials" where
  "generateDeviceCredentials digest token_bytes secret_bytes =
     (let token = ''dev_'' @ base64UrlEncode token_bytes in
      \<lparr>cd_deviceToken = token, cd_deviceTokenHash = sha256Hex digest token, cd_deviceSecret = base64UrlEncode secret_bytes\<rparr>)"

text \<open>
  The columns a phone sends; \<open>rx_\<close> are the outcomes of the statements with the keys and the random
  bytes they use.
\<close>

record phone_info =
  ph_label :: string
  ph_platform :: string
  ph_model :: string
  ph_osVersion :: string
  ph_appVersion :: string
  ph_pushToken :: "string option"
  ph_apnsEnvironment :: string

record registration_io =
  rx_now :: int
  rx_found :: bool
  rx_claimed :: bool
  rx_insertDevice :: bool
  rx_insertToken :: bool
  rx_rollback :: bool
  rx_deviceId :: string
  rx_tokenId :: string
  rx_tokenBytes :: "nat list"
  rx_secretBytes :: "nat list"

definition new_device :: "registration_io \<Rightarrow> string \<Rightarrow> string list \<Rightarrow> phone_info \<Rightarrow> device_entry" where
  "new_device io owner caps ph =
     \<lparr>de_id = rx_deviceId io, de_kind = ''phone_nfc'', de_label = take 120 (ph_label ph), de_ownerUserId = owner,
      de_capabilities = Some caps, de_platform = ph_platform ph, de_model = ph_model ph, de_osVersion = ph_osVersion ph,
      de_appVersion = ph_appVersion ph, de_pushToken = ph_pushToken ph, de_apnsEnvironment = Some (ph_apnsEnvironment ph),
      de_lastSeenAt = None, de_lastStatus = None, de_registeredAt = rx_now io, de_deletedAt = None, de_revokedAt = None,
      de_revokedByUserId = None, de_location = None\<rparr>"

text \<open>
  The constraints of the table: a fresh key, an owner that exists, an environment the check allows, no
  charger among the capabilities, and a kiosk with exactly one of scanner and user.
\<close>

definition device_allowed :: "registry \<Rightarrow> device_entry \<Rightarrow> bool" where
  "device_allowed g d \<longleftrightarrow>
     de_id d \<notin> de_id ` set (ts_devices (rg_store g)) \<and> de_ownerUserId d \<in> fst ` set (rg_users g)
     \<and> (case de_apnsEnvironment d of None \<Rightarrow> True | Some e \<Rightarrow> e \<in> {''sandbox'', ''production''})
     \<and> (let c = (case de_capabilities d of None \<Rightarrow> [] | Some c \<Rightarrow> c) in
        ''tap'' \<notin> set c \<and> ''ev'' \<notin> set c \<and> ''charger'' \<notin> set c
        \<and> (''kiosk'' \<in> set c \<longrightarrow> (''scanner'' \<in> set c) \<noteq> (''user'' \<in> set c)))"

definition token_allowed :: "registry \<Rightarrow> token_row \<Rightarrow> bool" where
  "token_allowed g t \<longleftrightarrow>
     tk_id t \<notin> tk_id ` set (ts_tokens (rg_store g)) \<and> tk_tokenHash t \<notin> tk_tokenHash ` set (ts_tokens (rg_store g))
     \<and> tk_deviceId t \<in> de_id ` set (ts_devices (rg_store g))"

definition new_token :: "registration_io \<Rightarrow> credentials \<Rightarrow> token_row" where
  "new_token io c =
     \<lparr>tk_id = rx_tokenId io, tk_deviceId = rx_deviceId io, tk_tokenHash = cd_deviceTokenHash c, tk_secret = cd_deviceSecret c,
      tk_expiresAt = rx_now io + DEVICE_TOKEN_TTL_MS, tk_revokedAt = None, tk_lastUsedAt = None\<rparr>"

text \<open>
  The device row, then the token row; when the token row fails the device row is removed again.
  The result is \<open>None\<close> for the reply 500.
\<close>

definition put_devices :: "device_entry list \<Rightarrow> registry \<Rightarrow> registry" where
  "put_devices ds g = g\<lparr>rg_store := (rg_store g)\<lparr>ts_devices := ds\<rparr>\<rparr>"

definition put_tokens :: "token_row list \<Rightarrow> registry \<Rightarrow> registry" where
  "put_tokens ts g = g\<lparr>rg_store := (rg_store g)\<lparr>ts_tokens := ts\<rparr>\<rparr>"

definition insert_device ::
  "(string \<Rightarrow> nat list) \<Rightarrow> registration_io \<Rightarrow> string \<Rightarrow> string list \<Rightarrow> phone_info \<Rightarrow> registry
     \<Rightarrow> (device_entry \<times> token_row \<times> credentials) option \<times> registry"
where
  "insert_device digest io owner caps ph g =
     (let c = generateDeviceCredentials digest (rx_tokenBytes io) (rx_secretBytes io);
          d = new_device io owner caps ph; t = new_token io c in
      if \<not> rx_insertDevice io \<or> \<not> device_allowed g d then (None, g)
      else
        let g1 = put_devices (ts_devices (rg_store g) @ [d]) g in
        if \<not> rx_insertToken io \<or> \<not> token_allowed g1 t
        then (None, if rx_rollback io then put_devices (filter (\<lambda>x. de_id x \<noteq> de_id d) (ts_devices (rg_store g1))) g1 else g1)
        else (Some (d, t, c), put_tokens (ts_tokens (rg_store g1) @ [t]) g1))"

section \<open>Registration\<close>

record register_body =
  rb_oneTimeCode :: string
  rb_codeVerifier :: string
  rb_phone :: phone_info
  rb_requestedCapabilities :: "string list"

text \<open>The schema of the body; \<open>Inl\<close> is the reason of the reply 400, the first failing field.\<close>

definition between :: "nat \<Rightarrow> nat \<Rightarrow> string \<Rightarrow> bool" where
  "between a b s \<longleftrightarrow> a \<le> length s \<and> length s \<le> b"

definition check_body :: "register_body \<Rightarrow> string option" where
  "check_body b =
     (let ph = rb_phone b; caps = rb_requestedCapabilities b in
      if \<not> between 1 256 (rb_oneTimeCode b) then Some ''invalid_code''
      else if \<not> between 43 256 (rb_codeVerifier b) then Some ''invalid_verifier''
      else if \<not> between 1 120 (ph_label ph) then Some ''invalid_body''
      else if ph_platform ph \<notin> {''ios'', ''macos'', ''ipados''} then Some ''invalid_platform''
      else if \<not> between 1 80 (ph_model ph) \<or> \<not> between 1 40 (ph_osVersion ph) \<or> \<not> between 1 40 (ph_appVersion ph)
              \<or> (case ph_pushToken ph of None \<Rightarrow> False | Some t \<Rightarrow> length t > 512)
              \<or> ph_apnsEnvironment ph \<notin> {''sandbox'', ''production''} then Some ''invalid_body''
      else if caps = [] \<or> length caps > length DEVICE_CAPABILITIES \<or> \<not> set caps \<subseteq> set DEVICE_CAPABILITIES
      then Some ''invalid_capabilities'' else None)"

datatype register_reply =
    Rejected int string
  | Registered string string string "string list" int

definition runRegister ::
  "(string \<Rightarrow> nat list) \<Rightarrow> registration_io \<Rightarrow> register_body \<Rightarrow> registry \<Rightarrow> register_reply \<times> registry"
where
  "runRegister digest io b g =
     (case claimOneTimeCode digest (rx_found io) (rx_claimed io) (rx_now io) (rb_oneTimeCode b) (rb_codeVerifier b) g of
        (None, g1) \<Rightarrow> (Rejected 400 ''invalid_code'', g1)
      | (Some cl, g1) \<Rightarrow>
          (case insert_device digest io (cl_userId cl) (rb_requestedCapabilities b) (rb_phone b) g1 of
             (None, g2) \<Rightarrow> (Rejected 500 ''internal'', g2)
           | (Some (d, t, c), g2) \<Rightarrow>
               (Registered (de_id d) (cd_deviceToken c) (cd_deviceSecret c) (rb_requestedCapabilities b) (tk_expiresAt t), g2)))"

text \<open>The handler inside its idempotency wrapper; \<open>None\<close>: the body is not JSON or not of the schema's shape.\<close>

definition register_handler ::
  "(string \<Rightarrow> nat list) \<Rightarrow> registration_io \<Rightarrow> register_body option \<Rightarrow> registry \<Rightarrow> register_reply http_reply \<times> registry"
where
  "register_handler digest io body g =
     (let reply = (\<lambda>r. \<lparr>hr_status = (case r of Rejected s e \<Rightarrow> s | Registered i t s c x \<Rightarrow> 200), hr_isJson = True, hr_body = Json r\<rparr>) in
      case body of
        None \<Rightarrow> (reply (Rejected 400 ''invalid_body''), g)
      | Some b \<Rightarrow>
          (case check_body b of
             Some reason \<Rightarrow> (reply (Rejected 400 reason), g)
           | None \<Rightarrow> (case runRegister digest io b g of (r, g') \<Rightarrow> (reply r, g'))))"

definition REGISTER_ROUTE :: string where "REGISTER_ROUTE = ''/api/devices/register''"

definition register_POST ::
  "(string \<Rightarrow> nat list) \<Rightarrow> registration_io \<Rightarrow> bool \<Rightarrow> bool \<Rightarrow> string option \<Rightarrow> register_body option
     \<Rightarrow> register_reply idem_row list \<times> registry \<Rightarrow> register_reply http_reply \<times> register_reply idem_row list \<times> registry"
where
  "register_POST digest io look store key body st =
     withIdempotency (Rejected 409) look store (rx_now io) key None REGISTER_ROUTE (register_handler digest io body) st"

section \<open>Signing in with a card\<close>

definition PUBLIC_ID_ALPHABET :: string where
  "PUBLIC_ID_ALPHABET = ''23456789ABCDEFGHJKMNPQRSTVWXYZ''"

definition PUBLIC_ID_LENGTH :: nat where "PUBLIC_ID_LENGTH = 8"

definition isValidPublicId :: "string \<Rightarrow> bool" where
  "isValidPublicId s \<longleftrightarrow> length s = PUBLIC_ID_LENGTH \<and> set s \<subseteq> set PUBLIC_ID_ALPHABET"

definition customerCapabilityDefaults :: "string list" where
  "customerCapabilityDefaults = [''user'']"

datatype sign_in_reply = Denied int string | Signed_in string string string string

text \<open>The fields of the body beside the card, as the schema bounds them.\<close>

definition phone_fits :: "phone_info \<Rightarrow> bool" where
  "phone_fits ph \<longleftrightarrow>
     between 1 120 (ph_label ph) \<and> ph_platform ph \<in> {''ios'', ''macos'', ''ipados''} \<and> between 1 80 (ph_model ph)
     \<and> between 1 40 (ph_osVersion ph) \<and> between 1 40 (ph_appVersion ph)
     \<and> (case ph_pushToken ph of None \<Rightarrow> True | Some t \<Rightarrow> length t \<le> 512) \<and> ph_apnsEnvironment ph \<in> {''sandbox'', ''production''}"

text \<open>
  \<open>rate\<close>: whether the bucket of the card and the address has room; \<open>look\<close>: the query for the user;
  \<open>session\<close>: whether the session library signs the user in; \<open>ensure\<close>: \<open>ensureDeviceTag\<close> on the tags
  \<open>m\<close> of StEvE and their mappings, given the device, the user, the public id and the label.
\<close>

definition qr_sign_in_POST ::
  "(string \<Rightarrow> nat list) \<Rightarrow> registration_io \<Rightarrow> bool \<Rightarrow> bool \<Rightarrow> bool \<Rightarrow> (string \<Rightarrow> string \<Rightarrow> string \<Rightarrow> string \<Rightarrow> 'm \<Rightarrow> 'm)
     \<Rightarrow> surface \<Rightarrow> (string \<times> phone_info) option \<Rightarrow> registry \<times> 'm \<Rightarrow> sign_in_reply \<times> registry \<times> 'm"
where
  "qr_sign_in_POST digest io rate look session ensure s body st =
     (case st of (g, m) \<Rightarrow>
      if s = Admin then (Denied 404 ''not_found'', g, m)
      else case body of
        None \<Rightarrow> (Denied 400 ''invalid_body'', g, m)
      | Some (pid, ph) \<Rightarrow>
          if \<not> (isValidPublicId pid \<and> phone_fits ph) then (Denied 400 ''invalid_body'', g, m)
          else if \<not> rate then (Denied 429 ''rate_limited'', g, m)
          else if \<not> look then (Denied 500 ''internal'', g, m)
          else case find (\<lambda>(i, p, r). p = pid) (rg_users g) of
            None \<Rightarrow> (Denied 404 ''not_found'', g, m)
          | Some (uid, p, role) \<Rightarrow>
              if role \<noteq> ''customer'' then (Denied 404 ''not_found'', g, m)
              else (case insert_device digest io uid customerCapabilityDefaults ph g of
                 (None, g1) \<Rightarrow> (Denied 500 ''internal'', g1, m)
               | (Some (d, t, c), g1) \<Rightarrow>
                   let m1 = ensure (de_id d) uid p (ph_label ph) m in
                   if \<not> session then (Denied 500 ''internal'', g1, m1)
                   else (Signed_in (de_id d) uid (cd_deviceToken c) (cd_deviceSecret c), g1, m1)))"

section \<open>The end of a device\<close>

definition revoke_tokens :: "int \<Rightarrow> (token_row \<Rightarrow> bool) \<Rightarrow> registry \<Rightarrow> registry" where
  "revoke_tokens now p g =
     put_tokens (map (\<lambda>t. if p t then t\<lparr>tk_revokedAt := Some now\<rparr> else t) (ts_tokens (rg_store g))) g"

definition soft_delete :: "int \<Rightarrow> string \<Rightarrow> string \<Rightarrow> registry \<Rightarrow> bool \<times> registry" where
  "soft_delete now dev by g =
     (let hit = (\<lambda>d. de_id d = dev \<and> de_deletedAt d = None) in
      (\<exists>d \<in> set (ts_devices (rg_store g)). hit d,
       put_devices (map (\<lambda>d. if hit d then d\<lparr>de_deletedAt := Some now, de_revokedAt := Some now, de_revokedByUserId := Some by\<rparr>
                            else d) (ts_devices (rg_store g))) g))"

definition uuid_shaped :: "string \<Rightarrow> bool" where
  "uuid_shaped s \<longleftrightarrow> length s = 36 \<and>
     (\<forall>i < 36. if i \<in> {8, 13, 18, 23} then s ! i = CHR ''-'' else hex_value (s ! i) \<noteq> None)"

text \<open>\<open>untag\<close> is \<open>revokeDeviceTag\<close>.\<close>

definition device_DELETE ::
  "int \<Rightarrow> bool \<Rightarrow> bool \<Rightarrow> (string \<Rightarrow> 'm \<Rightarrow> 'm) \<Rightarrow> device_context option \<Rightarrow> string \<Rightarrow> registry \<times> 'm \<Rightarrow> int \<times> registry \<times> 'm"
where
  "device_DELETE now update revoke untag device path st =
     (case st of (g, m) \<Rightarrow>
      case device of None \<Rightarrow> (401, g, m)
      | Some dc \<Rightarrow>
          if \<not> uuid_shaped path then (404, g, m)
          else if dc_id dc \<noteq> path then (403, g, m)
          else if \<not> update then (500, g, m)
          else (case soft_delete now path (dc_ownerUserId dc) g of
             (False, g1) \<Rightarrow> (410, g1, m)
           | (True, g1) \<Rightarrow>
               let g2 = (if revoke then revoke_tokens now (\<lambda>t. tk_deviceId t = path) g1 else g1) in
               (200, g2\<lparr>rg_revoked := rg_revoked g2 @ [(path, dc_tokenId dc, ''self'')]\<rparr>, untag path m)))"

definition sanitizeReason :: "string option \<Rightarrow> string option" where
  "sanitizeReason raw = (case raw of None \<Rightarrow> None | Some s \<Rightarrow> if js_trim s = [] then None else Some (take 500 (js_trim s)))"

text \<open>
  The operator's deregistration; the statements before a failure keep their effect. \<open>raw\<close> is the
  reason of the body, \<open>None\<close> for a body that is no JSON.
\<close>

definition deregister_POST ::
  "int \<Rightarrow> bool \<Rightarrow> bool \<Rightarrow> (string \<Rightarrow> 'm \<Rightarrow> 'm) \<Rightarrow> (string \<times> string) option \<Rightarrow> string \<Rightarrow> string option option
     \<Rightarrow> registry \<times> 'm \<Rightarrow> int \<times> registry \<times> 'm"
where
  "deregister_POST now update revoke untag user dev raw st =
     (case st of (g, m) \<Rightarrow>
      case user of None \<Rightarrow> (401, g, m)
      | Some (uid, role) \<Rightarrow>
          if role \<noteq> ''admin'' then (401, g, m)
          else if length dev < 8 \<or> length dev > 64 then (404, g, m)
          else if raw = None then (400, g, m)
          else if \<not> update then (500, g, m)
          else (case soft_delete now dev uid g of
             (False, g1) \<Rightarrow> (if dev \<in> de_id ` set (ts_devices (rg_store g)) then 409 else 404, g1, m)
           | (True, g1) \<Rightarrow>
               if \<not> revoke then (500, g1, untag dev m)
               else
                 let live = (\<lambda>t. tk_deviceId t = dev \<and> tk_revokedAt t = None);
                     reason = (case sanitizeReason (the raw) of None \<Rightarrow> ''admin'' | Some r \<Rightarrow> r);
                     ids = map tk_id (filter live (ts_tokens (rg_store g1)));
                     g2 = revoke_tokens now live g1 in
                 (200, g2\<lparr>rg_revoked := rg_revoked g2 @ map (\<lambda>i. (dev, i, reason)) ids\<rparr>, untag dev m)))"


section \<open>Example\<close>

text \<open>
  An operator, a customer, a code minted for a scanner, and a phone that registers with it. The
  digest of the example keeps the last four letters.
\<close>

definition letters_digest :: "string \<Rightarrow> nat list" where
  "letters_digest s = map of_char (take 4 (rev s))"

definition example_verifier :: string where "example_verifier = replicate 43 CHR ''v''"

definition empty_registry :: registry where
  "empty_registry = \<lparr>rg_codes = [], rg_store = \<lparr>ts_tokens = [], ts_devices = [], ts_probes = []\<rparr>,
     rg_users = [(''operator'', ''22334455'', ''admin''), (''anna'', ''ABCDEFGH'', ''customer''),
       (''ben'', ''JKMNPQRS'', ''customer'')], rg_revoked = []\<rparr>"

definition example_registry :: registry where
  "example_registry = snd (mintOneTimeCode letters_digest True 0 [7, 7, 7, 7, 7, 7] ''row-1'' ''operator''
     (sha256Base64Url letters_digest example_verifier) ''iPhone'' [''scanner''] empty_registry)"

definition example_phone :: phone_info where
  "example_phone = \<lparr>ph_label = ''iPhone'', ph_platform = ''ios'', ph_model = ''iPhone17,1'', ph_osVersion = ''26.0'',
     ph_appVersion = ''1.0'', ph_pushToken = None, ph_apnsEnvironment = ''production''\<rparr>"

definition example_io :: "string \<Rightarrow> string \<Rightarrow> nat \<Rightarrow> registration_io" where
  "example_io dev tok byte = \<lparr>rx_now = 1000, rx_found = True, rx_claimed = True, rx_insertDevice = True, rx_insertToken = True,
     rx_rollback = True, rx_deviceId = dev, rx_tokenId = tok, rx_tokenBytes = replicate 32 byte, rx_secretBytes = replicate 32 9\<rparr>"

definition example_body :: register_body where
  "example_body = \<lparr>rb_oneTimeCode = base64UrlEncode [7, 7, 7, 7, 7, 7], rb_codeVerifier = example_verifier,
     rb_phone = example_phone, rb_requestedCapabilities = [''user'']\<rparr>"

definition registered :: "register_reply \<times> registry" where
  "registered = runRegister letters_digest (example_io ''device-1'' ''token-1'' 1) example_body example_registry"

lemma registered_reply:
  "fst registered = Registered ''device-1'' (cd_deviceToken (generateDeviceCredentials letters_digest (replicate 32 1) (replicate 32 9)))
     (cd_deviceSecret (generateDeviceCredentials letters_digest (replicate 32 1) (replicate 32 9))) [''user''] (1000 + DEVICE_TOKEN_TTL_MS)"
  by code_simp

lemma registered_run:
  "runRegister letters_digest (example_io ''device-1'' ''token-1'' 1) example_body example_registry =
    (Registered ''device-1'' (cd_deviceToken (generateDeviceCredentials letters_digest (replicate 32 1) (replicate 32 9)))
       (cd_deviceSecret (generateDeviceCredentials letters_digest (replicate 32 1) (replicate 32 9))) [''user''] (1000 + DEVICE_TOKEN_TTL_MS),
     snd registered)"
  by (metis prod.collapse registered_def registered_reply)

section \<open>The token of a registration\<close>

lemma xor_nat_0_iff: "(a XOR b = 0) = (a = b)" for a b :: nat
  by (auto simp: bit_eq_iff bit_xor_iff)

lemma diff_fold_0:
  "foldl (\<lambda>diff (x, y). diff OR (of_char x XOR of_char y)) n xys = (0 :: nat) \<longleftrightarrow> n = 0 \<and> (\<forall>(x, y) \<in> set xys. x = y)"
  by (induction xys arbitrary: n) (auto simp: or_eq_0_iff xor_nat_0_iff)

lemma zip_all_equal: "length a = length b \<Longrightarrow> (\<forall>(x, y) \<in> set (zip a b). x = y) \<longleftrightarrow> a = b"
  by (induction a b rule: list_induct2) auto

lemma constantTimeEqual_iff [simp]: "constantTimeEqual a b \<longleftrightarrow> a = b"
proof (cases "length a = length b")
  case True
  from zip_all_equal [OF this] True show ?thesis unfolding constantTimeEqual_def diff_fold_0 by simp
qed (auto simp: constantTimeEqual_def)

lemma js_trim_plain: "\<forall>c \<in> set s. \<not> js_space c \<Longrightarrow> js_trim s = s"
proof -
  assume s: "\<forall>c \<in> set s. \<not> js_space c"
  have d: "dropWhile js_space t = t" if "\<forall>c \<in> set t. \<not> js_space c" for t
    using that by (cases t) simp_all
  show ?thesis using d [of s] d [of "rev s"] s by (simp add: js_trim_def)
qed

lemma set_strip_padding: "set (strip_padding s) \<subseteq> set s"
  unfolding strip_padding_def using set_dropWhileD [of _ "\<lambda>c. c = CHR ''=''" "rev s"] by auto

lemma alphabet_no_space: "list_all (\<lambda>x. \<not> js_space (url_safe x)) (CHR ''='' # base64_alphabet)"
  by code_simp

lemma base64Url_no_space:
  assumes "\<forall>b \<in> set bytes. b < 256"
  shows "\<forall>c \<in> set (base64UrlEncode bytes). \<not> js_space c"
proof
  fix c
  assume "c \<in> set (base64UrlEncode bytes)"
  then obtain x where "x \<in> set (btoa bytes)" "c = url_safe x"
    using set_strip_padding [of "map url_safe (btoa bytes)"] unfolding base64UrlEncode_def set_map by blast
  then show "\<not> js_space c"
    using set_btoa [OF assms] alphabet_no_space unfolding list_all_iff by auto
qed

lemma length_dropWhile_stop: "\<not> P y \<Longrightarrow> length (dropWhile P (xs @ y # ys)) > length ys"
  by (induction xs) auto

lemma length_btoa: "length (btoa bytes) \<le> 2 * length bytes + 2"
  by (induction bytes rule: btoa.induct) simp_all

lemma nth_alphabet: "n < 64 \<Longrightarrow> url_safe (base64_alphabet ! n) \<noteq> CHR ''=''"
proof -
  assume "n < 64"
  moreover have "length base64_alphabet = 64" by (simp add: base64_alphabet_def)
  ultimately have "base64_alphabet ! n \<in> set base64_alphabet" by simp
  moreover have "\<forall>x \<in> set base64_alphabet. url_safe x \<noteq> CHR ''=''" by (simp add: base64_alphabet_def url_safe_def)
  ultimately show ?thesis by blast
qed

lemma length_base64Url:
  assumes "\<forall>b \<in> set bytes. b < 256" and "3 \<le> length bytes" and "length bytes \<le> 64"
  shows "2 \<le> length (base64UrlEncode bytes)" "length (base64UrlEncode bytes) \<le> 130"
proof -
  obtain a b c bs where bytes: "bytes = a # b # c # bs"
    using assms(2) by (metis One_nat_def Suc_le_length_iff numeral_3_eq_3)
  have "a mod 4 * 16 + b div 16 < 64"
    using assms(1) bytes by auto
  then have "url_safe (base64_alphabet ! (a mod 4 * 16 + b div 16)) \<noteq> CHR ''=''" by (rule nth_alphabet)
  from length_dropWhile_stop [of "\<lambda>c. c = CHR ''=''", OF this,
    of "[url_safe (base64_alphabet ! (a div 4))]" "rev (map url_safe (btoa bs)) @ [url_safe (base64_alphabet ! (c mod 64)),
      url_safe (base64_alphabet ! (b mod 16 * 4 + c div 64))]"]
  show "2 \<le> length (base64UrlEncode bytes)"
    by (simp add: base64UrlEncode_def strip_padding_def bytes)
  have "length (base64UrlEncode bytes) \<le> length (btoa bytes)"
    using length_dropWhile_le [of "\<lambda>c. c = CHR ''=''" "rev (map url_safe (btoa bytes))"]
    by (simp add: base64UrlEncode_def strip_padding_def)
  then show "length (base64UrlEncode bytes) \<le> 130"
    using length_btoa [of bytes] assms(3) by simp
qed

lemma extract_token:
  assumes "\<forall>b \<in> set bytes. b < 256" and "3 \<le> length bytes" and "length bytes \<le> 64"
  shows "extractBearerToken (Some (''Bearer '' @ ''dev_'' @ base64UrlEncode bytes)) = Some (''dev_'' @ base64UrlEncode bytes)"
proof -
  let ?t = "''dev_'' @ base64UrlEncode bytes"
  have "\<forall>c \<in> set ?t. \<not> js_space c"
    using base64Url_no_space [OF assms(1)] by (simp add: js_space_def)
  then have "js_trim ?t = ?t" by (rule js_trim_plain)
  then show ?thesis
    using length_base64Url [OF assms] by (simp add: extractBearerToken_def has_prefix_def Let_def)
qed

lemma device_allowed_fresh: "device_allowed g d \<Longrightarrow> x \<in> set (ts_devices (rg_store g)) \<Longrightarrow> de_id x \<noteq> de_id d"
  by (auto simp: device_allowed_def image_iff)

lemma insert_device_ok:
  assumes "insert_device digest io owner caps ph g = (Some (d, t, c), g')"
  shows "d = new_device io owner caps ph" "c = generateDeviceCredentials digest (rx_tokenBytes io) (rx_secretBytes io)"
    "t = new_token io c" "device_allowed g d" "tk_id t \<notin> tk_id ` set (ts_tokens (rg_store g))"
    "tk_tokenHash t \<notin> tk_tokenHash ` set (ts_tokens (rg_store g))"
    "g' = put_tokens (ts_tokens (rg_store g) @ [t]) (put_devices (ts_devices (rg_store g) @ [d]) g)"
  using assms by (auto simp: insert_device_def token_allowed_def put_devices_def Let_def split: if_splits)

lemma insert_device_resolves:
  assumes ins: "insert_device digest io owner caps ph g = (Some (d, t, c), g')"
    and bytes: "\<forall>b \<in> set (rx_tokenBytes io). b < 256" "length (rx_tokenBytes io) = 32"
    and now: "now < rx_now io + DEVICE_TOKEN_TTL_MS"
  shows "fst (resolveBearer (sha256Hex digest) True bump now (Some (''Bearer '' @ cd_deviceToken c)) route (rg_store g')) =
    Some \<lparr>dc_id = rx_deviceId io, dc_ownerUserId = owner, dc_capabilities = caps, dc_secret = cd_deviceSecret c, dc_tokenId = rx_tokenId io\<rparr>"
proof -
  note ok = insert_device_ok [OF ins]
  let ?devs = "ts_devices (rg_store g) @ [d]" and ?hash = "sha256Hex digest (cd_deviceToken c)"
  have raw: "extractBearerToken (Some (''Bearer '' @ cd_deviceToken c)) = Some (cd_deviceToken c)"
    using extract_token [OF bytes(1)] bytes(2) ok(2) by (simp add: generateDeviceCredentials_def Let_def)
  have hash: "tk_tokenHash t = ?hash"
    using ok(2,3) by (simp add: new_token_def generateDeviceCredentials_def Let_def)
  have dev: "token_device ?devs t = Some d"
  proof -
    have "find (\<lambda>x. de_id x = tk_deviceId t \<and> de_deletedAt x = None) (ts_devices (rg_store g)) = None"
      unfolding find_None_set using device_allowed_fresh [OF ok(4)] ok(1,3) by (simp add: new_token_def new_device_def)
    then show ?thesis
      using ok(1,3) by (simp add: token_device_def find_snoc new_token_def new_device_def)
  qed
  have "find (\<lambda>x. tk_tokenHash x = ?hash \<and> live_token now x \<and> token_device ?devs x \<noteq> None) (ts_tokens (rg_store g)) = None"
    unfolding find_None_set using ok(6) hash by (metis image_eqI)
  moreover have "live_token now t"
    using now ok(3) by (simp add: live_token_def new_token_def)
  ultimately have "token_match now ?hash ?devs (ts_tokens (rg_store g) @ [t]) = Some (t, d)"
    using dev hash by (simp add: token_match_def find_snoc)
  moreover have "context_of t d = \<lparr>dc_id = rx_deviceId io, dc_ownerUserId = owner, dc_capabilities = caps,
      dc_secret = cd_deviceSecret c, dc_tokenId = rx_tokenId io\<rparr>"
    using ok(1,3) by (simp add: context_of_def new_device_def new_token_def)
  ultimately show ?thesis
    using raw ok(7) by (simp add: resolveBearer_def put_tokens_def put_devices_def)
qed

lemma runRegister_ok:
  assumes "runRegister digest io b g = (Registered dev tok sec caps expires, g2)"
  obtains cl g1 d t c where
    "claimOneTimeCode digest (rx_found io) (rx_claimed io) (rx_now io) (rb_oneTimeCode b) (rb_codeVerifier b) g = (Some cl, g1)"
    "insert_device digest io (cl_userId cl) (rb_requestedCapabilities b) (rb_phone b) g1 = (Some (d, t, c), g2)"
    "dev = de_id d" "tok = cd_deviceToken c" "sec = cd_deviceSecret c" "caps = rb_requestedCapabilities b" "expires = tk_expiresAt t"
proof -
  obtain cl g1 where c: "claimOneTimeCode digest (rx_found io) (rx_claimed io) (rx_now io) (rb_oneTimeCode b) (rb_codeVerifier b) g = (cl, g1)"
    by (rule prod.exhaust)
  with assms obtain x where x: "cl = Some x" by (cases cl) (simp_all add: runRegister_def)
  obtain z g3 where z: "insert_device digest io (cl_userId x) (rb_requestedCapabilities b) (rb_phone b) g1 = (z, g3)"
    by (rule prod.exhaust)
  with assms c x obtain d t k where w: "z = Some (d, t, k)"
    by (cases z) (auto simp: runRegister_def)
  show thesis
    by (rule that [of x g1 d t k]) (use assms c x z w in \<open>simp_all add: runRegister_def\<close>)
qed



section \<open>A code is used once\<close>

lemma claim_commit_simps [simp]:
  "rg_store (snd (claim_commit u now r g)) = rg_store g" "rg_users (snd (claim_commit u now r g)) = rg_users g"
  by (simp_all add: claim_commit_def Let_def)

text \<open>
  Codes are minted, looked up and consumed in any order by any number of requests. A request that
  has looked a code up waits in \<open>cs_waiting\<close>; those whose update succeeded are in \<open>cs_won\<close>, with
  the verifier they gave.
\<close>

record claim_state =
  cs_registry :: registry
  cs_waiting :: "(code_row \<times> string) list"
  cs_won :: "(code_row \<times> string) list"

inductive claim_step :: "(string \<Rightarrow> nat list) \<Rightarrow> claim_state \<Rightarrow> claim_state \<Rightarrow> bool" for digest where
  mint: "mintOneTimeCode digest stored now bytes i user challenge label caps (cs_registry s) = (raw, g) \<Longrightarrow>
    claim_step digest s (s\<lparr>cs_registry := g\<rparr>)"
| lookup: "claim_lookup digest found now raw verifier (cs_registry s) = Some r \<Longrightarrow>
    claim_step digest s (s\<lparr>cs_waiting := (r, verifier) # cs_waiting s\<rparr>)"
| commit: "(r, verifier) \<in> set (cs_waiting s) \<Longrightarrow> claim_commit updated now r (cs_registry s) = (won, g) \<Longrightarrow>
    claim_step digest s (s\<lparr>cs_registry := g, cs_waiting := remove1 (r, verifier) (cs_waiting s),
      cs_won := (if won then (r, verifier) # cs_won s else cs_won s)\<rparr>)"

inductive claim_run :: "(string \<Rightarrow> nat list) \<Rightarrow> claim_state \<Rightarrow> claim_state \<Rightarrow> bool" for digest where
  start: "claim_run digest s s"
| step: "claim_run digest s t \<Longrightarrow> claim_step digest t u \<Longrightarrow> claim_run digest s u"

text \<open>Keys are unique, winners are consumed and distinct, and every verifier hashes to its challenge.\<close>

definition claims_ok :: "(string \<Rightarrow> nat list) \<Rightarrow> claim_state \<Rightarrow> bool" where
  "claims_ok digest s \<longleftrightarrow>
     distinct (map oc_id (rg_codes (cs_registry s))) \<and>
     distinct (map (oc_id \<circ> fst) (cs_won s)) \<and>
     (\<forall>(r, v) \<in> set (cs_won s). \<exists>x \<in> set (rg_codes (cs_registry s)). oc_id x = oc_id r \<and> oc_consumed x) \<and>
     (\<forall>(r, v) \<in> set (cs_waiting s) \<union> set (cs_won s). sha256Base64Url digest v = oc_codeChallenge r)"

lemma claim_lookup_sound:
  "claim_lookup digest found now raw v g = Some r \<Longrightarrow>
   r \<in> set (rg_codes g) \<and> oc_expiresAt r > now \<and> \<not> oc_consumed r \<and> sha256Base64Url digest v = oc_codeChallenge r \<and>
   sql_like (''expresscan-register:%:'' @ sha256Hex digest raw) (oc_identifier r)"
  by (auto simp: claim_lookup_def split: if_splits option.splits dest!: find_Some_set)

lemma map_ids_commit: "map oc_id (rg_codes (snd (claim_commit u now r g))) = map oc_id (rg_codes g)"
  by (simp add: claim_commit_def Let_def)

lemma claim_commit_consumed:
  "x \<in> set (rg_codes g) \<Longrightarrow> oc_consumed x \<Longrightarrow> x \<in> set (rg_codes (snd (claim_commit u now r g)))"
  by (auto simp: claim_commit_def Let_def image_iff intro: bexI [of _ x])

lemma claim_commit_won:
  assumes "claim_commit u now r g = (True, g')"
  shows "\<exists>x \<in> set (rg_codes g). oc_id x = oc_id r \<and> \<not> oc_consumed x"
    "\<exists>x \<in> set (rg_codes g'). oc_id x = oc_id r \<and> oc_consumed x"
proof -
  let ?hit = "\<lambda>x. oc_id x = oc_id r \<and> oc_expiresAt x > now \<and> \<not> oc_consumed x"
  have len: "length (filter ?hit (rg_codes g)) = 1"
    and g': "g' = g\<lparr>rg_codes := map (\<lambda>x. if ?hit x then x\<lparr>oc_consumed := True, oc_updatedAt := now\<rparr> else x) (rg_codes g)\<rparr>"
    using assms by (auto simp: claim_commit_def Let_def split: if_splits)
  from len have "filter ?hit (rg_codes g) \<noteq> []" by auto
  then obtain x where x: "x \<in> set (rg_codes g)" "?hit x"
    by (metis (mono_tags, lifting) filter_False)
  then show "\<exists>x \<in> set (rg_codes g). oc_id x = oc_id r \<and> \<not> oc_consumed x" by blast
  have "x\<lparr>oc_consumed := True, oc_updatedAt := now\<rparr> \<in> set (rg_codes g')"
    unfolding g' using x by (auto simp: image_iff intro!: bexI [of _ x])
  then show "\<exists>x \<in> set (rg_codes g'). oc_id x = oc_id r \<and> oc_consumed x"
    using x by (metis code_row.select_convs(1,7) code_row.surjective code_row.update_convs(7,10))
qed

lemma claim_step_ok:
  assumes "claim_step digest s t" and ok: "claims_ok digest s"
  shows "claims_ok digest t"
  using assms(1)
proof cases
  case (mint stored now bytes i user challenge label caps raw g)
  then have "rg_codes g = rg_codes (cs_registry s) \<or>
      (\<exists>x. rg_codes g = rg_codes (cs_registry s) @ [x] \<and> oc_id x \<notin> oc_id ` set (rg_codes (cs_registry s)))"
    by (auto simp: mintOneTimeCode_def Let_def split: if_splits)
  then show ?thesis
    using ok mint(1) by (auto simp: claims_ok_def)
next
  case (lookup found now raw verifier r)
  from claim_lookup_sound [OF lookup(2)] show ?thesis
    using ok lookup(1) by (auto simp: claims_ok_def)
next
  case (commit r verifier updated now won g)
  have g: "g = snd (claim_commit updated now r (cs_registry s))" using commit(3) by simp
  have ids: "distinct (map oc_id (rg_codes g))" unfolding g map_ids_commit using ok by (simp add: claims_ok_def)
  have old: "\<exists>x \<in> set (rg_codes g). oc_id x = oc_id r' \<and> oc_consumed x" if "(r', v') \<in> set (cs_won s)" for r' v'
    using ok that claim_commit_consumed unfolding g claims_ok_def by fast
  have won: "oc_id r \<notin> (oc_id \<circ> fst) ` set (cs_won s) \<and> (\<exists>x \<in> set (rg_codes g). oc_id x = oc_id r \<and> oc_consumed x)" if w: won
  proof -
    obtain x where x: "x \<in> set (rg_codes (cs_registry s))" "oc_id x = oc_id r" "\<not> oc_consumed x"
      using claim_commit_won(1) [of updated now r "cs_registry s" g] commit(3) w by auto
    have "oc_id r' \<noteq> oc_id r" if "(r', v') \<in> set (cs_won s)" for r' v'
    proof
      assume e: "oc_id r' = oc_id r"
      obtain y where "y \<in> set (rg_codes (cs_registry s))" "oc_id y = oc_id r'" "oc_consumed y"
        using ok \<open>(r', v') \<in> set (cs_won s)\<close> by (auto simp: claims_ok_def)
      moreover have "inj_on oc_id (set (rg_codes (cs_registry s)))" using ok by (simp add: claims_ok_def distinct_map)
      ultimately have "x = y" using x(1,2) e by (metis inj_onD)
      then show False using x(3) \<open>oc_consumed y\<close> by simp
    qed
    then have "oc_id r \<notin> (oc_id \<circ> fst) ` set (cs_won s)" by (force simp: image_iff)
    then show ?thesis using claim_commit_won(2) [of updated now r "cs_registry s" g] commit(3) w by simp
  qed
  have hash: "sha256Base64Url digest v = oc_codeChallenge r'" if "(r', v) \<in> set (cs_waiting s) \<union> set (cs_won s)" for r' v
    using ok that by (auto simp: claims_ok_def)
  show ?thesis
    unfolding claims_ok_def commit(1) using ids old won hash commit(2) ok
    by (auto simp: claims_ok_def dest: set_remove1_subset [THEN subsetD])
qed

lemma claim_run_ok: "claim_run digest s t \<Longrightarrow> claims_ok digest s \<Longrightarrow> claims_ok digest t"
  by (induction rule: claim_run.induct) (auto intro: claim_step_ok)

text \<open>
  C35. A one-time code registers at most one device, however its lookups and updates interleave with
  those of other requests and with new codes: among the claims that succeed no row occurs twice, and
  each gave a verifier whose digest is the challenge the code was minted with.
\<close>

theorem code_claimed_once:
  assumes run: "claim_run digest \<lparr>cs_registry = g, cs_waiting = [], cs_won = []\<rparr> s"
    and ids: "distinct (map oc_id (rg_codes g))"
  shows "distinct (map (oc_id \<circ> fst) (cs_won s)) \<and> (\<forall>(r, v) \<in> set (cs_won s). sha256Base64Url digest v = oc_codeChallenge r)"
proof -
  have "claims_ok digest s"
    by (rule claim_run_ok [OF run]) (simp add: claims_ok_def ids)
  then show ?thesis by (auto simp: claims_ok_def)
qed

text \<open>One request looks the code of the example up and consumes it.\<close>

definition example_code :: code_row where "example_code = hd (rg_codes example_registry)"

lemma example_lookup:
  "claim_lookup letters_digest True 1000 (rb_oneTimeCode example_body) example_verifier example_registry = Some example_code"
  "fst (claim_commit True 1000 example_code example_registry)"
  "distinct (map oc_id (rg_codes example_registry))"
  by code_simp+

theorem code_claimed_once_witness:
  "\<exists>s. claim_run letters_digest \<lparr>cs_registry = example_registry, cs_waiting = [], cs_won = []\<rparr> s \<and>
     cs_won s = [(example_code, example_verifier)] \<and> distinct (map (oc_id \<circ> fst) (cs_won s))"
proof -
  let ?s = "\<lparr>cs_registry = example_registry, cs_waiting = [], cs_won = []\<rparr>"
  let ?t = "?s\<lparr>cs_waiting := [(example_code, example_verifier)]\<rparr>"
  let ?g = "snd (claim_commit True 1000 example_code example_registry)"
  have 1: "claim_step letters_digest ?s ?t"
    using claim_step.lookup [of letters_digest True 1000 "rb_oneTimeCode example_body" example_verifier ?s example_code] example_lookup(1)
    by simp
  have 2: "claim_step letters_digest ?t (?t\<lparr>cs_registry := ?g, cs_waiting := [], cs_won := [(example_code, example_verifier)]\<rparr>)"
    using claim_step.commit [of example_code example_verifier ?t True 1000 True ?g letters_digest] example_lookup(2)
    by (simp add: prod_eq_iff)
  have run: "claim_run letters_digest ?s (?t\<lparr>cs_registry := ?g, cs_waiting := [], cs_won := [(example_code, example_verifier)]\<rparr>)"
    by (rule claim_run.step [OF claim_run.step [OF claim_run.start 1] 2])
  show ?thesis
    using run code_claimed_once [OF run example_lookup(3)] by (intro exI conjI) (assumption, simp_all)
qed

text \<open>A claim that succeeds was for an armed, unexpired row with the challenge of the verifier; it names its user.\<close>

lemma claim_sound:
  assumes "claimOneTimeCode digest found updated now raw v g = (Some cl, g')"
  shows "\<exists>r \<in> set (rg_codes g). oc_expiresAt r > now \<and> \<not> oc_consumed r \<and> sha256Base64Url digest v = oc_codeChallenge r
    \<and> cl_userId cl = oc_userId r \<and> cl_requestedCapabilities cl = oc_capabilities r"
    "rg_store g' = rg_store g" "rg_users g' = rg_users g"
proof -
  obtain r where r: "claim_lookup digest found now raw v g = Some r" "fst (claim_commit updated now r g) = True"
    "g' = snd (claim_commit updated now r g)" "cl = \<lparr>cl_userId = oc_userId r, cl_label = oc_label r, cl_requestedCapabilities = oc_capabilities r\<rparr>"
    using assms by (auto simp: claimOneTimeCode_def split: option.splits prod.splits if_splits)
  then show "rg_store g' = rg_store g" "rg_users g' = rg_users g" by simp_all
  show "\<exists>r \<in> set (rg_codes g). oc_expiresAt r > now \<and> \<not> oc_consumed r \<and> sha256Base64Url digest v = oc_codeChallenge r
    \<and> cl_userId cl = oc_userId r \<and> cl_requestedCapabilities cl = oc_capabilities r"
    using claim_lookup_sound [OF r(1)] r(4) by auto
qed

text \<open>
  The capabilities an operator approved for a code are not looked at: whatever row the code
  belongs to, a registration that succeeds stores and returns the capabilities of its own body, so
  that a code minted for a scanner registers a device with every capability the table allows.
\<close>

theorem approved_capabilities_ignored:
  assumes claim: "claimOneTimeCode digest (rx_found io) (rx_claimed io) (rx_now io) (rb_oneTimeCode b) (rb_codeVerifier b) g = (Some cl, g1)"
    and ok: "rx_insertDevice io" "rx_insertToken io"
    and fits: "device_allowed g (new_device io (cl_userId cl) (rb_requestedCapabilities b) (rb_phone b))"
      "token_allowed (put_devices (ts_devices (rg_store g) @ [new_device io (cl_userId cl) (rb_requestedCapabilities b) (rb_phone b)]) g)
        (new_token io (generateDeviceCredentials digest (rx_tokenBytes io) (rx_secretBytes io)))"
  shows "\<exists>dev tok sec expires g2. runRegister digest io b g = (Registered dev tok sec (rb_requestedCapabilities b) expires, g2) \<and>
    (\<exists>d \<in> set (ts_devices (rg_store g2)). de_id d = dev \<and> de_capabilities d = Some (rb_requestedCapabilities b))"
proof -
  note st = claim_sound(2,3) [OF claim]
  have "device_allowed g1 d = device_allowed g d" for d using st by (simp add: device_allowed_def)
  moreover have "token_allowed (put_devices ds g1) t = token_allowed (put_devices ds g) t" for ds t
    using st by (simp add: token_allowed_def put_devices_def)
  ultimately show ?thesis
    using claim ok fits st
    by (auto simp: runRegister_def insert_device_def Let_def put_devices_def put_tokens_def new_device_def)
qed

theorem approved_capabilities_ignored_witness:
  "oc_capabilities example_code = [''scanner''] \<and>
   (\<exists>dev tok sec expires g2. runRegister letters_digest (example_io ''device-1'' ''token-1'' 1) example_body example_registry =
      (Registered dev tok sec [''user''] expires, g2))"
proof -
  have claim: "claimOneTimeCode letters_digest True True 1000 (rb_oneTimeCode example_body) (rb_codeVerifier example_body) example_registry =
      (Some \<lparr>cl_userId = ''operator'', cl_label = ''iPhone'', cl_requestedCapabilities = [''scanner'']\<rparr>,
       snd (claim_commit True 1000 example_code example_registry))"
    by code_simp
  have fits: "device_allowed example_registry (new_device (example_io ''device-1'' ''token-1'' 1) ''operator'' [''user''] example_phone)"
      "token_allowed (put_devices (ts_devices (rg_store example_registry) @
          [new_device (example_io ''device-1'' ''token-1'' 1) ''operator'' [''user''] example_phone]) example_registry)
        (new_token (example_io ''device-1'' ''token-1'' 1) (generateDeviceCredentials letters_digest (replicate 32 1) (replicate 32 9)))"
    by code_simp+
  have caps: "oc_capabilities example_code = [''scanner'']" by code_simp
  from approved_capabilities_ignored [of letters_digest "example_io ''device-1'' ''token-1'' 1" example_body example_registry]
  show ?thesis using claim fits caps by (auto simp: example_io_def example_body_def)
qed

text \<open>
  The reply of a registration, with its token and its secret, is kept under the idempotency key
  of the request without an owner: any later request with that key gets the same credentials,
  whatever its body, its code and its verifier, and the registry is not touched.
\<close>

theorem replayed_key_returns_credentials:
  assumes first: "register_POST digest io True True (Some key) (Some b) (rows, g) = (r, rows', g')"
    and key: "js_trim key \<noteq> []" "length (js_trim key) \<le> 200" "js_trim key \<notin> ik_key ` set rows"
  shows "register_POST digest io' True store (Some key) body (rows', g'') =
    (\<lparr>hr_status = hr_status r, hr_isJson = True, hr_body = hr_body r\<rparr>, rows', g'')"
proof -
  have none: "find (\<lambda>r. ik_key r = js_trim key) rows = None" unfolding find_None_set using key(3) by (metis image_eqI)
  obtain j where r: "fst (register_handler digest io (Some b) g) = \<lparr>hr_status = hr_status r, hr_isJson = True, hr_body = Json j\<rparr>"
    and rows': "rows' = rows @ [\<lparr>ik_key = js_trim key, ik_route = REGISTER_ROUTE, ik_userId = None, ik_status = hr_status r,
      ik_body = j, ik_createdAt = rx_now io\<rparr>]" and j: "hr_body r = Json j"
    using first key none
    by (auto simp: register_POST_def withIdempotency_def register_handler_def Let_def split: option.splits prod.splits)
  show ?thesis
    using key none by (simp add: register_POST_def withIdempotency_def rows' find_snoc j Let_def)
qed

theorem replayed_key_returns_credentials_witness:
  "\<exists>r rows. fst (register_POST letters_digest (example_io ''device-1'' ''token-1'' 1) True True (Some ''k1'') (Some example_body) ([], example_registry)) = r
     \<and> hr_status r = 200
     \<and> register_POST letters_digest (example_io ''device-2'' ''token-2'' 2) True True (Some ''k1'') None (rows, empty_registry) =
         (\<lparr>hr_status = 200, hr_isJson = True, hr_body = hr_body r\<rparr>, rows, empty_registry)"
proof -
  let ?post = "register_POST letters_digest (example_io ''device-1'' ''token-1'' 1) True True (Some ''k1'') (Some example_body) ([], example_registry)"
  obtain r rows g where p: "?post = (r, rows, g)" by (metis prod.collapse)
  have "hr_status (fst ?post) = 200" by code_simp
  moreover have "js_trim ''k1'' = ''k1''" by code_simp
  ultimately show ?thesis
    using p replayed_key_returns_credentials [OF p, of "example_io ''device-2'' ''token-2'' 2" True None empty_registry]
    by (intro exI [of _ r] exI [of _ rows]) simp
qed

section \<open>A removed device stays out\<close>

text \<open>The requests on the registry and the tags, in any order.\<close>

inductive registry_step :: "(string \<Rightarrow> nat list) \<Rightarrow> registry \<times> 'm \<Rightarrow> registry \<times> 'm \<Rightarrow> bool" for digest where
  page: "registry_step digest (g, m) (snd (register_page_GET digest stored now bytes i user challenge label g), m)"
| register: "registry_step digest (g, m) (snd (register_handler digest io body g), m)"
| card: "qr_sign_in_POST digest io rate look session ensure s body st = (reply, st') \<Longrightarrow> registry_step digest st st'"
| leave: "device_DELETE now update revoke untag device path st = (code, st') \<Longrightarrow> registry_step digest st st'"
| deregister: "deregister_POST now update revoke untag user dev raw st = (code, st') \<Longrightarrow> registry_step digest st st'"
| request: "registry_step digest (g, m)
    (g\<lparr>rg_store := snd (resolveBearer (sha256Hex digest) lookup bump now header route (rg_store g))\<rparr>, m)"

inductive registry_run :: "(string \<Rightarrow> nat list) \<Rightarrow> registry \<times> 'm \<Rightarrow> registry \<times> 'm \<Rightarrow> bool" for digest where
  start: "registry_run digest st st"
| step: "registry_run digest st st1 \<Longrightarrow> registry_step digest st1 st2 \<Longrightarrow> registry_run digest st st2"

definition removed :: "string \<Rightarrow> registry \<Rightarrow> bool" where
  "removed dev g \<longleftrightarrow> dev \<in> de_id ` set (ts_devices (rg_store g)) \<and>
     (\<forall>d \<in> set (ts_devices (rg_store g)). de_id d = dev \<longrightarrow> de_deletedAt d \<noteq> None)"

lemma removed_cong: "ts_devices (rg_store g) = ts_devices (rg_store h) \<Longrightarrow> removed dev g = removed dev h"
  by (simp add: removed_def)

lemma removed_insert:
  assumes "removed dev g"
  shows "removed dev (snd (insert_device digest io owner caps ph g))"
proof (cases "rx_insertDevice io \<and> device_allowed g (new_device io owner caps ph)")
  case True
  then have "rx_deviceId io \<noteq> dev" using assms by (auto simp: removed_def device_allowed_def new_device_def)
  then show ?thesis
    using assms True by (auto simp: insert_device_def removed_def put_devices_def put_tokens_def new_device_def Let_def)
qed (use assms in \<open>auto simp: insert_device_def Let_def\<close>)

lemma soft_delete_ids: "map de_id (ts_devices (rg_store (snd (soft_delete now dev by g)))) = map de_id (ts_devices (rg_store g))"
  by (simp add: soft_delete_def put_devices_def Let_def)

lemma set_soft_delete:
  "x \<in> set (ts_devices (rg_store (snd (soft_delete now dev by g)))) \<Longrightarrow> de_deletedAt x = None \<Longrightarrow>
   x \<in> set (ts_devices (rg_store g)) \<and> de_id x \<noteq> dev"
  by (auto simp: soft_delete_def put_devices_def Let_def split: if_splits)

lemma removed_soft_delete: "removed dev g \<Longrightarrow> removed dev (snd (soft_delete now dev' by g))"
  unfolding removed_def set_map [symmetric] soft_delete_ids using set_soft_delete by blast

lemma removed_revoke [simp]: "removed dev (revoke_tokens now p g) = removed dev g"
  by (rule removed_cong) (simp add: revoke_tokens_def put_tokens_def)

lemma revoke_none [simp]: "revoke_tokens now (\<lambda>t. False) g = g"
  by (simp add: revoke_tokens_def put_tokens_def)

lemma delete_store:
  assumes "device_DELETE now update revoke untag device path (g, m) = (r, h, m')"
  shows "h = g \<or> (\<exists>p by. rg_store h = rg_store (revoke_tokens now p (snd (soft_delete now path by g))))"
proof (cases device)
  case (Some dc)
  obtain z g1 where z: "soft_delete now path (dc_ownerUserId dc) g = (z, g1)" by (rule prod.exhaust)
  have "rg_store h = rg_store g1 \<or> (\<exists>p. rg_store h = rg_store (revoke_tokens now p g1))"
    if "uuid_shaped path" "dc_id dc = path" update
    using assms that z Some by (cases z; cases revoke) (auto simp: device_DELETE_def Let_def)
  moreover have "g1 = snd (soft_delete now path (dc_ownerUserId dc) g)" using z by simp
  moreover have "h = g" if "\<not> (uuid_shaped path \<and> dc_id dc = path \<and> update)"
    using assms that Some by (auto simp: device_DELETE_def split: if_splits)
  ultimately show ?thesis by (metis revoke_none)
qed (use assms in \<open>simp add: device_DELETE_def\<close>)

lemma deregister_store:
  assumes "deregister_POST now update revoke untag user dev raw (g, m) = (r, h, m')"
  shows "h = g \<or> (\<exists>p by. rg_store h = rg_store (revoke_tokens now p (snd (soft_delete now dev by g))))"
proof (cases user)
  case (Some u)
  obtain uid role where u: "user = Some (uid, role)" using Some by (cases u) simp
  obtain z g1 where z: "soft_delete now dev uid g = (z, g1)" by (rule prod.exhaust)
  have "rg_store h = rg_store g1 \<or> (\<exists>p. rg_store h = rg_store (revoke_tokens now p g1))"
    if "role = ''admin''" "\<not> (length dev < 8 \<or> length dev > 64)" "raw \<noteq> None" update
    using assms that z u by (cases z; cases revoke) (auto simp: deregister_POST_def Let_def)
  moreover have "g1 = snd (soft_delete now dev uid g)" using z by simp
  moreover have "h = g" if "\<not> (role = ''admin'' \<and> \<not> (length dev < 8 \<or> length dev > 64) \<and> raw \<noteq> None \<and> update)"
    using assms that u by (auto simp: deregister_POST_def split: if_splits)
  ultimately show ?thesis by (metis revoke_none)
qed (use assms in \<open>simp add: deregister_POST_def\<close>)

lemma sign_in_store:
  assumes "qr_sign_in_POST digest io rate look session ensure s body (g, m) = (r, h, m')"
  shows "h = g \<or> (\<exists>uid caps ph. h = snd (insert_device digest io uid caps ph g))"
proof (rule ccontr)
  assume no: "\<not> ?thesis"
  then obtain pid ph where b: "body = Some (pid, ph)" using assms by (cases body) (auto simp: qr_sign_in_POST_def split: if_splits)
  from no obtain uid p role where f: "find (\<lambda>(i, p, r). p = pid) (rg_users g) = Some (uid, p, role)"
    using assms b by (cases "find (\<lambda>(i, p, r). p = pid) (rg_users g)") (auto simp: qr_sign_in_POST_def split: if_splits)
  obtain z g1 where z: "insert_device digest io uid customerCapabilityDefaults ph g = (z, g1)" by (rule prod.exhaust)
  then have "h = g \<or> h = g1"
    using assms b f by (cases z) (auto simp: qr_sign_in_POST_def Let_def split: if_splits)
  then show False using no z by (metis snd_conv)
qed

lemma claim_store [simp]: "rg_store (snd (claimOneTimeCode digest f u now raw v g)) = rg_store g"
  by (auto simp: claimOneTimeCode_def split: option.split prod.split) (metis claim_commit_simps(1) snd_conv)

lemma removed_register: "removed dev g \<Longrightarrow> removed dev (snd (runRegister digest io b g))"
proof -
  assume g: "removed dev g"
  obtain cl g1 where c: "claimOneTimeCode digest (rx_found io) (rx_claimed io) (rx_now io) (rb_oneTimeCode b) (rb_codeVerifier b) g = (cl, g1)"
    by (cases "claimOneTimeCode digest (rx_found io) (rx_claimed io) (rx_now io) (rb_oneTimeCode b) (rb_codeVerifier b) g")
  then have "rg_store g1 = rg_store g" using claim_store [of digest "rx_found io" "rx_claimed io"] by (metis snd_conv)
  then have g1: "removed dev g1" using g removed_cong by metis
  show ?thesis
  proof (cases cl)
    case None
    then show ?thesis using c g1 by (simp add: runRegister_def)
  next
    case (Some x)
    have "snd (runRegister digest io b g) = snd (insert_device digest io (cl_userId x) (rb_requestedCapabilities b) (rb_phone b) g1)"
      using c Some by (auto simp: runRegister_def split: prod.split option.split)
    then show ?thesis using removed_insert [OF g1] by simp
  qed
qed

lemma removed_step: "registry_step digest st st' \<Longrightarrow> removed dev (fst st) \<Longrightarrow> removed dev (fst st')"
proof (induction rule: registry_step.induct)
  case (page g m stored now bytes i user challenge label)
  then show ?case
    by (auto simp: register_page_GET_def mintOneTimeCode_def Let_def removed_def split: option.split prod.split)
next
  case (register g m io body)
  then have "removed dev (snd (runRegister digest io b g))" for b by (simp add: removed_register)
  then show ?case using register
    by (cases body; cases "check_body (the body)") (simp_all add: register_handler_def Let_def split_beta)
next
  case (card io rate look session ensure s body st reply st')
  obtain g m h m' where st: "st = (g, m)" "st' = (h, m')" by (cases st; cases st')
  show ?case using card sign_in_store [of digest io rate look session ensure s body g m reply h m'] removed_insert
    unfolding st by auto
next
  case (leave now update revoke untag device path st code st')
  obtain g m h m' where st: "st = (g, m)" "st' = (h, m')" by (cases st; cases st')
  have "device_DELETE now update revoke untag device path (g, m) = (code, h, m')" using leave(1) unfolding st by simp
  from delete_store [OF this] show ?case using leave(2) removed_soft_delete removed_cong removed_revoke unfolding st fst_conv by metis
next
  case (deregister now update revoke untag user dev' raw st code st')
  obtain g m h m' where st: "st = (g, m)" "st' = (h, m')" by (cases st; cases st')
  have "deregister_POST now update revoke untag user dev' raw (g, m) = (code, h, m')" using deregister(1) unfolding st by simp
  from deregister_store [OF this] show ?case using deregister(2) removed_soft_delete removed_cong removed_revoke unfolding st fst_conv by metis
next
  case (request g m lookup bump now header route)
  then show ?case
    by (auto simp: removed_def resolveBearer_def split: option.split)
qed

lemma soft_delete_removes: "soft_delete now dev by g = (True, g1) \<Longrightarrow> removed dev g1"
proof -
  assume d: "soft_delete now dev by g = (True, g1)"
  then have "dev \<in> set (map de_id (ts_devices (rg_store g)))"
    by (auto simp: soft_delete_def Let_def)
  then show ?thesis
    unfolding removed_def set_map [symmetric] using d soft_delete_ids [of now dev "by" g] set_soft_delete [of _ now dev "by" g]
    by (metis snd_conv)
qed

lemma removed_by_deregister: "deregister_POST now update revoke untag user dev raw (g0, m) = (200, g, m') \<Longrightarrow> removed dev g"
proof -
  assume d: "deregister_POST now update revoke untag user dev raw (g0, m) = (200, g, m')"
  then obtain uid role where u: "user = Some (uid, role)" by (cases user) (auto simp: deregister_POST_def)
  obtain z g1 where z: "soft_delete now dev uid g0 = (z, g1)" by (rule prod.exhaust)
  from d u z have "z" by (cases z) (auto simp: deregister_POST_def split: if_splits)
  moreover from d u z this have "rg_store g = rg_store (revoke_tokens now (\<lambda>t. tk_deviceId t = dev \<and> tk_revokedAt t = None) g1)"
    by (auto simp: deregister_POST_def Let_def split: if_splits)
  then have "removed dev g = removed dev (revoke_tokens now (\<lambda>t. tk_deviceId t = dev \<and> tk_revokedAt t = None) g1)"
    by (intro removed_cong) simp
  ultimately show ?thesis using soft_delete_removes z by simp
qed

lemma removed_by_delete: "device_DELETE now update revoke untag device dev (g0, m) = (200, g, m') \<Longrightarrow> removed dev g"
proof -
  assume d: "device_DELETE now update revoke untag device dev (g0, m) = (200, g, m')"
  then obtain dc where u: "device = Some dc" by (cases device) (auto simp: device_DELETE_def)
  obtain z g1 where z: "soft_delete now dev (dc_ownerUserId dc) g0 = (z, g1)" by (rule prod.exhaust)
  from d u z have "z" by (cases z) (auto simp: device_DELETE_def split: if_splits)
  moreover from d u z this have "rg_store g = rg_store (if revoke then revoke_tokens now (\<lambda>t. tk_deviceId t = dev) g1 else g1)"
    by (auto simp: device_DELETE_def Let_def split: if_splits)
  then have "removed dev g = removed dev (if revoke then revoke_tokens now (\<lambda>t. tk_deviceId t = dev) g1 else g1)"
    by (intro removed_cong) simp
  ultimately show ?thesis using soft_delete_removes z by simp
qed

text \<open>
  A device that was removed never authenticates again. Once an operator's deregistration or the
  device's own deletion has answered 200, and after any sequence of pages, registrations, sign-ins
  with a card, deletions, deregistrations and requests, no header resolves to the device.
\<close>

theorem removed_device_stays_out:
  assumes gone: "(\<exists>now update revoke untag user raw. deregister_POST now update revoke untag user dev raw (g0, m) = (200, g, m')) \<or>
      (\<exists>now update revoke untag device. device_DELETE now update revoke untag device dev (g0, m) = (200, g, m'))"
    and run: "registry_run digest (g, m') (h, n)"
    and res: "fst (resolveBearer (sha256Hex digest) lookup bump t header route (rg_store h)) = Some c"
  shows "dc_id c \<noteq> dev"
proof -
  have "removed dev g"
    using gone by (elim disjE exE) (erule removed_by_deregister, erule removed_by_delete)
  moreover have "registry_run digest st st' \<Longrightarrow> removed dev (fst st) \<Longrightarrow> removed dev (fst st')" for st st' :: "registry \<times> 'a"
    by (induction rule: registry_run.induct) (auto intro: removed_step)
  ultimately have "removed dev h" using run by fastforce
  moreover obtain tk d where "d \<in> set (ts_devices (rg_store h))" "de_deletedAt d = None" "c = context_of tk d"
    using resolveBearer_sound [of "sha256Hex digest" lookup bump t header route "rg_store h" c] res
    by (metis prod.collapse)
  ultimately show ?thesis by (auto simp: removed_def context_of_def)
qed

text \<open>The phone of the example is deregistered; a customer's phone that signed in with a card still authenticates.\<close>

definition two_phones :: registry where
  "two_phones = fst (snd (qr_sign_in_POST letters_digest (example_io ''device-2'' ''token-2'' 2) True True True (\<lambda>d u p l m. m) Customer
     (Some (''ABCDEFGH'', example_phone)) (snd registered, ())))"

definition one_phone :: registry where
  "one_phone = fst (snd (deregister_POST 2000 True True (\<lambda>d m. m) (Some (''operator'', ''admin'')) ''device-1'' (Some None) (two_phones, ())))"

theorem removed_device_stays_out_witness:
  "fst (deregister_POST 2000 True True (\<lambda>d m. m) (Some (''operator'', ''admin'')) ''device-1'' (Some None) (two_phones, ())) = 200 \<and>
   (\<exists>c. fst (resolveBearer (sha256Hex letters_digest) True True 5000
      (Some (''Bearer '' @ cd_deviceToken (generateDeviceCredentials letters_digest (replicate 32 2) (replicate 32 9))))
      ''/api/devices/me'' (rg_store one_phone)) = Some c \<and> dc_id c \<noteq> ''device-1'')"
proof -
  have 1: "fst (deregister_POST 2000 True True (\<lambda>d m. m) (Some (''operator'', ''admin'')) ''device-1'' (Some None) (two_phones, ())) = 200"
    by code_simp
  then have gone: "deregister_POST 2000 True True (\<lambda>d m. m) (Some (''operator'', ''admin'')) ''device-1'' (Some None) (two_phones, ()) = (200, one_phone, ())"
    by (simp add: one_phone_def prod_eq_iff)
  have "\<not> Option.is_none (fst (resolveBearer (sha256Hex letters_digest) True True 5000
      (Some (''Bearer '' @ cd_deviceToken (generateDeviceCredentials letters_digest (replicate 32 2) (replicate 32 9))))
      ''/api/devices/me'' (rg_store one_phone)))"
    by code_simp
  then obtain c where c: "fst (resolveBearer (sha256Hex letters_digest) True True 5000
      (Some (''Bearer '' @ cd_deviceToken (generateDeviceCredentials letters_digest (replicate 32 2) (replicate 32 9))))
      ''/api/devices/me'' (rg_store one_phone)) = Some c"
    by (auto simp: Option.is_none_def)
  have "(\<exists>now update revoke untag user raw. deregister_POST now update revoke untag user ''device-1'' raw (two_phones, ()) = (200, one_phone, ()))
      \<or> (\<exists>now update revoke untag device. device_DELETE now update revoke untag device ''device-1'' (two_phones, ()) = (200, one_phone, ()))"
    by (intro disjI1 exI) (rule gone)
  from removed_device_stays_out [OF this registry_run.start c] show ?thesis using 1 c by blast
qed

end
