(* ===== verification/DeviceControl.thy ===== *)
theory DeviceControl
  imports Registration Reservations "HOL-Library.Multiset"
begin

text \<open>
  The charger endpoints of a phone with the capability \<open>user\<close>: starting and stopping a charge and
  cancelling a reservation (\<open>start.ts\<close>, \<open>stop.ts\<close>, \<open>cancel-reservation.ts\<close> of
  \<open>routes/api/admin/devices/[deviceId]\<close>), behind the
  online check of the charger (\<open>src/lib/chargers/online.ts\<close>).
\<close>

section \<open>Chargers\<close>

definition CHARGER_ONLINE_WINDOW_MS :: int where "CHARGER_ONLINE_WINDOW_MS = 90 * 1000"

record charger_row =
  ch_chargeBoxId :: string
  ch_lastSeenAt :: "int option"
  ch_lastStatusAt :: "int option"

definition loadChargerRow :: "string \<Rightarrow> charger_row list \<Rightarrow> charger_row option" where
  "loadChargerRow box rows = find (\<lambda>r. ch_chargeBoxId r = box) rows"

definition isChargerOnline :: "int \<Rightarrow> charger_row \<Rightarrow> bool" where
  "isChargerOnline now r =
     (case nullish (ch_lastStatusAt r) (ch_lastSeenAt r) of
        None \<Rightarrow> False | Some t \<Rightarrow> now - t \<le> CHARGER_ONLINE_WINDOW_MS)"

datatype charger_error = Charger_not_found | Charger_offline "int option"

definition requireOnlineCharger :: "int \<Rightarrow> string \<Rightarrow> charger_row list \<Rightarrow> charger_error + charger_row" where
  "requireOnlineCharger now box rows =
     (case loadChargerRow box rows of
        None \<Rightarrow> Inl Charger_not_found
      | Some r \<Rightarrow>
          if \<not> isChargerOnline now r then Inl (Charger_offline (nullish (ch_lastStatusAt r) (ch_lastSeenAt r)))
          else Inr r)"

section \<open>Starting and stopping\<close>

text \<open>A command to StEvE, the row of \<open>charger_operation_log\<close> for it, and the audit entries.\<close>

datatype command = RemoteStart string string | RemoteStop string int

datatype op_status = Op_pending | Op_submitted | Op_failed

record op_row =
  ol_id :: int
  ol_command :: command
  ol_requestedByUserId :: string
  ol_status :: op_status
  ol_taskId :: "int option"

datatype charge_audit =
    Start_charge string string string string "string option" int
  | Stop_charge string string int int
  | Cancel_reservation string string int

record 's control_state =
  ct_tags :: "'s tag_world"
  ct_chargers :: "charger_row list"
  ct_ops :: "op_row list"
  ct_nextOp :: int
  ct_sent :: "command list"
  ct_audit :: "(string \<times> charge_audit) list"

text \<open>
  The outcomes: the load of the charger (\<open>None\<close> is no error of its own), the insert of the log row, the
  task StEvE gives the command (\<open>None\<close>: the call throws), the update of the row to submitted, and the
  update to failed.
\<close>

record control_io =
  ci_now :: int
  ci_load :: bool
  ci_insert :: bool
  ci_task :: "int option"
  ci_mark :: bool
  ci_fail :: bool

datatype control_reply = Failed int string | Submitted int int | Not_started int

definition set_op :: "int \<Rightarrow> (op_row \<Rightarrow> op_row) \<Rightarrow> 's control_state \<Rightarrow> 's control_state" where
  "set_op i f st = st\<lparr>ct_ops := map (\<lambda>x. if ol_id x = i then f x else x) (ct_ops st)\<rparr>"

text \<open>
  The steps the two endpoints share: the log row, the command, the row again, the audit entry. A row
  that cannot be marked after StEvE took the command is reported as a failure.
\<close>

definition submit ::
  "control_io \<Rightarrow> device_context \<Rightarrow> command \<Rightarrow> (int \<Rightarrow> charge_audit) \<Rightarrow> 's control_state \<Rightarrow> control_reply \<times> 's control_state"
where
  "submit io dc cmd audit st =
     (if \<not> ci_insert io then (Failed 500 ''internal_error'', st)
      else
        let i = ct_nextOp st;
            st1 = st\<lparr>ct_ops := ct_ops st @ [\<lparr>ol_id = i, ol_command = cmd, ol_requestedByUserId = dc_ownerUserId dc,
                     ol_status = Op_pending, ol_taskId = None\<rparr>], ct_nextOp := i + 1\<rparr>;
            failed = (\<lambda>s. (Not_started i, if ci_fail io then set_op i (\<lambda>x. x\<lparr>ol_status := Op_failed\<rparr>) s else s))
        in case ci_task io of
          None \<Rightarrow> failed st1
        | Some t \<Rightarrow>
            let st2 = st1\<lparr>ct_sent := ct_sent st1 @ [cmd]\<rparr> in
            if \<not> ci_mark io then failed st2
            else (Submitted i t,
              (set_op i (\<lambda>x. x\<lparr>ol_taskId := Some t, ol_status := Op_submitted\<rparr>) st2)
                \<lparr>ct_audit := ct_audit st2 @ [(dc_ownerUserId dc, audit i)]\<rparr>))"

text \<open>The guards before the body: the device, its capability, the name of the charger.\<close>

definition control_guard :: "device_context option \<Rightarrow> string \<Rightarrow> control_reply + device_context" where
  "control_guard device box =
     (case device of
        None \<Rightarrow> Inl (Failed 401 ''unauthorized'')
      | Some dc \<Rightarrow>
          if requireCapability (Some (dc_capabilities dc)) [''user''] \<noteq> [] then Inl (Failed 403 ''capability_denied'')
          else if box = [] then Inl (Failed 404 ''charger_not_found'')
          else Inr dc)"

definition online_guard :: "control_io \<Rightarrow> string \<Rightarrow> charger_row list \<Rightarrow> control_reply option" where
  "online_guard io box rows =
     (if \<not> ci_load io then Some (Failed 500 ''internal_error'')
      else case requireOnlineCharger (ci_now io) box rows of
        Inl Charger_not_found \<Rightarrow> Some (Failed 404 ''charger_not_found'')
      | Inl (Charger_offline t) \<Rightarrow> Some (Failed 409 ''charger_offline'')
      | Inr r \<Rightarrow> None)"

record start_body =
  sb_lagoCustomerExternalId :: string
  sb_reservationId :: "string option"

text \<open>\<open>None\<close>: the body is empty, no JSON, or has other keys. A tag is never empty, so that StEvE's schema holds.\<close>

definition start_handler ::
  "'s steve_api \<Rightarrow> meta_io \<Rightarrow> control_io \<Rightarrow> device_context option \<Rightarrow> string \<Rightarrow> start_body option \<Rightarrow> 's control_state
     \<Rightarrow> control_reply \<times> 's control_state"
where
  "start_handler api mio io device box body st =
     (case control_guard device box of
        Inl r \<Rightarrow> (r, st)
      | Inr dc \<Rightarrow>
     (case body of
        None \<Rightarrow> (Failed 400 ''invalid_body'', st)
      | Some b \<Rightarrow>
          if sb_lagoCustomerExternalId b = [] \<or> sb_reservationId b = Some [] then (Failed 400 ''invalid_body'', st)
          else case online_guard io box (ct_chargers st) of
            Some r \<Rightarrow> (r, st)
          | None \<Rightarrow>
              (case ensureCustomerMetaTag api mio (sb_lagoCustomerExternalId b) None (ct_tags st) of
                 (res, tags) \<Rightarrow>
                   let tag = (case res of Some r \<Rightarrow> mr_idTag r | None \<Rightarrow> parentIdTagFor (sb_lagoCustomerExternalId b)) in
                   submit io dc (RemoteStart box tag)
                     (Start_charge (dc_id dc) box (sb_lagoCustomerExternalId b) tag (sb_reservationId b))
                     (st\<lparr>ct_tags := tags\<rparr>))))"

text \<open>
  \<open>body\<close> is \<open>None\<close> when it is invalid, otherwise the transaction it names, if any; \<open>active\<close> the
  active transactions of the charger (\<open>None\<close>: the call throws).
\<close>

definition stop_handler ::
  "int list option \<Rightarrow> control_io \<Rightarrow> device_context option \<Rightarrow> string \<Rightarrow> int option option \<Rightarrow> 's control_state
     \<Rightarrow> control_reply \<times> 's control_state"
where
  "stop_handler active io device box body st =
     (case control_guard device box of
        Inl r \<Rightarrow> (r, st)
      | Inr dc \<Rightarrow>
     (case body of
        None \<Rightarrow> (Failed 400 ''invalid_body'', st)
      | Some txn \<Rightarrow>
          if (case txn of None \<Rightarrow> False | Some t \<Rightarrow> t \<le> 0) then (Failed 400 ''invalid_body'', st)
          else case online_guard io box (ct_chargers st) of
            Some r \<Rightarrow> (r, st)
          | None \<Rightarrow>
              (case (case txn of Some t \<Rightarrow> Inr t
                     | None \<Rightarrow> (case active of
                         None \<Rightarrow> Inl (Failed 502 ''steve_unreachable'')
                       | Some [] \<Rightarrow> Inl (Failed 404 ''no_active_transaction'')
                       | Some (t # _) \<Rightarrow> Inr t)) of
                 Inl r \<Rightarrow> (r, st)
               | Inr t \<Rightarrow> submit io dc (RemoteStop box t) (Stop_charge (dc_id dc) box t) st)))"

section \<open>Cancelling a reservation\<close>

datatype cancel_reply = Refused_cancel int string | Cancelled int reservation_status

text \<open>
  The body is \<open>None\<close> when it is invalid, otherwise the text of the id. The audit entry is returned with
  the calls to StEvE and the notices of the service.
\<close>

record cancel_effects =
  ce_calls :: "(string \<times> int) list"
  ce_notices :: "reservation_notice list"
  ce_audit :: "(string \<times> charge_audit) list"

definition no_effects :: cancel_effects where
  "no_effects = \<lparr>ce_calls = [], ce_notices = [], ce_audit = []\<rparr>"

definition parse_reservation_id :: "string \<Rightarrow> int option" where
  "parse_reservation_id s =
     (if s = [] then None
      else case parse_int s of NaN \<Rightarrow> None | Num q \<Rightarrow> if q > 0 then Some \<lfloor>q\<rfloor> else None)"

definition cancel_reservation_handler ::
  "(int \<Rightarrow> string) \<Rightarrow> bool \<Rightarrow> control_io \<Rightarrow> device_context option \<Rightarrow> string \<Rightarrow> string option \<Rightarrow> charger_row list \<Rightarrow> reservation_db
     \<Rightarrow> cancel_reply \<times> cancel_effects \<times> reservation_db"
where
  "cancel_reservation_handler date stored io device box body chargers d =
     (case control_guard device box of
        Inl (Failed c e) \<Rightarrow> (Refused_cancel c e, no_effects, d)
      | Inl _ \<Rightarrow> (Refused_cancel 500 [], no_effects, d)
      | Inr dc \<Rightarrow>
     (case (case body of None \<Rightarrow> None | Some s \<Rightarrow> parse_reservation_id s) of
        None \<Rightarrow> (Refused_cancel 400 ''invalid_body'', no_effects, d)
      | Some i \<Rightarrow>
     (case online_guard io box chargers of
        Some (Failed c e) \<Rightarrow> (Refused_cancel c e, no_effects, d)
      | Some _ \<Rightarrow> (Refused_cancel 500 [], no_effects, d)
      | None \<Rightarrow>
     (case find (\<lambda>r. rv_id r = i) (rd_rows d) of
        None \<Rightarrow> (Refused_cancel 404 ''reservation_not_found'', no_effects, d)
      | Some r \<Rightarrow>
          if rv_chargeBoxId r \<noteq> box then (Refused_cancel 404 ''reservation_not_found'', no_effects, d)
          else if rv_status r = RCancelled then (Refused_cancel 409 ''already_cancelled'', no_effects, d)
          else (case cancelReservation date stored (ci_now io) i None d of
            (None, calls, notices, d') \<Rightarrow> (Refused_cancel 404 ''reservation_not_found'', \<lparr>ce_calls = calls, ce_notices = notices, ce_audit = []\<rparr>, d')
          | (Some x, calls, notices, d') \<Rightarrow>
              (Cancelled (rv_id x) (rv_status x),
               \<lparr>ce_calls = calls, ce_notices = notices,
                ce_audit = [(dc_ownerUserId dc, Cancel_reservation (dc_id dc) box (rv_id x))]\<rparr>, d'))))))"

section \<open>Every command is logged\<close>

text \<open>An update of one row that leaves its key, its command and its user alone.\<close>

definition touches :: "int \<Rightarrow> (op_row \<Rightarrow> op_row) \<Rightarrow> bool" where
  "touches i f \<longleftrightarrow> (\<forall>x. ol_id (f x) = ol_id x \<and> ol_command (f x) = ol_command x \<and>
     ol_requestedByUserId (f x) = ol_requestedByUserId x \<and> (ol_id x \<noteq> i \<longrightarrow> f x = x))"

definition new_op :: "device_context \<Rightarrow> command \<Rightarrow> 's control_state \<Rightarrow> op_row" where
  "new_op dc cmd st = \<lparr>ol_id = ct_nextOp st, ol_command = cmd, ol_requestedByUserId = dc_ownerUserId dc,
     ol_status = Op_pending, ol_taskId = None\<rparr>"

lemma new_op_simps [simp]:
  "ol_id (new_op dc cmd st) = ct_nextOp st" "ol_command (new_op dc cmd st) = cmd"
  "ol_requestedByUserId (new_op dc cmd st) = dc_ownerUserId dc"
  by (simp_all add: new_op_def)

lemma submit_cases:
  assumes "submit io dc cmd audit st = (reply, st')"
  obtains (refused) "reply = Failed 500 ''internal_error''" "st' = st"
  | (lost) f ts where "reply = Not_started (ct_nextOp st)" "touches (ct_nextOp st) f" "ts = ct_sent st \<or> ts = ct_sent st @ [cmd]"
      "st' = st\<lparr>ct_ops := map f (ct_ops st @ [new_op dc cmd st]), ct_nextOp := ct_nextOp st + 1, ct_sent := ts\<rparr>"
  | (taken) f t where "reply = Submitted (ct_nextOp st) t" "touches (ct_nextOp st) f"
      "ol_status (f (new_op dc cmd st)) = Op_submitted"
      "st' = st\<lparr>ct_ops := map f (ct_ops st @ [new_op dc cmd st]), ct_nextOp := ct_nextOp st + 1,
         ct_sent := ct_sent st @ [cmd], ct_audit := ct_audit st @ [(dc_ownerUserId dc, audit (ct_nextOp st))]\<rparr>"
proof (cases "ci_insert io")
  case False
  then show thesis using assms that(1) by (simp add: submit_def)
next
  case ins: True
  let ?i = "ct_nextOp st"
  have upd: "touches ?i (\<lambda>x. if ol_id x = ?i then x\<lparr>ol_status := Op_failed\<rparr> else x)"
      "touches ?i (\<lambda>x. if ol_id x = ?i then x\<lparr>ol_taskId := Some t, ol_status := Op_submitted\<rparr> else x)" "touches ?i (\<lambda>x. x)" for t
    by (simp_all add: touches_def)
  define f :: "op_row \<Rightarrow> op_row" where "f = (if ci_fail io then (\<lambda>x. if ol_id x = ?i then x\<lparr>ol_status := Op_failed\<rparr> else x) else (\<lambda>x. x))"
  have f: "touches ?i f" unfolding f_def using upd by simp
  have failed: "(if ci_fail io then set_op ?i (\<lambda>x. x\<lparr>ol_status := Op_failed\<rparr>) s else s) = s\<lparr>ct_ops := map f (ct_ops s)\<rparr>"
    for s :: "'a control_state"
    by (simp add: f_def set_op_def)
  show thesis
  proof (cases "ci_task io")
    case None
    have "reply = Not_started ?i \<and> st' = st\<lparr>ct_ops := map f (ct_ops st @ [new_op dc cmd st]), ct_nextOp := ?i + 1, ct_sent := ct_sent st\<rparr>"
      using assms ins None by (auto simp: submit_def Let_def failed new_op_def intro!: control_state.equality)
    then show thesis using that(2) f by blast
  next
    case (Some t)
    show thesis
    proof (cases "ci_mark io")
      case False
      have "reply = Not_started ?i \<and> st' = st\<lparr>ct_ops := map f (ct_ops st @ [new_op dc cmd st]), ct_nextOp := ?i + 1, ct_sent := ct_sent st @ [cmd]\<rparr>"
        using assms ins Some False by (auto simp: submit_def Let_def failed new_op_def intro!: control_state.equality)
      then show thesis using that(2) f by blast
    next
      case True
      let ?g = "\<lambda>x. if ol_id x = ?i then x\<lparr>ol_taskId := Some t, ol_status := Op_submitted\<rparr> else x"
      have "reply = Submitted ?i t \<and> st' = st\<lparr>ct_ops := map ?g (ct_ops st @ [new_op dc cmd st]), ct_nextOp := ?i + 1,
         ct_sent := ct_sent st @ [cmd], ct_audit := ct_audit st @ [(dc_ownerUserId dc, audit ?i)]\<rparr>"
        using assms ins Some True by (auto simp: submit_def Let_def set_op_def new_op_def intro!: control_state.equality)
      moreover have "ol_status (?g (new_op dc cmd st)) = Op_submitted" by simp
      ultimately show thesis using that(3) [OF _ upd(2) [of t]] by blast
    qed
  qed
qed

definition entry_logged :: "op_row list \<Rightarrow> string \<times> charge_audit \<Rightarrow> bool" where
  "entry_logged ops e = (case e of
     (u, Start_charge dev box ext tag r i) \<Rightarrow>
       (\<exists>x \<in> set ops. ol_id x = i \<and> ol_command x = RemoteStart box tag \<and> ol_requestedByUserId x = u \<and> ol_status x = Op_submitted)
   | (u, Stop_charge dev box t i) \<Rightarrow>
       (\<exists>x \<in> set ops. ol_id x = i \<and> ol_command x = RemoteStop box t \<and> ol_requestedByUserId x = u \<and> ol_status x = Op_submitted)
   | (u, Cancel_reservation dev box i) \<Rightarrow> True)"


text \<open>
  The invariant of the log: keys are unique and below the next one, every command StEvE took has a row
  of its own, and every audit entry names a submitted row with its command and its user.
\<close>

definition control_ok :: "'s control_state \<Rightarrow> bool" where
  "control_ok st \<longleftrightarrow>
     distinct (map ol_id (ct_ops st)) \<and> (\<forall>x \<in> set (ct_ops st). ol_id x < ct_nextOp st) \<and>
     mset (ct_sent st) \<subseteq># mset (map ol_command (ct_ops st)) \<and> list_all (entry_logged (ct_ops st)) (ct_audit st)"

lemma touches_simps:
  assumes "touches i f"
  shows "ol_id (f x) = ol_id x" "ol_command (f x) = ol_command x" "ol_requestedByUserId (f x) = ol_requestedByUserId x"
    "ol_id x \<noteq> i \<Longrightarrow> f x = x"
  using assms by (simp_all add: touches_def)

lemma entry_logged_mono: "set ops \<subseteq> set ops' \<Longrightarrow> entry_logged ops e \<Longrightarrow> entry_logged ops' e"
  by (auto simp: entry_logged_def split: prod.splits charge_audit.splits)

text \<open>The entry that goes with a command.\<close>

definition audit_of :: "command \<Rightarrow> (int \<Rightarrow> charge_audit) \<Rightarrow> bool" where
  "audit_of cmd audit \<longleftrightarrow>
     (\<exists>dev box ext tag r. cmd = RemoteStart box tag \<and> audit = Start_charge dev box ext tag r) \<or>
     (\<exists>dev box t. cmd = RemoteStop box t \<and> audit = Stop_charge dev box t)"

lemma submit_ok:
  assumes "submit io dc cmd audit st = (reply, st')" and ok: "control_ok st" and a: "audit_of cmd audit"
  shows "control_ok st'"
proof -
  have grown: "control_ok (st\<lparr>ct_ops := map f (ct_ops st @ [new_op dc cmd st]), ct_nextOp := ct_nextOp st + 1, ct_sent := ts, ct_audit := au\<rparr>)"
    if f: "touches (ct_nextOp st) f" and ts: "ts = ct_sent st \<or> ts = ct_sent st @ [cmd]"
      and au: "list_all (entry_logged (map f (ct_ops st @ [new_op dc cmd st]))) au" for f ts au
  proof -
    have old: "map f (ct_ops st) = ct_ops st"
      using ok touches_simps(4) [OF f] by (intro map_idI) (auto simp: control_ok_def)
    have "ct_nextOp st \<notin> ol_id ` set (ct_ops st)" using ok by (force simp: control_ok_def)
    moreover have "mset ts \<subseteq># mset (map ol_command (ct_ops st)) + {#cmd#}"
      using ok ts subset_mset.order_trans [OF _ mset_subset_eq_add_left [of "mset (map ol_command (ct_ops st))" "{#cmd#}"]]
      unfolding control_ok_def by (elim disjE) simp_all
    ultimately show ?thesis
      using ok au touches_simps [OF f] unfolding control_ok_def map_append old by (auto simp: less_le_trans)
  qed
  show ?thesis
    using assms(1)
  proof (cases rule: submit_cases)
    case refused
    then show ?thesis using ok by simp
  next
    case (lost f ts)
    have "list_all (entry_logged (map f (ct_ops st @ [new_op dc cmd st]))) (ct_audit st)"
    proof -
      have "map f (ct_ops st) = ct_ops st"
        using ok touches_simps(4) [OF lost(2)] by (intro map_idI) (auto simp: control_ok_def)
      then have "set (ct_ops st) \<subseteq> set (map f (ct_ops st @ [new_op dc cmd st]))" by (metis map_append set_append Un_upper1)
      then show ?thesis using ok entry_logged_mono by (fastforce simp: control_ok_def list_all_iff)
    qed
    from grown [OF lost(2,3) this] show ?thesis unfolding lost(4) by simp
  next
    case (taken f t)
    let ?ops = "map f (ct_ops st @ [new_op dc cmd st])"
    have "list_all (entry_logged ?ops) (ct_audit st @ [(dc_ownerUserId dc, audit (ct_nextOp st))])"
    proof -
      have "map f (ct_ops st) = ct_ops st"
        using ok touches_simps(4) [OF taken(2)] by (intro map_idI) (auto simp: control_ok_def)
      then have "set (ct_ops st) \<subseteq> set ?ops" by (metis map_append set_append Un_upper1)
      moreover have "entry_logged ?ops (dc_ownerUserId dc, audit (ct_nextOp st))"
        using a taken(3) touches_simps [OF taken(2)] unfolding audit_of_def
        by (auto simp: entry_logged_def)
      ultimately show ?thesis using ok entry_logged_mono by (fastforce simp: control_ok_def list_all_iff)
    qed
    from grown [OF taken(2) _ this, of "ct_sent st @ [cmd]"] show ?thesis unfolding taken(4) by simp
  qed
qed

inductive control_step :: "'s steve_api \<Rightarrow> 's control_state \<Rightarrow> 's control_state \<Rightarrow> bool" for api where
  start: "start_handler api mio io device box body st = (reply, st') \<Longrightarrow> control_step api st st'"
| stop: "stop_handler active io device box txn st = (reply, st') \<Longrightarrow> control_step api st st'"
| seen: "control_step api st (st\<lparr>ct_chargers := rows\<rparr>)"

inductive control_run :: "'s steve_api \<Rightarrow> 's control_state \<Rightarrow> 's control_state \<Rightarrow> bool" for api where
  start: "control_run api st st"
| step: "control_run api st st1 \<Longrightarrow> control_step api st1 st2 \<Longrightarrow> control_run api st st2"

lemma start_handler_cases:
  assumes "start_handler api mio io device box body st = (reply, st')"
  obtains (refused) c e where "reply = Failed c e" "st' = st"
  | (submitted) dc b tag tags where "device = Some dc" "''user'' \<in> set (dc_capabilities dc)" "body = Some b"
      "online_guard io box (ct_chargers st) = None"
      "tags = snd (ensureCustomerMetaTag api mio (sb_lagoCustomerExternalId b) None (ct_tags st))"
      "tag = (case fst (ensureCustomerMetaTag api mio (sb_lagoCustomerExternalId b) None (ct_tags st)) of
         Some r \<Rightarrow> mr_idTag r | None \<Rightarrow> parentIdTagFor (sb_lagoCustomerExternalId b))"
      "submit io dc (RemoteStart box tag) (Start_charge (dc_id dc) box (sb_lagoCustomerExternalId b) tag (sb_reservationId b))
         (st\<lparr>ct_tags := tags\<rparr>) = (reply, st')"
proof -
  have guard: "\<exists>c e. r = Failed c e" if "control_guard device box = Inl r" for r
    using that by (auto simp: control_guard_def split: option.splits if_splits)
  have online: "\<exists>c e. r = Failed c e" if "online_guard io box (ct_chargers st) = Some r" for r
    using that by (auto simp: online_guard_def split: if_splits sum.splits charger_error.splits)
  show thesis
  proof (cases "control_guard device box")
    case (Inl r)
    then show thesis using assms guard that(1) by (auto simp: start_handler_def)
  next
    case (Inr dc)
    then have dc: "device = Some dc" "''user'' \<in> set (dc_capabilities dc)"
      by (auto simp: control_guard_def requireCapability_def split: option.splits if_splits)
    show thesis
    proof (cases body)
      case None
      then show thesis using assms Inr that(1) by (auto simp: start_handler_def)
    next
      case (Some b)
      show thesis
      proof (cases "sb_lagoCustomerExternalId b = [] \<or> sb_reservationId b = Some []")
        case True
        then show thesis using assms Inr Some that(1) by (auto simp: start_handler_def)
      next
        case ok: False
        show thesis
        proof (cases "online_guard io box (ct_chargers st)")
          case (Some r)
          then show thesis using assms Inr \<open>body = Some b\<close> ok online that(1) by (auto simp: start_handler_def)
        next
          case None
          show thesis
            by (rule that(2) [OF dc \<open>body = Some b\<close> None refl refl])
              (use assms Inr \<open>body = Some b\<close> ok None in \<open>simp add: start_handler_def Let_def split_beta\<close>)
        qed
      qed
    qed
  qed
qed

lemma stop_handler_cases:
  assumes "stop_handler active io device box body st = (reply, st')"
  obtains (refused) c e where "reply = Failed c e" "st' = st"
  | (submitted) dc t where "device = Some dc" "''user'' \<in> set (dc_capabilities dc)"
      "online_guard io box (ct_chargers st) = None"
      "submit io dc (RemoteStop box t) (Stop_charge (dc_id dc) box t) st = (reply, st')"
proof -
  have guard: "\<exists>c e. r = Failed c e" if "control_guard device box = Inl r" for r
    using that by (auto simp: control_guard_def split: option.splits if_splits)
  have online: "\<exists>c e. r = Failed c e" if "online_guard io box (ct_chargers st) = Some r" for r
    using that by (auto simp: online_guard_def split: if_splits sum.splits charger_error.splits)
  show thesis
  proof (cases "control_guard device box")
    case (Inl r)
    then show thesis using assms guard that(1) by (auto simp: stop_handler_def)
  next
    case (Inr dc)
    then have dc: "device = Some dc" "''user'' \<in> set (dc_capabilities dc)"
      by (auto simp: control_guard_def requireCapability_def split: option.splits if_splits)
    show thesis
    proof (cases body)
      case None
      then show thesis using assms Inr that(1) by (auto simp: stop_handler_def)
    next
      case (Some txn)
      show thesis
      proof (cases "online_guard io box (ct_chargers st)")
        case (Some r)
        then show thesis using assms Inr \<open>body = Some txn\<close> online that(1)
          by (auto simp: stop_handler_def split: if_splits)
      next
        case None
        then show thesis using assms Inr \<open>body = Some txn\<close> that(1) that(2) [OF dc None]
          by (auto simp: stop_handler_def split: if_splits option.splits list.splits)
      qed
    qed
  qed
qed

lemma control_step_ok: "control_step api st st' \<Longrightarrow> control_ok st \<Longrightarrow> control_ok st'"
proof (induction rule: control_step.induct)
  case (start mio io device box body st reply st')
  from start(1) show ?case
  proof (cases rule: start_handler_cases)
    case (submitted dc b tag tags)
    have "control_ok (st\<lparr>ct_tags := tags\<rparr>)" using start(2) by (simp add: control_ok_def)
    from submit_ok [OF submitted(7) this] show ?thesis by (auto simp: audit_of_def)
  qed (use start(2) in simp)
next
  case (stop active io device box txn st reply st')
  from stop(1) show ?case
  proof (cases rule: stop_handler_cases)
    case (submitted dc t)
    from submit_ok [OF submitted(4) stop(2)] show ?thesis by (auto simp: audit_of_def)
  qed (use stop(2) in simp)
qed (simp add: control_ok_def)

text \<open>
  No command reaches a charger unlogged. From an empty log, after any sequence of starts and
  stops by any devices and with any outcomes of the statements and of StEvE, the commands StEvE
  took, each as often as it took it, are among the commands of the rows of the operation log; and
  every audit entry names a row in the state submitted, with the same command and the same user.
\<close>

theorem commands_logged:
  assumes "control_run api st st'" "ct_ops st = []" "ct_sent st = []" "ct_audit st = []"
  shows "mset (ct_sent st') \<subseteq># mset (map ol_command (ct_ops st')) \<and> distinct (map ol_id (ct_ops st')) \<and>
    list_all (entry_logged (ct_ops st')) (ct_audit st')"
proof -
  have "control_ok st" using assms(2-4) by (simp add: control_ok_def)
  with assms(1) have "control_ok st'"
    by (induction rule: control_run.induct) (auto intro: control_step_ok)
  then show ?thesis by (simp add: control_ok_def)
qed

text \<open>
  What the reply of a start says of the charger. A failure before the log row means that no
  command was sent and nothing was logged; a submitted start was sent, once, to the charger of the
  path, which was online, for a device with the capability; but the reply that the charger could
  not start the session is also given when StEvE took the command and only the update of the log
  row failed.
\<close>

theorem start_replies:
  shows "start_handler api mio io device box body st = (reply, st') \<Longrightarrow>
    (case reply of
       Failed c e \<Rightarrow> ct_sent st' = ct_sent st \<and> ct_ops st' = ct_ops st
     | Submitted i t \<Rightarrow> (\<exists>tag dc r. ct_sent st' = ct_sent st @ [RemoteStart box tag] \<and> device = Some dc \<and>
         ''user'' \<in> set (dc_capabilities dc) \<and> requireOnlineCharger (ci_now io) box (ct_chargers st) = Inr r)
     | Not_started i \<Rightarrow> (ci_task io = None \<longleftrightarrow> ct_sent st' = ct_sent st) \<and>
         (ci_task io \<noteq> None \<longrightarrow> (\<exists>tag. ct_sent st' = ct_sent st @ [RemoteStart box tag])))"
proof (erule start_handler_cases, goal_cases)
  case (1 c e)
  then show ?case by simp
next
  case (2 dc b tag tags)
  obtain r where r: "requireOnlineCharger (ci_now io) box (ct_chargers st) = Inr r"
    using 2(4) by (auto simp: online_guard_def split: if_splits sum.splits charger_error.splits)
  have "ci_insert io \<Longrightarrow> ct_sent st' = (if ci_task io = None then ct_sent st else ct_sent st @ [RemoteStart box tag])"
    "\<not> ci_insert io \<Longrightarrow> reply = Failed 500 ''internal_error'' \<and> st' = st\<lparr>ct_tags := tags\<rparr>"
    "\<And>i t. reply = Submitted i t \<Longrightarrow> ci_task io \<noteq> None" "\<And>c e. reply = Failed c e \<Longrightarrow> \<not> ci_insert io"
    using 2(7) by (auto simp: submit_def set_op_def Let_def split: if_splits option.splits)
  then show ?case using 2(1,2) r by (cases reply; cases "ci_insert io") auto
qed

lemma find_row_mapped:
  "(\<And>x. rv_id (f x) = rv_id x) \<Longrightarrow> find (\<lambda>r. rv_id r = i) rows = Some r \<Longrightarrow>
   find (\<lambda>r. rv_id r = i) (map (\<lambda>r. if rv_id r = i then f r else r) rows) = Some (f r)"
  by (induction rows) (auto split: if_splits)

text \<open>
  A phone cancels only at the charger it names. A refused cancellation changes nothing and calls
  nobody; a successful one was for a reservation of the charger in the path that was not cancelled
  yet, and changes the rows with its id only, to cancelled at the time of the request.
\<close>

theorem cancel_within_charger:
  assumes "cancel_reservation_handler date stored io device box body chargers d = (reply, eff, d')"
  shows "case reply of
      Refused_cancel c e \<Rightarrow> d' = d \<and> eff = no_effects
    | Cancelled i s \<Rightarrow> s = RCancelled \<and>
        (\<exists>r \<in> set (rd_rows d). rv_id r = i \<and> rv_chargeBoxId r = box \<and> rv_status r \<noteq> RCancelled) \<and>
        rd_rows d' = map (\<lambda>r. if rv_id r = i
          then r\<lparr>rv_status := RCancelled, rv_cancelledAt := Some (ci_now io), rv_updatedAt := ci_now io\<rparr> else r) (rd_rows d)"
proof (cases "\<exists>c e. reply = Refused_cancel c e \<and> eff = no_effects \<and> d' = d")
  case True
  then show ?thesis by auto
next
  case False
  obtain dc where dc: "control_guard device box = Inr dc"
    using assms(1) False by (cases "control_guard device box") (auto simp: cancel_reservation_handler_def split: control_reply.splits)
  obtain i where i: "(case body of None \<Rightarrow> None | Some s \<Rightarrow> parse_reservation_id s) = Some i"
    using assms(1) False dc
    by (cases "case body of None \<Rightarrow> None | Some s \<Rightarrow> parse_reservation_id s") (auto simp: cancel_reservation_handler_def)
  have on: "online_guard io box chargers = None"
    using assms(1) False dc i by (cases "online_guard io box chargers") (auto simp: cancel_reservation_handler_def split: control_reply.splits)
  obtain r where r: "find (\<lambda>r. rv_id r = i) (rd_rows d) = Some r"
    using assms(1) False dc i on by (cases "find (\<lambda>r. rv_id r = i) (rd_rows d)") (auto simp: cancel_reservation_handler_def)
  have box: "rv_chargeBoxId r = box" "rv_status r \<noteq> RCancelled"
    using assms(1) False dc i on r by (auto simp: cancel_reservation_handler_def split: if_splits)
  have r': "r \<in> set (rd_rows d)" "rv_id r = i" using find_Some_set [OF r] by simp_all
  define f where "f = (\<lambda>x :: reservation. x\<lparr>rv_status := RCancelled, rv_cancelledAt := Some (ci_now io), rv_updatedAt := ci_now io\<rparr>)"
  have fid: "rv_id (f x) = rv_id x" for x by (simp add: f_def)
  have u: "update_row i f d = (Some (f r), d\<lparr>rd_rows := map (\<lambda>r. if rv_id r = i then f r else r) (rd_rows d)\<rparr>)"
    unfolding update_row_def Let_def using find_row_mapped [of f, OF fid r] by simp
  then obtain calls notices where "cancelReservation date stored (ci_now io) i None d =
      (Some (f r), calls, notices, d\<lparr>rd_rows := map (\<lambda>r. if rv_id r = i then f r else r) (rd_rows d)\<rparr>)"
    using r box(2) by (simp add: cancelReservation_def Let_def f_def [symmetric])
  then have "reply = Cancelled i RCancelled" "d' = d\<lparr>rd_rows := map (\<lambda>r. if rv_id r = i then f r else r) (rd_rows d)\<rparr>"
    using assms(1) dc i on r box r' by (auto simp: cancel_reservation_handler_def f_def)
  then show ?thesis using r' box by (auto simp: f_def)
qed

section \<open>Whose charge a phone starts\<close>

lemma start_path_admin:
  assumes "box \<noteq> []" "\<forall>c \<in> set box. c \<noteq> CHR ''/''" and p: "p = ''/api/admin/devices/'' @ box @ ''/start''"
  shows "admin_path p" "\<not> admin_public p" "device_control p" "\<not> has_prefix ''/api/customer/'' p"
proof -
  have pre: "has_prefix ''/api/admin/devices/'' p" by (simp add: p has_prefix_iff)
  then show "admin_path p" by (simp add: admin_path_def has_prefix_def p)
  have no: "\<not> has_prefix q p" if "\<not> comparable q ''/api/admin/devices/''" for q
    using has_prefix_comparable [of q p "''/api/admin/devices/''"] pre that by blast
  show "\<not> has_prefix ''/api/customer/'' p" by (rule no) code_simp
  have "\<not> has_prefix ''/admin/login'' p" "\<not> has_prefix ''/admin/reset-password'' p"
      "\<not> has_prefix ''/api/admin/forgot-password'' p" "\<not> has_prefix ''/api/admin/reset-password'' p"
    by (rule no; code_simp)+
  moreover have "has_prefix q p" if "p = q \<or> has_prefix (q @ ''/'') p" for q
    using that by (auto simp: has_prefix_iff)
  ultimately show "\<not> admin_public p" unfolding admin_public_def by blast
  have "takeWhile (\<lambda>c. c \<noteq> CHR ''/'') (box @ ''/start'') = box" "dropWhile (\<lambda>c. c \<noteq> CHR ''/'') (box @ ''/start'') = ''/start''"
    using assms(2) by (simp_all add: takeWhile_append2 dropWhile_append2)
  then show "device_control p"
    using pre assms(1) by (simp add: device_control_def p DEVICE_VERBS_def)
qed

lemma middleware_token:
  assumes host: "classifySurface (to_lower (rq_host rq)) = Some Admin"
    and rate: "applyRateLimits (gi_rate io) (gi_now io) (rq_path rq) (getClientIp rq) (gw_rates w) = (True, rows)"
    and path: "admin_path (rq_path rq)" "\<not> admin_public (rq_path rq)" "device_control (rq_path rq)"
      "\<not> has_prefix ''/api/customer/'' (rq_path rq)"
    and token: "fst (resolveBearer sha (gi_lookup io) (gi_bump io) (gi_now io) (rq_authorization rq) (rq_path rq) (gw_store w)) = Some c"
  shows "\<exists>w'. middleware cf sha io rq w = (Next \<lparr>hs_surface = Admin, hs_device = Some c, hs_user = None, hs_actingAs = None\<rparr>, w')"
proof -
  obtain s' where r: "resolveBearer sha (gi_lookup io) (gi_bump io) (gi_now io) (rq_authorization rq) (rq_path rq) (gw_store w) = (Some c, s')"
    using token by (metis prod.collapse)
  have "selectAuth (rq_path rq) = Bearer" using admin_auth [OF path(1)] path(3) by simp
  moreover have "classifyRoute (rq_path rq) Admin \<noteq> PUBLIC" by (rule admin_path_class(1) [OF path(1,2)])
  ultimately show ?thesis
    using host rate path(4) r by (simp add: middleware_def Let_def)
qed

text \<open>
  C33. A customer's phone can charge at any other customer's expense. Whoever signs a phone in with
  the number on a customer's card gets the capability \<open>user\<close>; with the token of that reply, until it
  expires, a request on the admin host for the start of any charger that is online passes the
  middleware, and the handler starts a charge on the parent tag of whatever customer the body names.
\<close>

theorem phone_charges_any_customer:
  assumes sign: "qr_sign_in_POST digest rio True True True ensure Customer (Some (pid, ph)) (g, m) = (Signed_in dev uid tok sec, g', m')"
    and bytes: "\<forall>x \<in> set (rx_tokenBytes rio). x < 256" "length (rx_tokenBytes rio) = 32"
    and req: "rq_authorization rq = Some (''Bearer '' @ tok)" "classifySurface (to_lower (rq_host rq)) = Some Admin"
      "rq_path rq = ''/api/admin/devices/'' @ box @ ''/start''" "box \<noteq> []" "\<forall>c \<in> set box. c \<noteq> CHR ''/''"
    and gate: "applyRateLimits (gi_rate gio) (gi_now gio) (rq_path rq) (getClientIp rq) (gw_rates w) = (True, rows)"
      "gi_lookup gio" "gi_now gio < rx_now rio + DEVICE_TOKEN_TTL_MS" "gw_store w = rg_store g'"
    and body: "sb_lagoCustomerExternalId b = ext" "ext \<noteq> []" "sb_reservationId b \<noteq> Some []"
      "find (\<lambda>u. tu_lagoCustomer u = Some ext) (tw_users (ct_tags st)) = Some other" "mi_user mio"
    and io: "ci_load io" "requireOnlineCharger (ci_now io) box (ct_chargers st) = Inr r" "ci_insert io" "ci_task io = Some t" "ci_mark io"
  shows "\<exists>hs w' i st'. middleware cf (sha256Hex digest) gio rq w = (Next hs, w') \<and>
    start_handler api mio io (hs_device hs) box (Some b) st = (Submitted i t, st') \<and>
    ct_sent st' = ct_sent st @ [RemoteStart box (parentIdTagForUserPublicId (tu_publicId other))]"
proof -
  obtain d tk c where ins: "insert_device digest rio uid customerCapabilityDefaults ph g = (Some (d, tk, c), g')"
    and tok: "tok = cd_deviceToken c"
  proof -
    obtain u p role where f: "find (\<lambda>(i, p, r). p = pid) (rg_users g) = Some (u, p, role)"
      using sign by (cases "find (\<lambda>(i, p, r). p = pid) (rg_users g)") (auto simp: qr_sign_in_POST_def split: if_splits)
    obtain z g1 where z: "insert_device digest rio u customerCapabilityDefaults ph g = (z, g1)" by (rule prod.exhaust)
    show thesis
      using sign f z that by (cases z) (auto simp: qr_sign_in_POST_def Let_def split: if_splits)
  qed
  let ?c = "\<lparr>dc_id = rx_deviceId rio, dc_ownerUserId = uid, dc_capabilities = customerCapabilityDefaults,
    dc_secret = cd_deviceSecret c, dc_tokenId = rx_tokenId rio\<rparr>"
  have res: "fst (resolveBearer (sha256Hex digest) (gi_lookup gio) (gi_bump gio) (gi_now gio) (rq_authorization rq) (rq_path rq) (gw_store w)) = Some ?c"
    using insert_device_resolves [OF ins bytes gate(3), of "gi_bump gio" "rq_path rq"] gate(2,4) req(1) tok by simp
  obtain w' where mw: "middleware cf (sha256Hex digest) gio rq w =
      (Next \<lparr>hs_surface = Admin, hs_device = Some ?c, hs_user = None, hs_actingAs = None\<rparr>, w')"
    using middleware_token [OF req(2) gate(1) start_path_admin [OF req(4,5,3)] res] by blast
  obtain res tags where e: "ensureCustomerMetaTag api mio ext None (ct_tags st) = (res, tags)" by (rule prod.exhaust)
  have tag: "\<exists>x. res = Some x \<and> mr_idTag x = parentIdTagForUserPublicId (tu_publicId other)"
    using e body(4,5) by (auto simp: ensureCustomerMetaTag_def Let_def split: prod.splits)
  have guard: "control_guard (Some ?c) box = Inr ?c"
    using req(4) by (simp add: control_guard_def requireCapability_def customerCapabilityDefaults_def)
  have on: "online_guard io box (ct_chargers st) = None" using io(1,2) by (simp add: online_guard_def)
  obtain i st' where h: "start_handler api mio io (Some ?c) box (Some b) st = (Submitted i t, st')"
      "ct_sent st' = ct_sent st @ [RemoteStart box (parentIdTagForUserPublicId (tu_publicId other))]"
    using tag body(1-3) e guard on io(3-5)
    by (auto simp: start_handler_def submit_def set_op_def Let_def)
  show ?thesis using mw h by auto
qed

section \<open>Example\<close>

text \<open>Anna's phone signs in with her card; Ben is another customer; the charger reported a minute ago.\<close>

definition ben :: tag_user where
  "ben = \<lparr>tu_id = ''ben'', tu_publicId = ''JKMNPQRS'', tu_role = ''customer'', tu_lagoCustomer = Some ''c2''\<rparr>"

definition quiet_control :: "ocpp_tag list control_state" where
  "quiet_control = \<lparr>ct_tags = \<lparr>tw_steve = [], tw_mappings = [], tw_nextId = 1, tw_users = [anna, ben]\<rparr>,
     ct_chargers = [\<lparr>ch_chargeBoxId = ''CB1'', ch_lastSeenAt = None, ch_lastStatusAt = Some 0\<rparr>], ct_ops = [], ct_nextOp = 1,
     ct_sent = [], ct_audit = []\<rparr>"

definition smooth_io :: control_io where
  "smooth_io = \<lparr>ci_now = 60000, ci_load = True, ci_insert = True, ci_task = Some 7, ci_mark = True, ci_fail = True\<rparr>"

definition anna_phone :: device_context where
  "anna_phone = \<lparr>dc_id = ''device-2'', dc_ownerUserId = ''anna'', dc_capabilities = [''user''], dc_secret = [], dc_tokenId = ''token-2''\<rparr>"

definition start_for :: "string \<Rightarrow> start_body" where
  "start_for ext = \<lparr>sb_lagoCustomerExternalId = ext, sb_reservationId = None\<rparr>"

definition started :: "control_reply \<times> ocpp_tag list control_state" where
  "started = start_handler list_steve anna_io smooth_io (Some anna_phone) ''CB1'' (Some (start_for ''c2'')) quiet_control"

lemma started_facts:
  "fst started = Submitted 1 7" "ct_sent (snd started) = [RemoteStart ''CB1'' ''META-JKMNPQRS'']"
  by code_simp+

lemma started_run:
  "start_handler list_steve anna_io smooth_io (Some anna_phone) ''CB1'' (Some (start_for ''c2'')) quiet_control = (Submitted 1 7, snd started)"
  by (metis prod.collapse started_def started_facts(1))

theorem commands_logged_witness:
  "mset [RemoteStart ''CB1'' ''META-JKMNPQRS''] \<subseteq># mset (map ol_command (ct_ops (snd started)))"
proof -
  have run: "control_run list_steve quiet_control (snd started)"
    by (rule control_run.step [OF control_run.start control_step.start [OF started_run]])
  have "ct_ops quiet_control = []" "ct_sent quiet_control = []" "ct_audit quiet_control = []" by (simp_all add: quiet_control_def)
  from commands_logged [OF run this] started_facts(2) show ?thesis by simp
qed

text \<open>StEvE takes the command, and the update of the row fails.\<close>

definition unmarked :: "control_reply \<times> ocpp_tag list control_state" where
  "unmarked = start_handler list_steve anna_io (smooth_io\<lparr>ci_mark := False\<rparr>) (Some anna_phone) ''CB1'' (Some (start_for ''c2'')) quiet_control"

theorem start_replies_witness:
  "fst unmarked = Not_started 1 \<and> (\<exists>tag. ct_sent (snd unmarked) = [RemoteStart ''CB1'' tag])"
proof -
  have r: "fst unmarked = Not_started 1" by code_simp
  then have u: "start_handler list_steve anna_io (smooth_io\<lparr>ci_mark := False\<rparr>) (Some anna_phone) ''CB1'' (Some (start_for ''c2'')) quiet_control =
      (Not_started 1, snd unmarked)"
    by (metis prod.collapse unmarked_def)
  have "ci_task (smooth_io\<lparr>ci_mark := False\<rparr>) \<noteq> None" "ct_sent quiet_control = []"
    by (simp_all add: smooth_io_def quiet_control_def)
  with start_replies [OF u] r show ?thesis by simp
qed

definition one_reservation :: reservation_db where
  "one_reservation = \<lparr>rd_rows = [\<lparr>rv_id = 5, rv_chargeBoxId = ''CB1'', rv_connectorId = 1, rv_tagPk = 1, rv_idTag = ''CARD1'',
     rv_subscription = None, rv_startAt = 100000, rv_endAt = 200000, rv_durationMinutes = 1, rv_status = RConfirmed,
     rv_steveReservationId = Some 9, rv_profileTaskId = None, rv_createdBy = None, rv_updatedAt = 0, rv_cancelledAt = None\<rparr>],
     rd_nextId = 6, rd_mappings = [], rd_chargers = []\<rparr>"

definition cancelled :: "cancel_reply \<times> cancel_effects \<times> reservation_db" where
  "cancelled = cancel_reservation_handler show_int True smooth_io (Some anna_phone) ''CB1'' (Some ''5'') (ct_chargers quiet_control) one_reservation"

theorem cancel_within_charger_witness:
  "fst cancelled = Cancelled 5 RCancelled \<and> ce_calls (fst (snd cancelled)) = [(''CB1'', 9)] \<and>
   (\<exists>r \<in> set (rd_rows one_reservation). rv_id r = 5 \<and> rv_chargeBoxId r = ''CB1'' \<and> rv_status r \<noteq> RCancelled)"
proof -
  have f: "fst cancelled = Cancelled 5 RCancelled" "ce_calls (fst (snd cancelled)) = [(''CB1'', 9)]" by code_simp+
  obtain eff d' where c: "cancelled = (Cancelled 5 RCancelled, eff, d')" using f(1) by (metis prod.collapse)
  from cancel_within_charger [OF c [unfolded cancelled_def]] f show ?thesis by simp
qed

definition anna_signed_in :: "sign_in_reply \<times> registry \<times> unit" where
  "anna_signed_in = qr_sign_in_POST letters_digest (example_io ''device-2'' ''token-2'' 2) True True True (\<lambda>d u p l m. m) Customer
     (Some (''ABCDEFGH'', example_phone)) (empty_registry, ())"

definition anna_token :: string where
  "anna_token = cd_deviceToken (generateDeviceCredentials letters_digest (replicate 32 2) (replicate 32 9))"

definition anna_request :: request where
  "anna_request = (console_request ''manage.example.com'' ''/api/admin/devices/CB1/start'' ''POST'')
     \<lparr>rq_authorization := Some (''Bearer '' @ anna_token)\<rparr>"

definition anna_gate :: gate_world where
  "anna_gate = quiet_world\<lparr>gw_store := rg_store (fst (snd anna_signed_in))\<rparr>"

theorem phone_charges_any_customer_witness:
  "\<exists>hs w' i st'. middleware console_config (sha256Hex letters_digest) (console_io None) anna_request anna_gate = (Next hs, w') \<and>
     start_handler list_steve anna_io smooth_io (hs_device hs) ''CB1'' (Some (start_for ''c2'')) quiet_control = (Submitted i 7, st') \<and>
     ct_sent st' = [RemoteStart ''CB1'' ''META-JKMNPQRS'']"
proof -
  have "fst anna_signed_in = Signed_in ''device-2'' ''anna'' anna_token
      (cd_deviceSecret (generateDeviceCredentials letters_digest (replicate 32 2) (replicate 32 9)))"
    by code_simp
  then have sign: "qr_sign_in_POST letters_digest (example_io ''device-2'' ''token-2'' 2) True True True (\<lambda>d u p l m. m) Customer
     (Some (''ABCDEFGH'', example_phone)) (empty_registry, ()) =
      (Signed_in ''device-2'' ''anna'' anna_token
         (cd_deviceSecret (generateDeviceCredentials letters_digest (replicate 32 2) (replicate 32 9))), fst (snd anna_signed_in), ())"
    by (simp add: anna_signed_in_def prod_eq_iff)
  have bytes: "\<forall>x \<in> set (rx_tokenBytes (example_io ''device-2'' ''token-2'' 2)). x < 256"
      "length (rx_tokenBytes (example_io ''device-2'' ''token-2'' 2)) = 32"
    by (simp_all add: example_io_def)
  have req: "rq_authorization anna_request = Some (''Bearer '' @ anna_token)"
      "classifySurface (to_lower (rq_host anna_request)) = Some Admin"
      "rq_path anna_request = ''/api/admin/devices/'' @ ''CB1'' @ ''/start''"
      "''CB1'' \<noteq> []" "\<forall>c \<in> set ''CB1''. c \<noteq> CHR ''/''"
    by code_simp+
  have "fst (applyRateLimits (gi_rate (console_io None)) (gi_now (console_io None)) (rq_path anna_request) (getClientIp anna_request) (gw_rates anna_gate))"
    by code_simp
  then obtain rows where rate: "applyRateLimits (gi_rate (console_io None)) (gi_now (console_io None)) (rq_path anna_request)
      (getClientIp anna_request) (gw_rates anna_gate) = (True, rows)"
    by (metis prod.collapse)
  have gate: "gi_lookup (console_io None)" "gi_now (console_io None) < rx_now (example_io ''device-2'' ''token-2'' 2) + DEVICE_TOKEN_TTL_MS"
      "gw_store anna_gate = rg_store (fst (snd anna_signed_in))"
    by (simp_all add: console_io_def example_io_def DEVICE_TOKEN_TTL_MS_def anna_gate_def)
  have body: "sb_lagoCustomerExternalId (start_for ''c2'') = ''c2''" "''c2'' \<noteq> []" "sb_reservationId (start_for ''c2'') \<noteq> Some []"
      "find (\<lambda>u. tu_lagoCustomer u = Some ''c2'') (tw_users (ct_tags quiet_control)) = Some ben" "mi_user anna_io"
    by (simp_all add: start_for_def quiet_control_def anna_def ben_def anna_io_def)
  have io: "ci_load smooth_io" "requireOnlineCharger (ci_now smooth_io) ''CB1'' (ct_chargers quiet_control) =
        Inr \<lparr>ch_chargeBoxId = ''CB1'', ch_lastSeenAt = None, ch_lastStatusAt = Some 0\<rparr>"
      "ci_insert smooth_io" "ci_task smooth_io = Some 7" "ci_mark smooth_io"
    by (simp_all add: smooth_io_def quiet_control_def requireOnlineCharger_def loadChargerRow_def isChargerOnline_def nullish_def
      CHARGER_ONLINE_WINDOW_MS_def)
  have "ct_sent quiet_control = []" "parentIdTagForUserPublicId (tu_publicId ben) = ''META-JKMNPQRS''"
    by (simp_all add: quiet_control_def parentIdTagForUserPublicId_def ben_def)
  with phone_charges_any_customer [OF sign bytes req rate gate body io, of console_config list_steve] show ?thesis by simp
qed

end
