(* ===== verification/LagoTypes.thy ===== *)
theory LagoTypes
  imports Settings
begin

text \<open>
  The shapes of what Lago sends (\<open>src/lib/types/lago.ts\<close>): the part of Zod the schemas use, as an
  interpreter over JSON values, the schemas of the cached entities and the union of the webhook
  payloads. A parsed object has the declared fields in the order of the schema; \<open>passthrough\<close>
  keeps the others behind them, a plain object drops them.
\<close>

section \<open>Reading JSON\<close>

definition field :: "json \<Rightarrow> string \<Rightarrow> json option" where
  "field j k = (case j of JObj o' \<Rightarrow> map_of o' k | _ \<Rightarrow> None)"

definition as_str :: "json option \<Rightarrow> string option" where
  "as_str v = (case v of Some (JStr s) \<Rightarrow> Some s | _ \<Rightarrow> None)"

definition as_num :: "json option \<Rightarrow> rat option" where
  "as_num v = (case v of Some (JNum x) \<Rightarrow> Some x | _ \<Rightarrow> None)"

definition as_bool :: "json option \<Rightarrow> bool option" where
  "as_bool v = (case v of Some (JBool b) \<Rightarrow> Some b | _ \<Rightarrow> None)"

definition as_obj :: "json option \<Rightarrow> json option" where
  "as_obj v = (case v of Some (JObj o') \<Rightarrow> Some (JObj o') | _ \<Rightarrow> None)"

definition str_field :: "json \<Rightarrow> string \<Rightarrow> string option" where
  "str_field j k = as_str (field j k)"

section \<open>Schemas\<close>

text \<open>
  \<open>ZScalar\<close> is the union of string, number, boolean and null; \<open>ZRecord\<close> a record of unknown values.
  A field is required, optional or has a default.
\<close>

datatype presence = Required | Optional | Default json

datatype zod =
    ZStr
  | ZNum
  | ZBool
  | ZAny
  | ZScalar
  | ZStrOrNum
  | ZRecord
  | ZEnum "string list"
  | ZNullable zod
  | ZArr zod
  | ZObj bool "(string \<times> presence \<times> zod) list"

fun zod_parse :: "zod \<Rightarrow> json \<Rightarrow> json option"
  and zod_fields :: "(string \<times> presence \<times> zod) list \<Rightarrow> (string \<times> json) list \<Rightarrow> (string \<times> json) list option"
  and zod_elems :: "zod \<Rightarrow> json list \<Rightarrow> json list option"
where
  "zod_parse ZStr j = (case j of JStr _ \<Rightarrow> Some j | _ \<Rightarrow> None)"
| "zod_parse ZNum j = (case j of JNum _ \<Rightarrow> Some j | _ \<Rightarrow> None)"
| "zod_parse ZBool j = (case j of JBool _ \<Rightarrow> Some j | _ \<Rightarrow> None)"
| "zod_parse ZAny j = Some j"
| "zod_parse ZScalar j = (case j of JArr _ \<Rightarrow> None | JObj _ \<Rightarrow> None | _ \<Rightarrow> Some j)"
| "zod_parse ZStrOrNum j = (case j of JStr _ \<Rightarrow> Some j | JNum _ \<Rightarrow> Some j | _ \<Rightarrow> None)"
| "zod_parse ZRecord j = (case j of JObj _ \<Rightarrow> Some j | _ \<Rightarrow> None)"
| "zod_parse (ZEnum xs) j = (case j of JStr s \<Rightarrow> if s \<in> set xs then Some j else None | _ \<Rightarrow> None)"
| "zod_parse (ZNullable z) j = (case j of JNull \<Rightarrow> Some JNull | _ \<Rightarrow> zod_parse z j)"
| "zod_parse (ZArr z) j = (case j of JArr xs \<Rightarrow> map_option JArr (zod_elems z xs) | _ \<Rightarrow> None)"
| "zod_parse (ZObj pass fs) j =
     (case j of
        JObj o' \<Rightarrow> map_option (\<lambda>p. JObj (p @ (if pass then filter (\<lambda>(k, v). k \<notin> fst ` set fs) o' else []))) (zod_fields fs o')
      | _ \<Rightarrow> None)"
| "zod_fields [] o' = Some []"
| "zod_fields ((k, pr, z) # fs) o' =
     (case map_of o' k of
        None \<Rightarrow> (case pr of
            Required \<Rightarrow> None
          | Optional \<Rightarrow> zod_fields fs o'
          | Default d \<Rightarrow> map_option (Cons (k, d)) (zod_fields fs o'))
      | Some v \<Rightarrow> (case zod_parse z v of
            None \<Rightarrow> None
          | Some v' \<Rightarrow> map_option (Cons (k, v')) (zod_fields fs o')))"
| "zod_elems z [] = Some []"
| "zod_elems z (x # xs) =
     (case zod_parse z x of None \<Rightarrow> None | Some y \<Rightarrow> map_option (Cons y) (zod_elems z xs))"

definition req :: "zod \<Rightarrow> string \<Rightarrow> string \<times> presence \<times> zod" where
  "req z k = (k, Required, z)"

definition opt :: "zod \<Rightarrow> string \<Rightarrow> string \<times> presence \<times> zod" where
  "opt z k = (k, Optional, z)"

abbreviation "ZNullStr \<equiv> ZNullable ZStr"

definition LagoSubscriptionSchema :: zod where
  "LagoSubscriptionSchema = ZObj False
     ([req ZStr ''lago_id'', req ZStr ''external_id'', req ZStr ''lago_customer_id'', req ZStr ''external_customer_id'',
       req (ZEnum [''calendar'', ''anniversary'']) ''billing_time'', req ZNullStr ''name'', req ZStr ''plan_code'',
       req (ZEnum [''active'', ''pending'', ''terminated'', ''canceled'']) ''status'', req ZStr ''created_at'',
       req ZNullStr ''canceled_at'', req ZNullStr ''started_at'', req ZNullStr ''ending_at'', req ZStr ''subscription_at'',
       req ZNullStr ''terminated_at'', req ZNullStr ''previous_plan_code'', req ZNullStr ''next_plan_code'',
       req ZNullStr ''downgrade_plan_date'', req ZNullStr ''trial_ended_at'',
       req ZNullStr ''current_billing_period_started_at'', req ZNullStr ''current_billing_period_ending_at'',
       req ZNullStr ''on_termination_credit_note'', req (ZEnum [''generate'', ''skip'']) ''on_termination_invoice'',
       opt ZAny ''plan''])"

definition LagoCustomerSchema :: zod where
  "LagoCustomerSchema = ZObj False
     ([req ZStr ''lago_id'', req ZNum ''sequential_id'', req ZStr ''slug'', req ZStr ''external_id'',
       opt ZStr ''billing_entity_code'', req ZNullStr ''name'', req ZNullStr ''firstname'', req ZNullStr ''lastname'',
       req ZNullStr ''email'', opt (ZEnum [''customer'', ''partner'']) ''account_type'',
       opt (ZNullable (ZEnum [''company'', ''individual''])) ''customer_type'']
      @ map (req ZNullStr)
         [''address_line1'', ''address_line2'', ''city'', ''state'', ''zipcode'', ''country'', ''legal_name'', ''legal_number'',
          ''tax_identification_number'', ''phone'', ''logo_url'', ''url'', ''currency'', ''timezone'']
      @ [req ZStr ''applicable_timezone'', req (ZNullable ZNum) ''net_payment_term'',
         opt (ZEnum [''inherit'', ''skip'', ''finalize'']) ''finalize_zero_amount_invoice'',
         opt ZBool ''skip_invoice_custom_sections'', req ZStr ''created_at'', opt ZStr ''updated_at'',
         opt (ZObj False
           [req (ZNullable ZNum) ''invoice_grace_period'', req ZNullStr ''payment_provider'',
            opt ZNullStr ''payment_provider_code'', req ZNullStr ''document_locale'',
            opt ZNullStr ''subscription_invoice_issuing_date_anchor'',
            opt ZNullStr ''subscription_invoice_issuing_date_adjustment'']) ''billing_configuration'',
         opt (ZObj False
           [opt ZNullStr ''address_line1'', opt ZNullStr ''address_line2'', opt ZNullStr ''city'', opt ZNullStr ''zipcode'',
            opt ZNullStr ''state'', req ZNullStr ''country'']) ''shipping_address'',
         opt (ZArr (ZObj False
           [opt ZStr ''lago_id'', req ZStr ''key'', req ZStr ''value'', opt ZBool ''display_in_invoice'',
            opt ZStr ''created_at''])) ''metadata'',
         opt (ZArr ZAny) ''taxes'', opt (ZArr ZAny) ''integration_customers''])"

definition invoice_fields :: "(string \<times> zod) list" where
  "invoice_fields =
     [(''lago_id'', ZStr), (''sequential_id'', ZNum), (''number'', ZStr), (''issuing_date'', ZStr),
      (''payment_due_date'', ZNullStr), (''invoice_type'', ZStr), (''status'', ZStr), (''payment_status'', ZStr),
      (''currency'', ZStr), (''total_amount_cents'', ZNum), (''taxes_amount_cents'', ZNum),
      (''sub_total_excluding_taxes_amount_cents'', ZNum)]"

definition invoice_extras :: "(string \<times> presence \<times> zod) list" where
  "invoice_extras =
     [opt ZStr ''external_customer_id'', opt ZStr ''created_at'', opt ZStr ''updated_at'', opt ZNullStr ''file_url'',
      opt (ZArr ZAny) ''fees'', opt ZNum ''fees_amount_cents'', opt (ZArr ZAny) ''applied_taxes'',
      opt ZBool ''payment_overdue'', opt ZAny ''customer'', opt (ZArr ZAny) ''subscriptions'',
      opt (ZArr ZAny) ''credit_notes'', opt (ZArr ZAny) ''payments'']"

definition LagoInvoiceExtendedSchema :: zod where
  "LagoInvoiceExtendedSchema = ZObj True (map (\<lambda>(k, z). req z k) invoice_fields @ invoice_extras)"

text \<open>\<open>LagoInvoiceExtendedSchema.partial().extend({ lago_id, ... })\<close>: only the id is required.\<close>

definition partial_invoice_schema :: zod where
  "partial_invoice_schema =
     ZObj True (map (\<lambda>(k, z). (if k = ''lago_id'' then req else opt) z k) invoice_fields @ invoice_extras)"

definition LagoBillableMetricSchema :: zod where
  "LagoBillableMetricSchema = ZObj True
     [opt ZStr ''lago_id'', opt ZStr ''name'', req ZStr ''code'',
      req (ZEnum [''count_agg'', ''sum_agg'', ''max_agg'', ''unique_count_agg'', ''weighted_sum_agg'', ''latest_agg''])
        ''aggregation_type'',
      opt ZNullStr ''field_name'', opt ZNullStr ''description'', opt ZBool ''recurring'']"

definition LagoWalletSchema :: zod where
  "LagoWalletSchema = ZObj True
     [req ZStr ''lago_id'', opt ZStr ''lago_customer_id'', req ZStr ''external_customer_id'',
      opt (ZEnum [''active'', ''terminated'']) ''status'', req ZStr ''currency'', opt ZNullStr ''name'',
      opt ZStr ''rate_amount'', opt ZStr ''credits_balance'', opt ZNum ''balance_cents'', opt ZStr ''consumed_credits'',
      opt ZStr ''created_at'', opt ZNullStr ''expiration_at'', opt ZNullStr ''last_balance_sync_at'',
      opt ZNullStr ''last_consumed_credit_at'', opt ZNullStr ''terminated_at'']"

definition LagoEntitlementPrivilegeSchema :: zod where
  "LagoEntitlementPrivilegeSchema = ZObj False
     [req ZStr ''code'', opt ZNullStr ''name'', opt (ZEnum [''integer'', ''boolean'', ''string'', ''select'']) ''value_type'',
      opt ZScalar ''value'', opt ZScalar ''plan_value'', opt ZScalar ''override_value'', opt ZRecord ''config'']"

definition LagoEntitlementSchema :: zod where
  "LagoEntitlementSchema = ZObj False
     [req ZStr ''code'', opt ZNullStr ''name'', opt ZNullStr ''description'',
      (''privileges'', Default (JArr []), ZArr LagoEntitlementPrivilegeSchema), opt ZRecord ''overrides'']"

definition LagoPlanSchema :: zod where
  "LagoPlanSchema = ZObj True
     [req ZStr ''lago_id'', req ZStr ''code'', opt ZNullStr ''name'', opt ZNullStr ''interval'',
      opt (ZNullable ZNum) ''amount_cents'', opt ZNullStr ''amount_currency'', opt ZStr ''created_at'',
      opt ZStr ''updated_at'', opt (ZArr LagoEntitlementSchema) ''entitlements'']"

section \<open>Webhook payloads\<close>

definition webhook_schema :: "string \<Rightarrow> (string \<times> presence \<times> zod) list \<Rightarrow> zod" where
  "webhook_schema tag extra = ZObj True ([req (ZEnum [tag]) ''webhook_type'', opt ZStr ''object_type''] @ extra)"

definition invoiceLifecyclePayload :: zod where
  "invoiceLifecyclePayload = ZObj True
     [req ZStr ''lago_id'', opt ZNullStr ''number'', opt ZStr ''status'', opt ZStr ''payment_status'', opt ZStr ''invoice_type'',
      opt ZNum ''total_amount_cents'', opt ZStr ''currency'',
      opt (ZObj True [opt ZStr ''external_id'', opt ZNullStr ''name'']) ''customer'']"

definition alert_payload :: zod where
  "alert_payload = ZObj True
     [opt ZStr ''lago_id'', opt ZStr ''code'', opt ZStr ''alert_type'', opt ZStr ''subscription_external_id'',
      opt ZStrOrNum ''current_value'', opt ZStrOrNum ''previous_value'', opt ZStr ''triggered_at'',
      opt (ZArr ZAny) ''triggered_thresholds'']"

definition wallet_transaction_payload :: zod where
  "wallet_transaction_payload = ZObj True
     [opt ZStr ''lago_id'', opt ZStr ''lago_wallet_id'', opt ZStr ''external_customer_id'', opt ZStr ''status'',
      opt ZStr ''amount'', opt ZNullStr ''failed_at'', opt ZAny ''provider_error'']"

definition simple_webhooks :: "string list" where
  "simple_webhooks =
     [''invoice.voided'', ''invoice.resynced'', ''invoice.payment_failure'', ''invoice.payment_overdue'',
      ''invoice.payment_dispute_lost'', ''invoice.one_off_created'', ''invoice.paid_credit_added'', ''invoice.add_on_added'',
      ''subscription.started'', ''subscription.created'', ''subscription.terminated'',
      ''subscription.terminated_and_downgraded'', ''subscription.updated'', ''subscription.termination_alert'',
      ''subscription.trial_ended'', ''subscription.usage_threshold_reached'', ''credit_note.created'',
      ''credit_note.generated'', ''credit_note.refund_failure'', ''payment.requires_action'', ''payment_request.created'',
      ''payment_request.payment_failure'', ''payment_request.payment_status_updated'', ''wallet_transaction.created'',
      ''wallet_transaction.updated'', ''wallet.depleted_ongoing_balance'', ''fee.created'', ''event.error'', ''events.errors'',
      ''customer.created'', ''customer.updated'', ''customer.deleted'', ''plan.created'', ''plan.updated'', ''plan.deleted'',
      ''wallet.created'', ''wallet.updated'', ''wallet.terminated'', ''invoice.deleted'']"

definition LagoWebhookSchema :: "(string \<times> zod) list" where
  "LagoWebhookSchema =
     [(''invoice.payment_status_updated'',
        webhook_schema ''invoice.payment_status_updated'' [req partial_invoice_schema ''invoice'']),
      (''alert.triggered'', webhook_schema ''alert.triggered'' [req alert_payload ''alert'']),
      (''wallet_transaction.payment_failure'',
        webhook_schema ''wallet_transaction.payment_failure'' [req wallet_transaction_payload ''wallet_transaction''])]
     @ map (\<lambda>t. (t, webhook_schema t [opt invoiceLifecyclePayload ''invoice'']))
         [''invoice.created'', ''invoice.drafted'', ''invoice.generated'']
     @ map (\<lambda>t. (t, webhook_schema t [])) simple_webhooks"

text \<open>The discriminated union: the type selects the schema.\<close>

definition parse_webhook :: "json \<Rightarrow> json option" where
  "parse_webhook body =
     (case str_field body ''webhook_type'' of
        None \<Rightarrow> None
      | Some t \<Rightarrow> (case map_of LagoWebhookSchema t of None \<Rightarrow> None | Some z \<Rightarrow> zod_parse z body))"

section \<open>What a parsed object contains\<close>

text \<open>One field of the schema: its value in front of the parsed rest, or nothing if it is optional and absent.\<close>

lemma zod_field_cases:
  assumes "zod_fields ((k, pr, z) # fs) o' = Some p"
  obtains (there) v v' q where "map_of o' k = Some v" "zod_parse z v = Some v'" "zod_fields fs o' = Some q" "p = (k, v') # q"
  | (default) d q where "map_of o' k = None" "pr = Default d" "zod_fields fs o' = Some q" "p = (k, d) # q"
  | (absent) "map_of o' k = None" "pr = Optional" "zod_fields fs o' = Some p"
proof (cases "map_of o' k")
  case None
  then show thesis using assms that by (cases pr) auto
next
  case (Some v)
  then show thesis using assms that by (cases "zod_parse z v") auto
qed

lemma zod_fields_keys: "zod_fields fs o' = Some p \<Longrightarrow> fst ` set p \<subseteq> fst ` set fs"
proof (induction fs arbitrary: p)
  case (Cons f fs)
  obtain k pr z where f: "f = (k, pr, z)" by (cases f)
  show ?case
    using Cons.prems unfolding f by (cases rule: zod_field_cases) (use Cons.IH in force)+
qed simp

text \<open>The value a schema keeps under one of its keys.\<close>

definition field_value :: "presence \<Rightarrow> zod \<Rightarrow> json option \<Rightarrow> json option" where
  "field_value pr z v =
     (case v of Some x \<Rightarrow> zod_parse z x | None \<Rightarrow> (case pr of Default d \<Rightarrow> Some d | _ \<Rightarrow> None))"

lemma zod_fields_map_of:
  assumes "zod_fields fs o' = Some p" "distinct (map fst fs)" "(k, pr, z) \<in> set fs"
  shows "map_of p k = field_value pr z (map_of o' k)"
  using assms
proof (induction fs arbitrary: p)
  case (Cons f fs)
  obtain k' pr' z' where f: "f = (k', pr', z')" by (cases f)
  have new: "zod_fields fs o' = Some q \<Longrightarrow> map_of q k' = None" for q
    using zod_fields_keys [of fs o' q] Cons.prems(2) by (auto simp: f map_of_eq_None_iff)
  show ?case
  proof (cases "k = k'")
    case True
    then have eq: "pr = pr'" "z = z'" using Cons.prems(2, 3) by (auto simp: f image_iff)
    show ?thesis using Cons.prems(1) unfolding f
      by (cases rule: zod_field_cases) (simp_all add: True eq field_value_def new)
  next
    case False
    then have mem: "(k, pr, z) \<in> set fs" using Cons.prems(3) by (simp add: f)
    have dist: "distinct (map fst fs)" using Cons.prems(2) by simp
    show ?thesis using Cons.prems(1) unfolding f
      by (cases rule: zod_field_cases) (use False Cons.IH [OF _ dist mem] in simp_all)
  qed
qed simp

lemma zod_objE:
  assumes "zod_parse (ZObj pass fs) j = Some j'"
  obtains o' p where "j = JObj o'" "zod_fields fs o' = Some p"
    "j' = JObj (p @ (if pass then filter (\<lambda>(k, v). k \<notin> fst ` set fs) o' else []))"
proof (cases j)
  case (JObj o')
  then show thesis using assms that by (cases "zod_fields fs o'") auto
qed (use assms in simp_all)

lemma map_of_filter_keys: "map_of (filter (\<lambda>(k, v). k \<notin> A) o') k = (if k \<in> A then None else map_of o' k)"
  by (induction o') auto

lemma zod_fields_ok:
  assumes "zod_fields fs o' = Some p" "(k, pr, z) \<in> set fs" "map_of o' k = Some v"
  shows "zod_parse z v \<noteq> None"
  using assms(1, 2)
proof (induction fs arbitrary: p)
  case (Cons f fs)
  obtain k' pr' z' where f: "f = (k', pr', z')" by (cases f)
  show ?case using Cons.prems(1) unfolding f
    by (cases rule: zod_field_cases) (use Cons.prems(2) Cons.IH assms(3) in \<open>auto simp: f\<close>)
qed simp

lemma zod_obj_field:
  assumes "zod_parse (ZObj pass fs) j = Some j'" "distinct (map fst fs)" "(k, pr, z) \<in> set fs"
  shows "field j' k = field_value pr z (field j k)"
  using assms(1)
proof (cases rule: zod_objE)
  case (1 o' p)
  have k: "k \<in> fst ` set fs" using assms(3) by force
  have "map_of (if pass then filter (\<lambda>(k, v). k \<notin> fst ` set fs) o' else []) k = None"
    using k by (simp add: map_of_filter_keys)
  then have "map_of (p @ (if pass then filter (\<lambda>(k, v). k \<notin> fst ` set fs) o' else [])) k = map_of p k"
    by (simp only: map_of_append map_add_def option.case_eq_if) (cases "map_of p k"; simp)
  then show ?thesis using zod_fields_map_of [OF 1(2) assms(2, 3)] 1(1, 3) by (simp add: field_def)
qed

text \<open>The schemas that keep a value as it is.\<close>

fun plain_zod :: "zod \<Rightarrow> bool" where
  "plain_zod (ZObj _ _) = False"
| "plain_zod (ZArr _) = False"
| "plain_zod (ZNullable z) = plain_zod z"
| "plain_zod _ = True"

lemma plain_zod_parse: "plain_zod z \<Longrightarrow> zod_parse z v = Some w \<Longrightarrow> w = v"
  by (induction z rule: plain_zod.induct) (auto split: json.splits if_splits)

lemma zod_obj_plain:
  assumes "zod_parse (ZObj pass fs) j = Some j'" "distinct (map fst fs)" "(k, pr, z) \<in> set fs"
    "plain_zod z" "pr = Required \<or> pr = Optional"
  shows "field j' k = field j k"
proof -
  have eq: "field j' k = field_value pr z (field j k)" by (rule zod_obj_field [OF assms(1-3)])
  show ?thesis
  proof (cases "field j k")
    case None
    then show ?thesis using eq assms(5) by (auto simp: field_value_def)
  next
    case (Some v)
    obtain o' p where o': "j = JObj o'" "zod_fields fs o' = Some p" by (rule zod_objE [OF assms(1)])
    then obtain w where "zod_parse z v = Some w"
      using zod_fields_ok [OF o'(2) assms(3)] Some by (auto simp: field_def)
    then show ?thesis using eq Some plain_zod_parse [OF assms(4)] by (auto simp: field_value_def)
  qed
qed

lemma zod_obj_rest:
  assumes "zod_parse (ZObj True fs) j = Some j'" "k \<notin> fst ` set fs"
  shows "field j' k = field j k"
  using assms(1)
proof (cases rule: zod_objE)
  case (1 o' p)
  have "map_of p k = None" using zod_fields_keys [OF 1(2)] assms(2) by (auto simp: map_of_eq_None_iff)
  then show ?thesis using 1 assms(2) by (simp add: field_def map_add_def map_of_filter_keys split: option.split)
qed

text \<open>A webhook of a type without a payload schema keeps every field.\<close>

lemma map_of_tabulate: "map_of (map (\<lambda>t. (t, f t)) ts) t = (if t \<in> set ts then Some (f t) else None)"
  by (induction ts) auto

lemma special_webhooks:
  "list_all (\<lambda>t. t \<notin> {''invoice.payment_status_updated'', ''alert.triggered'', ''wallet_transaction.payment_failure'',
     ''invoice.created'', ''invoice.drafted'', ''invoice.generated''}) simple_webhooks"
  by code_simp

lemma simple_webhook_schema: "t \<in> set simple_webhooks \<Longrightarrow> map_of LagoWebhookSchema t = Some (webhook_schema t [])"
  using special_webhooks by (simp add: LagoWebhookSchema_def map_of_tabulate list_all_iff map_add_def)

lemma simple_webhook_fields:
  assumes "parse_webhook body = Some p" "str_field body ''webhook_type'' = Some t" "t \<in> set simple_webhooks"
  shows "field p k = field body k"
proof -
  have z: "zod_parse (webhook_schema t []) body = Some p"
    using assms simple_webhook_schema by (simp add: parse_webhook_def)
  show ?thesis
  proof (cases "k \<in> {''webhook_type'', ''object_type''}")
    case False
    then show ?thesis using zod_obj_rest [OF z [unfolded webhook_schema_def], of k] by (auto simp: req_def opt_def)
  next
    case True
    then show ?thesis
      using zod_obj_plain [OF z [unfolded webhook_schema_def], of k] by (auto simp: req_def opt_def)
  qed
qed

end
