(* ===== verification/LagoCache.thy ===== *)
theory LagoCache
  imports LagoTypes Dates
begin

text \<open>
  The local copies of Lago's entities (\<open>src/services/lago-reconcile\<close>): the upserts by Lago id, the
  reconcile pass of each table with its orphans, and the writes of single webhooks. A table is the
  list of its rows; the unique indexes of \<open>src/db/schema.ts\<close> are the conditions of the upsert. The
  answers of Lago and the outcomes of the queries are fields of \<open>cache_io\<close>; an entity is the JSON
  object its schema parsed. Durations and log lines are left out.
\<close>

section \<open>Rows and upserts\<close>

record 'v cache_row =
  ch_lagoId :: string
  ch_values :: 'v
  ch_syncedAt :: int
  ch_deletedAt :: "int option"

type_synonym 'v cache = "'v cache_row list"

text \<open>
  One reconcile pass: Lago's listing, the time and failure of the nth upsert, the message of a unique
  violation, the failure of the query for the live rows and of the update of the orphans, the time of
  the latter. Then what only invoices and wallets use: the failure of the update of orphaned fees, of
  the queries for the fees of the nth invoice, of the query for the customers, and the listings of
  wallets by customer.
\<close>

record cache_io =
  ci_list :: "string + json list"
  ci_now :: "nat \<Rightarrow> int"
  ci_fail :: "nat \<Rightarrow> string option"
  ci_dup :: string
  ci_local :: "string option"
  ci_mark :: "string option"
  ci_end :: int
  ci_feeMark :: "string option"
  ci_feeFail :: "nat \<Rightarrow> nat \<Rightarrow> string option"
  ci_customers :: "string option"
  ci_wallets :: "string \<Rightarrow> string + json list"

definition id_of :: "json \<Rightarrow> string" where
  "id_of e = (case str_field e ''lago_id'' of Some i \<Rightarrow> i | None \<Rightarrow> [])"

definition written :: "string \<Rightarrow> 'v \<Rightarrow> int \<Rightarrow> 'v cache \<Rightarrow> 'v cache" where
  "written i v now rows =
     (let r = \<lparr>ch_lagoId = i, ch_values = v, ch_syncedAt = now, ch_deletedAt = None\<rparr> in
      if i \<in> ch_lagoId ` set rows then map (\<lambda>x. if ch_lagoId x = i then r else x) rows else rows @ [r])"

text \<open>\<open>insert ... onConflictDoUpdate\<close>: \<open>key\<close> is the column with a unique index, if the table has one.\<close>

definition cache_upsert ::
  "('v \<Rightarrow> string option) \<Rightarrow> ('v \<Rightarrow> cache_io \<Rightarrow> nat \<Rightarrow> string \<Rightarrow> 'v cache \<Rightarrow> string option \<times> 'v cache)"
where
  "cache_upsert key v io n i rows =
     (case ci_fail io n of
        Some m \<Rightarrow> (Some m, rows)
      | None \<Rightarrow>
          if \<exists>x \<in> set rows. ch_lagoId x \<noteq> i \<and> key v \<noteq> None \<and> key (ch_values x) = key v then (Some (ci_dup io), rows)
          else (None, written i v (ci_now io n) rows))"

definition parseLagoTimestamp :: "string option \<Rightarrow> int option" where
  "parseLagoTimestamp v = (if truthy v then date_parse (the v) else None)"

definition either :: "string option \<Rightarrow> string option \<Rightarrow> string option" where
  "either a b = (case a of Some x \<Rightarrow> Some x | None \<Rightarrow> b)"

record customer_values =
  cv_externalId :: string
  cv_name :: "string option"
  cv_email :: "string option"
  cv_currency :: "string option"
  cv_payload :: json
  cv_lagoUpdatedAt :: "int option"

definition text_of :: "json \<Rightarrow> string \<Rightarrow> string" where
  "text_of e k = (case str_field e k of Some s \<Rightarrow> s | None \<Rightarrow> [])"

definition customer_of :: "json \<Rightarrow> customer_values" where
  "customer_of c =
     \<lparr>cv_externalId = text_of c ''external_id'', cv_name = str_field c ''name'', cv_email = str_field c ''email'',
      cv_currency = str_field c ''currency'', cv_payload = c,
      cv_lagoUpdatedAt = parseLagoTimestamp (either (str_field c ''updated_at'') (str_field c ''created_at''))\<rparr>"

definition upsertCustomer :: "cache_io \<Rightarrow> nat \<Rightarrow> json \<Rightarrow> customer_values cache \<Rightarrow> string option \<times> customer_values cache" where
  "upsertCustomer io n c = cache_upsert (Some \<circ> cv_externalId) (customer_of c) io n (id_of c)"

record subscription_values =
  sv_externalId :: string
  sv_externalCustomerId :: "string option"
  sv_customerLagoId :: "string option"
  sv_planCode :: "string option"
  sv_status :: "string option"
  sv_startedAt :: "int option"
  sv_terminatedAt :: "int option"
  sv_payload :: json
  sv_lagoUpdatedAt :: "int option"

definition subscription_of :: "json \<Rightarrow> subscription_values" where
  "subscription_of s =
     \<lparr>sv_externalId = text_of s ''external_id'', sv_externalCustomerId = str_field s ''external_customer_id'',
      sv_customerLagoId = str_field s ''lago_customer_id'', sv_planCode = str_field s ''plan_code'',
      sv_status = str_field s ''status'', sv_startedAt = parseLagoTimestamp (str_field s ''started_at''),
      sv_terminatedAt = parseLagoTimestamp (str_field s ''terminated_at''), sv_payload = s,
      sv_lagoUpdatedAt = parseLagoTimestamp (str_field s ''created_at'')\<rparr>"

definition upsertSubscription ::
  "cache_io \<Rightarrow> nat \<Rightarrow> json \<Rightarrow> subscription_values cache \<Rightarrow> string option \<times> subscription_values cache"
where
  "upsertSubscription io n s = cache_upsert (Some \<circ> sv_externalId) (subscription_of s) io n (id_of s)"

record plan_values =
  pv_code :: string
  pv_name :: "string option"
  pv_interval :: "string option"
  pv_amountCents :: "rat option"
  pv_currency :: "string option"
  pv_payload :: json
  pv_lagoUpdatedAt :: "int option"

definition plan_of :: "json \<Rightarrow> plan_values" where
  "plan_of p =
     \<lparr>pv_code = text_of p ''code'', pv_name = str_field p ''name'', pv_interval = str_field p ''interval'',
      pv_amountCents = as_num (field p ''amount_cents''), pv_currency = str_field p ''amount_currency'', pv_payload = p,
      pv_lagoUpdatedAt = parseLagoTimestamp (either (str_field p ''updated_at'') (str_field p ''created_at''))\<rparr>"

definition upsertPlan :: "cache_io \<Rightarrow> nat \<Rightarrow> json \<Rightarrow> plan_values cache \<Rightarrow> string option \<times> plan_values cache" where
  "upsertPlan io n p = cache_upsert (Some \<circ> pv_code) (plan_of p) io n (id_of p)"

record metric_values =
  mv_code :: string
  mv_name :: "string option"
  mv_aggregationType :: "string option"
  mv_fieldName :: "string option"
  mv_recurring :: "bool option"
  mv_payload :: json

definition metric_of :: "json \<Rightarrow> metric_values" where
  "metric_of m =
     \<lparr>mv_code = text_of m ''code'', mv_name = str_field m ''name'', mv_aggregationType = str_field m ''aggregation_type'',
      mv_fieldName = str_field m ''field_name'', mv_recurring = as_bool (field m ''recurring''), mv_payload = m\<rparr>"

definition upsertBillableMetric :: "cache_io \<Rightarrow> nat \<Rightarrow> json \<Rightarrow> metric_values cache \<Rightarrow> string option \<times> metric_values cache" where
  "upsertBillableMetric io n m =
     (if truthy (str_field m ''lago_id'') then cache_upsert (Some \<circ> mv_code) (metric_of m) io n (id_of m) else Pair None)"

record wallet_values =
  wv_externalCustomerId :: "string option"
  wv_status :: "string option"
  wv_currency :: "string option"
  wv_balanceCents :: "rat option"
  wv_payload :: json
  wv_lagoUpdatedAt :: "int option"

definition wallet_of :: "json \<Rightarrow> string option \<Rightarrow> wallet_values" where
  "wallet_of w ext =
     \<lparr>wv_externalCustomerId = either ext (str_field w ''external_customer_id''), wv_status = str_field w ''status'',
      wv_currency = str_field w ''currency'', wv_balanceCents = as_num (field w ''balance_cents''), wv_payload = w,
      wv_lagoUpdatedAt = parseLagoTimestamp (either (str_field w ''last_balance_sync_at'') (str_field w ''created_at''))\<rparr>"

definition upsertWallet ::
  "cache_io \<Rightarrow> nat \<Rightarrow> json \<Rightarrow> string option \<Rightarrow> wallet_values cache \<Rightarrow> string option \<times> wallet_values cache"
where
  "upsertWallet io n w ext = cache_upsert (\<lambda>_. None) (wallet_of w ext) io n (id_of w)"

section \<open>Soft deletion\<close>

definition active_ids :: "'v cache \<Rightarrow> string list" where
  "active_ids rows = map ch_lagoId (filter (\<lambda>r. ch_deletedAt r = None) rows)"

definition findOrphans :: "string list \<Rightarrow> string list \<Rightarrow> string list" where
  "findOrphans fresh ids = filter (\<lambda>i. i \<notin> set fresh) ids"

definition mark_orphans :: "string list \<Rightarrow> int \<Rightarrow> 'v cache \<Rightarrow> 'v cache" where
  "mark_orphans orphans now rows =
     map (\<lambda>r. if ch_lagoId r \<in> set orphans then r\<lparr>ch_deletedAt := Some now\<rparr> else r) rows"

text \<open>\<open>softDeleteCustomer\<close>, \<open>softDeleteSubscription\<close>, \<open>softDeleteWallet\<close>: only a live row is stamped.\<close>

definition soft_delete :: "string \<Rightarrow> int \<Rightarrow> 'v cache \<Rightarrow> 'v cache" where
  "soft_delete i now rows =
     map (\<lambda>r. if ch_lagoId r = i \<and> ch_deletedAt r = None then r\<lparr>ch_deletedAt := Some now\<rparr> else r) rows"

section \<open>The reconcile passes\<close>

record reconcile_result =
  rr_entity :: string
  rr_fetched :: nat
  rr_upserted :: nat
  rr_orphaned :: nat
  rr_errors :: "(string option \<times> string) list"

text \<open>The loop over the listing, its entities numbered from \<open>n\<close>: the count of upserts and the errors.\<close>

fun upsert_loop ::
  "(nat \<Rightarrow> json \<Rightarrow> 't \<Rightarrow> string option \<times> 't) \<Rightarrow> nat \<Rightarrow> json list \<Rightarrow> 't \<Rightarrow> (nat \<times> (string option \<times> string) list) \<times> 't"
where
  "upsert_loop up n [] t = ((0, []), t)"
| "upsert_loop up n (e # es) t =
     (case up n e t of
        (err, t1) \<Rightarrow>
      (case upsert_loop up (n + 1) es t1 of
        ((k, errs), t2) \<Rightarrow>
          (case err of
             None \<Rightarrow> ((k + 1, errs), t2)
           | Some m \<Rightarrow> ((k, (Some (id_of e), m) # errs), t2))))"

definition orphan_pass ::
  "string \<Rightarrow> cache_io \<Rightarrow> nat \<Rightarrow> nat \<Rightarrow> (string option \<times> string) list \<Rightarrow> string list \<Rightarrow> 'v cache
     \<Rightarrow> (string + reconcile_result) \<times> 'v cache"
where
  "orphan_pass name io fetched upserted errs fresh rows =
     (case ci_local io of
        Some m \<Rightarrow> (Inl m, rows)
      | None \<Rightarrow>
          let orphans = findOrphans fresh (active_ids rows) in
          if orphans \<noteq> [] \<and> ci_mark io \<noteq> None then (Inl (the (ci_mark io)), rows)
          else (Inr \<lparr>rr_entity = name, rr_fetched = fetched, rr_upserted = upserted, rr_orphaned = length orphans,
                     rr_errors = errs\<rparr>,
                if orphans = [] then rows else mark_orphans orphans (ci_end io) rows))"

text \<open>The pass the tables of customers, subscriptions and plans share.\<close>

definition reconcile_entity ::
  "string \<Rightarrow> (cache_io \<Rightarrow> nat \<Rightarrow> json \<Rightarrow> 'v cache \<Rightarrow> string option \<times> 'v cache) \<Rightarrow> cache_io \<Rightarrow> 'v cache
     \<Rightarrow> (string + reconcile_result) \<times> 'v cache"
where
  "reconcile_entity name up io rows =
     (case ci_list io of
        Inl m \<Rightarrow> (Inl m, rows)
      | Inr es \<Rightarrow>
          (case upsert_loop (up io) 0 es rows of
             ((k, errs), rows1) \<Rightarrow> orphan_pass name io (length es) k errs (map id_of es) rows1))"

definition reconcileLagoCustomers ::
  "cache_io \<Rightarrow> customer_values cache \<Rightarrow> (string + reconcile_result) \<times> customer_values cache"
where
  "reconcileLagoCustomers = reconcile_entity ''lago_customers'' upsertCustomer"

definition reconcileLagoSubscriptions ::
  "cache_io \<Rightarrow> subscription_values cache \<Rightarrow> (string + reconcile_result) \<times> subscription_values cache"
where
  "reconcileLagoSubscriptions = reconcile_entity ''lago_subscriptions'' upsertSubscription"

definition reconcileLagoPlans :: "cache_io \<Rightarrow> plan_values cache \<Rightarrow> (string + reconcile_result) \<times> plan_values cache" where
  "reconcileLagoPlans = reconcile_entity ''lago_plans'' upsertPlan"

text \<open>Metrics without an id are skipped; the orphans are found with the ids that are texts.\<close>

definition reconcileLagoBillableMetrics ::
  "cache_io \<Rightarrow> metric_values cache \<Rightarrow> (string + reconcile_result) \<times> metric_values cache"
where
  "reconcileLagoBillableMetrics io rows =
     (case ci_list io of
        Inl m \<Rightarrow> (Inl m, rows)
      | Inr es \<Rightarrow>
          (case upsert_loop (upsertBillableMetric io) 0 (filter (\<lambda>m. truthy (str_field m ''lago_id'')) es) rows of
             ((k, errs), rows1) \<Rightarrow>
               orphan_pass ''lago_billable_metrics'' io (length es) k errs
                 (List.map_filter (\<lambda>m. str_field m ''lago_id'') es) rows1))"

text \<open>Wallets are listed customer by customer; only a wallet whose upsert succeeds counts as fresh.\<close>

fun wallet_loop ::
  "cache_io \<Rightarrow> string \<Rightarrow> nat \<Rightarrow> json list \<Rightarrow> wallet_values cache
     \<Rightarrow> (string list \<times> nat \<times> (string option \<times> string) list) \<times> wallet_values cache"
where
  "wallet_loop io ext n [] rows = (([], 0, []), rows)"
| "wallet_loop io ext n (w # ws) rows =
     (case upsertWallet io n w (Some ext) rows of
        (err, rows1) \<Rightarrow>
      (case wallet_loop io ext (n + 1) ws rows1 of
        ((fresh, k, errs), rows2) \<Rightarrow>
          (case err of
             None \<Rightarrow> ((id_of w # fresh, k + 1, errs), rows2)
           | Some m \<Rightarrow> ((fresh, k, (Some (id_of w), m) # errs), rows2))))"

fun wallet_customers ::
  "cache_io \<Rightarrow> nat \<Rightarrow> string list \<Rightarrow> wallet_values cache
     \<Rightarrow> (string list \<times> nat \<times> nat \<times> (string option \<times> string) list) \<times> wallet_values cache"
where
  "wallet_customers io n [] rows = (([], 0, 0, []), rows)"
| "wallet_customers io n (ext # exts) rows =
     (case ci_wallets io ext of
        Inl m \<Rightarrow>
          (case wallet_customers io n exts rows of
             ((fresh, f, k, errs), rows2) \<Rightarrow>
               ((fresh, f, k, (Some ext, ''listWalletsForCustomer('' @ ext @ ''): '' @ m) # errs), rows2))
      | Inr ws \<Rightarrow>
          (case wallet_loop io ext n ws rows of
             ((fresh1, k1, errs1), rows1) \<Rightarrow>
          (case wallet_customers io (n + length ws) exts rows1 of
             ((fresh, f, k, errs), rows2) \<Rightarrow> ((fresh1 @ fresh, length ws + f, k1 + k, errs1 @ errs), rows2))))"

definition reconcileLagoWallets ::
  "cache_io \<Rightarrow> customer_values cache \<Rightarrow> wallet_values cache \<Rightarrow> (string + reconcile_result) \<times> wallet_values cache"
where
  "reconcileLagoWallets io customers rows =
     (case ci_customers io of
        Some m \<Rightarrow> (Inl m, rows)
      | None \<Rightarrow>
          (case wallet_customers io 0 (map (cv_externalId \<circ> ch_values) (filter (\<lambda>r. ch_deletedAt r = None) customers)) rows of
             ((fresh, f, k, errs), rows1) \<Rightarrow> orphan_pass ''lago_wallets'' io f k errs fresh rows1))"

section \<open>Invoices and their fees\<close>

record invoice_values =
  in_number :: "string option"
  in_externalCustomerId :: "string option"
  in_status :: "string option"
  in_paymentStatus :: "string option"
  in_invoiceType :: "string option"
  in_totalAmountCents :: "rat option"
  in_currency :: "string option"
  in_issuingDate :: "string option"
  in_paymentOverdue :: "bool option"
  in_payload :: json
  in_lagoUpdatedAt :: "int option"

definition invoice_of :: "json \<Rightarrow> invoice_values" where
  "invoice_of i =
     \<lparr>in_number = str_field i ''number'', in_externalCustomerId = str_field i ''external_customer_id'',
      in_status = str_field i ''status'', in_paymentStatus = str_field i ''payment_status'',
      in_invoiceType = str_field i ''invoice_type'', in_totalAmountCents = as_num (field i ''total_amount_cents''),
      in_currency = str_field i ''currency'', in_issuingDate = str_field i ''issuing_date'',
      in_paymentOverdue = as_bool (field i ''payment_overdue''), in_payload = i,
      in_lagoUpdatedAt = parseLagoTimestamp (either (str_field i ''updated_at'') (str_field i ''created_at''))\<rparr>"

record fee_values =
  fv_invoiceLagoId :: string
  fv_externalSubscriptionId :: "string option"
  fv_itemCode :: "string option"
  fv_itemName :: "string option"
  fv_units :: "string option"
  fv_amountCents :: "rat option"
  fv_currency :: "string option"
  fv_payload :: json

definition fee_of :: "string \<Rightarrow> json \<Rightarrow> fee_values" where
  "fee_of invoice f =
     (let item = (case field f ''item'' of Some v \<Rightarrow> v | None \<Rightarrow> JObj []) in
      \<lparr>fv_invoiceLagoId = invoice, fv_externalSubscriptionId = str_field f ''external_subscription_id'',
       fv_itemCode = str_field item ''code'', fv_itemName = str_field item ''name'', fv_units = str_field f ''units'',
       fv_amountCents = as_num (field f ''amount_cents''), fv_currency = str_field f ''amount_currency'', fv_payload = f\<rparr>)"

record invoice_tables =
  it_invoices :: "invoice_values cache"
  it_fees :: "fee_values cache"

text \<open>
  The fees of the nth invoice: the upserts, then the query for its live fees and the update of those
  no longer listed. A failing query ends the call and keeps what was written.
\<close>

fun fee_loop ::
  "cache_io \<Rightarrow> nat \<Rightarrow> string \<Rightarrow> nat \<Rightarrow> json list \<Rightarrow> fee_values cache \<Rightarrow> (string + string list \<times> nat) \<times> fee_values cache"
where
  "fee_loop io n invoice q [] fees = (Inr ([], q), fees)"
| "fee_loop io n invoice q (f # fs) fees =
     (if f = JNull then (Inl ''Cannot read properties of null (reading 'lago_id')'', fees)
      else if \<not> truthy (str_field f ''lago_id'') then fee_loop io n invoice q fs fees
      else case ci_feeFail io n q of
          Some m \<Rightarrow> (Inl m, fees)
        | None \<Rightarrow>
            (case fee_loop io n invoice (q + 1) fs (written (id_of f) (fee_of invoice f) (ci_now io n) fees) of
               (Inl m, fees') \<Rightarrow> (Inl m, fees')
             | (Inr (ids, q'), fees') \<Rightarrow> (Inr (id_of f # ids, q'), fees')))"

definition live_fee_ids :: "string \<Rightarrow> fee_values cache \<Rightarrow> string list" where
  "live_fee_ids invoice fees =
     map ch_lagoId (filter (\<lambda>r. fv_invoiceLagoId (ch_values r) = invoice \<and> ch_deletedAt r = None) fees)"

definition upsertInvoiceFees ::
  "cache_io \<Rightarrow> nat \<Rightarrow> string \<Rightarrow> json list \<Rightarrow> fee_values cache \<Rightarrow> string option \<times> fee_values cache"
where
  "upsertInvoiceFees io n invoice fs fees =
     (case fee_loop io n invoice 0 fs fees of
        (Inl m, fees1) \<Rightarrow> (Some m, fees1)
      | (Inr (fresh, q), fees1) \<Rightarrow>
          if ci_feeFail io n q \<noteq> None then (ci_feeFail io n q, fees1)
          else
            let orphans = findOrphans fresh (live_fee_ids invoice fees1) in
            if orphans = [] then (None, fees1)
            else if ci_feeFail io n (q + 1) \<noteq> None then (ci_feeFail io n (q + 1), fees1)
            else (None, mark_orphans orphans (ci_now io n) fees1))"

definition upsertInvoice :: "cache_io \<Rightarrow> nat \<Rightarrow> json \<Rightarrow> invoice_tables \<Rightarrow> string option \<times> invoice_tables" where
  "upsertInvoice io n iv t =
     (case cache_upsert (\<lambda>_. None) (invoice_of iv) io n (id_of iv) (it_invoices t) of
        (Some m, rows) \<Rightarrow> (Some m, t\<lparr>it_invoices := rows\<rparr>)
      | (None, rows) \<Rightarrow>
          (case field iv ''fees'' of
             Some (JArr (f # fs)) \<Rightarrow>
               (case upsertInvoiceFees io n (id_of iv) (f # fs) (it_fees t) of
                  (err, fees) \<Rightarrow> (err, t\<lparr>it_invoices := rows, it_fees := fees\<rparr>))
           | _ \<Rightarrow> (None, t\<lparr>it_invoices := rows\<rparr>)))"

text \<open>The pass over the invoices: the fees of an orphan are stamped in a second update.\<close>

definition mark_fees :: "string list \<Rightarrow> int \<Rightarrow> fee_values cache \<Rightarrow> fee_values cache" where
  "mark_fees invoices now fees =
     map (\<lambda>r. if fv_invoiceLagoId (ch_values r) \<in> set invoices then r\<lparr>ch_deletedAt := Some now\<rparr> else r) fees"

definition reconcileLagoInvoices :: "cache_io \<Rightarrow> invoice_tables \<Rightarrow> (string + reconcile_result) \<times> invoice_tables" where
  "reconcileLagoInvoices io t =
     (case ci_list io of
        Inl m \<Rightarrow> (Inl m, t)
      | Inr es \<Rightarrow>
          (case upsert_loop (upsertInvoice io) 0 es t of
             ((k, errs), t1) \<Rightarrow>
               let orphans = findOrphans (map id_of es) (active_ids (it_invoices t1)) in
               (case orphan_pass ''lago_invoices'' io (length es) k errs (map id_of es) (it_invoices t1) of
                  (Inl m, rows) \<Rightarrow> (Inl m, t1\<lparr>it_invoices := rows\<rparr>)
                | (Inr r, rows) \<Rightarrow>
                    if orphans = [] then (Inr r, t1\<lparr>it_invoices := rows\<rparr>)
                    else case ci_feeMark io of
                        Some m \<Rightarrow> (Inl m, t1\<lparr>it_invoices := rows\<rparr>)
                      | None \<Rightarrow> (Inr r, t1\<lparr>it_invoices := rows, it_fees := mark_fees orphans (ci_end io) (it_fees t1)\<rparr>))))"

definition softDeleteInvoice :: "cache_io \<Rightarrow> string \<Rightarrow> invoice_tables \<Rightarrow> string option \<times> invoice_tables" where
  "softDeleteInvoice io i t =
     (case ci_fail io 0 of
        Some m \<Rightarrow> (Some m, t)
      | None \<Rightarrow>
          let t1 = t\<lparr>it_invoices := soft_delete i (ci_now io 0) (it_invoices t)\<rparr> in
          (case ci_fail io 1 of
             Some m \<Rightarrow> (Some m, t1)
           | None \<Rightarrow> (None, t1\<lparr>it_fees :=
               map (\<lambda>r. if fv_invoiceLagoId (ch_values r) = i \<and> ch_deletedAt r = None
                        then r\<lparr>ch_deletedAt := Some (ci_now io 1)\<rparr> else r) (it_fees t1)\<rparr>)))"

section \<open>Writes of single webhooks\<close>

record lago_cache =
  lc_metrics :: "metric_values cache"
  lc_plans :: "plan_values cache"
  lc_customers :: "customer_values cache"
  lc_subscriptions :: "subscription_values cache"
  lc_invoices :: invoice_tables
  lc_wallets :: "wallet_values cache"

text \<open>The outcome of a handler: \<open>None\<close> if it succeeded, otherwise the error text.\<close>

definition handleCustomerWebhook :: "cache_io \<Rightarrow> json \<Rightarrow> string \<Rightarrow> lago_cache \<Rightarrow> string option \<times> lago_cache" where
  "handleCustomerWebhook io payload kind c =
     (case as_obj (field payload ''customer'') of
        None \<Rightarrow> (Some ''no customer in payload'', c)
      | Some raw \<Rightarrow>
          if kind = ''customer.deleted'' then
            if \<not> truthy (str_field raw ''lago_id'') then (Some ''no lago_id on deleted customer'', c)
            else (case ci_fail io 0 of
                Some m \<Rightarrow> (Some m, c)
              | None \<Rightarrow> (None, c\<lparr>lc_customers := soft_delete (id_of raw) (ci_now io 0) (lc_customers c)\<rparr>))
          else (case zod_parse LagoCustomerSchema raw of
              None \<Rightarrow> (Some ''customer payload failed schema'', c)
            | Some x \<Rightarrow> (case upsertCustomer io 0 x (lc_customers c) of (err, t) \<Rightarrow> (err, c\<lparr>lc_customers := t\<rparr>))))"

definition handleSubscriptionWebhook :: "cache_io \<Rightarrow> json \<Rightarrow> string \<Rightarrow> lago_cache \<Rightarrow> string option \<times> lago_cache" where
  "handleSubscriptionWebhook io payload kind c =
     (case as_obj (field payload ''subscription'') of
        None \<Rightarrow> (Some ''no subscription in payload'', c)
      | Some raw \<Rightarrow>
          (case zod_parse LagoSubscriptionSchema raw of
             None \<Rightarrow> (Some ''subscription payload failed schema'', c)
           | Some x \<Rightarrow> (case upsertSubscription io 0 x (lc_subscriptions c) of (err, t) \<Rightarrow> (err, c\<lparr>lc_subscriptions := t\<rparr>))))"

definition handlePlanWebhook :: "cache_io \<Rightarrow> json \<Rightarrow> string \<Rightarrow> lago_cache \<Rightarrow> string option \<times> lago_cache" where
  "handlePlanWebhook io payload kind c =
     (case as_obj (field payload ''plan'') of
        None \<Rightarrow> (Some ''no plan in payload'', c)
      | Some raw \<Rightarrow>
          if kind = ''plan.deleted'' then
            (if truthy (str_field raw ''lago_id'') then (None, c) else (Some ''no lago_id on plan.deleted'', c))
          else (case zod_parse LagoPlanSchema raw of
              None \<Rightarrow> (Some ''plan payload failed schema'', c)
            | Some x \<Rightarrow> (case upsertPlan io 0 x (lc_plans c) of (err, t) \<Rightarrow> (err, c\<lparr>lc_plans := t\<rparr>))))"

definition handleInvoiceWebhook :: "cache_io \<Rightarrow> json \<Rightarrow> string \<Rightarrow> lago_cache \<Rightarrow> string option \<times> lago_cache" where
  "handleInvoiceWebhook io payload kind c =
     (case as_obj (field payload ''invoice'') of
        None \<Rightarrow> (Some ''no invoice in payload'', c)
      | Some raw \<Rightarrow>
          if kind = ''invoice.voided'' \<and> \<not> truthy (str_field raw ''lago_id'') then (Some ''no lago_id on voided invoice'', c)
          else if kind = ''invoice.deleted'' then
            if \<not> truthy (str_field raw ''lago_id'') then (Some ''no lago_id on invoice.deleted'', c)
            else (case softDeleteInvoice io (id_of raw) (lc_invoices c) of (err, t) \<Rightarrow> (err, c\<lparr>lc_invoices := t\<rparr>))
          else (case zod_parse LagoInvoiceExtendedSchema raw of
              None \<Rightarrow> (Some ''invoice payload failed schema'', c)
            | Some x \<Rightarrow> (case upsertInvoice io 0 x (lc_invoices c) of (err, t) \<Rightarrow> (err, c\<lparr>lc_invoices := t\<rparr>))))"

definition handleWalletWebhook :: "cache_io \<Rightarrow> json \<Rightarrow> string \<Rightarrow> lago_cache \<Rightarrow> string option \<times> lago_cache" where
  "handleWalletWebhook io payload kind c =
     (case as_obj (field payload ''wallet'') of
        None \<Rightarrow> (Some ''no wallet in payload'', c)
      | Some raw \<Rightarrow>
          (case zod_parse LagoWalletSchema raw of
             None \<Rightarrow> (Some ''wallet payload failed schema'', c)
           | Some x \<Rightarrow> (case upsertWallet io 0 x None (lc_wallets c) of (err, t) \<Rightarrow> (err, c\<lparr>lc_wallets := t\<rparr>))))"

section \<open>The tables of one reconcile run\<close>

text \<open>What a table says about the live entities, and the invariant of the primary key.\<close>

definition live :: "'v cache \<Rightarrow> string \<Rightarrow> 'v option" where
  "live rows i = map_option ch_values (find (\<lambda>r. ch_lagoId r = i \<and> ch_deletedAt r = None) rows)"

definition keyed :: "'v cache \<Rightarrow> bool" where
  "keyed rows \<longleftrightarrow> distinct (map ch_lagoId rows)"

lemma id_list_written:
  "map ch_lagoId (written i v now rows) = (if i \<in> ch_lagoId ` set rows then map ch_lagoId rows else map ch_lagoId rows @ [i])"
  by (auto simp: written_def Let_def)

lemma ids_written: "ch_lagoId ` set (written i v now rows) = insert i (ch_lagoId ` set rows)"
  using arg_cong [OF id_list_written [of i v now rows], of set] by auto

lemma keyed_written: "keyed rows \<Longrightarrow> keyed (written i v now rows)"
  by (auto simp: keyed_def id_list_written)

lemma written_other: "r \<in> set rows \<Longrightarrow> ch_lagoId r \<noteq> i \<Longrightarrow> r \<in> set (written i v now rows)"
  by (force simp: written_def Let_def)

lemma live_Cons:
  "live (r # rows) j = (if ch_lagoId r = j \<and> ch_deletedAt r = None then Some (ch_values r) else live rows j)"
  by (simp add: live_def)

lemma live_Nil [simp]: "live [] j = None"
  by (simp add: live_def)

lemma live_append: "live (xs @ ys) j = (case live xs j of Some v \<Rightarrow> Some v | None \<Rightarrow> live ys j)"
  by (induction xs) (auto simp: live_Cons)

lemma live_absent: "i \<notin> ch_lagoId ` set rows \<Longrightarrow> live rows i = None"
  by (induction rows) (auto simp: live_Cons)

lemma live_replace:
  assumes "ch_lagoId r = i" "ch_deletedAt r = None"
  shows "live (map (\<lambda>x. if ch_lagoId x = i then r else x) rows) j =
    (if j = i \<and> i \<in> ch_lagoId ` set rows then Some (ch_values r) else live rows j)"
  using assms by (induction rows) (auto simp: live_Cons)

lemma live_written: "live (written i v now rows) j = (if j = i then Some v else live rows j)"
  by (auto simp: written_def Let_def live_replace live_append live_absent live_Cons split: option.split)

lemma live_mark_orphans: "live (mark_orphans os now rows) j = (if j \<in> set os then None else live rows j)"
proof (induction rows)
  case Nil
  then show ?case by (simp add: mark_orphans_def)
next
  case (Cons r rows)
  then show ?case by (auto simp: live_Cons mark_orphans_def)
qed

lemma ids_mark_orphans: "map ch_lagoId (mark_orphans os now rows) = map ch_lagoId rows"
  by (simp add: mark_orphans_def)

lemma active_ids_live: "set (active_ids rows) = {i. live rows i \<noteq> None}"
  by (induction rows) (auto simp: active_ids_def live_Cons)

lemma set_findOrphans: "set (findOrphans fresh ids) = set ids - set fresh"
  by (auto simp: findOrphans_def)

text \<open>The orphan pass keeps exactly the live rows that are fresh.\<close>

lemma orphan_pass_live:
  assumes "orphan_pass name io f k errs fresh rows = (Inr rs, rows')"
  shows "live rows' i = (if i \<in> set fresh then live rows i else None)"
    and "rr_errors rs = errs" "rr_fetched rs = f" "rr_upserted rs = k"
    and "rr_orphaned rs = length (findOrphans fresh (active_ids rows))"
proof -
  let ?os = "findOrphans fresh (active_ids rows)"
  have run: "rows' = (if ?os = [] then rows else mark_orphans ?os (ci_end io) rows)"
    and rs: "rs = \<lparr>rr_entity = name, rr_fetched = f, rr_upserted = k, rr_orphaned = length ?os, rr_errors = errs\<rparr>"
    using assms by (auto simp: orphan_pass_def Let_def split: option.splits if_splits)
  then have "rows' = mark_orphans ?os (ci_end io) rows"
    by (auto simp: mark_orphans_def)
  moreover have "i \<in> set ?os \<longleftrightarrow> live rows i \<noteq> None \<and> i \<notin> set fresh"
    by (auto simp: set_findOrphans active_ids_live)
  ultimately show "live rows' i = (if i \<in> set fresh then live rows i else None)"
    by (auto simp: live_mark_orphans)
  show "rr_errors rs = errs" "rr_fetched rs = f" "rr_upserted rs = k"
    "rr_orphaned rs = length (findOrphans fresh (active_ids rows))"
    by (simp_all add: rs)
qed

lemma orphan_pass_ids:
  "orphan_pass name io f k errs fresh rows = (r, rows') \<Longrightarrow> map ch_lagoId rows' = map ch_lagoId rows"
  by (auto simp: orphan_pass_def Let_def ids_mark_orphans split: option.splits if_splits)

lemma orphan_pass_row:
  assumes "orphan_pass name io f k errs fresh rows = (r, rows')" "x \<in> set rows"
  shows "\<exists>y \<in> set rows'. ch_lagoId y = ch_lagoId x \<and> ch_values y = ch_values x"
proof -
  have "rows' = rows \<or> (\<exists>os now. rows' = mark_orphans os now rows)"
    using assms(1) by (auto simp: orphan_pass_def Let_def split: option.splits if_splits)
  moreover have "\<exists>y \<in> set (mark_orphans os now rows). ch_lagoId y = ch_lagoId x \<and> ch_values y = ch_values x" for os now
    using assms(2) by (intro bexI [of _ "if ch_lagoId x \<in> set os then x\<lparr>ch_deletedAt := Some now\<rparr> else x"])
      (auto simp: mark_orphans_def)
  ultimately show ?thesis using assms(2) by auto
qed

section \<open>The contract of an upsert\<close>

text \<open>
  What the pass relies on: a failing upsert leaves the table alone, a succeeding one makes the entity
  live, and a row of another id with the same unique column makes it fail.
\<close>

locale entity_table =
  fixes up :: "cache_io \<Rightarrow> nat \<Rightarrow> json \<Rightarrow> 'v cache \<Rightarrow> string option \<times> 'v cache"
    and vals :: "json \<Rightarrow> 'v"
    and uniq :: "'v \<Rightarrow> string option"
  assumes fails: "up io n e rows = (Some m, rows') \<Longrightarrow> rows' = rows"
    and writes: "up io n e rows = (None, rows') \<Longrightarrow> rows' = written (id_of e) (vals e) (ci_now io n) rows"
    and clashes: "x \<in> set rows \<Longrightarrow> ch_lagoId x \<noteq> id_of e \<Longrightarrow> uniq (vals e) = Some u \<Longrightarrow> uniq (ch_values x) = Some u \<Longrightarrow>
      fst (up io n e rows) \<noteq> None"
begin

lemma up_live:
  assumes "up io n e rows = (err, rows')"
  shows "live rows' i = (if i = id_of e \<and> err = None then Some (vals e) else live rows i)"
  using assms by (cases err) (auto simp: live_written dest: fails writes)

lemma up_ids:
  assumes "up io n e rows = (err, rows')"
  shows "ch_lagoId ` set rows' = (if err = None then insert (id_of e) (ch_lagoId ` set rows) else ch_lagoId ` set rows)"
proof (cases err)
  case None
  then show ?thesis using writes [of io n e rows rows'] assms by (simp add: ids_written)
next
  case (Some m)
  then show ?thesis using fails [of io n e rows m rows'] assms by simp
qed

lemma loop_step:
  assumes "upsert_loop (up io) n (e # es) rows = ((k, errs), rows')"
  obtains err rows1 k1 errs1 where "up io n e rows = (err, rows1)" "upsert_loop (up io) (n + 1) es rows1 = ((k1, errs1), rows')"
    "k = (if err = None then k1 + 1 else k1)" "errs = (case err of None \<Rightarrow> errs1 | Some m \<Rightarrow> (Some (id_of e), m) # errs1)"
proof -
  obtain err rows1 where u: "up io n e rows = (err, rows1)" by fastforce
  obtain k1 errs1 rows2 where l: "upsert_loop (up io) (n + 1) es rows1 = ((k1, errs1), rows2)" by (metis surj_pair)
  have eq: "rows2 = rows'" "k = (if err = None then k1 + 1 else k1)"
    "errs = (case err of None \<Rightarrow> errs1 | Some m \<Rightarrow> (Some (id_of e), m) # errs1)"
    using assms u l by (auto split: option.splits)
  show thesis by (rule that [OF u l [unfolded eq(1)] eq(2, 3)])
qed

lemma loop_count: "upsert_loop (up io) n es rows = ((k, errs), rows') \<Longrightarrow> k + length errs = length es"
proof (induction es arbitrary: n rows k errs)
  case (Cons e es)
  from Cons.prems show ?case
  proof (cases rule: loop_step)
    case (1 err rows1 k1 errs1)
    then show ?thesis using Cons.IH [OF 1(2)] by (cases err) auto
  qed
qed simp

lemma loop_live:
  assumes "upsert_loop (up io) n es rows = ((k, []), rows')"
  shows "live rows' i = (case find (\<lambda>e. id_of e = i) (rev es) of Some e \<Rightarrow> Some (vals e) | None \<Rightarrow> live rows i)"
  using assms
proof (induction es arbitrary: n rows k)
  case (Cons e es)
  from Cons.prems obtain rows1 k1 where u: "up io n e rows = (None, rows1)"
    and l: "upsert_loop (up io) (n + 1) es rows1 = ((k1, []), rows')"
    by (cases rule: loop_step) (auto split: option.splits)
  show ?case
    using Cons.IH [OF l] up_live [OF u] by (auto simp: find_snoc split: option.splits)
qed simp

lemma loop_other:
  "upsert_loop (up io) n es rows = ((k, errs), rows') \<Longrightarrow> i \<notin> id_of ` set es \<Longrightarrow> live rows' i = live rows i"
proof (induction es arbitrary: n rows k errs)
  case (Cons e es)
  from Cons.prems(1) show ?case
  proof (cases rule: loop_step)
    case (1 err rows1 k1 errs1)
    then show ?thesis using Cons.IH [OF 1(2)] Cons.prems(2) up_live [OF 1(1), of i] by simp
  qed
qed simp

lemma loop_keeps_live:
  "upsert_loop (up io) n es rows = ((k, errs), rows') \<Longrightarrow> live rows i \<noteq> None \<Longrightarrow> live rows' i \<noteq> None"
proof (induction es arbitrary: n rows k errs)
  case (Cons e es)
  from Cons.prems(1) show ?case
  proof (cases rule: loop_step)
    case (1 err rows1 k1 errs1)
    then show ?thesis using Cons.IH [OF 1(2)] Cons.prems(2) up_live [OF 1(1), of i] by (auto split: if_splits)
  qed
qed simp

text \<open>A pass without errors makes the live rows the listing; without errors or not, it only removes what is not listed.\<close>

lemma reconcile_mirrors:
  assumes "reconcile_entity name up io rows = (Inr rs, rows')" "ci_list io = Inr es" "rr_errors rs = []"
    "distinct (map id_of es)"
  shows "live rows' i = map_of (map (\<lambda>e. (id_of e, vals e)) es) i"
proof -
  obtain k errs rows1 where l: "upsert_loop (up io) 0 es rows = ((k, errs), rows1)" by (metis surj_pair)
  then have o': "orphan_pass name io (length es) k errs (map id_of es) rows1 = (Inr rs, rows')"
    using assms(1, 2) by (simp add: reconcile_entity_def)
  have l0: "upsert_loop (up io) 0 es rows = ((k, []), rows1)" using l orphan_pass_live(2) [OF o'] assms(3) by simp
  show ?thesis
  proof (cases "i \<in> id_of ` set es")
    case True
    then obtain e where e: "e \<in> set es" "id_of e = i" by auto
    then have "find (\<lambda>x. id_of x = i) (rev es) = Some e"
      using find_distinct [of id_of "rev es" e] assms(4) by (simp add: rev_map [symmetric])
    then have "live rows1 i = Some (vals e)" using loop_live [OF l0, of i] by simp
    moreover have "map_of (map (\<lambda>e. (id_of e, vals e)) es) i = Some (vals e)"
      using e assms(4) by (intro map_of_is_SomeI) (auto simp: comp_def)
    ultimately show ?thesis using orphan_pass_live(1) [OF o', of i] True by simp
  next
    case False
    then have "map_of (map (\<lambda>e. (id_of e, vals e)) es) i = None" by (force simp: map_of_eq_None_iff)
    then show ?thesis using orphan_pass_live(1) [OF o', of i] False by auto
  qed
qed

lemma reconcile_keeps_listed:
  assumes "reconcile_entity name up io rows = (r, rows')" "ci_list io = Inr es" "i \<in> id_of ` set es" "live rows i \<noteq> None"
  shows "live rows' i \<noteq> None"
proof -
  obtain k errs rows1 where l: "upsert_loop (up io) 0 es rows = ((k, errs), rows1)" by (metis surj_pair)
  then have o': "orphan_pass name io (length es) k errs (map id_of es) rows1 = (r, rows')"
    using assms(1, 2) by (simp add: reconcile_entity_def)
  have "live rows1 i \<noteq> None" by (rule loop_keeps_live [OF l assms(4)])
  then show ?thesis
  proof (cases r)
    case (Inl m)
    then have "rows' = rows1" using o' by (auto simp: orphan_pass_def Let_def split: option.splits if_splits)
    then show ?thesis using \<open>live rows1 i \<noteq> None\<close> by simp
  next
    case (Inr rs)
    then show ?thesis using orphan_pass_live(1) [of name io _ k errs _ rows1 rs rows' i] o' assms(3) \<open>live rows1 i \<noteq> None\<close> by auto
  qed
qed

lemma loop_ids:
  "upsert_loop (up io) n es rows = ((k, errs), rows') \<Longrightarrow> ch_lagoId ` set rows \<subseteq> ch_lagoId ` set rows'"
proof (induction es arbitrary: n rows k errs)
  case (Cons e es)
  from Cons.prems(1) show ?case
  proof (cases rule: loop_step)
    case (1 err rows1 k1 errs1)
    then show ?thesis using Cons.IH [OF 1(2)] up_ids [OF 1(1)] by (cases err) auto
  qed
qed simp

lemma reconcile_keeps_ids:
  assumes "reconcile_entity name up io rows = (r, rows')"
  shows "ch_lagoId ` set rows \<subseteq> ch_lagoId ` set rows'"
proof (cases "ci_list io")
  case (Inl m)
  then show ?thesis using assms by (simp add: reconcile_entity_def)
next
  case (Inr es)
  obtain k errs rows1 where l: "upsert_loop (up io) 0 es rows = ((k, errs), rows1)" by (metis surj_pair)
  then have o': "orphan_pass name io (length es) k errs (map id_of es) rows1 = (r, rows')"
    using assms Inr by (simp add: reconcile_entity_def)
  have "ch_lagoId ` set rows' = ch_lagoId ` set rows1" using orphan_pass_ids [OF o'] by (metis image_set)
  then show ?thesis using loop_ids [OF l] by simp
qed

lemma reconcile_outage: "ci_list io = Inl m \<Longrightarrow> reconcile_entity name up io rows = (Inl m, rows)"
  by (simp add: reconcile_entity_def)

text \<open>
  A row of id \<open>a\<close> holds the unique value \<open>u\<close>; an entity of id \<open>b\<close> with that value is refused as long
  as Lago does not list \<open>a\<close> again.
\<close>

definition holds :: "string \<Rightarrow> string \<Rightarrow> 'v cache \<Rightarrow> bool" where
  "holds a u rows \<longleftrightarrow> (\<exists>x \<in> set rows. ch_lagoId x = a \<and> uniq (ch_values x) = Some u)"

lemma up_holds:
  assumes "holds a u rows" "b \<notin> ch_lagoId ` set rows" "a \<noteq> b" "id_of e \<noteq> a" "id_of e = b \<longrightarrow> uniq (vals e) = Some u"
    "up io n e rows = (err, rows')"
  shows "holds a u rows'" "b \<notin> ch_lagoId ` set rows'" "id_of e = b \<Longrightarrow> err \<noteq> None"
proof -
  obtain x where x: "x \<in> set rows" "ch_lagoId x = a" "uniq (ch_values x) = Some u" using assms(1) by (auto simp: holds_def)
  show err: "err \<noteq> None" if "id_of e = b"
    using clashes [of x rows e u io n] x assms(3, 5, 6) that by simp
  show "b \<notin> ch_lagoId ` set rows'" using up_ids [OF assms(6)] assms(2) err by auto
  have "x \<in> set rows'"
  proof (cases err)
    case None
    then have "rows' = written (id_of e) (vals e) (ci_now io n) rows" using assms(6) by (intro writes) simp
    then show ?thesis using written_other [of x rows "id_of e"] x assms(4) by simp
  next
    case (Some m)
    then show ?thesis using fails [of io n e rows m rows'] assms(6) x by simp
  qed
  then show "holds a u rows'" using x by (auto simp: holds_def)
qed

lemma loop_holds:
  assumes "holds a u rows" "b \<notin> ch_lagoId ` set rows" "a \<noteq> b"
    "\<forall>e \<in> set es. id_of e \<noteq> a \<and> (id_of e = b \<longrightarrow> uniq (vals e) = Some u)"
    "upsert_loop (up io) n es rows = ((k, errs), rows')"
  shows "holds a u rows' \<and> b \<notin> ch_lagoId ` set rows' \<and> (b \<in> id_of ` set es \<longrightarrow> (\<exists>m. (Some b, m) \<in> set errs))"
  using assms(1, 2, 4, 5)
proof (induction es arbitrary: n rows k errs)
  case (Cons e es)
  from Cons.prems(4) show ?case
  proof (cases rule: loop_step)
    case (1 err rows1 k1 errs1)
    have e: "id_of e \<noteq> a" "id_of e = b \<longrightarrow> uniq (vals e) = Some u" using Cons.prems(3) by auto
    note h = up_holds [OF Cons.prems(1, 2) assms(3) e 1(1)]
    have rest: "holds a u rows' \<and> b \<notin> ch_lagoId ` set rows' \<and> (b \<in> id_of ` set es \<longrightarrow> (\<exists>m. (Some b, m) \<in> set errs1))"
      using Cons.IH [OF h(1, 2) _ 1(2)] Cons.prems(3) by auto
    show ?thesis
      using rest h(3) 1(4) by (cases err) auto
  qed
qed simp

lemma reconcile_holds:
  assumes "holds a u rows" "b \<notin> ch_lagoId ` set rows" "a \<noteq> b" "ci_list io = Inr es"
    "\<forall>e \<in> set es. id_of e \<noteq> a \<and> (id_of e = b \<longrightarrow> uniq (vals e) = Some u)"
    "reconcile_entity name up io rows = (r, rows')"
  shows "holds a u rows'" "b \<notin> ch_lagoId ` set rows'"
    "r = Inr rs \<Longrightarrow> b \<in> id_of ` set es \<Longrightarrow> \<exists>m. (Some b, m) \<in> set (rr_errors rs)"
proof -
  obtain k errs rows1 where l: "upsert_loop (up io) 0 es rows = ((k, errs), rows1)" by (metis surj_pair)
  then have o': "orphan_pass name io (length es) k errs (map id_of es) rows1 = (r, rows')"
    using assms(4, 6) by (simp add: reconcile_entity_def)
  note h = loop_holds [OF assms(1, 2, 3, 5) l]
  show "holds a u rows'" using h orphan_pass_row [OF o'] by (fastforce simp: holds_def)
  have "ch_lagoId ` set rows' = ch_lagoId ` set rows1" using orphan_pass_ids [OF o'] by (metis image_set)
  then show "b \<notin> ch_lagoId ` set rows'" using h by simp
  show "\<exists>m. (Some b, m) \<in> set (rr_errors rs)" if "r = Inr rs" "b \<in> id_of ` set es"
    using h that orphan_pass_live(2) o' by metis
qed

end

interpretation customers: entity_table upsertCustomer customer_of "Some \<circ> cv_externalId"
  by unfold_locales (auto simp: upsertCustomer_def cache_upsert_def split: option.splits if_splits)

interpretation subscriptions: entity_table upsertSubscription subscription_of "Some \<circ> sv_externalId"
  by unfold_locales (auto simp: upsertSubscription_def cache_upsert_def split: option.splits if_splits)

interpretation plans: entity_table upsertPlan plan_of "Some \<circ> pv_code"
  by unfold_locales (auto simp: upsertPlan_def cache_upsert_def split: option.splits if_splits)

interpretation wallets: entity_table "\<lambda>io n w. upsertWallet io n w ext" "\<lambda>w. wallet_of w ext" "\<lambda>_. None" for ext
  by unfold_locales (auto simp: upsertWallet_def cache_upsert_def split: option.splits if_splits)

section \<open>What the passes guarantee\<close>

text \<open>An answer of Lago with a working database.\<close>

definition lago_answer :: "json list \<Rightarrow> cache_io" where
  "lago_answer es =
     \<lparr>ci_list = Inr es, ci_now = (\<lambda>n. 1000 + int n), ci_fail = (\<lambda>_. None), ci_dup = ''duplicate key'', ci_local = None,
      ci_mark = None, ci_end = 2000, ci_feeMark = None, ci_feeFail = (\<lambda>_ _. None), ci_customers = None,
      ci_wallets = (\<lambda>_. Inr [])\<rparr>"

definition small_entity :: "string \<Rightarrow> string \<Rightarrow> json" where
  "small_entity i ext = JObj [(''lago_id'', JStr i), (''external_id'', JStr ext)]"

text \<open>
  C14. A reconcile pass over the customers that reports no error leaves exactly Lago's customers alive in the
  local table, each with the columns of the listed object: whatever the table held before, the live rows
  as a map from ids are the listing. Every row of before is still there, an orphan only stamped.
\<close>
theorem customers_mirror_lago:
  assumes "ci_list io = Inr es" "distinct (map id_of es)"
    and "reconcileLagoCustomers io rows = (Inr res, rows')" "rr_errors res = []"
  shows "live rows' = map_of (map (\<lambda>e. (id_of e, customer_of e)) es)
    \<and> ch_lagoId ` set rows \<subseteq> ch_lagoId ` set rows'"
proof (intro conjI)
  note run = assms(3) [unfolded reconcileLagoCustomers_def]
  show "live rows' = map_of (map (\<lambda>e. (id_of e, customer_of e)) es)"
    by (rule ext) (rule customers.reconcile_mirrors [OF run assms(1, 4, 2)])
  show "ch_lagoId ` set rows \<subseteq> ch_lagoId ` set rows'"
    by (rule customers.reconcile_keeps_ids [OF run])
qed

definition known_customer :: "customer_values cache_row" where
  "known_customer = \<lparr>ch_lagoId = ''c1'', ch_values = customer_of (small_entity ''c1'' ''cust-1''), ch_syncedAt = 1, ch_deletedAt = None\<rparr>"

theorem customers_mirror_lago_witness:
  "\<exists>res rows'. reconcileLagoCustomers (lago_answer [small_entity ''c2'' ''cust-2'']) [known_customer] = (Inr res, rows')
     \<and> live rows' ''c1'' = None \<and> live rows' ''c2'' = Some (customer_of (small_entity ''c2'' ''cust-2''))
     \<and> ''c1'' \<in> ch_lagoId ` set rows'"
proof -
  let ?io = "lago_answer [small_entity ''c2'' ''cust-2'']"
  obtain r rows' where r: "reconcileLagoCustomers ?io [known_customer] = (r, rows')" by fastforce
  have "case fst (reconcileLagoCustomers ?io [known_customer]) of Inl m \<Rightarrow> False | Inr res \<Rightarrow> rr_errors res = []"
    by code_simp
  then obtain res where run: "reconcileLagoCustomers ?io [known_customer] = (Inr res, rows')" "rr_errors res = []"
    using r by (auto split: sum.splits)
  have io: "ci_list ?io = Inr [small_entity ''c2'' ''cust-2'']" by (simp add: lago_answer_def)
  have id: "id_of (small_entity ''c2'' ''cust-2'') = ''c2''" by (simp add: id_of_def str_field_def field_def as_str_def small_entity_def)
  show ?thesis
    using run customers_mirror_lago [OF io _ run] by (intro exI [of _ res] exI [of _ rows']) (simp add: id known_customer_def)
qed

text \<open>Repeated passes over the subscriptions.\<close>

fun subscription_passes ::
  "cache_io list \<Rightarrow> subscription_values cache \<Rightarrow> (string + reconcile_result) list \<times> subscription_values cache"
where
  "subscription_passes [] rows = ([], rows)"
| "subscription_passes (io # ios) rows =
     (case reconcileLagoSubscriptions io rows of
        (r, rows1) \<Rightarrow> (case subscription_passes ios rows1 of (rs, rows2) \<Rightarrow> (r # rs, rows2)))"

text \<open>
  C36. A subscription that Lago replaces by another with the same external id, as a change of the plan does,
  never reaches the local table: the row of the old one, even stamped as deleted, keeps the unique external
  id, every pass fails on the new subscription with the unique index and reports it, however often it runs.
\<close>
theorem replaced_subscription_never_cached:
  assumes "old \<in> set rows" "ch_lagoId old = a" "sv_externalId (ch_values old) = u" "a \<noteq> b" "b \<notin> ch_lagoId ` set rows"
    and "\<forall>io \<in> set ios. \<exists>es. ci_list io = Inr es \<and> b \<in> id_of ` set es
           \<and> (\<forall>e \<in> set es. id_of e \<noteq> a \<and> (id_of e = b \<longrightarrow> text_of e ''external_id'' = u))"
    and "subscription_passes ios rows = (rs, rows')"
  shows "live rows' b = None \<and> (\<forall>res. Inr res \<in> set rs \<longrightarrow> (\<exists>m. (Some b, m) \<in> set (rr_errors res)))"
proof -
  have "subscriptions.holds a u rows" using assms(1-3) by (auto simp: subscriptions.holds_def)
  then show ?thesis using assms(5-7)
  proof (induction ios arbitrary: rows rs)
    case Nil
    then show ?case by (auto simp: live_absent)
  next
    case (Cons io ios)
    obtain r rows1 rs1 where run: "reconcileLagoSubscriptions io rows = (r, rows1)" "subscription_passes ios rows1 = (rs1, rows')"
      "rs = r # rs1" using Cons.prems(4) by (auto split: prod.splits)
    obtain es where es: "ci_list io = Inr es" "b \<in> id_of ` set es"
      "\<forall>e \<in> set es. id_of e \<noteq> a \<and> (id_of e = b \<longrightarrow> (Some \<circ> sv_externalId) (subscription_of e) = Some u)"
      using Cons.prems(3) by (auto simp: subscription_of_def)
    note h = subscriptions.reconcile_holds [OF Cons.prems(1, 2) assms(4) es(1, 3) run(1) [unfolded reconcileLagoSubscriptions_def]]
    have "live rows' b = None \<and> (\<forall>res. Inr res \<in> set rs1 \<longrightarrow> (\<exists>m. (Some b, m) \<in> set (rr_errors res)))"
      by (rule Cons.IH [OF h(1, 2) _ run(2)]) (use Cons.prems(3) in simp)
    then show ?case using h(3) es(2) run(3) by auto
  qed
qed

definition upgraded :: "subscription_values cache_row" where
  "upgraded = \<lparr>ch_lagoId = ''s1'', ch_values = subscription_of (small_entity ''s1'' ''sub-1''), ch_syncedAt = 1, ch_deletedAt = None\<rparr>"

theorem replaced_subscription_never_cached_witness:
  "live (snd (subscription_passes [lago_answer [small_entity ''s2'' ''sub-1''], lago_answer [small_entity ''s2'' ''sub-1'']] [upgraded])) ''s2'' = None"
proof -
  obtain rs rows' where run: "subscription_passes [lago_answer [small_entity ''s2'' ''sub-1''], lago_answer [small_entity ''s2'' ''sub-1'']]
      [upgraded] = (rs, rows')" by fastforce
  have e: "id_of (small_entity ''s2'' ''sub-1'') = ''s2''" "text_of (small_entity ''s2'' ''sub-1'') ''external_id'' = ''sub-1''"
    by (simp_all add: id_of_def text_of_def str_field_def field_def as_str_def small_entity_def)
  have "live rows' ''s2'' = None \<and> (\<forall>res. Inr res \<in> set rs \<longrightarrow> (\<exists>m. (Some ''s2'', m) \<in> set (rr_errors res)))"
    by (rule replaced_subscription_never_cached [of upgraded _ "''s1''" "''sub-1''", OF _ _ _ _ _ _ run])
      (simp_all add: upgraded_def lago_answer_def e,
       simp_all add: subscription_of_def text_of_def str_field_def field_def as_str_def small_entity_def)
  then show ?thesis using run by simp
qed

lemma wallet_loop_other:
  "wallet_loop io ext n ws rows = ((fresh, k, errs), rows') \<Longrightarrow> set fresh \<subseteq> id_of ` set ws"
proof (induction ws arbitrary: n rows fresh k errs rows')
  case (Cons w ws)
  obtain err rows1 where u: "upsertWallet io n w (Some ext) rows = (err, rows1)" by fastforce
  obtain fresh1 k1 errs1 rows2 where l: "wallet_loop io ext (n + 1) ws rows1 = ((fresh1, k1, errs1), rows2)" by (metis surj_pair)
  show ?case using Cons.prems Cons.IH [OF l] u l by (auto split: option.splits)
qed simp

lemma wallet_customers_fresh:
  "wallet_customers io n exts rows = ((fresh, f, k, errs), rows') \<Longrightarrow>
   set fresh \<subseteq> (\<Union>ext \<in> set exts. case ci_wallets io ext of Inl m \<Rightarrow> {} | Inr ws \<Rightarrow> id_of ` set ws)
   \<and> (\<forall>ext \<in> set exts. \<forall>m. ci_wallets io ext = Inl m \<longrightarrow> (\<exists>t. (Some ext, t) \<in> set errs))"
proof (induction exts arbitrary: n rows fresh f k errs rows')
  case (Cons ext exts)
  show ?case
  proof (cases "ci_wallets io ext")
    case (Inl m)
    obtain fresh1 f1 k1 errs1 rows2 where l: "wallet_customers io n exts rows = ((fresh1, f1, k1, errs1), rows2)" by (metis surj_pair)
    define msg where "msg = ''listWalletsForCustomer('' @ ext @ ''): '' @ m"
    have "fresh = fresh1" "errs = (Some ext, msg) # errs1" using Cons.prems Inl l by (simp_all add: msg_def)
    then show ?thesis using Cons.IH [OF l] Inl by (auto simp: ball_Un; meson)
  next
    case (Inr ws)
    obtain fresh1 k1 errs1 rows1 where w: "wallet_loop io ext n ws rows = ((fresh1, k1, errs1), rows1)" by (metis surj_pair)
    obtain fresh2 f2 k2 errs2 rows2 where l: "wallet_customers io (n + length ws) exts rows1 = ((fresh2, f2, k2, errs2), rows2)"
      by (metis surj_pair)
    have "fresh = fresh1 @ fresh2" "errs = errs1 @ errs2" using Cons.prems Inr w l by auto
    then show ?thesis using Cons.IH [OF l] wallet_loop_other [OF w] Inr by fastforce
  qed
qed simp

text \<open>
  C37. When the listing of one customer's wallets fails, the pass goes on and stamps that customer's wallets as
  deleted, since no listing contains them; a failing listing of customers, in contrast, leaves its table alone.
\<close>
theorem wallet_outage_deletes:
  assumes "r \<in> set customers" "ch_deletedAt r = None" "ci_wallets io (cv_externalId (ch_values r)) = Inl m"
    and "live rows i = Some w" "\<forall>ext ws. ci_wallets io ext = Inr ws \<longrightarrow> i \<notin> id_of ` set ws"
    and "ci_customers io = None" "ci_local io = None" "ci_mark io = None"
  shows "(\<exists>res rows' t. reconcileLagoWallets io customers rows = (Inr res, rows') \<and> live rows' i = None
      \<and> (Some (cv_externalId (ch_values r)), t) \<in> set (rr_errors res))
    \<and> (ci_list io' = Inl m \<longrightarrow> snd (reconcileLagoCustomers io' cs) = cs)"
proof
  let ?exts = "map (cv_externalId \<circ> ch_values) (filter (\<lambda>r. ch_deletedAt r = None) customers)"
  obtain fresh f k errs rows1 where l: "wallet_customers io 0 ?exts rows = ((fresh, f, k, errs), rows1)" by (metis surj_pair)
  note fr = wallet_customers_fresh [OF l]
  have nf: "i \<notin> set fresh" using fr assms(5) by (force split: sum.splits)
  have "cv_externalId (ch_values r) \<in> set ?exts" using assms(1, 2) by force
  then obtain t where t: "(Some (cv_externalId (ch_values r)), t) \<in> set errs" using fr assms(3) by blast
  obtain res rows' where o': "orphan_pass ''lago_wallets'' io f k errs fresh rows1 = (Inr res, rows')"
    using assms(7, 8) by (simp add: orphan_pass_def Let_def)
  then have "reconcileLagoWallets io customers rows = (Inr res, rows')"
    using l assms(6) by (simp add: reconcileLagoWallets_def)
  moreover have "live rows' i = None" using orphan_pass_live(1) [OF o', of i] nf by simp
  ultimately show "\<exists>res rows' t. reconcileLagoWallets io customers rows = (Inr res, rows') \<and> live rows' i = None
      \<and> (Some (cv_externalId (ch_values r)), t) \<in> set (rr_errors res)"
    using t orphan_pass_live(2) [OF o'] by auto
  show "ci_list io' = Inl m \<longrightarrow> snd (reconcileLagoCustomers io' cs) = cs"
    by (simp add: reconcileLagoCustomers_def customers.reconcile_outage)
qed

definition known_wallet :: "wallet_values cache_row" where
  "known_wallet = \<lparr>ch_lagoId = ''w1'', ch_values = wallet_of (small_entity ''w1'' []) (Some ''cust-1''), ch_syncedAt = 1, ch_deletedAt = None\<rparr>"

theorem wallet_outage_deletes_witness:
  "\<exists>res rows'. reconcileLagoWallets ((lago_answer [])\<lparr>ci_wallets := \<lambda>_. Inl ''timeout''\<rparr>) [known_customer] [known_wallet] = (Inr res, rows')
     \<and> live rows' ''w1'' = None"
proof -
  let ?io = "(lago_answer [])\<lparr>ci_wallets := \<lambda>_. Inl ''timeout''\<rparr>"
  have "live [known_wallet] ''w1'' = Some (ch_values known_wallet)" by (simp add: live_Cons known_wallet_def)
  from wallet_outage_deletes [of known_customer "[known_customer]" ?io "''timeout''", OF _ _ _ this, where io' = ?io and cs = "[]"]
  show ?thesis by (auto simp: known_customer_def lago_answer_def)
qed

end
