(* ===== verification/Accounts.thy ===== *)
theory Accounts
  imports LagoCache Mappings
begin

text \<open>
  The account of a Lago customer (\<open>src/services/customer-account-provisioner.ts\<close>) and the last part of the
  reconcile run, which gives every cached customer one (\<open>src/services/lago-reconcile/local.ts\<close> and
  \<open>index.ts\<close>). The answer of Lago, the generated id and the outcomes of the inserts are arguments; the
  unique indexes on the address and on the Lago customer are conditions of the insert. Audit rows and
  log lines are left out.
\<close>

section \<open>Accounts\<close>

record account =
  ac_id :: string
  ac_email :: "string option"
  ac_name :: "string option"
  ac_role :: string
  ac_lagoCustomer :: "string option"

record dated_mapping = user_mapping +
  dm_createdAt :: "int option"

datatype provisioner_code =
    LAGO_CUSTOMER_NOT_FOUND
  | LAGO_FETCH_FAILED
  | LAGO_EMAIL_MISSING
  | LAGO_EMAIL_MALFORMED
  | EMAIL_BELONGS_TO_ADMIN
  | EMAIL_LINKED_TO_DIFFERENT_LAGO_CUSTOMER

text \<open>A rejection with its code, or any other error.\<close>

datatype provisioner_error = Rejected provisioner_code | Query_failed string

fun status_by_code :: "provisioner_code \<Rightarrow> int" where
  "status_by_code LAGO_CUSTOMER_NOT_FOUND = 422"
| "status_by_code LAGO_FETCH_FAILED = 502"
| "status_by_code LAGO_EMAIL_MISSING = 422"
| "status_by_code LAGO_EMAIL_MALFORMED = 422"
| "status_by_code EMAIL_BELONGS_TO_ADMIN = 409"
| "status_by_code EMAIL_LINKED_TO_DIFFERENT_LAGO_CUSTOMER = 409"

record resolved_account =
  ra_userId :: string
  ra_created :: bool
  ra_reused :: bool
  ra_email :: "string option"

text \<open>
  Lago's answer, the id of a new account, the failure of its insert for other reasons, and what the
  queries after a lost race see: \<open>None\<close> if they throw, as they do in an aborted transaction.
\<close>

record prov_io =
  pi_customer :: "string + json"
  pi_newId :: string
  pi_insert :: "string option"
  pi_lost :: bool
  pi_race :: "account list option"

section \<open>Addresses and names\<close>

definition mail_char :: "char \<Rightarrow> bool" where
  "mail_char c \<longleftrightarrow> \<not> js_space c \<and> c \<noteq> CHR ''@''"

text \<open>\<open>/^[^\s@]+@[^\s@]+\.[^\s@]+$/\<close>: one at-sign, and a dot inside the domain.\<close>

definition isMalformedEmail :: "string \<Rightarrow> bool" where
  "isMalformedEmail email =
     (let e = Prelude.js_trim email; loc = takeWhile (\<lambda>c. c \<noteq> CHR ''@'') e; dom = drop (length loc + 1) e
      in \<not> (loc \<noteq> [] \<and> list_all mail_char loc \<and> length loc < length e \<and> list_all mail_char dom
            \<and> CHR ''.'' \<in> set (butlast (drop 1 dom))))"

definition blank :: "string option \<Rightarrow> bool" where
  "blank s = (case s of None \<Rightarrow> True | Some x \<Rightarrow> Prelude.js_trim x = [])"

definition buildDisplayName :: "string option \<Rightarrow> string option \<Rightarrow> string option \<Rightarrow> string option \<Rightarrow> string option" where
  "buildDisplayName name firstname lastname email =
     (if \<not> blank name then Some (Prelude.js_trim (the name))
      else if \<not> blank firstname \<or> \<not> blank lastname then
        Some (if blank lastname then Prelude.js_trim (the firstname)
              else if blank firstname then Prelude.js_trim (the lastname)
              else Prelude.js_trim (the firstname) @ '' '' @ Prelude.js_trim (the lastname))
      else if truthy email then
        (let loc = takeWhile (\<lambda>c. c \<noteq> CHR ''@'') (the email) in Some (if loc = [] then the email else loc))
      else None)"

section \<open>Lookups\<close>

definition findExistingUserByEmail :: "account list \<Rightarrow> string \<Rightarrow> account option" where
  "findExistingUserByEmail us email = find (\<lambda>u. map_option to_lower (ac_email u) = Some (to_lower email)) us"

definition direct_linked :: "account list \<Rightarrow> string \<Rightarrow> account option" where
  "direct_linked us ext = find (\<lambda>u. ac_lagoCustomer u = Some ext) us"

text \<open>\<open>findExistingUserViaSibling\<close>: with several users, the one of the youngest mapping.\<close>

definition sibling_rows :: "dated_mapping list \<Rightarrow> string \<Rightarrow> dated_mapping list" where
  "sibling_rows ms ext = filter (\<lambda>m. lagoCustomerExternalId m = Some ext \<and> userId m \<noteq> None) ms"

definition youngest :: "dated_mapping list \<Rightarrow> dated_mapping option" where
  "youngest rows =
     (case List.map_filter dm_createdAt rows of
        [] \<Rightarrow> (case rows of [] \<Rightarrow> None | m # _ \<Rightarrow> Some m)
      | ts \<Rightarrow> find (\<lambda>m. dm_createdAt m = Some (Max (set ts))) rows)"

definition findExistingUserViaSibling :: "dated_mapping list \<Rightarrow> string \<Rightarrow> string option" where
  "findExistingUserViaSibling ms ext =
     (case remdups (map userId (sibling_rows ms ext)) of
        [] \<Rightarrow> None
      | [u] \<Rightarrow> u
      | _ \<Rightarrow> (case youngest (sibling_rows ms ext) of None \<Rightarrow> None | Some m \<Rightarrow> userId m))"

definition findConflictingLagoLink :: "dated_mapping list \<Rightarrow> string \<Rightarrow> string \<Rightarrow> string option" where
  "findConflictingLagoLink ms uid ext =
     (case find (\<lambda>m. userId m = Some uid \<and> lagoCustomerExternalId m \<noteq> None \<and> lagoCustomerExternalId m \<noteq> Some ext) ms of
        None \<Rightarrow> None
      | Some m \<Rightarrow> lagoCustomerExternalId m)"

text \<open>\<open>update users set lago_customer_external_id where id and it is null\<close>.\<close>

definition link_account :: "string \<Rightarrow> string \<Rightarrow> account list \<Rightarrow> account list" where
  "link_account uid ext us =
     map (\<lambda>u. if ac_id u = uid \<and> ac_lagoCustomer u = None then u\<lparr>ac_lagoCustomer := Some ext\<rparr> else u) us"

definition contains :: "string \<Rightarrow> string \<Rightarrow> bool" where
  "contains s w = list_ex (\<lambda>i. take (length w) (drop i s) = w) [0..<length s + 1]"

definition classifyLagoFetchError :: "string \<Rightarrow> provisioner_error" where
  "classifyLagoFetchError msg = Rejected (if contains msg ''404'' then LAGO_CUSTOMER_NOT_FOUND else LAGO_FETCH_FAILED)"

section \<open>Resolution\<close>

definition reuse :: "string \<Rightarrow> string option \<Rightarrow> resolved_account" where
  "reuse uid email = \<lparr>ra_userId = uid, ra_created = False, ra_reused = True, ra_email = email\<rparr>"

definition new_account :: "prov_io \<Rightarrow> json \<Rightarrow> string option \<Rightarrow> string \<Rightarrow> account" where
  "new_account io c email ext =
     \<lparr>ac_id = pi_newId io, ac_email = email,
      ac_name = buildDisplayName (str_field c ''name'') (str_field c ''firstname'') (str_field c ''lastname'') email,
      ac_role = ''customer'', ac_lagoCustomer = Some ext\<rparr>"

text \<open>The unique indexes, or a row another transaction has inserted since.\<close>

definition insert_refused :: "prov_io \<Rightarrow> account \<Rightarrow> account list \<Rightarrow> bool" where
  "insert_refused io a us \<longleftrightarrow> pi_lost io
     \<or> (\<exists>u \<in> set us. ac_id u = ac_id a \<or> ac_lagoCustomer u = ac_lagoCustomer a
          \<or> (ac_email u \<noteq> None \<and> map_option to_lower (ac_email u) = map_option to_lower (ac_email a)))"

definition createNoEmailUser ::
  "prov_io \<Rightarrow> string \<Rightarrow> json \<Rightarrow> account list \<Rightarrow> (provisioner_error + resolved_account) \<times> account list"
where
  "createNoEmailUser io ext c us =
     (let a = new_account io c None ext in
      case pi_insert io of
        Some m \<Rightarrow> (Inl (Query_failed m), us)
      | None \<Rightarrow>
          if \<not> insert_refused io a us
          then (Inr \<lparr>ra_userId = ac_id a, ra_created = True, ra_reused = False, ra_email = None\<rparr>, us @ [a])
          else (case pi_race io of
              None \<Rightarrow> (Inl (Query_failed ''current transaction is aborted''), us)
            | Some us' \<Rightarrow> (case direct_linked us' ext of
                  None \<Rightarrow> (Inl (Query_failed ''23505''), us)
                | Some u \<Rightarrow> (Inr (reuse (ac_id u) (ac_email u)), us))))"

text \<open>The checks on an account found by its address, before and after a lost race.\<close>

definition check_found :: "dated_mapping list \<Rightarrow> string \<Rightarrow> account \<Rightarrow> provisioner_error + resolved_account" where
  "check_found ms ext u =
     (if ac_role u = ''admin'' then Inl (Rejected EMAIL_BELONGS_TO_ADMIN)
      else if truthy (findConflictingLagoLink ms (ac_id u) ext) then Inl (Rejected EMAIL_LINKED_TO_DIFFERENT_LAGO_CUSTOMER)
      else Inr (reuse (ac_id u) (ac_email u)))"

definition createUserWithRaceRetry ::
  "prov_io \<Rightarrow> dated_mapping list \<Rightarrow> string \<Rightarrow> string \<Rightarrow> json \<Rightarrow> account list
     \<Rightarrow> (provisioner_error + resolved_account) \<times> account list"
where
  "createUserWithRaceRetry io ms ext email c us =
     (let a = new_account io c (Some email) ext in
      case pi_insert io of
        Some m \<Rightarrow> (Inl (Query_failed m), us)
      | None \<Rightarrow>
          if \<not> insert_refused io a us
          then (Inr \<lparr>ra_userId = ac_id a, ra_created = True, ra_reused = False, ra_email = Some email\<rparr>, us @ [a])
          else (case pi_race io of
              None \<Rightarrow> (Inl (Query_failed ''current transaction is aborted''), us)
            | Some us' \<Rightarrow> (case direct_linked us' ext of
                  Some u \<Rightarrow> (Inr (reuse (ac_id u) (ac_email u)), us)
                | None \<Rightarrow> (case findExistingUserByEmail us' email of
                      None \<Rightarrow> (Inl (Query_failed ''23505''), us)
                    | Some u \<Rightarrow> (check_found ms ext u, us)))))"

definition resolveOrCreateForEmail ::
  "prov_io \<Rightarrow> dated_mapping list \<Rightarrow> string \<Rightarrow> string \<Rightarrow> json \<Rightarrow> account list
     \<Rightarrow> (provisioner_error + resolved_account) \<times> account list"
where
  "resolveOrCreateForEmail io ms ext email c us =
     (case findExistingUserByEmail us email of
        None \<Rightarrow> createUserWithRaceRetry io ms ext email c us
      | Some u \<Rightarrow> (case check_found ms ext u of
            Inl e \<Rightarrow> (Inl e, us)
          | Inr r \<Rightarrow> (Inr r, link_account (ac_id u) ext us)))"

definition resolve_from_lago ::
  "prov_io \<Rightarrow> dated_mapping list \<Rightarrow> string \<Rightarrow> account list \<Rightarrow> (provisioner_error + resolved_account) \<times> account list"
where
  "resolve_from_lago io ms ext us =
     (case pi_customer io of
        Inl m \<Rightarrow> (Inl (classifyLagoFetchError m), us)
      | Inr c \<Rightarrow>
          let email = str_field c ''email'' in
          if blank email then createNoEmailUser io ext c us
          else let raw = Prelude.js_trim (the email) in
            if isMalformedEmail raw then (Inl (Rejected LAGO_EMAIL_MALFORMED), us)
            else resolveOrCreateForEmail io ms ext raw c us)"

definition resolveOrCreateCustomerAccount ::
  "prov_io \<Rightarrow> dated_mapping list \<Rightarrow> string \<Rightarrow> account list \<Rightarrow> (provisioner_error + resolved_account) \<times> account list"
where
  "resolveOrCreateCustomerAccount io ms ext us =
     (case direct_linked us ext of
        Some u \<Rightarrow> (Inr (reuse (ac_id u) (ac_email u)), us)
      | None \<Rightarrow>
          (case findExistingUserViaSibling ms ext of
             None \<Rightarrow> resolve_from_lago io ms ext us
           | Some uid \<Rightarrow>
               if uid = [] then resolve_from_lago io ms ext us
               else (case find (\<lambda>u. ac_id u = uid) us of
                   None \<Rightarrow> resolve_from_lago io ms ext us
                 | Some u \<Rightarrow> (Inr (reuse uid (ac_email u)), link_account uid ext us))))"

section \<open>The accounts after a resolution\<close>

text \<open>No two accounts share an id, an address or a Lago customer.\<close>

definition account_clash :: "account \<Rightarrow> account \<Rightarrow> bool" where
  "account_clash u v \<longleftrightarrow> ac_id u = ac_id v
     \<or> (ac_lagoCustomer u \<noteq> None \<and> ac_lagoCustomer u = ac_lagoCustomer v)
     \<or> (ac_email u \<noteq> None \<and> map_option to_lower (ac_email u) = map_option to_lower (ac_email v))"

fun accounts_ok :: "account list \<Rightarrow> bool" where
  "accounts_ok [] = True"
| "accounts_ok (u # us) \<longleftrightarrow> (\<forall>v \<in> set us. \<not> account_clash u v) \<and> accounts_ok us"

lemma clash_sym: "account_clash u v = account_clash v u"
  by (cases "ac_email u"; cases "ac_email v"; cases "ac_lagoCustomer u"; cases "ac_lagoCustomer v")
     (auto simp: account_clash_def)

lemma accounts_ok_snoc: "accounts_ok (us @ [a]) \<longleftrightarrow> accounts_ok us \<and> (\<forall>u \<in> set us. \<not> account_clash u a)"
  by (induction us) auto

lemma accounts_ok_id:
  "accounts_ok us \<Longrightarrow> u \<in> set us \<Longrightarrow> v \<in> set us \<Longrightarrow> ac_id u = ac_id v \<Longrightarrow> u = v"
  by (induction us) (auto simp: account_clash_def)

lemma accounts_ok_link:
  "accounts_ok us \<Longrightarrow> u \<in> set us \<Longrightarrow> v \<in> set us \<Longrightarrow> ac_lagoCustomer u = Some e \<Longrightarrow> ac_lagoCustomer v = Some e \<Longrightarrow> u = v"
  by (induction us) (auto simp: account_clash_def)

lemma accounts_ok_mail:
  "accounts_ok us \<Longrightarrow> u \<in> set us \<Longrightarrow> ac_email u = Some email \<Longrightarrow> findExistingUserByEmail us email = Some u"
  by (induction us) (auto simp: account_clash_def findExistingUserByEmail_def)

lemma link_none: "(\<forall>u \<in> set us. ac_id u = uid \<longrightarrow> ac_lagoCustomer u \<noteq> None) \<Longrightarrow> link_account uid ext us = us"
  by (auto simp: link_account_def intro: map_idI)

lemma link_ok:
  assumes "accounts_ok us" "\<forall>u \<in> set us. ac_lagoCustomer u \<noteq> Some ext"
  shows "accounts_ok (link_account uid ext us)"
  using assms
proof (induction us)
  case (Cons u us)
  let ?l = "\<lambda>u. if ac_id u = uid \<and> ac_lagoCustomer u = None then u\<lparr>ac_lagoCustomer := Some ext\<rparr> else u"
  have "\<not> account_clash (?l u) (?l v)" if "v \<in> set us" for v
    using Cons.prems that by (auto simp: account_clash_def)
  then have "\<forall>v \<in> set (map ?l us). \<not> account_clash (?l u) v" by (simp only: set_map) blast
  moreover have "link_account uid ext (u # us) = ?l u # map ?l us" "link_account uid ext us = map ?l us"
    by (simp_all add: link_account_def)
  moreover have "accounts_ok (link_account uid ext us)" using Cons by simp
  ultimately show ?case by (simp only: accounts_ok.simps)
qed (simp add: link_account_def)

lemma direct_None: "direct_linked us ext = None \<longleftrightarrow> (\<forall>u \<in> set us. ac_lagoCustomer u \<noteq> Some ext)"
  by (auto simp: direct_linked_def find_None_set)

text \<open>What one call may do to the accounts.\<close>

definition account_step :: "string \<Rightarrow> account list \<Rightarrow> account list \<Rightarrow> bool" where
  "account_step ext us us' \<longleftrightarrow> us' = us \<or> (\<exists>uid. us' = link_account uid ext us)
     \<or> (\<exists>a. us' = us @ [a] \<and> ac_role a = ''customer'' \<and> ac_lagoCustomer a = Some ext)"

lemma create_step:
  "createNoEmailUser io ext c us = (r, us') \<Longrightarrow> account_step ext us us'"
  "createUserWithRaceRetry io ms ext email c us = (r, us') \<Longrightarrow> account_step ext us us'"
  by (auto simp: createNoEmailUser_def createUserWithRaceRetry_def Let_def account_step_def new_account_def
      split: option.splits if_splits)

lemma resolve_step: "resolveOrCreateCustomerAccount io ms ext us = (r, us') \<Longrightarrow> account_step ext us us'"
  by (auto simp: resolveOrCreateCustomerAccount_def resolve_from_lago_def resolveOrCreateForEmail_def Let_def
      split: option.splits sum.splits if_splits dest: create_step)
     (auto simp: account_step_def)

lemma refused_clash: "\<not> insert_refused io a us \<Longrightarrow> ac_lagoCustomer a \<noteq> None \<Longrightarrow> \<forall>u \<in> set us. \<not> account_clash u a"
  by (auto simp: insert_refused_def account_clash_def)

lemma create_ok:
  assumes "accounts_ok us"
  shows "createNoEmailUser io ext c us = (r, us') \<Longrightarrow> accounts_ok us'"
    "createUserWithRaceRetry io ms ext email c us = (r, us') \<Longrightarrow> accounts_ok us'"
  using assms refused_clash [of io "new_account io c None ext" us] refused_clash [of io "new_account io c (Some email) ext" us]
  by (auto simp: createNoEmailUser_def createUserWithRaceRetry_def Let_def accounts_ok_snoc new_account_def
      split: option.splits if_splits)

lemma from_lago_ok:
  assumes "accounts_ok us" "\<forall>u \<in> set us. ac_lagoCustomer u \<noteq> Some ext" "resolve_from_lago io ms ext us = (r, us')"
  shows "accounts_ok us'"
  using assms create_ok [OF assms(1)] link_ok [OF assms(1, 2)]
  by (auto simp: resolve_from_lago_def resolveOrCreateForEmail_def Let_def split: option.splits sum.splits if_splits)

lemma resolve_ok:
  assumes "accounts_ok us" "resolveOrCreateCustomerAccount io ms ext us = (r, us')"
  shows "accounts_ok us'"
proof (cases "direct_linked us ext")
  case None
  then have free: "\<forall>u \<in> set us. ac_lagoCustomer u \<noteq> Some ext" by (simp add: direct_None)
  show ?thesis
    using assms(2) from_lago_ok [OF assms(1) free] link_ok [OF assms(1) free] None
    by (auto simp: resolveOrCreateCustomerAccount_def split: option.splits if_splits)
next
  case (Some u)
  then show ?thesis using assms by (simp add: resolveOrCreateCustomerAccount_def)
qed

text \<open>
  C18. Resolving the account of a Lago customer keeps the accounts in order: no two share an id, an address up to
  case or a Lago customer; every existing account keeps its id, address, name and role, and a link once
  set is never changed; at most one account is added, and it is a customer linked to that Lago customer.
\<close>
theorem resolution_keeps_accounts:
  assumes "accounts_ok us" "resolveOrCreateCustomerAccount io ms ext us = (r, us')"
  shows "accounts_ok us'
    \<and> (\<forall>i < length us. us' ! i = us ! i \<or> (ac_lagoCustomer (us ! i) = None \<and> us' ! i = (us ! i)\<lparr>ac_lagoCustomer := Some ext\<rparr>))
    \<and> length us' \<le> length us + 1 \<and> (\<forall>a \<in> set (drop (length us) us'). ac_role a = ''customer'' \<and> ac_lagoCustomer a = Some ext)"
proof -
  have step: "account_step ext us us'" by (rule resolve_step [OF assms(2)])
  have "\<forall>i < length us. us' ! i = us ! i \<or> (ac_lagoCustomer (us ! i) = None \<and> us' ! i = (us ! i)\<lparr>ac_lagoCustomer := Some ext\<rparr>)"
    using step by (auto simp: account_step_def link_account_def nth_append split: if_splits)
  moreover have "length us' \<le> length us + 1 \<and> (\<forall>a \<in> set (drop (length us) us'). ac_role a = ''customer'' \<and> ac_lagoCustomer a = Some ext)"
    using step by (auto simp: account_step_def link_account_def)
  ultimately show ?thesis using resolve_ok [OF assms] by blast
qed

definition mail_customer :: "string \<Rightarrow> prov_io" where
  "mail_customer email = \<lparr>pi_customer = Inr (JObj [(''external_id'', JStr ''cust-2''), (''email'', JStr email), (''name'', JStr ''Ann'')]),
     pi_newId = ''new'', pi_insert = None, pi_lost = False, pi_race = None\<rparr>"

definition linked_account :: account where
  "linked_account = \<lparr>ac_id = ''u1'', ac_email = Some ''ann@x.org'', ac_name = None, ac_role = ''customer'', ac_lagoCustomer = Some ''cust-1''\<rparr>"

theorem resolution_keeps_accounts_witness:
  "accounts_ok (snd (resolveOrCreateCustomerAccount (mail_customer ''bob@x.org'') [] ''cust-2'' [linked_account]))"
proof -
  obtain r us' where r: "resolveOrCreateCustomerAccount (mail_customer ''bob@x.org'') [] ''cust-2'' [linked_account] = (r, us')" by fastforce
  show ?thesis using resolution_keeps_accounts [OF _ r] r by simp
qed

section \<open>Repeating a resolution\<close>

lemma find_link_same:
  assumes "accounts_ok us" "u \<in> set us" "ac_lagoCustomer u = Some ext"
  shows "direct_linked us ext = Some u"
proof (cases "direct_linked us ext")
  case None
  then show ?thesis using assms(2, 3) by (auto simp: direct_None)
next
  case (Some v)
  then have "v \<in> set us" "ac_lagoCustomer v = Some ext" by (auto simp: direct_linked_def dest: find_Some_set)
  then show ?thesis using accounts_ok_link [OF assms(1) _ assms(2) _ assms(3)] Some by simp
qed

lemma resolve_linked:
  "direct_linked us ext = Some u \<Longrightarrow> resolveOrCreateCustomerAccount io ms ext us = (Inr (reuse (ac_id u) (ac_email u)), us)"
  by (simp add: resolveOrCreateCustomerAccount_def)

text \<open>After a link the account is found directly, unless it was linked to another customer before.\<close>

lemma link_found:
  assumes "accounts_ok us" "direct_linked us ext = None" "u \<in> set us"
  shows "if ac_lagoCustomer u = None then direct_linked (link_account (ac_id u) ext us) ext = Some (u\<lparr>ac_lagoCustomer := Some ext\<rparr>)
    else link_account (ac_id u) ext us = us"
proof (cases "ac_lagoCustomer u = None")
  case True
  have free: "\<forall>v \<in> set us. ac_lagoCustomer v \<noteq> Some ext" using assms(2) by (simp add: direct_None)
  have "u\<lparr>ac_lagoCustomer := Some ext\<rparr> \<in> set (link_account (ac_id u) ext us)"
    using assms(3) True by (auto simp: link_account_def image_iff intro!: bexI [of _ u])
  then have "direct_linked (link_account (ac_id u) ext us) ext = Some (u\<lparr>ac_lagoCustomer := Some ext\<rparr>)"
    by (intro find_link_same link_ok [OF assms(1) free]) simp_all
  then show ?thesis using True by simp
next
  case False
  then have "link_account (ac_id u) ext us = us"
    using accounts_ok_id [OF assms(1) _ assms(3)] by (intro link_none) blast
  then show ?thesis by (simp only: False if_False)
qed

lemma blank_resolve_by:
  assumes "direct_linked us ext = None" "findExistingUserViaSibling ms ext = None \<or> findExistingUserViaSibling ms ext = Some []
     \<or> (\<exists>uid. findExistingUserViaSibling ms ext = Some uid \<and> find (\<lambda>u. ac_id u = uid) us = None)"
  shows "resolveOrCreateCustomerAccount io ms ext us = resolve_from_lago io ms ext us"
  using assms by (auto simp: resolveOrCreateCustomerAccount_def split: option.splits)

text \<open>What a successful call answers, and how it was reached.\<close>

lemma created_found:
  assumes "pi_race io = None"
  shows "createNoEmailUser io ext c us = (Inr r, us') \<Longrightarrow> direct_linked us ext = None \<Longrightarrow>
      \<exists>v. direct_linked us' ext = Some v \<and> ac_id v = ra_userId r"
    and "createUserWithRaceRetry io ms ext email c us = (Inr r, us') \<Longrightarrow> direct_linked us ext = None \<Longrightarrow>
      \<exists>v. direct_linked us' ext = Some v \<and> ac_id v = ra_userId r"
  using assms
  by (auto simp: createNoEmailUser_def createUserWithRaceRetry_def Let_def new_account_def direct_linked_def
      find_snoc split: option.splits if_splits)

lemma link_or_same:
  assumes "accounts_ok us" "direct_linked us ext = None" "u \<in> set us"
  shows "(\<exists>v. direct_linked (link_account (ac_id u) ext us) ext = Some v \<and> ac_id v = ac_id u) \<or> link_account (ac_id u) ext us = us"
  using link_found [OF assms] by (auto split: if_splits)

lemma found_account: "findExistingUserByEmail us email = Some u \<Longrightarrow> u \<in> set us"
  by (auto simp: findExistingUserByEmail_def dest: find_Some_set)

lemma from_lago_found:
  assumes "accounts_ok us" "direct_linked us ext = None" "pi_race io = None" "resolve_from_lago io ms ext us = (Inr r, us')"
  shows "(\<exists>v. direct_linked us' ext = Some v \<and> ac_id v = ra_userId r)
     \<or> (us' = us \<and> ra_created r = False \<and> (\<forall>io'. pi_customer io' = pi_customer io \<longrightarrow> resolve_from_lago io' ms ext us = (Inr r, us)))"
proof -
  obtain c where c: "pi_customer io = Inr c"
    using assms(4) by (auto simp: resolve_from_lago_def split: sum.splits)
  show ?thesis
  proof (cases "blank (str_field c ''email'')")
    case True
    then have "createNoEmailUser io ext c us = (Inr r, us')" using assms(4) c by (simp add: resolve_from_lago_def Let_def)
    then show ?thesis using created_found(1) [OF assms(3) _ assms(2)] by blast
  next
    case False
    let ?e = "Prelude.js_trim (the (str_field c ''email''))"
    have ok: "\<not> isMalformedEmail ?e" and r: "resolveOrCreateForEmail io ms ext ?e c us = (Inr r, us')"
      using assms(4) c False by (auto simp: resolve_from_lago_def Let_def split: if_splits)
    show ?thesis
    proof (cases "findExistingUserByEmail us ?e")
      case None
      then have "createUserWithRaceRetry io ms ext ?e c us = (Inr r, us')" using r by (simp add: resolveOrCreateForEmail_def)
      then show ?thesis using created_found(2) [OF assms(3) _ assms(2)] by blast
    next
      case (Some u)
      then have f: "check_found ms ext u = Inr r" "us' = link_account (ac_id u) ext us"
        using r by (auto simp: resolveOrCreateForEmail_def split: sum.splits)
      have id: "ra_userId r = ac_id u" "ra_created r = False" using f(1) by (auto simp: check_found_def reuse_def split: if_splits)
      have same: "resolve_from_lago io' ms ext us = (Inr r, us')" if "pi_customer io' = pi_customer io" for io'
        using that c False ok Some f by (simp add: resolve_from_lago_def Let_def resolveOrCreateForEmail_def)
      show ?thesis
        using link_or_same [OF assms(1, 2) found_account [OF Some]] same id f(2) by auto
    qed
  qed
qed

text \<open>
  Resolving a Lago customer is repeatable: when a resolution succeeded, a second one with the same mappings and
  the same answer of Lago yields the same account, creates nothing and changes nothing, whatever id it
  would have used and whether or not its insert would have worked.
\<close>
theorem resolution_repeatable:
  assumes "accounts_ok us" "pi_race io = None" "resolveOrCreateCustomerAccount io ms ext us = (Inr r, us')"
    "pi_customer io' = pi_customer io"
  shows "\<exists>r'. resolveOrCreateCustomerAccount io' ms ext us' = (Inr r', us') \<and> ra_userId r' = ra_userId r \<and> \<not> ra_created r'"
proof -
  have again: ?thesis if "\<exists>v. direct_linked us' ext = Some v \<and> ac_id v = ra_userId r"
    using that resolve_linked [of us' ext] by (auto simp: reuse_def)
  show ?thesis
  proof (cases "direct_linked us ext")
    case (Some u)
    then show ?thesis using assms(3) by (auto simp: resolve_linked reuse_def)
  next
    case None
    show ?thesis
    proof (cases "\<exists>uid u. findExistingUserViaSibling ms ext = Some uid \<and> uid \<noteq> [] \<and> find (\<lambda>u. ac_id u = uid) us = Some u")
      case True
      then obtain uid u where s: "findExistingUserViaSibling ms ext = Some uid" "uid \<noteq> []" "find (\<lambda>u. ac_id u = uid) us = Some u"
        by blast
      then have u: "u \<in> set us" "ac_id u = uid" by (auto dest: find_Some_set)
      have step: "resolveOrCreateCustomerAccount i ms ext us = (Inr (reuse uid (ac_email u)), link_account uid ext us)" for i
        using None s by (simp add: resolveOrCreateCustomerAccount_def)
      then have r: "r = reuse uid (ac_email u)" "us' = link_account uid ext us" using assms(3) by simp_all
      show ?thesis
        using link_or_same [OF assms(1) None u(1)] again step r u(2) by (auto simp: reuse_def)
    next
      case False
      then have by_lago: "resolveOrCreateCustomerAccount i ms ext us = resolve_from_lago i ms ext us" for i
        using blank_resolve_by [OF None] by (metis not_None_eq)
      then have "resolve_from_lago io ms ext us = (Inr r, us')" using assms(3) by simp
      from from_lago_found [OF assms(1) None assms(2) this] show ?thesis
      proof
        assume "us' = us \<and> ra_created r = False \<and> (\<forall>io'. pi_customer io' = pi_customer io \<longrightarrow> resolve_from_lago io' ms ext us = (Inr r, us))"
        then show ?thesis using by_lago assms(4) by simp
      qed (rule again)
    qed
  qed
qed

theorem resolution_repeatable_witness:
  "\<exists>r'. resolveOrCreateCustomerAccount ((mail_customer ''ann@x.org'')\<lparr>pi_newId := ''other''\<rparr>) [] ''cust-2'' [linked_account] = (Inr r', [linked_account])
     \<and> ra_userId r' = ''u1'' \<and> \<not> ra_created r'"
proof -
  have c: "resolveOrCreateCustomerAccount (mail_customer ''ann@x.org'') [] ''cust-2'' [linked_account]
      = (Inr (reuse ''u1'' (Some ''ann@x.org'')), [linked_account])" by code_simp
  show ?thesis
    using resolution_repeatable [OF _ _ c, of "(mail_customer ''ann@x.org'')\<lparr>pi_newId := ''other''\<rparr>"]
    by (simp add: mail_customer_def reuse_def)
qed

section \<open>A link the check does not see\<close>

text \<open>
  The check that an address does not already belong to another Lago customer reads only the mappings. An account
  that is linked to another customer by its own column, without a mapping of its own, is taken for the second
  customer too: the resolution succeeds with that account, and no link and no account is written for the
  second customer.
\<close>
theorem second_customer_shares_account:
  assumes "pi_customer io = Inr c" "str_field c ''email'' = Some email" "Prelude.js_trim email = email" "email \<noteq> []"
    "\<not> isMalformedEmail email" "accounts_ok us" "u \<in> set us" "ac_email u = Some email" "ac_role u = ''customer''"
    "ac_lagoCustomer u = Some other" "direct_linked us ext = None" "\<forall>m \<in> set ms. userId m = None"
  shows "resolveOrCreateCustomerAccount io ms ext us = (Inr (reuse (ac_id u) (Some email)), us)"
proof -
  have "sibling_rows ms ext = []" using assms(12) by (auto simp: sibling_rows_def filter_empty_conv)
  then have s: "findExistingUserViaSibling ms ext = None" by (simp add: findExistingUserViaSibling_def)
  have "find (\<lambda>m. userId m = Some (ac_id u) \<and> lagoCustomerExternalId m \<noteq> None \<and> lagoCustomerExternalId m \<noteq> Some ext) ms = None"
    using assms(12) by (auto simp: find_None_set)
  then have c: "check_found ms ext u = Inr (reuse (ac_id u) (Some email))"
    using assms(8, 9) by (simp add: check_found_def findConflictingLagoLink_def truthy_def)
  have f: "findExistingUserByEmail us email = Some u"
    using accounts_ok_mail [OF assms(6, 7)] assms(8) by simp
  have "link_account (ac_id u) ext us = us"
    using accounts_ok_id [OF assms(6) _ assms(7)] assms(10) by (intro link_none) auto
  then show ?thesis
    using assms(1-5, 11) s c f
    by (simp add: resolveOrCreateCustomerAccount_def resolve_from_lago_def resolveOrCreateForEmail_def blank_def)
qed

theorem second_customer_shares_account_witness:
  "resolveOrCreateCustomerAccount (mail_customer ''ann@x.org'') [] ''cust-2'' [linked_account]
     = (Inr (reuse ''u1'' (Some ''ann@x.org'')), [linked_account])"
proof -
  have j: "str_field (JObj [(''external_id'', JStr ''cust-2''), (''email'', JStr ''ann@x.org''), (''name'', JStr ''Ann'')]) ''email'' = Some ''ann@x.org''"
    "Prelude.js_trim ''ann@x.org'' = ''ann@x.org''" "\<not> isMalformedEmail ''ann@x.org''"
    "direct_linked [linked_account] ''cust-2'' = None"
    by code_simp+
  show ?thesis
    using second_customer_shares_account [of "mail_customer ''ann@x.org''" _ "''ann@x.org''" "[linked_account]" linked_account _ _ "[]", OF _ j(1, 2) _ j(3) _ _ _ _ _ j(4)]
    by (simp add: mail_customer_def linked_account_def)
qed

end
