(* ===== verification/Reconcile.thy ===== *)
theory Reconcile
  imports Accounts SyncLog
begin

text \<open>
  The reconcile run that ends a sync: the seven segments of \<open>src/services/lago-reconcile/index.ts\<close>, each
  wrapped by \<open>runReconcileSegment\<close> (\<open>util.ts\<close>), the last of which gives every cached customer an account
  (\<open>local.ts\<close>). Durations and the JSON context of log lines are left out; the outcomes of queries are arguments.
\<close>

section \<open>Local state\<close>

text \<open>The code of a failure; the sentence that follows the code of a rejection in the log is left out.\<close>

fun code_text :: "provisioner_error \<Rightarrow> string" where
  "code_text (Rejected LAGO_CUSTOMER_NOT_FOUND) = ''LAGO_CUSTOMER_NOT_FOUND''"
| "code_text (Rejected LAGO_FETCH_FAILED) = ''LAGO_FETCH_FAILED''"
| "code_text (Rejected LAGO_EMAIL_MISSING) = ''LAGO_EMAIL_MISSING''"
| "code_text (Rejected LAGO_EMAIL_MALFORMED) = ''LAGO_EMAIL_MALFORMED''"
| "code_text (Rejected EMAIL_BELONGS_TO_ADMIN) = ''EMAIL_BELONGS_TO_ADMIN''"
| "code_text (Rejected EMAIL_LINKED_TO_DIFFERENT_LAGO_CUSTOMER) = ''EMAIL_LINKED_TO_DIFFERENT_LAGO_CUSTOMER''"
| "code_text (Query_failed m) = ''UNKNOWN '' @ m"

text \<open>
  For the \<open>n\<close>-th customer: Lago and the inserts, the failure of the commit, the failure of the backfill; then
  the failures of the two reads of the pass.
\<close>

record local_io =
  lo_prov :: "nat \<Rightarrow> prov_io"
  lo_commit :: "nat \<Rightarrow> string option"
  lo_backfill :: "nat \<Rightarrow> string option"
  lo_cached :: "string option"
  lo_orphans :: "string option"

record local_tally =
  lt_provisioned :: nat
  lt_backfilled :: nat
  lt_drift :: nat
  lt_errors :: "(string option \<times> string) list"

definition tally_error :: "string \<Rightarrow> string \<Rightarrow> local_tally \<Rightarrow> local_tally" where
  "tally_error ext m t = t\<lparr>lt_errors := lt_errors t @ [(Some ext, ''provision('' @ ext @ ''): '' @ m)]\<rparr>"

text \<open>\<open>update users set email where id and email is null\<close>, under the unique index on the address.\<close>

definition needs_email :: "string \<Rightarrow> account \<Rightarrow> bool" where
  "needs_email uid u \<longleftrightarrow> ac_id u = uid \<and> ac_email u = None"

definition email_taken :: "string \<Rightarrow> account list \<Rightarrow> bool" where
  "email_taken email us \<longleftrightarrow> list_ex (\<lambda>u. map_option to_lower (ac_email u) = Some (to_lower email)) us"

definition set_email :: "string \<Rightarrow> string \<Rightarrow> account list \<Rightarrow> account list" where
  "set_email uid email us = map (\<lambda>u. if needs_email uid u then u\<lparr>ac_email := Some email\<rparr> else u) us"

definition backfill_email ::
  "string option \<Rightarrow> string \<Rightarrow> string \<Rightarrow> string \<Rightarrow> local_tally \<times> account list \<Rightarrow> local_tally \<times> account list"
where
  "backfill_email failure ext uid email = (\<lambda>(t, us).
     case failure of
       Some m \<Rightarrow> (tally_error ext (''UNKNOWN '' @ m) t, us)
     | None \<Rightarrow>
         if \<not> list_ex (needs_email uid) us then (t, us)
         else if email_taken email us then (tally_error ext ''UNKNOWN users_email_lower_unique'' t, us)
         else (t\<lparr>lt_backfilled := lt_backfilled t + 1\<rparr>, set_email uid email us))"

text \<open>One customer of the cache: the transaction that resolves its account, then the backfill.\<close>

definition local_customer ::
  "local_io \<Rightarrow> dated_mapping list \<Rightarrow> nat \<Rightarrow> customer_values \<Rightarrow> local_tally \<times> account list \<Rightarrow> local_tally \<times> account list"
where
  "local_customer io ms n c = (\<lambda>(t, us).
     case resolveOrCreateCustomerAccount (lo_prov io n) ms (cv_externalId c) us of
       (Inl e, _) \<Rightarrow> (tally_error (cv_externalId c) (code_text e) t, us)
     | (Inr r, us1) \<Rightarrow>
         (case lo_commit io n of
            Some m \<Rightarrow> (tally_error (cv_externalId c) (''UNKNOWN '' @ m) t, us)
          | None \<Rightarrow>
              let t1 = (if ra_created r then t\<lparr>lt_provisioned := lt_provisioned t + 1\<rparr> else t) in
              if truthy (cv_email c) \<and> \<not> truthy (ra_email r)
              then backfill_email (lo_backfill io n) (cv_externalId c) (ra_userId r) (the (cv_email c)) (t1, us1)
              else if truthy (cv_email c) \<and> to_lower (the (cv_email c)) \<noteq> to_lower (the (ra_email r))
              then (t1\<lparr>lt_drift := lt_drift t1 + 1\<rparr>, us1)
              else (t1, us1)))"

fun local_loop ::
  "local_io \<Rightarrow> dated_mapping list \<Rightarrow> nat \<Rightarrow> customer_values list \<Rightarrow> local_tally \<times> account list \<Rightarrow> local_tally \<times> account list"
where
  "local_loop io ms n [] s = s"
| "local_loop io ms n (c # cs) s = local_loop io ms (n + 1) cs (local_customer io ms n c s)"

text \<open>The live subscriptions joined to the active mappings: those without a partner.\<close>

definition orphan_mappings :: "subscription_values cache \<Rightarrow> dated_mapping list \<Rightarrow> dated_mapping list" where
  "orphan_mappings subs ms =
     filter (\<lambda>m. isActive m \<and> (case lagoSubscriptionExternalId m of None \<Rightarrow> False
       | Some s \<Rightarrow> \<not> list_ex (\<lambda>r. ch_deletedAt r = None \<and> sv_externalId (ch_values r) = s) subs)) ms"

definition orphan_error :: "dated_mapping \<Rightarrow> string option \<times> string" where
  "orphan_error m = (lagoSubscriptionExternalId m,
     ''mapping '' @ show_int (mappingId m) @ '' ('' @ steveOcppIdTag m @ '') references unknown subscription ''
       @ the (lagoSubscriptionExternalId m))"

definition live_values :: "'v cache \<Rightarrow> 'v list" where
  "live_values rows = map ch_values (filter (\<lambda>r. ch_deletedAt r = None) rows)"

definition empty_tally :: local_tally where
  "empty_tally = \<lparr>lt_provisioned = 0, lt_backfilled = 0, lt_drift = 0, lt_errors = []\<rparr>"

definition reconcileLocalState ::
  "local_io \<Rightarrow> lago_cache \<Rightarrow> dated_mapping list \<Rightarrow> account list \<Rightarrow> (string + reconcile_result) \<times> account list"
where
  "reconcileLocalState io lc ms us =
     (case lo_cached io of
        Some m \<Rightarrow> (Inl m, us)
      | None \<Rightarrow>
          let cached = live_values (lc_customers lc) in
          (case local_loop io ms 0 cached (empty_tally, us) of
             (t, us1) \<Rightarrow>
               (case lo_orphans io of
                  Some m \<Rightarrow> (Inl m, us1)
                | None \<Rightarrow>
                    let orphans = orphan_mappings (lc_subscriptions lc) ms in
                    (Inr \<lparr>rr_entity = ''local_reconcile'', rr_fetched = length cached,
                       rr_upserted = lt_provisioned t + lt_backfilled t, rr_orphaned = length orphans,
                       rr_errors = lt_errors t @ map orphan_error (take 25 orphans)\<rparr>, us1))))"

section \<open>Segments\<close>

text \<open>At most ten errors are written to the log; the status is a warning when there is one.\<close>

definition runReconcileSegment ::
  "int \<Rightarrow> string \<Rightarrow> string + reconcile_result \<Rightarrow> sync_logger \<times> sync_db \<Rightarrow> reconcile_result \<times> sync_logger \<times> sync_db"
where
  "runReconcileSegment now segment outcome = (\<lambda>(l, d).
     let l0 = startSegment segment l in
     case outcome of
       Inl m \<Rightarrow>
         (\<lparr>rr_entity = segment, rr_fetched = 0, rr_upserted = 0, rr_orphaned = 0, rr_errors = [(None, m)]\<rparr>,
          endSegment now (Some ''error'') (lg_error (segment @ '' reconcile threw'') l0, d))
     | Inr r \<Rightarrow>
         let l1 = lg_info (segment @ '' reconcile complete'') l0 in
         if rr_errors r \<noteq> [] then
           (r, endSegment now (Some ''warning'')
                 (fold (\<lambda>_. lg_warn (segment @ '' reconcile error'')) (take 10 (rr_errors r)) l1, d))
         else (r, endSegment now None (l1, d)))"

record reconcile_io =
  ri_metrics :: cache_io
  ri_plans :: cache_io
  ri_customers :: cache_io
  ri_subscriptions :: cache_io
  ri_invoices :: cache_io
  ri_wallets :: cache_io
  ri_local :: local_io
  ri_now :: "nat \<Rightarrow> int"

record hub =
  hub_lago :: lago_cache
  hub_accounts :: "account list"
  hub_log :: "sync_logger \<times> sync_db"

text \<open>One segment of the run: the function reads and writes the hub, the wrapper writes the log.\<close>

definition segment_step ::
  "int \<Rightarrow> string \<Rightarrow> (hub \<Rightarrow> (string + reconcile_result) \<times> hub) \<Rightarrow> reconcile_result list \<times> hub \<Rightarrow> reconcile_result list \<times> hub"
where
  "segment_step now seg f = (\<lambda>(rs, h).
     case f h of (res, h1) \<Rightarrow>
       (case runReconcileSegment now seg res (hub_log h) of (r, log1) \<Rightarrow> (rs @ [r], h1\<lparr>hub_log := log1\<rparr>)))"

definition metrics_segment :: "cache_io \<Rightarrow> hub \<Rightarrow> (string + reconcile_result) \<times> hub" where
  "metrics_segment io h = (case reconcileLagoBillableMetrics io (lc_metrics (hub_lago h)) of
     (r, t) \<Rightarrow> (r, h\<lparr>hub_lago := (hub_lago h)\<lparr>lc_metrics := t\<rparr>\<rparr>))"

definition plans_segment :: "cache_io \<Rightarrow> hub \<Rightarrow> (string + reconcile_result) \<times> hub" where
  "plans_segment io h = (case reconcileLagoPlans io (lc_plans (hub_lago h)) of
     (r, t) \<Rightarrow> (r, h\<lparr>hub_lago := (hub_lago h)\<lparr>lc_plans := t\<rparr>\<rparr>))"

definition customers_segment :: "cache_io \<Rightarrow> hub \<Rightarrow> (string + reconcile_result) \<times> hub" where
  "customers_segment io h = (case reconcileLagoCustomers io (lc_customers (hub_lago h)) of
     (r, t) \<Rightarrow> (r, h\<lparr>hub_lago := (hub_lago h)\<lparr>lc_customers := t\<rparr>\<rparr>))"

definition subscriptions_segment :: "cache_io \<Rightarrow> hub \<Rightarrow> (string + reconcile_result) \<times> hub" where
  "subscriptions_segment io h = (case reconcileLagoSubscriptions io (lc_subscriptions (hub_lago h)) of
     (r, t) \<Rightarrow> (r, h\<lparr>hub_lago := (hub_lago h)\<lparr>lc_subscriptions := t\<rparr>\<rparr>))"

definition invoices_segment :: "cache_io \<Rightarrow> hub \<Rightarrow> (string + reconcile_result) \<times> hub" where
  "invoices_segment io h = (case reconcileLagoInvoices io (lc_invoices (hub_lago h)) of
     (r, t) \<Rightarrow> (r, h\<lparr>hub_lago := (hub_lago h)\<lparr>lc_invoices := t\<rparr>\<rparr>))"

definition wallets_segment :: "cache_io \<Rightarrow> hub \<Rightarrow> (string + reconcile_result) \<times> hub" where
  "wallets_segment io h = (case reconcileLagoWallets io (lc_customers (hub_lago h)) (lc_wallets (hub_lago h)) of
     (r, t) \<Rightarrow> (r, h\<lparr>hub_lago := (hub_lago h)\<lparr>lc_wallets := t\<rparr>\<rparr>))"

definition local_segment :: "local_io \<Rightarrow> dated_mapping list \<Rightarrow> hub \<Rightarrow> (string + reconcile_result) \<times> hub" where
  "local_segment io ms h = (case reconcileLocalState io (hub_lago h) ms (hub_accounts h) of
     (r, us) \<Rightarrow> (r, h\<lparr>hub_accounts := us\<rparr>))"

definition runLagoReconcile :: "reconcile_io \<Rightarrow> dated_mapping list \<Rightarrow> hub \<Rightarrow> reconcile_result list \<times> hub" where
  "runLagoReconcile io ms h =
     segment_step (ri_now io 6) ''local_reconcile'' (local_segment (ri_local io) ms)
    (segment_step (ri_now io 5) ''lago_wallets'' (wallets_segment (ri_wallets io))
    (segment_step (ri_now io 4) ''lago_invoices'' (invoices_segment (ri_invoices io))
    (segment_step (ri_now io 3) ''lago_subscriptions'' (subscriptions_segment (ri_subscriptions io))
    (segment_step (ri_now io 2) ''lago_customers'' (customers_segment (ri_customers io))
    (segment_step (ri_now io 1) ''lago_plans'' (plans_segment (ri_plans io))
    (segment_step (ri_now io 0) ''lago_billable_metrics'' (metrics_segment (ri_metrics io)) ([], h)))))))"

section \<open>Every customer has an account\<close>

text \<open>No account is lost, and neither an address nor a link once set changes.\<close>

definition kept :: "account \<Rightarrow> account \<Rightarrow> bool" where
  "kept u v \<longleftrightarrow> ac_id v = ac_id u \<and> ac_role v = ac_role u \<and> (ac_email u \<noteq> None \<longrightarrow> ac_email v = ac_email u)
     \<and> (ac_lagoCustomer u \<noteq> None \<longrightarrow> ac_lagoCustomer v = ac_lagoCustomer u)"

definition grown :: "account list \<Rightarrow> account list \<Rightarrow> bool" where
  "grown us us' \<longleftrightarrow> (\<forall>u \<in> set us. \<exists>v \<in> set us'. kept u v)"

lemma kept_refl: "kept u u"
  by (simp add: kept_def)

lemma kept_trans: "kept u v \<Longrightarrow> kept v w \<Longrightarrow> kept u w"
  by (auto simp: kept_def)

lemma grown_refl: "grown us us"
  by (auto simp: grown_def intro: kept_refl)

lemma grown_trans: "grown us us1 \<Longrightarrow> grown us1 us2 \<Longrightarrow> grown us us2"
  unfolding grown_def by (meson kept_trans)

lemma grown_map: "(\<And>u. u \<in> set us \<Longrightarrow> kept u (f u)) \<Longrightarrow> grown us (map f us)"
  by (auto simp: grown_def)

lemma grown_link: "grown us (link_account uid ext us)"
  unfolding link_account_def by (rule grown_map) (simp add: kept_def)

lemma grown_snoc: "grown us (us @ [a])"
  by (auto simp: grown_def intro: kept_refl)

lemma step_grown: "account_step ext us us' \<Longrightarrow> grown us us'"
  unfolding account_step_def using grown_refl grown_link grown_snoc by blast

lemma grown_email: "grown us (set_email uid email us)"
  unfolding set_email_def by (rule grown_map) (simp add: kept_def needs_email_def)

text \<open>An account that answers for a Lago customer: linked, by a mapping, or by the address when its link is another.\<close>

definition serves :: "dated_mapping list \<Rightarrow> string \<Rightarrow> account \<Rightarrow> bool" where
  "serves ms ext u \<longleftrightarrow> ac_lagoCustomer u = Some ext \<or> findExistingUserViaSibling ms ext = Some (ac_id u)
     \<or> (ac_role u \<noteq> ''admin'' \<and> ac_email u \<noteq> None \<and> ac_lagoCustomer u \<noteq> None)"

lemma serves_kept: "serves ms ext u \<Longrightarrow> kept u v \<Longrightarrow> serves ms ext v"
  by (auto simp: serves_def kept_def)

lemma linked_serves: "u \<in> set us \<Longrightarrow> ac_id u = uid \<Longrightarrow> ac_lagoCustomer u = None \<Longrightarrow>
  \<exists>v \<in> set (link_account uid ext us). serves ms ext v"
  by (rule bexI [of _ "u\<lparr>ac_lagoCustomer := Some ext\<rparr>"]) (auto simp: serves_def link_account_def image_iff intro!: bexI [of _ u])

lemma link_keeps: "u \<in> set us \<Longrightarrow> ac_lagoCustomer u \<noteq> None \<Longrightarrow> u \<in> set (link_account uid ext us)"
  by (auto simp: link_account_def image_iff intro!: bexI [of _ u])

lemma create_serves:
  assumes "pi_race io = None"
  shows "createNoEmailUser io ext c us = (Inr r, us') \<Longrightarrow> \<exists>v \<in> set us'. serves ms ext v"
    "createUserWithRaceRetry io ms ext email c us = (Inr r, us') \<Longrightarrow> \<exists>v \<in> set us'. serves ms ext v"
  using assms
  by (auto simp: createNoEmailUser_def createUserWithRaceRetry_def Let_def new_account_def serves_def
      split: option.splits if_splits)

lemma from_lago_serves:
  assumes "pi_race io = None" "resolve_from_lago io ms ext us = (Inr r, us')"
  shows "\<exists>v \<in> set us'. serves ms ext v"
proof -
  obtain c where c: "pi_customer io = Inr c" using assms(2) by (auto simp: resolve_from_lago_def split: sum.splits)
  let ?e = "Prelude.js_trim (the (str_field c ''email''))"
  consider (none) "createNoEmailUser io ext c us = (Inr r, us')" | (new) "createUserWithRaceRetry io ms ext ?e c us = (Inr r, us')"
    | (found) u where "findExistingUserByEmail us ?e = Some u" "check_found ms ext u = Inr r" "us' = link_account (ac_id u) ext us"
    using assms(2) c
    by (auto simp: resolve_from_lago_def resolveOrCreateForEmail_def Let_def split: if_splits option.splits sum.splits)
  then show ?thesis
  proof cases
    case found
    have u: "u \<in> set us" by (rule found_account [OF found(1)])
    have e: "ac_email u \<noteq> None"
      using found(1) by (auto simp: findExistingUserByEmail_def dest: find_Some_set)
    have r: "ac_role u \<noteq> ''admin''" using found(2) by (auto simp: check_found_def split: if_splits)
    show ?thesis
    proof (cases "ac_lagoCustomer u = None")
      case True
      then show ?thesis using linked_serves [OF u refl] found(3) by simp
    next
      case False
      then have "serves ms ext u" using e r by (simp add: serves_def)
      then show ?thesis using link_keeps [OF u False] found(3) by blast
    qed
  qed (use create_serves [OF assms(1)] in blast)+
qed

lemma resolve_serves:
  assumes "pi_race io = None" "resolveOrCreateCustomerAccount io ms ext us = (Inr r, us')"
  shows "\<exists>v \<in> set us'. serves ms ext v"
proof -
  consider (direct) u where "direct_linked us ext = Some u" | (sibling) uid u where "direct_linked us ext = None"
      "findExistingUserViaSibling ms ext = Some uid" "uid \<noteq> []" "find (\<lambda>u. ac_id u = uid) us = Some u"
    | (lago) "resolve_from_lago io ms ext us = (Inr r, us')"
  proof (cases "direct_linked us ext")
    case None
    show ?thesis
    proof (cases "\<exists>uid u. findExistingUserViaSibling ms ext = Some uid \<and> uid \<noteq> [] \<and> find (\<lambda>u. ac_id u = uid) us = Some u")
      case False
      then have "resolveOrCreateCustomerAccount io ms ext us = resolve_from_lago io ms ext us"
        using blank_resolve_by [OF None] by (metis not_None_eq)
      then show ?thesis using lago assms(2) by simp
    qed (use sibling None in blast)
  qed (rule direct)
  then show ?thesis
  proof cases
    case direct
    then have "u \<in> set us" "serves ms ext u" by (auto simp: direct_linked_def serves_def dest: find_Some_set)
    then show ?thesis using assms(2) resolve_linked [OF direct] by auto
  next
    case sibling
    then have u: "u \<in> set us" "ac_id u = uid" by (auto dest: find_Some_set)
    have us': "us' = link_account uid ext us" using assms(2) sibling by (simp add: resolveOrCreateCustomerAccount_def)
    show ?thesis
    proof (cases "ac_lagoCustomer u = None")
      case True
      then show ?thesis using linked_serves [OF u] us' by simp
    next
      case False
      have "serves ms ext u" using sibling(2) u(2) by (simp add: serves_def)
      then show ?thesis using link_keeps [OF u(1) False] us' by blast
    qed
  qed (rule from_lago_serves [OF assms(1)])
qed

lemma email_ok:
  assumes "accounts_ok us" "\<not> email_taken email us"
  shows "accounts_ok (set_email uid email us)"
  using assms
proof (induction us)
  case (Cons u us)
  let ?e = "\<lambda>u. if needs_email uid u then u\<lparr>ac_email := Some email\<rparr> else u"
  have "\<not> account_clash (?e u) (?e v)" if "v \<in> set us" for v
    using Cons.prems that
    by (cases "ac_email u"; cases "ac_email v") (auto simp: account_clash_def email_taken_def needs_email_def list_ex_iff)
  then have "\<forall>v \<in> set (map ?e us). \<not> account_clash (?e u) v" by (simp only: set_map) blast
  moreover have "set_email uid email (u # us) = ?e u # map ?e us" "set_email uid email us = map ?e us"
    by (simp_all add: set_email_def)
  moreover have "accounts_ok (set_email uid email us)" using Cons by (simp add: email_taken_def)
  ultimately show ?case by (simp only: accounts_ok.simps)
qed (simp add: set_email_def)

lemma backfill_step:
  assumes "backfill_email fl ext uid email (t, us) = (t', us')"
  shows "accounts_ok us \<Longrightarrow> accounts_ok us'" "grown us us'" "\<exists>es. lt_errors t' = lt_errors t @ es"
  using assms email_ok [of us email uid] grown_email grown_refl
  by (auto simp: backfill_email_def tally_error_def split: option.splits if_splits)

lemma local_customer_step:
  assumes "local_customer io ms n c (t, us) = (t', us')" "accounts_ok us" "pi_race (lo_prov io n) = None"
  shows "accounts_ok us' \<and> grown us us' \<and> (\<exists>es. lt_errors t' = lt_errors t @ es)
    \<and> ((\<exists>v \<in> set us'. serves ms (cv_externalId c) v) \<or> (\<exists>m. (Some (cv_externalId c), m) \<in> set (lt_errors t')))"
proof -
  obtain res us1 where r: "resolveOrCreateCustomerAccount (lo_prov io n) ms (cv_externalId c) us = (res, us1)" by fastforce
  show ?thesis
  proof (cases "\<exists>e. res = Inl e \<or> lo_commit io n \<noteq> None")
    case True
    then have "us' = us \<and> (\<exists>m. t' = tally_error (cv_externalId c) m t)"
      using assms(1) r by (auto simp: local_customer_def split: sum.splits option.splits)
    then show ?thesis using assms(2) grown_refl by (auto simp: tally_error_def)
  next
    case False
    then obtain a where a: "res = Inr a" "lo_commit io n = None" by (cases res) auto
    define t1 where "t1 = (if ra_created a then t\<lparr>lt_provisioned := lt_provisioned t + 1\<rparr> else t)"
    have t1: "lt_errors t1 = lt_errors t" by (simp add: t1_def)
    have ok: "accounts_ok us1" by (rule resolve_ok [OF assms(2) r])
    have g: "grown us us1" by (rule step_grown [OF resolve_step [OF r]])
    obtain v where v: "v \<in> set us1" "serves ms (cv_externalId c) v"
      using resolve_serves [OF assms(3)] r a(1) by blast
    consider "us' = us1" "lt_errors t' = lt_errors t"
      | "backfill_email (lo_backfill io n) (cv_externalId c) (ra_userId a) (the (cv_email c)) (t1, us1) = (t', us')"
      using assms(1) r a t1 unfolding t1_def by (auto simp: local_customer_def Let_def split: if_splits)
    then have "accounts_ok us' \<and> grown us1 us' \<and> (\<exists>es. lt_errors t' = lt_errors t @ es)"
    proof cases
      case 2
      then show ?thesis using backfill_step [OF 2] ok t1 by simp
    qed (use ok grown_refl in simp)
    then have fin: "accounts_ok us'" "grown us1 us'" "\<exists>es. lt_errors t' = lt_errors t @ es" by simp_all
    obtain w where "w \<in> set us'" "kept v w" using fin(2) v(1) unfolding grown_def by blast
    then have "\<exists>w \<in> set us'. serves ms (cv_externalId c) w" using serves_kept [OF v(2)] by blast
    then show ?thesis using fin grown_trans [OF g fin(2)] by simp
  qed
qed

lemma local_loop_step:
  assumes "local_loop io ms n cs (t, us) = (t', us')" "accounts_ok us" "\<forall>k. pi_race (lo_prov io k) = None"
  shows "accounts_ok us' \<and> grown us us' \<and> (\<exists>es. lt_errors t' = lt_errors t @ es)
    \<and> (\<forall>c \<in> set cs. (\<exists>v \<in> set us'. serves ms (cv_externalId c) v) \<or> (\<exists>m. (Some (cv_externalId c), m) \<in> set (lt_errors t')))"
  using assms(1, 2)
proof (induction cs arbitrary: n t us)
  case (Cons c cs)
  obtain t1 us1 where s: "local_customer io ms n c (t, us) = (t1, us1)" by fastforce
  have st: "accounts_ok us1" "grown us us1" "\<exists>es. lt_errors t1 = lt_errors t @ es"
    "(\<exists>v \<in> set us1. serves ms (cv_externalId c) v) \<or> (\<exists>m. (Some (cv_externalId c), m) \<in> set (lt_errors t1))"
    using local_customer_step [OF s Cons.prems(2)] assms(3) by simp_all
  have "local_loop io ms (n + 1) cs (t1, us1) = (t', us')" using Cons.prems(1) s by simp
  note rest = Cons.IH [OF this st(1)]
  have "(\<exists>v \<in> set us'. serves ms (cv_externalId c) v) \<or> (\<exists>m. (Some (cv_externalId c), m) \<in> set (lt_errors t'))"
    using st(4)
  proof
    assume "\<exists>v \<in> set us1. serves ms (cv_externalId c) v"
    then show ?thesis using rest serves_kept unfolding grown_def by blast
  next
    assume "\<exists>m. (Some (cv_externalId c), m) \<in> set (lt_errors t1)"
    then show ?thesis using rest by auto
  qed
  then show ?case using rest st(2, 3) grown_trans by auto
qed (simp add: grown_refl)


definition quiet_local :: local_io where
  "quiet_local = \<lparr>lo_prov = \<lambda>_. mail_customer ''bob@x.org'', lo_commit = \<lambda>_. None, lo_backfill = \<lambda>_. None,
     lo_cached = None, lo_orphans = None\<rparr>"

definition cached_bob :: customer_values where
  "cached_bob = \<lparr>cv_externalId = ''cust-2'', cv_name = None, cv_email = Some ''bob@x.org'', cv_currency = None,
     cv_payload = JNull, cv_lagoUpdatedAt = None\<rparr>"

definition one_customer :: lago_cache where
  "one_customer = \<lparr>lc_metrics = [], lc_plans = [],
     lc_customers = [\<lparr>ch_lagoId = ''L2'', ch_values = cached_bob, ch_syncedAt = 0, ch_deletedAt = None\<rparr>],
     lc_subscriptions = [], lc_invoices = \<lparr>it_invoices = [], it_fees = []\<rparr>, lc_wallets = []\<rparr>"


section \<open>The log of a run\<close>

lemma fold_warn: "fold (\<lambda>_. lg_warn m) es l = fold emit (map (\<lambda>_. (''warn'', m)) es) l"
  by (induction es arbitrary: l) (simp_all add: emit_def)

text \<open>A segment closes what it opened and adds rows of its own name only.\<close>

lemma closed_segment:
  assumes "endSegment now st (fold emit ops (startSegment seg l), d) = (l', d')"
  shows "currentSegment l' = None \<and> (\<exists>es. es \<noteq> [] \<and> runLogs d' = runLogs d @ es \<and> (\<forall>e \<in> set es. log_segment e = seg))"
proof -
  let ?l = "fold emit ops (startSegment seg l)"
  obtain b where start: "currentSegment (startSegment seg l) = Some seg" "map_of (segmentLogs (startSegment seg l)) seg = Some b"
    by (simp add: startSegment_def lg_info_def log_entry_def buffer_of_def map_of_update)
  note after = emits [OF start, of ops]
  have b: "buffer_of seg (lg_info m ?l) = (b @ ops) @ [(''info'', m)]" for m
    using after by (simp add: lg_info_def log_entry_def buffer_of_def map_of_update)
  have l': "currentSegment l' = None"
    using assms after by (auto simp: endSegment_def Let_def)
  have d': "runLogs d' = runLogs (persist_logs now (lg_syncRunId ?l) seg (buffer_of seg (lg_info (''Completed '' @ space_first seg @ '' segment'') ?l)) d)"
    using assms after by (auto simp: endSegment_def Let_def)
  show ?thesis using l' d' by (auto simp: b persist_logs_def)
qed

lemma segment_closed:
  assumes "runReconcileSegment now seg res (l, d) = (r, l', d')"
  shows "currentSegment l' = None \<and> (\<exists>es. es \<noteq> [] \<and> runLogs d' = runLogs d @ es \<and> (\<forall>e \<in> set es. log_segment e = seg))"
proof (cases res)
  case (Inl m)
  then have "endSegment now (Some ''error'') (fold emit [(''error'', seg @ '' reconcile threw'')] (startSegment seg l), d) = (l', d')"
    using assms by (simp add: runReconcileSegment_def emit_def)
  then show ?thesis by (rule closed_segment)
next
  case (Inr q)
  have i: "lg_info m k = emit (''info'', m) k" for m k by (simp add: lg_info_def emit_def)
  let ?ops = "(''info'', seg @ '' reconcile complete'') # map (\<lambda>_. (''warn'', seg @ '' reconcile error'')) (take 10 (rr_errors q))"
  have "endSegment now (if rr_errors q \<noteq> [] then Some ''warning'' else None) (fold emit ?ops (startSegment seg l), d) = (l', d')"
    using assms Inr by (auto simp: runReconcileSegment_def Let_def fold_warn i split: if_splits)
  then show ?thesis by (rule closed_segment)
qed

definition hub_rows :: "hub \<Rightarrow> string list" where
  "hub_rows h = map log_segment (runLogs (snd (hub_log h)))"

text \<open>What one step adds to the results and to the log.\<close>

definition stepped :: "string \<Rightarrow> reconcile_result list \<times> hub \<Rightarrow> reconcile_result list \<times> hub \<Rightarrow> bool" where
  "stepped seg s s' \<longleftrightarrow> (\<exists>r k. fst s' = fst s @ [r] \<and> rr_entity r = seg \<and> hub_rows (snd s') = hub_rows (snd s) @ replicate (Suc k) seg
     \<and> currentSegment (fst (hub_log (snd s'))) = None)"

lemma step_logged:
  assumes "\<And>res h1. f h = (res, h1) \<Longrightarrow> hub_log h1 = hub_log h \<and> (\<forall>r. res = Inr r \<longrightarrow> rr_entity r = seg)"
  shows "stepped seg (rs, h) (segment_step now seg f (rs, h))"
proof -
  obtain res h1 where f: "f h = (res, h1)" by fastforce
  obtain l d where h: "hub_log h = (l, d)" by fastforce
  obtain r l' d' where r: "runReconcileSegment now seg res (l, d) = (r, l', d')" by (metis prod_cases3)
  have ent: "rr_entity r = seg"
    using r assms [OF f] by (auto simp: runReconcileSegment_def Let_def split: sum.splits if_splits)
  obtain es where es: "currentSegment l' = None" "es \<noteq> []" "runLogs d' = runLogs d @ es" "\<forall>e \<in> set es. log_segment e = seg"
    using segment_closed [OF r] by blast
  have "map log_segment es = replicate (length es) seg" using es(4) by (induction es) auto
  moreover have "length es = Suc (length es - 1)" using es(2) by (cases es) auto
  ultimately have m: "\<exists>k. map log_segment es = replicate (Suc k) seg" by metis
  have "segment_step now seg f (rs, h) = (rs @ [r], h1\<lparr>hub_log := (l', d')\<rparr>)"
    using f r h assms [OF f] by (simp add: segment_step_def)
  then show ?thesis using ent es m h by (auto simp: stepped_def hub_rows_def)
qed

lemma pass_entity:
  "orphan_pass name io k j errs fresh rows = (Inr r, t) \<Longrightarrow> rr_entity r = name"
  by (auto simp: orphan_pass_def Let_def split: option.splits if_splits)

lemma entity_names:
  "reconcileLagoBillableMetrics io t1 = (Inr r, t1') \<Longrightarrow> rr_entity r = ''lago_billable_metrics''"
  "reconcileLagoPlans io t2 = (Inr r, t2') \<Longrightarrow> rr_entity r = ''lago_plans''"
  "reconcileLagoCustomers io t3 = (Inr r, t3') \<Longrightarrow> rr_entity r = ''lago_customers''"
  "reconcileLagoSubscriptions io t4 = (Inr r, t4') \<Longrightarrow> rr_entity r = ''lago_subscriptions''"
  "reconcileLagoInvoices io t5 = (Inr r, t5') \<Longrightarrow> rr_entity r = ''lago_invoices''"
  "reconcileLagoWallets io cs t6 = (Inr r, t6') \<Longrightarrow> rr_entity r = ''lago_wallets''"
  "reconcileLocalState lio lc ms us = (Inr r, us') \<Longrightarrow> rr_entity r = ''local_reconcile''"
  by (auto simp: reconcileLagoBillableMetrics_def reconcileLagoPlans_def reconcileLagoCustomers_def
      reconcileLagoSubscriptions_def reconcile_entity_def reconcileLagoInvoices_def reconcileLagoWallets_def
      reconcileLocalState_def Let_def dest: pass_entity split: sum.splits prod.splits option.splits if_splits)

lemmas segment_functions = metrics_segment_def plans_segment_def customers_segment_def subscriptions_segment_def
  invoices_segment_def wallets_segment_def local_segment_def

lemma segments_stepped:
  "stepped ''lago_billable_metrics'' (rs, h) (segment_step now ''lago_billable_metrics'' (metrics_segment io) (rs, h))"
  "stepped ''lago_plans'' (rs, h) (segment_step now ''lago_plans'' (plans_segment io) (rs, h))"
  "stepped ''lago_customers'' (rs, h) (segment_step now ''lago_customers'' (customers_segment io) (rs, h))"
  "stepped ''lago_subscriptions'' (rs, h) (segment_step now ''lago_subscriptions'' (subscriptions_segment io) (rs, h))"
  "stepped ''lago_invoices'' (rs, h) (segment_step now ''lago_invoices'' (invoices_segment io) (rs, h))"
  "stepped ''lago_wallets'' (rs, h) (segment_step now ''lago_wallets'' (wallets_segment io) (rs, h))"
  "stepped ''local_reconcile'' (rs, h) (segment_step now ''local_reconcile'' (local_segment lio ms) (rs, h))"
  by (rule step_logged, auto simp: segment_functions dest: entity_names split: prod.splits)+


definition reconcile_segments :: "string list" where
  "reconcile_segments = [''lago_billable_metrics'', ''lago_plans'', ''lago_customers'', ''lago_subscriptions'',
     ''lago_invoices'', ''lago_wallets'', ''local_reconcile'']"

inductive stepped_all :: "string list \<Rightarrow> reconcile_result list \<times> hub \<Rightarrow> reconcile_result list \<times> hub \<Rightarrow> bool" where
  all_Nil: "stepped_all [] s s"
| all_Cons: "stepped seg s s1 \<Longrightarrow> stepped_all segs s1 s2 \<Longrightarrow> stepped_all (seg # segs) s s2"

lemma stepped_all_log:
  assumes "stepped_all segs s s'"
  shows "map rr_entity (drop (length (fst s)) (fst s')) = segs \<and> take (length (fst s)) (fst s') = fst s
    \<and> (\<exists>ks. length ks = length segs \<and> hub_rows (snd s') = hub_rows (snd s) @ concat (map2 (\<lambda>seg k. replicate (Suc k) seg) segs ks))
    \<and> (segs \<noteq> [] \<longrightarrow> currentSegment (fst (hub_log (snd s'))) = None)"
  using assms
proof (induction rule: stepped_all.induct)
  case (all_Cons seg s s1 segs s2)
  obtain r k where st: "fst s1 = fst s @ [r]" "rr_entity r = seg" "hub_rows (snd s1) = hub_rows (snd s) @ replicate (Suc k) seg"
    "currentSegment (fst (hub_log (snd s1))) = None"
    using all_Cons.hyps(1) by (auto simp: stepped_def)
  obtain ks where ks: "length ks = length segs"
    "hub_rows (snd s2) = hub_rows (snd s1) @ concat (map2 (\<lambda>seg k. replicate (Suc k) seg) segs ks)"
    using all_Cons.IH by blast
  have t: "take (Suc (length (fst s))) (fst s2) = fst s @ [r]" using all_Cons.IH st(1) by simp
  then have len: "length (fst s) < length (fst s2)" by (metis append_eq_conv_conj length_append_singleton length_take less_Suc_eq_le min.absorb_iff2 min_def not_less)
  have n: "fst s2 ! length (fst s) = r" using t len by (metis nth_append_length nth_take lessI)
  have "take (length (fst s)) (fst s2) = fst s" using t by (metis append_eq_conv_conj take_take min.absorb1 le_SucI order_refl)
  moreover have "map rr_entity (drop (length (fst s)) (fst s2)) = seg # segs"
    using all_Cons.IH st(1, 2) len n by (simp add: Cons_nth_drop_Suc [symmetric])
  moreover have "hub_rows (snd s2) = hub_rows (snd s) @ concat (map2 (\<lambda>seg k. replicate (Suc k) seg) (seg # segs) (k # ks))"
    using ks st(3) by simp
  moreover have "segs = [] \<Longrightarrow> s2 = s1" using all_Cons.hyps(2) by (auto elim: stepped_all.cases)
  ultimately show ?case using ks(1) all_Cons.IH st(4) by (metis length_Cons)
qed (auto intro!: exI [of _ "[]"])

text \<open>
  A reconcile run always gets through its seven segments in their order, whatever fails in between: it returns one
  result for each, writes for each a non-empty block of log rows of that segment's name, in order and after
  the rows that were there, and leaves no segment open.
\<close>
theorem reconcile_run_logged:
  "\<exists>rs h' ks. runLagoReconcile io ms h = (rs, h') \<and> map rr_entity rs = reconcile_segments
    \<and> length ks = 7 \<and> map log_segment (runLogs (snd (hub_log h')))
      = map log_segment (runLogs (snd (hub_log h))) @ concat (map2 (\<lambda>seg k. replicate (Suc k) seg) reconcile_segments ks)
    \<and> currentSegment (fst (hub_log h')) = None"
proof -
  have "stepped_all reconcile_segments ([], h) (runLagoReconcile io ms h)"
    unfolding reconcile_segments_def runLagoReconcile_def
    by (rule all_Cons, rule segments_stepped [of "fst s" "snd s" for s, unfolded prod.collapse])+ (rule all_Nil)
  note all = stepped_all_log [OF this]
  have seven: "length reconcile_segments = 7" "reconcile_segments \<noteq> []" by (simp_all add: reconcile_segments_def)
  obtain rs h' where e: "runLagoReconcile io ms h = (rs, h')" by fastforce
  show ?thesis using all unfolding e by (auto simp: hub_rows_def seven)
qed

end
