(* ===== verification/EventBus.thy ===== *)
theory EventBus
  imports LagoTypes
begin

text \<open>
  The in-process event bus (\<open>src/services/event-bus.service.ts\<close>) and the server-sent streams on top of it
  (\<open>src/lib/sse.ts\<close>, \<open>src/lib/sse-transport.ts\<close>). The time, the size of a serialised event and the moments at
  which a write completes or fails are arguments; log lines and metrics are left out, and a handler that
  throws is isolated by the code and counts as delivered.
\<close>

section \<open>The bus\<close>

record delivered =
  dv_seq :: int
  dv_ts :: int
  dv_type :: string
  dv_payload :: json
  dv_workerId :: string

text \<open>A subscription has an id and the types it listens to, \<open>None\<close> for all.\<close>

record bus =
  bs_seq :: int
  bs_subs :: "(nat \<times> string list option) list"
  bs_next :: nat
  bs_buffer :: "delivered list"
  bs_postgres :: bool
  bs_worker :: string

definition BUFFER_WINDOW_MS :: int where "BUFFER_WINDOW_MS = 60000"

definition BUFFER_MAX :: nat where "BUFFER_MAX = 2000"

definition trimBuffer :: "int \<Rightarrow> delivered list \<Rightarrow> delivered list" where
  "trimBuffer now buf =
     (let b = dropWhile (\<lambda>e. dv_ts e < now - BUFFER_WINDOW_MS) buf in drop (length b - BUFFER_MAX) b)"

definition listens :: "string list option \<Rightarrow> string \<Rightarrow> bool" where
  "listens types t = (case types of None \<Rightarrow> True | Some ts \<Rightarrow> t \<in> set ts)"

text \<open>The subscriptions an event is handed to, in order.\<close>

definition fanOut :: "bus \<Rightarrow> delivered \<Rightarrow> nat list" where
  "fanOut b e = map fst (filter (\<lambda>(_, types). listens types (dv_type e)) (bs_subs b))"

text \<open>
  \<open>publish\<close>: in memory the transport calls \<open>onTransportEvent\<close> before it returns, with Postgres the bus fans out
  itself; either way the subscriptions are called once.
\<close>

definition publish :: "int \<Rightarrow> string \<Rightarrow> json \<Rightarrow> bus \<Rightarrow> delivered \<times> nat list \<times> bus" where
  "publish now type payload b =
     (let e = \<lparr>dv_seq = bs_seq b + 1, dv_ts = now, dv_type = type, dv_payload = payload, dv_workerId = bs_worker b\<rparr>;
          b1 = b\<lparr>bs_seq := bs_seq b + 1, bs_buffer := trimBuffer now (bs_buffer b @ [e])\<rparr>
      in (e, fanOut b1 e, b1))"

text \<open>An event that arrives from the transport.\<close>

definition onTransportEvent :: "int \<Rightarrow> delivered \<Rightarrow> bus \<Rightarrow> nat list \<times> bus" where
  "onTransportEvent now e b =
     (if bs_postgres b \<and> dv_workerId e = bs_worker b then ([], b)
      else let b1 = (if bs_postgres b then b\<lparr>bs_buffer := trimBuffer now (bs_buffer b @ [e])\<rparr> else b)
           in (fanOut b1 e, b1))"

definition NOTIFY_MAX_PAYLOAD_BYTES :: nat where "NOTIFY_MAX_PAYLOAD_BYTES = 7000"

text \<open>What the Postgres transport broadcasts: an event that is too large is dropped.\<close>

definition pg_publish :: "(delivered \<Rightarrow> nat) \<Rightarrow> delivered \<Rightarrow> delivered option" where
  "pg_publish wire_bytes e = (if wire_bytes e > NOTIFY_MAX_PAYLOAD_BYTES then None else Some e)"

definition subscribe :: "string list option \<Rightarrow> bus \<Rightarrow> nat \<times> bus" where
  "subscribe types b = (bs_next b, b\<lparr>bs_subs := bs_subs b @ [(bs_next b, types)], bs_next := bs_next b + 1\<rparr>)"

definition unsubscribe :: "nat \<Rightarrow> bus \<Rightarrow> bus" where
  "unsubscribe i b = b\<lparr>bs_subs := filter (\<lambda>(j, _). j \<noteq> i) (bs_subs b)\<rparr>"

text \<open>An empty list of types does not filter.\<close>

definition replay_events :: "int \<Rightarrow> int \<Rightarrow> string list option \<Rightarrow> bus \<Rightarrow> delivered list" where
  "replay_events now afterSeq types b =
     filter (\<lambda>e. dv_seq e > afterSeq \<and> dv_ts e \<ge> now - BUFFER_WINDOW_MS
       \<and> listens (if types = Some [] then None else types) (dv_type e)) (bs_buffer b)"

section \<open>Streams\<close>

datatype sse_frame = Retry_hint | Event_frame int string json | Heartbeat_frame int

record sse_stream =
  ss_id :: nat
  ss_filter :: "delivered \<Rightarrow> bool"
  ss_closed :: bool
  ss_pending :: nat
  ss_lastWrite :: int
  ss_delivered :: nat
  ss_dropped :: nat
  ss_frames :: "sse_frame list"

record sse_server =
  sv_open :: nat
  sv_bus :: bus
  sv_streams :: "sse_stream list"

definition MAX_CONNECTIONS :: nat where "MAX_CONNECTIONS = 100"

definition IDLE_TIMEOUT_MS :: int where "IDLE_TIMEOUT_MS = 300000"

definition parseLastEventId :: "string option \<Rightarrow> int" where
  "parseLastEventId header =
     (case header of None \<Rightarrow> 0
      | Some raw \<Rightarrow> (case parse_int raw of NaN \<Rightarrow> 0 | Num n \<Rightarrow> if n > 0 then \<lfloor>n\<rfloor> else 0))"

text \<open>\<open>writeRaw\<close> starts a write, which stays pending until \<open>write_done\<close> or \<open>write_failed\<close>.\<close>

definition writeRaw :: "sse_frame \<Rightarrow> sse_stream \<Rightarrow> sse_stream" where
  "writeRaw chunk s =
     (if ss_closed s then s else s\<lparr>ss_pending := ss_pending s + 1, ss_frames := ss_frames s @ [chunk]\<rparr>)"

definition writeEvent :: "nat \<Rightarrow> delivered \<Rightarrow> sse_stream \<Rightarrow> sse_stream" where
  "writeEvent limit e s =
     (if ss_pending s \<ge> limit then s\<lparr>ss_dropped := ss_dropped s + 1\<rparr>
      else writeRaw (Event_frame (dv_seq e) (dv_type e) (dv_payload e)) (s\<lparr>ss_delivered := ss_delivered s + 1\<rparr>))"

definition filtered_write :: "nat \<Rightarrow> delivered \<Rightarrow> sse_stream \<Rightarrow> sse_stream" where
  "filtered_write limit e s = (if ss_filter s e then writeEvent limit e s else s)"

text \<open>\<open>openSseStream\<close>; \<open>None\<close> at the cap. The replay is written before the stream subscribes, in one go.\<close>

definition openSseStream ::
  "nat \<Rightarrow> int \<Rightarrow> string list option \<Rightarrow> (delivered \<Rightarrow> bool) \<Rightarrow> int \<Rightarrow> sse_server \<Rightarrow> nat option \<times> sse_server"
where
  "openSseStream limit now types flt lastId sv =
     (if sv_open sv \<ge> MAX_CONNECTIONS then (None, sv)
      else
        (let s0 = writeRaw Retry_hint \<lparr>ss_id = bs_next (sv_bus sv), ss_filter = flt, ss_closed = False, ss_pending = 0,
               ss_lastWrite = now, ss_delivered = 0, ss_dropped = 0, ss_frames = []\<rparr>;
             s1 = (if lastId > 0 then fold (filtered_write limit) (replay_events now lastId types (sv_bus sv)) s0 else s0)
         in case subscribe types (sv_bus sv) of
              (i, b) \<Rightarrow> (Some i, sv\<lparr>sv_open := sv_open sv + 1, sv_bus := b, sv_streams := sv_streams sv @ [s1]\<rparr>)))"

definition on_stream :: "nat \<Rightarrow> (sse_stream \<Rightarrow> sse_stream) \<Rightarrow> sse_server \<Rightarrow> sse_server" where
  "on_stream i f sv = sv\<lparr>sv_streams := map (\<lambda>s. if ss_id s = i then f s else s) (sv_streams sv)\<rparr>"

text \<open>\<open>safeClose\<close> counts a stream down once.\<close>

definition is_open :: "nat \<Rightarrow> sse_server \<Rightarrow> bool" where
  "is_open i sv = list_ex (\<lambda>s. ss_id s = i \<and> \<not> ss_closed s) (sv_streams sv)"

definition safeClose :: "nat \<Rightarrow> sse_server \<Rightarrow> sse_server" where
  "safeClose i sv =
     (if is_open i sv then on_stream i (\<lambda>s. s\<lparr>ss_closed := True\<rparr>) (sv\<lparr>sv_open := sv_open sv - 1\<rparr>) else sv)"

definition cleanup :: "nat \<Rightarrow> sse_server \<Rightarrow> sse_server" where
  "cleanup i sv = safeClose i (sv\<lparr>sv_bus := unsubscribe i (sv_bus sv)\<rparr>)"

definition deliver :: "nat \<Rightarrow> nat list \<Rightarrow> delivered \<Rightarrow> sse_server \<Rightarrow> sse_server" where
  "deliver limit ids e sv =
     sv\<lparr>sv_streams := map (\<lambda>s. if ss_id s \<in> set ids then filtered_write limit e s else s) (sv_streams sv)\<rparr>"

text \<open>What can happen to the streams of a worker.\<close>

datatype sse_event =
    Connect "string list option" "delivered \<Rightarrow> bool" int
  | Emit string json
  | Foreign delivered
  | Write_done nat
  | Write_failed nat
  | Heartbeat nat
  | Idle_check nat
  | Abort nat

definition idle :: "int \<Rightarrow> nat \<Rightarrow> sse_server \<Rightarrow> bool" where
  "idle now i sv = list_ex (\<lambda>s. ss_id s = i \<and> \<not> ss_closed s \<and> now - ss_lastWrite s > IDLE_TIMEOUT_MS) (sv_streams sv)"

primrec sse_step :: "nat \<Rightarrow> int \<Rightarrow> sse_event \<Rightarrow> sse_server \<Rightarrow> sse_server" where
  "sse_step limit now (Connect types flt lastId) sv = snd (openSseStream limit now types flt lastId sv)"
| "sse_step limit now (Emit type payload) sv =
     (case publish now type payload (sv_bus sv) of (e, ids, b) \<Rightarrow> deliver limit ids e (sv\<lparr>sv_bus := b\<rparr>))"
| "sse_step limit now (Foreign e) sv =
     (case onTransportEvent now e (sv_bus sv) of (ids, b) \<Rightarrow> deliver limit ids e (sv\<lparr>sv_bus := b\<rparr>))"
| "sse_step limit now (Write_done i) sv =
     on_stream i (\<lambda>s. s\<lparr>ss_lastWrite := now, ss_pending := ss_pending s - 1\<rparr>) sv"
| "sse_step limit now (Write_failed i) sv =
     on_stream i (\<lambda>s. s\<lparr>ss_pending := ss_pending s - 1\<rparr>) (safeClose i sv)"
| "sse_step limit now (Heartbeat i) sv = on_stream i (writeRaw (Heartbeat_frame now)) sv"
| "sse_step limit now (Idle_check i) sv = (if idle now i sv then cleanup i sv else sv)"
| "sse_step limit now (Abort i) sv = cleanup i sv"

definition sse_run :: "nat \<Rightarrow> (int \<times> sse_event) list \<Rightarrow> sse_server \<Rightarrow> sse_server" where
  "sse_run limit evs sv = fold (\<lambda>(now, ev). sse_step limit now ev) evs sv"

section \<open>Replay is exact\<close>

text \<open>The history of a bus: every event it was given, oldest first; the bus keeps a suffix of it.\<close>

definition hist_of :: "(int \<times> string \<times> json) list \<Rightarrow> bus \<Rightarrow> delivered list" where
  "hist_of evs b = map (\<lambda>(i, t, ty, p). \<lparr>dv_seq = bs_seq b + 1 + int i, dv_ts = t, dv_type = ty, dv_payload = p,
     dv_workerId = bs_worker b\<rparr>) (enumerate 0 evs)"

definition publish_all :: "(int \<times> string \<times> json) list \<Rightarrow> bus \<Rightarrow> bus" where
  "publish_all evs b = fold (\<lambda>(t, ty, p) b. snd (snd (publish t ty p b))) evs b"

definition in_window :: "int \<Rightarrow> delivered \<Rightarrow> bool" where
  "in_window now e \<longleftrightarrow> dv_ts e \<ge> now - BUFFER_WINDOW_MS"

text \<open>What was dropped from a history: events out of the window, or more than the cap before its end.\<close>

definition kept_suffix :: "int \<Rightarrow> delivered list \<Rightarrow> delivered list \<Rightarrow> bool" where
  "kept_suffix now hist buf \<longleftrightarrow> (\<exists>k \<le> length hist. buf = drop k hist
     \<and> (\<forall>j < k. \<not> in_window now (hist ! j) \<or> length hist - j > BUFFER_MAX))"

lemma trim_suffix: "\<exists>k \<le> length buf. trimBuffer now buf = drop k buf
  \<and> (\<forall>j < k. \<not> in_window now (buf ! j) \<or> length buf - j > BUFFER_MAX)"
proof -
  let ?P = "\<lambda>e. dv_ts e < now - BUFFER_WINDOW_MS"
  define a where "a = length (takeWhile ?P buf)"
  have d: "dropWhile ?P buf = drop a buf" by (simp add: a_def dropWhile_eq_drop)
  have al: "a \<le> length buf" by (simp add: a_def length_takeWhile_le)
  have out: "\<not> in_window now (buf ! j)" if "j < a" for j
    using that nth_length_takeWhile takeWhile_nth [of j ?P buf] set_takeWhileD [of "buf ! j" ?P buf] nth_mem [of j "takeWhile ?P buf"]
    unfolding a_def in_window_def by (metis not_le)
  let ?k = "(length buf - a - BUFFER_MAX) + a"
  have "trimBuffer now buf = drop ?k buf" using d al by (simp add: trimBuffer_def Let_def)
  moreover have "?k \<le> length buf" using al by simp
  moreover have "\<not> in_window now (buf ! j) \<or> length buf - j > BUFFER_MAX" if "j < ?k" for j
    using that out by (cases "j < a") auto
  ultimately show ?thesis by blast
qed

lemma kept_push:
  assumes "kept_suffix now hist buf" "now \<le> now'"
  shows "kept_suffix now' (hist @ [e]) (trimBuffer now' (buf @ [e]))"
proof -
  obtain k where k: "k \<le> length hist" "buf = drop k hist" "\<forall>j < k. \<not> in_window now (hist ! j) \<or> length hist - j > BUFFER_MAX"
    using assms(1) by (auto simp: kept_suffix_def)
  have be: "buf @ [e] = drop k (hist @ [e])" using k(1, 2) by simp
  obtain m where m: "m \<le> length (buf @ [e])" "trimBuffer now' (buf @ [e]) = drop m (buf @ [e])"
    "\<forall>j < m. \<not> in_window now' ((buf @ [e]) ! j) \<or> length (buf @ [e]) - j > BUFFER_MAX"
    using trim_suffix by blast
  have len: "length (buf @ [e]) = length (hist @ [e]) - k" using be by simp
  have "\<not> in_window now' ((hist @ [e]) ! j) \<or> length (hist @ [e]) - j > BUFFER_MAX" if "j < m + k" for j
  proof (cases "j < k")
    case True
    then have "(hist @ [e]) ! j = hist ! j" using k(1) by (simp add: nth_append)
    then show ?thesis using k(3) True assms(2) by (auto simp: in_window_def)
  next
    case False
    then have "(buf @ [e]) ! (j - k) = (hist @ [e]) ! j" using be k(1) by (simp add: nth_append)
    moreover have "j - k < m" using that False by simp
    ultimately have "\<not> in_window now' ((hist @ [e]) ! j) \<or> length (buf @ [e]) - (j - k) > BUFFER_MAX" using m(3) by metis
    moreover have "length (buf @ [e]) - (j - k) = length (hist @ [e]) - j" using len False k(1) by simp
    ultimately show ?thesis by simp
  qed
  moreover have "trimBuffer now' (buf @ [e]) = drop (m + k) (hist @ [e])" using m(2) unfolding be drop_drop .
  moreover have "m + k \<le> length (hist @ [e])" using m(1) len k(1) by simp
  ultimately show ?thesis unfolding kept_suffix_def by blast
qed

lemma hist_snoc: "hist_of (evs @ [(t, ty, p)]) b = hist_of evs b @ [\<lparr>dv_seq = bs_seq b + 1 + int (length evs), dv_ts = t,
    dv_type = ty, dv_payload = p, dv_workerId = bs_worker b\<rparr>]"
  by (simp add: hist_of_def enumerate_append_eq)

lemma publish_all_state:
  assumes "sorted (map fst evs)" "bs_buffer b = []"
  shows "bs_seq (publish_all evs b) = bs_seq b + int (length evs) \<and> bs_worker (publish_all evs b) = bs_worker b
    \<and> (\<forall>now. (\<forall>(t, _) \<in> set evs. t \<le> now) \<longrightarrow> kept_suffix now (hist_of evs b) (bs_buffer (publish_all evs b)))"
  using assms
proof (induction evs rule: rev_induct)
  case Nil
  then show ?case by (simp add: publish_all_def hist_of_def kept_suffix_def)
next
  case (snoc ev evs)
  obtain t ty p where ev: "ev = (t, ty, p)" by (cases ev)
  let ?b = "publish_all evs b"
  have step: "publish_all (evs @ [ev]) b = snd (snd (publish t ty p ?b))" by (simp add: publish_all_def ev)
  have le: "\<forall>(u, _) \<in> set evs. u \<le> t" using snoc.prems(1) by (auto simp: ev sorted_append)
  have ih: "bs_seq ?b = bs_seq b + int (length evs)" "bs_worker ?b = bs_worker b" "kept_suffix t (hist_of evs b) (bs_buffer ?b)"
    using snoc le by (auto simp: sorted_append)
  have "kept_suffix t (hist_of (evs @ [ev]) b) (bs_buffer (publish_all (evs @ [ev]) b))"
    using kept_push [OF ih(3) order_refl] ih(1, 2)
    by (simp add: step [unfolded ev] publish_def Let_def ev hist_snoc add_ac)
  then have "kept_suffix now (hist_of (evs @ [ev]) b) (bs_buffer (publish_all (evs @ [ev]) b))" if "t \<le> now" for now
    using that unfolding kept_suffix_def in_window_def by (meson diff_right_mono order_trans)
  then show ?case using ih(1, 2) by (auto simp: step [unfolded ev] publish_def Let_def ev)
qed

lemma filter_drop_none:
  assumes "\<forall>j < k. \<not> P (xs ! j)" "k \<le> length xs"
  shows "filter P (drop k xs) = filter P xs"
proof -
  have "filter P (take k xs) = []" using assms by (auto simp: filter_empty_conv in_set_conv_nth)
  then show ?thesis by (metis append_take_drop_id filter_append self_append_conv2)
qed

lemma sorted_nth_window:
  assumes "sorted (map dv_ts hist)" "j < length hist" "in_window now (hist ! j)"
  shows "length hist - j \<le> length (filter (in_window now) hist)"
proof -
  have "in_window now e" if e: "e \<in> set (drop j hist)" for e
  proof -
    obtain i where "i < length (drop j hist)" "drop j hist ! i = e" using e unfolding in_set_conv_nth by blast
    then have "e = hist ! (j + i)" "j + i < length hist" using assms(2) by auto
    then show ?thesis using assms(1, 3) sorted_nth_mono [of "map dv_ts hist" j "j + i"] by (simp add: in_window_def)
  qed
  then have "filter (in_window now) (drop j hist) = drop j hist" by (simp add: filter_id_conv)
  then have "length (drop j hist) = length (filter (in_window now) (drop j hist))" by simp
  also have "\<dots> \<le> length (filter (in_window now) hist)"
    by (metis append_take_drop_id filter_append length_append le_add2)
  finally show ?thesis by simp
qed

lemma enumerate_values: "map (f \<circ> snd) (enumerate n xs) = map f xs"
  by (simp add: map_snd_enumerate flip: map_map)

lemma hist_ts: "map dv_ts (hist_of evs b) = map fst evs"
  using enumerate_values [of fst 0 evs] by (simp add: hist_of_def comp_def case_prod_beta)

text \<open>
  C16. Replay is exact. When a fresh bus has published any events at times that do not go back, and no more than the
  2,000 events of the cap fall into the last 60 seconds, a replay returns precisely those events of the
  history that are newer than the given number, inside the window and of the asked types, in order and
  each once; the events carry the numbers 1, 2, 3 and so on.
\<close>
theorem replay_exact:
  assumes "sorted (map fst evs)" "\<forall>(t, _) \<in> set evs. t \<le> now" "bs_buffer b = []"
    "length (filter (in_window now) (hist_of evs b)) \<le> BUFFER_MAX"
  shows "replay_events now after types (publish_all evs b)
    = filter (\<lambda>e. dv_seq e > after \<and> in_window now e \<and> listens (if types = Some [] then None else types) (dv_type e)) (hist_of evs b)
    \<and> map dv_seq (hist_of evs b) = map (\<lambda>i. bs_seq b + 1 + int i) [0..<length evs]"
proof (rule conjI)
  have "kept_suffix now (hist_of evs b) (bs_buffer (publish_all evs b))"
    using publish_all_state [OF assms(1, 3)] assms(2) by blast
  then obtain k where k: "k \<le> length (hist_of evs b)" "bs_buffer (publish_all evs b) = drop k (hist_of evs b)"
    "\<forall>j < k. \<not> in_window now (hist_of evs b ! j) \<or> length (hist_of evs b) - j > BUFFER_MAX"
    by (auto simp: kept_suffix_def)
  have "\<not> in_window now (hist_of evs b ! j)" if "j < k" for j
  proof
    assume w: "in_window now (hist_of evs b ! j)"
    have "sorted (map dv_ts (hist_of evs b))" using assms(1) by (simp add: hist_ts)
    then have "length (hist_of evs b) - j \<le> BUFFER_MAX"
      using sorted_nth_window [OF _ _ w] that k(1) assms(4) by simp
    then show False using k(3) that w by force
  qed
  then have "filter (\<lambda>e. dv_seq e > after \<and> in_window now e \<and> listens (if types = Some [] then None else types) (dv_type e))
      (drop k (hist_of evs b)) = filter (\<lambda>e. dv_seq e > after \<and> in_window now e
        \<and> listens (if types = Some [] then None else types) (dv_type e)) (hist_of evs b)"
    by (intro filter_drop_none k(1)) blast
  then show "replay_events now after types (publish_all evs b)
    = filter (\<lambda>e. dv_seq e > after \<and> in_window now e \<and> listens (if types = Some [] then None else types) (dv_type e)) (hist_of evs b)"
    by (simp add: replay_events_def k(2) in_window_def)
  show "map dv_seq (hist_of evs b) = map (\<lambda>i. bs_seq b + 1 + int i) [0..<length evs]"
    by (auto simp: hist_of_def intro!: nth_equalityI simp: nth_enumerate_eq case_prod_beta)
qed

definition fresh_bus :: "bool \<Rightarrow> bus" where
  "fresh_bus pg = \<lparr>bs_seq = 0, bs_subs = [], bs_next = 0, bs_buffer = [], bs_postgres = pg, bs_worker = ''w1''\<rparr>"

theorem replay_exact_witness:
  "map dv_seq (replay_events 70000 1 None (publish_all
     [(0, ''tag.seen'', JNull), (20000, ''tag.seen'', JNull), (60000, ''sync.completed'', JNull)] (fresh_bus False))) = [2, 3]"
proof -
  let ?evs = "[(0, ''tag.seen'', JNull), (20000, ''tag.seen'', JNull), (60000, ''sync.completed'', JNull)]"
  have h: "hist_of ?evs (fresh_bus False) = [
      \<lparr>dv_seq = 1, dv_ts = 0, dv_type = ''tag.seen'', dv_payload = JNull, dv_workerId = ''w1''\<rparr>,
      \<lparr>dv_seq = 2, dv_ts = 20000, dv_type = ''tag.seen'', dv_payload = JNull, dv_workerId = ''w1''\<rparr>,
      \<lparr>dv_seq = 3, dv_ts = 60000, dv_type = ''sync.completed'', dv_payload = JNull, dv_workerId = ''w1''\<rparr>]" by code_simp
  have b: "bs_buffer (fresh_bus False) = []" by (simp add: fresh_bus_def)
  show ?thesis
    using replay_exact [of ?evs 70000 "fresh_bus False" 1 None]
    by (simp add: h b in_window_def BUFFER_WINDOW_MS_def BUFFER_MAX_def listens_def)
qed

section \<open>What a replay loses\<close>

definition event_frame :: "delivered \<Rightarrow> sse_frame" where
  "event_frame e = Event_frame (dv_seq e) (dv_type e) (dv_payload e)"

lemma fold_write:
  assumes "\<not> ss_closed s" "ss_pending s \<le> limit"
  shows "ss_frames (fold (filtered_write limit) es s) = ss_frames s @ map event_frame (take (limit - ss_pending s) (filter (ss_filter s) es))
    \<and> ss_dropped (fold (filtered_write limit) es s) = ss_dropped s + (length (filter (ss_filter s) es) - (limit - ss_pending s))
    \<and> ss_id (fold (filtered_write limit) es s) = ss_id s \<and> \<not> ss_closed (fold (filtered_write limit) es s)
    \<and> ss_filter (fold (filtered_write limit) es s) = ss_filter s"
  using assms
proof (induction es arbitrary: s)
  case (Cons e es)
  show ?case
  proof (cases "ss_filter s e")
    case True
    show ?thesis
    proof (cases "ss_pending s < limit")
      case lt: True
      have m: "limit - ss_pending s = Suc (limit - Suc (ss_pending s))" using lt by simp
      define s1 where "s1 = filtered_write limit e s"
      have s1: "ss_pending s1 = Suc (ss_pending s)" "ss_closed s1 = ss_closed s" "ss_filter s1 = ss_filter s"
        "ss_frames s1 = ss_frames s @ [event_frame e]" "ss_dropped s1 = ss_dropped s" "ss_id s1 = ss_id s"
        using True lt Cons.prems(1) by (simp_all add: s1_def filtered_write_def writeEvent_def writeRaw_def event_frame_def)
      show ?thesis using True lt Cons.prems Cons.IH [of s1] unfolding m by (simp add: s1 flip: s1_def)
    next
      case False
      then show ?thesis
        using True Cons.prems Cons.IH [of "filtered_write limit e s"] by (simp add: filtered_write_def writeEvent_def)
    qed
  next
    case False
    then show ?thesis using Cons by (simp add: filtered_write_def)
  qed
qed simp

text \<open>
  A stream that connects with a last event id gets the retry hint and then only the first of the events it missed,
  one fewer than the limit of pending writes, because the whole replay is queued before any write can
  complete; the newest of the missed events are dropped and counted.
\<close>
theorem replay_truncated:
  assumes "openSseStream limit now types flt lastId sv = (Some i, sv')" "lastId > 0" "limit > 0"
  shows "\<exists>s. sv_streams sv' = sv_streams sv @ [s] \<and> ss_id s = i \<and>
    ss_frames s = Retry_hint # map event_frame (take (limit - 1) (filter flt (replay_events now lastId types (sv_bus sv))))
    \<and> ss_dropped s = length (filter flt (replay_events now lastId types (sv_bus sv))) - (limit - 1)"
proof -
  let ?s = "writeRaw Retry_hint \<lparr>ss_id = bs_next (sv_bus sv), ss_filter = flt, ss_closed = False, ss_pending = 0,
               ss_lastWrite = now, ss_delivered = 0, ss_dropped = 0, ss_frames = []\<rparr>"
  let ?f = "fold (filtered_write limit) (replay_events now lastId types (sv_bus sv)) ?s"
  have "ss_frames ?f = Retry_hint # map event_frame (take (limit - 1) (filter flt (replay_events now lastId types (sv_bus sv))))
    \<and> ss_dropped ?f = length (filter flt (replay_events now lastId types (sv_bus sv))) - (limit - 1) \<and> ss_id ?f = bs_next (sv_bus sv)"
    using fold_write [of ?s limit] assms(3) by (simp add: writeRaw_def)
  moreover have "sv_streams sv' = sv_streams sv @ [?f]" "i = bs_next (sv_bus sv)"
    using assms(1, 2) by (auto simp: openSseStream_def subscribe_def Let_def split: if_splits)
  ultimately show ?thesis by blast
qed

definition busy_server :: sse_server where
  "busy_server = \<lparr>sv_open = 0,
     sv_bus = publish_all (replicate 4 (0, ''tag.seen'', JNull)) (fresh_bus False), sv_streams = []\<rparr>"

theorem replay_truncated_witness:
  "\<exists>s. sv_streams (snd (openSseStream 3 0 None (\<lambda>_. True) 1 busy_server)) = [s] \<and> ss_dropped s = 1
     \<and> ss_frames s = [Retry_hint, Event_frame 2 ''tag.seen'' JNull, Event_frame 3 ''tag.seen'' JNull]"
proof -
  have o: "fst (openSseStream 3 0 None (\<lambda>_. True) 1 busy_server) = Some 0" by code_simp
  obtain sv' where e: "openSseStream 3 0 None (\<lambda>_. True) 1 busy_server = (Some 0, sv')"
    using o by (metis prod.collapse)
  have r: "map event_frame (replay_events 0 1 None (sv_bus busy_server))
      = [Event_frame 2 ''tag.seen'' JNull, Event_frame 3 ''tag.seen'' JNull, Event_frame 4 ''tag.seen'' JNull]" by code_simp
  then have l: "length (replay_events 0 1 None (sv_bus busy_server)) = 3" by (metis length_map list.size(3,4) One_nat_def add_2_eq_Suc' numeral_3_eq_3 Suc_eq_plus1)
  have "sv_streams busy_server = []" by (simp add: busy_server_def)
  then obtain s where s: "sv_streams sv' = [s]" "ss_dropped s = 1"
    "ss_frames s = Retry_hint # take 2 (map event_frame (replay_events 0 1 None (sv_bus busy_server)))"
    using replay_truncated [OF e] l by (auto simp: take_map)
  then show ?thesis unfolding r e by simp
qed

text \<open>
  With the Postgres transport the numbers of different workers are mixed: an event of another worker whose number
  is not above the last number a client saw is put into the buffer, but no replay from that number on
  returns it, so a client that was away when it arrived never gets it.
\<close>
theorem foreign_event_never_replayed:
  assumes "bs_postgres b" "dv_workerId e \<noteq> bs_worker b" "dv_seq e \<le> seen" "in_window now e"
    "onTransportEvent now e b = (ids, b')"
  shows "e \<in> set (bs_buffer b')" and "e \<notin> set (replay_events now' seen types b')"
proof -
  have b': "bs_buffer b' = trimBuffer now (bs_buffer b @ [e])" using assms(1, 2, 5) by (auto simp: onTransportEvent_def Let_def)
  obtain k where k: "k \<le> length (bs_buffer b @ [e])" "trimBuffer now (bs_buffer b @ [e]) = drop k (bs_buffer b @ [e])"
    "\<forall>j < k. \<not> in_window now ((bs_buffer b @ [e]) ! j) \<or> length (bs_buffer b @ [e]) - j > BUFFER_MAX"
    using trim_suffix by blast
  have "k \<le> length (bs_buffer b)"
  proof (rule ccontr)
    assume "\<not> k \<le> length (bs_buffer b)"
    then have "length (bs_buffer b) < k" by simp
    from k(3) [rule_format, OF this] show False using assms(4) by (simp add: BUFFER_MAX_def)
  qed
  then show "e \<in> set (bs_buffer b')" by (simp add: b' k(2))
  show "e \<notin> set (replay_events now' seen types b')" using assms(3) by (auto simp: replay_events_def)
qed

definition other_event :: delivered where
  "other_event = \<lparr>dv_seq = 5, dv_ts = 100, dv_type = ''invoice.updated'', dv_payload = JNull, dv_workerId = ''w2''\<rparr>"

theorem foreign_event_never_replayed_witness:
  "other_event \<in> set (bs_buffer (snd (onTransportEvent 100 other_event (fresh_bus True))))
     \<and> other_event \<notin> set (replay_events 200 7 None (snd (onTransportEvent 100 other_event (fresh_bus True))))"
proof -
  have e: "onTransportEvent 100 other_event (fresh_bus True) = (fst (onTransportEvent 100 other_event (fresh_bus True)),
      snd (onTransportEvent 100 other_event (fresh_bus True)))" by simp
  show ?thesis
    using foreign_event_never_replayed [OF _ _ _ _ e, of 7]
    by (simp add: other_event_def fresh_bus_def in_window_def BUFFER_WINDOW_MS_def)
qed

section \<open>The cap on connections\<close>

definition open_streams :: "sse_server \<Rightarrow> nat" where
  "open_streams sv = length (filter (\<lambda>s. \<not> ss_closed s) (sv_streams sv))"

definition sse_ok :: "sse_server \<Rightarrow> bool" where
  "sse_ok sv \<longleftrightarrow> sv_open sv = open_streams sv \<and> sv_open sv \<le> MAX_CONNECTIONS
     \<and> distinct (map ss_id (sv_streams sv)) \<and> (\<forall>s \<in> set (sv_streams sv). ss_id s < bs_next (sv_bus sv))"

text \<open>A change of the streams that closes none.\<close>

lemma sse_ok_map:
  assumes "sse_ok sv" "\<And>s. ss_id (f s) = ss_id s \<and> ss_closed (f s) = ss_closed s" "bs_next b = bs_next (sv_bus sv)"
  shows "sse_ok (sv\<lparr>sv_bus := b, sv_streams := map f (sv_streams sv)\<rparr>)"
proof -
  have "ss_id \<circ> f = ss_id" "(\<lambda>s. \<not> ss_closed s) \<circ> f = (\<lambda>s. \<not> ss_closed s)" using assms(2) by (simp_all add: fun_eq_iff)
  then show ?thesis using assms by (simp add: sse_ok_def open_streams_def filter_map)
qed

lemma sse_ok_on_stream:
  assumes "sse_ok sv" "\<And>s. ss_id (f s) = ss_id s \<and> ss_closed (f s) = ss_closed s"
  shows "sse_ok (on_stream i f sv)"
  using sse_ok_map [OF assms(1), of "\<lambda>s. if ss_id s = i then f s else s" "sv_bus sv"] assms(2)
  by (simp add: on_stream_def)

lemma write_keeps:
  "ss_id (writeRaw c s) = ss_id s \<and> ss_closed (writeRaw c s) = ss_closed s"
  "ss_id (filtered_write l e s) = ss_id s \<and> ss_closed (filtered_write l e s) = ss_closed s"
  by (simp_all add: filtered_write_def writeEvent_def writeRaw_def)

lemma close_one:
  assumes "distinct (map ss_id ss)" "list_ex (\<lambda>s. ss_id s = i \<and> \<not> ss_closed s) ss"
  shows "length (filter (\<lambda>s. \<not> ss_closed s) ss)
    = Suc (length (filter (\<lambda>s. \<not> ss_closed s) (map (\<lambda>s. if ss_id s = i then s\<lparr>ss_closed := True\<rparr> else s) ss)))"
  using assms
proof (induction ss)
  case (Cons s ss)
  show ?case
  proof (cases "ss_id s = i")
    case True
    have "i \<notin> ss_id ` set ss" using Cons.prems(1) True by simp
    then have o: "\<forall>t \<in> set ss. ss_id t \<noteq> i" by blast
    then have "map (\<lambda>s. if ss_id s = i then s\<lparr>ss_closed := True\<rparr> else s) ss = ss" by (simp add: map_idI)
    moreover have "\<not> ss_closed s" using Cons.prems(2) o True by (auto simp: list_ex_iff)
    ultimately show ?thesis using True by simp
  qed (use Cons in auto)
qed simp

lemma sse_ok_close:
  assumes "sse_ok sv"
  shows "sse_ok (safeClose i sv)"
proof (cases "is_open i sv")
  case True
  let ?f = "\<lambda>s. if ss_id s = i then s\<lparr>ss_closed := True\<rparr> else s"
  have "open_streams sv = Suc (length (filter (\<lambda>s. \<not> ss_closed s) (map ?f (sv_streams sv))))"
    using close_one [of "sv_streams sv" i] assms True by (simp add: sse_ok_def is_open_def open_streams_def)
  moreover have "ss_id \<circ> ?f = (ss_id :: sse_stream \<Rightarrow> nat)" by (simp add: fun_eq_iff)
  ultimately show ?thesis
    using assms True by (auto simp: safeClose_def on_stream_def sse_ok_def open_streams_def)
qed (simp add: safeClose_def assms)

lemma sse_ok_cleanup: "sse_ok sv \<Longrightarrow> sse_ok (cleanup i sv)"
  unfolding cleanup_def
  by (rule sse_ok_close) (simp add: sse_ok_def open_streams_def unsubscribe_def)

lemma fold_write_keeps:
  "ss_id (fold (filtered_write l) es s) = ss_id s \<and> ss_closed (fold (filtered_write l) es s) = ss_closed s"
  by (induction es arbitrary: s) (simp_all add: write_keeps)

lemma sse_ok_open:
  assumes "sse_ok sv"
  shows "sse_ok (snd (openSseStream limit now types flt lastId sv))"
  using assms
  by (auto simp: openSseStream_def Let_def subscribe_def sse_ok_def open_streams_def fold_write_keeps write_keeps)

text \<open>
  The counter of open streams is exact and never above the cap of 100: after any connects, publications,
  foreign events, finished or failed writes, heartbeats, idle checks and aborts in any order, it is the
  number of streams that are not closed, however often one of them is closed again.
\<close>
theorem sse_connections_counted:
  assumes "sse_ok sv"
  shows "sse_ok (sse_run limit evs sv)"
  unfolding sse_run_def using assms
proof (induction evs arbitrary: sv)
  case (Cons ev evs)
  obtain now e where ev: "ev = (now, e)" by fastforce
  have pub: "bs_next (snd (snd (publish now t p b))) = bs_next b" for t p b by (simp add: publish_def Let_def)
  have tr: "bs_next (snd (onTransportEvent now x b)) = bs_next b" for x b by (simp add: onTransportEvent_def Let_def)
  have "sse_ok (sse_step limit now e sv)"
  proof (cases e)
    case (Emit t p)
    obtain x ids b where p: "publish now t p (sv_bus sv) = (x, ids, b)" by (metis prod_cases3)
    have "bs_next b = bs_next (sv_bus sv)" using pub [of t p "sv_bus sv"] p by simp
    then show ?thesis
      using sse_ok_map [OF Cons.prems, of "\<lambda>s. if ss_id s \<in> set ids then filtered_write limit x s else s" b]
      by (simp add: Emit p deliver_def write_keeps)
  next
    case (Foreign x)
    obtain ids b where p: "onTransportEvent now x (sv_bus sv) = (ids, b)" by fastforce
    have "bs_next b = bs_next (sv_bus sv)" using tr [of x "sv_bus sv"] p by simp
    then show ?thesis
      using sse_ok_map [OF Cons.prems, of "\<lambda>s. if ss_id s \<in> set ids then filtered_write limit x s else s" b]
      by (simp add: Foreign p deliver_def write_keeps)
  qed (simp_all add: sse_ok_open sse_ok_on_stream sse_ok_close sse_ok_cleanup write_keeps Cons.prems)
  then show ?case using Cons.IH by (simp add: ev)
qed simp

theorem sse_connections_counted_witness:
  "sse_ok (sse_run 100 [(0, Connect None (\<lambda>_. True) 0), (1, Emit ''tag.seen'' JNull), (2, Write_failed 0), (3, Abort 0)]
     \<lparr>sv_open = 0, sv_bus = fresh_bus False, sv_streams = []\<rparr>)"
  by (rule sse_connections_counted) (simp add: sse_ok_def open_streams_def)

end
