(* ===== verification/Notices.thy ===== *)
theory Notices
  imports EventBus Access
begin

text \<open>
  Notifications (\<open>src/services/notification.service.ts\<close>), their endpoints
  (\<open>routes/api/admin/notifications\<close>, \<open>routes/api/customer/notifications\<close>) and the filters of the event streams
  (\<open>routes/api/admin/notifications/stream.ts\<close>, \<open>routes/api/admin/stream\<close>, \<open>routes/api/stream/customer.ts\<close>).
  The clock, the failure of a query, the address book and the printed form of a time are arguments.
\<close>

section \<open>Rows\<close>

record notice_row =
  nt_id :: int
  nt_kind :: string
  nt_severity :: string
  nt_title :: string
  nt_body :: string
  nt_sourceType :: "string option"
  nt_sourceId :: "string option"
  nt_context :: "json option"
  nt_userId :: "string option"
  nt_audience :: string
  nt_readAt :: "int option"
  nt_dismissedAt :: "int option"
  nt_createdAt :: int

record email_payload =
  ep_kind :: string
  ep_data :: json

record notice_input =
  ni_kind :: string
  ni_severity :: string
  ni_title :: string
  ni_body :: string
  ni_sourceType :: "string option"
  ni_sourceId :: "string option"
  ni_context :: "json option"
  ni_adminUserId :: "string option"
  ni_audience :: "string option"
  ni_userId :: "string option"
  ni_email :: "email_payload option"

record notification_dto =
  nd_row :: notice_row
  nd_sourceUrl :: "string option"

definition resolveSourceUrl :: "string option \<Rightarrow> string option \<Rightarrow> string option \<Rightarrow> string option" where
  "resolveSourceUrl lagoBase sourceType sourceId =
     (if \<not> truthy sourceType \<or> \<not> truthy sourceId then None
      else let t = the sourceType; i = the sourceId in
        if t = ''invoice'' then Some (''/invoices/'' @ i)
        else if t = ''webhook_event'' then Some (''/admin/webhook-events/'' @ i)
        else if t = ''subscription'' \<or> t = ''mapping'' then Some ''/tags?linked=1''
        else if t = ''charger'' then Some (''/chargers/'' @ encodeURIComponent i)
        else if t = ''reservation'' then Some (''/reservations/'' @ i)
        else if t = ''alert'' \<and> truthy lagoBase then Some (the lagoBase @ ''/alerts/'' @ i)
        else if t = ''wallet_transaction'' \<and> truthy lagoBase then Some (the lagoBase @ ''/wallet-transactions/'' @ i)
        else None)"

definition toDTO :: "string option \<Rightarrow> notice_row \<Rightarrow> notification_dto" where
  "toDTO lagoBase r = \<lparr>nd_row = r, nd_sourceUrl = resolveSourceUrl lagoBase (nt_sourceType r) (nt_sourceId r)\<rparr>"

section \<open>Creation\<close>

definition json_opt :: "string option \<Rightarrow> json" where
  "json_opt s = (case s of None \<Rightarrow> JNull | Some x \<Rightarrow> JStr x)"

definition created_payload :: "(int \<Rightarrow> string) \<Rightarrow> notification_dto \<Rightarrow> json" where
  "created_payload fmt d = (let r = nd_row d in
     JObj [(''id'', JNum (of_int (nt_id r))), (''kind'', JStr (nt_kind r)), (''severity'', JStr (nt_severity r)),
       (''title'', JStr (nt_title r)), (''body'', JStr (nt_body r)), (''sourceType'', json_opt (nt_sourceType r)),
       (''sourceId'', json_opt (nt_sourceId r)), (''sourceUrl'', json_opt (nd_sourceUrl d)),
       (''adminUserId'', json_opt (nt_userId r)), (''createdAt'', JStr (fmt (nt_createdAt r)))])"

definition EMAIL_FIRING_KINDS :: "string list" where
  "EMAIL_FIRING_KINDS = [''session.complete'', ''reservation.cancelled'']"

text \<open>The address and payload of the mail that is sent; \<open>addr\<close> is \<open>None\<close> on a miss or a failed query.\<close>

definition fireCustomerEmail :: "(string \<Rightarrow> string option) \<Rightarrow> notice_input \<Rightarrow> (string \<times> email_payload) option" where
  "fireCustomerEmail addr i =
     (case ni_email i of
        None \<Rightarrow> None
      | Some p \<Rightarrow>
          if ni_audience i \<noteq> Some ''customer'' \<or> \<not> truthy (ni_userId i) \<or> ni_kind i \<notin> set EMAIL_FIRING_KINDS then None
          else (let a = addr (the (ni_userId i)) in
            if truthy a \<and> ep_kind p \<in> set EMAIL_FIRING_KINDS then Some (the a, p) else None))"

record notice_io =
  no_now :: int
  no_fail :: "string option"
  no_lagoBase :: "string option"
  no_iso :: "int \<Rightarrow> string"
  no_addr :: "string \<Rightarrow> string option"

text \<open>The row, the event to publish and the mail; nothing at all when the insert fails.\<close>

definition createNotification ::
  "notice_io \<Rightarrow> int \<Rightarrow> notice_input \<Rightarrow> notice_row list
     \<Rightarrow> (notification_dto \<times> json \<times> (string \<times> email_payload) option) option \<times> notice_row list"
where
  "createNotification io newId i rows =
     (let audience = (case ni_audience i of None \<Rightarrow> ''admin'' | Some a \<Rightarrow> a);
          target = (if audience = ''customer'' then ni_userId i else ni_adminUserId i);
          r = \<lparr>nt_id = newId, nt_kind = ni_kind i, nt_severity = ni_severity i, nt_title = ni_title i, nt_body = ni_body i,
               nt_sourceType = ni_sourceType i, nt_sourceId = ni_sourceId i, nt_context = ni_context i,
               nt_userId = target, nt_audience = audience, nt_readAt = None, nt_dismissedAt = None,
               nt_createdAt = no_now io\<rparr>
      in if no_fail io \<noteq> None \<or> ni_severity i \<notin> set [''info'', ''success'', ''warn'', ''error'']
           \<or> audience \<notin> set [''admin'', ''customer'', ''all''] then (None, rows)
         else let d = toDTO (no_lagoBase io) r
              in (Some (d, created_payload (no_iso io) d, fireCustomerEmail (no_addr io) i), rows @ [r]))"

section \<open>Marking\<close>

definition own_or_broadcast :: "string \<Rightarrow> notice_row \<Rightarrow> bool" where
  "own_or_broadcast u r \<longleftrightarrow> nt_userId r = Some u \<or> nt_userId r = None"

definition markable :: "int option \<Rightarrow> string \<Rightarrow> notice_row \<Rightarrow> bool" where
  "markable i u r \<longleftrightarrow> (case i of None \<Rightarrow> True | Some k \<Rightarrow> nt_id r = k) \<and> nt_readAt r = None \<and> own_or_broadcast u r"

definition stamp_read :: "int \<Rightarrow> int option \<Rightarrow> string \<Rightarrow> notice_row list \<Rightarrow> notice_row list" where
  "stamp_read now i u rows = map (\<lambda>r. if markable i u r then r\<lparr>nt_readAt := Some now\<rparr> else r) rows"

definition read_payload :: "int option \<Rightarrow> string \<Rightarrow> nat \<Rightarrow> json" where
  "read_payload i u n = JObj [(''id'', case i of None \<Rightarrow> JNull | Some k \<Rightarrow> JNum (of_int k)), (''adminUserId'', JStr u),
     (''count'', JNum (of_nat n))]"

text \<open>The result, the event to publish if a row was hit, and the rows.\<close>

definition markRead :: "int \<Rightarrow> int \<Rightarrow> string \<Rightarrow> notice_row list \<Rightarrow> bool \<times> json option \<times> notice_row list" where
  "markRead now i u rows =
     (let hit = list_ex (markable (Some i) u) rows
      in (hit, if hit then Some (read_payload (Some i) u 1) else None, stamp_read now (Some i) u rows))"

definition markAllRead :: "int \<Rightarrow> string \<Rightarrow> notice_row list \<Rightarrow> nat \<times> json option \<times> notice_row list" where
  "markAllRead now u rows =
     (let n = length (filter (markable None u) rows)
      in (n, if n > 0 then Some (read_payload None u n) else None, stamp_read now None u rows))"

definition dismiss :: "int \<Rightarrow> int \<Rightarrow> string \<Rightarrow> notice_row list \<Rightarrow> bool \<times> notice_row list" where
  "dismiss now i u rows =
     (list_ex (\<lambda>r. nt_id r = i \<and> own_or_broadcast u r) rows,
      map (\<lambda>r. if nt_id r = i \<and> own_or_broadcast u r then r\<lparr>nt_dismissedAt := Some now\<rparr> else r) rows)"

section \<open>Feeds\<close>

definition unread :: "notice_row \<Rightarrow> bool" where
  "unread r \<longleftrightarrow> nt_readAt r = None \<and> nt_dismissedAt r = None"

definition admin_sees :: "string \<Rightarrow> notice_row \<Rightarrow> bool" where
  "admin_sees u r \<longleftrightarrow> own_or_broadcast u r \<and> (nt_audience r = ''admin'' \<or> nt_audience r = ''all'')"

definition customer_sees :: "string \<Rightarrow> notice_row \<Rightarrow> bool" where
  "customer_sees u r \<longleftrightarrow> (nt_userId r = Some u \<or> (nt_audience r = ''all'' \<and> nt_userId r = None))
     \<and> (nt_audience r = ''customer'' \<or> nt_audience r = ''all'')"

definition newest_first :: "notice_row list \<Rightarrow> notice_row list" where
  "newest_first rows = sort_key (\<lambda>r. - nt_createdAt r) rows"

definition getUnreadCount :: "string \<Rightarrow> notice_row list \<Rightarrow> nat" where
  "getUnreadCount u rows = length (filter (\<lambda>r. unread r \<and> admin_sees u r) rows)"

definition getUnread :: "string option \<Rightarrow> string \<Rightarrow> nat \<Rightarrow> notice_row list \<Rightarrow> notification_dto list" where
  "getUnread base u limit rows = map (toDTO base) (take limit (newest_first (filter (\<lambda>r. unread r \<and> admin_sees u r) rows)))"

definition getCustomerUnreadCount :: "string \<Rightarrow> notice_row list \<Rightarrow> nat" where
  "getCustomerUnreadCount u rows = length (filter (\<lambda>r. unread r \<and> customer_sees u r) rows)"

definition getCustomerUnread :: "string option \<Rightarrow> string \<Rightarrow> nat \<Rightarrow> notice_row list \<Rightarrow> notification_dto list" where
  "getCustomerUnread base u limit rows =
     map (toDTO base) (take limit (newest_first (filter (\<lambda>r. unread r \<and> customer_sees u r) rows)))"

record archive_params =
  ar_limit :: "int option"
  ar_offset :: "int option"
  ar_severity :: "string option"
  ar_kind :: "string option"
  ar_sourceType :: "string option"
  ar_readState :: "bool option"

definition archive_match :: "archive_params \<Rightarrow> notice_row \<Rightarrow> bool" where
  "archive_match p r \<longleftrightarrow> (truthy (ar_severity p) \<longrightarrow> Some (nt_severity r) = ar_severity p)
     \<and> (truthy (ar_kind p) \<longrightarrow> Some (nt_kind r) = ar_kind p)
     \<and> (truthy (ar_sourceType p) \<longrightarrow> nt_sourceType r = ar_sourceType p)
     \<and> (ar_readState p = Some True \<longrightarrow> nt_readAt r \<noteq> None) \<and> (ar_readState p = Some False \<longrightarrow> nt_readAt r = None)"

definition page_limit :: "archive_params \<Rightarrow> nat" where
  "page_limit p = nat (min (max (case ar_limit p of None \<Rightarrow> 25 | Some n \<Rightarrow> n) 1) 100)"

definition page_offset :: "archive_params \<Rightarrow> nat" where
  "page_offset p = nat (max (case ar_offset p of None \<Rightarrow> 0 | Some n \<Rightarrow> n) 0)"

definition archive_page :: "string option \<Rightarrow> archive_params \<Rightarrow> notice_row list \<Rightarrow> notification_dto list \<times> nat" where
  "archive_page base p rows =
     (map (toDTO base) (take (page_limit p) (drop (page_offset p) (newest_first rows))), length rows)"

definition listArchive :: "string option \<Rightarrow> archive_params \<Rightarrow> notice_row list \<Rightarrow> notification_dto list \<times> nat" where
  "listArchive base p rows = archive_page base p (filter (archive_match p) rows)"

definition listCustomerArchive ::
  "string option \<Rightarrow> string \<Rightarrow> archive_params \<Rightarrow> notice_row list \<Rightarrow> notification_dto list \<times> nat"
where
  "listCustomerArchive base u p rows = archive_page base p (filter (\<lambda>r. customer_sees u r \<and> archive_match p r) rows)"

section \<open>Endpoints\<close>

datatype notice_reply = N_unauthorized | N_bad_request | N_failed | N_updated bool | N_count nat

text \<open>An id of digits that is positive.\<close>

definition notice_id :: "string \<Rightarrow> int option" where
  "notice_id s = (case parse_int s of NaN \<Rightarrow> None | Num q \<Rightarrow> if q > 0 then Some \<lfloor>q\<rfloor> else None)"

text \<open>A query that fails answers 500 and writes nothing; an unreadable body, or an object without an action, marks as read.\<close>

definition notice_PATCH ::
  "int \<Rightarrow> bool \<Rightarrow> string option \<Rightarrow> string \<Rightarrow> string option \<Rightarrow> notice_row list \<Rightarrow> notice_reply \<times> json option \<times> notice_row list"
where
  "notice_PATCH now failing user idParam action rows =
     (case user of
        None \<Rightarrow> (N_unauthorized, None, rows)
      | Some u \<Rightarrow> (case notice_id idParam of
          None \<Rightarrow> (N_bad_request, None, rows)
        | Some i \<Rightarrow>
            let act = (case action of None \<Rightarrow> ''mark_read'' | Some a \<Rightarrow> a) in
            if act \<notin> set [''mark_read'', ''dismiss''] then (N_bad_request, None, rows)
            else if failing then (N_failed, None, rows)
            else if act = ''mark_read'' then (case markRead now i u rows of (hit, ev, rows1) \<Rightarrow> (N_updated hit, ev, rows1))
            else (case dismiss now i u rows of (hit, rows1) \<Rightarrow> (N_updated hit, None, rows1))))"

definition notice_DELETE :: "int \<Rightarrow> bool \<Rightarrow> string option \<Rightarrow> string \<Rightarrow> notice_row list \<Rightarrow> notice_reply \<times> notice_row list" where
  "notice_DELETE now failing user idParam rows =
     (case user of
        None \<Rightarrow> (N_unauthorized, rows)
      | Some u \<Rightarrow> (case notice_id idParam of
          None \<Rightarrow> (N_bad_request, rows)
        | Some i \<Rightarrow> if failing then (N_failed, rows)
            else (case dismiss now i u rows of (hit, rows1) \<Rightarrow> (N_updated hit, rows1))))"

definition mark_all_POST :: "int \<Rightarrow> bool \<Rightarrow> string option \<Rightarrow> notice_row list \<Rightarrow> notice_reply \<times> json option \<times> notice_row list" where
  "mark_all_POST now failing user rows =
     (case user of
        None \<Rightarrow> (N_unauthorized, None, rows)
      | Some u \<Rightarrow> if failing then (N_failed, None, rows)
          else (case markAllRead now u rows of (n, ev, rows1) \<Rightarrow> (N_count n, ev, rows1)))"

text \<open>The query of a listing: what is not in the allowed values is ignored, a number that does not parse is the default.\<close>

definition ALLOWED_SEVERITIES :: "string list" where
  "ALLOWED_SEVERITIES = [''info'', ''success'', ''warn'', ''error'']"

definition ALLOWED_SOURCE_TYPES :: "string list" where
  "ALLOWED_SOURCE_TYPES = [''invoice'', ''alert'', ''subscription'', ''wallet_transaction'', ''webhook_event'',
     ''system'', ''mapping'', ''charger'', ''reservation'']"

definition number_or :: "int \<Rightarrow> string option \<Rightarrow> int" where
  "number_or d s = (case s of None \<Rightarrow> d | Some x \<Rightarrow> (case parse_int x of NaN \<Rightarrow> d | Num q \<Rightarrow> \<lfloor>q\<rfloor>))"

definition allowed :: "string list \<Rightarrow> string option \<Rightarrow> string option" where
  "allowed ok s = (case s of None \<Rightarrow> None | Some x \<Rightarrow> if x \<noteq> [] \<and> x \<in> set ok then Some x else None)"

definition archive_query :: "(string \<Rightarrow> string option) \<Rightarrow> archive_params" where
  "archive_query q =
     \<lparr>ar_limit = Some (number_or 25 (q ''limit'')),
      ar_offset = Some (number_or 0 (case q ''skip'' of None \<Rightarrow> q ''offset'' | Some s \<Rightarrow> Some s)),
      ar_severity = allowed ALLOWED_SEVERITIES (q ''severity''),
      ar_kind = (if truthy (q ''kind'') then q ''kind'' else None),
      ar_sourceType = allowed ALLOWED_SOURCE_TYPES (q ''sourceType''),
      ar_readState = (if q ''readState'' = Some ''read'' then Some True
        else if q ''readState'' = Some ''unread'' then Some False else None)\<rparr>"

definition unread_limit :: "string option \<Rightarrow> nat" where
  "unread_limit s = nat (min (max (number_or 5 s) 1) 20)"

text \<open>A customer's pages are read for the customer an operator acts as, if there is one.\<close>

definition notices_GET ::
  "string option \<Rightarrow> string option \<Rightarrow> (string \<Rightarrow> string option) \<Rightarrow> notice_row list \<Rightarrow> (notification_dto list \<times> nat) option"
where
  "notices_GET base user q rows =
     (case user of None \<Rightarrow> None | Some _ \<Rightarrow> Some (listArchive base (archive_query q) rows))"

definition customer_notices_GET ::
  "string option \<Rightarrow> string option \<Rightarrow> string option \<Rightarrow> (string \<Rightarrow> string option) \<Rightarrow> notice_row list
     \<Rightarrow> (notification_dto list \<times> nat) option"
where
  "customer_notices_GET base user actingAs q rows =
     (case user of None \<Rightarrow> None
      | Some u \<Rightarrow> Some (listCustomerArchive base (case actingAs of None \<Rightarrow> u | Some a \<Rightarrow> a) (archive_query q) rows))"

definition customer_unread_GET ::
  "string option \<Rightarrow> string option \<Rightarrow> string option \<Rightarrow> string option \<Rightarrow> notice_row list \<Rightarrow> notification_dto list option"
where
  "customer_unread_GET base user actingAs raw rows =
     (case user of None \<Rightarrow> None
      | Some u \<Rightarrow> Some (getCustomerUnread base (case actingAs of None \<Rightarrow> u | Some a \<Rightarrow> a) (unread_limit raw) rows))"

definition unread_GET :: "string option \<Rightarrow> string option \<Rightarrow> string option \<Rightarrow> notice_row list \<Rightarrow> notification_dto list option" where
  "unread_GET base user raw rows =
     (case user of None \<Rightarrow> None | Some u \<Rightarrow> Some (getUnread base u (unread_limit raw) rows))"

section \<open>Filters of the streams\<close>

definition admin_filter :: "string \<Rightarrow> delivered \<Rightarrow> bool" where
  "admin_filter u e =
     (let t = field (dv_payload e) ''adminUserId'' in
      if dv_type e = ''notification.created'' then t = None \<or> t = Some JNull \<or> t = Some (JStr u)
      else if dv_type e = ''notification.read'' then t = Some (JStr u)
      else True)"

definition invoice_filter :: "string \<Rightarrow> delivered \<Rightarrow> bool" where
  "invoice_filter i e \<longleftrightarrow> field (dv_payload e) ''invoiceId'' = Some (JStr i)"

definition customer_filter :: "string \<Rightarrow> int list \<Rightarrow> delivered \<Rightarrow> bool" where
  "customer_filter u mappingIds e =
     (if dv_type e = ''notification.created''
      then dv_payload e \<noteq> JNull \<and> (field (dv_payload e) ''adminUserId'' = Some JNull \<or> field (dv_payload e) ''adminUserId'' = Some (JStr u))
      else if dv_type e = ''transaction.meter''
      then (case field (dv_payload e) ''userMappingId'' of Some (JNum q) \<Rightarrow> q \<in> of_int ` set mappingIds | _ \<Rightarrow> False)
      else dv_type e = ''charger.state'')"

definition customer_types :: "string list" where
  "customer_types = [''transaction.meter'', ''charger.state'', ''notification.created'']"

text \<open>The stream endpoints: \<open>None\<close> for a refusal (401, 403, 400 or the cap).\<close>

definition notices_stream_GET ::
  "nat \<Rightarrow> int \<Rightarrow> string option \<Rightarrow> string option \<Rightarrow> sse_server \<Rightarrow> nat option \<times> sse_server"
where
  "notices_stream_GET limit now user lastEvent sv =
     (if \<not> truthy user then (None, sv)
      else openSseStream limit now (Some [''notification.created'', ''notification.read'']) (admin_filter (the user))
             (parseLastEventId lastEvent) sv)"

definition chargers_stream_GET :: "nat \<Rightarrow> int \<Rightarrow> string option \<Rightarrow> string option \<Rightarrow> sse_server \<Rightarrow> nat option \<times> sse_server" where
  "chargers_stream_GET limit now role lastEvent sv =
     (if role \<noteq> Some ''admin'' then (None, sv)
      else openSseStream limit now (Some [''charger.state'', ''transaction.meter'', ''tag.seen'', ''sync.completed'']) (\<lambda>_. True)
             (parseLastEventId lastEvent) sv)"

definition invoices_stream_GET ::
  "nat \<Rightarrow> int \<Rightarrow> string option \<Rightarrow> string option \<Rightarrow> string option \<Rightarrow> sse_server \<Rightarrow> nat option \<times> sse_server"
where
  "invoices_stream_GET limit now role invoiceId lastEvent sv =
     (if role \<noteq> Some ''admin'' \<or> \<not> truthy invoiceId then (None, sv)
      else openSseStream limit now (Some [''invoice.updated'']) (invoice_filter (the invoiceId)) (parseLastEventId lastEvent) sv)"

definition customer_stream_GET ::
  "nat \<Rightarrow> int \<Rightarrow> string option \<Rightarrow> string option \<Rightarrow> int list \<Rightarrow> string option \<Rightarrow> sse_server \<Rightarrow> nat option \<times> sse_server"
where
  "customer_stream_GET limit now user actingAs mappingIds lastEvent sv =
     (case user of None \<Rightarrow> (None, sv)
      | Some u \<Rightarrow> openSseStream limit now (Some customer_types)
          (customer_filter (case actingAs of None \<Rightarrow> u | Some a \<Rightarrow> a) mappingIds) (parseLastEventId lastEvent) sv)"

section \<open>What the bell shows\<close>

lemma filter_none: "(\<And>x. x \<in> set xs \<Longrightarrow> \<not> P x) \<Longrightarrow> filter P xs = []"
  by (auto simp: filter_empty_conv)

lemma stamp_differs: "nt_readAt r = None \<Longrightarrow> r\<lparr>nt_readAt := Some t\<rparr> \<noteq> r"
  by (auto dest: arg_cong [of _ _ nt_readAt])

lemma stamp_other: "r \<in> set rows \<Longrightarrow> \<not> markable i u r \<Longrightarrow> r \<in> set (stamp_read now i u rows)"
  by (auto simp: stamp_read_def image_iff intro!: bexI [of _ r])

lemma stamped: "s \<in> set (stamp_read now None u rows) \<Longrightarrow> own_or_broadcast u s \<Longrightarrow> nt_readAt s \<noteq> None"
  by (auto simp: stamp_read_def markable_def own_or_broadcast_def split: if_splits)

text \<open>
  Marking everything as read empties the bell of the administrator: the unread count is zero, the list is empty and
  a second call hits nothing, whatever arrived before. Rows addressed to anybody else stay as they were,
  and so does the unread feed of every other customer except for broadcasts.
\<close>
theorem mark_all_clears_bell:
  assumes "markAllRead now u rows = (n, ev, rows')"
  shows "getUnreadCount u rows' = 0" and "getUnread base u k rows' = []" and "markAllRead now' u rows' = (0, None, rows')"
    and "\<forall>r \<in> set rows. nt_userId r \<noteq> None \<and> nt_userId r \<noteq> Some u \<longrightarrow> r \<in> set rows'"
    and "v \<noteq> u \<Longrightarrow> filter (\<lambda>r. nt_userId r = Some v \<and> customer_sees v r) rows'
      = filter (\<lambda>r. nt_userId r = Some v \<and> customer_sees v r) rows"
    and "n = card {i. i < length rows \<and> rows' ! i \<noteq> rows ! i}"
proof -
  have rows': "rows' = stamp_read now None u rows" and n: "n = length (filter (markable None u) rows)"
    using assms by (auto simp: markAllRead_def Let_def)
  have none: "filter (\<lambda>r. unread r \<and> admin_sees u r) rows' = []"
    by (rule filter_none) (use stamped in \<open>auto simp: rows' unread_def admin_sees_def\<close>)
  show "getUnreadCount u rows' = 0" by (simp add: getUnreadCount_def none)
  show "getUnread base u k rows' = []" by (simp add: getUnread_def none newest_first_def)
  have m: "filter (markable None u) rows' = []"
    by (rule filter_none) (use stamped in \<open>auto simp: rows' markable_def\<close>)
  have "stamp_read now' None u rows' = rows'"
    unfolding stamp_read_def by (rule map_idI) (use m in \<open>auto simp: filter_empty_conv\<close>)
  then show "markAllRead now' u rows' = (0, None, rows')" by (simp add: markAllRead_def m)
  show "\<forall>r \<in> set rows. nt_userId r \<noteq> None \<and> nt_userId r \<noteq> Some u \<longrightarrow> r \<in> set rows'"
    by (auto simp: rows' markable_def own_or_broadcast_def intro!: stamp_other)
  show "filter (\<lambda>r. nt_userId r = Some v \<and> customer_sees v r) rows' = filter (\<lambda>r. nt_userId r = Some v \<and> customer_sees v r) rows"
    if "v \<noteq> u"
    unfolding rows' stamp_read_def using that
    by (induction rows) (auto simp: markable_def own_or_broadcast_def customer_sees_def)
  have "{i. i < length rows \<and> rows' ! i \<noteq> rows ! i} = {i. i < length rows \<and> markable None u (rows ! i)}"
    by (auto simp: rows' stamp_read_def markable_def stamp_differs split: if_splits)
  then show "n = card {i. i < length rows \<and> rows' ! i \<noteq> rows ! i}" by (simp add: n length_filter_conv_card)
qed

definition notice_for :: "int \<Rightarrow> string option \<Rightarrow> string \<Rightarrow> notice_row" where
  "notice_for i u audience = \<lparr>nt_id = i, nt_kind = ''k'', nt_severity = ''info'', nt_title = ''t'', nt_body = ''b'',
     nt_sourceType = None, nt_sourceId = None, nt_context = None, nt_userId = u, nt_audience = audience,
     nt_readAt = None, nt_dismissedAt = None, nt_createdAt = i\<rparr>"

theorem mark_all_clears_bell_witness:
  "getUnreadCount ''root'' [notice_for 1 None ''admin'', notice_for 2 (Some ''ann'') ''customer''] = 1
     \<and> getUnreadCount ''root'' (snd (snd (markAllRead 9 ''root'' [notice_for 1 None ''admin'', notice_for 2 (Some ''ann'') ''customer'']))) = 0
     \<and> notice_for 2 (Some ''ann'') ''customer''
         \<in> set (snd (snd (markAllRead 9 ''root'' [notice_for 1 None ''admin'', notice_for 2 (Some ''ann'') ''customer''])))"
proof -
  let ?rows = "[notice_for 1 None ''admin'', notice_for 2 (Some ''ann'') ''customer'']"
  obtain n ev rows' where e: "markAllRead 9 ''root'' ?rows = (n, ev, rows')" by (metis prod_cases3)
  have "getUnreadCount ''root'' ?rows = 1" by code_simp
  then show ?thesis using mark_all_clears_bell(1, 4) [OF e] e by (simp add: notice_for_def)
qed

section \<open>The pages of an archive\<close>

lemma pages_concat:
  "0 < k \<Longrightarrow> length xs \<le> m * k \<Longrightarrow> concat (map (\<lambda>j. take k (drop (j * k) xs)) [0..<m]) = xs"
proof (induction m arbitrary: xs)
  case (Suc m)
  have s: "[0..<Suc m] = 0 # map Suc [0..<m]" by (simp add: map_Suc_upt upt_conv_Cons del: upt_Suc)
  have "concat (map (\<lambda>j. take k (drop (j * k) (drop k xs))) [0..<m]) = drop k xs"
    using Suc.prems by (intro Suc.IH) simp_all
  moreover have "(\<lambda>j. take k (drop (j * k) (drop k xs))) = (\<lambda>j. take k (drop (Suc j * k) xs))"
    by (simp add: add.commute)
  ultimately show ?case unfolding s by (simp add: comp_def)
qed simp


definition any_notice :: archive_params where
  "any_notice = \<lparr>ar_limit = None, ar_offset = None, ar_severity = None, ar_kind = None, ar_sourceType = None, ar_readState = None\<rparr>"


section \<open>The stream of a customer\<close>

lemma deliver_emitted:
  assumes "s \<in> set (sv_streams sv)" "(ss_id s, types) \<in> set (bs_subs (sv_bus sv))" "listens types type"
    "\<not> ss_closed s" "ss_pending s < limit"
    "ss_filter s \<lparr>dv_seq = bs_seq (sv_bus sv) + 1, dv_ts = now, dv_type = type, dv_payload = p, dv_workerId = bs_worker (sv_bus sv)\<rparr>"
  shows "\<exists>t \<in> set (sv_streams (sse_step limit now (Emit type p) sv)). ss_id t = ss_id s
    \<and> ss_frames t = ss_frames s @ [Event_frame (bs_seq (sv_bus sv) + 1) type p]"
proof -
  obtain e ids b where p: "publish now type p (sv_bus sv) = (e, ids, b)" by (metis prod_cases3)
  have e: "e = \<lparr>dv_seq = bs_seq (sv_bus sv) + 1, dv_ts = now, dv_type = type, dv_payload = p, dv_workerId = bs_worker (sv_bus sv)\<rparr>"
    and ids: "ids = fanOut (sv_bus sv) e"
    using p by (auto simp: publish_def Let_def fanOut_def)
  have "ss_id s \<in> set ids" using assms(2, 3) by (force simp: ids fanOut_def e)
  then have "filtered_write limit e s \<in> set (sv_streams (sse_step limit now (Emit type p) sv))"
    using assms(1) by (auto simp: p deliver_def image_iff intro!: bexI [of _ s])
  moreover have "ss_id (filtered_write limit e s) = ss_id s
      \<and> ss_frames (filtered_write limit e s) = ss_frames s @ [Event_frame (bs_seq (sv_bus sv) + 1) type p]"
    using assms(4-6) by (simp add: filtered_write_def writeEvent_def writeRaw_def flip: e) (simp add: e)
  ultimately show ?thesis by blast
qed

lemma created_admin: "field (created_payload fmt d) ''adminUserId'' = Some (json_opt (nt_userId (nd_row d)))"
  by (simp add: created_payload_def Let_def field_def)

text \<open>
  C39. A notice for administrators is pushed to customers. When a notice is created with the default audience and no
  addressee, the way the webhooks and sweeps create theirs, every customer who has an open stream that
  keeps up with its writes is sent the event, with title, body and link of the notice, although the
  customer's own feed and archive never show the row.
\<close>
theorem admin_notice_reaches_customers:
  assumes "ni_audience i = None" "ni_adminUserId i = None" "createNotification io newId i rows = (Some (d, p, m), rows')"
    "s \<in> set (sv_streams sv)" "(ss_id s, Some customer_types) \<in> set (bs_subs (sv_bus sv))"
    "ss_filter s = customer_filter c mids" "\<not> ss_closed s" "ss_pending s < limit"
  shows "(\<exists>t \<in> set (sv_streams (sse_step limit now (Emit ''notification.created'' p) sv)). ss_id t = ss_id s
      \<and> ss_frames t = ss_frames s @ [Event_frame (bs_seq (sv_bus sv) + 1) ''notification.created'' p])
    \<and> (field p ''title'' = Some (JStr (ni_title i)) \<and> field p ''body'' = Some (JStr (ni_body i)))
    \<and> rows' = rows @ [nd_row d] \<and> \<not> customer_sees c (nd_row d)"
proof -
  have d: "p = created_payload (no_iso io) d" "nt_userId (nd_row d) = None" "nt_audience (nd_row d) = ''admin''"
    "rows' = rows @ [nd_row d]" "nt_title (nd_row d) = ni_title i" "nt_body (nd_row d) = ni_body i"
    using assms(1-3) by (auto simp: createNotification_def Let_def toDTO_def split: if_splits)
  have r: "rows' = rows @ [nd_row d] \<and> \<not> customer_sees c (nd_row d)" using d by (simp add: customer_sees_def)
  have t: "field p ''title'' = Some (JStr (ni_title i)) \<and> field p ''body'' = Some (JStr (ni_body i))"
    using d(5, 6) by (simp add: d(1) created_payload_def Let_def field_def)
  have f: "field p ''adminUserId'' = Some JNull" using created_admin [of "no_iso io" d] d(1, 2) by (simp add: json_opt_def)
  then have "p \<noteq> JNull" by (auto simp: field_def)
  then have "\<exists>t \<in> set (sv_streams (sse_step limit now (Emit ''notification.created'' p) sv)). ss_id t = ss_id s
      \<and> ss_frames t = ss_frames s @ [Event_frame (bs_seq (sv_bus sv) + 1) ''notification.created'' p]"
    using f by (intro deliver_emitted [OF assms(4, 5) _ assms(7, 8)])
      (simp_all add: assms(6) customer_filter_def listens_def customer_types_def)
  then show ?thesis using r t by blast
qed

definition webhook_alert :: notice_input where
  "webhook_alert = \<lparr>ni_kind = ''webhook.breaker'', ni_severity = ''error'', ni_title = ''Breaker open'', ni_body = ''5 failures'',
     ni_sourceType = Some ''webhook_event'', ni_sourceId = Some ''7'', ni_context = None, ni_adminUserId = None,
     ni_audience = None, ni_userId = None, ni_email = None\<rparr>"

definition plain_io :: notice_io where
  "plain_io = \<lparr>no_now = 0, no_fail = None, no_lagoBase = None, no_iso = (\<lambda>_. ''t''), no_addr = (\<lambda>_. None)\<rparr>"

definition ann_watching :: sse_server where
  "ann_watching = snd (customer_stream_GET 100 0 (Some ''ann'') None [4] None \<lparr>sv_open = 0, sv_bus = fresh_bus False, sv_streams = []\<rparr>)"

theorem admin_notice_reaches_customers_witness:
  "\<exists>d p m rows'. createNotification plain_io 1 webhook_alert [] = (Some (d, p, m), rows')
     \<and> (\<exists>t \<in> set (sv_streams (sse_step 100 5 (Emit ''notification.created'' p) ann_watching)).
          ss_frames t = [Retry_hint, Event_frame 1 ''notification.created'' p])
     \<and> field p ''title'' = Some (JStr ''Breaker open'') \<and> \<not> customer_sees ''ann'' (nd_row d)"
proof -
  obtain s where s: "sv_streams ann_watching = [s]" "ss_id s = 0" "ss_filter s = customer_filter ''ann'' [4]" "\<not> ss_closed s"
    "ss_pending s = 1" "ss_frames s = [Retry_hint]" "bs_subs (sv_bus ann_watching) = [(0, Some customer_types)]"
    "bs_seq (sv_bus ann_watching) = 0"
    by (simp add: ann_watching_def customer_stream_GET_def openSseStream_def subscribe_def Let_def fresh_bus_def
        parseLastEventId_def writeRaw_def MAX_CONNECTIONS_def)
  obtain d p m rows' where c: "createNotification plain_io 1 webhook_alert [] = (Some (d, p, m), rows')"
    by (auto simp: createNotification_def plain_io_def webhook_alert_def Let_def)
  have h: "ni_audience webhook_alert = None" "ni_adminUserId webhook_alert = None" by (simp_all add: webhook_alert_def)
  have "s \<in> set (sv_streams ann_watching)" "(ss_id s, Some customer_types) \<in> set (bs_subs (sv_bus ann_watching))" "ss_pending s < 100"
    using s by simp_all
  note r = admin_notice_reaches_customers [OF h c this(1, 2) s(3, 4) this(3)]
  show ?thesis using r [where now = 5] c s(6, 8) by (auto simp: webhook_alert_def)
qed

end
