(* ===== verification/Profiles.thy ===== *)
theory Profiles
  imports Access "HOL-Library.Product_Lexorder"
begin

text \<open>
  Charging profiles (\<open>src/services/charging-profile.service.ts\<close>) and their endpoint
  (\<open>routes/api/admin/charging-profile/[externalId].ts\<close>): presets, the row of a subscription, the OCPP schedule
  built from it and the hooks that would apply it. The clock, the failures of the writes and of the mirror
  to Lago and the printed form of a time are arguments; log lines are left out.
\<close>

section \<open>Presets\<close>

datatype ChargingProfilePreset = unlimited | offpeak | cap7kw | cap11kw | solar | custom

record ChargingWindow =
  dayOfWeek :: int
  startMin :: int
  endMin :: int
  maxW :: "int option"

record PresetShape =
  ps_preset :: ChargingProfilePreset
  ps_windows :: "ChargingWindow list"
  ps_maxWGlobal :: "int option"
  ps_label :: string
  ps_disabled :: bool

definition window :: "int \<Rightarrow> int \<Rightarrow> int \<Rightarrow> ChargingWindow" where
  "window d s e = \<lparr>dayOfWeek = d, startMin = s, endMin = e, maxW = None\<rparr>"

definition buildOffpeakWindows :: "ChargingWindow list" where
  "buildOffpeakWindows =
     concat (map (\<lambda>d. [window d 0 (6 * 60), window d (22 * 60) (24 * 60)]) [1, 2, 3, 4, 5])
       @ [window 0 0 (24 * 60), window 6 0 (24 * 60)]"

definition plain_shape :: "ChargingProfilePreset \<Rightarrow> int option \<Rightarrow> string \<Rightarrow> PresetShape" where
  "plain_shape p cap label = \<lparr>ps_preset = p, ps_windows = [], ps_maxWGlobal = cap, ps_label = label, ps_disabled = False\<rparr>"

fun buildPreset :: "ChargingProfilePreset \<Rightarrow> PresetShape" where
  "buildPreset unlimited = plain_shape unlimited None ''Unlimited''"
| "buildPreset offpeak = (plain_shape offpeak None ''Off-peak only'')\<lparr>ps_windows := buildOffpeakWindows\<rparr>"
| "buildPreset cap7kw = plain_shape cap7kw (Some 7000) ''Cap at 7 kW''"
| "buildPreset cap11kw = plain_shape cap11kw (Some 11000) ''Cap at 11 kW''"
| "buildPreset solar = (plain_shape solar None ''Solar surplus'')\<lparr>ps_disabled := True\<rparr>"
| "buildPreset custom = plain_shape custom None ''Custom''"

section \<open>Rows\<close>

record profile_row =
  cp_id :: int
  cp_subscription :: string
  cp_preset :: ChargingProfilePreset
  cp_windows :: "ChargingWindow list"
  cp_maxWGlobal :: "int option"
  cp_ocppId :: int
  cp_applyToActive :: bool
  cp_lagoSyncedAt :: "int option"
  cp_lagoSyncError :: "string option"
  cp_createdBy :: "string option"
  cp_updatedBy :: "string option"
  cp_updatedAt :: int

text \<open>\<open>toFixed(0)\<close> of a number of kilowatts.\<close>

definition fixed_kw :: "int \<Rightarrow> string" where
  "fixed_kw w = (if w < 0 then ''-'' else []) @ show_int ((\<bar>w\<bar> + 500) div 1000)"

definition presetLabel :: "profile_row option \<Rightarrow> string" where
  "presetLabel p =
     (case p of None \<Rightarrow> ''Unlimited''
      | Some r \<Rightarrow>
          if cp_preset r = unlimited then ''Unlimited''
          else (let base = ps_label (buildPreset (cp_preset r)) in
            case cp_maxWGlobal r of
              None \<Rightarrow> base
            | Some w \<Rightarrow> if w = 0 then base else base @ '' ('' @ fixed_kw w @ '' kW)''))"

definition getProfile :: "string \<Rightarrow> profile_row list \<Rightarrow> profile_row option" where
  "getProfile sub rows = find (\<lambda>r. cp_subscription r = sub) rows"

record profile_input =
  pu_subscription :: string
  pu_preset :: ChargingProfilePreset
  pu_windows :: "ChargingWindow list option"
  pu_maxWGlobal :: "int option"
  pu_applyNow :: "bool option"
  pu_userId :: "string option"

record profile_io =
  up_now :: int
  up_newId :: int
  up_write :: "string option"
  up_mirror :: "string option"

text \<open>The row as the first write leaves it, then what is sent to Lago.\<close>

definition profile_values :: "profile_io \<Rightarrow> profile_input \<Rightarrow> profile_row option \<Rightarrow> profile_row" where
  "profile_values io i existing =
     (let shape = buildPreset (pu_preset i) in
      \<lparr>cp_id = (case existing of None \<Rightarrow> up_newId io | Some r \<Rightarrow> cp_id r),
       cp_subscription = pu_subscription i, cp_preset = pu_preset i,
       cp_windows = (if pu_preset i = custom then (case pu_windows i of None \<Rightarrow> [] | Some ws \<Rightarrow> ws) else ps_windows shape),
       cp_maxWGlobal = (if pu_preset i = custom then pu_maxWGlobal i else ps_maxWGlobal shape),
       cp_ocppId = (case existing of None \<Rightarrow> 0 | Some r \<Rightarrow> cp_ocppId r) + 1,
       cp_applyToActive = (pu_applyNow i = Some True),
       cp_lagoSyncedAt = (case existing of None \<Rightarrow> None | Some r \<Rightarrow> cp_lagoSyncedAt r),
       cp_lagoSyncError = (case existing of None \<Rightarrow> None | Some r \<Rightarrow> cp_lagoSyncError r),
       cp_createdBy = (case existing of None \<Rightarrow> pu_userId i | Some r \<Rightarrow> cp_createdBy r),
       cp_updatedBy = pu_userId i, cp_updatedAt = up_now io\<rparr>)"

record lago_profile =
  lp_preset :: ChargingProfilePreset
  lp_windows :: "ChargingWindow list"
  lp_max_w_global :: "int option"
  lp_ocpp_charging_profile_id :: int
  lp_updated_at :: int

definition mirrorToLago :: "profile_row \<Rightarrow> string \<times> lago_profile" where
  "mirrorToLago r = (cp_subscription r, \<lparr>lp_preset = cp_preset r, lp_windows = cp_windows r, lp_max_w_global = cp_maxWGlobal r,
     lp_ocpp_charging_profile_id = cp_ocppId r, lp_updated_at = cp_updatedAt r\<rparr>)"

definition put_profile :: "profile_row \<Rightarrow> profile_row list \<Rightarrow> profile_row list" where
  "put_profile r rows =
     (if list_ex (\<lambda>q. cp_id q = cp_id r) rows then map (\<lambda>q. if cp_id q = cp_id r then r else q) rows else rows @ [r])"

text \<open>The stored row, whether the mirror succeeded, and the rows; a failing first write is thrown.\<close>

definition upsertProfile ::
  "profile_io \<Rightarrow> profile_input \<Rightarrow> profile_row list \<Rightarrow> (string + profile_row \<times> bool) \<times> profile_row list"
where
  "upsertProfile io i rows =
     (case up_write io of
        Some m \<Rightarrow> (Inl m, rows)
      | None \<Rightarrow>
          let r = profile_values io i (getProfile (pu_subscription i) rows);
              r1 = (case up_mirror io of
                      None \<Rightarrow> r\<lparr>cp_lagoSyncedAt := Some (up_now io), cp_lagoSyncError := None\<rparr>
                    | Some m \<Rightarrow> r\<lparr>cp_lagoSyncError := Some m\<rparr>)
          in (Inr (r1, up_mirror io = None), put_profile r1 rows))"

definition clearProfile ::
  "profile_io \<Rightarrow> string \<Rightarrow> string option \<Rightarrow> profile_row list \<Rightarrow> (string + profile_row \<times> bool) \<times> profile_row list"
where
  "clearProfile io sub user rows =
     upsertProfile io \<lparr>pu_subscription = sub, pu_preset = unlimited, pu_windows = None, pu_maxWGlobal = None,
       pu_applyNow = None, pu_userId = user\<rparr> rows"

section \<open>The OCPP schedule\<close>

datatype profile_purpose = TxDefaultProfile | TxProfile

datatype profile_kind = Absolute | Recurring_weekly

record schedule_period =
  sp_startPeriod :: int
  sp_limit :: int
  sp_numberPhases :: nat

record apply_context =
  ac_purpose :: profile_purpose
  ac_validFrom :: "string option"
  ac_validUntil :: "string option"
  ac_connectorId :: "int option"
  ac_transactionId :: "int option"

record ocpp_payload =
  op_connectorId :: int
  op_chargingProfileId :: int
  op_stackLevel :: nat
  op_purpose :: profile_purpose
  op_kind :: profile_kind
  op_validFrom :: "string option"
  op_validTo :: "string option"
  op_transactionId :: "int option"
  op_periods :: "schedule_period list"

definition NO_CAP :: int where "NO_CAP = 9007199254740991"

definition period :: "int \<Rightarrow> int \<Rightarrow> schedule_period" where
  "period s l = \<lparr>sp_startPeriod = s, sp_limit = l, sp_numberPhases = 3\<rparr>"

definition winStart :: "ChargingWindow \<Rightarrow> int" where
  "winStart w = (dayOfWeek w * 24 * 60 + startMin w) * 60"

definition winEnd :: "ChargingWindow \<Rightarrow> int" where
  "winEnd w = (dayOfWeek w * 24 * 60 + endMin w) * 60"

definition weekSeconds :: int where "weekSeconds = 7 * 24 * 60 * 60"

definition window_limit :: "int option \<Rightarrow> ChargingWindow \<Rightarrow> int" where
  "window_limit cap w = (case maxW w of Some m \<Rightarrow> m | None \<Rightarrow> (case cap of Some m \<Rightarrow> m | None \<Rightarrow> NO_CAP))"

fun week_periods :: "int option \<Rightarrow> int \<Rightarrow> ChargingWindow list \<Rightarrow> schedule_period list" where
  "week_periods cap cursor [] = (if cursor < weekSeconds then [period cursor 0] else [])"
| "week_periods cap cursor (w # ws) =
     (if winStart w > cursor then [period cursor 0] else [])
       @ period (winStart w) (window_limit cap w) # week_periods cap (winEnd w) ws"

definition sort_windows :: "ChargingWindow list \<Rightarrow> ChargingWindow list" where
  "sort_windows ws = sort_key (\<lambda>w. (dayOfWeek w, startMin w)) ws"

definition profile_periods :: "profile_row \<Rightarrow> schedule_period list" where
  "profile_periods r =
     (if cp_windows r = [] then
        (case cp_maxWGlobal r of
           Some w \<Rightarrow> if w > 0 then [period 0 w] else [period 0 NO_CAP]
         | None \<Rightarrow> [period 0 NO_CAP])
      else week_periods (cp_maxWGlobal r) 0 (sort_windows (cp_windows r)))"

definition buildOcppPayload :: "profile_row \<Rightarrow> apply_context \<Rightarrow> ocpp_payload" where
  "buildOcppPayload r c =
     \<lparr>op_connectorId = (case ac_connectorId c of None \<Rightarrow> 0 | Some i \<Rightarrow> i), op_chargingProfileId = cp_ocppId r,
      op_stackLevel = 1, op_purpose = ac_purpose c,
      op_kind = (if truthy (ac_validFrom c) \<or> truthy (ac_validUntil c) then Absolute else Recurring_weekly),
      op_validFrom = ac_validFrom c, op_validTo = ac_validUntil c, op_transactionId = ac_transactionId c,
      op_periods = profile_periods r\<rparr>"

text \<open>Nothing is sent: the task is 0, with an error that says so.\<close>

definition applyToCharger :: "profile_row \<Rightarrow> string \<Rightarrow> apply_context \<Rightarrow> int \<times> string option" where
  "applyToCharger r chargeBoxId c = (0, Some ''SetChargingProfile dispatch deferred'')"

definition applyToActiveSessions :: "profile_row \<Rightarrow> nat \<times> nat" where
  "applyToActiveSessions r = (0, 0)"

definition hook_profile :: "string option \<Rightarrow> profile_row list \<Rightarrow> profile_row option" where
  "hook_profile sub rows =
     (if \<not> truthy sub then None
      else (case getProfile (the sub) rows of None \<Rightarrow> None | Some r \<Rightarrow> if cp_preset r = unlimited then None else Some r))"

definition onReservationCreated ::
  "(int \<Rightarrow> string) \<Rightarrow> string option \<Rightarrow> string \<Rightarrow> int \<Rightarrow> int \<Rightarrow> int \<Rightarrow> profile_row list \<Rightarrow> int \<times> string option"
where
  "onReservationCreated fmt sub chargeBoxId connector startAt endAt rows =
     (case hook_profile sub rows of
        None \<Rightarrow> (0, None)
      | Some r \<Rightarrow> applyToCharger r chargeBoxId
          \<lparr>ac_purpose = TxDefaultProfile, ac_validFrom = Some (fmt startAt), ac_validUntil = Some (fmt endAt),
           ac_connectorId = Some connector, ac_transactionId = None\<rparr>)"

definition onTransactionStarted :: "string option \<Rightarrow> string \<Rightarrow> int \<Rightarrow> int \<Rightarrow> profile_row list \<Rightarrow> int \<times> string option" where
  "onTransactionStarted sub chargeBoxId connector tx rows =
     (case hook_profile sub rows of
        None \<Rightarrow> (0, None)
      | Some r \<Rightarrow> applyToCharger r chargeBoxId
          \<lparr>ac_purpose = TxProfile, ac_validFrom = None, ac_validUntil = None,
           ac_connectorId = Some connector, ac_transactionId = Some tx\<rparr>)"

section \<open>The endpoint\<close>

record profile_body =
  pb_preset :: ChargingProfilePreset
  pb_windows :: "ChargingWindow list option"
  pb_maxWGlobal :: "int option"
  pb_applyNow :: "bool option"

definition valid_window :: "ChargingWindow \<Rightarrow> bool" where
  "valid_window w \<longleftrightarrow> 0 \<le> dayOfWeek w \<and> dayOfWeek w \<le> 6 \<and> 0 \<le> startMin w \<and> startMin w \<le> 1440
     \<and> 0 \<le> endMin w \<and> endMin w \<le> 1440 \<and> (case maxW w of None \<Rightarrow> True | Some m \<Rightarrow> m > 0) \<and> endMin w > startMin w"

definition valid_body :: "profile_body \<Rightarrow> bool" where
  "valid_body b \<longleftrightarrow> (case pb_windows b of None \<Rightarrow> True | Some ws \<Rightarrow> list_all valid_window ws)
     \<and> (case pb_maxWGlobal b of None \<Rightarrow> True | Some m \<Rightarrow> m > 0)"

datatype profile_reply = P_bad_request | P_thrown string | P_saved profile_row string bool
  | P_profile "profile_row option" string string string

definition profile_GET :: "string \<Rightarrow> profile_row list \<Rightarrow> profile_reply" where
  "profile_GET ext rows =
     (if ext = [] then P_bad_request
      else (let p = getProfile ext rows in
        P_profile p (presetLabel p) (''/subscriptions/'' @ encodeURIComponent ext @ ''/profile'')
          (if p = None then ''Not configured'' else presetLabel p)))"

definition saved_reply :: "(string + profile_row \<times> bool) \<times> profile_row list \<Rightarrow> profile_reply \<times> profile_row list" where
  "saved_reply res = (case res of (Inl m, rows) \<Rightarrow> (P_thrown m, rows)
     | (Inr (r, ok), rows) \<Rightarrow> (P_saved r (presetLabel (Some r)) ok, rows))"

text \<open>The body is \<open>None\<close> when it is no JSON or has other types than the schema.\<close>

definition profile_POST ::
  "profile_io \<Rightarrow> string \<Rightarrow> string option \<Rightarrow> profile_body option \<Rightarrow> profile_row list \<Rightarrow> profile_reply \<times> profile_row list"
where
  "profile_POST io ext user body rows =
     (if ext = [] then (P_bad_request, rows)
      else (case body of
          None \<Rightarrow> (P_bad_request, rows)
        | Some b \<Rightarrow>
            if \<not> valid_body b then (P_bad_request, rows)
            else saved_reply (upsertProfile io \<lparr>pu_subscription = ext, pu_preset = pb_preset b, pu_windows = pb_windows b,
              pu_maxWGlobal = pb_maxWGlobal b, pu_applyNow = pb_applyNow b, pu_userId = user\<rparr> rows)))"

definition profile_DELETE ::
  "profile_io \<Rightarrow> string \<Rightarrow> string option \<Rightarrow> profile_row list \<Rightarrow> profile_reply \<times> profile_row list"
where
  "profile_DELETE io ext user rows =
     (if ext = [] then (P_bad_request, rows) else saved_reply (clearProfile io ext user rows))"

section \<open>The schedule means the windows\<close>

text \<open>The limit in force at a second of the week: that of the last period that has started.\<close>

definition limit_at :: "schedule_period list \<Rightarrow> int \<Rightarrow> int option" where
  "limit_at ps t = (let qs = filter (\<lambda>p. sp_startPeriod p \<le> t) ps in if qs = [] then None else Some (sp_limit (last qs)))"

text \<open>What the windows promise: the limit of the window around that second, otherwise nothing.\<close>

definition allowed_at :: "int option \<Rightarrow> ChargingWindow list \<Rightarrow> int \<Rightarrow> int" where
  "allowed_at cap ws t = (case find (\<lambda>w. winStart w \<le> t \<and> t < winEnd w) ws of None \<Rightarrow> 0 | Some w \<Rightarrow> window_limit cap w)"

definition apart :: "ChargingWindow \<Rightarrow> ChargingWindow \<Rightarrow> bool" where
  "apart v w \<longleftrightarrow> winEnd v \<le> winStart w \<or> winEnd w \<le> winStart v"

definition windows_ok :: "ChargingWindow list \<Rightarrow> bool" where
  "windows_ok ws \<longleftrightarrow> list_all valid_window ws \<and> sorted_wrt apart ws"

lemma apart_sym: "apart v w = apart w v"
  by (auto simp: apart_def)

lemma sorted_wrt_insort:
  assumes "\<And>x y. R x y = R y x"
  shows "sorted_wrt R (insort_key f x xs) \<longleftrightarrow> (\<forall>y \<in> set xs. R x y) \<and> sorted_wrt R xs"
  by (induction xs) (auto simp: set_insort_key assms)

lemma sorted_wrt_sort_key:
  assumes "\<And>x y. R x y = R y x"
  shows "sorted_wrt R (sort_key f xs) \<longleftrightarrow> sorted_wrt R xs"
  by (induction xs) (simp_all add: sort_key_def sorted_wrt_insort [of R, OF assms] set_insort_key flip: sort_key_def)

lemma valid_bounds:
  assumes "valid_window w"
  shows "winStart w < winEnd w" "0 \<le> winStart w" "winEnd w \<le> weekSeconds"
  using assms by (auto simp: valid_window_def winStart_def winEnd_def weekSeconds_def)

lemma lex_start:
  assumes "valid_window v" "valid_window w" "(dayOfWeek v, startMin v) \<le> (dayOfWeek w, startMin w)"
  shows "winStart v \<le> winStart w"
  using assms by (auto simp: valid_window_def winStart_def less_eq_prod_def)

lemma adjacent_windows:
  "list_all valid_window l \<Longrightarrow> sorted_wrt apart l \<Longrightarrow> sorted (map (\<lambda>w. (dayOfWeek w, startMin w)) l)
    \<Longrightarrow> sorted_wrt (\<lambda>v w. winEnd v \<le> winStart w) l"
proof (induction l)
  case (Cons w vs)
  have "winEnd w \<le> winStart v" if v: "v \<in> set vs" for v
  proof -
    have "winStart w \<le> winStart v"
      using Cons.prems v by (intro lex_start) (auto simp: list_all_iff)
    moreover have "winStart v < winEnd v" using Cons.prems(1) v valid_bounds(1) by (auto simp: list_all_iff)
    moreover have "apart w v" using Cons.prems(2) v by simp
    ultimately show ?thesis by (auto simp: apart_def)
  qed
  then show ?case using Cons by simp
qed simp

text \<open>After sorting, each window ends before the next begins.\<close>

lemma sorted_windows:
  assumes "windows_ok ws"
  shows "sorted_wrt (\<lambda>v w. winEnd v \<le> winStart w) (sort_windows ws)"
proof -
  have ok: "list_all valid_window (sort_windows ws)" "sorted_wrt apart (sort_windows ws)"
    using assms by (simp_all add: windows_ok_def sort_windows_def list_all_iff sorted_wrt_sort_key [of apart, OF apart_sym])
  have "sorted (map (\<lambda>w. (dayOfWeek w, startMin w)) (sort_windows ws))" by (simp add: sort_windows_def)
  with ok show ?thesis by (intro adjacent_windows)
qed

lemma period_starts:
  "sorted_wrt (\<lambda>v w. winEnd v \<le> winStart w) ws \<Longrightarrow> list_all valid_window ws \<Longrightarrow> \<forall>w \<in> set ws. c \<le> winStart w \<Longrightarrow>
    \<forall>p \<in> set (week_periods cap c ws). c \<le> sp_startPeriod p"
proof (induction ws arbitrary: c)
  case (Cons w ws)
  have "\<forall>p \<in> set (week_periods cap (winEnd w) ws). winEnd w \<le> sp_startPeriod p"
    using Cons.prems by (intro Cons.IH) auto
  then show ?case using Cons.prems valid_bounds [of w] by (fastforce simp: period_def)
qed (simp add: period_def)

lemma filter_all_out: "(\<And>x. x \<in> set xs \<Longrightarrow> \<not> P x) \<Longrightarrow> filter P (ys @ xs) = filter P ys"
  by (auto simp: filter_empty_conv)

lemma limit_last: "filter (\<lambda>p. sp_startPeriod p \<le> t) ps = qs @ [p] \<Longrightarrow> limit_at ps t = Some (sp_limit p)"
  by (simp add: limit_at_def)

lemma limit_append:
  "limit_at ps t = Some l \<Longrightarrow> limit_at (qs @ ps) t = Some l"
  by (simp add: limit_at_def Let_def split: if_splits)

lemma week_schedule:
  assumes "sorted_wrt (\<lambda>v w. winEnd v \<le> winStart w) ws" "list_all valid_window ws" "\<forall>w \<in> set ws. c \<le> winStart w"
    "c \<le> t" "t < weekSeconds"
  shows "limit_at (week_periods cap c ws) t = Some (allowed_at cap ws t)"
  using assms
proof (induction ws arbitrary: c)
  case Nil
  then show ?case by (simp add: limit_at_def allowed_at_def period_def)
next
  case (Cons w ws)
  let ?rest = "week_periods cap (winEnd w) ws"
  let ?gap = "if winStart w > c then [period c 0] else []"
  have wb: "winStart w < winEnd w" "winEnd w \<le> weekSeconds" using valid_bounds [of w] Cons.prems(2) by simp_all
  have later: "\<forall>v \<in> set ws. winEnd w \<le> winStart v" using Cons.prems(1) by simp
  have starts: "\<forall>p \<in> set ?rest. winEnd w \<le> sp_startPeriod p"
    using Cons.prems later by (intro period_starts) auto
  consider (before) "t < winStart w" | (inside) "winStart w \<le> t" "t < winEnd w" | (after) "winEnd w \<le> t" by linarith
  then show ?case
  proof cases
    case before
    then have "filter (\<lambda>p. sp_startPeriod p \<le> t) (week_periods cap c (w # ws)) = [] @ [period c 0]"
      using starts wb(1) Cons.prems(4) by (auto simp: period_def filter_empty_conv)
    then have "limit_at (week_periods cap c (w # ws)) t = Some 0" using limit_last by (fastforce simp: period_def)
    moreover have "allowed_at cap (w # ws) t = 0"
    proof -
      have "find (\<lambda>w. winStart w \<le> t \<and> t < winEnd w) (w # ws) = None"
        using before later wb(1) by (fastforce simp: find_None_iff)
      then show ?thesis by (simp only: allowed_at_def option.case)
    qed
    ultimately show ?thesis by simp
  next
    case inside
    then have "filter (\<lambda>p. sp_startPeriod p \<le> t) (week_periods cap c (w # ws))
        = filter (\<lambda>p. sp_startPeriod p \<le> t) ?gap @ [period (winStart w) (window_limit cap w)]"
      using starts by (auto simp: period_def filter_empty_conv)
    then have "limit_at (week_periods cap c (w # ws)) t = Some (window_limit cap w)" using limit_last by (fastforce simp: period_def)
    then show ?thesis using inside by (simp add: allowed_at_def)
  next
    case after
    have "limit_at ?rest t = Some (allowed_at cap ws t)"
      using Cons.prems after later by (intro Cons.IH) auto
    then have "limit_at ((?gap @ [period (winStart w) (window_limit cap w)]) @ ?rest) t = Some (allowed_at cap ws t)"
      by (rule limit_append)
    then show ?thesis using after by (simp add: allowed_at_def)
  qed
qed

lemma apart_members: "sorted_wrt apart ws \<Longrightarrow> v \<in> set ws \<Longrightarrow> w \<in> set ws \<Longrightarrow> v \<noteq> w \<Longrightarrow> apart v w"
  by (induction ws) (auto simp: apart_sym)


definition offpeak_row :: profile_row where
  "offpeak_row = profile_values \<lparr>up_now = 0, up_newId = 1, up_write = None, up_mirror = None\<rparr>
     \<lparr>pu_subscription = ''s1'', pu_preset = offpeak, pu_windows = None, pu_maxWGlobal = None, pu_applyNow = None, pu_userId = None\<rparr> None"

definition weekly :: apply_context where
  "weekly = \<lparr>ac_purpose = TxDefaultProfile, ac_validFrom = None, ac_validUntil = None, ac_connectorId = None, ac_transactionId = None\<rparr>"


section \<open>The row of a subscription\<close>

definition profiles_ok :: "profile_row list \<Rightarrow> bool" where
  "profiles_ok rows \<longleftrightarrow> distinct (map cp_id rows) \<and> distinct (map cp_subscription rows)"

lemma found_profile: "getProfile sub rows = Some r \<Longrightarrow> r \<in> set rows \<and> cp_subscription r = sub"
  by (auto simp: getProfile_def find_Some_iff)

lemma no_profile: "getProfile sub rows = None \<Longrightarrow> sub \<notin> cp_subscription ` set rows"
  by (auto simp: getProfile_def find_None_iff)

lemma getProfile_unique:
  "distinct (map cp_subscription rows) \<Longrightarrow> r \<in> set rows \<Longrightarrow> getProfile (cp_subscription r) rows = Some r"
  by (induction rows) (auto simp: getProfile_def)

lemma find_append_one: "find P (xs @ [a]) = (case find P xs of None \<Rightarrow> if P a then Some a else None | Some x \<Rightarrow> Some x)"
  by (induction xs) auto

lemma same_keys: "(\<And>q. q \<in> set rows \<Longrightarrow> f (g q) = f q) \<Longrightarrow> map f (map g rows) = map f rows"
  by simp

text \<open>
  Saving a profile keeps one row per subscription. After a save that is not thrown, the subscription has exactly the
  row that was returned, whose OCPP number is one above the last one and whose creator is the first one,
  the rows of other subscriptions are as before, and a failing mirror to Lago changes none of this.
\<close>
theorem profile_saved:
  assumes "profiles_ok rows" "up_newId io \<notin> cp_id ` set rows" "upsertProfile io i rows = (Inr (r, ok), rows')"
  shows "profiles_ok rows'" and "getProfile (pu_subscription i) rows' = Some r"
    and "cp_ocppId r = (case getProfile (pu_subscription i) rows of None \<Rightarrow> 1 | Some q \<Rightarrow> cp_ocppId q + 1)"
    and "cp_createdBy r = (case getProfile (pu_subscription i) rows of None \<Rightarrow> pu_userId i | Some q \<Rightarrow> cp_createdBy q)"
    and "sub \<noteq> pu_subscription i \<Longrightarrow> getProfile sub rows' = getProfile sub rows"
    and "ok = (up_mirror io = None) \<and> (cp_lagoSyncError r = up_mirror io)"
proof -
  let ?v = "profile_values io i (getProfile (pu_subscription i) rows)"
  have w: "rows' = put_profile r rows" "ok = (up_mirror io = None)"
    "r = (case up_mirror io of None \<Rightarrow> ?v\<lparr>cp_lagoSyncedAt := Some (up_now io), cp_lagoSyncError := None\<rparr> | Some m \<Rightarrow> ?v\<lparr>cp_lagoSyncError := Some m\<rparr>)"
    using assms(3) by (auto simp: upsertProfile_def Let_def split: option.splits)
  have sub: "cp_subscription r = pu_subscription i" and oid: "cp_ocppId r = cp_ocppId ?v" and cr: "cp_createdBy r = cp_createdBy ?v"
    and id: "cp_id r = cp_id ?v"
    by (simp_all add: w(3) profile_values_def Let_def split: option.splits)
  show "cp_ocppId r = (case getProfile (pu_subscription i) rows of None \<Rightarrow> 1 | Some q \<Rightarrow> cp_ocppId q + 1)"
    by (simp add: oid profile_values_def Let_def split: option.splits)
  show "cp_createdBy r = (case getProfile (pu_subscription i) rows of None \<Rightarrow> pu_userId i | Some q \<Rightarrow> cp_createdBy q)"
    by (simp add: cr profile_values_def Let_def split: option.splits)
  show "ok = (up_mirror io = None) \<and> (cp_lagoSyncError r = up_mirror io)"
    by (simp add: w split: option.splits)
  have both: "profiles_ok rows' \<and> r \<in> set rows' \<and> (\<forall>sub. sub \<noteq> pu_subscription i \<longrightarrow> getProfile sub rows' = getProfile sub rows)"
  proof (cases "getProfile (pu_subscription i) rows")
    case None
    then have "cp_id r = up_newId io" by (simp add: id profile_values_def Let_def)
    then have "\<not> list_ex (\<lambda>q. cp_id q = cp_id r) rows" using assms(2) by (auto simp: list_ex_iff image_iff)
    then have "rows' = rows @ [r]" by (simp add: w(1) put_profile_def)
    then show ?thesis
      using assms(1, 2) no_profile [OF None] sub \<open>cp_id r = up_newId io\<close>
      by (auto simp: profiles_ok_def getProfile_def find_append_one split: option.splits)
  next
    case (Some q)
    then have q: "q \<in> set rows" "cp_subscription q = cp_subscription r" using found_profile sub by auto
    have qid: "cp_id q = cp_id r" by (simp add: id profile_values_def Let_def Some)
    let ?g = "\<lambda>p. if cp_id p = cp_id r then r else p"
    have rows': "rows' = map ?g rows" using q qid by (auto simp: w(1) put_profile_def list_ex_iff)
    have same: "p = q" if "p \<in> set rows" "cp_id p = cp_id r" for p
      using that q qid assms(1) unfolding profiles_ok_def by (metis distinct_map inj_onD)
    have keys: "map cp_id rows' = map cp_id rows" "map cp_subscription rows' = map cp_subscription rows"
      unfolding rows' by (rule same_keys, use same q in force)+
    have "find (\<lambda>p. cp_subscription p = s) (map ?g l) = find (\<lambda>p. cp_subscription p = s) l"
      if "s \<noteq> pu_subscription i" "set l \<subseteq> set rows" for s l
      using that by (induction l) (use same q sub in auto)
    then have "getProfile s rows' = getProfile s rows" if "s \<noteq> pu_subscription i" for s
      using that by (simp add: getProfile_def rows')
    moreover have "profiles_ok rows'" using assms(1) unfolding profiles_ok_def keys .
    moreover have "r \<in> set rows'" using q qid by (auto simp: rows' image_iff)
    ultimately show ?thesis by blast
  qed
  then show "profiles_ok rows'" "sub \<noteq> pu_subscription i \<Longrightarrow> getProfile sub rows' = getProfile sub rows" by blast+
  show "getProfile (pu_subscription i) rows' = Some r"
    using getProfile_unique [of rows' r] both sub by (simp add: profiles_ok_def)
qed

theorem profile_saved_witness:
  "cp_ocppId (fst (projr (fst (upsertProfile \<lparr>up_now = 9, up_newId = 2, up_write = None, up_mirror = Some ''down''\<rparr>
       \<lparr>pu_subscription = ''s1'', pu_preset = cap7kw, pu_windows = None, pu_maxWGlobal = None, pu_applyNow = None, pu_userId = Some ''u''\<rparr> [offpeak_row])))) = 2
   \<and> profiles_ok (snd (upsertProfile \<lparr>up_now = 9, up_newId = 2, up_write = None, up_mirror = Some ''down''\<rparr>
       \<lparr>pu_subscription = ''s1'', pu_preset = cap7kw, pu_windows = None, pu_maxWGlobal = None, pu_applyNow = None, pu_userId = Some ''u''\<rparr> [offpeak_row]))"
proof -
  let ?io = "\<lparr>up_now = 9, up_newId = 2, up_write = None, up_mirror = Some ''down''\<rparr>"
  let ?i = "\<lparr>pu_subscription = ''s1'', pu_preset = cap7kw, pu_windows = None, pu_maxWGlobal = None, pu_applyNow = None, pu_userId = Some ''u''\<rparr>"
  obtain r ok rows' where e: "upsertProfile ?io ?i [offpeak_row] = (Inr (r, ok), rows')"
    by (auto simp: upsertProfile_def Let_def)
  have row: "cp_id offpeak_row = 1" "cp_ocppId offpeak_row = 1" "getProfile ''s1'' [offpeak_row] = Some offpeak_row"
    by (simp_all add: offpeak_row_def profile_values_def Let_def getProfile_def)
  have p: "profiles_ok [offpeak_row]" "up_newId ?io \<notin> cp_id ` set [offpeak_row]" by (simp_all add: profiles_ok_def row)
  show ?thesis using profile_saved(1, 3) [OF p e] e row by simp
qed

end
