(* ===== verification/Webhooks.thy ===== *)
theory Webhooks
  imports LagoCache AutoStop TagSync
begin

text \<open>
  Lago's webhooks (\<open>src/services/lago-webhook-handler.service.ts\<close>, \<open>routes/api/webhook/lago.ts\<close>): the
  audit rows, the circuit breaker, the reactions by type and the replay. A call the source starts and does
  not await is an entry of \<open>hk_tasks\<close>, a notification handed to its service an entry of \<open>hk_notices\<close>
  (without its context). One dispatch runs to its end before the next begins. The outcomes of the queries
  and the clocks are fields of \<open>dispatch_io\<close>; an identifier that is no text counts as absent.
\<close>

section \<open>State\<close>

record breaker =
  bk_failures :: int
  bk_disabledUntil :: "int option"
  bk_hydrated :: bool
  bk_row :: "(int \<times> int option) option"

record webhook_row =
  wr_id :: int
  wr_webhookType :: string
  wr_objectType :: "string option"
  wr_lagoObjectId :: "string option"
  wr_externalCustomerId :: "string option"
  wr_externalSubscriptionId :: "string option"
  wr_rawPayload :: json
  wr_processedAt :: "int option"
  wr_processingError :: "string option"
  wr_notificationFired :: bool
  wr_replayedAt :: "int option"
  wr_replayedByUserId :: "string option"
  wr_replayedFromId :: "int option"

record admin_notice =
  an_kind :: string
  an_severity :: string
  an_title :: string
  an_body :: string
  an_sourceType :: string
  an_sourceId :: string

record invoice_event =
  ie_invoiceId :: string
  ie_status :: "string option"
  ie_paymentStatus :: "string option"
  ie_paymentOverdue :: "bool option"
  ie_webhookType :: string

datatype hook_task =
    Sync_tag user_mapping
  | Refresh_meta string "string option"
  | Stop_customer string stop_reason
  | Stop_subscription string stop_reason

record hook_user =
  hu_id :: string
  hu_email :: "string option"

record hook_state =
  hk_breaker :: breaker
  hk_events :: "webhook_row list"
  hk_nextId :: int
  hk_cache :: lago_cache
  hk_mappings :: "user_mapping list"
  hk_users :: "hook_user list"
  hk_notices :: "admin_notice list"
  hk_tasks :: "hook_task list"
  hk_bus :: "invoice_event list"

text \<open>
  A failing query of the mappings or users carries its message; \<open>dp_persist\<close> says which writes of the
  breaker's row succeed; \<open>dp_iso\<close> and \<open>dp_num\<close> print a time and a number.
\<close>

record dispatch_io =
  dp_hydrate :: bool
  dp_check :: int
  dp_failed :: int
  dp_persist :: "nat \<Rightarrow> bool"
  dp_mark :: "int option"
  dp_cache :: cache_io
  dp_flip :: "string option"
  dp_linked :: "string option"
  dp_backfill :: "string option"
  dp_iso :: "int \<Rightarrow> string"
  dp_num :: "rat \<Rightarrow> string"

definition notify :: "admin_notice \<Rightarrow> hook_state \<Rightarrow> hook_state" where
  "notify n s = s\<lparr>hk_notices := hk_notices s @ [n]\<rparr>"

definition spawn :: "hook_task list \<Rightarrow> hook_state \<Rightarrow> hook_state" where
  "spawn ts s = s\<lparr>hk_tasks := hk_tasks s @ ts\<rparr>"

section \<open>The circuit breaker\<close>

definition CIRCUIT_BREAKER_THRESHOLD :: int where "CIRCUIT_BREAKER_THRESHOLD = 5"

definition CIRCUIT_BREAKER_COOLDOWN_MS :: int where "CIRCUIT_BREAKER_COOLDOWN_MS = 300000"

definition hydrateBreakerStateOnce :: "bool \<Rightarrow> breaker \<Rightarrow> breaker" where
  "hydrateBreakerStateOnce ok b =
     (if bk_hydrated b then b
      else case (if ok then bk_row b else None) of
          None \<Rightarrow> b\<lparr>bk_hydrated := True\<rparr>
        | Some (n, u) \<Rightarrow> b\<lparr>bk_hydrated := True, bk_failures := n, bk_disabledUntil := u\<rparr>)"

definition persistBreakerState :: "bool \<Rightarrow> breaker \<Rightarrow> breaker" where
  "persistBreakerState ok b = (if ok then b\<lparr>bk_row := Some (bk_failures b, bk_disabledUntil b)\<rparr> else b)"

definition isDispatchDisabled :: "dispatch_io \<Rightarrow> breaker \<Rightarrow> bool \<times> breaker" where
  "isDispatchDisabled io b =
     (case bk_disabledUntil b of
        None \<Rightarrow> (False, b)
      | Some u \<Rightarrow> if dp_check io \<ge> u then (False, persistBreakerState (dp_persist io 0) (b\<lparr>bk_disabledUntil := None\<rparr>))
                  else (True, b))"

definition recordDispatchSuccess :: "dispatch_io \<Rightarrow> hook_state \<Rightarrow> hook_state" where
  "recordDispatchSuccess io s =
     (let b = hk_breaker s;
          wasDisabled = (bk_disabledUntil b \<noteq> None \<or> bk_failures b \<ge> CIRCUIT_BREAKER_THRESHOLD);
          s1 = s\<lparr>hk_breaker := persistBreakerState (dp_persist io 1) (b\<lparr>bk_failures := 0, bk_disabledUntil := None\<rparr>)\<rparr>
      in if wasDisabled
         then notify \<lparr>an_kind = ''lago_webhook_recovered'', an_severity = ''info'', an_title = ''Lago webhook dispatch resumed'',
                an_body = ''Dispatch recovered after '' @ show_int (bk_failures b) @ '' consecutive failures.'',
                an_sourceType = ''system'', an_sourceId = ''lago-webhook-dispatch''\<rparr> s1
         else s1)"

definition recordDispatchFailure :: "dispatch_io \<Rightarrow> hook_state \<Rightarrow> hook_state" where
  "recordDispatchFailure io s =
     (let b0 = hk_breaker s;
          b = persistBreakerState (dp_persist io 1) (b0\<lparr>bk_failures := bk_failures b0 + 1\<rparr>)
      in if bk_failures b \<ge> CIRCUIT_BREAKER_THRESHOLD \<and> bk_disabledUntil b = None
         then let until = dp_failed io + CIRCUIT_BREAKER_COOLDOWN_MS in
           notify \<lparr>an_kind = ''lago_webhook_dispatch_disabled'', an_severity = ''error'', an_title = ''Lago webhook dispatch disabled'',
             an_body = ''Dispatch failed '' @ show_int (bk_failures b) @ '' times in a row. Audit-only mode until ''
               @ dp_iso io until @ ''.'',
             an_sourceType = ''system'', an_sourceId = ''lago-webhook-dispatch''\<rparr>
             (s\<lparr>hk_breaker := persistBreakerState (dp_persist io 2) (b\<lparr>bk_disabledUntil := Some until\<rparr>)\<rparr>)
         else s\<lparr>hk_breaker := b\<rparr>)"

text \<open>The snapshot of the console: open, failures, end of the cooldown.\<close>

definition getCircuitBreakerState :: "int \<Rightarrow> breaker \<Rightarrow> bool \<times> int \<times> int \<times> int option \<times> int" where
  "getCircuitBreakerState now b =
     (case bk_disabledUntil b of None \<Rightarrow> False | Some u \<Rightarrow> now < u,
      bk_failures b, CIRCUIT_BREAKER_THRESHOLD, bk_disabledUntil b, CIRCUIT_BREAKER_COOLDOWN_MS)"

definition resetCircuitBreaker :: "bool \<Rightarrow> hook_state \<Rightarrow> hook_state" where
  "resetCircuitBreaker ok s =
     s\<lparr>hk_breaker := persistBreakerState ok ((hk_breaker s)\<lparr>bk_failures := 0, bk_disabledUntil := None\<rparr>)\<rparr>"

section \<open>Audit rows\<close>

definition first_object :: "json \<Rightarrow> string list \<Rightarrow> json option" where
  "first_object b keys = (case List.map_filter (\<lambda>k. as_obj (field b k)) keys of [] \<Rightarrow> None | x # _ \<Rightarrow> Some x)"

definition opt_field :: "json option \<Rightarrow> string \<Rightarrow> string option" where
  "opt_field x k = (case x of None \<Rightarrow> None | Some j \<Rightarrow> str_field j k)"

text \<open>Object type, Lago id, external customer and subscription of a body.\<close>

definition extractIdentifiers :: "json \<Rightarrow> string option \<times> string option \<times> string option \<times> string option" where
  "extractIdentifiers b =
     (let objectType = str_field b ''object_type'';
          inner = first_object b ((case objectType of Some t \<Rightarrow> [t] | None \<Rightarrow> [])
            @ [''invoice'', ''customer'', ''subscription'', ''wallet'', ''wallet_transaction'', ''alert'', ''credit_note'',
               ''payment'', ''payment_request'', ''fee'', ''event'']);
          cust = opt_field inner ''external_customer_id'';
          cust' = (if truthy cust then cust
                   else case inner of None \<Rightarrow> cust
                     | Some j \<Rightarrow> (case field j ''customer'' of
                         Some (JObj o') \<Rightarrow> str_field (JObj o') ''external_id''
                       | Some (JArr _) \<Rightarrow> None | Some JNull \<Rightarrow> None
                       | _ \<Rightarrow> cust));
          sub = either (opt_field inner ''external_subscription_id'') (opt_field inner ''subscription_external_id'');
          sub' = (if truthy sub then sub
                  else case inner of None \<Rightarrow> sub
                    | Some j \<Rightarrow> (case field j ''subscriptions'' of
                        Some (JArr (JObj o' # _)) \<Rightarrow> str_field (JObj o') ''external_id''
                      | Some (JArr (JArr _ # _)) \<Rightarrow> None
                      | _ \<Rightarrow> sub))
      in (objectType, opt_field inner ''lago_id'', cust', sub'))"

definition audit_row :: "int \<Rightarrow> json \<Rightarrow> webhook_row" where
  "audit_row i body =
     (case extractIdentifiers body of
        (objectType, lagoId, cust, sub) \<Rightarrow>
          \<lparr>wr_id = i, wr_webhookType = (case str_field body ''webhook_type'' of Some t \<Rightarrow> t | None \<Rightarrow> ''unknown''),
           wr_objectType = objectType, wr_lagoObjectId = lagoId, wr_externalCustomerId = cust,
           wr_externalSubscriptionId = sub, wr_rawPayload = (if body = JNull then JObj [] else body),
           wr_processedAt = None, wr_processingError = None, wr_notificationFired = False, wr_replayedAt = None,
           wr_replayedByUserId = None, wr_replayedFromId = None\<rparr>)"

text \<open>A failing insert throws (\<open>None\<close>), and so does the test for a key in a body that is a bare value.\<close>

definition bare_value :: "json \<Rightarrow> bool" where
  "bare_value body = (case body of JBool _ \<Rightarrow> True | JNum _ \<Rightarrow> True | JStr _ \<Rightarrow> True | _ \<Rightarrow> False)"

definition persistWebhookEvent :: "bool \<Rightarrow> json \<Rightarrow> hook_state \<Rightarrow> int option \<times> hook_state" where
  "persistWebhookEvent ok body s =
     (if bare_value body \<or> \<not> ok then (None, s)
      else (Some (hk_nextId s),
            s\<lparr>hk_nextId := hk_nextId s + 1, hk_events := hk_events s @ [audit_row (hk_nextId s) body]\<rparr>))"

definition markProcessed :: "dispatch_io \<Rightarrow> int \<Rightarrow> string option \<Rightarrow> bool \<Rightarrow> hook_state \<Rightarrow> hook_state" where
  "markProcessed io i err fired s =
     (case dp_mark io of
        None \<Rightarrow> s
      | Some now \<Rightarrow> s\<lparr>hk_events := map (\<lambda>r. if wr_id r = i
          then r\<lparr>wr_processedAt := Some now, wr_processingError := err, wr_notificationFired := fired\<rparr> else r) (hk_events s)\<rparr>)"

section \<open>Reading a payload\<close>

text \<open>\<open>Inl\<close>: the access to a first subscription that is null throws.\<close>

definition pickExternalSubscriptionId :: "json \<Rightarrow> string + string option" where
  "pickExternalSubscriptionId p =
     (case opt_field (field p ''subscription'') ''external_id'' of
        Some x \<Rightarrow> Inr (Some x)
      | None \<Rightarrow>
          (case field p ''subscriptions'' of
             Some (JArr (JNull # _)) \<Rightarrow> Inl ''Cannot read properties of null (reading 'external_id')''
           | Some (JArr (x # _)) \<Rightarrow>
               (case str_field x ''external_id'' of Some y \<Rightarrow> Inr (Some y) | None \<Rightarrow> Inr (str_field p ''external_subscription_id''))
           | _ \<Rightarrow> Inr (str_field p ''external_subscription_id'')))"

definition pickExternalCustomerId :: "json \<Rightarrow> string option" where
  "pickExternalCustomerId p =
     either (opt_field (field p ''wallet'') ''external_customer_id'')
    (either (opt_field (field p ''wallet_transaction'') ''external_customer_id'')
    (either (opt_field (field p ''customer'') ''external_id'')
    (either (opt_field (field p ''subscription'') ''external_customer_id'')
            (str_field p ''external_customer_id''))))"

definition pickEnforceStopFlag :: "json \<Rightarrow> bool" where
  "pickEnforceStopFlag p =
     (case field p ''alert'' of
        None \<Rightarrow> False
      | Some alert \<Rightarrow>
          field alert ''enforce_stop'' = Some (JBool True)
          \<or> (case field alert ''metadata'' of
               None \<Rightarrow> False
             | Some meta \<Rightarrow> field meta ''enforce_stop'' \<in> {Some (JBool True), Some (JStr ''true'')}))"

definition pickCustomer :: "json \<Rightarrow> json option" where
  "pickCustomer p = (case field p ''customer'' of Some JNull \<Rightarrow> None | x \<Rightarrow> x)"

section \<open>Reactions\<close>

definition webhook_type :: "json \<Rightarrow> string" where
  "webhook_type p = text_of p ''webhook_type''"

definition upsertWebhookIntoCache :: "dispatch_io \<Rightarrow> json \<Rightarrow> hook_state \<Rightarrow> hook_state" where
  "upsertWebhookIntoCache io p s =
     (let wt = webhook_type p; h = (if starts_with wt ''customer.'' then handleCustomerWebhook
          else if starts_with wt ''subscription.'' then handleSubscriptionWebhook
          else if starts_with wt ''plan.'' then handlePlanWebhook
          else if starts_with wt ''invoice.'' then handleInvoiceWebhook
          else if starts_with wt ''wallet.'' \<or> wt = ''wallet_transaction.created'' then handleWalletWebhook
          else (\<lambda>_ _ _ c. (None, c)))
      in s\<lparr>hk_cache := snd (h (dp_cache io) p wt (hk_cache s))\<rparr>)"

definition publish_invoice :: "json \<Rightarrow> hook_state \<Rightarrow> hook_state" where
  "publish_invoice p s =
     (if \<not> starts_with (webhook_type p) ''invoice.'' then s
      else case field p ''invoice'' of
        None \<Rightarrow> s
      | Some iv \<Rightarrow> (case str_field iv ''lago_id'' of
          None \<Rightarrow> s
        | Some i \<Rightarrow> s\<lparr>hk_bus := hk_bus s @
            [\<lparr>ie_invoiceId = i, ie_status = str_field iv ''status'', ie_paymentStatus = str_field iv ''payment_status'',
              ie_paymentOverdue = as_bool (field iv ''payment_overdue''), ie_webhookType = webhook_type p\<rparr>]\<rparr>))"

definition or_text :: "string option \<Rightarrow> string \<Rightarrow> string" where
  "or_text a b = (case a of Some x \<Rightarrow> x | None \<Rightarrow> b)"

definition alert_notice :: "dispatch_io \<Rightarrow> int \<Rightarrow> json \<Rightarrow> admin_notice" where
  "alert_notice io rowId a =
     \<lparr>an_kind = ''lago_alert_triggered'', an_severity = ''warn'',
      an_title = ''Lago alert triggered: '' @ or_text (str_field a ''code'') ''unknown'',
      an_body = ''Subscription '' @ or_text (str_field a ''subscription_external_id'') ''(unknown)''
        @ '' crossed a threshold (current=''
        @ (case field a ''current_value'' of Some (JStr v) \<Rightarrow> v | Some (JNum x) \<Rightarrow> dp_num io x | _ \<Rightarrow> ''?'') @ '').'',
      an_sourceType = ''alert'', an_sourceId = or_text (str_field a ''lago_id'') (show_int rowId)\<rparr>"

definition payment_failed_notice :: "json \<Rightarrow> admin_notice" where
  "payment_failed_notice iv =
     \<lparr>an_kind = ''lago_invoice_payment_failed'', an_severity = ''warn'',
      an_title = ''Invoice payment failed: '' @ or_text (str_field iv ''number'') (id_of iv),
      an_body = ''Invoice '' @ id_of iv @ '' payment status transitioned to 'failed'.'',
      an_sourceType = ''invoice'', an_sourceId = id_of iv\<rparr>"

text \<open>The part of a type behind its dot; the kind replaces the dot by an underscore.\<close>

definition after_dot :: "string \<Rightarrow> string" where
  "after_dot t = drop 1 (dropWhile (\<lambda>c. c \<noteq> CHR ''.'') t)"

definition lifecycle_notice :: "string \<Rightarrow> json \<Rightarrow> admin_notice" where
  "lifecycle_notice wt iv =
     \<lparr>an_kind = ''lago_'' @ takeWhile (\<lambda>c. c \<noteq> CHR ''.'') wt @ ''_'' @ after_dot wt, an_severity = ''info'',
      an_title = ''Invoice '' @ after_dot wt @ '': '' @ or_text (str_field iv ''number'') (id_of iv),
      an_body = ''Invoice '' @ id_of iv @ '' ('' @ or_text (str_field iv ''status'') ''unknown status'' @ '') for customer ''
        @ or_text (opt_field (field iv ''customer'') ''external_id'') ''(unknown)'' @ ''.'',
      an_sourceType = ''invoice'', an_sourceId = id_of iv\<rparr>"

definition top_up_notice :: "int \<Rightarrow> json \<Rightarrow> admin_notice" where
  "top_up_notice rowId t =
     \<lparr>an_kind = ''lago_wallet_transaction_payment_failure'', an_severity = ''warn'', an_title = ''Wallet top-up payment failed'',
      an_body = ''Wallet transaction '' @ or_text (str_field t ''lago_id'') ''(unknown)'' @ '' failed for customer ''
        @ or_text (str_field t ''external_customer_id'') ''(unknown)'' @ ''.'',
      an_sourceType = ''wallet_transaction'', an_sourceId = or_text (str_field t ''lago_id'') (show_int rowId)\<rparr>"

text \<open>\<open>handleSubscriptionStateChange\<close>: the flip of the rows, then the calls it starts.\<close>

definition flips :: "string \<Rightarrow> bool \<Rightarrow> user_mapping \<Rightarrow> bool" where
  "flips sub target m \<longleftrightarrow> lagoSubscriptionExternalId m = Some sub \<and> isActive m = (\<not> target)"

definition show_bool :: "bool \<Rightarrow> string" where
  "show_bool b = (if b then ''true'' else ''false'')"

definition lifecycle_kind :: "bool \<Rightarrow> string" where
  "lifecycle_kind target = (if target then ''lago_subscription_started'' else ''lago_subscription_terminated'')"

definition flip_notice :: "string \<Rightarrow> string \<Rightarrow> bool \<Rightarrow> nat \<Rightarrow> admin_notice" where
  "flip_notice wt sub target n =
     (if n = 0 then
        \<lparr>an_kind = lifecycle_kind target, an_severity = ''info'', an_title = ''Lago '' @ wt,
         an_body = ''Subscription '' @ sub @ '' fired '' @ wt @ ''; no mapping rows changed (target isActive='' @ show_bool target @ '').'',
         an_sourceType = ''subscription'', an_sourceId = sub\<rparr>
      else
        \<lparr>an_kind = lifecycle_kind target, an_severity = (if target then ''info'' else ''warn''),
         an_title = (if target then ''Subscription started: '' else ''Subscription terminated: '') @ sub,
         an_body = (if target then ''Reactivated '' else ''Soft-deactivated '') @ show_nat n @ '' mapping(s) for subscription '' @ sub @ ''.'',
         an_sourceType = ''subscription'', an_sourceId = sub\<rparr>)"

definition flip_tasks :: "string \<Rightarrow> string \<Rightarrow> int \<Rightarrow> bool \<Rightarrow> user_mapping list \<Rightarrow> hook_task list" where
  "flip_tasks wt sub rowId target updated =
     map Sync_tag updated
     @ map (\<lambda>c. Refresh_meta c None) (js_uniq (map the (filter truthy (map lagoCustomerExternalId updated))))
     @ (if target then []
        else [Stop_subscription sub
          \<lparr>rs_code = ''subscription_terminated'', rs_detail = ''Lago '' @ wt @ '' for subscription '' @ sub,
           rs_webhookEventId = Some rowId\<rparr>])"

definition handleSubscriptionStateChange ::
  "dispatch_io \<Rightarrow> string \<Rightarrow> string \<Rightarrow> int \<Rightarrow> bool \<Rightarrow> hook_state \<Rightarrow> (string + unit) \<times> hook_state"
where
  "handleSubscriptionStateChange io sub wt rowId target s =
     (case dp_flip io of
        Some m \<Rightarrow> (Inl m, s)
      | None \<Rightarrow>
          let updated = map (\<lambda>m. m\<lparr>isActive := target\<rparr>) (filter (flips sub target) (hk_mappings s));
              s1 = s\<lparr>hk_mappings := map (\<lambda>m. if flips sub target m then m\<lparr>isActive := target\<rparr> else m) (hk_mappings s)\<rparr>;
              n = flip_notice wt sub target (length updated)
          in (Inr (), if updated = [] then notify n s1 else notify n (spawn (flip_tasks wt sub rowId target updated) s1)))"

definition handleCustomerUpdated :: "dispatch_io \<Rightarrow> string \<Rightarrow> string option \<Rightarrow> hook_state \<Rightarrow> (string + bool) \<times> hook_state" where
  "handleCustomerUpdated io ext lagoEmail s =
     (case dp_linked io of
        Some m \<Rightarrow> (Inl m, s)
      | None \<Rightarrow>
          (case find (\<lambda>m. lagoCustomerExternalId m = Some ext) (hk_mappings s) of
             None \<Rightarrow> (Inr False, s)
           | Some row \<Rightarrow>
               if \<not> truthy (userId row) then (Inr False, s)
               else
                 let uid = the (userId row);
                     email = (case find (\<lambda>u. hu_id u = uid) (hk_users s) of None \<Rightarrow> None | Some u \<Rightarrow> hu_email u) in
                 if \<not> truthy email \<and> truthy lagoEmail then
                   (case dp_backfill io of
                      Some m \<Rightarrow> (Inl m, s)
                    | None \<Rightarrow> (Inr True, notify
                        \<lparr>an_kind = ''lago_email_backfilled'', an_severity = ''info'', an_title = ''Customer email synced from Lago'',
                         an_body = ''Local user '' @ uid @ '' had no email; backfilled '' @ [CHR 0x22] @ the lagoEmail @ [CHR 0x22]
                           @ '' from Lago customer '' @ ext @ ''.'',
                         an_sourceType = ''subscription'', an_sourceId = ext\<rparr>
                        (s\<lparr>hk_users := map (\<lambda>u. if hu_id u = uid then u\<lparr>hu_email := lagoEmail\<rparr> else u) (hk_users s)\<rparr>)))
                 else if \<not> truthy email \<or> \<not> truthy lagoEmail then (Inr False, s)
                 else if to_lower (the email) = to_lower (the lagoEmail) then (Inr False, s)
                 else (Inr True, notify
                     \<lparr>an_kind = ''lago_email_drift'', an_severity = ''warn'', an_title = ''Lago/portal email mismatch'',
                      an_body = ''Lago customer '' @ ext @ '' email is '' @ [CHR 0x22] @ the lagoEmail @ [CHR 0x22]
                        @ '', portal email is '' @ [CHR 0x22] @ the email @ [CHR 0x22] @ ''. Update one or both manually.'',
                      an_sourceType = ''subscription'', an_sourceId = ext\<rparr> s)))"

text \<open>\<open>reactTo\<close>: \<open>Inr\<close> says whether a notification was fired, \<open>Inl\<close> is the error that ends the dispatch.\<close>

definition react_subscription :: "dispatch_io \<Rightarrow> json \<Rightarrow> int \<Rightarrow> bool \<Rightarrow> hook_state \<Rightarrow> (string + bool) \<times> hook_state" where
  "react_subscription io p rowId target s =
     (case pickExternalSubscriptionId p of
        Inl m \<Rightarrow> (Inl m, s)
      | Inr sub \<Rightarrow>
          if \<not> truthy sub then (Inr False, s)
          else (case handleSubscriptionStateChange io (the sub) (webhook_type p) rowId target s of
              (Inl m, s1) \<Rightarrow> (Inl m, s1)
            | (Inr _, s1) \<Rightarrow> (Inr True, s1)))"

definition react_threshold :: "json \<Rightarrow> int \<Rightarrow> hook_state \<Rightarrow> (string + bool) \<times> hook_state" where
  "react_threshold p rowId s =
     (case pickExternalSubscriptionId p of
        Inl m \<Rightarrow> (Inl m, s)
      | Inr sub \<Rightarrow>
          if \<not> truthy sub \<or> \<not> pickEnforceStopFlag p then (Inr False, s)
          else (Inr True, spawn [Stop_subscription (the sub)
              \<lparr>rs_code = ''usage_cap_exceeded'',
               rs_detail = ''Lago usage_threshold_reached (enforce=true) for subscription '' @ the sub,
               rs_webhookEventId = Some rowId\<rparr>] s))"

definition react_depleted :: "json \<Rightarrow> int \<Rightarrow> hook_state \<Rightarrow> (string + bool) \<times> hook_state" where
  "react_depleted p rowId s =
     (let cust = pickExternalCustomerId p in
      if \<not> truthy cust then (Inr False, s)
      else (Inr True, spawn [Stop_customer (the cust)
          \<lparr>rs_code = ''wallet_depleted'', rs_detail = ''Lago wallet depleted_ongoing_balance for customer '' @ the cust,
           rs_webhookEventId = Some rowId\<rparr>] s))"

definition react_customer :: "dispatch_io \<Rightarrow> json \<Rightarrow> bool \<Rightarrow> hook_state \<Rightarrow> (string + bool) \<times> hook_state" where
  "react_customer io p created s =
     (case pickCustomer p of
        None \<Rightarrow> (Inr False, s)
      | Some c \<Rightarrow>
          let ext = str_field c ''external_id'' in
          if \<not> truthy ext then (Inr False, s)
          else if created then (Inr False, spawn [Refresh_meta (the ext) (Some (or_text (str_field c ''name'') (the ext)))] s)
          else (case handleCustomerUpdated io (the ext) (str_field c ''email'') s of
              (Inl m, s1) \<Rightarrow> (Inl m, s1)
            | (Inr _, s1) \<Rightarrow> (Inr True, spawn [Refresh_meta (the ext) None] s1)))"

definition react_invoice :: "json \<Rightarrow> hook_state \<Rightarrow> (string + bool) \<times> hook_state" where
  "react_invoice p s =
     (let wt = webhook_type p in
      case field p ''invoice'' of
        None \<Rightarrow> (Inr False, s)
      | Some iv \<Rightarrow>
          if wt = ''invoice.payment_status_updated'' then
            if str_field iv ''payment_status'' = Some ''failed'' then (Inr True, notify (payment_failed_notice iv) s) else (Inr False, s)
          else (Inr True, notify (lifecycle_notice wt iv) s))"

definition reactTo :: "dispatch_io \<Rightarrow> json \<Rightarrow> int \<Rightarrow> hook_state \<Rightarrow> (string + bool) \<times> hook_state" where
  "reactTo io p rowId s0 =
     (let wt = webhook_type p; s = publish_invoice p (upsertWebhookIntoCache io p s0) in
      if wt = ''alert.triggered'' then
        (Inr True, notify (alert_notice io rowId (case field p ''alert'' of Some a \<Rightarrow> a | None \<Rightarrow> JNull)) s)
      else if wt \<in> {''invoice.payment_status_updated'', ''invoice.created'', ''invoice.drafted'', ''invoice.generated''} then
        react_invoice p s
      else if wt = ''wallet_transaction.payment_failure'' then
        (Inr True, notify (top_up_notice rowId (case field p ''wallet_transaction'' of Some t \<Rightarrow> t | None \<Rightarrow> JNull)) s)
      else if wt = ''wallet.depleted_ongoing_balance'' then react_depleted p rowId s
      else if wt = ''subscription.usage_threshold_reached'' then react_threshold p rowId s
      else if wt \<in> {''subscription.terminated'', ''subscription.terminated_and_downgraded''} then
        react_subscription io p rowId False s
      else if wt \<in> {''subscription.started'', ''subscription.created''} then react_subscription io p rowId True s
      else if wt = ''customer.created'' then react_customer io p True s
      else if wt = ''customer.updated'' then react_customer io p False s
      else (Inr False, s))"

section \<open>Dispatch and replay\<close>

definition dispatch :: "dispatch_io \<Rightarrow> json \<Rightarrow> int \<Rightarrow> hook_state \<Rightarrow> hook_state" where
  "dispatch io body rowId s =
     (case isDispatchDisabled io (hydrateBreakerStateOnce (dp_hydrate io) (hk_breaker s)) of
        (True, b) \<Rightarrow> markProcessed io rowId (Some ''circuit_breaker_open'') False (s\<lparr>hk_breaker := b\<rparr>)
      | (False, b) \<Rightarrow>
          let s1 = s\<lparr>hk_breaker := b\<rparr> in
          (case (case parse_webhook body of None \<Rightarrow> (Inr False, s1) | Some p \<Rightarrow> reactTo io p rowId s1) of
             (Inr fired, s2) \<Rightarrow> recordDispatchSuccess io (markProcessed io rowId None fired s2)
           | (Inl m, s2) \<Rightarrow> recordDispatchFailure io (markProcessed io rowId (Some m) False s2)))"

text \<open>
  The outcomes around a replay: the failures of the load, of the insert and of the final query, and the
  time of the clone. The result is \<open>success\<close>, the new id and the error.
\<close>

record replay_io =
  rp_load :: "string option"
  rp_clone :: "string option"
  rp_after :: "string option"
  rp_now :: int
  rp_dispatch :: dispatch_io

definition clone_row :: "int \<Rightarrow> int \<Rightarrow> string \<Rightarrow> webhook_row \<Rightarrow> webhook_row" where
  "clone_row i now user r =
     \<lparr>wr_id = i, wr_webhookType = wr_webhookType r, wr_objectType = wr_objectType r, wr_lagoObjectId = wr_lagoObjectId r,
      wr_externalCustomerId = wr_externalCustomerId r, wr_externalSubscriptionId = wr_externalSubscriptionId r,
      wr_rawPayload = wr_rawPayload r, wr_processedAt = None, wr_processingError = None, wr_notificationFired = False,
      wr_replayedAt = Some now, wr_replayedByUserId = Some user, wr_replayedFromId = Some (wr_id r)\<rparr>"

definition replay :: "replay_io \<Rightarrow> int \<Rightarrow> string \<Rightarrow> hook_state \<Rightarrow> (bool \<times> int \<times> string option) \<times> hook_state" where
  "replay io eventId user s =
     (case rp_load io of
        Some m \<Rightarrow> ((False, 0, Some (''Load failed: '' @ m)), s)
      | None \<Rightarrow>
          (case find (\<lambda>r. wr_id r = eventId) (hk_events s) of
             None \<Rightarrow> ((False, 0, Some (''Webhook event '' @ show_int eventId @ '' not found'')), s)
           | Some source \<Rightarrow>
               (case rp_clone io of
                  Some m \<Rightarrow> ((False, 0, Some (''Clone failed: '' @ m)), s)
                | None \<Rightarrow>
                    let newId = hk_nextId s;
                        s1 = s\<lparr>hk_nextId := newId + 1, hk_events := hk_events s @ [clone_row newId (rp_now io) user source]\<rparr>;
                        s2 = dispatch (rp_dispatch io) (wr_rawPayload source) newId s1;
                        after = (if rp_after io \<noteq> None then None
                                 else map_option wr_processingError (find (\<lambda>r. wr_id r = newId) (hk_events s2)))
                    in (case after of
                          Some (Some (c # cs)) \<Rightarrow> ((False, newId, Some (c # cs)), s2)
                        | _ \<Rightarrow> ((True, newId, None), s2)))))"

text \<open>\<open>bulk-replay\<close>: one after the other; the number of successes and failures.\<close>

fun bulk_replay :: "(int \<times> replay_io) list \<Rightarrow> string \<Rightarrow> hook_state \<Rightarrow> (int \<times> bool \<times> int \<times> string option) list \<times> hook_state" where
  "bulk_replay [] user s = ([], s)"
| "bulk_replay ((i, io) # is) user s =
     (case replay io i user s of
        (r, s1) \<Rightarrow> (case bulk_replay is user s1 of (rs, s2) \<Rightarrow> ((i, r) # rs, s2)))"

section \<open>The endpoint\<close>

text \<open>
  The signature of a webhook is a JWT. What the platform supplies: the algorithm the header names (\<open>None\<close>:
  it does not decode), whether the signature part is base64, the import of a key, and the check of a
  signature over the text before the last dot.
\<close>

record 'k jwt_api =
  jw_alg :: "string \<Rightarrow> string option"
  jw_decodes :: "string \<Rightarrow> bool"
  jw_import :: "string \<Rightarrow> 'k option"
  jw_verify :: "'k \<Rightarrow> string \<Rightarrow> string \<Rightarrow> bool option"

fun split_dots :: "string \<Rightarrow> string list" where
  "split_dots [] = [[]]"
| "split_dots (c # cs) =
     (if c = CHR ''.'' then [] # split_dots cs
      else case split_dots cs of [] \<Rightarrow> [[c]] | p # ps \<Rightarrow> (c # p) # ps)"

text \<open>\<open>verifyLagoSignature\<close>; \<open>None\<close>: it throws, on a signature part that is no base64.\<close>

definition verifyLagoSignature :: "'k jwt_api \<Rightarrow> string \<Rightarrow> string \<Rightarrow> bool option" where
  "verifyLagoSignature api jwt pem =
     (case split_dots jwt of
        [h, p, sig] \<Rightarrow>
          if jw_alg api h \<noteq> Some ''RS256'' then Some False
          else if \<not> jw_decodes api sig then None
          else (case jw_import api pem of
              None \<Rightarrow> Some False
            | Some k \<Rightarrow> (case jw_verify api k sig (h @ ''.'' @ p) of None \<Rightarrow> Some False | Some b \<Rightarrow> Some b))
      | _ \<Rightarrow> Some False)"

text \<open>The cached key with the time of its fetch, the clock and the answer of Lago.\<close>

definition PUBLIC_KEY_TTL_MS :: int where "PUBLIC_KEY_TTL_MS = 300000"

definition getPublicKey :: "bool \<Rightarrow> int \<Rightarrow> string option \<Rightarrow> (string \<times> int) option \<Rightarrow> string option \<times> (string \<times> int) option" where
  "getPublicKey forced now fetched cached =
     (case cached of
        Some (pem, fetchedAt) \<Rightarrow>
          if \<not> forced \<and> now - fetchedAt < PUBLIC_KEY_TTL_MS then (Some pem, cached)
          else (case fetched of None \<Rightarrow> (None, cached) | Some k \<Rightarrow> (Some k, Some (k, now)))
      | None \<Rightarrow> (case fetched of None \<Rightarrow> (None, cached) | Some k \<Rightarrow> (Some k, Some (k, now))))"

record hook_request =
  hr_body :: "string option"
  hr_signature :: "string option"

record hook_http =
  hh_now :: int
  hh_key :: "string option"
  hh_now2 :: int
  hh_key2 :: "string option"
  hh_insert :: bool
  hh_dispatch :: dispatch_io

datatype hook_reply = Hook_reply int string | Hook_received int | Hook_throws

definition check_signature ::
  "'k jwt_api \<Rightarrow> hook_http \<Rightarrow> string \<Rightarrow> (string \<times> int) option \<Rightarrow> bool option \<times> (string \<times> int) option"
where
  "check_signature api io sig cached =
     (case getPublicKey False (hh_now io) (hh_key io) cached of
        (pem, cached1) \<Rightarrow>
          (case (case pem of None \<Rightarrow> Some False | Some k \<Rightarrow> if k = [] then Some False else verifyLagoSignature api sig k) of
             None \<Rightarrow> (None, cached1)
           | Some True \<Rightarrow> (Some True, cached1)
           | Some False \<Rightarrow>
               (case getPublicKey True (hh_now2 io) (hh_key2 io) cached1 of
                  (pem2, cached2) \<Rightarrow>
                    ((case pem2 of None \<Rightarrow> Some False | Some k \<Rightarrow> if k = [] then Some False else verifyLagoSignature api sig k),
                     cached2))))"

definition webhook_POST ::
  "'k jwt_api \<Rightarrow> (string \<Rightarrow> json option) \<Rightarrow> hook_http \<Rightarrow> hook_request \<Rightarrow> (string \<times> int) option \<times> hook_state
     \<Rightarrow> hook_reply \<times> (string \<times> int) option \<times> hook_state"
where
  "webhook_POST api parse_json io r w =
     (case w of (cached, s) \<Rightarrow>
     (case hr_body r of
        None \<Rightarrow> (Hook_reply 200 ''body_read_failed'', w)
      | Some raw \<Rightarrow>
          if \<not> truthy (hr_signature r) then (Hook_reply 401 ''missing_signature'', w)
          else (case check_signature api io (the (hr_signature r)) cached of
              (None, cached1) \<Rightarrow> (Hook_throws, cached1, s)
            | (Some False, cached1) \<Rightarrow> (Hook_reply 401 ''invalid_signature'', cached1, s)
            | (Some True, cached1) \<Rightarrow>
                (case (if raw = [] then Some (JObj []) else parse_json raw) of
                   None \<Rightarrow> (Hook_reply 200 ''invalid_json'', cached1, s)
                 | Some body \<Rightarrow>
                     (case persistWebhookEvent (hh_insert io) body s of
                        (None, s1) \<Rightarrow> (Hook_reply 200 ''persist_failed'', cached1, s1)
                      | (Some i, s1) \<Rightarrow> (Hook_received i, cached1, dispatch (hh_dispatch io) body i s1))))))"

section \<open>What a reaction leaves alone\<close>

definition hook_core :: "hook_state \<Rightarrow> breaker \<times> webhook_row list \<times> int" where
  "hook_core s = (hk_breaker s, hk_events s, hk_nextId s)"

named_theorems hook_frame "operations that leave the breaker and the audit rows alone"

lemma core_notify [hook_frame]: "hook_core (notify n s) = hook_core s"
  and core_spawn [hook_frame]: "hook_core (spawn ts s) = hook_core s"
  and core_cache [hook_frame]: "hook_core (upsertWebhookIntoCache io p s) = hook_core s"
  and core_publish [hook_frame]: "hook_core (publish_invoice p s) = hook_core s"
  by (auto simp: hook_core_def notify_def spawn_def upsertWebhookIntoCache_def publish_invoice_def Let_def split: option.splits)

lemma core_flip [hook_frame]: "hook_core (snd (handleSubscriptionStateChange io sub wt i target s)) = hook_core s"
  by (auto simp: handleSubscriptionStateChange_def Let_def notify_def spawn_def hook_core_def split: option.splits)

lemma core_updated [hook_frame]: "hook_core (snd (handleCustomerUpdated io ext email s)) = hook_core s"
  by (auto simp: handleCustomerUpdated_def Let_def notify_def hook_core_def split: option.splits)

lemma core_subscription [hook_frame]: "hook_core (snd (react_subscription io p i target s)) = hook_core s"
proof -
  have "hook_core s1 = hook_core s" if "handleSubscriptionStateChange io sub wt i target s = (r, s1)" for sub wt r s1
    using that core_flip by (metis snd_conv)
  then show ?thesis by (auto simp: react_subscription_def split: sum.splits prod.splits)
qed

lemma core_threshold [hook_frame]: "hook_core (snd (react_threshold p i s)) = hook_core s"
  by (auto simp: react_threshold_def hook_frame split: sum.splits)

lemma core_depleted [hook_frame]: "hook_core (snd (react_depleted p i s)) = hook_core s"
  by (auto simp: react_depleted_def Let_def hook_frame)

lemma core_customer [hook_frame]: "hook_core (snd (react_customer io p created s)) = hook_core s"
proof -
  have "hook_core s1 = hook_core s" if "handleCustomerUpdated io ext email s = (r, s1)" for ext email r s1
    using that core_updated by (metis snd_conv)
  then show ?thesis by (auto simp: react_customer_def Let_def hook_frame split: option.splits sum.splits prod.splits)
qed

lemma core_invoice [hook_frame]: "hook_core (snd (react_invoice p s)) = hook_core s"
  by (auto simp: react_invoice_def Let_def hook_frame split: option.splits)

lemma core_reactTo: "hook_core (snd (reactTo io p i s)) = hook_core s"
  by (simp add: reactTo_def Let_def hook_frame)

text \<open>The attempt of a dispatch: parsing and reaction.\<close>

definition attempt :: "dispatch_io \<Rightarrow> json \<Rightarrow> int \<Rightarrow> hook_state \<Rightarrow> (string + bool) \<times> hook_state" where
  "attempt io body rowId s = (case parse_webhook body of None \<Rightarrow> (Inr False, s) | Some p \<Rightarrow> reactTo io p rowId s)"

lemma core_attempt: "attempt io body i s = (r, s') \<Longrightarrow> hook_core s' = hook_core s"
  using core_reactTo by (auto simp: attempt_def split: option.splits) (metis snd_conv)+

lemma dispatch_attempt:
  "dispatch io body rowId s =
     (case isDispatchDisabled io (hydrateBreakerStateOnce (dp_hydrate io) (hk_breaker s)) of
        (True, b) \<Rightarrow> markProcessed io rowId (Some ''circuit_breaker_open'') False (s\<lparr>hk_breaker := b\<rparr>)
      | (False, b) \<Rightarrow>
          (case attempt io body rowId (s\<lparr>hk_breaker := b\<rparr>) of
             (Inr fired, s2) \<Rightarrow> recordDispatchSuccess io (markProcessed io rowId None fired s2)
           | (Inl m, s2) \<Rightarrow> recordDispatchFailure io (markProcessed io rowId (Some m) False s2)))"
  unfolding dispatch_def attempt_def Let_def by (rule refl)

section \<open>The breaker as a machine of three phases\<close>

datatype phase = Closed int | Open int | Probing

definition phase :: "breaker \<Rightarrow> phase" where
  "phase b = (case bk_disabledUntil b of
     Some u \<Rightarrow> Open u
   | None \<Rightarrow> if bk_failures b \<ge> CIRCUIT_BREAKER_THRESHOLD then Probing else Closed (bk_failures b))"

text \<open>One dispatch at time \<open>t\<close> that fails or not, with the clock at \<open>t'\<close> when the failure is recorded.\<close>

definition try_phase :: "int \<Rightarrow> bool \<Rightarrow> phase \<Rightarrow> phase" where
  "try_phase t' failed ph =
     (if \<not> failed then Closed 0
      else case ph of
          Closed n \<Rightarrow> if n + 1 < CIRCUIT_BREAKER_THRESHOLD then Closed (n + 1) else Open (t' + CIRCUIT_BREAKER_COOLDOWN_MS)
        | _ \<Rightarrow> Open (t' + CIRCUIT_BREAKER_COOLDOWN_MS))"

definition phase_step :: "int \<Rightarrow> int \<Rightarrow> bool \<Rightarrow> phase \<Rightarrow> phase" where
  "phase_step t t' failed ph =
     (case ph of
        Open u \<Rightarrow> if t < u then Open u else try_phase t' failed Probing
      | _ \<Rightarrow> try_phase t' failed ph)"

text \<open>Open only after the threshold was reached.\<close>

definition breaker_ok :: "breaker \<Rightarrow> bool" where
  "breaker_ok b \<longleftrightarrow> 0 \<le> bk_failures b \<and> (bk_disabledUntil b \<noteq> None \<longrightarrow> CIRCUIT_BREAKER_THRESHOLD \<le> bk_failures b)"

lemma persist_phase [simp]:
  "bk_failures (persistBreakerState ok b) = bk_failures b" "bk_disabledUntil (persistBreakerState ok b) = bk_disabledUntil b"
  "bk_hydrated (persistBreakerState ok b) = bk_hydrated b"
  by (simp_all add: persistBreakerState_def)

lemma core_mark: "hk_breaker (markProcessed io i err fired s) = hk_breaker s"
  by (simp add: markProcessed_def split: option.split)

lemma success_breaker:
  "phase (hk_breaker (recordDispatchSuccess io s)) = Closed 0" "breaker_ok (hk_breaker (recordDispatchSuccess io s))"
  "bk_hydrated (hk_breaker (recordDispatchSuccess io s)) = bk_hydrated (hk_breaker s)"
  by (auto simp: recordDispatchSuccess_def Let_def notify_def phase_def CIRCUIT_BREAKER_THRESHOLD_def breaker_ok_def)

lemma failure_breaker:
  assumes "breaker_ok (hk_breaker s)" "bk_disabledUntil (hk_breaker s) = None"
  shows "phase (hk_breaker (recordDispatchFailure io s)) = try_phase (dp_failed io) True (phase (hk_breaker s))"
    "breaker_ok (hk_breaker (recordDispatchFailure io s))"
    "bk_hydrated (hk_breaker (recordDispatchFailure io s)) = bk_hydrated (hk_breaker s)"
  using assms
  by (auto simp: recordDispatchFailure_def Let_def notify_def phase_def try_phase_def CIRCUIT_BREAKER_THRESHOLD_def breaker_ok_def)

definition dispatch_throws :: "dispatch_io \<Rightarrow> json \<Rightarrow> int \<Rightarrow> hook_state \<Rightarrow> bool" where
  "dispatch_throws io body rowId s =
     isl (fst (attempt io body rowId
       (s\<lparr>hk_breaker := snd (isDispatchDisabled io (hydrateBreakerStateOnce (dp_hydrate io) (hk_breaker s)))\<rparr>)))"

lemma tried_phase:
  assumes "attempt io body i (s\<lparr>hk_breaker := b\<rparr>) = (r, s2)" "breaker_ok b" "bk_disabledUntil b = None"
  defines "s' \<equiv> (case r of Inr fired \<Rightarrow> recordDispatchSuccess io (markProcessed io i None fired s2)
             | Inl m \<Rightarrow> recordDispatchFailure io (markProcessed io i (Some m) False s2))"
  shows "phase (hk_breaker s') = try_phase (dp_failed io) (isl r) (phase b)" "breaker_ok (hk_breaker s')"
    "bk_hydrated (hk_breaker s') = bk_hydrated b"
proof -
  have b: "hk_breaker s2 = b" using core_attempt [OF assms(1)] by (simp add: hook_core_def)
  have "phase (hk_breaker s') = try_phase (dp_failed io) (isl r) (phase b) \<and> breaker_ok (hk_breaker s')
    \<and> bk_hydrated (hk_breaker s') = bk_hydrated b"
  proof (cases r)
    case (Inl m)
    have m: "hk_breaker (markProcessed io i (Some m) False s2) = b" by (simp add: core_mark b)
    show ?thesis using failure_breaker [of "markProcessed io i (Some m) False s2" io] assms(2, 3) by (simp add: s'_def Inl m)
  next
    case (Inr fired)
    have m: "hk_breaker (markProcessed io i None fired s2) = b" by (simp add: core_mark b)
    show ?thesis using success_breaker [of io "markProcessed io i None fired s2"] by (simp add: s'_def Inr m try_phase_def)
  qed
  then show "phase (hk_breaker s') = try_phase (dp_failed io) (isl r) (phase b)" "breaker_ok (hk_breaker s')"
    "bk_hydrated (hk_breaker s') = bk_hydrated b" by simp_all
qed

lemma disabled_closed:
  assumes "breaker_ok b" "isDispatchDisabled io b = (False, b')"
  shows "bk_disabledUntil b' = None" "bk_failures b' = bk_failures b" "bk_hydrated b' = bk_hydrated b" "breaker_ok b'"
    "phase b = Open u \<Longrightarrow> u \<le> dp_check io \<and> phase b' = Probing" "(\<forall>u. phase b \<noteq> Open u) \<Longrightarrow> phase b' = phase b"
  using assms by (auto simp: isDispatchDisabled_def breaker_ok_def phase_def split: option.splits if_splits)

lemma disabled_open:
  "isDispatchDisabled io b = (True, b') \<longleftrightarrow> b' = b \<and> (\<exists>u. bk_disabledUntil b = Some u \<and> dp_check io < u)"
  by (auto simp: isDispatchDisabled_def split: option.splits)

lemma hydrated_id [simp]: "bk_hydrated b \<Longrightarrow> hydrateBreakerStateOnce ok b = b"
  by (simp add: hydrateBreakerStateOnce_def)

text \<open>
  C9. The counters of the webhook handler implement a breaker of three phases: closed with a count of failures,
  open until a time, and probing once that time has passed. Each dispatch is one step of that machine, an error
  counts as a failure, five in a row open it for five minutes, one failed probe opens it again, and any
  success closes it; the breaker is never open below the threshold.
\<close>
theorem breaker_refines:
  assumes "bk_hydrated (hk_breaker s)" "breaker_ok (hk_breaker s)"
  shows "phase (hk_breaker (dispatch io body i s))
      = phase_step (dp_check io) (dp_failed io) (dispatch_throws io body i s) (phase (hk_breaker s))
    \<and> breaker_ok (hk_breaker (dispatch io body i s)) \<and> bk_hydrated (hk_breaker (dispatch io body i s))"
proof -
  let ?b = "hk_breaker s" and ?s' = "dispatch io body i s"
  obtain off b where d: "isDispatchDisabled io ?b = (off, b)" by fastforce
  show ?thesis
  proof (cases off)
    case True
    then have "isDispatchDisabled io ?b = (True, b)" using d by simp
    then have open': "b = ?b" "\<exists>u. bk_disabledUntil ?b = Some u \<and> dp_check io < u" by (simp_all add: disabled_open)
    have "?s' = markProcessed io i (Some ''circuit_breaker_open'') False (s\<lparr>hk_breaker := b\<rparr>)"
      unfolding dispatch_attempt hydrated_id [OF assms(1)] d using True by (simp only: prod.case bool.case simp_thms if_True)
    then have b: "hk_breaker ?s' = ?b" using open'(1) by (simp add: core_mark)
    obtain u where "phase ?b = Open u" "dp_check io < u" using open'(2) by (auto simp: phase_def)
    then show ?thesis using assms by (simp add: b phase_step_def)
  next
    case False
    then have d': "isDispatchDisabled io ?b = (False, b)" using d by simp
    note dc = disabled_closed [OF assms(2) d']
    obtain r s2 where a: "attempt io body i (s\<lparr>hk_breaker := b\<rparr>) = (r, s2)" by fastforce
    have t: "dispatch_throws io body i s = isl r" using d' a assms(1) by (simp add: dispatch_throws_def)
    have s': "?s' = (case r of Inr fired \<Rightarrow> recordDispatchSuccess io (markProcessed io i None fired s2)
             | Inl m \<Rightarrow> recordDispatchFailure io (markProcessed io i (Some m) False s2))"
      using d' a assms(1) by (simp add: dispatch_attempt split: sum.split)
    have step: "phase_step (dp_check io) (dp_failed io) f (phase ?b) = try_phase (dp_failed io) f (phase b)" for f
      using dc(5, 6) by (cases "phase ?b") (auto simp: phase_step_def)
    show ?thesis using tried_phase [OF a dc(4, 1)] dc(3) assms(1) s' t step by simp
  qed
qed

section \<open>A small system\<close>

definition ok_io :: dispatch_io where
  "ok_io = \<lparr>dp_hydrate = True, dp_check = 1000, dp_failed = 1001, dp_persist = (\<lambda>_. True), dp_mark = Some 1002,
     dp_cache = lago_answer [], dp_flip = None, dp_linked = None, dp_backfill = None, dp_iso = show_int, dp_num = (\<lambda>_. '''')\<rparr>"

definition demo_mapping :: "int \<Rightarrow> string \<Rightarrow> bool \<Rightarrow> user_mapping" where
  "demo_mapping i tag act = \<lparr>mappingId = i, steveOcppTagPk = i, steveOcppIdTag = tag, lagoCustomerExternalId = Some ''cust-1'',
     lagoSubscriptionExternalId = Some ''sub-1'', displayName = None, isActive = act, steveParentIdTag = None,
     steveExpiryDate = None, userId = Some ''u1''\<rparr>"

definition closed_breaker :: breaker where
  "closed_breaker = \<lparr>bk_failures = 0, bk_disabledUntil = None, bk_hydrated = True, bk_row = None\<rparr>"

definition demo_hooks :: hook_state where
  "demo_hooks = \<lparr>hk_breaker = closed_breaker, hk_events = [], hk_nextId = 1,
     hk_cache = \<lparr>lc_metrics = [], lc_plans = [], lc_customers = [], lc_subscriptions = [],
       lc_invoices = \<lparr>it_invoices = [], it_fees = []\<rparr>, lc_wallets = []\<rparr>,
     hk_mappings = [demo_mapping 1 ''TAG-A'' True, demo_mapping 2 ''TAG-B'' False], hk_users = [], hk_notices = [], hk_tasks = [],
     hk_bus = []\<rparr>"

definition subscription_body :: "string \<Rightarrow> string \<Rightarrow> json" where
  "subscription_body wt sub = JObj [(''webhook_type'', JStr wt), (''subscription'', JObj [(''external_id'', JStr sub)])]"

theorem breaker_refines_witness:
  "phase (hk_breaker (dispatch (ok_io\<lparr>dp_flip := Some ''timeout''\<rparr>) (subscription_body ''subscription.started'' ''sub-1'') 1
      (demo_hooks\<lparr>hk_breaker := closed_breaker\<lparr>bk_failures := 4\<rparr>\<rparr>))) = Open 301001"
proof -
  let ?io = "ok_io\<lparr>dp_flip := Some ''timeout''\<rparr>" and ?body = "subscription_body ''subscription.started'' ''sub-1''"
    and ?s = "demo_hooks\<lparr>hk_breaker := closed_breaker\<lparr>bk_failures := 4\<rparr>\<rparr>"
  have t: "dispatch_throws ?io ?body 1 ?s" by code_simp
  have p: "phase (hk_breaker ?s) = Closed 4" by code_simp
  have h: "bk_hydrated (hk_breaker ?s)" "breaker_ok (hk_breaker ?s)" by code_simp+
  show ?thesis
    using breaker_refines [OF h, of ?io ?body 1] t p
    by (simp add: phase_step_def try_phase_def CIRCUIT_BREAKER_THRESHOLD_def CIRCUIT_BREAKER_COOLDOWN_MS_def ok_io_def)
qed

section \<open>The audit rows\<close>

text \<open>What a row says about its origin; the other columns are the outcome.\<close>

definition row_origin :: "webhook_row \<Rightarrow> int \<times> string \<times> json \<times> int option" where
  "row_origin r = (wr_id r, wr_webhookType r, wr_rawPayload r, wr_replayedFromId r)"

datatype hook_command =
    Request hook_http hook_request
  | Replay_event replay_io int string
  | Reset_breaker bool

fun hook_step :: "'k jwt_api \<Rightarrow> (string \<Rightarrow> json option) \<Rightarrow> hook_command \<Rightarrow> (string \<times> int) option \<times> hook_state \<Rightarrow> (string \<times> int) option \<times> hook_state" where
  "hook_step api pj (Request io r) w = snd (webhook_POST api pj io r w)"
| "hook_step api pj (Replay_event io i u) w = (fst w, snd (replay io i u (snd w)))"
| "hook_step api pj (Reset_breaker ok) w = (fst w, resetCircuitBreaker ok (snd w))"

definition origins :: "hook_state \<Rightarrow> (int \<times> string \<times> json \<times> int option) list" where
  "origins s = map row_origin (hk_events s)"

lemma origins_mark [simp]: "origins (markProcessed io i err fired s) = origins s"
  by (auto simp: origins_def markProcessed_def row_origin_def split: option.splits)

lemma next_mark [simp]: "hk_nextId (markProcessed io i err fired s) = hk_nextId s"
  by (simp add: markProcessed_def split: option.splits)

lemma origins_success [simp]: "origins (recordDispatchSuccess io s) = origins s" "hk_nextId (recordDispatchSuccess io s) = hk_nextId s"
  by (simp_all add: recordDispatchSuccess_def Let_def notify_def origins_def)

lemma origins_failure [simp]: "origins (recordDispatchFailure io s) = origins s" "hk_nextId (recordDispatchFailure io s) = hk_nextId s"
  by (simp_all add: recordDispatchFailure_def Let_def notify_def origins_def)

lemma origins_dispatch: "origins (dispatch io body i s) = origins s \<and> hk_nextId (dispatch io body i s) = hk_nextId s"
proof -
  obtain off b where d: "isDispatchDisabled io (hydrateBreakerStateOnce (dp_hydrate io) (hk_breaker s)) = (off, b)" by fastforce
  obtain r s2 where a: "attempt io body i (s\<lparr>hk_breaker := b\<rparr>) = (r, s2)" by fastforce
  have c: "origins s2 = origins s" "hk_nextId s2 = hk_nextId s"
    using core_attempt [OF a] by (simp_all add: hook_core_def origins_def)
  have "origins (s\<lparr>hk_breaker := b\<rparr>) = origins s" by (simp add: origins_def)
  then show ?thesis using c by (cases off; cases r) (simp_all add: dispatch_attempt d a)
qed

text \<open>The rows are numbered below the next id, and only ever grow.\<close>

definition audit_ok :: "hook_state \<Rightarrow> bool" where
  "audit_ok s \<longleftrightarrow> distinct (map wr_id (hk_events s)) \<and> (\<forall>r \<in> set (hk_events s). wr_id r < hk_nextId s)"

lemma audit_origins: "audit_ok s \<longleftrightarrow> distinct (map fst (origins s)) \<and> (\<forall>x \<in> set (origins s). fst x < hk_nextId s)"
  by (simp add: audit_ok_def origins_def row_origin_def comp_def)

definition grows :: "hook_state \<Rightarrow> hook_state \<Rightarrow> bool" where
  "grows s s' \<longleftrightarrow> (audit_ok s \<longrightarrow> audit_ok s') \<and> (\<exists>new. origins s' = origins s @ new)"

lemma grows_refl: "origins s' = origins s \<Longrightarrow> hk_nextId s' = hk_nextId s \<Longrightarrow> grows s s'"
  by (simp add: grows_def audit_origins)

lemma grows_trans: "grows s s' \<Longrightarrow> grows s' s'' \<Longrightarrow> grows s s''"
  by (auto simp: grows_def)

lemma grows_append:
  "origins s' = origins s @ [x] \<Longrightarrow> fst x = hk_nextId s \<Longrightarrow> hk_nextId s' = hk_nextId s + 1 \<Longrightarrow> grows s s'"
  by (auto simp: grows_def audit_origins)

lemma persist_grows:
  assumes "persistWebhookEvent ok body s = (r, s')"
  shows "grows s s'" "r = Some i \<Longrightarrow> \<exists>t. (i, t, (if body = JNull then JObj [] else body), None) \<in> set (origins s')"
proof -
  define row where "row = audit_row (hk_nextId s) body"
  have row: "wr_id row = hk_nextId s" "wr_rawPayload row = (if body = JNull then JObj [] else body)" "wr_replayedFromId row = None"
    by (simp_all add: row_def audit_row_def split: prod.split)
  have s': "s' = (if r = None then s else s\<lparr>hk_nextId := hk_nextId s + 1, hk_events := hk_events s @ [row]\<rparr>)"
    and r: "r = None \<or> r = Some (hk_nextId s)"
    using assms by (auto simp: persistWebhookEvent_def row_def split: if_splits)
  have "grows s s' \<and> (r = Some i \<longrightarrow> (\<exists>t. (i, t, (if body = JNull then JObj [] else body), None) \<in> set (origins s')))"
  proof (cases "r = None")
    case True
    then show ?thesis using s' by (simp add: grows_refl)
  next
    case False
    have "grows s s'" by (rule grows_append [of _ _ "row_origin row"]) (simp_all add: s' False origins_def row_origin_def row)
    then show ?thesis using False r by (auto simp: s' origins_def row_origin_def row)
  qed
  then show "grows s s'" "r = Some i \<Longrightarrow> \<exists>t. (i, t, (if body = JNull then JObj [] else body), None) \<in> set (origins s')" by blast+
qed

lemma grows_dispatch: "grows s (dispatch io body i s)"
  using origins_dispatch by (intro grows_refl) auto

lemma post_grows: "grows (snd w) (snd (snd (webhook_POST api pj io r w)))"
proof -
  have "grows s (dispatch d body i s1)" if "persistWebhookEvent ok body s = (Some i, s1)" for ok body s i s1 d
    using grows_trans [OF persist_grows(1) [OF that] grows_dispatch] .
  then show ?thesis
    using persist_grows(1) by (auto simp: webhook_POST_def grows_refl split: prod.splits option.splits bool.splits)
qed

lemma replay_grows: "grows s (snd (replay io i u s))"
proof -
  have g: "grows s (s\<lparr>hk_nextId := hk_nextId s + 1, hk_events := hk_events s @ [clone_row (hk_nextId s) now u r]\<rparr>)" for now r
    by (rule grows_append [of _ _ "row_origin (clone_row (hk_nextId s) now u r)"])
      (simp_all add: origins_def row_origin_def clone_row_def)
  show ?thesis
    using grows_trans [OF g grows_dispatch]
    by (auto simp: replay_def Let_def grows_refl split: option.splits list.splits)
qed

lemma step_grows: "grows (snd w) (snd (hook_step api pj c w))"
proof (cases c)
  case (Request io r)
  then show ?thesis using post_grows by simp
next
  case (Replay_event io i u)
  then show ?thesis using replay_grows by simp
next
  case (Reset_breaker ok)
  then show ?thesis by (simp add: resetCircuitBreaker_def grows_refl origins_def)
qed

text \<open>
  The audit table is append-only: whatever requests, replays and resets follow one another, every row of
  before is still there in its place with its id, type, payload and source, the ids stay distinct, and a
  request answered with a row id has stored its whole body under that id before anything reacted to it.
\<close>
theorem audit_append_only:
  assumes "audit_ok (snd w)"
  shows "\<exists>new. origins (snd (fold (hook_step api pj) cs w)) = origins (snd w) @ new"
    and "audit_ok (snd (fold (hook_step api pj) cs w))"
    and "webhook_POST api pj io \<lparr>hr_body = Some raw, hr_signature = sig\<rparr> w = (Hook_received i, w') \<Longrightarrow> raw \<noteq> [] \<Longrightarrow>
      \<exists>body t. pj raw = Some body \<and> (i, t, (if body = JNull then JObj [] else body), None) \<in> set (origins (snd w'))"
proof -
  have g: "grows (snd w) (snd (fold (hook_step api pj) cs w))"
  proof (induction cs arbitrary: w)
    case Nil
    then show ?case by (simp add: grows_refl)
  next
    case (Cons c cs)
    then show ?case using grows_trans [OF step_grows] by fastforce
  qed
  then show "\<exists>new. origins (snd (fold (hook_step api pj) cs w)) = origins (snd w) @ new"
    "audit_ok (snd (fold (hook_step api pj) cs w))" using assms by (simp_all add: grows_def)
  assume post: "webhook_POST api pj io \<lparr>hr_body = Some raw, hr_signature = sig\<rparr> w = (Hook_received i, w')" and raw: "raw \<noteq> []"
  obtain body s1 where "pj raw = Some body" "persistWebhookEvent (hh_insert io) body (snd w) = (Some i, s1)"
    "snd w' = dispatch (hh_dispatch io) body i s1"
    using post raw by (auto simp: webhook_POST_def split: prod.splits option.splits bool.splits if_splits)
  then show "\<exists>body t. pj raw = Some body \<and> (i, t, (if body = JNull then JObj [] else body), None) \<in> set (origins (snd w'))"
    using persist_grows(2) origins_dispatch by metis
qed

definition demo_jwt :: "unit jwt_api" where
  "demo_jwt = \<lparr>jw_alg = (\<lambda>h. if h = ''h'' then Some ''RS256'' else None), jw_decodes = (\<lambda>_. True), jw_import = (\<lambda>_. Some ()),
     jw_verify = (\<lambda>_ sig inp. Some (sig = ''s'' \<and> inp = ''h.p''))\<rparr>"

definition demo_http :: hook_http where
  "demo_http = \<lparr>hh_now = 1000, hh_key = Some ''pem'', hh_now2 = 1000, hh_key2 = Some ''pem'', hh_insert = True, hh_dispatch = ok_io\<rparr>"

definition demo_json :: "string \<Rightarrow> json option" where
  "demo_json raw = (if raw = ''started'' then Some (subscription_body ''subscription.started'' ''sub-1'')
     else if raw = ''terminated'' then Some (subscription_body ''subscription.terminated'' ''sub-1'') else None)"

theorem audit_append_only_witness:
  "audit_ok (snd (fold (hook_step demo_jwt demo_json)
     [Request demo_http \<lparr>hr_body = Some ''started'', hr_signature = Some ''h.p.s''\<rparr>,
      Replay_event \<lparr>rp_load = None, rp_clone = None, rp_after = None, rp_now = 1, rp_dispatch = ok_io\<rparr> 1 ''admin''] (None, demo_hooks)))"
  by (rule audit_append_only(2)) (simp add: audit_ok_def demo_hooks_def)

section \<open>Subscriptions that end and start\<close>

text \<open>The breaker lets the dispatch through.\<close>

definition lets_through :: "dispatch_io \<Rightarrow> hook_state \<Rightarrow> bool" where
  "lets_through io s \<longleftrightarrow> \<not> fst (isDispatchDisabled io (hydrateBreakerStateOnce (dp_hydrate io) (hk_breaker s)))"

text \<open>The parts of the state a dispatch reports to: the mappings and the calls it starts.\<close>

definition hook_effects :: "hook_state \<Rightarrow> user_mapping list \<times> hook_task list" where
  "hook_effects s = (hk_mappings s, hk_tasks s)"

lemma effects_frame:
  "hook_effects (markProcessed io i err fired s) = hook_effects s"
  "hook_effects (recordDispatchSuccess io s) = hook_effects s"
  "hook_effects (recordDispatchFailure io s) = hook_effects s"
  "hook_effects (notify n s) = hook_effects s"
  "hook_effects (upsertWebhookIntoCache io p s) = hook_effects s"
  "hook_effects (publish_invoice p s) = hook_effects s"
  "hook_effects (s\<lparr>hk_breaker := b\<rparr>) = hook_effects s"
  by (auto simp: hook_effects_def markProcessed_def recordDispatchSuccess_def recordDispatchFailure_def notify_def Let_def
      upsertWebhookIntoCache_def publish_invoice_def split: option.splits)

lemma dispatch_effects:
  assumes "lets_through io s"
  shows "\<exists>s1. hook_effects s1 = hook_effects s \<and> hook_core s1 = (snd (isDispatchDisabled io (hydrateBreakerStateOnce (dp_hydrate io) (hk_breaker s))), hk_events s, hk_nextId s)
    \<and> hook_effects (dispatch io body i s) = hook_effects (snd (attempt io body i s1))"
proof -
  obtain b where d: "isDispatchDisabled io (hydrateBreakerStateOnce (dp_hydrate io) (hk_breaker s)) = (False, b)"
    using assms by (cases "isDispatchDisabled io (hydrateBreakerStateOnce (dp_hydrate io) (hk_breaker s))") (auto simp: lets_through_def)
  obtain r s2 where a: "attempt io body i (s\<lparr>hk_breaker := b\<rparr>) = (r, s2)" by fastforce
  have "hook_effects (dispatch io body i s) = hook_effects s2"
    by (cases r) (simp_all add: dispatch_attempt d a effects_frame)
  then show ?thesis
    by (intro exI [of _ "s\<lparr>hk_breaker := b\<rparr>"]) (simp add: d a effects_frame hook_core_def)
qed

text \<open>The body names the subscription \<open>u\<close> under a lifecycle type.\<close>

definition lifecycle_body :: "json \<Rightarrow> bool \<Rightarrow> string \<Rightarrow> bool" where
  "lifecycle_body body target u \<longleftrightarrow>
     (\<exists>p. parse_webhook body = Some p \<and> pickExternalSubscriptionId p = Inr (Some u) \<and> u \<noteq> []
        \<and> webhook_type p \<in> (if target then {''subscription.started'', ''subscription.created''}
                              else {''subscription.terminated'', ''subscription.terminated_and_downgraded''}))"

definition flipped :: "string \<Rightarrow> bool \<Rightarrow> user_mapping list \<Rightarrow> user_mapping list" where
  "flipped u target ms = map (\<lambda>m. m\<lparr>isActive := target\<rparr>) (filter (flips u target) ms)"

lemma state_change_effects:
  assumes "dp_flip io = None"
  shows "\<exists>n. handleSubscriptionStateChange io u wt i target s = (Inr (), n) \<and> hook_effects n =
    (map (\<lambda>m. if flips u target m then m\<lparr>isActive := target\<rparr> else m) (hk_mappings s),
     hk_tasks s @ (if flipped u target (hk_mappings s) = [] then [] else flip_tasks wt u i target (flipped u target (hk_mappings s))))"
  using assms by (auto simp: handleSubscriptionStateChange_def Let_def flipped_def effects_frame)
    (auto simp: hook_effects_def spawn_def)

lemma lifecycle_effects:
  assumes "lifecycle_body body target u" "lets_through io s" "dp_flip io = None"
  obtains wt where "hook_effects (dispatch io body i s) =
    (map (\<lambda>m. if flips u target m then m\<lparr>isActive := target\<rparr> else m) (hk_mappings s),
     hk_tasks s @ (if flipped u target (hk_mappings s) = [] then [] else flip_tasks wt u i target (flipped u target (hk_mappings s))))"
proof -
  obtain p where p: "parse_webhook body = Some p" "pickExternalSubscriptionId p = Inr (Some u)" "u \<noteq> []"
    "webhook_type p \<in> (if target then {''subscription.started'', ''subscription.created''}
                              else {''subscription.terminated'', ''subscription.terminated_and_downgraded''})"
    using assms(1) by (auto simp: lifecycle_body_def)
  obtain s1 where s1: "hook_effects s1 = hook_effects s"
    "hook_effects (dispatch io body i s) = hook_effects (snd (attempt io body i s1))"
    using dispatch_effects [OF assms(2)] by blast
  define s2 where "s2 = publish_invoice p (upsertWebhookIntoCache io p s1)"
  have react: "attempt io body i s1 = react_subscription io p i target s2"
    using p(4) by (cases target) (auto simp: attempt_def p(1) reactTo_def Let_def s2_def)
  have e2: "hook_effects s2 = hook_effects s" by (simp add: s2_def effects_frame s1(1))
  then have s2: "hk_mappings s2 = hk_mappings s" "hk_tasks s2 = hk_tasks s" by (simp_all add: hook_effects_def)
  obtain n where n: "handleSubscriptionStateChange io u (webhook_type p) i target s2 = (Inr (), n)" "hook_effects n =
    (map (\<lambda>m. if flips u target m then m\<lparr>isActive := target\<rparr> else m) (hk_mappings s2),
     hk_tasks s2 @ (if flipped u target (hk_mappings s2) = [] then []
       else flip_tasks (webhook_type p) u i target (flipped u target (hk_mappings s2))))"
    using state_change_effects [OF assms(3)] by blast
  have "snd (attempt io body i s1) = n" using n(1) p(2, 3) by (simp add: react react_subscription_def)
  then have "hook_effects (dispatch io body i s) = hook_effects n" using s1(2) by simp
  then show thesis by (intro that [of "webhook_type p"]) (simp only: n(2) s2)
qed

lemma lifecycle_mappings:
  assumes "lifecycle_body body target u" "lets_through io s" "dp_flip io = None"
  shows "hk_mappings (dispatch io body i s) = map (\<lambda>m. if flips u target m then m\<lparr>isActive := target\<rparr> else m) (hk_mappings s)"
  by (rule lifecycle_effects [OF assms, of i]) (simp add: hook_effects_def)


lemma demo_lifecycle:
  "lifecycle_body (subscription_body ''subscription.terminated'' ''sub-1'') False ''sub-1''"
  "lifecycle_body (subscription_body ''subscription.started'' ''sub-1'') True ''sub-1''"
  unfolding lifecycle_body_def
  by (rule exI [of _ "subscription_body ''subscription.terminated'' ''sub-1''"], code_simp)
    (rule exI [of _ "subscription_body ''subscription.started'' ''sub-1''"], code_simp)


text \<open>
  When Lago reports the start of a subscription, all its mappings become active, also those an operator had
  switched off by hand: nothing in a row tells who switched it off.
\<close>
theorem resubscribe_overrides_operator:
  assumes "lifecycle_body body True u" "lets_through io s" "dp_flip io = None"
    and "m \<in> set (hk_mappings s)" "lagoSubscriptionExternalId m = Some u" "\<not> isActive m"
  shows "m\<lparr>isActive := True\<rparr> \<in> set (hk_mappings (dispatch io body i s))"
    and "Sync_tag (m\<lparr>isActive := True\<rparr>) \<in> set (hk_tasks (dispatch io body i s))"
proof -
  obtain wt where e: "hook_effects (dispatch io body i s) =
    (map (\<lambda>m. if flips u True m then m\<lparr>isActive := True\<rparr> else m) (hk_mappings s),
     hk_tasks s @ (if flipped u True (hk_mappings s) = [] then [] else flip_tasks wt u i True (flipped u True (hk_mappings s))))"
    by (rule lifecycle_effects [OF assms(1-3)])
  have f: "flips u True m" using assms(5, 6) by (simp add: flips_def)
  then have "m\<lparr>isActive := True\<rparr> \<in> set (flipped u True (hk_mappings s))" using assms(4) by (auto simp: flipped_def)
  then show "Sync_tag (m\<lparr>isActive := True\<rparr>) \<in> set (hk_tasks (dispatch io body i s))"
    using e by (auto simp: hook_effects_def flip_tasks_def)
  note ms = lifecycle_mappings [OF assms(1-3)]
  show "m\<lparr>isActive := True\<rparr> \<in> set (hk_mappings (dispatch io body i s))"
    using f assms(4) unfolding ms by (auto simp: image_iff intro!: bexI [of _ m])
qed

theorem resubscribe_overrides_operator_witness:
  "(demo_mapping 2 ''TAG-B'' False)\<lparr>isActive := True\<rparr>
     \<in> set (hk_mappings (dispatch ok_io (subscription_body ''subscription.started'' ''sub-1'') 1 demo_hooks))"
  by (rule resubscribe_overrides_operator(1) [OF demo_lifecycle(2)])
    (simp_all add: lets_through_def demo_hooks_def closed_breaker_def isDispatchDisabled_def hydrateBreakerStateOnce_def ok_io_def
      demo_mapping_def)

text \<open>
  While the breaker is open a webhook is stored and marked, and nothing else happens: no mapping, cache,
  notification or call, whatever the body. Its row carries the reason, so it waits for a replay by hand.
\<close>
theorem open_breaker_drops:
  assumes "bk_hydrated (hk_breaker s)" "phase (hk_breaker s) = Open u" "dp_check io < u" "dp_mark io = Some t"
  shows "dispatch io body i s = s\<lparr>hk_events := map (\<lambda>r. if wr_id r = i then r\<lparr>wr_processedAt := Some t,
      wr_processingError := Some ''circuit_breaker_open'', wr_notificationFired := False\<rparr> else r) (hk_events s)\<rparr>"
proof -
  have "bk_disabledUntil (hk_breaker s) = Some u" using assms(2) by (auto simp: phase_def split: option.splits if_splits)
  then have "isDispatchDisabled io (hk_breaker s) = (True, hk_breaker s)" using assms(3) by (simp add: disabled_open)
  then show ?thesis using assms(1, 4) by (simp add: dispatch_attempt markProcessed_def)
qed

theorem open_breaker_drops_witness:
  "hk_mappings (dispatch ok_io (subscription_body ''subscription.terminated'' ''sub-1'') 1
     (demo_hooks\<lparr>hk_breaker := closed_breaker\<lparr>bk_failures := 5, bk_disabledUntil := Some 2000\<rparr>\<rparr>)) = hk_mappings demo_hooks"
  by (subst open_breaker_drops [where u = 2000 and t = 1002])
    (simp_all add: closed_breaker_def phase_def ok_io_def)

section \<open>What the signature covers\<close>

lemma persist_object: "\<not> bare_value body \<Longrightarrow> persistWebhookEvent True body s =
    (Some (hk_nextId s), s\<lparr>hk_nextId := hk_nextId s + 1, hk_events := hk_events s @ [audit_row (hk_nextId s) body]\<rparr>)"
  by (simp add: persistWebhookEvent_def)



section \<open>The stop that follows\<close>

text \<open>A stop the dispatch started, on the mappings of its time (the sweep of the automatic stops).\<close>

definition run_stop_task ::
  "bool \<Rightarrow> bool \<Rightarrow> (nat \<Rightarrow> stop_answer) \<Rightarrow> (string \<Rightarrow> (int \<times> string) list option) \<Rightarrow> user_mapping list \<Rightarrow> hook_task
     \<Rightarrow> stop_state \<Rightarrow> stop_result list option \<times> stop_state"
where
  "run_stop_task rows_ok notified ans active table t st =
     (case t of
        Stop_subscription u r \<Rightarrow> stopActiveTransactionsForSubscription rows_ok notified ans active table u r st
      | Stop_customer c r \<Rightarrow> stopActiveTransactionsForCustomer rows_ok notified ans active table c r st
      | _ \<Rightarrow> (None, st))"

text \<open>Whatever the memory of recent stops holds was attempted in this sweep.\<close>

definition attempted :: "stop_result list \<Rightarrow> int set" where
  "attempted res = sr_transactionPk ` set res"

lemma recent_keys:
  "wasRecentlyStopped now i m = (b, m') \<Longrightarrow> fst ` set m' \<subseteq> fst ` set m \<and> (b \<longrightarrow> i \<in> fst ` set m)"
  by (auto simp: wasRecentlyStopped_def AList.delete_eq dest: map_of_SomeD split: option.splits if_splits)
     (metis map_of_SomeD fst_conv image_eqI)

lemma mark_keys: "fst ` set (markRecent now i m) \<subseteq> insert i (fst ` set m)"
proof -
  have "fst ` set (AList.update i now m) \<subseteq> insert i (fst ` set m)" using set_update_subset [of i now m] by force
  then show ?thesis by (auto simp: markRecent_def Let_def)
qed

lemma stop_loop_attempts:
  assumes "stop_loop ans reason txs n res st = (n', res', st')" "fst ` set (sp_recent st) \<subseteq> attempted res"
  shows "attempted res \<union> fst ` set txs \<subseteq> attempted res' \<and> fst ` set (sp_recent st') \<subseteq> attempted res'"
  using assms
proof (induction txs arbitrary: n res st)
  case (Cons p txs)
  obtain tx box where p: "p = (tx, box)" by (cases p)
  obtain b m where w: "wasRecentlyStopped (sa_checked (ans n)) tx (sp_recent st) = (b, m)" by fastforce
  note keys = recent_keys [OF w]
  show ?case
  proof (cases b)
    case True
    then have l: "stop_loop ans reason txs (n + 1) res (st\<lparr>sp_recent := m\<rparr>) = (n', res', st')" using Cons.prems(1) w p by simp
    have "fst ` set m \<subseteq> attempted res" "tx \<in> attempted res" using keys True Cons.prems(2) by auto
    then show ?thesis using Cons.IH [OF l] p by auto
  next
    case False
    obtain r st1 where r: "stopOne (ans n) tx box reason (st\<lparr>sp_recent := m\<rparr>) = (r, st1)" by fastforce
    note rr = stopOne_result [OF r]
    let ?st = "if sr_ok r then st1\<lparr>sp_recent := markRecent (sa_done (ans n)) tx (sp_recent st1)\<rparr> else st1"
    have l: "stop_loop ans reason txs (n + 1) (res @ [r]) ?st = (n', res', st')" using Cons.prems(1) w p r False by simp
    have att: "attempted (res @ [r]) = insert tx (attempted res)" using rr(1) by (simp add: attempted_def)
    have "fst ` set m \<subseteq> attempted res" using keys Cons.prems(2) by blast
    then have "fst ` set (sp_recent ?st) \<subseteq> attempted (res @ [r])"
      using rr(2) subset_trans [OF mark_keys [of "sa_done (ans n)" tx m] insert_mono] att by (cases "sr_ok r") (simp_all, blast)
    then show ?thesis using Cons.IH [OF l] att p by auto
  qed
qed (simp add: attempted_def)

lemma tag_loop_attempts:
  assumes "tag_loop ans reason active tags n res st = (n', res', st')" "fst ` set (sp_recent st) \<subseteq> attempted res"
  shows "attempted res \<subseteq> attempted res' \<and> (\<forall>tag \<in> set tags. \<forall>txs. active tag = Some txs \<longrightarrow> fst ` set txs \<subseteq> attempted res')"
  using assms
proof (induction tags arbitrary: n res st)
  case (Cons tag tags)
  show ?case
  proof (cases "active tag")
    case None
    then show ?thesis using Cons.IH [of n res st] Cons.prems by simp
  next
    case (Some txs)
    obtain n1 res1 st1 where loop: "stop_loop ans reason txs n res st = (n1, res1, st1)" using prod_cases3 by blast
    note s = stop_loop_attempts [OF loop Cons.prems(2)]
    have "tag_loop ans reason active tags n1 res1 st1 = (n', res', st')" using Cons.prems(1) Some loop by simp
    from Cons.IH [OF this] s show ?thesis using Some by auto
  qed
qed simp

lemma subscription_sweep:
  assumes "sp_recent st = []" "y \<in> set table" "lagoSubscriptionExternalId y = Some u"
    "active (steveOcppIdTag y) = Some txs" "(tx, box) \<in> set txs"
  shows "\<exists>res st'. stopActiveTransactionsForSubscription True notified ans active table u r st = (Some res, st') \<and> tx \<in> attempted res"
proof -
  let ?ids = "map mappingId (filter (\<lambda>m. lagoSubscriptionExternalId m = Some u) table)"
  let ?tags = "map steveOcppIdTag (filter (\<lambda>m. mappingId m \<in> set ?ids) table)"
  have id: "mappingId y \<in> set ?ids" using assms(2, 3) by auto
  then have ne: "?ids \<noteq> []" by (cases ?ids) simp_all
  have tag: "steveOcppIdTag y \<in> set ?tags" using id assms(2) by auto
  obtain n res st' where l: "tag_loop ans r active ?tags 0 [] st = (n, res, st')" using prod_cases3 by blast
  have "fst ` set (sp_recent st) \<subseteq> attempted []" by (simp add: assms(1))
  then have "fst ` set txs \<subseteq> attempted res" using tag_loop_attempts [OF l] tag assms(4) by blast
  then have "tx \<in> attempted res" using assms(5) by force
  moreover have "\<exists>st''. stopActiveTransactionsForSubscription True notified ans active table u r st = (Some res, st'')"
    using l ne unfolding stopActiveTransactionsForSubscription_def stopActiveTransactionsForMappings_def Let_def by simp
  ultimately show ?thesis by blast
qed

text \<open>
  C20. After the end of a subscription with an active mapping, the stop the dispatch started, run with an empty memory
  of recent stops, attempts to stop every running transaction of every tag of the subscription, although all
  its mappings are inactive by then.
\<close>
theorem terminated_sessions_stopped:
  assumes "lifecycle_body body False u" "lets_through io s" "dp_flip io = None"
    and "x \<in> set (hk_mappings s)" "lagoSubscriptionExternalId x = Some u" "isActive x"
    and "y \<in> set (hk_mappings s)" "lagoSubscriptionExternalId y = Some u"
    and "active (steveOcppIdTag y) = Some txs" "(tx, box) \<in> set txs" "sp_recent st = []"
  shows "\<exists>t \<in> set (hk_tasks (dispatch io body i s)). \<exists>res st'.
    run_stop_task True notified ans active (hk_mappings (dispatch io body i s)) t st = (Some res, st') \<and> tx \<in> attempted res"
proof -
  let ?ms = "hk_mappings (dispatch io body i s)"
  obtain wt where e: "hook_effects (dispatch io body i s) =
    (map (\<lambda>m. if flips u False m then m\<lparr>isActive := False\<rparr> else m) (hk_mappings s),
     hk_tasks s @ (if flipped u False (hk_mappings s) = [] then [] else flip_tasks wt u i False (flipped u False (hk_mappings s))))"
    by (rule lifecycle_effects [OF assms(1-3)])
  have "flipped u False (hk_mappings s) \<noteq> []" using assms(4-6) by (auto simp: flipped_def flips_def filter_empty_conv)
  then obtain r where t: "Stop_subscription u r \<in> set (hk_tasks (dispatch io body i s))"
    using e by (auto simp: hook_effects_def flip_tasks_def)
  let ?y = "if flips u False y then y\<lparr>isActive := False\<rparr> else y"
  have y: "?y \<in> set ?ms" "lagoSubscriptionExternalId ?y = Some u" "steveOcppIdTag ?y = steveOcppIdTag y"
    using assms(7, 8) by (auto simp: lifecycle_mappings [OF assms(1-3)])
  obtain res st' where "stopActiveTransactionsForSubscription True notified ans active ?ms u r st = (Some res, st')" "tx \<in> attempted res"
    using subscription_sweep [OF assms(11) y(1, 2)] assms(9, 10) y(3) by metis
  then show ?thesis using t by (intro bexI [of _ "Stop_subscription u r"]) (auto simp: run_stop_task_def)
qed

definition demo_stop :: "nat \<Rightarrow> stop_answer" where
  "demo_stop n = \<lparr>sa_checked = 1000, sa_insert = True, sa_stop = None, sa_update = True, sa_done = 1000\<rparr>"

theorem terminated_sessions_stopped_witness:
  "\<exists>t \<in> set (hk_tasks (dispatch ok_io (subscription_body ''subscription.terminated'' ''sub-1'') 1 demo_hooks)). \<exists>res st'.
    run_stop_task True True demo_stop (\<lambda>tag. if tag = ''TAG-B'' then Some [(77, ''BOX'')] else Some [])
      (hk_mappings (dispatch ok_io (subscription_body ''subscription.terminated'' ''sub-1'') 1 demo_hooks)) t
      \<lparr>sp_recent = [], sp_log = [], sp_nextLog = 1, sp_notices = []\<rparr> = (Some res, st') \<and> 77 \<in> attempted res"
  by (rule terminated_sessions_stopped [OF demo_lifecycle(1), where x = "demo_mapping 1 ''TAG-A'' True" and y = "demo_mapping 2 ''TAG-B'' False"
        and txs = "[(77, ''BOX'')]" and box = "''BOX''"])
    (simp_all add: lets_through_def demo_hooks_def closed_breaker_def isDispatchDisabled_def hydrateBreakerStateOnce_def ok_io_def
      demo_mapping_def)

end
