(* ===== verification/Customer.thy ===== *)
theory Customer
  imports Webhooks SyncDb DeviceControl
begin

text \<open>
  The customer's side: what a customer owns (\<open>src/lib/scoping.ts\<close>), what an account may do
  (\<open>src/lib/capabilities.ts\<close>) and the endpoints of \<open>routes/api/customer\<close> for reservations, sessions, remote start
  and stop and lost cards. The outcomes of queries and of the calls to StEvE are arguments; a request carries
  the user of its session and the customer an administrator acts as. Display fields and the audit of denied capabilities are left out.
\<close>

section \<open>Scope and capabilities\<close>

record customer_scope =
  sc_lagoCustomer :: "string option"
  sc_tagPks :: "int list"
  sc_mappingIds :: "int list"
  sc_isActive :: bool

record customer_request =
  cq_user :: "string option"
  cq_actingAs :: "string option"

definition no_scope :: customer_scope where
  "no_scope = \<lparr>sc_lagoCustomer = None, sc_tagPks = [], sc_mappingIds = [], sc_isActive = False\<rparr>"

definition effective_user :: "customer_request \<Rightarrow> string option" where
  "effective_user q = nullish (cq_actingAs q) (cq_user q)"

definition resolveCustomerScope :: "customer_request \<Rightarrow> user_mapping list \<Rightarrow> customer_scope" where
  "resolveCustomerScope q ms =
     (if \<not> truthy (effective_user q) then no_scope
      else
        (let rows = filter (\<lambda>m. userId m = effective_user q) ms;
             ids = filter truthy (map lagoCustomerExternalId rows)
         in \<lparr>sc_lagoCustomer = (case ids of [] \<Rightarrow> None | c # _ \<Rightarrow> c),
             sc_tagPks = map steveOcppTagPk rows, sc_mappingIds = map mappingId rows, sc_isActive = list_ex isActive rows\<rparr>))"

record stored_event = synced_event +
  se_id :: int
  se_syncedAt :: int

datatype owned_type = Own_session | Own_reservation | Own_invoice | Own_card

datatype resource_id = Id_number int | Id_text string

definition numericId :: "resource_id \<Rightarrow> int option" where
  "numericId i = (case i of Id_number n \<Rightarrow> Some n
     | Id_text s \<Rightarrow> (case parse_int s of NaN \<Rightarrow> None | Num q \<Rightarrow> Some \<lfloor>q\<rfloor>))"

text \<open>\<open>False\<close> stands for the \<open>OwnershipError\<close>.\<close>

definition assertOwnership ::
  "customer_scope \<Rightarrow> owned_type \<Rightarrow> resource_id \<Rightarrow> stored_event list \<Rightarrow> reservation list \<Rightarrow> bool"
where
  "assertOwnership sc ty i events rows =
     (case ty of
        Own_invoice \<Rightarrow> truthy (sc_lagoCustomer sc)
      | _ \<Rightarrow>
          (case numericId i of
             None \<Rightarrow> False
           | Some n \<Rightarrow>
               (case ty of
                  Own_session \<Rightarrow> sc_mappingIds sc \<noteq> [] \<and>
                    (case find (\<lambda>e. se_id e = n) events of
                       None \<Rightarrow> False
                     | Some e \<Rightarrow> (case ev_userMappingId e of None \<Rightarrow> False | Some m \<Rightarrow> m \<noteq> 0 \<and> m \<in> set (sc_mappingIds sc)))
                | Own_reservation \<Rightarrow> sc_tagPks sc \<noteq> [] \<and>
                    (case find (\<lambda>r. rv_id r = n) rows of None \<Rightarrow> False | Some r \<Rightarrow> rv_tagPk r \<in> set (sc_tagPks sc))
                | _ \<Rightarrow> n \<in> set (sc_mappingIds sc))))"

datatype customer_capability = view_history | start_charge | stop_charge | reserve | manage_cards

definition getCustomerCapabilities :: "customer_scope \<Rightarrow> customer_capability list" where
  "getCustomerCapabilities sc =
     (if sc_isActive sc then [view_history, start_charge, stop_charge, reserve, manage_cards] else [view_history])"

definition assertCapability :: "customer_scope \<Rightarrow> customer_capability \<Rightarrow> bool" where
  "assertCapability sc c \<longleftrightarrow> c \<in> set (getCustomerCapabilities sc)"

section \<open>Reservations\<close>

datatype customer_reply =
    C_error int string
  | C_reservation int reservation_dto
  | C_conflicts "conflict_row list" "(int \<times> int) list"
  | C_reservations "reservation_dto list" nat int int
  | C_operation int int
  | C_operation_failed int
  | C_session stored_event "string option" "stored_event list"
  | C_lost bool

text \<open>An entry of the audit log: the user, the action and the id it is about.\<close>

record customer_world =
  cw_db :: reservation_db
  cw_events :: "stored_event list"
  cw_ops :: "op_row list"
  cw_nextOp :: int
  cw_sent :: "command list"
  cw_audit :: "(string \<times> string \<times> int) list"

definition scope_in :: "customer_request \<Rightarrow> customer_world \<Rightarrow> customer_scope" where
  "scope_in q w = resolveCustomerScope q (rd_mappings (cw_db w))"

definition audited :: "customer_request \<Rightarrow> string \<Rightarrow> int \<Rightarrow> customer_world \<Rightarrow> customer_world" where
  "audited q action i w = w\<lparr>cw_audit := cw_audit w @ [(the (cq_user q), action, i)]\<rparr>"

text \<open>The guard of every mutation: a session, and no impersonation.\<close>

definition mutation_guard :: "customer_request \<Rightarrow> customer_reply option" where
  "mutation_guard q =
     (if cq_user q = None then Some (C_error 401 ''Unauthorized'')
      else if truthy (cq_actingAs q) then Some (C_error 403 ''Read-only while impersonating; use admin tools to mutate.'')
      else None)"

definition parseId :: "string option \<Rightarrow> int option" where
  "parseId raw =
     (if \<not> truthy raw then None
      else (case parse_int (the raw) of NaN \<Rightarrow> None | Num q \<Rightarrow> if q > 0 then Some \<lfloor>q\<rfloor> else None))"

text \<open>A field of the body is \<open>None\<close> when it is missing or of another type.\<close>

record reserve_body =
  rb_chargeBoxId :: "string option"
  rb_connectorId :: "int option"
  rb_tagPk :: "int option"
  rb_startAt :: "string option"
  rb_endAt :: "string option"

definition window_of :: "string option \<Rightarrow> string option \<Rightarrow> customer_reply + int \<times> int" where
  "window_of st en =
     (if st = None \<or> en = None then Inl (C_error 400 ''startAtIso and endAtIso must be ISO strings'')
      else (case (date_parse (the st), date_parse (the en)) of
          (Some s, Some e) \<Rightarrow> if e > s then Inr (s, e) else Inl (C_error 400 ''endAt must be after startAt'')
        | _ \<Rightarrow> Inl (C_error 400 ''Invalid ISO timestamp'')))"

definition reserve_fields :: "reserve_body option \<Rightarrow> customer_reply + string \<times> int \<times> int \<times> int \<times> int" where
  "reserve_fields body =
     (case body of
        None \<Rightarrow> Inl (C_error 400 ''Invalid JSON body'')
      | Some b \<Rightarrow>
          if \<not> truthy (rb_chargeBoxId b) then Inl (C_error 400 ''chargeBoxId is required'')
          else if rb_connectorId b = None then Inl (C_error 400 ''connectorId must be an integer'')
          else if rb_tagPk b = None then Inl (C_error 400 ''steveOcppTagPk must be an integer'')
          else map_sum id (\<lambda>(s, e). (the (rb_chargeBoxId b), the (rb_connectorId b), the (rb_tagPk b), s, e))
                 (window_of (rb_startAt b) (rb_endAt b)))"

text \<open>The ownership of the tag is checked as that of a card, that is by the ids of the mappings.\<close>

definition reservations_POST ::
  "int \<Rightarrow> int option \<Rightarrow> reserve_answer option \<Rightarrow> customer_request \<Rightarrow> reserve_body option \<Rightarrow> customer_world
     \<Rightarrow> customer_reply \<times> customer_world"
where
  "reservations_POST now task ans q body w =
     (case mutation_guard q of
        Some r \<Rightarrow> (r, w)
      | None \<Rightarrow>
     (case reserve_fields body of
        Inl r \<Rightarrow> (r, w)
      | Inr (box, conn, pk, st, en) \<Rightarrow>
          let sc = scope_in q w in
          if \<not> assertCapability sc reserve then (C_error 403 ''Account inactive'', w)
          else if \<not> assertOwnership sc Own_card (Id_number pk) (cw_events w) (rd_rows (cw_db w))
            then (C_error 404 ''Card not found'', w)
          else (case find (\<lambda>m. steveOcppTagPk m = pk) (rd_mappings (cw_db w)) of
              None \<Rightarrow> (C_error 404 ''Card not found'', w)
            | Some m \<Rightarrow>
                (case createReservation now task ans
                    \<lparr>ri_chargeBoxId = box, ri_connectorId = conn, ri_tagPk = pk, ri_idTag = steveOcppIdTag m,
                     ri_subscription = lagoSubscriptionExternalId m, ri_startAt = st, ri_endAt = en,
                     ri_createdBy = cq_user q, ri_force = False\<rparr> (cw_db w) of
                   (Inl e, d) \<Rightarrow> (C_error 500 ''Failed to create reservation'', w\<lparr>cw_db := d\<rparr>)
                 | (Inr (Refused cs), d) \<Rightarrow> (C_conflicts cs (suggestAlternatives box conn st en cs d), w\<lparr>cw_db := d\<rparr>)
                 | (Inr (Created r), d) \<Rightarrow>
                     (C_reservation 201 (toReservationRowDTO r), audited q ''reservation-create'' (rv_id r) (w\<lparr>cw_db := d\<rparr>))))))"

definition owned_reservation :: "customer_request \<Rightarrow> int \<Rightarrow> customer_world \<Rightarrow> bool" where
  "owned_reservation q i w = assertOwnership (scope_in q w) Own_reservation (Id_number i) (cw_events w) (rd_rows (cw_db w))"

definition reservation_GET :: "customer_request \<Rightarrow> string option \<Rightarrow> customer_world \<Rightarrow> customer_reply" where
  "reservation_GET q idParam w =
     (if cq_user q = None then C_error 401 ''Unauthorized''
      else (case parseId idParam of
          None \<Rightarrow> C_error 400 ''Invalid id''
        | Some i \<Rightarrow>
            if \<not> owned_reservation q i w then C_error 404 ''Reservation not found''
            else (case find (\<lambda>r. rv_id r = i) (rd_rows (cw_db w)) of
                None \<Rightarrow> C_error 404 ''Reservation not found''
              | Some r \<Rightarrow> C_reservation 200 (toReservationRowDTO r))))"

definition reservation_PATCH ::
  "int \<Rightarrow> customer_request \<Rightarrow> string option \<Rightarrow> (string option \<times> string option) option \<Rightarrow> customer_world
     \<Rightarrow> customer_reply \<times> customer_world"
where
  "reservation_PATCH now q idParam body w =
     (case mutation_guard q of
        Some r \<Rightarrow> (r, w)
      | None \<Rightarrow>
     (case parseId idParam of
        None \<Rightarrow> (C_error 400 ''Invalid id'', w)
      | Some i \<Rightarrow>
     (case (case body of None \<Rightarrow> Inl (C_error 400 ''Invalid JSON body'') | Some (st, en) \<Rightarrow> window_of st en) of
        Inl r \<Rightarrow> (r, w)
      | Inr (st, en) \<Rightarrow>
          if \<not> assertCapability (scope_in q w) reserve then (C_error 403 ''Account inactive'', w)
          else if \<not> owned_reservation q i w then (C_error 404 ''Reservation not found'', w)
          else (case rescheduleReservation now i st en False (cw_db w) of
              (Inl e, d) \<Rightarrow> (C_error 500 ''Failed to reschedule reservation'', w\<lparr>cw_db := d\<rparr>)
            | (Inr (None, []), d) \<Rightarrow> (C_error 404 ''Reservation not found'', w\<lparr>cw_db := d\<rparr>)
            | (Inr (Some r, []), d) \<Rightarrow>
                (C_reservation 200 (toReservationRowDTO r), audited q ''reservation-reschedule'' i (w\<lparr>cw_db := d\<rparr>))
            | (Inr (x, c # cs), d) \<Rightarrow>
                (C_conflicts (c # cs)
                   (case find (\<lambda>r. rv_id r = i) (rd_rows d) of
                      None \<Rightarrow> []
                    | Some r \<Rightarrow> suggestAlternatives (rv_chargeBoxId r) (rv_connectorId r) st en (c # cs) d),
                 w\<lparr>cw_db := d\<rparr>)))))"

text \<open>Besides the world, the calls to StEvE and the notices of the cancellation.\<close>

definition reservation_DELETE ::
  "(int \<Rightarrow> string) \<Rightarrow> bool \<Rightarrow> int \<Rightarrow> customer_request \<Rightarrow> string option \<Rightarrow> customer_world
     \<Rightarrow> customer_reply \<times> (string \<times> int) list \<times> reservation_notice list \<times> customer_world"
where
  "reservation_DELETE date stored now q idParam w =
     (case mutation_guard q of
        Some r \<Rightarrow> (r, [], [], w)
      | None \<Rightarrow>
     (case parseId idParam of
        None \<Rightarrow> (C_error 400 ''Invalid id'', [], [], w)
      | Some i \<Rightarrow>
          if \<not> assertCapability (scope_in q w) reserve then (C_error 403 ''Account inactive'', [], [], w)
          else if \<not> owned_reservation q i w then (C_error 404 ''Reservation not found'', [], [], w)
          else (case cancelReservation date stored now i None (cw_db w) of
              (None, calls, notices, d) \<Rightarrow> (C_error 404 ''Reservation not found'', calls, notices, w\<lparr>cw_db := d\<rparr>)
            | (Some r, calls, notices, d) \<Rightarrow>
                (C_reservation 200 (toReservationRowDTO r), calls, notices, audited q ''reservation-cancel'' i (w\<lparr>cw_db := d\<rparr>)))))"

text \<open>The list: the statuses of the query are those of its comma-separated parts, all of which must exist.\<close>

definition status_text :: "(string \<times> reservation_status) list" where
  "status_text = [(''pending'', RPending), (''confirmed'', RConfirmed), (''active'', RActive), (''completed'', RCompleted),
     (''cancelled'', RCancelled), (''conflicted'', RConflicted), (''orphaned'', ROrphaned)]"

fun split_commas :: "string \<Rightarrow> string list" where
  "split_commas [] = [[]]"
| "split_commas (c # cs) =
     (if c = CHR '','' then [] # split_commas cs
      else (case split_commas cs of [] \<Rightarrow> [[c]] | p # ps \<Rightarrow> (c # p) # ps))"

definition parseStatuses :: "string option \<Rightarrow> reservation_status list option" where
  "parseStatuses raw =
     (if \<not> truthy raw then None
      else (let parts = filter (\<lambda>p. p \<noteq> []) (map Prelude.js_trim (split_commas (the raw))) in
        if list_all (\<lambda>p. map_of status_text p \<noteq> None) parts then Some (map (\<lambda>p. the (map_of status_text p)) parts) else None))"

text \<open>\<open>parseInt(\<dots>) || default\<close>.\<close>

definition int_param :: "int \<Rightarrow> string option \<Rightarrow> int" where
  "int_param d raw = (case raw of None \<Rightarrow> d
     | Some s \<Rightarrow> (case parse_int s of NaN \<Rightarrow> d | Num q \<Rightarrow> if q = 0 then d else \<lfloor>q\<rfloor>))"

definition reservations_GET ::
  "int \<Rightarrow> bool \<Rightarrow> customer_request \<Rightarrow> string option \<Rightarrow> bool \<Rightarrow> string option \<Rightarrow> string option \<Rightarrow> customer_world \<Rightarrow> customer_reply"
where
  "reservations_GET now names q statusRaw upcoming limitRaw skipRaw w =
     (if cq_user q = None then C_error 401 ''Unauthorized''
      else
        (let lim = max 1 (min (int_param 50 limitRaw) 500); skip = max 0 (int_param 0 skipRaw);
             statuses = parseStatuses statusRaw; sc = scope_in q w in
         if truthy statusRaw \<and> statuses = None then C_error 400 ''Invalid status filter''
         else if sc_tagPks sc = [] then C_reservations [] 0 skip lim
         else
           (let rows = filter (\<lambda>r. rv_tagPk r \<in> set (sc_tagPks sc) \<and> (case statuses of None \<Rightarrow> True | Some ss \<Rightarrow> rv_status r \<in> set ss)
                    \<and> (upcoming \<longrightarrow> rv_endAt r \<ge> now)) (rd_rows (cw_db w));
                page = take (nat lim) (drop (nat skip) (sort_key (if upcoming then rv_startAt else (\<lambda>r. - rv_startAt r)) rows))
            in C_reservations (enrichDtosWithFriendlyNames names (cw_db w) (map toReservationRowDTO page)) (length rows) skip lim)))"

section \<open>Sessions\<close>

definition session_id :: "string \<Rightarrow> int option" where
  "session_id s = (case parse_int s of NaN \<Rightarrow> None | Num q \<Rightarrow> if q > 0 then Some \<lfloor>q\<rfloor> else None)"

definition session_GET :: "customer_request \<Rightarrow> string \<Rightarrow> customer_world \<Rightarrow> customer_reply" where
  "session_GET q idParam w =
     (if cq_user q = None then C_error 401 ''Unauthorized''
      else (case session_id idParam of
          None \<Rightarrow> C_error 400 ''Invalid id''
        | Some i \<Rightarrow>
            if \<not> assertOwnership (scope_in q w) Own_session (Id_number i) (cw_events w) (rd_rows (cw_db w))
            then C_error 404 ''Session not found''
            else (case find (\<lambda>e. se_id e = i) (cw_events w) of
                None \<Rightarrow> C_error 404 ''Session not found''
              | Some e \<Rightarrow>
                  C_session e
                    (case find (\<lambda>m. Some (mappingId m) = ev_userMappingId e) (rd_mappings (cw_db w)) of
                       None \<Rightarrow> None | Some m \<Rightarrow> Some (steveOcppIdTag m))
                    (sort_key se_syncedAt (filter (\<lambda>x. ev_steveTransactionId x = ev_steveTransactionId e
                       \<and> ev_userMappingId x = ev_userMappingId e) (cw_events w))))))"

text \<open>
  The steps remote start and stop share: the insert of the log row, the command, the row again. \<open>task\<close> is what
  StEvE answers (\<open>None\<close>: the call throws), \<open>marked\<close> and \<open>failed\<close> say whether the updates of the row succeed.
\<close>

record operate_io =
  oi_insert :: bool
  oi_task :: "int option"
  oi_marked :: bool
  oi_failed :: bool

definition with_op :: "int \<Rightarrow> (op_row \<Rightarrow> op_row) \<Rightarrow> customer_world \<Rightarrow> customer_world" where
  "with_op i f w = w\<lparr>cw_ops := map (\<lambda>x. if ol_id x = i then f x else x) (cw_ops w)\<rparr>"

definition operate ::
  "operate_io \<Rightarrow> customer_request \<Rightarrow> command \<Rightarrow> string \<Rightarrow> string \<Rightarrow> customer_world \<Rightarrow> customer_reply \<times> customer_world"
where
  "operate io q cmd action failure w =
     (if \<not> oi_insert io then (C_error 500 failure, w)
      else
        (let i = cw_nextOp w;
             w1 = w\<lparr>cw_ops := cw_ops w @ [\<lparr>ol_id = i, ol_command = cmd, ol_requestedByUserId = the (cq_user q),
                      ol_status = Op_pending, ol_taskId = None\<rparr>], cw_nextOp := i + 1\<rparr>;
             fail = (\<lambda>v. if oi_failed io then (C_operation_failed i, with_op i (\<lambda>x. x\<lparr>ol_status := Op_failed\<rparr>) v)
                         else (C_error 500 failure, v))
         in case oi_task io of
              None \<Rightarrow> fail w1
            | Some t \<Rightarrow>
                let w2 = w1\<lparr>cw_sent := cw_sent w1 @ [cmd]\<rparr> in
                if \<not> oi_marked io then fail w2
                else (C_operation i t,
                      audited q action i (with_op i (\<lambda>x. x\<lparr>ol_taskId := Some t, ol_status := Op_submitted\<rparr>) w2))))"

text \<open>\<open>valid\<close>: StEvE's schema of the parameters. The session must have an event of one of the caller's mappings.\<close>

definition session_stop_POST ::
  "(command \<Rightarrow> bool) \<Rightarrow> operate_io \<Rightarrow> customer_request \<Rightarrow> (int option \<times> string option) option \<Rightarrow> customer_world
     \<Rightarrow> customer_reply \<times> customer_world"
where
  "session_stop_POST valid io q body w =
     (case mutation_guard q of
        Some r \<Rightarrow> (r, w)
      | None \<Rightarrow>
     (case body of
        None \<Rightarrow> (C_error 400 ''Invalid JSON body'', w)
      | Some (tx, box) \<Rightarrow>
          let sc = scope_in q w in
          if tx = None then (C_error 400 ''transactionId must be an integer'', w)
          else if \<not> truthy box then (C_error 400 ''chargeBoxId is required'', w)
          else if \<not> assertCapability sc stop_charge then (C_error 403 ''Account inactive'', w)
          else if sc_mappingIds sc = [] \<or> \<not> list_ex (\<lambda>e. ev_steveTransactionId e = the tx
              \<and> (case ev_userMappingId e of None \<Rightarrow> False | Some m \<Rightarrow> m \<in> set (sc_mappingIds sc))) (cw_events w)
            then (C_error 404 ''Session not found'', w)
          else if \<not> valid (RemoteStop (the box) (the tx)) then (C_error 400 ''Invalid RemoteStop params'', w)
          else operate io q (RemoteStop (the box) (the tx)) ''session-stop'' ''Failed to stop charging'' w))"

text \<open>
  Remote start, without its idempotency wrapper and without the connector in the command. \<open>pick\<close> is the order in which the database returns the
  active mappings of the caller, the first of which pays.
\<close>

definition remote_start_POST ::
  "(command \<Rightarrow> bool) \<Rightarrow> operate_io \<Rightarrow> (user_mapping list \<Rightarrow> user_mapping list) \<Rightarrow> customer_request \<Rightarrow> (string option \<times> int option option) option
     \<Rightarrow> customer_world \<Rightarrow> customer_reply \<times> customer_world"
where
  "remote_start_POST valid io pick q body w =
     (case mutation_guard q of
        Some r \<Rightarrow> (r, w)
      | None \<Rightarrow>
     (case body of
        None \<Rightarrow> (C_error 400 ''Invalid JSON body'', w)
      | Some (box, conn) \<Rightarrow>
          let sc = scope_in q w in
          if \<not> truthy box then (C_error 400 ''chargeBoxId is required'', w)
          else if (case conn of None \<Rightarrow> False | Some None \<Rightarrow> True | Some (Some n) \<Rightarrow> n < 0)
            then (C_error 400 ''connectorId must be a non-negative integer'', w)
          else if \<not> assertCapability sc start_charge then (C_error 403 ''Account inactive'', w)
          else if sc_mappingIds sc = [] then (C_error 404 ''No active card on file'', w)
          else (case pick (filter (\<lambda>m. mappingId m \<in> set (sc_mappingIds sc) \<and> isActive m) (rd_mappings (cw_db w))) of
              [] \<Rightarrow> (C_error 404 ''No active card on file'', w)
            | m # _ \<Rightarrow>
                let cmd = RemoteStart (the box) (steveOcppIdTag m) in
                if \<not> valid cmd then (C_error 400 ''Invalid RemoteStart params'', w)
                else operate io q cmd ''remote-start'' ''Failed to start charging'' w)))"

section \<open>Lost cards\<close>

text \<open>What a report starts: the push of the tag, the stop of its sessions, the change log and the notice.\<close>

record lost_effects =
  le_sync :: "user_mapping option"
  le_stop :: "(int list \<times> stop_reason) option"
  le_change :: "(int \<times> string \<times> string option \<times> string) option"
  le_notice :: "(string \<times> string) option"

definition no_lost :: lost_effects where
  "no_lost = \<lparr>le_sync = None, le_stop = None, le_change = None, le_notice = None\<rparr>"

definition lost_reason :: "string option \<Rightarrow> string" where
  "lost_reason r = (case r of None \<Rightarrow> [] | Some s \<Rightarrow> Prelude.js_trim (take 280 s))"

text \<open>\<open>body\<close> is \<open>None\<close> when it is no JSON, otherwise its reason; \<open>write\<close> whether the update succeeds.\<close>

definition report_lost_POST ::
  "bool \<Rightarrow> customer_request \<Rightarrow> string \<Rightarrow> string option option \<Rightarrow> user_mapping list
     \<Rightarrow> customer_reply \<times> lost_effects \<times> user_mapping list"
where
  "report_lost_POST write q idParam body ms =
     (if cq_user q = None then (C_error 401 ''Unauthorized'', no_lost, ms)
      else if truthy (cq_actingAs q) then (C_error 403 ''Read-only impersonation cannot report cards'', no_lost, ms)
      else (case session_id idParam of
          None \<Rightarrow> (C_error 400 ''Invalid id'', no_lost, ms)
        | Some i \<Rightarrow>
            if \<not> assertOwnership (resolveCustomerScope q ms) Own_card (Id_number i) [] []
            then (C_error 404 ''Card not found'', no_lost, ms)
            else (case body of
                None \<Rightarrow> (C_error 400 ''invalid_json'', no_lost, ms)
              | Some r \<Rightarrow>
                  let reason = lost_reason r in
                  (case find (\<lambda>m. mappingId m = i) ms of
                     None \<Rightarrow> (C_error 404 ''Card not found'', no_lost, ms)
                   | Some m \<Rightarrow>
                       if \<not> isActive m then (C_lost True, no_lost, ms)
                       else if \<not> write then (C_error 500 ''Failed to deactivate card'', no_lost, ms)
                       else
                         (C_lost False,
                          \<lparr>le_sync = Some (m\<lparr>isActive := False\<rparr>),
                           le_stop = Some ([i], \<lparr>rs_code = ''card_reported_lost'',
                             rs_detail = (if reason = [] then ''Card reported lost by customer''
                                          else ''Card reported lost by customer: '' @ reason), rs_webhookEventId = None\<rparr>),
                           le_change = Some (steveOcppTagPk m, steveOcppIdTag m, (if reason = [] then None else Some reason), the (cq_user q)),
                           le_notice = Some (''Card reported lost: '' @
                               (let n = (case displayName m of None \<Rightarrow> [] | Some s \<Rightarrow> Prelude.js_trim s) in if n = [] then steveOcppIdTag m else n),
                             (if reason = [] then ''Customer reported card '' @ steveOcppIdTag m @ '' as lost.''
                              else ''Customer reported card '' @ steveOcppIdTag m @ '' as lost. Reason: '' @ reason))\<rparr>,
                          map (\<lambda>x. if mappingId x = i then x\<lparr>isActive := False\<rparr> else x) ms)))))"

section \<open>A tag is booked by the key of a mapping\<close>

lemma scope_mappings: "i \<in> set (sc_mappingIds (resolveCustomerScope q ms)) \<longleftrightarrow>
    truthy (effective_user q) \<and> (\<exists>m \<in> set ms. userId m = effective_user q \<and> mappingId m = i)"
  by (auto simp: resolveCustomerScope_def no_scope_def Let_def)

lemma scope_tags: "k \<in> set (sc_tagPks (resolveCustomerScope q ms)) \<longleftrightarrow>
    truthy (effective_user q) \<and> (\<exists>m \<in> set ms. userId m = effective_user q \<and> steveOcppTagPk m = k)"
  by (auto simp: resolveCustomerScope_def no_scope_def Let_def)

lemma scope_active: "sc_isActive (resolveCustomerScope q ms) \<longleftrightarrow>
    truthy (effective_user q) \<and> (\<exists>m \<in> set ms. userId m = effective_user q \<and> isActive m)"
  by (auto simp: resolveCustomerScope_def no_scope_def list_ex_iff Let_def)

lemma own_card: "assertOwnership sc Own_card (Id_number n) evs rows \<longleftrightarrow> n \<in> set (sc_mappingIds sc)"
  by (simp add: assertOwnership_def numericId_def)

text \<open>Whose reservation a row is: the tag, its name and the subscription that pays.\<close>

definition booked_for :: "reservation \<Rightarrow> int \<times> string \<times> string option" where
  "booked_for r = (rv_tagPk r, rv_idTag r, rv_subscription r)"

lemma update_row_owner:
  assumes "\<And>r. booked_for (f r) = booked_for r"
  shows "map booked_for (rd_rows (snd (update_row i f d))) = map booked_for (rd_rows d)"
  using assms by (simp add: update_row_def Let_def)

lemma create_owner:
  assumes "st < en" "checkConflicts box conn st en None d = Inr []"
  shows "\<exists>r d'. createReservation now task ans \<lparr>ri_chargeBoxId = box, ri_connectorId = conn, ri_tagPk = pk, ri_idTag = tag,
      ri_subscription = sub, ri_startAt = st, ri_endAt = en, ri_createdBy = by, ri_force = False\<rparr> d = (Inr (Created r), d')
    \<and> map booked_for (rd_rows d') = map booked_for (rd_rows d) @ [(pk, tag, sub)]"
proof -
  let ?inp = "\<lparr>ri_chargeBoxId = box, ri_connectorId = conn, ri_tagPk = pk, ri_idTag = tag,
      ri_subscription = sub, ri_startAt = st, ri_endAt = en, ri_createdBy = by, ri_force = False\<rparr>"
  obtain r0 d1 where b: "book now ?inp d = (Inr (Created r0), d1)" "map booked_for (rd_rows d1) = map booked_for (rd_rows d) @ [(pk, tag, sub)]"
    using assms by (auto simp: book_def Let_def booked_for_def)
  obtain r1 d2 where a: "attach_profile task now r0 d1 = (r1, d2)" by fastforce
  have o2: "map booked_for (rd_rows d2) = map booked_for (rd_rows d1)"
  proof (cases task)
    case (Some t)
    then have "d2 = snd (update_row (rv_id r0) (\<lambda>x. x\<lparr>rv_profileTaskId := Some t, rv_updatedAt := now\<rparr>) d1)"
      using a by (auto simp: attach_profile_def split: prod.splits)
    then show ?thesis using update_row_owner by (simp add: booked_for_def)
  qed (use a in \<open>simp add: attach_profile_def\<close>)
  obtain r2 d3 where p: "reserve_reply ans now r1 d2 = (r2, d3)" by fastforce
  have o3: "map booked_for (rd_rows d3) = map booked_for (rd_rows d2)"
  proof (cases "\<exists>x t. ans = Some x \<and> ra_taskId x = Some t")
    case True
    then obtain x t where x: "ans = Some x" "ra_taskId x = Some t" by blast
    then have "d3 = snd (update_row (rv_id r1) (\<lambda>y. y\<lparr>rv_updatedAt := now, rv_steveReservationId := Some t,
        rv_status := (case answer_status x (rv_chargeBoxId r1) of None \<Rightarrow> rv_status y | Some s \<Rightarrow> s)\<rparr>) d2)"
      using p by (auto simp: reserve_reply_def split: prod.splits)
    then show ?thesis using update_row_owner by (simp add: booked_for_def)
  qed (use p in \<open>auto simp: reserve_reply_def split: option.splits\<close>)
  show ?thesis using a p b o2 o3 by (simp add: createReservation_def)
qed

text \<open>
  C19. The endpoint that books a reservation compares the number of the tag with the ids of the caller's mappings. So a
  customer is refused the own tag, as if it did not exist, whenever its number is not by chance the id of
  one of the own mappings; and whenever the number of another customer's tag is the id of one of the caller's
  mappings, the booking is made on that tag, with the name of the other's card and at the cost of the
  other's subscription.
\<close>
theorem reservation_books_by_wrong_key:
  assumes "cq_user q = Some u" "u \<noteq> []" "cq_actingAs q = None"
    "x \<in> set (rd_mappings (cw_db w))" "userId x = Some u" "isActive x"
    "reserve_fields (Some b) = Inr (box, conn, pk, st, en)"
  shows "((\<forall>m \<in> set (rd_mappings (cw_db w)). userId m = Some u \<longrightarrow> mappingId m \<noteq> pk) \<longrightarrow>
      reservations_POST now task ans q (Some b) w = (C_error 404 ''Card not found'', w))
    \<and> (\<forall>y. mappingId x = pk \<and> find (\<lambda>m. steveOcppTagPk m = pk) (rd_mappings (cw_db w)) = Some y \<and> userId y \<noteq> Some u \<and>
      checkConflicts box conn st en None (cw_db w) = Inr [] \<longrightarrow>
      (\<exists>r w'. reservations_POST now task ans q (Some b) w = (C_reservation 201 (toReservationRowDTO r), w')
        \<and> map booked_for (rd_rows (cw_db w'))
          = map booked_for (rd_rows (cw_db w)) @ [(steveOcppTagPk y, steveOcppIdTag y, lagoSubscriptionExternalId y)]))"
proof -
  have g: "mutation_guard q = None" using assms(1, 3) by (simp add: mutation_guard_def)
  have eu: "effective_user q = Some u" using assms(1, 3) by (simp add: effective_user_def nullish_def)
  have cap: "assertCapability (scope_in q w) reserve"
    using assms(2, 4-6) eu by (auto simp: assertCapability_def getCustomerCapabilities_def scope_in_def scope_active)
  have own: "assertOwnership (scope_in q w) Own_card (Id_number pk) evs rows \<longleftrightarrow>
      (\<exists>m \<in> set (rd_mappings (cw_db w)). userId m = Some u \<and> mappingId m = pk)" for evs rows
    using assms(2) eu by (simp add: own_card scope_in_def scope_mappings)
  have "reservations_POST now task ans q (Some b) w = (C_error 404 ''Card not found'', w)"
    if "\<forall>m \<in> set (rd_mappings (cw_db w)). userId m = Some u \<longrightarrow> mappingId m \<noteq> pk"
    using that own by (auto simp: reservations_POST_def g assms(7) cap Let_def)
  moreover have "\<exists>r w'. reservations_POST now task ans q (Some b) w = (C_reservation 201 (toReservationRowDTO r), w')
        \<and> map booked_for (rd_rows (cw_db w'))
          = map booked_for (rd_rows (cw_db w)) @ [(steveOcppTagPk y, steveOcppIdTag y, lagoSubscriptionExternalId y)]"
    if h: "mappingId x = pk" "find (\<lambda>m. steveOcppTagPk m = pk) (rd_mappings (cw_db w)) = Some y" "userId y \<noteq> Some u"
      "checkConflicts box conn st en None (cw_db w) = Inr []" for y
  proof -
    have y: "steveOcppTagPk y = pk" using h(2) by (auto simp: find_Some_iff)
    have t: "st < en" using h(4) by (auto simp: checkConflicts_def split: if_splits)
    obtain r d' where c: "createReservation now task ans \<lparr>ri_chargeBoxId = box, ri_connectorId = conn, ri_tagPk = pk, ri_idTag = steveOcppIdTag y,
        ri_subscription = lagoSubscriptionExternalId y, ri_startAt = st, ri_endAt = en, ri_createdBy = cq_user q, ri_force = False\<rparr> (cw_db w)
          = (Inr (Created r), d')"
      "map booked_for (rd_rows d') = map booked_for (rd_rows (cw_db w)) @ [(pk, steveOcppIdTag y, lagoSubscriptionExternalId y)]"
      using create_owner [OF t h(4)] by metis
    have "\<exists>m \<in> set (rd_mappings (cw_db w)). userId m = Some u \<and> mappingId m = pk" using assms(4, 5) h(1) by blast
    then have "reservations_POST now task ans q (Some b) w
        = (C_reservation 201 (toReservationRowDTO r), audited q ''reservation-create'' (rv_id r) (w\<lparr>cw_db := d'\<rparr>))"
      using own by (simp add: reservations_POST_def g assms(7) cap h(2) c(1))
    then show ?thesis using c(2) y by (auto simp: audited_def)
  qed
  ultimately show ?thesis by blast
qed

definition customer_mapping :: "int \<Rightarrow> int \<Rightarrow> string \<Rightarrow> string \<Rightarrow> user_mapping" where
  "customer_mapping i pk tag user = \<lparr>mappingId = i, steveOcppTagPk = pk, steveOcppIdTag = tag, lagoCustomerExternalId = Some user,
     lagoSubscriptionExternalId = Some (''sub-'' @ user), displayName = None, isActive = True, steveParentIdTag = None,
     steveExpiryDate = None, userId = Some user\<rparr>"

definition two_customers :: customer_world where
  "two_customers = \<lparr>cw_db = \<lparr>rd_rows = [], rd_nextId = 1,
       rd_mappings = [customer_mapping 7 3 ''TAG-A'' ''ann'', customer_mapping 8 7 ''TAG-B'' ''ben''], rd_chargers = []\<rparr>,
     cw_events = [], cw_ops = [], cw_nextOp = 1, cw_sent = [], cw_audit = []\<rparr>"

definition ask_for :: "int \<Rightarrow> reserve_body" where
  "ask_for pk = \<lparr>rb_chargeBoxId = Some ''CB1'', rb_connectorId = Some 1, rb_tagPk = Some pk,
     rb_startAt = Some ''2026-01-01T10:00:00Z'', rb_endAt = Some ''2026-01-01T11:00:00Z''\<rparr>"

definition ann_request :: customer_request where
  "ann_request = \<lparr>cq_user = Some ''ann'', cq_actingAs = None\<rparr>"

theorem reservation_books_by_wrong_key_witness:
  "reservations_POST 0 None None ann_request (Some (ask_for 3)) two_customers = (C_error 404 ''Card not found'', two_customers)
   \<and> (\<exists>r w'. reservations_POST 0 None None ann_request (Some (ask_for 7)) two_customers = (C_reservation 201 (toReservationRowDTO r), w')
     \<and> map booked_for (rd_rows (cw_db w')) = [(7, ''TAG-B'', Some ''sub-ben'')])"
proof -
  have f: "reserve_fields (Some (ask_for 3)) = Inr (''CB1'', 1, 3, 1767261600000, 1767265200000)"
    "reserve_fields (Some (ask_for 7)) = Inr (''CB1'', 1, 7, 1767261600000, 1767265200000)" by code_simp+
  let ?x = "customer_mapping 7 3 ''TAG-A'' ''ann''" and ?y = "customer_mapping 8 7 ''TAG-B'' ''ben''"
  have ms: "rd_mappings (cw_db two_customers) = [?x, ?y]" by (simp add: two_customers_def)
  have q: "cq_user ann_request = Some ''ann''" "cq_actingAs ann_request = None" by (simp_all add: ann_request_def)
  have x: "?x \<in> set (rd_mappings (cw_db two_customers))" "userId ?x = Some ''ann''" "isActive ?x"
    by (simp_all add: ms) (simp_all add: customer_mapping_def)
  have c: "checkConflicts ''CB1'' 1 1767261600000 1767265200000 None (cw_db two_customers) = Inr []"
    by (simp add: checkConflicts_def two_customers_def)
  have y: "find (\<lambda>m. steveOcppTagPk m = 7) (rd_mappings (cw_db two_customers)) = Some ?y"
    by (simp add: ms) (simp add: customer_mapping_def)
  have "\<forall>m \<in> set (rd_mappings (cw_db two_customers)). userId m = Some ''ann'' \<longrightarrow> mappingId m \<noteq> 3"
    by (simp add: ms) (simp add: customer_mapping_def)
  with reservation_books_by_wrong_key [OF q(1) _ q(2) x f(1), of 0 None None]
  have a: "reservations_POST 0 None None ann_request (Some (ask_for 3)) two_customers = (C_error 404 ''Card not found'', two_customers)"
    by simp
  have "mappingId ?x = 7 \<and> userId ?y \<noteq> Some ''ann''" by (simp add: customer_mapping_def)
  with y c reservation_books_by_wrong_key [OF q(1) _ q(2) x f(2), of 0 None None]
  have "\<exists>r w'. reservations_POST 0 None None ann_request (Some (ask_for 7)) two_customers = (C_reservation 201 (toReservationRowDTO r), w')
     \<and> map booked_for (rd_rows (cw_db w'))
       = map booked_for (rd_rows (cw_db two_customers)) @ [(steveOcppTagPk ?y, steveOcppIdTag ?y, lagoSubscriptionExternalId ?y)]"
    by blast
  with a show ?thesis by (simp add: customer_mapping_def two_customers_def)
qed

section \<open>Customers are kept apart\<close>

lemma owned_iff:
  "assertOwnership sc Own_reservation (Id_number i) evs rows
     \<longleftrightarrow> (\<exists>r. find (\<lambda>r. rv_id r = i) rows = Some r \<and> rv_tagPk r \<in> set (sc_tagPks sc))"
  by (auto simp: assertOwnership_def numericId_def split: option.splits)

lemma update_row_other:
  assumes "distinct (map rv_id (rd_rows d))" "find (\<lambda>r. rv_id r = i) (rd_rows d) = Some e" "j < length (rd_rows d)" "rd_rows d ! j \<noteq> e"
  shows "rd_rows (snd (update_row i f d)) ! j = rd_rows d ! j"
proof -
  have "e \<in> set (rd_rows d)" "rv_id e = i" using assms(2) by (auto simp: find_Some_iff)
  then have "rv_id (rd_rows d ! j) \<noteq> i"
    using assms(1, 3, 4) unfolding distinct_map by (metis inj_onD nth_mem)
  then show ?thesis using assms(3) by (simp add: update_row_def Let_def)
qed

lemma reschedule_other:
  assumes "distinct (map rv_id (rd_rows d))" "find (\<lambda>r. rv_id r = i) (rd_rows d) = Some e" "j < length (rd_rows d)" "rd_rows d ! j \<noteq> e"
    "rescheduleReservation now i st en force d = (res, d')"
  shows "rd_rows d' ! j = rd_rows d ! j"
  using assms(5) update_row_other [OF assms(1-4)]
  by (auto simp: rescheduleReservation_def assms(2) Let_def split: if_splits sum.splits prod.splits)
     (metis snd_conv)+

lemma cancel_other:
  assumes "distinct (map rv_id (rd_rows d))" "find (\<lambda>r. rv_id r = i) (rd_rows d) = Some e" "j < length (rd_rows d)" "rd_rows d ! j \<noteq> e"
    "cancelReservation date stored now i reason d = (u, calls, notices, d')"
  shows "rd_rows d' ! j = rd_rows d ! j"
  using assms(5) update_row_other [OF assms(1-4)]
  by (auto simp: cancelReservation_def assms(2) Let_def split: if_splits prod.splits) (metis snd_conv)+

lemma patch_cases:
  assumes "reservation_PATCH now q idParam body w = (reply, w')"
  shows "w' = w \<or> (\<exists>i st en res. owned_reservation q i w \<and> rescheduleReservation now i st en False (cw_db w) = (res, cw_db w'))"
  using assms
  by (auto simp: reservation_PATCH_def audited_def split: option.splits sum.splits prod.splits if_splits list.splits)

lemma delete_cases:
  assumes "reservation_DELETE date stored now q idParam w = (reply, calls, notices, w')"
  shows "(w' = w \<and> calls = [] \<and> notices = []) \<or> (\<exists>i u. owned_reservation q i w
    \<and> cancelReservation date stored now i None (cw_db w) = (u, calls, notices, cw_db w'))"
  using assms
  by (auto simp: reservation_DELETE_def audited_def split: option.splits prod.splits if_splits)

lemma operate_sent:
  "operate io q cmd action fl w = (reply, w') \<Longrightarrow> cw_sent w' = cw_sent w \<or> cw_sent w' = cw_sent w @ [cmd]"
  by (auto simp: operate_def Let_def with_op_def audited_def split: option.splits if_splits)

text \<open>A reservation of another tag is not touched, whichever one is moved or cancelled.\<close>

lemma owned_entry:
  assumes "owned_reservation q i w"
  obtains e where "find (\<lambda>r. rv_id r = i) (rd_rows (cw_db w)) = Some e" "rv_tagPk e \<in> set (sc_tagPks (scope_in q w))"
  using assms unfolding owned_reservation_def owned_iff by blast

lemma patch_apart:
  assumes "distinct (map rv_id (rd_rows (cw_db w)))" "reservation_PATCH now q idParam body w = (reply, w')"
    "j < length (rd_rows (cw_db w))" "rv_tagPk (rd_rows (cw_db w) ! j) \<notin> set (sc_tagPks (scope_in q w))"
  shows "rd_rows (cw_db w') ! j = rd_rows (cw_db w) ! j"
  using patch_cases [OF assms(2)]
proof (elim disjE exE conjE)
  fix i st en res
  assume o: "owned_reservation q i w" and r: "rescheduleReservation now i st en False (cw_db w) = (res, cw_db w')"
  obtain e where e: "find (\<lambda>r. rv_id r = i) (rd_rows (cw_db w)) = Some e" "rv_tagPk e \<in> set (sc_tagPks (scope_in q w))"
    by (rule owned_entry [OF o])
  have "rd_rows (cw_db w) ! j \<noteq> e" using e(2) assms(4) by auto
  then show ?thesis by (rule reschedule_other [OF assms(1) e(1) assms(3) _ r])
qed simp

lemma delete_apart:
  assumes "distinct (map rv_id (rd_rows (cw_db w)))"
    "reservation_DELETE date stored now q idParam w = (reply, calls, notices, w')"
    "j < length (rd_rows (cw_db w))" "rv_tagPk (rd_rows (cw_db w) ! j) \<notin> set (sc_tagPks (scope_in q w))"
  shows "rd_rows (cw_db w') ! j = rd_rows (cw_db w) ! j"
  using delete_cases [OF assms(2)]
proof (elim disjE exE conjE)
  fix i u
  assume o: "owned_reservation q i w" and r: "cancelReservation date stored now i None (cw_db w) = (u, calls, notices, cw_db w')"
  obtain e where e: "find (\<lambda>r. rv_id r = i) (rd_rows (cw_db w)) = Some e" "rv_tagPk e \<in> set (sc_tagPks (scope_in q w))"
    by (rule owned_entry [OF o])
  have "rd_rows (cw_db w) ! j \<noteq> e" using e(2) assms(4) by auto
  then show ?thesis by (rule cancel_other [OF assms(1) e(1) assms(3) _ r])
qed simp

lemma stop_apart:
  assumes "session_stop_POST valid io q sbody w = (reply, w')" "cw_sent w' \<noteq> cw_sent w"
  shows "\<exists>box tx. cw_sent w' = cw_sent w @ [RemoteStop box tx] \<and> \<not> truthy (cq_actingAs q)
    \<and> (\<exists>x \<in> set (cw_events w). ev_steveTransactionId x = tx \<and> (\<exists>m \<in> set (sc_mappingIds (scope_in q w)). ev_userMappingId x = Some m))"
proof -
  obtain tx box where b: "mutation_guard q = None"
    "operate io q (RemoteStop box tx) ''session-stop'' ''Failed to stop charging'' w = (reply, w')"
    "list_ex (\<lambda>e. ev_steveTransactionId e = tx
      \<and> (case ev_userMappingId e of None \<Rightarrow> False | Some m \<Rightarrow> m \<in> set (sc_mappingIds (scope_in q w)))) (cw_events w)"
    using assms by (auto simp: session_stop_POST_def Let_def split: option.splits if_splits)
  have "cw_sent w' = cw_sent w @ [RemoteStop box tx]" using operate_sent [OF b(2)] assms(2) by simp
  moreover have "\<not> truthy (cq_actingAs q)" using b(1) by (auto simp: mutation_guard_def split: if_splits)
  moreover have "\<exists>x \<in> set (cw_events w). ev_steveTransactionId x = tx \<and> (\<exists>m \<in> set (sc_mappingIds (scope_in q w)). ev_userMappingId x = Some m)"
    using b(3) by (auto simp: list_ex_iff split: option.splits)
  ultimately show ?thesis by blast
qed

text \<open>
  C10. Customers are kept apart. Moving or cancelling a reservation changes no reservation of a tag that is not the
  caller's; a session is shown only if it was charged to one of the caller's cards, with events of that card
  only; and the only command a stop sends is one for a transaction with an event of one of the caller's cards,
  and none while an administrator merely acts as the customer.
\<close>
theorem customers_kept_apart:
  assumes "distinct (map rv_id (rd_rows (cw_db w)))" "sc = scope_in q w"
  shows "(\<forall>body reply w1 j. reservation_PATCH now q idParam body w = (reply, w1) \<and> j < length (rd_rows (cw_db w)) \<and>
      rv_tagPk (rd_rows (cw_db w) ! j) \<notin> set (sc_tagPks sc) \<longrightarrow> rd_rows (cw_db w1) ! j = rd_rows (cw_db w) ! j)
    \<and> (\<forall>date stored reply calls notices w2 j.
      reservation_DELETE date stored now q idParam w = (reply, calls, notices, w2) \<and> j < length (rd_rows (cw_db w)) \<and>
      rv_tagPk (rd_rows (cw_db w) ! j) \<notin> set (sc_tagPks sc) \<longrightarrow> rd_rows (cw_db w2) ! j = rd_rows (cw_db w) ! j)
    \<and> (\<forall>sid e tag evs. session_GET q sid w = C_session e tag evs \<longrightarrow>
      (\<exists>m \<in> set (sc_mappingIds sc). ev_userMappingId e = Some m \<and> (\<forall>x \<in> set evs. ev_userMappingId x = Some m)))
    \<and> (\<forall>valid io sbody reply w3. session_stop_POST valid io q sbody w = (reply, w3) \<and> cw_sent w3 \<noteq> cw_sent w \<longrightarrow>
      (\<exists>box tx. cw_sent w3 = cw_sent w @ [RemoteStop box tx] \<and> \<not> truthy (cq_actingAs q)
        \<and> (\<exists>x \<in> set (cw_events w). ev_steveTransactionId x = tx \<and> (\<exists>m \<in> set (sc_mappingIds sc). ev_userMappingId x = Some m))))"
proof -
  have get: "\<exists>m \<in> set (sc_mappingIds (scope_in q w)). ev_userMappingId e = Some m \<and> (\<forall>x \<in> set evs. ev_userMappingId x = Some m)"
    if "session_GET q sid w = C_session e tag evs" for sid e tag evs
    using that by (auto simp: session_GET_def assertOwnership_def numericId_def split: if_splits option.splits)
  show ?thesis
    unfolding assms(2)
    by (intro conjI allI impI; (elim conjE)?)
      (erule (2) patch_apart [OF assms(1)], erule (2) delete_apart [OF assms(1)], erule get, erule (1) stop_apart)
qed

definition bens_reservation :: reservation where
  "bens_reservation = \<lparr>rv_id = 5, rv_chargeBoxId = ''CB1'', rv_connectorId = 1, rv_tagPk = 7, rv_idTag = ''TAG-B'',
     rv_subscription = None, rv_startAt = 0, rv_endAt = 10, rv_durationMinutes = 1, rv_status = RConfirmed,
     rv_steveReservationId = None, rv_profileTaskId = None, rv_createdBy = None, rv_updatedAt = 0, rv_cancelledAt = None\<rparr>"

definition booked_world :: customer_world where
  "booked_world = two_customers\<lparr>cw_db := (cw_db two_customers)\<lparr>rd_rows := [bens_reservation]\<rparr>\<rparr>"

theorem customers_kept_apart_witness:
  "rd_rows (cw_db (snd (snd (snd (reservation_DELETE show_int True 0 ann_request (Some ''5'') booked_world))))) ! 0 = bens_reservation"
proof -
  obtain reply calls notices w2 where d: "reservation_DELETE show_int True 0 ann_request (Some ''5'') booked_world = (reply, calls, notices, w2)"
    by (metis prod_cases4)
  have r: "rd_rows (cw_db booked_world) = [bens_reservation]" by (simp add: booked_world_def)
  have n: "rv_tagPk bens_reservation \<notin> set (sc_tagPks (scope_in ann_request booked_world))" by code_simp
  show ?thesis
    using customers_kept_apart [OF _ refl, of booked_world 0 ann_request "Some ''5''"] d n by (force simp: r)
qed

section \<open>A lost card comes back\<close>

text \<open>
  C13. A card that its owner has reported as lost is switched off and pushed to the OCPP server as blocked. But the next
  webhook that reports the start of its subscription switches it on again and has it pushed as usable, so
  whoever found the card can charge at the owner's cost.
\<close>
theorem lost_card_comes_back:
  assumes "report_lost_POST True q idParam body ms = (C_lost False, eff, ms')"
    and "lifecycle_body hook True u" "lets_through io (s\<lparr>hk_mappings := ms'\<rparr>)" "dp_flip io = None"
  shows "\<exists>m. le_sync eff = Some m \<and> m \<in> set ms' \<and> \<not> isActive m
    \<and> (lagoSubscriptionExternalId m = Some u \<longrightarrow>
        m\<lparr>isActive := True\<rparr> \<in> set (hk_mappings (dispatch io hook i (s\<lparr>hk_mappings := ms'\<rparr>)))
        \<and> Sync_tag (m\<lparr>isActive := True\<rparr>) \<in> set (hk_tasks (dispatch io hook i (s\<lparr>hk_mappings := ms'\<rparr>))))"
proof -
  obtain k m where k: "find (\<lambda>m. mappingId m = k) ms = Some m" "isActive m" "le_sync eff = Some (m\<lparr>isActive := False\<rparr>)"
    "ms' = map (\<lambda>x. if mappingId x = k then x\<lparr>isActive := False\<rparr> else x) ms"
    using assms(1) by (auto simp: report_lost_POST_def Let_def split: if_splits option.splits)
  have m: "m \<in> set ms" "mappingId m = k" using k(1) by (auto simp: find_Some_iff)
  let ?m = "m\<lparr>isActive := False\<rparr>"
  have in': "?m \<in> set ms'" using m by (auto simp: k(4) image_iff intro!: bexI [of _ m])
  let ?s = "s\<lparr>hk_mappings := ms'\<rparr>"
  have "m\<lparr>isActive := True\<rparr> \<in> set (hk_mappings (dispatch io hook i ?s)) \<and> Sync_tag (m\<lparr>isActive := True\<rparr>) \<in> set (hk_tasks (dispatch io hook i ?s))"
    if sub: "lagoSubscriptionExternalId m = Some u"
  proof -
    obtain wt where e: "hook_effects (dispatch io hook i ?s) =
      (map (\<lambda>m. if flips u True m then m\<lparr>isActive := True\<rparr> else m) (hk_mappings ?s),
       hk_tasks ?s @ (if flipped u True (hk_mappings ?s) = [] then [] else flip_tasks wt u i True (flipped u True (hk_mappings ?s))))"
      by (rule lifecycle_effects [OF assms(2-4)])
    have f: "flips u True ?m" using sub by (simp add: flips_def)
    have on: "?m\<lparr>isActive := True\<rparr> = m\<lparr>isActive := True\<rparr>" by simp
    have "m\<lparr>isActive := True\<rparr> \<in> set (flipped u True ms')"
      using f in' on by (auto simp: flipped_def image_iff intro!: bexI [of _ ?m])
    moreover have "m\<lparr>isActive := True\<rparr> \<in> set (map (\<lambda>m. if flips u True m then m\<lparr>isActive := True\<rparr> else m) ms')"
      using f in' on by (auto simp: image_iff intro!: bexI [of _ ?m])
    ultimately show ?thesis using e by (auto simp: hook_effects_def flip_tasks_def)
  qed
  then show ?thesis using k(3) in' by (intro exI [of _ ?m]) simp
qed

theorem lost_card_comes_back_witness:
  "\<exists>eff ms'. report_lost_POST True ann_request ''7'' (Some None) [(customer_mapping 7 3 ''TAG-A'' ''ann'')\<lparr>lagoSubscriptionExternalId := Some ''sub-1''\<rparr>]
       = (C_lost False, eff, ms')
     \<and> (\<exists>m. le_sync eff = Some m \<and> \<not> isActive m
        \<and> m\<lparr>isActive := True\<rparr> \<in> set (hk_mappings (dispatch ok_io (subscription_body ''subscription.started'' ''sub-1'') 1
             (demo_hooks\<lparr>hk_mappings := ms'\<rparr>))))"
proof -
  let ?card = "(customer_mapping 7 3 ''TAG-A'' ''ann'')\<lparr>lagoSubscriptionExternalId := Some ''sub-1''\<rparr>"
  obtain reply eff ms' where r: "report_lost_POST True ann_request ''7'' (Some None) [?card] = (reply, eff, ms')" by (metis prod_cases3)
  have "fst (report_lost_POST True ann_request ''7'' (Some None) [?card]) = C_lost False"
    "map_option lagoSubscriptionExternalId (le_sync (fst (snd (report_lost_POST True ann_request ''7'' (Some None) [?card])))) = Some (Some ''sub-1'')"
    by code_simp+
  then have l: "reply = C_lost False" "map_option lagoSubscriptionExternalId (le_sync eff) = Some (Some ''sub-1'')" using r by simp_all
  have h: "lets_through ok_io (demo_hooks\<lparr>hk_mappings := ms'\<rparr>)" "dp_flip ok_io = None"
    by (simp_all add: lets_through_def demo_hooks_def closed_breaker_def isDispatchDisabled_def hydrateBreakerStateOnce_def ok_io_def)
  show ?thesis
    using lost_card_comes_back [OF r [unfolded l(1)] demo_lifecycle(2) h, of 1] r l by auto
qed

end
