(* ===== verification/Tariffs.thy ===== *)
theory Tariffs
  imports LagoTypes
begin

text \<open>
  The estimated cost a customer sees before the invoice (\<open>src/lib/customer-tariff.ts\<close>) and the plan it is
  derived from (\<open>derivePlanInfo\<close> of \<open>src/lib/billing-derive.ts\<close>). Energies and prices are exact rationals
  where JavaScript has binary fractions; the labels of the tiers, which need the locale, are left out, and
  the answers of Lago are arguments.
\<close>

section \<open>Plans\<close>

record plan_tier =
  tr_upToKwh :: "rat option"
  tr_pricePerKwh :: "rat option"

record plan_info =
  pl_name :: string
  pl_currencySymbol :: string
  pl_monthlyCharge :: "rat option"
  pl_perKwhCharge :: "rat option"
  pl_tiers :: "plan_tier list"
  pl_consumedKwh :: rat
  pl_hardCapKwh :: "rat option"

text \<open>\<open>parseFloat\<close>: blanks, a sign, digits with a point, an exponent; an infinite value is not finite and so \<open>None\<close> too.\<close>

definition exponent_of :: "string \<Rightarrow> rat \<Rightarrow> rat" where
  "exponent_of s x =
     (case s of
        c # r \<Rightarrow>
          if c = CHR ''e'' \<or> c = CHR ''E'' then
            (let neg = (case r of d # _ \<Rightarrow> d = CHR ''-'' | [] \<Rightarrow> False);
                 r1 = (case r of d # q \<Rightarrow> if d = CHR ''-'' \<or> d = CHR ''+'' then q else r | [] \<Rightarrow> []);
                 ds = takeWhile is_digit r1
             in if ds = [] then x else if neg then x / 10 ^ digits_val ds else x * 10 ^ digits_val ds)
          else x
      | [] \<Rightarrow> x)"

definition parse_float :: "string \<Rightarrow> rat option" where
  "parse_float s =
     (let s1 = dropWhile js_space s;
          neg = (case s1 of c # _ \<Rightarrow> c = CHR ''-'' | [] \<Rightarrow> False);
          s2 = (case s1 of c # r \<Rightarrow> if c = CHR ''-'' \<or> c = CHR ''+'' then r else s1 | [] \<Rightarrow> []);
          whole = takeWhile is_digit s2;
          s3 = drop (length whole) s2;
          frac = (case s3 of c # r \<Rightarrow> if c = CHR ''.'' then takeWhile is_digit r else [] | [] \<Rightarrow> []);
          s4 = (case s3 of c # r \<Rightarrow> if c = CHR ''.'' then drop (length frac) r else s3 | [] \<Rightarrow> []);
          x = rat_of_nat (digits_val (whole @ frac)) / 10 ^ length frac
      in if whole = [] \<and> frac = [] then None else Some ((if neg then - 1 else 1) * exponent_of s4 x))"

text \<open>A value that is a text or a number, as a finite number.\<close>

definition text_or_num :: "json option \<Rightarrow> rat option" where
  "text_or_num j = (case j of Some (JStr s) \<Rightarrow> parse_float s | Some (JNum q) \<Rightarrow> Some q | _ \<Rightarrow> None)"

definition or_null :: "json option \<Rightarrow> json option \<Rightarrow> json option" where
  "or_null a b = (case a of None \<Rightarrow> b | Some JNull \<Rightarrow> b | Some x \<Rightarrow> Some x)"

definition as_arr :: "json option \<Rightarrow> json list" where
  "as_arr j = (case j of Some (JArr xs) \<Rightarrow> xs | _ \<Rightarrow> [])"

text \<open>A range of a graduated or volume charge. A price that is neither text nor number is zero.\<close>

definition tier_of :: "json \<Rightarrow> plan_tier" where
  "tier_of r =
     (let raw = or_null (or_null (field r ''per_unit_amount'') (field r ''flat_amount'')) (Some (JStr ''0''));
          per = (case raw of Some (JStr s) \<Rightarrow> parse_float s | Some (JNum q) \<Rightarrow> Some q | _ \<Rightarrow> Some 0);
          to_value = text_or_num (field r ''to_value'');
          from_value = (case text_or_num (field r ''from_value'') of None \<Rightarrow> 0 | Some q \<Rightarrow> q)
      in \<lparr>tr_upToKwh = map_option (\<lambda>t. t - from_value) to_value, tr_pricePerKwh = per\<rparr>)"

text \<open>The loop over the charges: the rate, the tiers and the cap found so far.\<close>

definition charge_step :: "json \<Rightarrow> rat option \<times> plan_tier list \<times> rat option \<Rightarrow> rat option \<times> plan_tier list \<times> rat option" where
  "charge_step c = (\<lambda>(per, tiers, cap).
     let model = as_str (field c ''charge_model'');
         props = (case or_null (field c ''properties'') (Some (JObj [])) of Some p \<Rightarrow> p | None \<Rightarrow> JObj [])
     in if model = Some ''standard'' then
          (case text_or_num (field props ''amount'') of Some q \<Rightarrow> (Some q, tiers, cap) | None \<Rightarrow> (per, tiers, cap))
        else if model = Some ''graduated'' then (per, tiers @ map tier_of (as_arr (field props ''graduated_ranges'')), cap)
        else if model = Some ''volume'' then (per, tiers @ map tier_of (as_arr (field props ''volume_ranges'')), cap)
        else if model = Some ''package'' then
          (case text_or_num (field props ''per_package_size'') of
             Some q \<Rightarrow> (per, tiers, if q > 0 then Some q else cap)
           | None \<Rightarrow> (per, tiers, cap))
        else (per, tiers, cap))"

definition derivePlanInfo :: "json option \<Rightarrow> rat \<Rightarrow> string \<Rightarrow> plan_info option" where
  "derivePlanInfo planRaw consumed symbol =
     (case planRaw of
        None \<Rightarrow> None
      | Some p \<Rightarrow>
          (case fold charge_step (as_arr (field p ''charges'')) (None, [], None) of
             (per, tiers, cap) \<Rightarrow>
               Some \<lparr>pl_name = (if truthy (as_str (field p ''name'')) then the (as_str (field p ''name''))
                                 else case as_str (field p ''code'') of Some c \<Rightarrow> c | None \<Rightarrow> ''Plan''),
                     pl_currencySymbol = symbol, pl_monthlyCharge = map_option (\<lambda>q. q / 100) (as_num (field p ''amount_cents'')),
                     pl_perKwhCharge = per, pl_tiers = tiers, pl_consumedKwh = consumed, pl_hardCapKwh = cap\<rparr>))"

section \<open>Tariffs\<close>

record tariff =
  tf_perKwh :: "rat option"
  tf_tiers :: "plan_tier list"
  tf_currency :: string

definition no_tariff :: tariff where
  "no_tariff = \<lparr>tf_perKwh = None, tf_tiers = [], tf_currency = ''EUR''\<rparr>"

text \<open>
  \<open>resolveCustomerTariff\<close>: the subscriptions of the customer and the plan, \<open>None\<close> when the call fails; the symbol
  of the currency is an argument of the plan only.
\<close>

definition resolveCustomerTariff ::
  "(string \<Rightarrow> json list option) \<Rightarrow> (string \<Rightarrow> json option) \<Rightarrow> (string \<Rightarrow> string) \<Rightarrow> string option \<Rightarrow> tariff"
where
  "resolveCustomerTariff subs plan symbol ext =
     (if \<not> truthy ext then no_tariff
      else (case subs (the ext) of
          None \<Rightarrow> no_tariff
        | Some ss \<Rightarrow>
            (case find (\<lambda>s. str_field s ''status'' = Some ''active'') ss of
               None \<Rightarrow> no_tariff
             | Some s \<Rightarrow>
                 if \<not> truthy (str_field s ''plan_code'') then no_tariff
                 else (case plan (the (str_field s ''plan_code'')) of
                     None \<Rightarrow> no_tariff
                   | Some p \<Rightarrow>
                       (let cur = (case str_field p ''amount_currency'' of None \<Rightarrow> ''EUR'' | Some c \<Rightarrow> c) in
                        case derivePlanInfo (Some p) 0 (symbol cur) of
                          None \<Rightarrow> \<lparr>tf_perKwh = None, tf_tiers = [], tf_currency = cur\<rparr>
                        | Some i \<Rightarrow> \<lparr>tf_perKwh = pl_perKwhCharge i, tf_tiers = pl_tiers i, tf_currency = cur\<rparr>)))))"

section \<open>Estimates\<close>

datatype coverage = Included | Billed | Unknown

record estimate =
  es_cents :: "int option"
  es_coverage :: coverage

text \<open>
  The walk over the tiers from a position, with the end of the range: the position reached, the cost and whether a
  paid tier was met. A tier without a size takes all the rest, so that nothing comes after it.
\<close>

fun tier_walk :: "plan_tier list \<Rightarrow> rat \<Rightarrow> rat \<Rightarrow> rat \<Rightarrow> rat \<Rightarrow> bool \<Rightarrow> rat \<times> rat \<times> bool" where
  "tier_walk [] cursor position end_kwh cost paid = (position, cost, paid)"
| "tier_walk (t # ts) cursor position end_kwh cost paid =
     (let rate = (case tr_pricePerKwh t of None \<Rightarrow> 0 | Some r \<Rightarrow> r) in
      case tr_upToKwh t of
        None \<Rightarrow>
          (let overlap = max 0 (end_kwh - max position cursor)
           in (end_kwh, cost + overlap * rate, paid \<or> (overlap > 0 \<and> rate > 0)))
      | Some sz \<Rightarrow>
          (let tierEnd = cursor + sz in
           if position < tierEnd then
             (let overlapEnd = min end_kwh tierEnd; overlap = max 0 (overlapEnd - max position cursor);
                  cost1 = cost + overlap * rate; paid1 = (paid \<or> (overlap > 0 \<and> rate > 0))
              in if overlapEnd \<ge> end_kwh then (overlapEnd, cost1, paid1)
                 else tier_walk ts tierEnd overlapEnd end_kwh cost1 paid1)
           else if position \<ge> end_kwh then (position, cost, paid)
           else tier_walk ts tierEnd position end_kwh cost paid))"

definition range_cost :: "tariff \<Rightarrow> rat \<Rightarrow> rat \<Rightarrow> rat \<times> bool" where
  "range_cost tf from_kwh kwh =
     (case tier_walk (tf_tiers tf) 0 from_kwh (from_kwh + kwh) 0 False of
        (position, cost, paid) \<Rightarrow>
          (case tf_perKwh tf of
             Some p \<Rightarrow> if position < from_kwh + kwh then (cost + (from_kwh + kwh - position) * p, paid \<or> p > 0) else (cost, paid)
           | None \<Rightarrow> (cost, paid)))"

definition costCentsForRange :: "tariff \<Rightarrow> rat \<Rightarrow> jsnum \<Rightarrow> estimate" where
  "costCentsForRange tf from_kwh kwh =
     (case kwh of
        NaN \<Rightarrow> \<lparr>es_cents = Some 0, es_coverage = Included\<rparr>
      | Num k \<Rightarrow>
          if k \<le> 0 then \<lparr>es_cents = Some 0, es_coverage = Included\<rparr>
          else if tf_tiers tf = [] then
            (case tf_perKwh tf of
               None \<Rightarrow> \<lparr>es_cents = None, es_coverage = Unknown\<rparr>
             | Some p \<Rightarrow>
                 if p = 0 then \<lparr>es_cents = Some 0, es_coverage = Included\<rparr>
                 else \<lparr>es_cents = Some (js_round (k * p * 100)), es_coverage = Billed\<rparr>)
          else (case range_cost tf from_kwh k of
              (cost, paid) \<Rightarrow> \<lparr>es_cents = Some (js_round (cost * 100)), es_coverage = if paid then Billed else Included\<rparr>))"

record energy_row =
  er_id :: int
  er_syncedAt :: int
  er_kwh :: jsnum

fun cumulate :: "rat \<Rightarrow> energy_row list \<Rightarrow> (int, rat) jsmap \<Rightarrow> (int, rat) jsmap" where
  "cumulate running [] m = m"
| "cumulate running (r # rs) m =
     cumulate (running + (case er_kwh r of NaN \<Rightarrow> 0 | Num k \<Rightarrow> k)) rs (AList.update (er_id r) running m)"

definition buildCumulativeMap :: "energy_row list \<Rightarrow> (int, rat) jsmap" where
  "buildCumulativeMap rows = cumulate 0 (sort_key er_syncedAt rows) []"

definition estimateEventCost :: "tariff \<Rightarrow> energy_row \<Rightarrow> (int, rat) jsmap \<Rightarrow> int \<Rightarrow> int \<Rightarrow> estimate" where
  "estimateEventCost tf r cumulative from_ms to_ms =
     (if tf_tiers tf = [] then costCentsForRange tf 0 (er_kwh r)
      else if \<not> (er_syncedAt r \<ge> from_ms \<and> er_syncedAt r < to_ms) then \<lparr>es_cents = None, es_coverage = Unknown\<rparr>
      else costCentsForRange tf (case map_of cumulative (er_id r) of None \<Rightarrow> 0 | Some k \<Rightarrow> k) (er_kwh r))"

definition aggregateEstimates :: "estimate list \<Rightarrow> estimate" where
  "aggregateEstimates es =
     (if es = [] then \<lparr>es_cents = Some 0, es_coverage = Included\<rparr>
      else (let known = filter (\<lambda>e. es_cents e \<noteq> None) es in
        if known = [] then \<lparr>es_cents = None, es_coverage = Unknown\<rparr>
        else \<lparr>es_cents = Some (sum_list (map (\<lambda>e. the (es_cents e)) known)),
              es_coverage = if list_ex (\<lambda>e. es_coverage e = Billed) known then Billed else Included\<rparr>))"

section \<open>The price of a range\<close>

text \<open>What the tiers say, band by band: the part of the range inside each band at its rate, the rest at the flat rate.\<close>

definition part :: "rat \<Rightarrow> rat \<Rightarrow> rat \<Rightarrow> rat \<Rightarrow> rat" where
  "part lo hi a b = max 0 (min b hi - max a lo)"

definition rate_of :: "plan_tier \<Rightarrow> rat" where
  "rate_of t = (case tr_pricePerKwh t of None \<Rightarrow> 0 | Some r \<Rightarrow> r)"

fun band_cost :: "rat \<Rightarrow> plan_tier list \<Rightarrow> rat \<Rightarrow> rat \<Rightarrow> rat \<Rightarrow> rat" where
  "band_cost p [] c a b = part c b a b * p"
| "band_cost p (t # ts) c a b =
     (case tr_upToKwh t of
        None \<Rightarrow> part c b a b * rate_of t
      | Some sz \<Rightarrow> part c (c + sz) a b * rate_of t + band_cost p ts (c + sz) a b)"

definition flat_rate :: "tariff \<Rightarrow> rat" where
  "flat_rate tf = (case tf_perKwh tf of None \<Rightarrow> 0 | Some p \<Rightarrow> p)"

definition tiers_ok :: "plan_tier list \<Rightarrow> bool" where
  "tiers_ok ts \<longleftrightarrow> (\<forall>t \<in> set ts. case tr_upToKwh t of None \<Rightarrow> True | Some sz \<Rightarrow> 0 \<le> sz)"

lemma tiers_ok_Nil [simp]: "tiers_ok []"
  by (simp add: tiers_ok_def)

lemma tiers_ok_Cons [simp]: "tiers_ok (t # ts) \<longleftrightarrow> (case tr_upToKwh t of None \<Rightarrow> True | Some sz \<Rightarrow> 0 \<le> sz) \<and> tiers_ok ts"
  by (simp add: tiers_ok_def)

lemma part_outside: "b \<le> lo \<Longrightarrow> part lo hi a b = 0"
  by (simp add: part_def max_def min_def)

lemma part_from: "a \<le> lo \<Longrightarrow> part lo hi a b = part lo hi lo b"
  by (simp add: part_def max_def)

lemma part_split: "a \<le> m \<Longrightarrow> m \<le> b \<Longrightarrow> part lo hi a m + part lo hi m b = part lo hi a b"
  by (simp add: part_def max_def min_def)

lemma part_open: "part lo b a b = max 0 (b - max a lo)"
  by (simp add: part_def)

lemma part_open_split: "a \<le> m \<Longrightarrow> m \<le> b \<Longrightarrow> part lo m a m + part lo b m b = part lo b a b"
  by (simp add: part_def max_def min_def)

lemma band_outside: "tiers_ok ts \<Longrightarrow> b \<le> c \<Longrightarrow> band_cost p ts c a b = 0"
  by (induction ts arbitrary: c) (auto simp: part_outside split: option.splits)

lemma band_from: "tiers_ok ts \<Longrightarrow> a \<le> c \<Longrightarrow> a' \<le> c \<Longrightarrow> band_cost p ts c a b = band_cost p ts c a' b"
proof (induction ts arbitrary: c)
  case (Cons t ts)
  have "part c hi a b = part c hi a' b" for hi using Cons.prems by (simp add: part_def max_def)
  moreover have "band_cost p ts (c + sz) a b = band_cost p ts (c + sz) a' b" if "tr_upToKwh t = Some sz" for sz
    using Cons.prems that by (intro Cons.IH) simp_all
  ultimately show ?case by (simp split: option.splits)
qed (simp add: part_def max_def)

lemma band_split: "a \<le> m \<Longrightarrow> m \<le> b \<Longrightarrow> band_cost p ts c a m + band_cost p ts c m b = band_cost p ts c a b"
proof (induction ts arbitrary: c)
  case Nil
  then show ?case using part_open_split [of a m b c] by (simp flip: distrib_right)
next
  case (Cons t ts)
  show ?case
  proof (cases "tr_upToKwh t")
    case None
    then show ?thesis using part_open_split [OF Cons.prems, of c] by (simp flip: distrib_right)
  next
    case (Some sz)
    have "part c (c + sz) a m * rate_of t + part c (c + sz) m b * rate_of t = part c (c + sz) a b * rate_of t"
      using part_split [OF Cons.prems, of c "c + sz"] by (simp flip: distrib_right)
    then show ?thesis using Cons.IH [OF Cons.prems, of "c + sz"] Some by simp
  qed
qed

text \<open>The walk computes it.\<close>

lemma walk_cost:
  assumes "tiers_ok ts" "c \<le> a" "a \<le> b" "tier_walk ts c a b cost paid = (pos, cost', paid')"
  shows "pos \<le> b \<and> cost' + (b - pos) * p = cost + band_cost p ts c a b"
  using assms
proof (induction ts arbitrary: c a cost paid)
  case Nil
  then show ?case by (simp add: part_open max_def)
next
  case (Cons t ts)
  show ?case
  proof (cases "tr_upToKwh t")
    case None
    then show ?thesis using Cons.prems by (auto simp: Let_def part_open rate_of_def)
  next
    case (Some sz)
    show ?thesis
    proof (cases "a < c + sz")
      case True
      show ?thesis
      proof (cases "c + sz \<ge> b")
        case ge: True
        then have m: "min b (c + sz) = b" by simp
        have "band_cost p ts (c + sz) a b = 0" using Cons.prems ge by (intro band_outside) simp_all
        then show ?thesis
          using Cons.prems True ge Some by (auto simp: Let_def m part_def rate_of_def)
      next
        case False
        then have m: "min b (c + sz) = c + sz" by simp
        let ?cost = "cost + max 0 (c + sz - max a c) * rate_of t"
        have w: "tier_walk ts (c + sz) (c + sz) b ?cost (paid \<or> (0 < max 0 (c + sz - max a c) \<and> 0 < rate_of t)) = (pos, cost', paid')"
          using Cons.prems(4) True False Some m by (simp add: Let_def rate_of_def)
        have "band_cost p ts (c + sz) a b = band_cost p ts (c + sz) (c + sz) b"
          using Cons.prems(1) True by (intro band_from) simp_all
        moreover have "part c (c + sz) a b = max 0 (c + sz - max a c)" using m by (simp add: part_def)
        ultimately show ?thesis
          using Cons.IH [OF _ order_refl _ w] Cons.prems(1) False Some by simp
      qed
    next
      case False
      show ?thesis
      proof (cases "a = b")
        case True
        have "part c (c + sz) a b = 0" "band_cost p ts (c + sz) a b = 0"
          using band_split [of a a a p ts "c + sz"] True by (simp_all add: part_def)
        then show ?thesis using Cons.prems False Some True by (simp add: Let_def)
      next
        case ne: False
        have "part c (c + sz) a b = 0" using False by (simp add: part_def max_def min_def)
        then show ?thesis
          using Cons.IH [of "c + sz" a cost paid] Cons.prems False ne Some by (simp add: Let_def)
      qed
    qed
  qed
qed

definition exact_cost :: "tariff \<Rightarrow> rat \<Rightarrow> rat \<Rightarrow> rat" where
  "exact_cost tf a b = band_cost (flat_rate tf) (tf_tiers tf) 0 a b"

lemma range_exact:
  assumes "tiers_ok (tf_tiers tf)" "0 \<le> a" "0 \<le> k"
  shows "fst (range_cost tf a k) = exact_cost tf a (a + k)"
proof -
  obtain pos cost paid where w: "tier_walk (tf_tiers tf) 0 a (a + k) 0 False = (pos, cost, paid)" by (metis prod_cases3)
  have "a \<le> a + k" using assms(3) by simp
  from walk_cost [OF assms(1, 2) this w, of "flat_rate tf"]
  have c: "pos \<le> a + k" "cost + (a + k - pos) * flat_rate tf = exact_cost tf a (a + k)" by (simp_all add: exact_cost_def)
  show ?thesis
  proof (cases "tf_perKwh tf")
    case None
    then show ?thesis using c w by (simp add: range_cost_def flat_rate_def)
  next
    case (Some p)
    then show ?thesis using c w by (cases "pos < a + k") (auto simp: range_cost_def flat_rate_def)
  qed
qed

lemma exact_same: "exact_cost tf a a = 0"
proof -
  have "exact_cost tf a a + exact_cost tf a a = exact_cost tf a a" unfolding exact_cost_def by (rule band_split) simp_all
  then show ?thesis by simp
qed

lemma round_near: "\<bar>of_int (js_round x) - x\<bar> \<le> 1 / 2"
  unfolding js_round_def by linarith

lemma cents_near:
  assumes "tiers_ok (tf_tiers tf)" "tf_tiers tf \<noteq> []" "0 \<le> a" "0 \<le> k"
  shows "\<exists>c. es_cents (costCentsForRange tf a (Num k)) = Some c \<and> \<bar>of_int c - exact_cost tf a (a + k) * 100\<bar> \<le> 1 / 2"
proof (cases "k = 0")
  case True
  then show ?thesis by (simp add: costCentsForRange_def exact_same)
next
  case False
  obtain cost paid where r: "range_cost tf a k = (cost, paid)" by fastforce
  then have "cost = exact_cost tf a (a + k)" using range_exact [OF assms(1, 3, 4)] by simp
  then show ?thesis using round_near [of "cost * 100"] False assms(2, 4) r by (simp add: costCentsForRange_def)
qed

section \<open>The events of a period\<close>

definition kwh_of :: "energy_row \<Rightarrow> rat" where
  "kwh_of r = (case er_kwh r of NaN \<Rightarrow> 0 | Num k \<Rightarrow> k)"

lemma cumulate_other: "i \<notin> er_id ` set xs \<Longrightarrow> map_of (cumulate run xs m) i = map_of m i"
  by (induction xs arbitrary: run m) (auto simp: map_of_update)

lemma cumulate_at:
  "distinct (map er_id (pre @ r # post)) \<Longrightarrow>
    map_of (cumulate run (pre @ r # post) m) (er_id r) = Some (run + sum_list (map kwh_of pre))"
proof (induction pre arbitrary: run m)
  case Nil
  then show ?case by (simp add: cumulate_other map_of_update)
next
  case (Cons x pre)
  then show ?case by (simp add: kwh_of_def add.assoc)
qed

lemma near_sum:
  fixes x y a b n :: rat
  shows "\<bar>x - a\<bar> \<le> 1 / 2 \<Longrightarrow> \<bar>y - b\<bar> \<le> n / 2 \<Longrightarrow> \<bar>(x + y) - (a + b)\<bar> \<le> (1 + n) / 2"
  unfolding abs_le_iff by (simp add: field_simps)

lemma sum_estimates:
  assumes "tiers_ok (tf_tiers tf)" "tf_tiers tf \<noteq> []" "0 \<le> run"
    "\<forall>r \<in> set xs. er_kwh r = Num (kwh_of r) \<and> 0 \<le> kwh_of r"
    "\<forall>pre r post. xs = pre @ r # post \<longrightarrow> est r = costCentsForRange tf (run + sum_list (map kwh_of pre)) (er_kwh r)"
  shows "\<forall>r \<in> set xs. es_cents (est r) \<noteq> None"
    and "\<bar>of_int (sum_list (map (\<lambda>r. the (es_cents (est r))) xs)) - exact_cost tf run (run + sum_list (map kwh_of xs)) * 100\<bar>
      \<le> of_nat (length xs) / 2"
proof -
  have "(\<forall>r \<in> set xs. es_cents (est r) \<noteq> None)
    \<and> \<bar>of_int (sum_list (map (\<lambda>r. the (es_cents (est r))) xs)) - exact_cost tf run (run + sum_list (map kwh_of xs)) * 100\<bar>
      \<le> of_nat (length xs) / 2"
    using assms(3-5)
  proof (induction xs arbitrary: run)
    case Nil
    then show ?case by (simp add: exact_same)
  next
    case (Cons x xs)
    have k: "er_kwh x = Num (kwh_of x)" "0 \<le> kwh_of x" using Cons.prems(2) by simp_all
    have e: "est x = costCentsForRange tf run (Num (kwh_of x))"
      using Cons.prems(3) [rule_format, of "[]" x xs] k(1) by simp
    obtain c where c: "es_cents (est x) = Some c" "\<bar>of_int c - exact_cost tf run (run + kwh_of x) * 100\<bar> \<le> 1 / 2"
      using cents_near [OF assms(1, 2) Cons.prems(1) k(2)] e by auto
    have rest: "\<forall>pre r post. xs = pre @ r # post \<longrightarrow> est r = costCentsForRange tf (run + kwh_of x + sum_list (map kwh_of pre)) (er_kwh r)"
    proof (intro allI impI)
      fix pre r post
      assume "xs = pre @ r # post"
      then show "est r = costCentsForRange tf (run + kwh_of x + sum_list (map kwh_of pre)) (er_kwh r)"
        using Cons.prems(3) [rule_format, of "x # pre" r post] by (simp add: add.assoc)
    qed
    have pos: "0 \<le> sum_list (map kwh_of xs)" using Cons.prems(2) by (intro sum_list_nonneg) auto
    have ih: "(\<forall>r \<in> set xs. es_cents (est r) \<noteq> None)
      \<and> \<bar>of_int (sum_list (map (\<lambda>r. the (es_cents (est r))) xs))
          - exact_cost tf (run + kwh_of x) (run + kwh_of x + sum_list (map kwh_of xs)) * 100\<bar> \<le> of_nat (length xs) / 2"
      using Cons.IH [OF _ _ rest] Cons.prems(1, 2) k(2) by simp
    have "exact_cost tf run (run + kwh_of x) + exact_cost tf (run + kwh_of x) (run + kwh_of x + sum_list (map kwh_of xs))
        = exact_cost tf run (run + kwh_of x + sum_list (map kwh_of xs))"
      unfolding exact_cost_def using k(2) pos by (intro band_split) simp_all
    then have "exact_cost tf run (run + sum_list (map kwh_of (x # xs))) * 100
        = exact_cost tf run (run + kwh_of x) * 100 + exact_cost tf (run + kwh_of x) (run + kwh_of x + sum_list (map kwh_of xs)) * 100"
      by (simp add: add.assoc flip: distrib_right)
    then show ?case using ih c near_sum [OF c(2) conjunct2 [OF ih]] by simp
  qed
  then show "\<forall>r \<in> set xs. es_cents (est r) \<noteq> None"
    and "\<bar>of_int (sum_list (map (\<lambda>r. the (es_cents (est r))) xs)) - exact_cost tf run (run + sum_list (map kwh_of xs)) * 100\<bar>
      \<le> of_nat (length xs) / 2" by blast+
qed

lemma sum_list_sorted:
  fixes f :: "'a \<Rightarrow> 'b::comm_monoid_add"
  shows "sum_list (map f (sort_key g xs)) = sum_list (map f xs)"
  by (metis mset_map mset_sort sum_mset_sum_list)

lemma aggregate_known:
  assumes "es \<noteq> []" "\<forall>e \<in> set es. es_cents e \<noteq> None"
  shows "es_cents (aggregateEstimates es) = Some (sum_list (map (\<lambda>e. the (es_cents e)) es))"
proof -
  have "filter (\<lambda>e. es_cents e \<noteq> None) es = es" using assms(2) by (intro filter_True)
  then show ?thesis using assms(1) by (simp add: aggregateEstimates_def Let_def)
qed

section \<open>The properties\<close>

text \<open>
  C15. The per-event estimates of a period add up to the price of its energy: with a tiered tariff whose bands have
  sizes that are not negative, and events of the period with distinct ids and energies that are finite and not
  negative, the aggregate of the estimates, each computed from the running total built by
  \<open>buildCumulativeMap\<close>, is a number of cents that differs from the price of the total energy, band by band
  from zero, by at most half a cent for each event, whatever the order of the rows.
\<close>
theorem estimates_add_up:
  assumes "tiers_ok (tf_tiers tf)" "tf_tiers tf \<noteq> []" "rows \<noteq> []" "distinct (map er_id rows)"
    "\<forall>r \<in> set rows. from_ms \<le> er_syncedAt r \<and> er_syncedAt r < to_ms \<and> er_kwh r = Num (kwh_of r) \<and> 0 \<le> kwh_of r"
  shows "\<exists>c. es_cents (aggregateEstimates
           (map (\<lambda>r. estimateEventCost tf r (buildCumulativeMap rows) from_ms to_ms) rows)) = Some c
    \<and> \<bar>of_int c - exact_cost tf 0 (sum_list (map kwh_of rows)) * 100\<bar> \<le> of_nat (length rows) / 2"
proof -
  define est where "est r = estimateEventCost tf r (buildCumulativeMap rows) from_ms to_ms" for r
  define xs where "xs = sort_key er_syncedAt rows"
  have xs: "set xs = set rows" "length xs = length rows" by (simp_all add: xs_def)
  have "distinct (map er_id xs)"
    using assms(4) by (simp add: xs_def distinct_map)
  then have est_at: "est r = costCentsForRange tf (0 + sum_list (map kwh_of pre)) (er_kwh r)" if "xs = pre @ r # post" for pre r post
  proof -
    assume d: "distinct (map er_id xs)"
    have "r \<in> set rows" using that xs(1) by (metis in_set_conv_decomp)
    moreover have "map_of (buildCumulativeMap rows) (er_id r) = Some (0 + sum_list (map kwh_of pre))"
      using cumulate_at [of pre r post 0 "[]"] d that unfolding buildCumulativeMap_def xs_def [symmetric] by simp
    ultimately show ?thesis using assms(2, 5) by (simp add: est_def estimateEventCost_def)
  qed
  have k: "\<forall>r \<in> set xs. er_kwh r = Num (kwh_of r) \<and> 0 \<le> kwh_of r" using assms(5) xs(1) by simp
  have sums: "sum_list (map f xs) = sum_list (map f rows)" for f :: "energy_row \<Rightarrow> int"
    by (simp add: xs_def sum_list_sorted)
  have ksum: "sum_list (map kwh_of xs) = sum_list (map kwh_of rows)"
    by (simp add: xs_def sum_list_sorted)
  have est_all: "\<forall>pre r post. xs = pre @ r # post \<longrightarrow> est r = costCentsForRange tf (0 + sum_list (map kwh_of pre)) (er_kwh r)"
    using est_at by blast
  note s = sum_estimates [OF assms(1, 2) order_refl k est_all]
  have "es_cents (aggregateEstimates (map est rows)) = Some (sum_list (map (\<lambda>e. the (es_cents e)) (map est rows)))"
    using s(1) assms(3) xs(1) by (intro aggregate_known) auto
  moreover have "map (\<lambda>r. estimateEventCost tf r (buildCumulativeMap rows) from_ms to_ms) rows = map est rows"
    by (simp add: est_def)
  ultimately show ?thesis using s(2) by (simp only: sums ksum xs(2) map_map o_def) simp
qed

definition two_tiers :: tariff where
  "two_tiers = \<lparr>tf_perKwh = Some 1, tf_tiers = [\<lparr>tr_upToKwh = Some 100, tr_pricePerKwh = Some 0\<rparr>,
     \<lparr>tr_upToKwh = Some 50, tr_pricePerKwh = Some (1 / 3)\<rparr>], tf_currency = ''EUR''\<rparr>"

theorem estimates_add_up_witness:
  "\<exists>c. es_cents (aggregateEstimates
           (map (\<lambda>r. estimateEventCost two_tiers r
              (buildCumulativeMap [\<lparr>er_id = 2, er_syncedAt = 5, er_kwh = Num 70\<rparr>, \<lparr>er_id = 1, er_syncedAt = 3, er_kwh = Num 90\<rparr>]) 0 10)
             [\<lparr>er_id = 2, er_syncedAt = 5, er_kwh = Num 70\<rparr>, \<lparr>er_id = 1, er_syncedAt = 3, er_kwh = Num 90\<rparr>])) = Some c
    \<and> \<bar>of_int c - exact_cost two_tiers 0 160 * 100\<bar> \<le> 1"
proof -
  have "\<exists>c. es_cents (aggregateEstimates
           (map (\<lambda>r. estimateEventCost two_tiers r
              (buildCumulativeMap [\<lparr>er_id = 2, er_syncedAt = 5, er_kwh = Num 70\<rparr>, \<lparr>er_id = 1, er_syncedAt = 3, er_kwh = Num 90\<rparr>]) 0 10)
             [\<lparr>er_id = 2, er_syncedAt = 5, er_kwh = Num 70\<rparr>, \<lparr>er_id = 1, er_syncedAt = 3, er_kwh = Num 90\<rparr>])) = Some c
    \<and> \<bar>of_int c - exact_cost two_tiers 0 (sum_list (map kwh_of
         [\<lparr>er_id = 2, er_syncedAt = 5, er_kwh = Num 70\<rparr>, \<lparr>er_id = 1, er_syncedAt = 3, er_kwh = Num 90\<rparr>])) * 100\<bar>
      \<le> of_nat (length [\<lparr>er_id = 2, er_syncedAt = 5, er_kwh = Num 70\<rparr>, \<lparr>er_id = 1, er_syncedAt = 3, er_kwh = Num 90\<rparr>]) / 2"
    by (rule estimates_add_up) (simp_all add: two_tiers_def kwh_of_def tiers_ok_def)
  then show ?thesis by (simp add: kwh_of_def)
qed

text \<open>
  A graduated charge as Lago documents it: each range starts one above the end of the range before it, and the last
  has no end.
\<close>

fun lago_range :: "int \<Rightarrow> int option \<Rightarrow> string \<Rightarrow> json" where
  "lago_range lo hi price =
     JObj [(''from_value'', JNum (of_int lo)), (''to_value'', case hi of None \<Rightarrow> JNull | Some h \<Rightarrow> JNum (of_int h)),
           (''flat_amount'', JStr ''0''), (''per_unit_amount'', JStr price)]"

definition lago_plan :: "int \<Rightarrow> int \<Rightarrow> string \<Rightarrow> string \<Rightarrow> string \<Rightarrow> json" where
  "lago_plan n m p q r =
     JObj [(''charges'', JArr [JObj [(''charge_model'', JStr ''graduated''),
       (''properties'', JObj [(''graduated_ranges'',
          JArr [lago_range 0 (Some n) p, lago_range (n + 1) (Some m) q, lago_range (m + 1) None r])])]])]"

definition documented_tiers :: "int \<Rightarrow> int \<Rightarrow> string \<Rightarrow> string \<Rightarrow> string \<Rightarrow> plan_tier list" where
  "documented_tiers n m p q r =
     [\<lparr>tr_upToKwh = Some (of_int n), tr_pricePerKwh = parse_float p\<rparr>,
      \<lparr>tr_upToKwh = Some (of_int (m - n)), tr_pricePerKwh = parse_float q\<rparr>,
      \<lparr>tr_upToKwh = None, tr_pricePerKwh = parse_float r\<rparr>]"

lemma lago_plan_tiers:
  "map_option pl_tiers (derivePlanInfo (Some (lago_plan n m p q r)) c s) = Some
     [\<lparr>tr_upToKwh = Some (of_int n), tr_pricePerKwh = parse_float p\<rparr>,
      \<lparr>tr_upToKwh = Some (of_int (m - n) - 1), tr_pricePerKwh = parse_float q\<rparr>,
      \<lparr>tr_upToKwh = None, tr_pricePerKwh = parse_float r\<rparr>]"
  by (simp add: derivePlanInfo_def lago_plan_def charge_step_def tier_of_def text_or_num_def or_null_def as_arr_def
      field_def as_str_def)

lemma band_three:
  assumes "0 \<le> x" "0 \<le> y" "x + y \<le> b"
  shows "band_cost f [\<lparr>tr_upToKwh = Some x, tr_pricePerKwh = p\<rparr>, \<lparr>tr_upToKwh = Some y, tr_pricePerKwh = q\<rparr>,
      \<lparr>tr_upToKwh = None, tr_pricePerKwh = r\<rparr>] 0 0 b
    = x * (case p of None \<Rightarrow> 0 | Some v \<Rightarrow> v) + y * (case q of None \<Rightarrow> 0 | Some v \<Rightarrow> v)
      + (b - x - y) * (case r of None \<Rightarrow> 0 | Some v \<Rightarrow> v)"
  using assms by (simp add: part_def rate_of_def max_def min_def)

text \<open>
  C40. The second tier of a graduated plan is one kWh too short: for a plan with the ranges 0 to n, n + 1 to m and
  above, as Lago documents them, the tariff prices an energy above m as if one kWh of the second range belonged to
  the last: its price exceeds the price by the documented ranges by the last rate less the second one.
\<close>
theorem later_tier_one_short:
  assumes "derivePlanInfo (Some (lago_plan n m p q r)) 0 s = Some i" "tf_tiers tf = pl_tiers i" "tf_perKwh tf = pl_perKwhCharge i"
    "0 \<le> n" "n < m" "of_int m \<le> b" "parse_float q = Some mid" "parse_float r = Some high"
  shows "fst (range_cost tf 0 b) = band_cost 0 (documented_tiers n m p q r) 0 0 b + (high - mid)"
proof -
  let ?ts = "[\<lparr>tr_upToKwh = Some (of_int n), tr_pricePerKwh = parse_float p\<rparr>,
      \<lparr>tr_upToKwh = Some (of_int (m - n) - 1), tr_pricePerKwh = parse_float q\<rparr>,
      \<lparr>tr_upToKwh = None, tr_pricePerKwh = parse_float r\<rparr>] :: plan_tier list"
  have ts: "tf_tiers tf = ?ts" using lago_plan_tiers [of n m p q r 0 s] assms(1, 2) by simp
  have nm: "rat_of_int n + 1 \<le> of_int m" "0 \<le> rat_of_int n" using assms(4, 5) by linarith+
  then have "tiers_ok ?ts" by simp
  then have "fst (range_cost tf 0 b) = exact_cost tf 0 (0 + b)"
    using ts nm assms(6) by (intro range_exact) simp_all
  also have "\<dots> = of_int n * (case parse_float p of None \<Rightarrow> 0 | Some v \<Rightarrow> v) + (of_int (m - n) - 1) * mid
      + (b - of_int n - (of_int (m - n) - 1)) * high"
    using band_three [of "of_int n" "of_int (m - n) - 1" b] ts nm assms(6-8) by (simp add: exact_cost_def)
  also have "\<dots> = band_cost 0 (documented_tiers n m p q r) 0 0 b + (high - mid)"
    using band_three [of "of_int n" "of_int (m - n)" b 0 "parse_float p" "parse_float q" "parse_float r"] nm assms(6-8)
    by (simp add: documented_tiers_def algebra_simps)
  finally show ?thesis .
qed

definition priced :: tariff where
  "priced = (case derivePlanInfo (Some (lago_plan 100 200 ''0'' ''0.2'' ''1.0'')) 0 ''E'' of
     None \<Rightarrow> no_tariff | Some i \<Rightarrow> \<lparr>tf_perKwh = pl_perKwhCharge i, tf_tiers = pl_tiers i, tf_currency = ''EUR''\<rparr>)"

theorem later_tier_one_short_witness:
  "fst (range_cost priced 0 200) = 20 + 4 / 5"
proof -
  obtain i where i: "derivePlanInfo (Some (lago_plan 100 200 ''0'' ''0.2'' ''1.0'')) 0 ''E'' = Some i"
    using lago_plan_tiers [of 100 200 "''0''" "''0.2''" "''1.0''" 0 "''E''"] by auto
  have "parse_float ''0.2'' = Some (1 / 5)" "parse_float ''1.0'' = Some 1" "parse_float ''0'' = Some 0" by code_simp+
  note f = this
  have "fst (range_cost priced 0 200) = band_cost 0 (documented_tiers 100 200 ''0'' ''0.2'' ''1.0'') 0 0 200 + (1 - 1 / 5)"
    by (rule later_tier_one_short [OF i]) (simp_all add: priced_def i f)
  then show ?thesis by (simp add: documented_tiers_def f part_def rate_of_def)
qed

end
