(* ===== verification/Spec2Isabelle.thy ===== *)
theory Spec2Isabelle
  imports Incremental Worker Reservations Guards ScanLogin AutoStop DeviceControl
    Reconcile Notices Profiles Customer Tariffs
begin

text \<open>
  ExpresSync is the service between a StEvE server, which speaks OCPP to the charging stations, and a
  Lago server, which bills. It keeps a PostgreSQL database of its own, serves an operator's console
  and a customer's portal, and lets phones take part as scanners and remote controls. This library
  models its logic in the order the program uses it; paths are relative to the application.

  \<^bold>\<open>Billing.\<close>
  A cron schedule starts sync runs. A run reads the transactions and tags of StEvE, finds for each
  tag the customer it bills to, turns every open transaction into the energy not billed yet, sends
  that as events to Lago in batches and stores how far each transaction has been billed. Between
  the runs an emitter bills the meter samples of running sessions.

  \<^item> \<open>Tags\<close>: the hierarchy of OCPP tags (\<open>src/lib/tag-hierarchy.ts\<close>).
  \<^item> \<open>Mappings\<close>: which customer a tag bills to, directly or by inheritance, and the choice of a
    subscription (\<open>src/services/mapping-resolver.ts\<close>).
  \<^item> \<open>SyncDb\<close>: the tables of a run and its lock (\<open>src/services/sync-db.ts\<close>).
  \<^item> \<open>Processor\<close>: from a transaction to a work item (\<open>src/services/transaction-processor.ts\<close>).
  \<^item> \<open>LagoEvents\<close>: from a work item to an event, and batches (\<open>src/services/lago-event-builder.ts\<close>).
  \<^item> \<open>TagSync\<close>: the state of the tags in StEvE (\<open>src/services/tag-sync.service.ts\<close>).
  \<^item> \<open>SyncLog\<close>: the log of a run (\<open>src/services/sync-logger.ts\<close>).
  \<^item> \<open>SyncRun\<close>: the run itself (\<open>src/services/sync.service.ts\<close>).
  \<^item> \<open>Scheduler\<close>, \<open>Worker\<close>: the cadence and the handler (\<open>src/services/sync-scheduler.ts\<close>,
    \<open>sync-worker.ts\<close>).
  \<^item> \<open>Incremental\<close>: the emitter, split at its awaits (\<open>src/services/incremental-billing.service.ts\<close>).

  \<^bold>\<open>Charging.\<close>
  \<^item> \<open>Reservations\<close>: booking and its resolver (\<open>src/services/reservation.service.ts\<close>,
    \<open>src/services/reservation-resolver.service.ts\<close>).
  \<^item> \<open>AutoStop\<close>: sessions stopped by the server (\<open>src/services/auto-stop.service.ts\<close>,
    \<open>src/services/pair-intent-watchdog.ts\<close>).
  \<^item> \<open>MetaTags\<close>: the tags the service keeps in StEvE (\<open>src/lib/customer-meta-tags.ts\<close>).
  \<^item> \<open>DeviceControl\<close>: starts, stops and cancellations from a phone (\<open>start.ts\<close>, \<open>stop.ts\<close>,
    \<open>cancel-reservation.ts\<close> under \<open>routes/api/admin/devices/[deviceId]\<close>, \<open>src/lib/chargers/online.ts\<close>).

  \<^bold>\<open>Identity.\<close>
  \<^item> \<open>Guards\<close>: rate limits, idempotency keys, retries (\<open>src/lib/utils/rate-limit.ts\<close>,
    \<open>src/lib/idempotency.ts\<close>, \<open>src/lib/utils/retry.ts\<close>).
  \<^item> \<open>Pairing\<close>, \<open>Scan\<close>, \<open>ScanLogin\<close>: a tap is armed, taken by a charger or a phone, and completed with
    a session (\<open>src/services/scan-arm.service.ts\<close> and the scan endpoints).
  \<^item> \<open>Access\<close>: who reaches which handler (\<open>src/lib/hostname-dispatch.ts\<close>, \<open>main.ts\<close>,
    \<open>src/lib/route-classifier.ts\<close>, \<open>src/lib/devices/bearer-auth.ts\<close>, \<open>src/lib/origin.ts\<close>,
    \<open>routes/_middleware.ts\<close>).
  \<^item> \<open>Registration\<close>: a phone becomes a device and stops being one
    (\<open>src/lib/devices/registration.ts\<close>, \<open>routes/api/devices/register.ts\<close>,
    \<open>routes/api/auth/qr-sign-in.ts\<close>, \<open>deregister.ts\<close>).
  \<^item> \<open>Settings\<close>, \<open>DeviceSync\<close>: settings, flags and logs of a phone (\<open>src/lib/devices\<close>,
    \<open>routes/api/devices/me/state/sync.ts\<close>).

  \<^bold>\<open>The copy of Lago.\<close>
  Lago is the source of truth for customers, subscriptions, plans, metrics, invoices and wallets. A
  reconcile pass and the webhooks keep a copy in the database; accounts of the portal follow the
  customers.

  \<^item> \<open>LagoTypes\<close>: the schemas answers and webhooks are parsed with (\<open>src/lib/types/lago.ts\<close>).
  \<^item> \<open>LagoCache\<close>: the cached tables, the passes and the writes of single webhooks
    (\<open>src/services/lago-reconcile\<close>).
  \<^item> \<open>Accounts\<close>: the account of a customer (\<open>src/services/customer-account-provisioner.ts\<close>).
  \<^item> \<open>Reconcile\<close>: the local pass and the logged sequence of segments (\<open>local.ts\<close>, \<open>index.ts\<close>, \<open>util.ts\<close>
    of the same directory).
  \<^item> \<open>Webhooks\<close>: audit rows, circuit breaker, reactions, replays and the endpoint
    (\<open>src/services/lago-webhook-handler.service.ts\<close>, \<open>routes/api/webhook/lago.ts\<close>,
    \<open>src/lib/utils/lago-signature.ts\<close>).

  \<^bold>\<open>What customers and operators see.\<close>
  \<^item> \<open>EventBus\<close>: the bus between requests and the streams to browsers
    (\<open>src/services/event-bus.service.ts\<close>, \<open>src/lib/sse.ts\<close>, \<open>src/lib/sse-transport.ts\<close>).
  \<^item> \<open>Notices\<close>: notifications, their feeds, endpoints and streams
    (\<open>src/services/notification.service.ts\<close>).
  \<^item> \<open>Profiles\<close>: charging profiles and the schedule they mean
    (\<open>src/services/charging-profile.service.ts\<close>).
  \<^item> \<open>Customer\<close>: the scope of a customer and the endpoints on reservations, sessions and cards
    (\<open>src/lib/scoping.ts\<close>, \<open>src/lib/capabilities.ts\<close>, \<open>routes/api/customer\<close>).
  \<^item> \<open>Tariffs\<close>: the estimated cost of a session (\<open>src/lib/customer-tariff.ts\<close>,
    \<open>derivePlanInfo\<close> of \<open>src/lib/billing-derive.ts\<close>).

  The parts meet in the state: a run of \<open>SyncRun\<close> is followed by one of \<open>Reconcile\<close>; a webhook changes the
  cache of \<open>LagoCache\<close>, the mappings that \<open>Mappings\<close> reads and starts the stops of \<open>AutoStop\<close>
  (\<open>terminated_sessions_stopped\<close>); a card that \<open>Customer\<close> switches off is switched on again by \<open>Webhooks\<close>
  (\<open>lost_card_comes_back\<close>); a notice of \<open>Notices\<close> is an event of \<open>EventBus\<close>.

  \<open>Prelude\<close> and \<open>Dates\<close> hold what they share: JavaScript numbers, strings, maps and dates.

  \<^bold>\<open>Correspondence.\<close> A table is a list of rows, a row a record with the columns the code reads; unique
  columns and check constraints are conditions of the inserts. A JavaScript \<open>Map\<close> is an association
  list in insertion order. A kWh amount is an exact rational or NaN with the explicit roundings of
  the source; instants are milliseconds. An operation takes the state and returns it; a raise is
  \<open>None\<close> or \<open>Inl\<close>, an HTTP reply a value. The outcome of every statement, of StEvE, of Lago, of the
  session library and of the clocks is an argument, so that each theorem holds for any behaviour of
  them; what is relied on is a named hypothesis (\<open>steve_up\<close>). Interleavings are inductive step
  relations (\<open>Incremental\<close>, \<open>Scan\<close>, \<open>Registration\<close>, \<open>AutoStop\<close>, \<open>DeviceControl\<close>).

  \<^bold>\<open>What the lemmas show.\<close> A run bills the metered energy up to a rounding step, never bills a
  finalised transaction again, keeps what it could not send and releases its lock; the emitter stays
  within the energy it was told of; tag synchronisation converges; reservations of one plug never
  overlap; a limit lets exactly its number of requests pass and a key runs its request once; a scan
  signs in the owner of the card that was tapped; the console needs an admin; a code registers one
  device and a removed device stays out; commands to chargers are logged. A pass over the customers
  leaves exactly Lago's; resolving an account keeps the accounts apart; the failure counters are a
  breaker of three phases; the end of a subscription reaches its mappings, tags and sessions; a replay of
  the bus is exact within its window; archive pages put together are the archive; a charging schedule
  means its windows; a customer reaches only what is the customer's own; estimates add up to the price of
  the energy within half a cent each. Theorems of the kind \<open>error\<close> state where the code does not do what
  its comments say.

  \<^bold>\<open>Bounds.\<close> Fuel is not used: loops are structural or have a measure (\<open>ancestor_loop\<close>, \<open>child_dfs\<close>,
  \<open>batch_loop\<close>, \<open>sql_like\<close>). 64-bit sequence numbers of the logs are checked against their column.

  \<^bold>\<open>Not modelled.\<close> IEEE rounding of doubles; the pages, islands and components of the browser; the
  HTTP clients of Lago and StEvE (their answers are arguments); the text of mails and push messages;
  the reconnection of the Postgres listener; the read-only listings of the console, of phones and of the
  portal (sessions, cards, invoices, usage); the forms of the console beyond tags, devices, charger
  control, notices, webhooks and profiles; signature cryptography, which is an argument.
\<close>

end
